(* ===== verification/Prelude.thy ===== *)
theory Prelude
  imports Main "HOL-Library.List_Lexorder" "HOL-Library.Char_ord" "HOL-Library.Product_Lexorder"
begin

text \<open>
  Shared vocabulary of the development: the collections of rewrite rules the components feed,
  fallible results as sums, decimal and hexadecimal rendering as Go's \<open>strconv.Itoa\<close> and
  \<open>hex.EncodeToString\<close> print them, the identifier shape every durable artifact of the program
  uses, and generic lemmas on lists and maps.  Go strings are byte strings: they are modelled by
  \<^typ>\<open>string\<close> and compared by the lexicographic order on bytes.
\<close>

named_theorems result_simps "rewrite rules that split fallible results"
named_theorems path_simps "rewrite rules for file names and identifiers"

section \<open>Fallible results\<close>

type_synonym ('e, 'a) result = "'e + 'a"

definition rbind :: "('e, 'a) result \<Rightarrow> ('a \<Rightarrow> ('e, 'b) result) \<Rightarrow> ('e, 'b) result" where
  "rbind r f = (case r of Inl e \<Rightarrow> Inl e | Inr x \<Rightarrow> f x)"

lemma rbind_Inl [simp]: "rbind (Inl e) f = Inl e"
  by (simp add: rbind_def)

lemma rbind_Inr [simp]: "rbind (Inr x) f = f x"
  by (simp add: rbind_def)

lemma rbind_eq_Inr [result_simps]: "rbind r f = Inr y \<longleftrightarrow> (\<exists>x. r = Inr x \<and> f x = Inr y)"
  by (cases r) auto

lemma rbind_eq_Inl [result_simps]:
  "rbind r f = Inl e \<longleftrightarrow> r = Inl e \<or> (\<exists>x. r = Inr x \<and> f x = Inl e)"
  by (cases r) auto

definition isOk :: "('e, 'a) result \<Rightarrow> bool" where
  "isOk r = (case r of Inl _ \<Rightarrow> False | Inr _ \<Rightarrow> True)"

lemma isOk_simps [simp]: "isOk (Inl e) = False" "isOk (Inr x) = True"
  by (simp_all add: isOk_def)

lemma isOk_iff [result_simps]: "isOk r \<longleftrightarrow> (\<exists>x. r = Inr x)"
  by (cases r) auto

section \<open>Rendering numbers and bytes\<close>

definition digit :: "nat \<Rightarrow> char" where
  "digit n = char_of (48 + n)"

fun utoa :: "nat \<Rightarrow> string" where
  "utoa n = (if n < 10 then [digit n] else utoa (n div 10) @ [digit (n mod 10)])"

declare utoa.simps [simp del]

definition itoa :: "int \<Rightarrow> string" where
  "itoa i = (if i < 0 then CHR ''-'' # utoa (nat (- i)) else utoa (nat i))"

lemma utoa_nonempty [simp]: "utoa n \<noteq> []"
  by (subst utoa.simps) simp

lemma of_char_digit: "n < 10 \<Longrightarrow> of_char (digit n) = (48 + n :: nat)"
  by (simp add: digit_def)

fun atou :: "nat \<Rightarrow> string \<Rightarrow> nat" where
  "atou acc [] = acc"
| "atou acc (c # cs) = atou (acc * 10 + (of_char c - 48)) cs"

lemma atou_append: "atou acc (xs @ ys) = atou (atou acc xs) ys"
  by (induction xs arbitrary: acc) auto

lemma atou_utoa: "atou 0 (utoa n) = n"
proof (induction n rule: utoa.induct)
  case (1 n)
  show ?case
  proof (cases "n < 10")
    case True
    then show ?thesis by (subst utoa.simps) (simp add: of_char_digit)
  next
    case False
    with 1 show ?thesis
      by (subst utoa.simps) (simp add: atou_append of_char_digit)
  qed
qed

lemma utoa_inject [simp]: "utoa m = utoa n \<longleftrightarrow> m = n"
  by (metis atou_utoa)

definition isDigit :: "char \<Rightarrow> bool" where
  "isDigit c \<longleftrightarrow> c \<in> set ''0123456789''"

definition isLowerHex :: "char \<Rightarrow> bool" where
  "isLowerHex c \<longleftrightarrow> c \<in> set ''0123456789abcdef''"

definition hexDigit :: "nat \<Rightarrow> char" where
  "hexDigit n = ''0123456789abcdef'' ! n"

lemma isLowerHex_hexDigit: "n < 16 \<Longrightarrow> isLowerHex (hexDigit n)"
  unfolding isLowerHex_def hexDigit_def by (rule nth_mem) simp

fun hexEncode :: "nat list \<Rightarrow> string" where
  "hexEncode [] = []"
| "hexEncode (b # bs) = hexDigit (b mod 256 div 16) # hexDigit (b mod 16) # hexEncode bs"

lemma length_hexEncode [simp]: "length (hexEncode bs) = 2 * length bs"
  by (induction bs) auto

lemma list_all_hexEncode [simp]: "list_all isLowerHex (hexEncode bs)"
  by (induction bs) (auto intro!: isLowerHex_hexDigit)

section \<open>Identifiers\<close>

text \<open>
  Plans, approvals, decisions and operations share one identifier discipline: a four or three
  byte prefix and sixteen lower-case hexadecimal digits, checked by a regular expression before an
  identifier may become a file name.
\<close>

definition hasPrefix :: "string \<Rightarrow> string \<Rightarrow> bool" where
  "hasPrefix p s \<longleftrightarrow> take (length p) s = p"

definition hexId :: "string \<Rightarrow> string \<Rightarrow> bool" where
  "hexId p s \<longleftrightarrow>
     hasPrefix p s \<and> length s = length p + 16 \<and> list_all isLowerHex (drop (length p) s)"

definition mintId :: "string \<Rightarrow> nat list \<Rightarrow> string" where
  "mintId p bs = p @ hexEncode bs"

lemma hasPrefix_append [simp]: "hasPrefix p (p @ s)"
  by (simp add: hasPrefix_def)

lemma hexId_mintId [path_simps]: "length bs = 8 \<Longrightarrow> hexId p (mintId p bs)"
  by (simp add: hexId_def mintId_def)

lemma hexId_chars:
  assumes "hexId p s" and "c \<in> set s"
  shows "c \<in> set p \<or> isLowerHex c"
proof -
  from assms(1) have s: "s = p @ drop (length p) s"
    by (metis append_take_drop_id hasPrefix_def hexId_def)
  from assms(2) have "c \<in> set p \<or> c \<in> set (drop (length p) s)"
    by (subst (asm) s) auto
  with assms(1) show ?thesis by (auto simp: hexId_def list_all_iff)
qed

section \<open>Lists and maps\<close>

fun removeFirst :: "'a \<Rightarrow> 'a list \<Rightarrow> 'a list" where
  "removeFirst x [] = []"
| "removeFirst x (y # ys) = (if x = y then ys else y # removeFirst x ys)"

lemma removeFirst_remove1 [simp]: "removeFirst x ys = remove1 x ys"
  by (induction ys) auto

lemma sorted_sort_key_desc: "sorted (map (\<lambda>x. - f x) (sort_key (\<lambda>x. - f x :: int) xs))"
  by (rule sorted_sort_key)

lemma map_of_distinct_mem:
  "distinct (map fst xs) \<Longrightarrow> (k, v) \<in> set xs \<Longrightarrow> map_of xs k = Some v"
  by simp

end
