(* ===== verification/Errors.thy ===== *)
theory Errors
  imports Prelude
begin

text \<open>
  The structured error vocabulary (\<open>internal/errors\<close>): one constructor per declared code,
  \<open>CodeOther\<close> for any other value of the Go string type \<open>Code\<close>, the retryability
  classification and the code of wrapped errors.  A Go \<open>error\<close> is modelled by the structured
  code it carries together with its chain of causes; message texts are presentation and are left out.
\<close>

datatype (plugins only: code) code =
    CodeOK
  | CodeUnknown
  | CodeInvalidArgument
  | CodeNotFound
  | CodeAlreadyExists
  | CodePermissionDenied
  | CodeUnauthenticated
  | CodeUnauthorized
  | CodeInvalidCredentials
  | CodeSessionExpired
  | CodeRateLimited
  | CodeConfiguration
  | CodeValidation
  | CodeIdempotencyConflict
  | CodePlanInvalid
  | CodePlanCorrupt
  | CodePlanHashMismatch
  | CodePlanStale
  | CodePlanCapabilityMissing
  | CodeAuthzDenied
  | CodeAuthzUnavailable
  | CodeAuthzInvalid
  | CodeApprovalRequired
  | CodeApprovalStale
  | CodeApprovalInvalid
  | CodeSessionInvalid
  | CodeSessionCorrupt
  | CodeSessionInvalidTransition
  | CodeSessionConflict
  | CodeBuildFailed
  | CodeToolchainNotFound
  | CodeBuildTimeout
  | CodeUnsupportedProject
  | CodeGitSyncFailed
  | CodeDeployFailed
  | CodeInstanceStartFailed
  | CodeHealthCheckFailed
  | CodeDeployLocked
  | CodeVersionNotFound
  | CodeSecretNotFound
  | CodeCanaryRegression
  | CodeWorkspaceLocked
  | CodeRollbackFailed
  | CodeRollbackTargetNotFound
  | CodeRollbackVerifyFailed
  | CodeAutoRollbackFailed
  | CodeProcessFailed
  | CodeFilesystem
  | CodeResourceOOM
  | CodeDocker
  | CodeDockerDaemonUnavailable
  | CodeNetwork
  | CodeConnection
  | CodeTimeout
  | CodeUpdateFailed
  | CodeProxy
  | CodePortUnavailable
  | CodeGRPC
  | CodeServer
  | CodeEncryption
  | CodeUnimplemented
  | CodeUnavailable
  | CodeOther string

primrec code_String :: "code \<Rightarrow> string" where
  "code_String CodeOK = ''OK''"
| "code_String CodeUnknown = ''UNKNOWN''"
| "code_String CodeInvalidArgument = ''INVALID_ARGUMENT''"
| "code_String CodeNotFound = ''NOT_FOUND''"
| "code_String CodeAlreadyExists = ''ALREADY_EXISTS''"
| "code_String CodePermissionDenied = ''PERMISSION_DENIED''"
| "code_String CodeUnauthenticated = ''UNAUTHENTICATED''"
| "code_String CodeUnauthorized = ''UNAUTHORIZED''"
| "code_String CodeInvalidCredentials = ''INVALID_CREDENTIALS''"
| "code_String CodeSessionExpired = ''SESSION_EXPIRED''"
| "code_String CodeRateLimited = ''RATE_LIMITED''"
| "code_String CodeConfiguration = ''CONFIGURATION_ERROR''"
| "code_String CodeValidation = ''VALIDATION_ERROR''"
| "code_String CodeIdempotencyConflict = ''IDEMPOTENCY_CONFLICT''"
| "code_String CodePlanInvalid = ''PLAN_INVALID''"
| "code_String CodePlanCorrupt = ''PLAN_CORRUPT''"
| "code_String CodePlanHashMismatch = ''PLAN_HASH_MISMATCH''"
| "code_String CodePlanStale = ''PLAN_STALE''"
| "code_String CodePlanCapabilityMissing = ''PLAN_CAPABILITY_MISSING''"
| "code_String CodeAuthzDenied = ''AUTHZ_DENIED''"
| "code_String CodeAuthzUnavailable = ''AUTHZ_UNAVAILABLE''"
| "code_String CodeAuthzInvalid = ''AUTHZ_INVALID''"
| "code_String CodeApprovalRequired = ''APPROVAL_REQUIRED''"
| "code_String CodeApprovalStale = ''APPROVAL_STALE''"
| "code_String CodeApprovalInvalid = ''APPROVAL_INVALID''"
| "code_String CodeSessionInvalid = ''SESSION_INVALID''"
| "code_String CodeSessionCorrupt = ''SESSION_CORRUPT''"
| "code_String CodeSessionInvalidTransition = ''SESSION_INVALID_TRANSITION''"
| "code_String CodeSessionConflict = ''SESSION_CONFLICT''"
| "code_String CodeBuildFailed = ''BUILD_FAILED''"
| "code_String CodeToolchainNotFound = ''TOOLCHAIN_NOT_FOUND''"
| "code_String CodeBuildTimeout = ''BUILD_TIMEOUT''"
| "code_String CodeUnsupportedProject = ''UNSUPPORTED_PROJECT''"
| "code_String CodeGitSyncFailed = ''GIT_SYNC_FAILED''"
| "code_String CodeDeployFailed = ''DEPLOY_FAILED''"
| "code_String CodeInstanceStartFailed = ''INSTANCE_START_FAILED''"
| "code_String CodeHealthCheckFailed = ''HEALTH_CHECK_FAILED''"
| "code_String CodeDeployLocked = ''DEPLOY_LOCKED''"
| "code_String CodeVersionNotFound = ''VERSION_NOT_FOUND''"
| "code_String CodeSecretNotFound = ''SECRET_NOT_FOUND''"
| "code_String CodeCanaryRegression = ''CANARY_REGRESSION''"
| "code_String CodeWorkspaceLocked = ''WORKSPACE_LOCKED''"
| "code_String CodeRollbackFailed = ''ROLLBACK_FAILED''"
| "code_String CodeRollbackTargetNotFound = ''ROLLBACK_TARGET_NOT_FOUND''"
| "code_String CodeRollbackVerifyFailed = ''ROLLBACK_VERIFY_FAILED''"
| "code_String CodeAutoRollbackFailed = ''AUTO_ROLLBACK_FAILED''"
| "code_String CodeProcessFailed = ''PROCESS_FAILED''"
| "code_String CodeFilesystem = ''FILESYSTEM_ERROR''"
| "code_String CodeResourceOOM = ''RESOURCE_OOM''"
| "code_String CodeDocker = ''DOCKER_ERROR''"
| "code_String CodeDockerDaemonUnavailable = ''DOCKER_DAEMON_UNAVAILABLE''"
| "code_String CodeNetwork = ''NETWORK_ERROR''"
| "code_String CodeConnection = ''CONNECTION_ERROR''"
| "code_String CodeTimeout = ''TIMEOUT''"
| "code_String CodeUpdateFailed = ''UPDATE_FAILED''"
| "code_String CodeProxy = ''PROXY_ERROR''"
| "code_String CodePortUnavailable = ''PORT_UNAVAILABLE''"
| "code_String CodeGRPC = ''GRPC_ERROR''"
| "code_String CodeServer = ''SERVER_ERROR''"
| "code_String CodeEncryption = ''ENCRYPTION_ERROR''"
| "code_String CodeUnimplemented = ''UNIMPLEMENTED''"
| "code_String CodeUnavailable = ''UNAVAILABLE''"
| "code_String (CodeOther s) = s"

definition declaredCodes :: "code list" where
  "declaredCodes =
     [CodeOK, CodeUnknown, CodeInvalidArgument, CodeNotFound, CodeAlreadyExists, CodePermissionDenied, CodeUnauthenticated, CodeUnauthorized, CodeInvalidCredentials, CodeSessionExpired, CodeRateLimited, CodeConfiguration, CodeValidation, CodeIdempotencyConflict, CodePlanInvalid, CodePlanCorrupt, CodePlanHashMismatch, CodePlanStale, CodePlanCapabilityMissing, CodeAuthzDenied, CodeAuthzUnavailable, CodeAuthzInvalid, CodeApprovalRequired, CodeApprovalStale, CodeApprovalInvalid, CodeSessionInvalid, CodeSessionCorrupt, CodeSessionInvalidTransition, CodeSessionConflict, CodeBuildFailed, CodeToolchainNotFound, CodeBuildTimeout, CodeUnsupportedProject, CodeGitSyncFailed, CodeDeployFailed, CodeInstanceStartFailed, CodeHealthCheckFailed, CodeDeployLocked, CodeVersionNotFound, CodeSecretNotFound, CodeCanaryRegression, CodeWorkspaceLocked, CodeRollbackFailed, CodeRollbackTargetNotFound, CodeRollbackVerifyFailed, CodeAutoRollbackFailed, CodeProcessFailed, CodeFilesystem, CodeResourceOOM, CodeDocker, CodeDockerDaemonUnavailable, CodeNetwork, CodeConnection, CodeTimeout, CodeUpdateFailed, CodeProxy, CodePortUnavailable, CodeGRPC, CodeServer, CodeEncryption, CodeUnimplemented, CodeUnavailable]"

definition retryableCodes :: "code list" where
  "retryableCodes =
     [CodeHealthCheckFailed, CodeInstanceStartFailed, CodeProxy, CodeConnection, CodeTimeout, CodePortUnavailable, CodeDeployLocked, CodeNetwork, CodeProcessFailed, CodeRateLimited, CodeUnavailable, CodeAuthzUnavailable, CodeSessionConflict]"

definition Retryable :: "code \<Rightarrow> bool" where
  "Retryable c \<longleftrightarrow> c \<in> set retryableCodes"

section \<open>Structured errors and their causes\<close>

text \<open>
  \<open>PhelixError\<close> is the struct \<open>Error\<close> (code, message, optional cause); \<open>Foreign\<close> is any
  other error value, which may itself wrap a cause.  A Go \<open>nil\<close> error is \<^const>\<open>None\<close>.
\<close>

datatype goerr =
    Foreign string "goerr option"
  | PhelixError code string "goerr option"

definition NewError :: "code \<Rightarrow> string \<Rightarrow> goerr option" where
  "NewError c m = Some (PhelixError c m None)"

fun error_Unwrap :: "goerr \<Rightarrow> goerr option" where
  "error_Unwrap (Foreign _ u) = u"
| "error_Unwrap (PhelixError _ _ u) = u"

fun error_Message :: "goerr \<Rightarrow> string" where
  "error_Message (Foreign m _) = m"
| "error_Message (PhelixError _ m _) = m"

fun AsError :: "goerr \<Rightarrow> goerr option" where
  "AsError (PhelixError c m u) = Some (PhelixError c m u)"
| "AsError (Foreign m None) = None"
| "AsError (Foreign m (Some e)) = AsError e"

definition CodeOf :: "goerr option \<Rightarrow> code" where
  "CodeOf err =
     (case err of
        None \<Rightarrow> CodeUnknown
      | Some e \<Rightarrow> (case AsError e of Some (PhelixError c _ _) \<Rightarrow> c | _ \<Rightarrow> CodeUnknown))"

definition IsCode :: "goerr option \<Rightarrow> code \<Rightarrow> bool" where
  "IsCode err c \<longleftrightarrow> CodeOf err = c"

definition Wrap :: "code \<Rightarrow> string \<Rightarrow> goerr option \<Rightarrow> goerr option" where
  "Wrap c m err =
     (case err of
        None \<Rightarrow> None
      | Some e \<Rightarrow>
          (let inner = CodeOf err;
               c' = (if inner = CodeSecretNotFound \<or> inner = CodeEncryption then inner else c)
           in Some (PhelixError c' m err)))"

fun Cause :: "goerr \<Rightarrow> goerr" where
  "Cause (Foreign m None) = Foreign m None"
| "Cause (Foreign m (Some e)) = Cause e"
| "Cause (PhelixError c m None) = PhelixError c m None"
| "Cause (PhelixError c m (Some e)) = Cause e"

section \<open>Facts\<close>

lemma distinct_declared_strings: "distinct (map code_String declaredCodes)"
  by code_simp

lemma CodeOf_PhelixError [simp]: "CodeOf (Some (PhelixError c m u)) = c"
  by (simp add: CodeOf_def)

lemma CodeOf_None [simp]: "CodeOf None = CodeUnknown"
  by (simp add: CodeOf_def)

lemma CodeOf_Wrap:
  "CodeOf (Wrap c m (Some e)) =
     (if CodeOf (Some e) \<in> {CodeSecretNotFound, CodeEncryption} then CodeOf (Some e) else c)"
  by (auto simp: Wrap_def Let_def)

lemma Wrap_Some: "\<exists>c'. Wrap c m (Some e) = Some (PhelixError c' m (Some e))"
  by (simp add: Wrap_def Let_def)

text \<open>
  The declared error codes are pairwise distinguishable on the wire: two codes that are both
  declared constants render to the same string only if they are the same code.
\<close>

theorem code_String_inject:
  assumes "c \<in> set declaredCodes" and "d \<in> set declaredCodes" and "code_String c = code_String d"
  shows "c = d"
  using distinct_declared_strings assms
  by (auto simp: distinct_map inj_on_def)

theorem code_String_inject_witness:
  "CodeAuthzDenied \<in> set declaredCodes \<and> CodeAuthzDenied = CodeAuthzDenied"
  using code_String_inject [of CodeAuthzDenied CodeAuthzDenied]
  by (simp add: declaredCodes_def)

text \<open>
  A missing secret or a decryption failure is never masked by wrapping: however many layers of
  context are wrapped around such an error, its code stays the secret code, and its root cause is
  the one of the original error.
\<close>

theorem Wrap_keeps_secret_codes:
  assumes "CodeOf (Some e) \<in> {CodeSecretNotFound, CodeEncryption}"
  shows "\<exists>e'. fold (\<lambda>(c, m). Wrap c m) layers (Some e) = Some e' \<and>
              CodeOf (Some e') = CodeOf (Some e) \<and> Cause e' = Cause e"
  using assms
proof (induction layers arbitrary: e)
  case Nil
  then show ?case by simp
next
  case (Cons l ls)
  obtain c m where l: "l = (c, m)" by (cases l)
  obtain e1 where e1: "Wrap c m (Some e) = Some e1" and code1: "CodeOf (Some e1) = CodeOf (Some e)"
    and cause1: "Cause e1 = Cause e"
    using CodeOf_Wrap [of c m e] Wrap_Some [of c m e] Cons.prems by auto
  with Cons.IH [of e1] Cons.prems l show ?case by auto
qed

theorem Wrap_keeps_secret_codes_witness:
  "\<exists>e'. fold (\<lambda>(c, m). Wrap c m) [(CodeDeployFailed, ''a''), (CodeFilesystem, ''b'')]
            (NewError CodeSecretNotFound ''no value'') = Some e' \<and>
         CodeOf (Some e') = CodeSecretNotFound"
  using Wrap_keeps_secret_codes
    [of "PhelixError CodeSecretNotFound ''no value'' None"
        "[(CodeDeployFailed, ''a''), (CodeFilesystem, ''b'')]"]
  by (auto simp: NewError_def)

end
