(* ===== verification/AtomicFile.thy ===== *)
theory AtomicFile
  imports Errors
begin

text \<open>
  The durable-write discipline every on-disk store of the program repeats: write a temporary file
  opened with \<open>O_EXCL\<close>, sync it, then either hard-link it to its final name (create-only: plans and
  approvals) or rename it over the final name (replace: ledgers, operation records and plan
  status changes), and finally sync the directory.  A directory is a map from file names to
  contents.  \<open>io\<close> says which system call of one write fails, what a failed write left in the
  temporary file, and what a concurrent process stored under the final name between the existence
  check and the link.
\<close>

datatype ioStep =
    IoMkdir | IoStat | IoOpenTmp | IoWrite | IoSync | IoClose | IoLink | IoRename | IoRemoveTmp
  | IoOpenDir | IoSyncDir

record 'b io =
  fails :: "ioStep \<Rightarrow> bool"
  partial :: 'b
  raced :: "'b option"

type_synonym 'b dir = "string \<rightharpoonup> 'b"
type_synonym ('b, 'a) fsop = "(code, 'a) result \<times> 'b dir"

definition tmpName :: "string \<Rightarrow> nat \<Rightarrow> string" where
  "tmpName final pid = final @ ''.tmp-'' @ utoa pid"

definition removeTmp :: "'b io \<Rightarrow> string \<Rightarrow> 'b dir \<Rightarrow> 'b dir" where
  "removeTmp io tmp d = (if fails io IoRemoveTmp then d else d(tmp := None))"

definition stageTmp :: "'b io \<Rightarrow> code \<Rightarrow> string \<Rightarrow> 'b \<Rightarrow> 'b dir \<Rightarrow> ('b, unit) fsop" where
  "stageTmp io e tmp data d =
     (if fails io IoOpenTmp \<or> d tmp \<noteq> None then (Inl e, d)
      else if fails io IoWrite then (Inl e, removeTmp io tmp (d(tmp \<mapsto> partial io)))
      else if fails io IoSync \<or> fails io IoClose then (Inl e, removeTmp io tmp (d(tmp \<mapsto> data)))
      else (Inr (), d(tmp \<mapsto> data)))"

definition syncDir :: "'b io \<Rightarrow> code \<Rightarrow> 'b dir \<Rightarrow> ('b, unit) fsop" where
  "syncDir io e d = (if fails io IoOpenDir \<or> fails io IoSyncDir then (Inl e, d) else (Inr (), d))"

definition race :: "'b io \<Rightarrow> string \<Rightarrow> 'b dir \<Rightarrow> 'b dir" where
  "race io final d =
     (case raced io of None \<Rightarrow> d | Some b \<Rightarrow> if d final = None then d(final \<mapsto> b) else d)"

text \<open>Create-only persistence: from the temporary file to the directory sync.\<close>

definition linkOnce :: "'b io \<Rightarrow> code \<Rightarrow> nat \<Rightarrow> string \<Rightarrow> 'b \<Rightarrow> 'b dir \<Rightarrow> ('b, unit) fsop" where
  "linkOnce io e pid final data d =
     (let tmp = tmpName final pid in
      case stageTmp io e tmp data d of
        (Inl c, d1) \<Rightarrow> (Inl c, d1)
      | (Inr _, d1) \<Rightarrow>
          (let d2 = race io final d1 in
           if d2 final \<noteq> None then (Inl CodeAlreadyExists, removeTmp io tmp d2)
           else if fails io IoLink then (Inl e, removeTmp io tmp d2)
           else syncDir io e (removeTmp io tmp (d2(final \<mapsto> data)))))"

text \<open>Replacing persistence: the rename consumes the temporary name.\<close>

definition replaceFile :: "'b io \<Rightarrow> code \<Rightarrow> nat \<Rightarrow> string \<Rightarrow> 'b \<Rightarrow> 'b dir \<Rightarrow> ('b, unit) fsop" where
  "replaceFile io e pid final data d =
     (let tmp = tmpName final pid in
      case stageTmp io e tmp data d of
        (Inl c, d1) \<Rightarrow> (Inl c, d1)
      | (Inr _, d1) \<Rightarrow>
          if fails io IoRename then (Inl e, removeTmp io tmp d1)
          else syncDir io e (d1(final \<mapsto> data, tmp := None)))"

text \<open>The environment in which no system call fails and no other process interferes.\<close>

definition quietIo :: "'b \<Rightarrow> 'b io" where
  "quietIo b = \<lparr>fails = (\<lambda>_. False), partial = b, raced = None\<rparr>"

lemma quietIo_fails [simp]: "fails (quietIo b) st = False"
  by (simp add: quietIo_def)

section \<open>Frame and effect of the two writes\<close>

lemma tmpName_neq [simp, path_simps]: "tmpName final pid \<noteq> final" "final \<noteq> tmpName final pid"
  by (auto simp: tmpName_def)

lemmas write_defs = stageTmp_def syncDir_def removeTmp_def race_def Let_def

lemma stageTmp_frame: "n \<noteq> tmp \<Longrightarrow> snd (stageTmp io e tmp data d) n = d n"
  by (simp add: write_defs)

lemma linkOnce_frame:
  assumes "n \<noteq> final" and "n \<noteq> tmpName final pid"
  shows "snd (linkOnce io e pid final data d) n = d n"
  using assms by (simp add: linkOnce_def write_defs split: option.splits)

lemma linkOnce_existing:
  assumes "d final = Some b"
  shows "snd (linkOnce io e pid final data d) final = Some b"
    and "\<not> isOk (fst (linkOnce io e pid final data d))"
  using assms by (simp_all add: linkOnce_def write_defs split: option.splits)

lemma linkOnce_ok:
  assumes "fst (linkOnce io e pid final data d) = Inr ()"
  shows "d final = None" and "snd (linkOnce io e pid final data d) final = Some data"
  using assms by (auto simp: linkOnce_def write_defs split: option.splits if_splits)

lemma linkOnce_result:
  "snd (linkOnce io e pid final data d) final \<in> {d final, Some data, raced io}"
  by (auto simp: linkOnce_def write_defs split: option.splits)

lemma replaceFile_frame:
  assumes "n \<noteq> final" and "n \<noteq> tmpName final pid"
  shows "snd (replaceFile io e pid final data d) n = d n"
  using assms by (simp add: replaceFile_def write_defs)

lemma replaceFile_atomic:
  "snd (replaceFile io e pid final data d) final \<in> {d final, Some data}"
  by (auto simp: replaceFile_def write_defs)

lemma replaceFile_ok:
  assumes "fst (replaceFile io e pid final data d) = Inr ()"
  shows "snd (replaceFile io e pid final data d) final = Some data"
  using assms by (auto simp: replaceFile_def write_defs split: if_splits)

lemma linkOnce_quiet:
  assumes "d final = None" and "d (tmpName final pid) = None"
  shows "linkOnce (quietIo b) e pid final data d = (Inr (), d(final \<mapsto> data))"
  using assms by (auto simp: linkOnce_def quietIo_def write_defs fun_eq_iff)

lemma replaceFile_quiet:
  assumes "d (tmpName final pid) = None"
  shows "replaceFile (quietIo b) e pid final data d = (Inr (), d(final \<mapsto> data))"
  using assms by (auto simp: replaceFile_def quietIo_def write_defs fun_eq_iff)

section \<open>Create-only artifact stores\<close>

text \<open>
  The contract of the plan and approval stores: \<open>save e a\<close> writes artifact \<open>a\<close> under \<open>path a\<close> in an
  arbitrary environment \<open>e\<close> (failing system calls, racing processes).  A name that is taken is
  refused, a success means the name was free and now holds the encoded artifact, and no save touches
  the file of another artifact.
\<close>

locale artifact_store =
  fixes save :: "'e \<Rightarrow> 'a \<Rightarrow> 'b dir \<Rightarrow> ('b, unit) fsop"
    and path :: "'a \<Rightarrow> string"
    and enc :: "'a \<Rightarrow> 'b"
  assumes save_refused: "d (path a) = Some b \<Longrightarrow> \<not> isOk (fst (save e a d)) \<and> snd (save e a d) = d"
    and save_stored: "fst (save e a d) = Inr () \<Longrightarrow> snd (save e a d) (path a) = Some (enc a)"
    and save_frame: "path a' \<noteq> path a \<Longrightarrow> snd (save e a d) (path a') = d (path a')"
begin

lemma history_keeps:
  "d (path a) = Some b \<Longrightarrow> fold (\<lambda>(e, x). snd \<circ> save e x) ops d (path a) = Some b"
proof (induction ops arbitrary: d)
  case (Cons op ops)
  obtain e x where op: "op = (e, x)" by (cases op)
  have "snd (save e x d) (path a) = Some b"
    using Cons.prems save_refused [of d x] save_frame [of a x e d] by (cases "path a = path x") auto
  with Cons.IH op show ?case by simp
qed simp

lemma saved_forever:
  assumes "fst (save e a d) = Inr ()"
  shows "fold (\<lambda>(e, x). snd \<circ> save e x) ops (snd (save e a d)) (path a) = Some (enc a)"
  using history_keeps save_stored [OF assms] by blast

lemma second_save_refused:
  assumes "fst (save e a d) = Inr ()" and "path a' = path a"
  shows "\<not> isOk (fst (save e' a' (fold (\<lambda>(e, x). snd \<circ> save e x) ops (snd (save e a d)))))"
  using saved_forever [OF assms(1), of ops] save_refused [of _ a'] assms(2) by force

end

lemma utoa_digits: "c \<in> set (utoa n) \<Longrightarrow> \<exists>k<10. c = digit k"
proof (induction n rule: utoa.induct)
  case (1 n)
  then have "c \<in> set (utoa (n div 10)) \<and> \<not> n < 10 \<or> c = digit (n mod 10)"
    by (subst (asm) (2) utoa.simps) (auto split: if_splits)
  moreover have "n mod 10 < 10" by simp
  ultimately show ?case using "1.IH" by blast
qed

lemma json_neq_tmpName: "i @ ''.json'' \<noteq> tmpName f pid"
proof
  assume "i @ ''.json'' = tmpName f pid"
  then have "last (i @ ''.json'') = last (tmpName f pid)" by simp
  then have "last (utoa pid) = CHR ''n''" by (simp add: tmpName_def)
  then obtain k where "k < 10" "CHR ''n'' = digit k" using utoa_digits [of "CHR ''n''" pid]
    by (metis last_in_set utoa_nonempty)
  then have "of_char (CHR ''n'') = (48 + k :: nat)" by (metis of_char_digit)
  with \<open>k < 10\<close> show False by simp
qed

end
