(* ===== verification/Retention.thy ===== *)
theory Retention
  imports Prelude
begin

text \<open>
  Bounded retention.  Plans and operation records are pruned by the same loop over a
  newest-first listing: an exempt item is always kept and does not consume the budget, the first
  \<open>max\<close> other items are kept, the rest is removed.  \<open>pruneLoop\<close> is that loop with its counter;
  \<open>retained\<close> is the policy it has to implement.
\<close>

text \<open>The victims of the loop, given how many items it has kept so far.\<close>

fun pruneLoop :: "('a \<Rightarrow> bool) \<Rightarrow> int \<Rightarrow> int \<Rightarrow> 'a list \<Rightarrow> 'a list" where
  "pruneLoop exempt limit kept [] = []"
| "pruneLoop exempt limit kept (x # xs) =
     (if exempt x then pruneLoop exempt limit kept xs
      else if kept < limit then pruneLoop exempt limit (kept + 1) xs
      else x # pruneLoop exempt limit kept xs)"

text \<open>What the policy promises to keep of a newest-first list.\<close>

definition retained :: "('a \<Rightarrow> bool) \<Rightarrow> nat \<Rightarrow> 'a list \<Rightarrow> 'a set" where
  "retained exempt n xs = {x \<in> set xs. exempt x} \<union> set (take n (filter (\<lambda>x. \<not> exempt x) xs))"

lemma pruneLoop_drop:
  "kept \<le> limit \<Longrightarrow>
   pruneLoop exempt limit kept xs = drop (nat (limit - kept)) (filter (\<lambda>x. \<not> exempt x) xs)"
proof (induction xs arbitrary: kept)
  case Nil
  then show ?case by simp
next
  case (Cons x xs)
  show ?case
  proof (cases "\<not> exempt x \<and> kept < limit")
    case True
    then have "nat (limit - kept) = Suc (nat (limit - (kept + 1)))" by linarith
    with True Cons.IH [of "kept + 1"] show ?thesis by simp
  next
    case False
    with Cons show ?thesis by auto
  qed
qed

lemma pruneLoop_exempt: "x \<in> set (pruneLoop exempt limit kept xs) \<Longrightarrow> \<not> exempt x"
  by (induction xs arbitrary: kept) (auto split: if_splits)

lemma pruneLoop_subset: "set (pruneLoop exempt limit kept xs) \<subseteq> set xs"
  by (induction xs arbitrary: kept) auto

text \<open>
  The interface of a retention pass: how many items survive unprotected, and that what the pass
  removes is exactly what the policy does not retain.
\<close>

locale retention =
  fixes exempt :: "'a \<Rightarrow> bool"
    and budget :: nat
    and victims :: "'a list \<Rightarrow> 'a list"
  assumes victims_drop: "victims xs = drop budget (filter (\<lambda>x. \<not> exempt x) xs)"
begin

lemma victims_not_exempt: "x \<in> set (victims xs) \<Longrightarrow> \<not> exempt x"
  using set_drop_subset [of budget "filter (\<lambda>x. \<not> exempt x) xs"] by (auto simp: victims_drop)

lemma victims_length: "length (victims xs) = length (filter (\<lambda>x. \<not> exempt x) xs) - budget"
  by (simp add: victims_drop)

lemma survivors_retained:
  assumes "distinct xs"
  shows "set xs - set (victims xs) = retained exempt budget xs"
proof -
  let ?ys = "filter (\<lambda>x. \<not> exempt x) xs"
  have dj: "set (take budget ?ys) \<inter> set (drop budget ?ys) = {}"
    using assms by (intro set_take_disj_set_drop_if_distinct) auto
  have un: "set (take budget ?ys) \<union> set (drop budget ?ys) = {x \<in> set xs. \<not> exempt x}"
    by (simp flip: set_append)
  have "set (take budget ?ys) = {x \<in> set xs. \<not> exempt x} - set (drop budget ?ys)"
    using dj un by blast
  moreover have "set (drop budget ?ys) \<subseteq> {x \<in> set xs. \<not> exempt x}"
    using un by blast
  ultimately show ?thesis
    by (auto simp: retained_def victims_drop)
qed

lemma unprotected_bound:
  assumes "distinct xs"
  shows "card {x \<in> set xs - set (victims xs). \<not> exempt x} \<le> budget"
proof -
  have "{x \<in> set xs - set (victims xs). \<not> exempt x} \<subseteq>
          set (take budget (filter (\<lambda>x. \<not> exempt x) xs))"
    using survivors_retained [OF assms] by (auto simp: retained_def)
  then have "card {x \<in> set xs - set (victims xs). \<not> exempt x} \<le>
               card (set (take budget (filter (\<lambda>x. \<not> exempt x) xs)))"
    by (intro card_mono) auto
  also have "\<dots> \<le> length (take budget (filter (\<lambda>x. \<not> exempt x) xs))"
    by (rule card_length)
  also have "\<dots> \<le> budget" by simp
  finally show ?thesis .
qed

end

interpretation loop: retention exempt "nat limit" "pruneLoop exempt limit 0"
  for exempt :: "'a \<Rightarrow> bool" and limit :: int
proof
  fix xs
  show "pruneLoop exempt limit 0 xs = drop (nat limit) (filter (\<lambda>x. \<not> exempt x) xs)"
  proof (cases "0 \<le> limit")
    case True
    then show ?thesis using pruneLoop_drop [of 0 limit exempt xs] by simp
  next
    case False
    then have "pruneLoop exempt limit kept xs = filter (\<lambda>x. \<not> exempt x) xs" if "limit \<le> kept" for kept
      using that by (induction xs arbitrary: kept) auto
    with False show ?thesis by simp
  qed
qed

end
