(* ===== verification/Plans.thy ===== *)
theory Plans
  imports AtomicFile Retention "HOL-Library.Multiset"
begin

text \<open>
  Execution plans (\<open>internal/plans\<close>): the plan record, its canonical hash, finalisation, the
  create-only store with hash-verified loads, status transitions, listing and retention, and the
  re-evaluation of preconditions before an apply.  \<open>encoding/json\<close> and \<open>crypto/sha256\<close> are the
  fields of \<open>codec\<close>; bytes are the type variable \<open>'b\<close>.  A Go pointer that may be nil is an
  \<^typ>\<open>'a option\<close>.
\<close>

section \<open>Data\<close>

record planAction =
  actType :: string
  actApplication :: string

record planTarget =
  tgtAppID :: string
  tgtAppName :: string
  tgtLanguage :: string

record planInputs =
  SourceDir :: string
  Port :: int
  Tag :: string
  BuildArgs :: "string list"
  AutoRollback :: bool
  SourceCommit :: string
  StrategyOverride :: string
  FlagBlueGreen :: bool
  FlagReplicas :: int
  FlagCanary :: int
  PortExplicit :: bool
  ConfigFingerprint :: string
  TargetVersion :: int
  TargetTag :: string
  VerifyMs :: int
  inReason :: string

record planExecution =
  Strategy :: string
  Replicas :: int
  CanaryPercent :: int
  Runtime :: string
  Network :: string
  PublicPort :: int
  Downtime :: bool
  CurrentSlot :: string
  TargetSlot :: string
  FromVersion :: int
  ToVersion :: int
  EnvSnapshotAvailable :: bool
  Steps :: "string list"

datatype precondition = Precondition (preType: string) (preExpected: string) (preSource: string)

record correlation =
  corOperationID :: string
  corDeploymentID :: string
  corAppliedAtMs :: int

record plan =
  SchemaVersion :: string
  PlanID :: string
  PlanHash :: string
  CreatedAt :: int
  Status :: string
  Action :: planAction
  Target :: planTarget
  Inputs :: planInputs
  Execution :: planExecution
  Preconditions :: "precondition list"
  Capabilities :: "string list"
  Correlation :: "correlation option"

record hashInput =
  hiSchemaVersion :: string
  hiAction :: planAction
  hiTarget :: planTarget
  hiInputs :: planInputs
  hiExecution :: planExecution
  hiPreconditions :: "precondition list"
  hiCapabilities :: "string list"

record 'b codec =
  marshalHash :: "hashInput \<Rightarrow> 'b"
  sha256 :: "'b \<Rightarrow> nat list"
  marshalPlan :: "plan \<Rightarrow> 'b"
  unmarshalPlan :: "'b \<Rightarrow> plan option"
  byteLen :: "'b \<Rightarrow> nat"

definition planSchemaVersion :: string where
  "planSchemaVersion = ''1''"

definition planIDPrefix :: string where
  "planIDPrefix = ''pln_''"

definition StatusCreated :: string where
  "StatusCreated = ''created''"

definition StatusApplied :: string where
  "StatusApplied = ''applied''"

definition StatusFailed :: string where
  "StatusFailed = ''failed''"

definition ActionRebuild :: string where
  "ActionRebuild = ''rebuild''"

definition ActionRollback :: string where
  "ActionRollback = ''rollback''"

definition maxPlanBytes :: nat where
  "maxPlanBytes = 64 * 1024"

definition DefaultPlanRetention :: int where
  "DefaultPlanRetention = 100"

section \<open>Identity, hash and finalisation\<close>

text \<open>The random source returns eight bytes, or fails.\<close>

definition NewPlanID :: "nat list option \<Rightarrow> (code, string) result" where
  "NewPlanID rnd =
     (case rnd of None \<Rightarrow> Inl CodeFilesystem | Some bs \<Rightarrow> Inr (mintId planIDPrefix (take 8 bs)))"

definition ValidateID :: "string \<Rightarrow> bool" where
  "ValidateID i \<longleftrightarrow> hexId planIDPrefix i"

definition hashInputOf :: "plan \<Rightarrow> hashInput" where
  "hashInputOf p =
     \<lparr>hiSchemaVersion = SchemaVersion p, hiAction = Action p, hiTarget = Target p,
      hiInputs = Inputs p, hiExecution = Execution p, hiPreconditions = Preconditions p,
      hiCapabilities = Capabilities p\<rparr>"

definition planHash :: "'b codec \<Rightarrow> plan \<Rightarrow> string" where
  "planHash cd p = ''sha256:'' @ hexEncode (sha256 cd (marshalHash cd (hashInputOf p)))"

definition preKey :: "precondition \<Rightarrow> string \<times> string \<times> string" where
  "preKey c = (preType c, preExpected c, preSource c)"

definition Canonicalize :: "plan \<Rightarrow> plan" where
  "Canonicalize p =
     p\<lparr>Preconditions := sort_key preKey (Preconditions p),
       Capabilities := sort (Capabilities p),
       Inputs := (Inputs p)\<lparr>BuildArgs := sort (BuildArgs (Inputs p))\<rparr>\<rparr>"

text \<open>The plan is mutated in place, so the updated plan is returned on the error paths too.\<close>

definition Finalize ::
    "'b codec \<Rightarrow> nat list option \<Rightarrow> int \<Rightarrow> plan \<Rightarrow> (code, unit) result \<times> plan" where
  "Finalize cd rnd now p =
     (if actType (Action p) = '''' \<or> actApplication (Action p) = '''' then (Inl CodeInvalidArgument, p)
      else if actType (Action p) \<notin> {ActionRebuild, ActionRollback} then (Inl CodeInvalidArgument, p)
      else
        let p1 = (Canonicalize p)\<lparr>SchemaVersion := planSchemaVersion\<rparr> in
        case (if PlanID p1 = '''' then NewPlanID rnd else Inr (PlanID p1)) of
          Inl e \<Rightarrow> (Inl e, p1)
        | Inr i \<Rightarrow>
            let p2 = p1\<lparr>PlanID := i, CreatedAt := (if CreatedAt p1 = 0 then now else CreatedAt p1)\<rparr>
            in (Inr (), p2\<lparr>PlanHash := planHash cd p2\<rparr>))"

definition VerifyHash :: "'b codec \<Rightarrow> plan \<Rightarrow> (code, unit) result" where
  "VerifyHash cd p = (if planHash cd p \<noteq> PlanHash p then Inl CodePlanHashMismatch else Inr ())"

definition CorrelationOperationID :: "plan option \<Rightarrow> string" where
  "CorrelationOperationID p =
     (case p of None \<Rightarrow> ''''
      | Some q \<Rightarrow> (case Correlation q of None \<Rightarrow> '''' | Some c \<Rightarrow> corOperationID c))"

section \<open>Store\<close>

definition planFile :: "string \<Rightarrow> string" where
  "planFile i = i @ ''.json''"

definition planPath :: "string \<Rightarrow> (code, string) result" where
  "planPath i = (if \<not> ValidateID i then Inl CodeInvalidArgument else Inr (planFile i))"

definition Save :: "'b codec \<Rightarrow> 'b io \<Rightarrow> nat \<Rightarrow> plan option \<Rightarrow> 'b dir \<Rightarrow> ('b, unit) fsop" where
  "Save cd io pid pl d =
     (case pl of
        None \<Rightarrow> (Inl CodeInvalidArgument, d)
      | Some p \<Rightarrow>
          if Status p = '''' then (Inl CodePlanInvalid, d)
          else
            (case VerifyHash cd p of
               Inl e \<Rightarrow> (Inl e, d)
             | Inr _ \<Rightarrow>
                 let data = marshalPlan cd p in
                 if byteLen cd data > maxPlanBytes then (Inl CodeInvalidArgument, d)
                 else if fails io IoMkdir then (Inl CodeFilesystem, d)
                 else
                   (case planPath (PlanID p) of
                      Inl e \<Rightarrow> (Inl e, d)
                    | Inr final \<Rightarrow>
                        if d final \<noteq> None then (Inl CodeAlreadyExists, d)
                        else if fails io IoStat then (Inl CodeFilesystem, d)
                        else linkOnce io CodeFilesystem pid final data d)))"

definition Decode :: "'b codec \<Rightarrow> 'b \<Rightarrow> (code, plan) result" where
  "Decode cd data =
     (case unmarshalPlan cd data of
        None \<Rightarrow> Inl CodePlanCorrupt
      | Some p \<Rightarrow>
          if SchemaVersion p \<noteq> planSchemaVersion then Inl CodePlanInvalid
          else if \<not> ValidateID (PlanID p) then Inl CodePlanInvalid
          else if Status p \<notin> {StatusCreated, StatusApplied, StatusFailed} then Inl CodePlanInvalid
          else rbind (VerifyHash cd p) (\<lambda>_. Inr p))"

text \<open>\<open>readErr\<close>: the file exists but reading it fails.\<close>

definition Load :: "'b codec \<Rightarrow> (string \<Rightarrow> bool) \<Rightarrow> string \<Rightarrow> 'b dir \<Rightarrow> (code, plan) result" where
  "Load cd readErr i d =
     rbind (planPath i) (\<lambda>path.
       case d path of
         None \<Rightarrow> Inl CodeNotFound
       | Some data \<Rightarrow> if readErr path then Inl CodeFilesystem else Decode cd data)"

definition transition ::
    "'b codec \<Rightarrow> 'b io \<Rightarrow> nat \<Rightarrow> (string \<Rightarrow> bool) \<Rightarrow> string \<Rightarrow> string \<Rightarrow> (plan \<Rightarrow> plan)
       \<Rightarrow> 'b dir \<Rightarrow> ('b, plan) fsop" where
  "transition cd io pid readErr i status mutate d =
     (case Load cd readErr i d of
        Inl e \<Rightarrow> (Inl e, d)
      | Inr p \<Rightarrow>
          let before = planHash cd p;
              p' = mutate (p\<lparr>Status := status\<rparr>);
              after = planHash cd p'
          in if before \<noteq> after then (Inl CodePlanHashMismatch, d)
             else
               (case planPath (PlanID p') of
                  Inl e \<Rightarrow> (Inl e, d)
                | Inr path \<Rightarrow>
                    (case replaceFile io CodeFilesystem pid path (marshalPlan cd p') d of
                       (Inl e, d') \<Rightarrow> (Inl e, d')
                     | (Inr _, d') \<Rightarrow> (Inr p', d'))))"

definition MarkApplied ::
    "'b codec \<Rightarrow> 'b io \<Rightarrow> nat \<Rightarrow> (string \<Rightarrow> bool) \<Rightarrow> int \<Rightarrow> string \<Rightarrow> string \<Rightarrow> string
       \<Rightarrow> 'b dir \<Rightarrow> ('b, plan) fsop" where
  "MarkApplied cd io pid readErr now i operationID deploymentID d =
     transition cd io pid readErr i StatusApplied
       (\<lambda>p. p\<lparr>Correlation := Some \<lparr>corOperationID = operationID, corDeploymentID = deploymentID,
                                  corAppliedAtMs = now\<rparr>\<rparr>) d"

definition MarkFailed ::
    "'b codec \<Rightarrow> 'b io \<Rightarrow> nat \<Rightarrow> (string \<Rightarrow> bool) \<Rightarrow> string \<Rightarrow> 'b dir \<Rightarrow> ('b, plan) fsop" where
  "MarkFailed cd io pid readErr i d = transition cd io pid readErr i StatusFailed (\<lambda>p. p) d"

section \<open>Listing and retention\<close>

definition fileExt :: "string \<Rightarrow> string" where
  "fileExt s =
     (if CHR ''.'' \<in> set s then CHR ''.'' # rev (takeWhile (\<lambda>c. c \<noteq> CHR ''.'') (rev s)) else [])"

fun contains :: "string \<Rightarrow> string \<Rightarrow> bool" where
  "contains p [] = (p = [])"
| "contains p (c # cs) = (hasPrefix p (c # cs) \<or> contains p cs)"

text \<open>What \<open>os.ReadDir\<close> reports of the store directory: its file names, sorted.\<close>

datatype readDir = DirMissing | DirError | Entries "string list"

fun listLoop ::
    "'b codec \<Rightarrow> (string \<Rightarrow> bool) \<Rightarrow> string \<Rightarrow> 'b dir \<Rightarrow> string list \<Rightarrow> plan list \<times> nat" where
  "listLoop cd readErr app d [] = ([], 0)"
| "listLoop cd readErr app d (n # ns) =
     (let (ps, skipped) = listLoop cd readErr app d ns in
      if fileExt n \<noteq> ''.json'' \<or> contains ''.tmp-'' n then (ps, skipped)
      else case d n of
        None \<Rightarrow> (ps, Suc skipped)
      | Some data \<Rightarrow>
          if readErr n then (ps, Suc skipped)
          else case Decode cd data of
            Inl _ \<Rightarrow> (ps, Suc skipped)
          | Inr p \<Rightarrow> if app \<noteq> '''' \<and> actApplication (Action p) \<noteq> app then (ps, skipped)
                     else (p # ps, skipped))"

definition ListPlans ::
    "'b codec \<Rightarrow> (string \<Rightarrow> bool) \<Rightarrow> string \<Rightarrow> int \<Rightarrow> readDir \<Rightarrow> 'b dir
       \<Rightarrow> (code, plan list \<times> nat) result" where
  "ListPlans cd readErr app limit rd d =
     (case rd of
        DirMissing \<Rightarrow> Inr ([], 0)
      | DirError \<Rightarrow> Inl CodeFilesystem
      | Entries ns \<Rightarrow>
          let (found, skipped) = listLoop cd readErr app d ns;
              sorted = sort_key (\<lambda>p. - CreatedAt p) found
          in Inr (if limit > 0 \<and> int (length sorted) > limit then take (nat limit) sorted else sorted,
                  skipped))"

fun removeVictims :: "(string \<Rightarrow> bool) \<Rightarrow> plan list \<Rightarrow> nat \<Rightarrow> 'b dir \<Rightarrow> nat \<times> 'b dir" where
  "removeVictims rmErr [] pruned d = (pruned, d)"
| "removeVictims rmErr (p # ps) pruned d =
     (case planPath (PlanID p) of
        Inl _ \<Rightarrow> removeVictims rmErr ps pruned d
      | Inr path \<Rightarrow>
          if rmErr path then removeVictims rmErr ps pruned d
          else removeVictims rmErr ps (Suc pruned) (d(path := None)))"

definition planBudget :: "int \<Rightarrow> int" where
  "planBudget limit = (if limit \<le> 0 then DefaultPlanRetention else limit)"

definition PrunePlans ::
    "'b codec \<Rightarrow> (string \<Rightarrow> bool) \<Rightarrow> (string \<Rightarrow> bool) \<Rightarrow> int \<Rightarrow> (string \<Rightarrow> bool) \<Rightarrow> readDir
       \<Rightarrow> 'b dir \<Rightarrow> ('b, nat) fsop" where
  "PrunePlans cd readErr rmErr limit protected rd d =
     (case ListPlans cd readErr '''' 0 rd d of
        Inl e \<Rightarrow> (Inl e, d)
      | Inr (ps, _) \<Rightarrow>
          let (n, d') = removeVictims rmErr
                (pruneLoop (\<lambda>p. protected (PlanID p)) (planBudget limit) 0 ps) 0 d
          in (Inr n, d'))"

section \<open>Preconditions\<close>

text \<open>
  The state a precondition is re-derived from, as the packages \<open>app\<close>, \<open>deploy\<close>, \<open>project\<close> and
  \<open>toolchain\<close> report it: the application an identifier resolves to (id and name), the current
  version, whether the files of a version exist, the recorded deploy mode, the configuration
  fingerprint, the commit of a source directory (empty when it is no work tree) and whether the
  toolchain of a language is installed.
\<close>

record planWorld =
  wApp :: "string \<Rightarrow> (string \<times> string) option"
  wCurrentVersion :: "string \<Rightarrow> (code, int) result"
  wVersionPaths :: "string \<Rightarrow> int \<Rightarrow> bool"
  wDeployMode :: "string \<Rightarrow> string option"
  wFingerprint :: "string \<Rightarrow> string \<Rightarrow> (code, string) result"
  wGitCommit :: "string \<Rightarrow> string"
  wToolchain :: "string \<Rightarrow> bool"

definition versionLabel :: "int \<Rightarrow> string" where
  "versionLabel v = (if v \<le> 0 then ''none'' else CHR ''v'' # itoa v)"

definition evaluatePrecondition :: "planWorld \<Rightarrow> plan \<Rightarrow> precondition \<Rightarrow> string \<times> bool" where
  "evaluatePrecondition w p c =
     (let appName = actApplication (Action p); t = preType c; expected = preExpected c in
      if t = ''app_exists'' then
        (case wApp w appName of
           None \<Rightarrow> (''missing'', False)
         | Some (i, n) \<Rightarrow>
             let current = i @ ''/'' @ n in (current, current = expected @ ''/'' @ appName))
      else if t = ''current_version'' then
        (case wCurrentVersion w appName of
           Inl _ \<Rightarrow> (''none'', expected = ''none'')
         | Inr cur \<Rightarrow> (versionLabel cur, versionLabel cur = expected))
      else if t = ''version_exists'' then
        (if \<not> wVersionPaths w appName (TargetVersion (Inputs p)) then (''missing'', False)
         else (versionLabel (TargetVersion (Inputs p)), True))
      else if t = ''deploy_mode'' then
        (let m = (case wDeployMode w appName of None \<Rightarrow> '''' | Some m \<Rightarrow> m);
             mode = (if m = '''' then ''classic'' else m)
         in (mode, mode = expected))
      else if t = ''config_fingerprint'' then
        (case wFingerprint w appName (SourceDir (Inputs p)) of
           Inl _ \<Rightarrow> (''unreadable'', False)
         | Inr fp \<Rightarrow> (fp, fp = expected))
      else if t = ''source_commit'' then
        (let commit = wGitCommit w (SourceDir (Inputs p)) in
         if commit = '''' then (''none'', expected = ''none'') else (commit, commit = expected))
      else if t = ''toolchain_available'' then
        (if wToolchain w (tgtLanguage (Target p)) then (''installed'', True) else (''missing'', False))
      else (''unchecked'', False))"

datatype failedPrecondition =
  FailedPrecondition (fpType: string) (fpExpected: string) (fpActual: string)

definition Evaluate :: "planWorld \<Rightarrow> plan \<Rightarrow> failedPrecondition list" where
  "Evaluate w p =
     concat (map (\<lambda>c. case evaluatePrecondition w p c of
                        (actual, ok) \<Rightarrow>
                          if ok then [] else [FailedPrecondition (preType c) (preExpected c) actual])
                 (Preconditions p))"

definition EvaluateCapabilities :: "plan \<Rightarrow> string list \<Rightarrow> string list" where
  "EvaluateCapabilities p available = filter (\<lambda>c. c \<notin> set available) (Capabilities p)"

section \<open>Lemmas\<close>

lemmas plan_status_defs = StatusCreated_def StatusApplied_def StatusFailed_def

lemma planFile_inject [simp, path_simps]: "planFile i = planFile j \<longleftrightarrow> i = j"
  by (simp add: planFile_def)

lemma planPath_Inr [result_simps]: "planPath i = Inr f \<longleftrightarrow> ValidateID i \<and> f = planFile i"
  by (auto simp: planPath_def)

lemma VerifyHash_Inr [result_simps]: "VerifyHash cd p = Inr u \<longleftrightarrow> planHash cd p = PlanHash p"
  by (simp add: VerifyHash_def)

lemma planHash_cong: "hashInputOf p = hashInputOf q \<Longrightarrow> planHash cd p = planHash cd q"
  by (simp add: planHash_def)

lemma hashInputOf_updates [simp]:
  "hashInputOf (p\<lparr>Status := s\<rparr>) = hashInputOf p"
  "hashInputOf (p\<lparr>Correlation := c\<rparr>) = hashInputOf p"
  "hashInputOf (p\<lparr>PlanID := i\<rparr>) = hashInputOf p"
  "hashInputOf (p\<lparr>CreatedAt := t\<rparr>) = hashInputOf p"
  "hashInputOf (p\<lparr>PlanHash := h\<rparr>) = hashInputOf p"
  by (simp_all add: hashInputOf_def)

lemma planHash_updates [simp]:
  "planHash cd (p\<lparr>Status := s\<rparr>) = planHash cd p"
  "planHash cd (p\<lparr>Correlation := c\<rparr>) = planHash cd p"
  "planHash cd (p\<lparr>PlanID := i\<rparr>) = planHash cd p"
  "planHash cd (p\<lparr>CreatedAt := t\<rparr>) = planHash cd p"
  "planHash cd (p\<lparr>PlanHash := h\<rparr>) = planHash cd p"
  by (simp_all add: planHash_def)

lemma Decode_Inr [result_simps]:
  "Decode cd data = Inr p \<longleftrightarrow>
     unmarshalPlan cd data = Some p \<and> SchemaVersion p = planSchemaVersion \<and>
     ValidateID (PlanID p) \<and> Status p \<in> {StatusCreated, StatusApplied, StatusFailed} \<and>
     planHash cd p = PlanHash p"
  by (auto simp: Decode_def result_simps split: option.splits)

lemma Load_Inr [result_simps]:
  "Load cd readErr i d = Inr p \<longleftrightarrow>
     ValidateID i \<and> \<not> readErr (planFile i) \<and>
     (\<exists>data. d (planFile i) = Some data \<and> Decode cd data = Inr p)"
  by (auto simp: Load_def rbind_eq_Inr planPath_Inr split: option.splits if_splits)

lemma inj_preKey: "inj_on preKey A"
  by (auto simp: inj_on_def preKey_def intro: precondition.expand)

lemma sort_key_mset_eq:
  assumes "mset xs = mset ys" and "inj_on f (set xs)"
  shows "sort_key f xs = sort_key f ys"
  using assms by (intro sort_key_inj_key_eq) simp_all

lemma Save_ok:
  assumes "Save cd io pid (Some p) d = (Inr (), d')"
  shows "planHash cd p = PlanHash p" and "ValidateID (PlanID p)"
    and "d (planFile (PlanID p)) = None"
    and "d' (planFile (PlanID p)) = Some (marshalPlan cd p)"
  using assms linkOnce_ok [of io CodeFilesystem pid "planFile (PlanID p)" "marshalPlan cd p" d]
  by (auto simp: Save_def Let_def planPath_Inr VerifyHash_def planPath_def
      split: sum.splits if_splits)

lemma Save_create_only:
  assumes "d (planFile (PlanID p)) = Some old"
  shows "\<not> isOk (fst (Save cd io pid (Some p) d)) \<and> snd (Save cd io pid (Some p) d) = d"
  using assms by (auto simp: Save_def Let_def planPath_def split: sum.splits)

lemma Save_frame:
  assumes "n \<noteq> planFile (PlanID p)" and "n \<noteq> tmpName (planFile (PlanID p)) pid"
  shows "snd (Save cd io pid (Some p) d) n = d n"
  using linkOnce_frame [OF assms] by (auto simp: Save_def Let_def planPath_def split: sum.splits)

interpretation planStore: artifact_store
  "\<lambda>(io, pid) p. Save cd io pid (Some p)" "\<lambda>p. planFile (PlanID p)" "marshalPlan cd"
  for cd :: "'b codec"
proof (unfold_locales, goal_cases)
  case (1 d a b e)
  then show ?case using Save_create_only by (cases e) simp
next
  case (2 e a d)
  then show ?case using Save_ok(4) [of cd "fst e" "snd e" a d]
    by (cases e) (metis (no_types, lifting) case_prod_conv fst_conv prod.collapse snd_conv)
next
  case (3 b a e d)
  then show ?case using Save_frame [of "planFile (PlanID b)" a] json_neq_tmpName
    by (cases e) (simp add: planFile_def)
qed

lemma removeVictims_frame:
  assumes "\<And>p. p \<in> set ps \<Longrightarrow> n \<noteq> planFile (PlanID p)"
  shows "snd (removeVictims rmErr ps k d) n = d n"
  using assms by (induction ps arbitrary: k d) (auto simp: planPath_def)

lemma removeVictims_absent:
  "d n = None \<Longrightarrow> snd (removeVictims rmErr ps k d) n = None"
  by (induction ps arbitrary: k d) (auto simp: planPath_def)

lemma removeVictims_removed:
  assumes "p \<in> set ps" and "ValidateID (PlanID p)" and "\<not> rmErr (planFile (PlanID p))"
  shows "snd (removeVictims rmErr ps k d) (planFile (PlanID p)) = None"
  using assms by (induction ps arbitrary: k d) (auto simp: planPath_def removeVictims_absent)

lemma listLoop_valid:
  "p \<in> set (fst (listLoop cd readErr app d ns)) \<Longrightarrow>
     \<exists>n\<in>set ns. \<exists>b. d n = Some b \<and> Decode cd b = Inr p"
  by (induction ns) (auto simp: Let_def split: prod.splits option.splits sum.splits if_splits)

lemma ListPlans_subset:
  assumes "ListPlans cd readErr app limit rd d = Inr (ps, k)"
  shows "\<exists>ns. set ps \<subseteq> set (fst (listLoop cd readErr app d ns))"
proof (cases rd)
  case (Entries ns)
  let ?found = "sort_key (\<lambda>p. - CreatedAt p) (fst (listLoop cd readErr app d ns))"
  from assms Entries have "ps = ?found \<or> ps = take (nat limit) ?found"
    by (auto simp: ListPlans_def Let_def split: prod.splits if_splits)
  then have "set ps \<subseteq> set ?found" using set_take_subset by fastforce
  then show ?thesis by auto
qed (use assms in \<open>simp_all add: ListPlans_def\<close>)

lemma ListPlans_valid:
  assumes "ListPlans cd readErr app limit rd d = Inr (ps, k)" and "p \<in> set ps"
  shows "ValidateID (PlanID p)"
  using ListPlans_subset [OF assms(1)] assms(2) listLoop_valid by (fastforce simp: Decode_Inr)

section \<open>Properties\<close>

text \<open>A concrete codec and plan, at which the theorems below are applied.\<close>

definition demoCodec :: "(hashInput + plan) codec" where
  "demoCodec =
     \<lparr>marshalHash = Inl,
      sha256 = (\<lambda>b. case b of Inl h \<Rightarrow> [length (hiPreconditions h), length (hiCapabilities h)] | _ \<Rightarrow> []),
      marshalPlan = Inr,
      unmarshalPlan = (\<lambda>b. case b of Inl _ \<Rightarrow> None | Inr p \<Rightarrow> Some p),
      byteLen = (\<lambda>_. 10)\<rparr>"

definition demoInputs :: planInputs where
  "demoInputs =
     \<lparr>SourceDir = ''/srv'', Port = 8080, Tag = '''', BuildArgs = [''-x'', ''-a''], AutoRollback = False,
      SourceCommit = '''', StrategyOverride = '''', FlagBlueGreen = False, FlagReplicas = 0,
      FlagCanary = 0, PortExplicit = False, ConfigFingerprint = '''', TargetVersion = 0,
      TargetTag = '''', VerifyMs = 0, inReason = ''''\<rparr>"

definition demoExecution :: planExecution where
  "demoExecution =
     \<lparr>Strategy = ''classic'', Replicas = 0, CanaryPercent = 0, Runtime = '''', Network = '''',
      PublicPort = 8080, Downtime = True, CurrentSlot = '''', TargetSlot = '''', FromVersion = 0,
      ToVersion = 0, EnvSnapshotAvailable = False, Steps = []\<rparr>"

definition demoPlan :: plan where
  "demoPlan =
     \<lparr>SchemaVersion = ''1'', PlanID = ''pln_0123456789abcdef'',
      PlanHash = ''sha256:0201'', CreatedAt = 5, Status = ''created'',
      Action = \<lparr>actType = ''rebuild'', actApplication = ''web''\<rparr>,
      Target = \<lparr>tgtAppID = ''1'', tgtAppName = ''web'', tgtLanguage = ''go''\<rparr>,
      Inputs = demoInputs, Execution = demoExecution,
      Preconditions = [Precondition ''current_version'' ''v3'' ''versions.json'',
                       Precondition ''app_exists'' ''1'' ''apps.json''],
      Capabilities = [''rebuild''], Correlation = None\<rparr>"

lemmas demo_defs = demoCodec_def demoPlan_def demoInputs_def demoExecution_def

lemma demoPlan_sel [simp]:
  "SchemaVersion demoPlan = planSchemaVersion" "PlanID demoPlan = ''pln_0123456789abcdef''"
  "PlanHash demoPlan = ''sha256:0201''" "Status demoPlan = StatusCreated"
  "actType (Action demoPlan) = ''rebuild''" "actApplication (Action demoPlan) = ''web''"
  "CreatedAt demoPlan = 5"
  by (simp_all add: demoPlan_def planSchemaVersion_def StatusCreated_def)

lemma demoCodec_sel [simp]:
  "marshalPlan demoCodec p = Inr p" "unmarshalPlan demoCodec (Inr p) = Some p"
  "byteLen demoCodec b = 10"
  by (simp_all add: demoCodec_def)

lemma demoPlan_hash [simp]: "planHash demoCodec demoPlan = ''sha256:0201''"
  by (simp add: planHash_def hashInputOf_def demo_defs hexDigit_def)

lemma demoPlan_id [simp]: "ValidateID ''pln_0123456789abcdef''"
  by code_simp

lemma StatusCreated_nonempty [simp]: "StatusCreated \<noteq> ''''"
  by (simp add: StatusCreated_def)

definition demoStore :: "(hashInput + plan) dir" where
  "demoStore = [planFile ''pln_0123456789abcdef'' \<mapsto> Inr demoPlan]"

lemma demoPlan_Save:
  "Save demoCodec (quietIo (Inr demoPlan)) 7 (Some demoPlan) Map.empty = (Inr (), demoStore)"
  by (simp add: Save_def VerifyHash_def planPath_def linkOnce_quiet demoStore_def maxPlanBytes_def
      Let_def)

lemma demoPlan_Load: "Load demoCodec (\<lambda>_. False) ''pln_0123456789abcdef'' demoStore = Inr demoPlan"
  by (simp add: Load_Inr Decode_Inr demoStore_def)





definition hashCollision :: "'b codec \<Rightarrow> hashInput \<Rightarrow> hashInput \<Rightarrow> bool" where
  "hashCollision cd a b \<longleftrightarrow>
     a \<noteq> b \<and> hexEncode (sha256 cd (marshalHash cd a)) = hexEncode (sha256 cd (marshalHash cd b))"

text \<open>
  Loads are tamper evident. If two verified loads return plans that carry the same stored hash,
  the plans have the same semantic content, unless the JSON encoding or SHA-256 collides on the two
  contents.
\<close>

theorem Load_tamper_evident:
  assumes "Load cd readErr i d = Inr p" and "Load cd readErr' j d' = Inr q"
    and "PlanHash p = PlanHash q"
  shows "hashInputOf p = hashInputOf q \<or> hashCollision cd (hashInputOf p) (hashInputOf q)"
proof -
  from assms have "planHash cd p = planHash cd q" by (auto simp: Load_Inr Decode_Inr)
  then show ?thesis by (auto simp: planHash_def hashCollision_def)
qed

lemma demoPlan_applied_Load:
  "Load demoCodec (\<lambda>_. False) ''pln_0123456789abcdef''
     [planFile ''pln_0123456789abcdef'' \<mapsto> Inr (demoPlan\<lparr>Status := StatusApplied\<rparr>)]
   = Inr (demoPlan\<lparr>Status := StatusApplied\<rparr>)"
  by (simp add: Load_Inr Decode_Inr)

theorem Load_tamper_evident_witness:
  "hashInputOf demoPlan = hashInputOf (demoPlan\<lparr>Status := StatusApplied\<rparr>) \<or>
   hashCollision demoCodec (hashInputOf demoPlan) (hashInputOf (demoPlan\<lparr>Status := StatusApplied\<rparr>))"
  by (rule Load_tamper_evident [OF demoPlan_Load demoPlan_applied_Load]) simp

text \<open>
  Construction order does not matter. Two plans that agree on everything but the order of their
  preconditions, capabilities and build arguments have the same hash once they are canonicalised.
\<close>

theorem Canonicalize_order_independent:
  assumes "SchemaVersion p = SchemaVersion q" "Action p = Action q" "Target p = Target q"
    and "Execution p = Execution q"
    and "(Inputs p)\<lparr>BuildArgs := []\<rparr> = (Inputs q)\<lparr>BuildArgs := []\<rparr>"
    and "mset (BuildArgs (Inputs p)) = mset (BuildArgs (Inputs q))"
    and "mset (Preconditions p) = mset (Preconditions q)"
    and "mset (Capabilities p) = mset (Capabilities q)"
  shows "planHash cd (Canonicalize p) = planHash cd (Canonicalize q)"
proof -
  have pre: "sort_key preKey (Preconditions p) = sort_key preKey (Preconditions q)"
    by (rule sort_key_mset_eq [OF assms(7) inj_preKey])
  have caps: "sort (Capabilities p) = sort (Capabilities q)"
    and args: "sort (BuildArgs (Inputs p)) = sort (BuildArgs (Inputs q))"
    using sort_key_mset_eq [where f = "\<lambda>x. x"] assms(6,8) by (auto simp: inj_on_def)
  have "(Inputs p)\<lparr>BuildArgs := sort (BuildArgs (Inputs p))\<rparr> =
        ((Inputs p)\<lparr>BuildArgs := []\<rparr>)\<lparr>BuildArgs := sort (BuildArgs (Inputs q))\<rparr>"
    by (simp add: args)
  also have "\<dots> = (Inputs q)\<lparr>BuildArgs := sort (BuildArgs (Inputs q))\<rparr>"
    unfolding assms(5) by simp
  finally show ?thesis
    using assms(1-4) pre caps by (intro planHash_cong) (simp add: hashInputOf_def Canonicalize_def)
qed

theorem Canonicalize_order_independent_witness:
  "planHash demoCodec (Canonicalize demoPlan) =
   planHash demoCodec (Canonicalize (demoPlan\<lparr>Preconditions := rev (Preconditions demoPlan),
      Inputs := (Inputs demoPlan)\<lparr>BuildArgs := [''-a'', ''-x'']\<rparr>\<rparr>))"
  by (rule Canonicalize_order_independent) (simp_all add: demo_defs)

lemma Canonicalize_sel [simp]:
  "PlanID (Canonicalize p) = PlanID p" "CreatedAt (Canonicalize p) = CreatedAt p"
  "Status (Canonicalize p) = Status p" "Action (Canonicalize p) = Action p"
  "SchemaVersion (Canonicalize p) = SchemaVersion p" "Correlation (Canonicalize p) = Correlation p"
  by (simp_all add: Canonicalize_def)

lemma Finalize_cases:
  assumes "Finalize cd rnd now p = (Inr (), p')"
  obtains i t where "actType (Action p) \<in> {ActionRebuild, ActionRollback}"
    and "actApplication (Action p) \<noteq> ''''"
    and "p' = (let q = (Canonicalize p)\<lparr>SchemaVersion := planSchemaVersion, PlanID := i, CreatedAt := t\<rparr>
               in q\<lparr>PlanHash := planHash cd q\<rparr>)"
    and "PlanID p = '''' \<Longrightarrow> NewPlanID rnd = Inr i" and "PlanID p \<noteq> '''' \<Longrightarrow> i = PlanID p"
  using assms that by (auto simp: Finalize_def Let_def split: if_splits sum.splits)

text \<open>
  Finalisation yields a persistable artifact. A plan that finalises without error has the
  current schema, a stored hash that verifies and an identifier of the required shape, keeps its
  action and status, and was a rebuild or rollback of a named application; so saving it with a
  status and a bounded encoding into a store that does not hold it succeeds when no system call
  fails.
\<close>

theorem Finalize_Save:
  assumes fin: "Finalize cd (Some rnd) now p = (Inr (), p')" and rnd: "length rnd = 8"
    and id: "PlanID p = '''' \<or> ValidateID (PlanID p)" and st: "Status p \<noteq> ''''"
    and sz: "byteLen cd (marshalPlan cd p') \<le> maxPlanBytes"
    and free: "d (planFile (PlanID p')) = None" "d (tmpName (planFile (PlanID p')) pid) = None"
  shows "VerifyHash cd p' = Inr () \<and> ValidateID (PlanID p') \<and> SchemaVersion p' = planSchemaVersion \<and>
         actType (Action p') \<in> {ActionRebuild, ActionRollback} \<and> Action p' = Action p \<and>
         Save cd (quietIo b) pid (Some p') d = (Inr (), d(planFile (PlanID p') \<mapsto> marshalPlan cd p'))"
proof -
  from fin obtain i t where act: "actType (Action p) \<in> {ActionRebuild, ActionRollback}"
    and p': "p' = (let q = (Canonicalize p)\<lparr>SchemaVersion := planSchemaVersion, PlanID := i, CreatedAt := t\<rparr>
               in q\<lparr>PlanHash := planHash cd q\<rparr>)"
    and i: "PlanID p = '''' \<Longrightarrow> NewPlanID (Some rnd) = Inr i" "PlanID p \<noteq> '''' \<Longrightarrow> i = PlanID p"
    by (rule Finalize_cases) blast
  have valid: "ValidateID i"
    using i id rnd hexId_mintId [of rnd planIDPrefix]
    by (cases "PlanID p = ''''") (auto simp: ValidateID_def NewPlanID_def)
  have sel: "PlanID p' = i" "Status p' = Status p" "Action p' = Action p"
      "SchemaVersion p' = planSchemaVersion" "planHash cd p' = PlanHash p'"
    by (simp_all add: p' Let_def)
  have "Save cd (quietIo b) pid (Some p') d = (Inr (), d(planFile (PlanID p') \<mapsto> marshalPlan cd p'))"
    using sel st sz free valid
    by (simp add: Save_def VerifyHash_def planPath_def Let_def linkOnce_quiet)
  with sel valid act show ?thesis by (simp add: VerifyHash_def)
qed

lemma demo_Finalize:
  "Finalize demoCodec (Some [1, 35, 69, 103, 137, 171, 205, 239]) 9 (demoPlan\<lparr>PlanID := ''''\<rparr>) =
     (Inr (), (Canonicalize demoPlan)\<lparr>PlanHash := planHash demoCodec (Canonicalize demoPlan)\<rparr>)"
  by (simp add: Finalize_def Let_def NewPlanID_def mintId_def planIDPrefix_def hexDigit_def
      Canonicalize_def demo_defs ActionRebuild_def ActionRollback_def planSchemaVersion_def
      planHash_def hashInputOf_def)

theorem Finalize_Save_witness:
  "let p' = (Canonicalize demoPlan)\<lparr>PlanHash := planHash demoCodec (Canonicalize demoPlan)\<rparr> in
   Save demoCodec (quietIo (Inr demoPlan)) 7 (Some p') Map.empty = (Inr (), [planFile (PlanID p') \<mapsto> Inr p'])"
  using Finalize_Save [OF demo_Finalize, of Map.empty 7 "Inr demoPlan"]
  by (simp add: Let_def maxPlanBytes_def)

lemma transition_cases:
  assumes keeps: "\<And>p. hashInputOf (mutate p) = hashInputOf p" "\<And>p. PlanID (mutate p) = PlanID p"
  shows "transition cd io pid readErr i status mutate d =
    (case Load cd readErr i d of
       Inl e \<Rightarrow> (Inl e, d)
     | Inr p \<Rightarrow>
         let p' = mutate (p\<lparr>Status := status\<rparr>);
             r = replaceFile io CodeFilesystem pid (planFile (PlanID p)) (marshalPlan cd p') d
         in (case fst r of Inl e \<Rightarrow> Inl e | Inr _ \<Rightarrow> Inr p', snd r))"
proof (cases "Load cd readErr i d")
  case (Inr p)
  then have "ValidateID (PlanID p)" by (auto simp: Load_Inr Decode_Inr)
  moreover have "planHash cd (mutate (p\<lparr>Status := status\<rparr>)) = planHash cd p"
    using planHash_cong [of "mutate (p\<lparr>Status := status\<rparr>)" p cd] keeps by simp
  ultimately show ?thesis
    using Inr keeps(2) by (simp add: transition_def planPath_def Let_def split: prod.splits sum.splits)
qed (simp add: transition_def)

text \<open>The plan an application leaves behind: status and correlation are stamped, nothing else.\<close>

definition appliedPlan :: "int \<Rightarrow> string \<Rightarrow> string \<Rightarrow> plan \<Rightarrow> plan" where
  "appliedPlan now op dep p =
     p\<lparr>Status := StatusApplied, Correlation := Some \<lparr>corOperationID = op, corDeploymentID = dep,
       corAppliedAtMs = now\<rparr>\<rparr>"

text \<open>
  Marking a plan applied cannot smuggle in an execution change. If it succeeds, the stored plan
  is the loaded one with status applied and the given correlation, its semantic content, hash and
  identifier are unchanged, and it loads again; if any system call fails, the file on disk holds
  either the old or the complete new bytes.
\<close>

theorem MarkApplied_keeps_semantics:
  assumes "Load cd readErr i d = Inr p" and "PlanID p = i"
    and json: "\<And>q. unmarshalPlan cd (marshalPlan cd q) = Some q"
  shows "case MarkApplied cd io pid readErr now i op dep d of
      (Inr q, d') \<Rightarrow> q = appliedPlan now op dep p \<and> hashInputOf q = hashInputOf p \<and> PlanHash q = PlanHash p \<and>
                      Load cd readErr i d' = Inr q
    | (Inl e, d') \<Rightarrow> d' (planFile i) \<in> {d (planFile i), Some (marshalPlan cd (appliedPlan now op dep p))}"
proof -
  define p' where "p' = appliedPlan now op dep p"
  let ?r = "replaceFile io CodeFilesystem pid (planFile i) (marshalPlan cd p') d"
  have run: "MarkApplied cd io pid readErr now i op dep d =
               (case fst ?r of Inl e \<Rightarrow> Inl e | Inr _ \<Rightarrow> Inr p', snd ?r)"
    unfolding MarkApplied_def p'_def appliedPlan_def using assms(1,2)
    by (subst transition_cases) (simp_all add: hashInputOf_def Let_def)
  have p': "hashInputOf p' = hashInputOf p" "PlanHash p' = PlanHash p" "PlanID p' = i"
      "SchemaVersion p' = SchemaVersion p" "Status p' = StatusApplied" "planHash cd p' = planHash cd p"
    using assms(2) by (simp_all add: p'_def appliedPlan_def)
  have "Load cd readErr i (snd ?r) = Inr p'" if "fst ?r = Inr ()"
    using assms(1) json p' replaceFile_ok [OF that] by (auto simp: Load_Inr Decode_Inr)
  with run p' replaceFile_atomic [of io CodeFilesystem pid "planFile i" "marshalPlan cd p'" d]
  show ?thesis unfolding p'_def [symmetric] by (auto split: sum.splits)
qed

theorem MarkApplied_keeps_semantics_witness:
  "case MarkApplied demoCodec (quietIo (Inr demoPlan)) 7 (\<lambda>_. False) 99 ''pln_0123456789abcdef''
          ''op_1'' ''dep_1'' demoStore of
      (Inr q, d') \<Rightarrow> hashInputOf q = hashInputOf demoPlan \<and> corOperationID (the (Correlation q)) = ''op_1'' \<and>
                      Load demoCodec (\<lambda>_. False) ''pln_0123456789abcdef'' d' = Inr q
    | (Inl e, d') \<Rightarrow> d' (planFile ''pln_0123456789abcdef'') \<noteq> None"
  using MarkApplied_keeps_semantics [OF demoPlan_Load, where io = "quietIo (Inr demoPlan)" and pid = 7
      and now = 99 and op = "''op_1''" and dep = "''dep_1''"]
  by (auto simp: demoStore_def appliedPlan_def split: prod.splits sum.splits)

definition planEvaluated :: "planWorld \<Rightarrow> plan \<Rightarrow> precondition \<Rightarrow> bool" where
  "planEvaluated w p c \<longleftrightarrow>
     preType c \<in> {''app_exists'', ''current_version'', ''version_exists'', ''deploy_mode'',
                 ''config_fingerprint'', ''source_commit'', ''toolchain_available''} \<and>
     snd (evaluatePrecondition w p c)"

text \<open>
  Precondition evaluation is complete and fails closed. A plan has no failed precondition exactly
  when every precondition is of a known type and holds now; each failure reports the precondition's
  own type and expected value, in plan order.
\<close>

theorem Evaluate_fails_closed:
  "(Evaluate w p = [] \<longleftrightarrow> list_all (planEvaluated w p) (Preconditions p)) \<and>
   map (\<lambda>f. (fpType f, fpExpected f)) (Evaluate w p) =
     map (\<lambda>c. (preType c, preExpected c)) (filter (\<lambda>c. \<not> planEvaluated w p c) (Preconditions p))"
proof -
  have unknown: "planEvaluated w p c = snd (evaluatePrecondition w p c)" for c
    by (auto simp: planEvaluated_def evaluatePrecondition_def Let_def)
  have "map (\<lambda>f. (fpType f, fpExpected f)) (concat (map (\<lambda>c. case evaluatePrecondition w p c of
          (actual, ok) \<Rightarrow> if ok then [] else [FailedPrecondition (preType c) (preExpected c) actual]) cs)) =
        map (\<lambda>c. (preType c, preExpected c)) (filter (\<lambda>c. \<not> planEvaluated w p c) cs)" for cs
    by (induction cs) (auto simp: unknown split: prod.splits)
  then have m: "map (\<lambda>f. (fpType f, fpExpected f)) (Evaluate w p) =
        map (\<lambda>c. (preType c, preExpected c)) (filter (\<lambda>c. \<not> planEvaluated w p c) (Preconditions p))"
    by (simp add: Evaluate_def)
  then have "Evaluate w p = [] \<longleftrightarrow> list_all (planEvaluated w p) (Preconditions p)"
    by (metis (no_types, lifting) filter_empty_conv list.map_disc_iff list_all_iff)
  with m show ?thesis by blast
qed

text \<open>
  C37: Retention never loses a protected plan. After pruning, of the plans that were readable (with
  distinct identifiers, each filed under its own), exactly those the policy retains are still on
  disk, when every removal succeeds: the protected ones and the newest \<open>max\<close> of the others; every
  other file of the directory is untouched.
\<close>

theorem Prune_retains:
  assumes "ListPlans cd readErr '''' 0 rd d = Inr (ps, k)"
    and "distinct (map PlanID ps)" and filed: "\<forall>p\<in>set ps. d (planFile (PlanID p)) \<noteq> None"
    and "\<And>n. \<not> rmErr n"
  shows "case PrunePlans cd readErr rmErr limit protected rd d of (r, d') \<Rightarrow>
     isOk r \<and>
     {p \<in> set ps. d' (planFile (PlanID p)) \<noteq> None} =
       retained (\<lambda>p. protected (PlanID p)) (nat (planBudget limit)) ps \<and>
     (\<forall>n. n \<notin> planFile ` PlanID ` set ps \<longrightarrow> d' n = d n)"
proof -
  let ?v = "pruneLoop (\<lambda>p. protected (PlanID p)) (planBudget limit) 0 ps"
  let ?d = "snd (removeVictims rmErr ?v 0 d)"
  have run: "PrunePlans cd readErr rmErr limit protected rd d = (Inr (fst (removeVictims rmErr ?v 0 d)), ?d)"
    by (simp add: PrunePlans_def assms(1) split: prod.splits)
  have sub: "set ?v \<subseteq> set ps" by (rule pruneLoop_subset)
  have inj: "PlanID p = PlanID q \<longleftrightarrow> p = q" if "p \<in> set ps" "q \<in> set ps" for p q
    using assms(2) that by (auto simp: distinct_map inj_on_def)
  have "?d (planFile (PlanID p)) \<noteq> None \<longleftrightarrow> p \<notin> set ?v" if p: "p \<in> set ps" for p
  proof (cases "p \<in> set ?v")
    case True
    with assms(4) ListPlans_valid [OF assms(1) p] show ?thesis by (simp add: removeVictims_removed)
  next
    case False
    then have "planFile (PlanID p) \<noteq> planFile (PlanID q)" if "q \<in> set ?v" for q
      using inj [OF p, of q] sub that by auto
    with False filed p show ?thesis by (simp add: removeVictims_frame)
  qed
  then have "{p \<in> set ps. ?d (planFile (PlanID p)) \<noteq> None} = set ps - set ?v" by blast
  moreover have "distinct ps" using assms(2) by (simp add: distinct_map)
  ultimately have "{p \<in> set ps. ?d (planFile (PlanID p)) \<noteq> None} =
       retained (\<lambda>p. protected (PlanID p)) (nat (planBudget limit)) ps"
    by (simp add: loop.survivors_retained)
  moreover have "?d n = d n" if "n \<notin> planFile ` PlanID ` set ps" for n
    using that sub by (intro removeVictims_frame) auto
  ultimately show ?thesis by (simp add: run)
qed

lemma demo_List:
  "ListPlans demoCodec (\<lambda>_. False) '''' 0 (Entries [planFile ''pln_0123456789abcdef'']) demoStore
     = Inr ([demoPlan], 0)"
proof -
  have "Decode demoCodec (Inr demoPlan) = Inr demoPlan" by (simp add: Decode_Inr)
  then show ?thesis
    by (simp add: ListPlans_def demoStore_def planFile_def fileExt_def hasPrefix_def)
qed

theorem Prune_retains_witness:
  "case PrunePlans demoCodec (\<lambda>_. False) (\<lambda>_. False) 1 (\<lambda>_. False)
          (Entries [planFile ''pln_0123456789abcdef'']) demoStore of (r, d') \<Rightarrow>
     isOk r \<and> {p \<in> set [demoPlan]. d' (planFile (PlanID p)) \<noteq> None} = {demoPlan}"
  using Prune_retains [OF demo_List, where rmErr = "\<lambda>_. False" and limit = 1 and protected = "\<lambda>_. False"]
  by (auto simp: demoStore_def retained_def planBudget_def split: prod.splits)

end
