(* ===== verification/Authz.thy ===== *)
theory Authz
  imports Errors
begin

text \<open>
  The execution authorization boundary (\<open>internal/authz\<close>): actors and requests, the rule
  model and its validation, the policy loader and the decision function.  Errors are their codes;
  the human-facing reason of a decision is not modelled.  The JSON decoder of a policy file and what
  the file system reports of it are arguments.  A Go pointer that may be nil is an
  \<^typ>\<open>'a option\<close>.
\<close>

section \<open>Actors and requests\<close>

definition CallerCLI :: string where "CallerCLI = ''cli''"
definition CallerAPI :: string where "CallerAPI = ''api''"
definition CallerAgent :: string where "CallerAgent = ''agent''"
definition CallerMCP :: string where "CallerMCP = ''mcp''"
definition CallerService :: string where "CallerService = ''service''"

definition callerTypes :: "string list" where
  "callerTypes = [CallerCLI, CallerAPI, CallerAgent, CallerMCP, CallerService]"

definition authzActions :: "string list" where
  "authzActions = [''rebuild'', ''rollback'', ''matrix'']"

definition EffectAllow :: string where "EffectAllow = ''allow''"
definition EffectDeny :: string where "EffectDeny = ''deny''"
definition EffectApprovalRequired :: string where "EffectApprovalRequired = ''approval_required''"

definition ModeLegacyLocal :: string where "ModeLegacyLocal = ''legacy_local''"
definition ModeEnforced :: string where "ModeEnforced = ''enforced''"

definition codeAllowed :: string where "codeAllowed = ''AUTHZ_ALLOWED''"

definition authzSchemaVersion :: string where "authzSchemaVersion = ''1''"

definition maxPolicyBytes :: nat where "maxPolicyBytes = 64 * 1024"

definition maxRules :: nat where "maxRules = 128"

datatype actor = Actor (actorType: string) (actorID: string) (actorAuthenticated: bool)

datatype planRef = PlanRef (refID: string) (refHash: string)

datatype authzTarget = AuthzTarget (tgtApp: string) (tgtID: string)

datatype approvalBinding =
  ApprovalBinding (bindPlanID: string) (bindPlanHash: string) (bindAction: string) (bindTarget: string)

record approvalState =
  Present :: bool
  stApprovalID :: string
  stErr :: "code option"
  Binding :: approvalBinding

record request =
  reqActor :: actor
  reqAction :: string
  reqTarget :: authzTarget
  reqPlan :: "planRef option"
  reqApproval :: "approvalState option"

record decision =
  Effect :: string
  Code :: string
  Mode :: string
  RuleIndex :: int
  dApprovalID :: string

definition Actor_Validate :: "actor \<Rightarrow> (code, unit) result" where
  "Actor_Validate a =
     (if actorType a \<notin> set callerTypes then Inl CodeAuthzInvalid
      else if actorID a \<noteq> '''' \<and> \<not> actorAuthenticated a then Inl CodeAuthzInvalid
      else Inr ())"

text \<open>The machine-contract view of an actor: type, optional identity, authenticated.\<close>

definition Actor_Machine :: "actor \<Rightarrow> string \<times> string option \<times> bool" where
  "Actor_Machine a =
     (actorType a, if actorID a \<noteq> '''' then Some (actorID a) else None, actorAuthenticated a)"

definition Actor_String :: "actor \<Rightarrow> string" where
  "Actor_String a =
     (if \<not> actorAuthenticated a then actorType a @ '':unauthenticated''
      else if actorID a = '''' then actorType a @ '':authenticated''
      else actorType a @ '':'' @ actorID a)"

definition LocalCLIAuthenticate :: "(code, actor) result" where
  "LocalCLIAuthenticate = Inr (Actor CallerCLI '''' False)"

definition LocalMCPAuthenticate :: "(code, actor) result" where
  "LocalMCPAuthenticate = Inr (Actor CallerMCP '''' False)"

definition Request_Validate :: "request \<Rightarrow> (code, unit) result" where
  "Request_Validate r =
     rbind (Actor_Validate (reqActor r)) (\<lambda>_.
       if reqAction r \<notin> set authzActions then Inl CodeAuthzInvalid
       else if tgtApp (reqTarget r) = '''' then Inl CodeAuthzInvalid
       else case reqPlan r of
         None \<Rightarrow> Inr ()
       | Some p \<Rightarrow> if refID p = '''' \<or> refHash p = '''' then Inl CodeAuthzInvalid else Inr ())"

definition Allowed :: "decision \<Rightarrow> bool" where
  "Allowed d \<longleftrightarrow> Effect d = EffectAllow"

definition decisionCodes :: "code list" where
  "decisionCodes =
     [CodeAuthzDenied, CodeAuthzUnavailable, CodeAuthzInvalid, CodeApprovalRequired,
      CodeApprovalStale, CodeApprovalInvalid]"

definition Decision_Err :: "decision \<Rightarrow> code option" where
  "Decision_Err d =
     (if Allowed d then None
      else case find (\<lambda>c. code_String c = Code d) decisionCodes of
        Some c \<Rightarrow> Some c
      | None \<Rightarrow> Some CodeAuthzDenied)"

section \<open>Rules and policies\<close>

record rule =
  ruActorType :: string
  ruActorID :: string
  ruAuthenticated :: "bool option"
  ruAction :: string
  ruTarget :: string
  ruEffect :: string
  RequireApproval :: bool
  ruDescription :: string

record policy =
  polSchemaVersion :: string
  polMode :: string
  Rules :: "rule list"
  polSource :: string

definition Rule_validate :: "rule \<Rightarrow> (code, unit) result" where
  "Rule_validate r =
     (if ruEffect r \<notin> {''allow'', ''deny''} then Inl CodeAuthzInvalid
      else if ruAction r \<notin> set authzActions \<union> {''*''} then Inl CodeAuthzInvalid
      else if ruTarget r = '''' then Inl CodeAuthzInvalid
      else if ruActorType r \<notin> set callerTypes \<union> {''*''} then Inl CodeAuthzInvalid
      else case ruAuthenticated r of
        None \<Rightarrow> Inl CodeAuthzInvalid
      | Some au \<Rightarrow>
          if ruActorID r \<noteq> '''' \<and> \<not> au then Inl CodeAuthzInvalid
          else if ruEffect r = ''deny'' \<and> RequireApproval r then Inl CodeAuthzInvalid
          else Inr ())"

fun validateRules :: "rule list \<Rightarrow> (code, unit) result" where
  "validateRules [] = Inr ()"
| "validateRules (r # rs) = rbind (Rule_validate r) (\<lambda>_. validateRules rs)"

definition Policy_validate :: "policy \<Rightarrow> (code, unit) result" where
  "Policy_validate p =
     (if polSchemaVersion p \<noteq> authzSchemaVersion then Inl CodeAuthzInvalid
      else if polMode p \<notin> {ModeLegacyLocal, ModeEnforced} then Inl CodeAuthzInvalid
      else if length (Rules p) > maxRules then Inl CodeAuthzInvalid
      else validateRules (Rules p))"

definition legacyPolicy :: policy where
  "legacyPolicy =
     \<lparr>polSchemaVersion = authzSchemaVersion, polMode = ModeLegacyLocal, Rules = [], polSource = ''''\<rparr>"

text \<open>\<open>dec\<close> is the strict JSON decoder: \<^const>\<open>None\<close> on a syntax error or an unknown field.\<close>

definition DecodePolicy :: "('b \<Rightarrow> policy option) \<Rightarrow> 'b \<Rightarrow> (code, policy) result" where
  "DecodePolicy dec data =
     (case dec data of
        None \<Rightarrow> Inl CodeAuthzInvalid
      | Some p \<Rightarrow> rbind (Policy_validate p) (\<lambda>_. Inr p))"

text \<open>
  What the file system answers about the policy file: \<open>Lstat\<close> reports absence, an error, or
  whether it is regular and its size; then the read succeeds or fails.
\<close>

datatype 'b policyFile =
    PolicyAbsent
  | PolicyStatError
  | PolicyPresent (regular: bool) (fsize: nat) (content: "'b option")

definition LoadPolicy :: "('b \<Rightarrow> policy option) \<Rightarrow> string \<Rightarrow> 'b policyFile \<Rightarrow> (code, policy) result" where
  "LoadPolicy dec path file =
     (case file of
        PolicyAbsent \<Rightarrow> Inr legacyPolicy
      | PolicyStatError \<Rightarrow> Inl CodeAuthzUnavailable
      | PolicyPresent reg sz c \<Rightarrow>
          if \<not> reg then Inl CodeAuthzInvalid
          else if sz > maxPolicyBytes then Inl CodeAuthzInvalid
          else case c of
            None \<Rightarrow> Inl CodeAuthzUnavailable
          | Some data \<Rightarrow> rbind (DecodePolicy dec data) (\<lambda>p. Inr (p\<lparr>polSource := path\<rparr>)))"

definition matches :: "rule \<Rightarrow> request \<Rightarrow> bool" where
  "matches r req =
     (if ruActorType r \<noteq> ''*'' \<and> ruActorType r \<noteq> actorType (reqActor req) then False
      else if ruAuthenticated r \<noteq> Some (actorAuthenticated (reqActor req)) then False
      else if ruActorID r \<noteq> '''' \<and> ruActorID r \<noteq> ''*'' \<and>
              (\<not> actorAuthenticated (reqActor req) \<or> actorID (reqActor req) \<noteq> ruActorID r) then False
      else if ruAction r \<noteq> ''*'' \<and> ruAction r \<noteq> reqAction req then False
      else if ruTarget r \<noteq> ''*'' \<and> ruTarget r \<noteq> tgtApp (reqTarget req) then False
      else True)"

section \<open>The decision\<close>

definition denied :: "code \<Rightarrow> string \<Rightarrow> int \<Rightarrow> decision" where
  "denied c mode i =
     \<lparr>Effect = EffectDeny, Code = code_String c, Mode = mode, RuleIndex = i, dApprovalID = ''''\<rparr>"

definition staleApproval :: "string \<Rightarrow> int \<Rightarrow> string \<Rightarrow> decision" where
  "staleApproval mode i aid = (denied CodeApprovalStale mode i)\<lparr>dApprovalID := aid\<rparr>"

definition decideWithApproval :: "request \<Rightarrow> planRef \<Rightarrow> string \<Rightarrow> int \<Rightarrow> decision" where
  "decideWithApproval req plan mode i =
     (case reqApproval req of
        None \<Rightarrow> (denied CodeApprovalRequired mode i)\<lparr>Effect := EffectApprovalRequired\<rparr>
      | Some st \<Rightarrow>
          if \<not> Present st then (denied CodeApprovalRequired mode i)\<lparr>Effect := EffectApprovalRequired\<rparr>
          else case stErr st of
            Some e \<Rightarrow> denied e mode i
          | None \<Rightarrow>
              if bindPlanID (Binding st) \<noteq> refID plan then staleApproval mode i (stApprovalID st)
              else if bindPlanHash (Binding st) \<noteq> refHash plan then staleApproval mode i (stApprovalID st)
              else if bindAction (Binding st) \<noteq> reqAction req \<or>
                      bindTarget (Binding st) \<noteq> tgtApp (reqTarget req)
                then staleApproval mode i (stApprovalID st)
              else \<lparr>Effect = EffectAllow, Code = codeAllowed, Mode = mode, RuleIndex = i,
                    dApprovalID = stApprovalID st\<rparr>)"

text \<open>The two loops over the rules, from index \<open>i\<close> on.\<close>

fun denyLoop :: "request \<Rightarrow> string \<Rightarrow> int \<Rightarrow> rule list \<Rightarrow> decision option" where
  "denyLoop req mode i [] = None"
| "denyLoop req mode i (r # rs) =
     (if ruEffect r = ''deny'' \<and> matches r req then Some (denied CodeAuthzDenied mode i)
      else denyLoop req mode (i + 1) rs)"

fun allowLoop :: "request \<Rightarrow> planRef \<Rightarrow> string \<Rightarrow> int \<Rightarrow> rule list \<Rightarrow> decision option" where
  "allowLoop req plan mode i [] = None"
| "allowLoop req plan mode i (r # rs) =
     (if ruEffect r \<noteq> ''allow'' \<or> \<not> matches r req then allowLoop req plan mode (i + 1) rs
      else if \<not> RequireApproval r then
        Some \<lparr>Effect = EffectAllow, Code = codeAllowed, Mode = mode, RuleIndex = i, dApprovalID = ''''\<rparr>
      else Some (decideWithApproval req plan mode i))"

definition PolicyAuthorize :: "policy option \<Rightarrow> request \<Rightarrow> decision" where
  "PolicyAuthorize pol req =
     (case pol of
        None \<Rightarrow> denied CodeAuthzUnavailable '''' (-1)
      | Some p \<Rightarrow>
          let mode = polMode p in
          case Request_Validate req of
            Inl e \<Rightarrow> denied e mode (-1)
          | Inr _ \<Rightarrow>
              if mode = ModeLegacyLocal then
                (if actorType (reqActor req) = CallerCLI then
                   \<lparr>Effect = EffectAllow, Code = codeAllowed, Mode = mode, RuleIndex = -1,
                    dApprovalID = ''''\<rparr>
                 else denied CodeAuthzDenied mode (-1))
              else case reqPlan req of
                None \<Rightarrow> denied CodeAuthzDenied mode (-1)
              | Some plan \<Rightarrow>
                  (case denyLoop req mode 0 (Rules p) of
                     Some d \<Rightarrow> d
                   | None \<Rightarrow>
                       (case allowLoop req plan mode 0 (Rules p) of
                          Some d \<Rightarrow> d
                        | None \<Rightarrow> denied CodeAuthzDenied mode (-1))))"

section \<open>The specification of a decision\<close>

text \<open>
  What the boundary promises, without loops or indices: when an approval binds this execution, and
  when a policy authorises a request.
\<close>

definition approvalBinds :: "request \<Rightarrow> planRef \<Rightarrow> approvalState \<Rightarrow> bool" where
  "approvalBinds req plan st \<longleftrightarrow>
     Present st \<and> stErr st = None \<and>
     Binding st = ApprovalBinding (refID plan) (refHash plan) (reqAction req) (tgtApp (reqTarget req))"

definition allowRule :: "policy \<Rightarrow> request \<Rightarrow> rule option" where
  "allowRule p req = find (\<lambda>r. ruEffect r = ''allow'' \<and> matches r req) (Rules p)"

definition forbidden :: "policy \<Rightarrow> request \<Rightarrow> bool" where
  "forbidden p req \<longleftrightarrow> list_ex (\<lambda>r. ruEffect r = ''deny'' \<and> matches r req) (Rules p)"

definition authorised :: "policy \<Rightarrow> request \<Rightarrow> bool" where
  "authorised p req \<longleftrightarrow>
     isOk (Request_Validate req) \<and>
     (if polMode p = ModeLegacyLocal then actorType (reqActor req) = CallerCLI
      else case reqPlan req of
        None \<Rightarrow> False
      | Some plan \<Rightarrow>
          \<not> forbidden p req \<and>
          (case allowRule p req of
             None \<Rightarrow> False
           | Some r \<Rightarrow> RequireApproval r \<longrightarrow>
               (case reqApproval req of None \<Rightarrow> False | Some st \<Rightarrow> approvalBinds req plan st)))"

lemmas effect_defs = EffectAllow_def EffectDeny_def EffectApprovalRequired_def
lemmas mode_defs = ModeLegacyLocal_def ModeEnforced_def
lemmas caller_defs = CallerCLI_def CallerAPI_def CallerAgent_def CallerMCP_def CallerService_def

lemma denied_not_Allowed [simp]:
  "\<not> Allowed (denied c m i)" "\<not> Allowed (staleApproval m i a)"
  "\<not> Allowed ((denied c m i)\<lparr>Effect := EffectApprovalRequired\<rparr>)"
  by (simp_all add: Allowed_def denied_def staleApproval_def effect_defs)

lemma Allowed_EffectAllow [simp]:
  "Allowed \<lparr>Effect = EffectAllow, Code = c, Mode = m, RuleIndex = i, dApprovalID = a\<rparr>"
  by (simp add: Allowed_def)

lemma decideWithApproval_Allowed:
  "Allowed (decideWithApproval req plan mode i) \<longleftrightarrow>
     (case reqApproval req of None \<Rightarrow> False | Some st \<Rightarrow> approvalBinds req plan st)"
  by (auto simp: decideWithApproval_def approvalBinds_def approvalBinding.expand
      split: option.splits if_splits)

lemma denyLoop_None: "denyLoop req mode i rs = None \<longleftrightarrow> \<not> list_ex (\<lambda>r. ruEffect r = ''deny'' \<and> matches r req) rs"
  by (induction rs arbitrary: i) auto

lemma denyLoop_Some: "denyLoop req mode i rs = Some d \<Longrightarrow> \<exists>j. d = denied CodeAuthzDenied mode j"
  by (induction rs arbitrary: i) (auto split: if_splits)

lemma allowLoop_None:
  "allowLoop req plan mode i rs = None \<longleftrightarrow> find (\<lambda>r. ruEffect r = ''allow'' \<and> matches r req) rs = None"
  by (induction rs arbitrary: i) auto

lemma allowLoop_Some:
  assumes "allowLoop req plan mode i rs = Some d"
  shows "\<exists>r. find (\<lambda>r. ruEffect r = ''allow'' \<and> matches r req) rs = Some r \<and>
           (RequireApproval r \<longrightarrow> (\<exists>j. d = decideWithApproval req plan mode j)) \<and>
           (\<not> RequireApproval r \<longrightarrow> Allowed d)"
  using assms by (induction rs arbitrary: i) (auto split: if_splits)

lemma Authorize_enforced:
  assumes "isOk (Request_Validate req)" and "polMode p \<noteq> ModeLegacyLocal" and "reqPlan req = Some plan"
  shows "Allowed (PolicyAuthorize (Some p) req) \<longleftrightarrow> authorised p req"
proof (cases "denyLoop req (polMode p) 0 (Rules p)")
  case None
  then have nf: "\<not> forbidden p req" by (simp add: denyLoop_None forbidden_def)
  show ?thesis
  proof (cases "allowLoop req plan (polMode p) 0 (Rules p)")
    case None
    then have "allowRule p req = None" by (simp add: allowLoop_None allowRule_def)
    with \<open>denyLoop _ _ _ _ = None\<close> None assms show ?thesis
      by (auto simp: PolicyAuthorize_def authorised_def isOk_iff Let_def)
  next
    case (Some d)
    from allowLoop_Some [OF Some] obtain r where r: "allowRule p req = Some r"
      and d: "RequireApproval r \<longrightarrow> (\<exists>j. d = decideWithApproval req plan (polMode p) j)"
        "\<not> RequireApproval r \<longrightarrow> Allowed d"
      by (auto simp: allowRule_def)
    have "PolicyAuthorize (Some p) req = d"
      using assms None Some by (auto simp: PolicyAuthorize_def isOk_iff Let_def)
    with assms nf r d show ?thesis
      by (cases "RequireApproval r") (auto simp: authorised_def decideWithApproval_Allowed)
  qed
next
  case (Some d)
  with denyLoop_Some [OF Some] assms have "\<not> Allowed (PolicyAuthorize (Some p) req)"
    by (auto simp: PolicyAuthorize_def isOk_iff Let_def)
  moreover from Some have "forbidden p req"
    using denyLoop_None [of req "polMode p" 0 "Rules p"] by (auto simp: forbidden_def)
  ultimately show ?thesis using assms by (simp add: authorised_def)
qed

lemma Allowed_iff_authorised: "Allowed (PolicyAuthorize (Some p) req) \<longleftrightarrow> authorised p req"
proof (cases "isOk (Request_Validate req) \<and> polMode p \<noteq> ModeLegacyLocal \<and> reqPlan req \<noteq> None")
  case True
  then show ?thesis using Authorize_enforced by auto
next
  case False
  then show ?thesis
    by (auto simp: PolicyAuthorize_def authorised_def isOk_iff Let_def split: sum.splits)
qed

lemma validateRules_ok: "validateRules rs = Inr u \<longleftrightarrow> (\<forall>r\<in>set rs. Rule_validate r = Inr ())"
  by (induction rs) (auto simp: rbind_eq_Inr)

lemma Policy_validate_rules: "Policy_validate p = Inr u \<Longrightarrow> r \<in> set (Rules p) \<Longrightarrow> Rule_validate r = Inr ()"
  by (auto simp: Policy_validate_def validateRules_ok split: if_splits)

lemma find_Some_mem: "find P xs = Some x \<Longrightarrow> x \<in> set xs \<and> P x"
  by (induction xs) (auto split: if_splits)

section \<open>Properties\<close>

text \<open>
  C6: The decision function refines its specification. A request is allowed under a policy exactly
  when it is well-formed and either the host is in legacy mode and the caller is the local CLI, or
  the request is bound to a plan, no deny rule matches, and the first matching allow rule either
  needs no approval or an unbroken approval binds exactly this plan id, plan hash, action and target.
  With no policy nothing is allowed.
\<close>

theorem Authorize_refines_spec:
  "(Allowed (PolicyAuthorize (Some p) req) \<longleftrightarrow> authorised p req) \<and>
   \<not> Allowed (PolicyAuthorize None req)"
  by (simp add: Allowed_iff_authorised) (simp add: PolicyAuthorize_def)

lemma find_insert_dead: "\<not> P y \<Longrightarrow> find P (xs @ y # ys) = find P (xs @ ys)"
  by (induction xs) auto

text \<open>
  Deny rules only take permissions away. Under an enforced policy, inserting a deny rule at any
  position never allows a request that was not allowed before, and it refuses every request it
  matches, whatever the allow rules and approvals say.
\<close>

theorem deny_rule_monotone:
  assumes "ruEffect r = ''deny''" and "polMode p = ModeEnforced"
  shows "Allowed (PolicyAuthorize (Some (p\<lparr>Rules := xs @ r # ys\<rparr>)) req) \<longleftrightarrow>
         Allowed (PolicyAuthorize (Some (p\<lparr>Rules := xs @ ys\<rparr>)) req) \<and> \<not> matches r req"
  using assms
  by (auto simp: Allowed_iff_authorised authorised_def forbidden_def allowRule_def find_insert_dead
      mode_defs split: option.splits)

definition demoRule :: rule where
  "demoRule =
     \<lparr>ruActorType = ''mcp'', ruActorID = '''', ruAuthenticated = Some False, ruAction = ''rebuild'',
      ruTarget = ''*'', ruEffect = ''allow'', RequireApproval = True, ruDescription = ''''\<rparr>"

definition demoPolicy :: policy where
  "demoPolicy =
     \<lparr>polSchemaVersion = ''1'', polMode = ModeEnforced, Rules = [demoRule], polSource = ''''\<rparr>"

definition demoRequest :: request where
  "demoRequest =
     \<lparr>reqActor = Actor ''mcp'' '''' False, reqAction = ''rebuild'', reqTarget = AuthzTarget ''web'' ''1'',
      reqPlan = Some (PlanRef ''pln_0'' ''sha256:1''),
      reqApproval = Some \<lparr>Present = True, stApprovalID = ''apr_0'', stErr = None,
                          Binding = ApprovalBinding ''pln_0'' ''sha256:1'' ''rebuild'' ''web''\<rparr>\<rparr>"

lemmas authz_demo_defs = demoRule_def demoPolicy_def demoRequest_def

lemma demoRequest_valid: "Request_Validate demoRequest = Inr ()" "matches demoRule demoRequest"
  by (simp_all add: Request_Validate_def Actor_Validate_def callerTypes_def caller_defs authzActions_def
      matches_def authz_demo_defs)

lemma demoRequest_authorised: "authorised demoPolicy demoRequest"
  using demoRequest_valid
  by (simp add: authorised_def forbidden_def allowRule_def authz_demo_defs mode_defs approvalBinds_def)

theorem deny_rule_monotone_witness:
  "Allowed (PolicyAuthorize (Some demoPolicy) demoRequest) \<and>
   \<not> Allowed (PolicyAuthorize (Some (demoPolicy\<lparr>Rules := [demoRule] @ demoRule\<lparr>ruEffect := ''deny''\<rparr> # []\<rparr>))
                demoRequest)"
  using deny_rule_monotone [of "demoRule\<lparr>ruEffect := ''deny''\<rparr>" demoPolicy "[demoRule]" "[]" demoRequest]
    demoRequest_authorised
  by (simp add: Allowed_iff_authorised) (simp add: authz_demo_defs matches_def)



text \<open>
  C29: An unauthenticated caller executes only by an explicit opt-in. If a validated enforced policy
  allows a request of an unauthenticated actor, the deciding rule says so itself: it names no actor
  identity, states \<open>authenticated: false\<close>, and the actor carries no identity either.
\<close>

theorem unauthenticated_needs_opt_in:
  assumes "Policy_validate p = Inr ()" and "polMode p = ModeEnforced"
    and "\<not> actorAuthenticated (reqActor req)" and "Allowed (PolicyAuthorize (Some p) req)"
  shows "actorID (reqActor req) = '''' \<and>
         (\<exists>r\<in>set (Rules p). ruEffect r = ''allow'' \<and> matches r req \<and>
            ruActorID r = '''' \<and> ruAuthenticated r = Some False)"
proof -
  from assms(4) have au: "authorised p req" by (simp add: Allowed_iff_authorised)
  then obtain r where r: "allowRule p req = Some r" and ok: "isOk (Request_Validate req)"
    using assms(2) by (auto simp: authorised_def mode_defs split: option.splits)
  from r have mem: "r \<in> set (Rules p)" "ruEffect r = ''allow''" "matches r req"
    unfolding allowRule_def by (auto dest: find_Some_mem)
  from mem(3) assms(3) have "ruAuthenticated r = Some False"
    by (simp add: matches_def split: if_splits)
  moreover from this Policy_validate_rules [OF assms(1) mem(1)] have "ruActorID r = ''''"
    by (simp add: Rule_validate_def split: if_splits)
  moreover from ok assms(3) have "actorID (reqActor req) = ''''"
    by (auto simp: isOk_iff Request_Validate_def Actor_Validate_def result_simps split: if_splits)
  ultimately show ?thesis using mem by blast
qed

theorem unauthenticated_needs_opt_in_witness:
  "actorID (reqActor demoRequest) = '''' \<and>
   (\<exists>r\<in>set (Rules demoPolicy). ruEffect r = ''allow'' \<and> matches r demoRequest \<and>
      ruActorID r = '''' \<and> ruAuthenticated r = Some False)"
proof (rule unauthenticated_needs_opt_in)
  show "Policy_validate demoPolicy = Inr ()"
    by (simp add: Policy_validate_def Rule_validate_def authz_demo_defs authzSchemaVersion_def mode_defs
        maxRules_def callerTypes_def caller_defs authzActions_def)
  show "polMode demoPolicy = ModeEnforced" "\<not> actorAuthenticated (reqActor demoRequest)"
    by (simp_all add: authz_demo_defs)
  show "Allowed (PolicyAuthorize (Some demoPolicy) demoRequest)"
    by (simp add: Allowed_iff_authorised demoRequest_authorised)
qed

text \<open>
  Loading the policy fails closed. It yields a policy only when the file is genuinely absent (the
  implicit legacy policy) or when a regular file of bounded size decoded to a policy that passed
  validation; every other situation is AUTHZ_UNAVAILABLE or AUTHZ_INVALID.
\<close>

theorem LoadPolicy_fails_closed:
  "case LoadPolicy dec path file of
     Inr p \<Rightarrow> file = PolicyAbsent \<and> p = legacyPolicy \<or>
              (\<exists>sz data q. file = PolicyPresent True sz (Some data) \<and> sz \<le> maxPolicyBytes \<and>
                 dec data = Some q \<and> Policy_validate q = Inr () \<and> p = q\<lparr>polSource := path\<rparr>)
   | Inl e \<Rightarrow> file \<noteq> PolicyAbsent \<and> (e = CodeAuthzUnavailable \<or> e = CodeAuthzInvalid)"
proof -
  have "e = CodeAuthzInvalid" if "Rule_validate r = Inl e" for e and r :: rule
    using that by (auto simp: Rule_validate_def split: if_splits option.splits)
  then have "e = CodeAuthzInvalid" if "validateRules rs = Inl e" for e rs
    using that by (induction rs) (auto simp: rbind_eq_Inl)
  then have pol: "e = CodeAuthzInvalid" if "Policy_validate p = Inl e" for e p
    using that by (auto simp: Policy_validate_def split: if_splits)
  show ?thesis
    using pol by (auto simp: LoadPolicy_def DecodePolicy_def result_simps not_less
        split: policyFile.splits option.splits sum.splits if_splits)
qed

end
