(* ===== verification/Approval.thy ===== *)
theory Approval
  imports AtomicFile Authz
begin

text \<open>
  Approvals (\<open>internal/authz/approval.go\<close>): the create-only, hash-covered artifact that binds an
  approver to one exact plan, filed under the plan's identifier.  \<open>encoding/json\<close> and
  \<open>crypto/sha256\<close> are the fields of \<open>apCodec\<close>; the redactor applied to the host login name is the
  argument \<open>redact\<close>.
\<close>

record approval =
  apSchemaVersion :: string
  apApprovalID :: string
  ApprovalHash :: string
  apPlanID :: string
  apPlanHash :: string
  apAction :: string
  apTarget :: string
  apDecision :: string
  ApproverType :: string
  ApproverID :: string
  ApproverAuthenticated :: bool
  ApproverSource :: string
  ApproverProvenance :: string
  ApprovedAtMs :: int

record approvalHashInput =
  ahSchemaVersion :: string
  ahPlanID :: string
  ahPlanHash :: string
  ahAction :: string
  ahTarget :: string
  ahDecision :: string
  ahApproverType :: string
  ahApproverID :: string
  ahApproverAuthenticated :: bool
  ahApproverSource :: string

record 'b apCodec =
  marshalApHash :: "approvalHashInput \<Rightarrow> 'b"
  apSha256 :: "'b \<Rightarrow> nat list"
  marshalAp :: "approval \<Rightarrow> 'b"
  unmarshalAp :: "'b \<Rightarrow> approval option"
  apLen :: "'b \<Rightarrow> nat"

definition DecisionApproved :: string where "DecisionApproved = ''approved''"
definition ApproverSourceLocalHost :: string where "ApproverSourceLocalHost = ''local_host''"
definition maxApprovalBytes :: nat where "maxApprovalBytes = 8 * 1024"

definition approvalFile :: "string \<Rightarrow> string" where
  "approvalFile i = i @ ''.json''"

definition approvalPath :: "string \<Rightarrow> (code, string) result" where
  "approvalPath i = (if \<not> hexId ''pln_'' i then Inl CodeAuthzInvalid else Inr (approvalFile i))"

definition newApprovalID :: "nat list option \<Rightarrow> (code, string) result" where
  "newApprovalID rnd =
     (case rnd of None \<Rightarrow> Inl CodeFilesystem | Some bs \<Rightarrow> Inr (mintId ''apr_'' (take 8 bs)))"

definition apHashInput :: "approval \<Rightarrow> approvalHashInput" where
  "apHashInput a =
     \<lparr>ahSchemaVersion = apSchemaVersion a, ahPlanID = apPlanID a, ahPlanHash = apPlanHash a,
      ahAction = apAction a, ahTarget = apTarget a, ahDecision = apDecision a,
      ahApproverType = ApproverType a, ahApproverID = ApproverID a,
      ahApproverAuthenticated = ApproverAuthenticated a, ahApproverSource = ApproverSource a\<rparr>"

definition Approval_Hash :: "'b apCodec \<Rightarrow> approval \<Rightarrow> string" where
  "Approval_Hash cd a = ''sha256:'' @ hexEncode (apSha256 cd (marshalApHash cd (apHashInput a)))"

definition Approval_VerifyHash :: "'b apCodec \<Rightarrow> approval \<Rightarrow> (code, unit) result" where
  "Approval_VerifyHash cd a =
     (if Approval_Hash cd a \<noteq> ApprovalHash a then Inl CodeApprovalInvalid else Inr ())"

definition NewApproval ::
    "'b apCodec \<Rightarrow> (string \<Rightarrow> string) \<Rightarrow> nat list option \<Rightarrow> int \<Rightarrow> actor \<Rightarrow> planRef \<Rightarrow> string
       \<Rightarrow> string \<Rightarrow> string \<Rightarrow> (code, approval) result" where
  "NewApproval cd redact rnd now approver plan act target provenance =
     (if refID plan = '''' \<or> refHash plan = '''' then Inl CodeAuthzInvalid
      else if act \<notin> set authzActions then Inl CodeAuthzInvalid
      else if target = '''' then Inl CodeAuthzInvalid
      else
        rbind (Actor_Validate approver) (\<lambda>_.
        rbind (newApprovalID rnd) (\<lambda>i.
          let a = \<lparr>apSchemaVersion = authzSchemaVersion, apApprovalID = i, ApprovalHash = '''',
                   apPlanID = refID plan, apPlanHash = refHash plan, apAction = act, apTarget = target,
                   apDecision = DecisionApproved, ApproverType = actorType approver,
                   ApproverID = actorID approver, ApproverAuthenticated = actorAuthenticated approver,
                   ApproverSource = ApproverSourceLocalHost, ApproverProvenance = redact provenance,
                   ApprovedAtMs = now\<rparr>
          in Inr (a\<lparr>ApprovalHash := Approval_Hash cd a\<rparr>))))"

definition SaveApproval ::
    "'b apCodec \<Rightarrow> 'b io \<Rightarrow> nat \<Rightarrow> approval option \<Rightarrow> 'b dir \<Rightarrow> ('b, unit) fsop" where
  "SaveApproval cd io pid ap d =
     (case ap of
        None \<Rightarrow> (Inl CodeAuthzInvalid, d)
      | Some a \<Rightarrow>
          (case Approval_VerifyHash cd a of
             Inl e \<Rightarrow> (Inl e, d)
           | Inr _ \<Rightarrow>
               let data = marshalAp cd a in
               if apLen cd data > maxApprovalBytes then (Inl CodeAuthzInvalid, d)
               else if fails io IoMkdir then (Inl CodeFilesystem, d)
               else
                 (case approvalPath (apPlanID a) of
                    Inl e \<Rightarrow> (Inl e, d)
                  | Inr final \<Rightarrow>
                      if d final \<noteq> None then (Inl CodeAlreadyExists, d)
                      else if fails io IoStat then (Inl CodeFilesystem, d)
                      else linkOnce io CodeFilesystem pid final data d)))"

definition DecodeApproval :: "'b apCodec \<Rightarrow> 'b \<Rightarrow> (code, approval) result" where
  "DecodeApproval cd data =
     (case unmarshalAp cd data of
        None \<Rightarrow> Inl CodeApprovalInvalid
      | Some a \<Rightarrow>
          if apSchemaVersion a \<noteq> authzSchemaVersion then Inl CodeApprovalInvalid
          else if \<not> hexId ''apr_'' (apApprovalID a) then Inl CodeApprovalInvalid
          else if apDecision a \<noteq> DecisionApproved then Inl CodeApprovalInvalid
          else rbind (Approval_VerifyHash cd a) (\<lambda>_. Inr a))"

text \<open>A missing approval is not an error: the result is \<open>Inr None\<close>.\<close>

definition LoadApproval ::
    "'b apCodec \<Rightarrow> (string \<Rightarrow> bool) \<Rightarrow> string \<Rightarrow> 'b dir \<Rightarrow> (code, approval option) result" where
  "LoadApproval cd readErr i d =
     rbind (approvalPath i) (\<lambda>path.
       case d path of
         None \<Rightarrow> Inr None
       | Some data \<Rightarrow>
           if readErr path then Inl CodeAuthzUnavailable
           else if apLen cd data > maxApprovalBytes then Inl CodeApprovalInvalid
           else rbind (DecodeApproval cd data) (\<lambda>a.
             if apPlanID a \<noteq> i then Inl CodeApprovalInvalid else Inr (Some a)))"

definition RevokeApproval :: "(string \<Rightarrow> bool) \<Rightarrow> string \<Rightarrow> 'b dir \<Rightarrow> ('b, bool) fsop" where
  "RevokeApproval rmErr i d =
     (case approvalPath i of
        Inl e \<Rightarrow> (Inl e, d)
      | Inr path \<Rightarrow>
          if d path = None then (Inr False, d)
          else if rmErr path then (Inl CodeFilesystem, d)
          else (Inr True, d(path := None)))"

definition ResolveApproval :: "'b apCodec \<Rightarrow> (string \<Rightarrow> bool) \<Rightarrow> 'b dir \<Rightarrow> string \<Rightarrow> approvalState" where
  "ResolveApproval cd readErr d i =
     (case LoadApproval cd readErr i d of
        Inl e \<Rightarrow> \<lparr>Present = True, stApprovalID = '''', stErr = Some e,
                  Binding = ApprovalBinding '''' '''' '''' ''''\<rparr>
      | Inr None \<Rightarrow> \<lparr>Present = False, stApprovalID = '''', stErr = None,
                     Binding = ApprovalBinding '''' '''' '''' ''''\<rparr>
      | Inr (Some a) \<Rightarrow> \<lparr>Present = True, stApprovalID = apApprovalID a, stErr = None,
                     Binding = ApprovalBinding (apPlanID a) (apPlanHash a) (apAction a) (apTarget a)\<rparr>)"

section \<open>Lemmas\<close>

lemma approvalPath_Inr [result_simps]:
  "approvalPath i = Inr f \<longleftrightarrow> hexId ''pln_'' i \<and> f = approvalFile i"
  by (auto simp: approvalPath_def)

lemma approvalFile_inject [simp]: "approvalFile i = approvalFile j \<longleftrightarrow> i = j"
  by (simp add: approvalFile_def)

lemma DecodeApproval_Inr [result_simps]:
  "DecodeApproval cd data = Inr a \<longleftrightarrow>
     unmarshalAp cd data = Some a \<and> apSchemaVersion a = authzSchemaVersion \<and>
     hexId ''apr_'' (apApprovalID a) \<and> apDecision a = DecisionApproved \<and>
     Approval_Hash cd a = ApprovalHash a"
  by (auto simp: DecodeApproval_def Approval_VerifyHash_def result_simps split: option.splits if_splits)

lemma LoadApproval_Some [result_simps]:
  "LoadApproval cd readErr i d = Inr (Some a) \<longleftrightarrow>
     hexId ''pln_'' i \<and> apPlanID a = i \<and> \<not> readErr (approvalFile i) \<and>
     (\<exists>data. d (approvalFile i) = Some data \<and> apLen cd data \<le> maxApprovalBytes \<and>
        DecodeApproval cd data = Inr a)"
  by (auto simp: LoadApproval_def rbind_eq_Inr approvalPath_Inr split: option.splits if_splits)

lemma ResolveApproval_present:
  assumes "Present (ResolveApproval cd readErr d i)" and "stErr (ResolveApproval cd readErr d i) = None"
  shows "\<exists>a. LoadApproval cd readErr i d = Inr (Some a) \<and>
    ResolveApproval cd readErr d i =
      \<lparr>Present = True, stApprovalID = apApprovalID a, stErr = None,
       Binding = ApprovalBinding (apPlanID a) (apPlanHash a) (apAction a) (apTarget a)\<rparr>"
  using assms by (auto simp: ResolveApproval_def split: sum.splits option.splits)

lemma SaveApproval_ok:
  assumes "SaveApproval cd io pid (Some a) d = (Inr (), d')"
  shows "Approval_Hash cd a = ApprovalHash a" and "hexId ''pln_'' (apPlanID a)"
    and "apLen cd (marshalAp cd a) \<le> maxApprovalBytes"
    and "d' (approvalFile (apPlanID a)) = Some (marshalAp cd a)"
  using assms linkOnce_ok [of io CodeFilesystem pid "approvalFile (apPlanID a)" "marshalAp cd a" d]
  by (auto simp: SaveApproval_def Let_def Approval_VerifyHash_def approvalPath_def
      split: sum.splits if_splits)

lemma SaveApproval_refused:
  assumes "d (approvalFile (apPlanID a)) = Some old"
  shows "\<not> isOk (fst (SaveApproval cd io pid (Some a) d)) \<and> snd (SaveApproval cd io pid (Some a) d) = d"
  using assms by (auto simp: SaveApproval_def Let_def approvalPath_def split: sum.splits)

lemma SaveApproval_frame:
  assumes "n \<noteq> approvalFile (apPlanID a)" and "n \<noteq> tmpName (approvalFile (apPlanID a)) pid"
  shows "snd (SaveApproval cd io pid (Some a) d) n = d n"
  using linkOnce_frame [OF assms]
  by (auto simp: SaveApproval_def Let_def approvalPath_def split: sum.splits)

interpretation apStore: artifact_store
  "\<lambda>(io, pid) a. SaveApproval cd io pid (Some a)" "\<lambda>a. approvalFile (apPlanID a)" "marshalAp cd"
  for cd :: "'b apCodec"
proof (unfold_locales, goal_cases)
  case (1 d a b e)
  then show ?case using SaveApproval_refused by (cases e) simp
next
  case (2 e a d)
  then show ?case using SaveApproval_ok(4) [of cd "fst e" "snd e" a d]
    by (cases e) (metis (no_types, lifting) case_prod_conv fst_conv prod.collapse snd_conv)
next
  case (3 b a e d)
  then show ?case using SaveApproval_frame [of "approvalFile (apPlanID b)" a] json_neq_tmpName
    by (cases e) (simp add: approvalFile_def)
qed

lemma NewApproval_Inr:
  assumes "NewApproval cd redact rnd now approver plan act target prov = Inr a"
  shows "Approval_Hash cd a = ApprovalHash a" and "apPlanID a = refID plan" and "apPlanHash a = refHash plan"
    and "apAction a = act" and "apTarget a = target" and "apSchemaVersion a = authzSchemaVersion"
    and "apDecision a = DecisionApproved" and "newApprovalID rnd = Inr (apApprovalID a)"
    and "Actor_Validate approver = Inr ()"
  using assms
  by (auto simp: NewApproval_def Let_def rbind_eq_Inr Approval_Hash_def apHashInput_def split: if_splits)

section \<open>Properties\<close>

text \<open>
  Approvals are immutable: once an approval of a plan was stored, no later sequence of approvals,
  under any failures and races, changes its bytes, and the plan cannot be approved a second time.
\<close>

theorem SaveApproval_immutable:
  assumes "SaveApproval cd io pid (Some a) d = (Inr (), d')"
  shows "fold (\<lambda>((io, pid), x). snd \<circ> SaveApproval cd io pid (Some x)) ops d' (approvalFile (apPlanID a))
           = Some (marshalAp cd a) \<and>
         \<not> isOk (fst (SaveApproval cd io2 pid2 (Some (a2\<lparr>apPlanID := apPlanID a\<rparr>))
             (fold (\<lambda>((io, pid), x). snd \<circ> SaveApproval cd io pid (Some x)) ops d')))"
  using apStore.saved_forever [of cd "(io, pid)" a d ops] assms
    apStore.second_save_refused [of cd "(io, pid)" a d "a2\<lparr>apPlanID := apPlanID a\<rparr>" "(io2, pid2)" ops]
  by (simp add: case_prod_unfold)

definition demoApCodec :: "(approvalHashInput + approval) apCodec" where
  "demoApCodec =
     \<lparr>marshalApHash = Inl, apSha256 = (\<lambda>b. [length (ahPlanHash (projl b)) mod 256]), marshalAp = Inr,
      unmarshalAp = (\<lambda>b. case b of Inl _ \<Rightarrow> None | Inr a \<Rightarrow> Some a), apLen = (\<lambda>_. 100)\<rparr>"

definition demoApproval :: approval where
  "demoApproval =
     \<lparr>apSchemaVersion = ''1'', apApprovalID = ''apr_0123456789abcdef'', ApprovalHash = ''sha256:08'',
      apPlanID = ''pln_0123456789abcdef'', apPlanHash = ''sha256:1'', apAction = ''rebuild'',
      apTarget = ''web'', apDecision = ''approved'', ApproverType = ''cli'', ApproverID = '''',
      ApproverAuthenticated = False, ApproverSource = ''local_host'', ApproverProvenance = ''ops'',
      ApprovedAtMs = 5\<rparr>"

definition demoApprovals :: "(approvalHashInput + approval) dir" where
  "demoApprovals = [approvalFile ''pln_0123456789abcdef'' \<mapsto> Inr demoApproval]"

lemma demoApproval_ids [simp]:
  "hexId ''pln_'' ''pln_0123456789abcdef''" "hexId ''apr_'' ''apr_0123456789abcdef''"
  by code_simp+

lemma demoApproval_hash [simp]: "Approval_Hash demoApCodec demoApproval = ''sha256:08''"
  by (simp add: Approval_Hash_def apHashInput_def demoApCodec_def demoApproval_def hexDigit_def)

lemma demoApproval_Save:
  "SaveApproval demoApCodec (quietIo (Inr demoApproval)) 7 (Some demoApproval) Map.empty
     = (Inr (), demoApprovals)"
proof -
  have "ApprovalHash demoApproval = ''sha256:08''" "apPlanID demoApproval = ''pln_0123456789abcdef''"
    "marshalAp demoApCodec demoApproval = Inr demoApproval" "apLen demoApCodec (Inr demoApproval) = 100"
    by (simp_all add: demoApproval_def demoApCodec_def)
  then show ?thesis
    by (simp add: SaveApproval_def Approval_VerifyHash_def approvalPath_def linkOnce_quiet
        demoApprovals_def maxApprovalBytes_def Let_def)
qed

theorem SaveApproval_immutable_witness:
  "\<not> isOk (fst (SaveApproval demoApCodec (quietIo (Inr demoApproval)) 8
      (Some (demoApproval\<lparr>apPlanHash := ''sha256:2'', apPlanID := apPlanID demoApproval\<rparr>)) demoApprovals))"
  using SaveApproval_immutable [OF demoApproval_Save, of "[]" "quietIo (Inr demoApproval)" 8
      "demoApproval\<lparr>apPlanHash := ''sha256:2''\<rparr>"]
  by simp

text \<open>
  Granting and resolving round-trips. If an approval created for a plan by the approval
  constructor was saved without error, resolving the plan's identifier from the resulting store
  yields a present, unbroken approval whose binding is exactly the given plan id, plan hash, action
  and target, provided the JSON encoder and decoder agree on it; and after a successful revocation
  nothing is resolved any more.
\<close>

theorem grant_resolve_roundtrip:
  assumes "NewApproval cd redact (Some rnd) now approver plan act target prov = Inr a" and "length rnd = 8"
    and "SaveApproval cd io pid (Some a) d = (Inr (), d')"
    and json: "unmarshalAp cd (marshalAp cd a) = Some a"
    and "\<not> readErr (approvalFile (refID plan))"
  shows "ResolveApproval cd readErr d' (refID plan) =
           \<lparr>Present = True, stApprovalID = apApprovalID a, stErr = None,
            Binding = ApprovalBinding (refID plan) (refHash plan) act target\<rparr> \<and>
         (\<forall>rmErr d''. RevokeApproval rmErr (refID plan) d' = (Inr True, d'') \<longrightarrow>
            \<not> Present (ResolveApproval cd readErr d'' (refID plan)))"
proof -
  note new = NewApproval_Inr [OF assms(1)] and saved = SaveApproval_ok [OF assms(3)]
  have "hexId ''apr_'' (apApprovalID a)"
    using new(8) assms(2) hexId_mintId [of rnd "''apr_''"] by (auto simp: newApprovalID_def)
  then have "LoadApproval cd readErr (refID plan) d' = Inr (Some a)"
    using new saved json assms(5) by (auto simp: LoadApproval_Some DecodeApproval_Inr)
  then have "ResolveApproval cd readErr d' (refID plan) =
           \<lparr>Present = True, stApprovalID = apApprovalID a, stErr = None,
            Binding = ApprovalBinding (refID plan) (refHash plan) act target\<rparr>"
    using new by (simp add: ResolveApproval_def)
  moreover have "\<not> Present (ResolveApproval cd readErr d'' (refID plan))"
    if "RevokeApproval rmErr (refID plan) d' = (Inr True, d'')" for rmErr d''
    using that by (auto simp: RevokeApproval_def approvalPath_def ResolveApproval_def LoadApproval_def
        split: sum.splits if_splits)
  ultimately show ?thesis by blast
qed

lemma demoApproval_New:
  "NewApproval demoApCodec (\<lambda>s. s) (Some [1, 35, 69, 103, 137, 171, 205, 239]) 5 (Actor ''cli'' '''' False)
     (PlanRef ''pln_0123456789abcdef'' ''sha256:1'') ''rebuild'' ''web'' ''ops'' = Inr demoApproval"
  by (simp add: NewApproval_def authzActions_def Actor_Validate_def callerTypes_def caller_defs
      newApprovalID_def mintId_def hexDigit_def Let_def demoApproval_def authzSchemaVersion_def
      DecisionApproved_def ApproverSourceLocalHost_def Approval_Hash_def apHashInput_def demoApCodec_def)

theorem grant_resolve_roundtrip_witness:
  "ResolveApproval demoApCodec (\<lambda>_. False) demoApprovals ''pln_0123456789abcdef'' =
     \<lparr>Present = True, stApprovalID = ''apr_0123456789abcdef'', stErr = None,
      Binding = ApprovalBinding ''pln_0123456789abcdef'' ''sha256:1'' ''rebuild'' ''web''\<rparr>"
proof -
  have "unmarshalAp demoApCodec (marshalAp demoApCodec demoApproval) = Some demoApproval"
    "apApprovalID demoApproval = ''apr_0123456789abcdef''"
    by (simp_all add: demoApCodec_def demoApproval_def)
  with grant_resolve_roundtrip [OF demoApproval_New _ demoApproval_Save, where readErr = "\<lambda>_. False"]
  show ?thesis by simp
qed

end
