(* ===== verification/Gate.thy ===== *)
theory Gate
  imports Approval
begin

text \<open>
  The audit log (\<open>internal/authz/audit.go\<close>) and the execution gate
  (\<open>internal/authz/boundary.go\<close>).  The decision log is a byte string that is split into lines the
  way \<open>bufio.Scanner\<close> splits it; the record encoder and decoder, the redactor and the process
  environment are the fields of \<open>auditEnv\<close>.  The gate's injectable collaborators are options, with
  the package functions as their defaults.
\<close>

section \<open>The decision log\<close>

record decisionRecord =
  drSchemaVersion :: string
  DecisionID :: string
  DecidedAtMs :: int
  drActorType :: string
  drActorID :: string
  drActorAuthenticated :: bool
  drActorProvenance :: string
  drAction :: string
  drTarget :: string
  drPlanID :: string
  drPlanHash :: string
  drDecision :: string
  drCode :: string
  drMode :: string
  drRuleIndex :: int
  drApprovalID :: string

definition maxDecisionRecords :: nat where "maxDecisionRecords = 512"
definition maxDecisionLineBytes :: nat where "maxDecisionLineBytes = 8 * 1024"

datatype auditStep =
    AuMkdir | AuOpen | AuWrite | AuSync | AuClose | AuRead
  | AuTmpOpen | AuTmpWrite | AuTmpFlush | AuTmpSync | AuTmpClose | AuRename

text \<open>
  \<open>auFails\<close> says which system call fails, \<open>auPartial\<close> what a failed append left behind,
  \<open>auRandom\<close> the eight random bytes of the identifier.
\<close>

record auditEnv =
  auFails :: "auditStep \<Rightarrow> bool"
  auPartial :: string
  auRandom :: "nat list option"
  auEncode :: "decisionRecord \<Rightarrow> string"
  auDecode :: "string \<Rightarrow> decisionRecord option"
  auRedact :: "string \<Rightarrow> string"
  auGetenv :: "string \<Rightarrow> string"

definition newline :: char where "newline = CHR 0x0A"
definition carriage :: char where "carriage = CHR 0x0D"

definition LocalProvenance :: "(string \<Rightarrow> string) \<Rightarrow> string" where
  "LocalProvenance getenv =
     (if getenv ''USER'' \<noteq> '''' then getenv ''USER''
      else if getenv ''LOGNAME'' \<noteq> '''' then getenv ''LOGNAME'' else '''')"

text \<open>The raw lines of the log: terminated by a newline, the last one possibly not.\<close>

fun rawLines :: "string \<Rightarrow> string \<Rightarrow> string list" where
  "rawLines acc [] = (if acc = [] then [] else [rev acc])"
| "rawLines acc (c # cs) = (if c = newline then rev acc # rawLines [] cs else rawLines (c # acc) cs)"

definition dropCR :: "string \<Rightarrow> string" where
  "dropCR s = (if s \<noteq> [] \<and> last s = carriage then butlast s else s)"

definition readDecisionLines :: "auditEnv \<Rightarrow> string option \<Rightarrow> (code, string list) result" where
  "readDecisionLines env log =
     (case log of
        None \<Rightarrow> Inr []
      | Some bytes \<Rightarrow>
          if auFails env AuRead then Inl CodeAuthzUnavailable
          else if list_ex (\<lambda>l. length l \<ge> maxDecisionLineBytes) (rawLines [] bytes)
            then Inl CodeAuthzUnavailable
          else Inr (filter (\<lambda>l. l \<noteq> []) (map dropCR (rawLines [] bytes))))"

definition joinLines :: "string list \<Rightarrow> string" where
  "joinLines ls = concat (map (\<lambda>l. l @ [newline]) ls)"

definition trimDecisions :: "auditEnv \<Rightarrow> string option \<Rightarrow> (code, unit) result \<times> string option" where
  "trimDecisions env log =
     (case readDecisionLines env log of
        Inl e \<Rightarrow> (Inl e, log)
      | Inr records \<Rightarrow>
          if length records \<le> maxDecisionRecords then (Inr (), log)
          else
            let keep = drop (length records - maxDecisionRecords) records in
            if list_ex (auFails env) [AuTmpOpen, AuTmpWrite, AuTmpFlush, AuTmpSync, AuTmpClose, AuRename]
            then (Inl CodeFilesystem, log)
            else (Inr (), Some (joinLines keep)))"

definition appendBytes :: "string option \<Rightarrow> string \<Rightarrow> string option" where
  "appendBytes log s = Some ((case log of None \<Rightarrow> [] | Some b \<Rightarrow> b) @ s)"

definition appendDecision ::
    "auditEnv \<Rightarrow> decisionRecord \<Rightarrow> string option \<Rightarrow> (code, unit) result \<times> string option" where
  "appendDecision env rec log =
     (if auFails env AuMkdir then (Inl CodeFilesystem, log)
      else if auFails env AuOpen then (Inl CodeFilesystem, log)
      else if auFails env AuWrite then (Inl CodeFilesystem, appendBytes log (auPartial env))
      else
        let log' = appendBytes log (auEncode env rec @ [newline]) in
        if auFails env AuSync \<or> auFails env AuClose then (Inl CodeFilesystem, log')
        else trimDecisions env log')"

definition newDecisionID :: "nat list option \<Rightarrow> (code, string) result" where
  "newDecisionID rnd =
     (case rnd of None \<Rightarrow> Inl CodeFilesystem | Some bs \<Rightarrow> Inr (mintId ''azd_'' (take 8 bs)))"

definition recordOf :: "auditEnv \<Rightarrow> string \<Rightarrow> request \<Rightarrow> decision \<Rightarrow> int \<Rightarrow> decisionRecord" where
  "recordOf env i req d at =
     \<lparr>drSchemaVersion = authzSchemaVersion, DecisionID = i, DecidedAtMs = at,
      drActorType = actorType (reqActor req), drActorID = actorID (reqActor req),
      drActorAuthenticated = actorAuthenticated (reqActor req),
      drActorProvenance = auRedact env (LocalProvenance (auGetenv env)),
      drAction = reqAction req, drTarget = tgtApp (reqTarget req),
      drPlanID = (case reqPlan req of None \<Rightarrow> '''' | Some p \<Rightarrow> refID p),
      drPlanHash = (case reqPlan req of None \<Rightarrow> '''' | Some p \<Rightarrow> refHash p),
      drDecision = Effect d, drCode = Code d, drMode = Mode d, drRuleIndex = RuleIndex d,
      drApprovalID = dApprovalID d\<rparr>"

text \<open>The identifier and the error, both returned as in the source, and the new log.\<close>

definition RecordDecision ::
    "auditEnv \<Rightarrow> request \<Rightarrow> decision \<Rightarrow> int \<Rightarrow> string option \<Rightarrow> (string \<times> code option) \<times> string option" where
  "RecordDecision env req d at log =
     (case newDecisionID (auRandom env) of
        Inl e \<Rightarrow> (('''', Some e), log)
      | Inr i \<Rightarrow>
          (case appendDecision env (recordOf env i req d at) log of
             (Inl e, log') \<Rightarrow> ((i, Some e), log')
           | (Inr _, log') \<Rightarrow> ((i, None), log')))"

text \<open>The loop of \<open>ListDecisions\<close> over the lines, newest first, with what it has found so far.\<close>

fun listDecisionsLoop ::
    "auditEnv \<Rightarrow> string \<Rightarrow> int \<Rightarrow> decisionRecord list \<Rightarrow> nat \<Rightarrow> string list \<Rightarrow> decisionRecord list \<times> nat" where
  "listDecisionsLoop env planID limit out skipped [] = (out, skipped)"
| "listDecisionsLoop env planID limit out skipped (l # ls) =
     (case auDecode env l of
        None \<Rightarrow> listDecisionsLoop env planID limit out (Suc skipped) ls
      | Some rec \<Rightarrow>
          if DecisionID rec = '''' then listDecisionsLoop env planID limit out (Suc skipped) ls
          else if planID \<noteq> '''' \<and> drPlanID rec \<noteq> planID then listDecisionsLoop env planID limit out skipped ls
          else
            let out' = out @ [rec] in
            if limit > 0 \<and> int (length out') \<ge> limit then (out', skipped)
            else listDecisionsLoop env planID limit out' skipped ls)"

definition ListDecisions ::
    "auditEnv \<Rightarrow> string \<Rightarrow> int \<Rightarrow> string option \<Rightarrow> (code, decisionRecord list \<times> nat) result" where
  "ListDecisions env planID limit log =
     rbind (readDecisionLines env log) (\<lambda>lines. Inr (listDecisionsLoop env planID limit [] 0 (rev lines)))"

section \<open>The gate\<close>

record outcome =
  outDecision :: decision
  outDecisionID :: string
  outActor :: actor
  PolicySource :: string

record executionRequest =
  exAction :: string
  exTarget :: authzTarget
  exPlan :: "planRef option"

text \<open>
  An injected collaborator is given by what it returns; \<open>gOnRecordError\<close> tells whether a
  callback for audit failures is installed.
\<close>

record gate =
  gAuthenticator :: "(code, actor) result option"
  gLoadPolicy :: "(code, policy) result option"
  gResolveApproval :: "(string \<Rightarrow> approvalState) option"
  gRecord :: "(request \<Rightarrow> decision \<Rightarrow> int \<Rightarrow> string \<times> code option) option"
  gOnRecordError :: bool

text \<open>What the package functions read: the policy file and the approval store.\<close>

record 'b host =
  hDecode :: "'b \<Rightarrow> policy option"
  hPolicyPath :: string
  hPolicyFile :: "'b policyFile"
  hCodec :: "'b apCodec"
  hReadErr :: "string \<Rightarrow> bool"
  hApprovals :: "'b dir"

definition DefaultGate :: gate where
  "DefaultGate =
     \<lparr>gAuthenticator = None, gLoadPolicy = None, gResolveApproval = None, gRecord = None,
      gOnRecordError = False\<rparr>"

definition gate_authenticate :: "gate \<Rightarrow> (code, actor) result" where
  "gate_authenticate g = (case gAuthenticator g of Some r \<Rightarrow> r | None \<Rightarrow> LocalCLIAuthenticate)"

definition gate_loadPolicy :: "gate \<Rightarrow> 'b host \<Rightarrow> (code, policy) result" where
  "gate_loadPolicy g h =
     (case gLoadPolicy g of Some r \<Rightarrow> r | None \<Rightarrow> LoadPolicy (hDecode h) (hPolicyPath h) (hPolicyFile h))"

definition gate_resolveApproval :: "gate \<Rightarrow> 'b host \<Rightarrow> string \<Rightarrow> approvalState" where
  "gate_resolveApproval g h i =
     (case gResolveApproval g of
        Some f \<Rightarrow> f i | None \<Rightarrow> ResolveApproval (hCodec h) (hReadErr h) (hApprovals h) i)"

definition gate_record ::
    "gate \<Rightarrow> auditEnv \<Rightarrow> request \<Rightarrow> decision \<Rightarrow> int \<Rightarrow> string option \<Rightarrow> (string \<times> code option) \<times> string option" where
  "gate_record g env req d at log =
     (case gRecord g of Some f \<Rightarrow> (f req d at, log) | None \<Rightarrow> RecordDecision env req d at log)"

text \<open>The code of an error wrapped in context \<open>c\<close>, see \<open>Errors\<close>.\<close>

definition wrapCode :: "code \<Rightarrow> code \<Rightarrow> code" where
  "wrapCode c inner = (if inner = CodeSecretNotFound \<or> inner = CodeEncryption then inner else c)"

definition decide :: "gate \<Rightarrow> 'b host \<Rightarrow> executionRequest \<Rightarrow> (code, request \<times> decision \<times> string) result" where
  "decide g h inp =
     (case gate_authenticate g of
        Inl e \<Rightarrow> Inl (wrapCode CodeAuthzUnavailable e)
      | Inr act \<Rightarrow>
          let req = \<lparr>reqActor = act, reqAction = exAction inp, reqTarget = exTarget inp,
                     reqPlan = exPlan inp, reqApproval = None\<rparr> in
          case gate_loadPolicy g h of
            Inl e \<Rightarrow> Inr (req, denied e ''unknown'' (-1), '''')
          | Inr pol \<Rightarrow>
              let req' = (case exPlan inp of
                            Some p \<Rightarrow> if polMode pol = ModeEnforced
                                      then req\<lparr>reqApproval := Some (gate_resolveApproval g h (refID p))\<rparr>
                                      else req
                          | None \<Rightarrow> req)
              in Inr (req', PolicyAuthorize (Some pol) req', polSource pol))"

definition Gate_Evaluate :: "gate \<Rightarrow> 'b host \<Rightarrow> executionRequest \<Rightarrow> (code, outcome) result" where
  "Gate_Evaluate g h inp =
     rbind (decide g h inp) (\<lambda>(req, d, source).
       Inr \<lparr>outDecision = d, outDecisionID = '''', outActor = reqActor req, PolicySource = source\<rparr>)"

text \<open>\<open>finish\<close> also reports the audit error handed to the callback, if one is installed.\<close>

definition finish ::
    "gate \<Rightarrow> auditEnv \<Rightarrow> int \<Rightarrow> request \<Rightarrow> decision \<Rightarrow> string \<Rightarrow> string option
       \<Rightarrow> outcome \<times> code option \<times> string option" where
  "finish g env now req d source log =
     (case gate_record g env req d now log of
        ((i, err), log') \<Rightarrow>
          (\<lparr>outDecision = d, outDecisionID = i, outActor = reqActor req, PolicySource = source\<rparr>,
           if gOnRecordError g then err else None, log'))"

text \<open>The returned error (\<^const>\<open>None\<close> lets the caller execute), the outcome and the new log.\<close>

definition Gate_Authorize ::
    "gate \<Rightarrow> 'b host \<Rightarrow> auditEnv \<Rightarrow> int \<Rightarrow> executionRequest \<Rightarrow> string option
       \<Rightarrow> code option \<times> outcome option \<times> string option" where
  "Gate_Authorize g h env now inp log =
     (case decide g h inp of
        Inl e \<Rightarrow> (Some e, None, log)
      | Inr (req, d, source) \<Rightarrow>
          (case finish g env now req d source log of
             (out, _, log') \<Rightarrow> (Decision_Err (outDecision out), Some out, log')))"

section \<open>Lemmas on the log\<close>

definition goodLine :: "string \<Rightarrow> bool" where
  "goodLine l \<longleftrightarrow> l \<noteq> [] \<and> newline \<notin> set l \<and> last l \<noteq> carriage \<and> length l < maxDecisionLineBytes"

lemma rawLines_line: "newline \<notin> set l \<Longrightarrow> rawLines acc (l @ newline # cs) = (rev acc @ l) # rawLines [] cs"
  by (induction l arbitrary: acc) auto

lemma rawLines_join:
  "(\<And>l. l \<in> set ls \<Longrightarrow> newline \<notin> set l) \<Longrightarrow> rawLines [] (joinLines ls @ cs) = ls @ rawLines [] cs"
  by (induction ls) (auto simp: joinLines_def rawLines_line)

lemma readDecisionLines_join:
  assumes "list_all goodLine ls" and "\<not> auFails env AuRead"
  shows "readDecisionLines env (Some (joinLines ls)) = Inr ls"
proof -
  have raw: "rawLines [] (joinLines ls) = ls"
    using rawLines_join [of ls "[]"] assms(1) by (auto simp: list_all_iff goodLine_def)
  have "map dropCR ls = ls" "filter (\<lambda>l. l \<noteq> []) ls = ls"
    using assms(1) by (auto simp: list_all_iff goodLine_def dropCR_def intro!: map_idI)
  then show ?thesis using assms
    by (auto simp: readDecisionLines_def raw list_ex_iff list_all_iff goodLine_def)
qed

lemma joinLines_snoc: "joinLines ls @ (l @ [newline]) = joinLines (ls @ [l])"
  by (simp add: joinLines_def)

lemma trimDecisions_join:
  assumes "list_all goodLine ls" and "\<And>s. \<not> auFails env s"
  shows "trimDecisions env (Some (joinLines ls)) =
           (Inr (), Some (joinLines (drop (length ls - maxDecisionRecords) ls)))"
  using assms by (simp add: trimDecisions_def readDecisionLines_join Let_def)

lemma Decision_Err_None: "Decision_Err d = None \<longleftrightarrow> Allowed d"
  by (auto simp: Decision_Err_def split: option.splits)

lemma Decision_Err_codes: "Decision_Err d = Some c \<Longrightarrow> c \<in> set decisionCodes"
  by (auto simp: Decision_Err_def decisionCodes_def split: option.splits if_splits dest: find_Some_mem)

lemma Gate_Authorize_decide:
  "Gate_Authorize g h env now inp log = (case decide g h inp of
     Inl e \<Rightarrow> (Some e, None, log)
   | Inr (req, d, source) \<Rightarrow>
       (Decision_Err d,
        Some \<lparr>outDecision = d, outDecisionID = fst (fst (gate_record g env req d now log)),
              outActor = reqActor req, PolicySource = source\<rparr>,
        snd (gate_record g env req d now log)))"
  by (auto simp: Gate_Authorize_def finish_def split: sum.splits prod.splits)

text \<open>The request the authorizer finally sees.\<close>

definition gateRequest :: "gate \<Rightarrow> 'b host \<Rightarrow> executionRequest \<Rightarrow> actor \<Rightarrow> policy \<Rightarrow> request" where
  "gateRequest g h inp act pol =
     \<lparr>reqActor = act, reqAction = exAction inp, reqTarget = exTarget inp, reqPlan = exPlan inp,
      reqApproval = (case exPlan inp of
         Some p \<Rightarrow> if polMode pol = ModeEnforced then Some (gate_resolveApproval g h (refID p)) else None
       | None \<Rightarrow> None)\<rparr>"

lemma decide_Inr_Allowed:
  assumes "decide g h inp = Inr (req, d, source)"
  shows "Allowed d \<longleftrightarrow> (\<exists>act pol. gate_authenticate g = Inr act \<and> gate_loadPolicy g h = Inr pol \<and>
           req = gateRequest g h inp act pol \<and> authorised pol req)"
  using assms
  by (auto simp: decide_def Let_def gateRequest_def Allowed_iff_authorised
      split: sum.splits option.splits if_splits)

lemma decide_cases:
  "(\<exists>e. gate_authenticate g = Inl e \<and> decide g h inp = Inl (wrapCode CodeAuthzUnavailable e)) \<or>
   (\<exists>act e req. gate_authenticate g = Inr act \<and> gate_loadPolicy g h = Inl e \<and>
      decide g h inp = Inr (req, denied e ''unknown'' (-1), '''')) \<or>
   (\<exists>act pol. gate_authenticate g = Inr act \<and> gate_loadPolicy g h = Inr pol \<and>
      decide g h inp = Inr (gateRequest g h inp act pol,
         PolicyAuthorize (Some pol) (gateRequest g h inp act pol), polSource pol))"
  by (auto simp: decide_def Let_def gateRequest_def split: sum.splits option.splits)

lemma gate_passes_iff:
  "fst (Gate_Authorize g h env now inp log) = None \<longleftrightarrow>
     (\<exists>act pol. gate_authenticate g = Inr act \<and> gate_loadPolicy g h = Inr pol \<and>
        authorised pol (gateRequest g h inp act pol))"
  using decide_cases [of g h inp]
  by (auto simp: Gate_Authorize_decide Decision_Err_None Allowed_iff_authorised)

section \<open>Properties\<close>

text \<open>
  C7: The gate opens exactly for authorised requests. \<open>Authorize\<close> returns no error if and only if
  the caller was authenticated, the policy loaded, and that policy authorises the request built
  from the caller's actor, the requested action, target and plan and the approval resolved for that
  plan. No failure of authentication, policy loading, approval loading or auditing opens it.
\<close>

theorem gate_opens_iff_authorised:
  "fst (Gate_Authorize g h env now inp log) = None \<longleftrightarrow>
     (\<exists>act pol. gate_authenticate g = Inr act \<and> gate_loadPolicy g h = Inr pol \<and>
        authorised pol (gateRequest g h inp act pol))"
  by (rule gate_passes_iff)

text \<open>
  C35: A dry run never disagrees with the execution gate: whatever the audit log holds and whichever
  audit write fails, \<open>Evaluate\<close> fails exactly when \<open>Authorize\<close> produces no outcome, and otherwise both
  report the same decision, actor and policy source, and \<open>Authorize\<close> returns precisely the error of
  that decision, drawn from the six authorization codes.
\<close>

theorem Evaluate_agrees_with_Authorize:
  "case Gate_Evaluate g h inp of
     Inl e \<Rightarrow> Gate_Authorize g h env now inp log = (Some e, None, log)
   | Inr o1 \<Rightarrow> (\<exists>o2 log'. Gate_Authorize g h env now inp log = (Decision_Err (outDecision o1), Some o2, log') \<and>
        outDecision o2 = outDecision o1 \<and> outActor o2 = outActor o1 \<and> PolicySource o2 = PolicySource o1 \<and>
        set_option (Decision_Err (outDecision o1)) \<subseteq> set decisionCodes)"
  using Decision_Err_codes
  by (auto simp: Gate_Evaluate_def Gate_Authorize_decide elem_set split: sum.splits prod.splits)

text \<open>
  The audit log stays bounded and keeps the newest decisions. Recording a decision on a log of
  well-formed lines, when no system call fails, appends the encoded record and keeps exactly the
  newest 512 lines, and the record is the first one a listing then returns.
\<close>

theorem RecordDecision_bounded_log:
  assumes "list_all goodLine ls" and "\<And>s. \<not> auFails env s" and "auRandom env = Some rnd"
    and "rec = recordOf env (mintId ''azd_'' (take 8 rnd)) req d at"
    and "goodLine (auEncode env rec)" and "auDecode env (auEncode env rec) = Some rec"
  shows "\<exists>ls'. RecordDecision env req d at (Some (joinLines ls)) =
             ((mintId ''azd_'' (take 8 rnd), None), Some (joinLines ls')) \<and>
           ls' = drop (length ls + 1 - maxDecisionRecords) (ls @ [auEncode env rec]) \<and>
           length ls' \<le> maxDecisionRecords \<and> list_all goodLine ls' \<and>
           ListDecisions env '''' 1 (Some (joinLines ls')) = Inr ([rec], 0)"
proof -
  note rec_def = assms(4)
  let ?ls = "ls @ [auEncode env rec]" and ?ls' = "drop (length ls + 1 - maxDecisionRecords) (ls @ [auEncode env rec])"
  have good: "list_all goodLine ?ls" using assms(1,5) by simp
  have run: "RecordDecision env req d at (Some (joinLines ls)) =
             ((mintId ''azd_'' (take 8 rnd), None), Some (joinLines ?ls'))"
    using assms(2,3) trimDecisions_join [OF good assms(2)]
    by (simp add: RecordDecision_def newDecisionID_def appendDecision_def appendBytes_def Let_def
        joinLines_snoc [simplified] rec_def)
  have good': "list_all goodLine ?ls'"
    using good unfolding list_all_iff by (blast dest: in_set_dropD)
  have "DecisionID rec \<noteq> ''''" by (simp add: rec_def recordOf_def mintId_def)
  then have "ListDecisions env '''' 1 (Some (joinLines ?ls')) = Inr ([rec], 0)"
    using assms(2,6) readDecisionLines_join [OF good']
    by (simp add: ListDecisions_def Let_def maxDecisionRecords_def)
  with run good' show ?thesis by (intro exI [of _ ?ls']) (auto simp: maxDecisionRecords_def)
qed

text \<open>A concrete environment whose encoder and decoder agree on the record written there.\<close>

definition demoAudit :: "decisionRecord \<Rightarrow> auditEnv" where
  "demoAudit r =
     \<lparr>auFails = (\<lambda>_. False), auPartial = '''', auRandom = Some [0, 0, 0, 0, 0, 0, 0, 1],
      auEncode = (\<lambda>_. ''{}''), auDecode = (\<lambda>_. Some r), auRedact = (\<lambda>s. s), auGetenv = (\<lambda>_. '''')\<rparr>"

definition demoRecord :: decisionRecord where
  "demoRecord =
     recordOf (demoAudit undefined) (mintId ''azd_'' [0, 0, 0, 0, 0, 0, 0, 1]) demoRequest
       (denied CodeAuthzDenied ''enforced'' (-1)) 5"

lemma demoRecord_eq:
  "demoRecord = recordOf (demoAudit r) (mintId ''azd_'' (take 8 [0, 0, 0, 0, 0, 0, 0, 1])) demoRequest
       (denied CodeAuthzDenied ''enforced'' (-1)) 5"
  by (simp add: demoRecord_def recordOf_def demoAudit_def)

theorem RecordDecision_bounded_log_witness:
  "\<exists>ls'. RecordDecision (demoAudit demoRecord) demoRequest (denied CodeAuthzDenied ''enforced'' (-1)) 5
            (Some (joinLines (replicate 600 ''old''))) =
            ((''azd_0000000000000001'', None), Some (joinLines ls')) \<and> length ls' = 512"
proof -
  have "goodLine ''old''" "goodLine ''{}''"
    by (simp_all add: goodLine_def newline_def carriage_def maxDecisionLineBytes_def)
  then have "list_all goodLine (replicate 600 ''old'')" "\<And>s. \<not> auFails (demoAudit demoRecord) s"
    "auRandom (demoAudit demoRecord) = Some [0, 0, 0, 0, 0, 0, 0, 1]"
    "goodLine (auEncode (demoAudit demoRecord) demoRecord)"
    "auDecode (demoAudit demoRecord) (auEncode (demoAudit demoRecord) demoRecord) = Some demoRecord"
    by (simp_all add: demoAudit_def list_all_iff)
  from RecordDecision_bounded_log [OF this(1-3) demoRecord_eq this(4,5)]
  show ?thesis by (auto simp: maxDecisionRecords_def mintId_def hexDigit_def)
qed

text \<open>
  End to end, an approval on disk is what opens the gate. On a host whose policy file enforces
  authorization with every allow rule requiring approval, the default gate lets an execution pass
  only if the approval store holds, under the request's own plan identifier, a hash-verified approval
  of exactly that plan id, plan hash, action and target application; the identity of the caller is
  the unauthenticated local CLI.
\<close>

theorem default_gate_needs_stored_approval:
  assumes "fst (Gate_Authorize DefaultGate h env now inp log) = None"
    and "hPolicyFile h = PolicyPresent reg sz (Some data)" and "hDecode h data = Some pol"
    and "polMode pol = ModeEnforced"
    and "\<forall>r\<in>set (Rules pol). ruEffect r = ''allow'' \<longrightarrow> RequireApproval r"
  shows "\<exists>plan a. exPlan inp = Some plan \<and>
           LoadApproval (hCodec h) (hReadErr h) (refID plan) (hApprovals h) = Inr (Some a) \<and>
           Approval_Hash (hCodec h) a = ApprovalHash a \<and>
           apPlanID a = refID plan \<and> apPlanHash a = refHash plan \<and>
           apAction a = exAction inp \<and> apTarget a = tgtApp (exTarget inp)"
proof -
  from assms(1) obtain act p where p: "gate_loadPolicy DefaultGate h = Inr p"
    and au: "authorised p (gateRequest DefaultGate h inp act p)"
    by (auto simp: gate_passes_iff)
  have p_pol: "polMode p = polMode pol" "Rules p = Rules pol"
    using p assms(2,3)
    by (auto simp: gate_loadPolicy_def DefaultGate_def LoadPolicy_def DecodePolicy_def result_simps
        split: if_splits)
  let ?req = "gateRequest DefaultGate h inp act p"
  from au p_pol assms(4) obtain plan r where plan: "exPlan inp = Some plan"
    and r: "allowRule p ?req = Some r"
    and ap: "RequireApproval r \<longrightarrow> (\<exists>st. reqApproval ?req = Some st \<and> approvalBinds ?req plan st)"
    by (auto simp: authorised_def mode_defs gateRequest_def split: option.splits)
  from r have "r \<in> set (Rules p) \<and> ruEffect r = ''allow''"
    unfolding allowRule_def by (auto dest: find_Some_mem)
  with ap p_pol assms(5) obtain st where st: "reqApproval ?req = Some st" "approvalBinds ?req plan st"
    by auto
  from st(1) have res: "st = ResolveApproval (hCodec h) (hReadErr h) (hApprovals h) (refID plan)"
    by (auto simp: gateRequest_def plan gate_resolveApproval_def DefaultGate_def split: if_splits)
  from st(2) have "Present st" "stErr st = None" by (simp_all add: approvalBinds_def)
  from ResolveApproval_present [OF this [unfolded res]]
  obtain a where a: "LoadApproval (hCodec h) (hReadErr h) (refID plan) (hApprovals h) = Inr (Some a)"
    and "st = \<lparr>Present = True, stApprovalID = apApprovalID a, stErr = None,
       Binding = ApprovalBinding (apPlanID a) (apPlanHash a) (apAction a) (apTarget a)\<rparr>"
    unfolding res by blast
  then have b: "Binding st = ApprovalBinding (apPlanID a) (apPlanHash a) (apAction a) (apTarget a)"
    by simp
  from a have "Approval_Hash (hCodec h) a = ApprovalHash a" by (auto simp: LoadApproval_Some DecodeApproval_Inr)
  with a b st(2) plan show ?thesis by (auto simp: approvalBinds_def gateRequest_def)
qed

definition demoHost :: "(approvalHashInput + approval) host" where
  "demoHost =
     \<lparr>hDecode = (\<lambda>_. Some (demoPolicy\<lparr>Rules := [demoRule\<lparr>ruActorType := ''cli''\<rparr>]\<rparr>)),
      hPolicyPath = ''policy.json'', hPolicyFile = PolicyPresent True 100 (Some (Inr demoApproval)),
      hCodec = demoApCodec, hReadErr = (\<lambda>_. False), hApprovals = demoApprovals\<rparr>"

definition demoExec :: executionRequest where
  "demoExec =
     \<lparr>exAction = ''rebuild'', exTarget = AuthzTarget ''web'' ''1'',
      exPlan = Some (PlanRef ''pln_0123456789abcdef'' ''sha256:1'')\<rparr>"

lemma demoApprovals_Load:
  "LoadApproval demoApCodec (\<lambda>_. False) ''pln_0123456789abcdef'' demoApprovals = Inr (Some demoApproval)"
proof -
  have "apLen demoApCodec b = 100" "unmarshalAp demoApCodec (Inr a) = Some a" for a b
    by (simp_all add: demoApCodec_def)
  moreover have "apSchemaVersion demoApproval = ''1''" "apApprovalID demoApproval = ''apr_0123456789abcdef''"
    "apDecision demoApproval = ''approved''" "ApprovalHash demoApproval = ''sha256:08''"
    "apPlanID demoApproval = ''pln_0123456789abcdef''"
    by (simp_all add: demoApproval_def)
  ultimately show ?thesis
    by (simp add: LoadApproval_Some DecodeApproval_Inr demoApprovals_def maxApprovalBytes_def
        authzSchemaVersion_def DecisionApproved_def)
qed

lemma demoHost_opens: "fst (Gate_Authorize DefaultGate demoHost env now demoExec log) = None"
proof -
  let ?pol = "demoPolicy\<lparr>Rules := [demoRule\<lparr>ruActorType := ''cli''\<rparr>], polSource := ''policy.json''\<rparr>"
  have pol: "gate_loadPolicy DefaultGate demoHost = Inr ?pol"
    by (simp add: gate_loadPolicy_def DefaultGate_def demoHost_def LoadPolicy_def DecodePolicy_def
        maxPolicyBytes_def Policy_validate_def Rule_validate_def authz_demo_defs mode_defs
        authzSchemaVersion_def maxRules_def callerTypes_def caller_defs authzActions_def)
  have st: "gate_resolveApproval DefaultGate demoHost ''pln_0123456789abcdef'' =
      \<lparr>Present = True, stApprovalID = ''apr_0123456789abcdef'', stErr = None,
       Binding = ApprovalBinding ''pln_0123456789abcdef'' ''sha256:1'' ''rebuild'' ''web''\<rparr>"
    using demoApprovals_Load
    by (simp add: gate_resolveApproval_def DefaultGate_def demoHost_def ResolveApproval_def)
      (simp add: demoApproval_def)
  have "authorised ?pol (gateRequest DefaultGate demoHost demoExec (Actor ''cli'' '''' False) ?pol)"
    by (simp add: authorised_def gateRequest_def demoExec_def st mode_defs Request_Validate_def
        Actor_Validate_def callerTypes_def caller_defs authzActions_def forbidden_def allowRule_def
        matches_def authz_demo_defs approvalBinds_def)
  moreover have "gate_authenticate DefaultGate = Inr (Actor ''cli'' '''' False)"
    by (simp add: gate_authenticate_def DefaultGate_def LocalCLIAuthenticate_def CallerCLI_def)
  ultimately show ?thesis using pol by (auto simp: gate_passes_iff)
qed

theorem default_gate_needs_stored_approval_witness:
  "\<exists>plan a. exPlan demoExec = Some plan \<and>
     LoadApproval demoApCodec (\<lambda>_. False) (refID plan) demoApprovals = Inr (Some a) \<and>
     apPlanHash a = refHash plan"
proof -
  have "\<forall>r\<in>set (Rules (demoPolicy\<lparr>Rules := [demoRule\<lparr>ruActorType := ''cli''\<rparr>]\<rparr>)).
      ruEffect r = ''allow'' \<longrightarrow> RequireApproval r"
    by (simp add: authz_demo_defs)
  from default_gate_needs_stored_approval [OF demoHost_opens _ _ _ this, of True 100 "Inr demoApproval"]
  show ?thesis by (auto simp: demoHost_def demoPolicy_def)
qed

end
