(* ===== verification/GoStrings.thy ===== *)
theory GoStrings
  imports Prelude
begin

text \<open>
  The functions of Go's \<open>strings\<close> and \<open>strconv\<close> packages the components use, on byte strings:
  \<open>TrimSpace\<close> (ASCII white space), \<open>TrimPrefix\<close>, \<open>TrimLeft\<close>/\<open>TrimRight\<close> of one character,
  \<open>SplitN\<close>-style cuts, and \<open>Atoi\<close> with its 64-bit range check.
\<close>

definition isSpace :: "char \<Rightarrow> bool" where
  "isSpace c \<longleftrightarrow> c \<in> {CHR '' '', CHR 0x09, CHR 0x0A, CHR 0x0B, CHR 0x0C, CHR 0x0D}"

definition trimSpace :: "string \<Rightarrow> string" where
  "trimSpace s = rev (dropWhile isSpace (rev (dropWhile isSpace s)))"

definition trimPrefix :: "string \<Rightarrow> string \<Rightarrow> string" where
  "trimPrefix p s = (if hasPrefix p s then drop (length p) s else s)"

definition hasSuffix :: "string \<Rightarrow> string \<Rightarrow> bool" where
  "hasSuffix p s \<longleftrightarrow> hasPrefix (rev p) (rev s)"

definition trimSuffix :: "string \<Rightarrow> string \<Rightarrow> string" where
  "trimSuffix p s = (if hasSuffix p s then take (length s - length p) s else s)"

definition atoi :: "string \<Rightarrow> int option" where
  "atoi s =
     (let (neg, ds) = (case s of
            c # cs \<Rightarrow> if c = CHR ''-'' then (True, cs) else if c = CHR ''+'' then (False, cs) else (False, s)
          | [] \<Rightarrow> (False, []))
      in if ds = [] \<or> \<not> list_all isDigit ds then None
         else
           let n = int (atou 0 ds); v = (if neg then - n else n) in
           if v < - (2 ^ 63) \<or> v \<ge> 2 ^ 63 then None else Some v)"

text \<open>\<open>cut c s\<close>: the part before the first \<open>c\<close>, and the part after it when there is one.\<close>

fun cut :: "char \<Rightarrow> string \<Rightarrow> string \<times> string option" where
  "cut c [] = ([], None)"
| "cut c (x # xs) = (if x = c then ([], Some xs) else (case cut c xs of (a, b) \<Rightarrow> (x # a, b)))"

fun splitOn :: "char \<Rightarrow> string \<Rightarrow> string list" where
  "splitOn c [] = [[]]"
| "splitOn c (x # xs) =
     (if x = c then [] # splitOn c xs
      else (case splitOn c xs of [] \<Rightarrow> [[x]] | w # ws \<Rightarrow> (x # w) # ws))"

text \<open>\<open>strings.Contains\<close>.\<close>

fun containsStr :: "string \<Rightarrow> string \<Rightarrow> bool" where
  "containsStr [] p \<longleftrightarrow> p = []"
| "containsStr (c # cs) p \<longleftrightarrow> hasPrefix p (c # cs) \<or> containsStr cs p"

text \<open>\<open>strings.EqualFold\<close> on ASCII strings.\<close>

definition lowerChar :: "char \<Rightarrow> char" where
  "lowerChar c =
     (let n = of_char c :: nat in if 65 \<le> n \<and> n \<le> 90 then char_of (n + 32) else c)"

definition equalFold :: "string \<Rightarrow> string \<Rightarrow> bool" where
  "equalFold s t \<longleftrightarrow> map lowerChar s = map lowerChar t"

section \<open>Facts\<close>

lemma isDigit_digit: "k < 10 \<Longrightarrow> isDigit (digit k)"
proof -
  have "list_all (\<lambda>k. isDigit (digit k)) [0..<10]" by code_simp
  then show "isDigit (digit k)" if "k < 10" using that unfolding list_all_iff by simp
qed

lemma utoa_isDigit: "list_all isDigit (utoa n)"
proof (induction n rule: utoa.induct)
  case (1 n)
  then show ?case by (subst utoa.simps) (auto intro: isDigit_digit)
qed

lemma isDigit_plain: "isDigit c \<Longrightarrow> c \<noteq> CHR ''-'' \<and> c \<noteq> CHR ''+'' \<and> c \<noteq> CHR ''v'' \<and> c \<noteq> CHR ''V'' \<and> \<not> isSpace c"
  by (auto simp: isDigit_def isSpace_def)

lemma atoi_digits:
  assumes "ds \<noteq> []" and "list_all isDigit ds" and "atou 0 ds < 2 ^ 63"
  shows "atoi ds = Some (int (atou 0 ds))"
proof -
  have "int (atou 0 ds) < 2 ^ 63" using assms(3) by (metis of_nat_less_iff of_nat_numeral of_nat_power)
  moreover from assms(1,2) obtain c cs where "ds = c # cs" "isDigit c" by (cases ds) auto
  ultimately show ?thesis using assms isDigit_plain [of c] by (auto simp: atoi_def Let_def)
qed

lemma atoi_utoa: "n < 2 ^ 63 \<Longrightarrow> atoi (utoa n) = Some (int n)"
  using atoi_digits [of "utoa n"] utoa_isDigit by (simp add: atou_utoa)

lemma dropWhile_plain: "(\<And>c. c \<in> set s \<Longrightarrow> \<not> P c) \<Longrightarrow> dropWhile P s = s"
  by (cases s) auto

lemma trimSpace_plain: "(\<And>c. c \<in> set s \<Longrightarrow> \<not> isSpace c) \<Longrightarrow> trimSpace s = s"
  using dropWhile_plain [of s isSpace] dropWhile_plain [of "rev s" isSpace] by (simp add: trimSpace_def)

lemma hasSuffix_append [simp]: "hasSuffix p (s @ p)"
  by (simp add: hasSuffix_def)

lemma cut_append: "c \<notin> set a \<Longrightarrow> cut c (a @ c # b) = (a, Some b)"
  by (induction a) auto

lemma cut_none: "c \<notin> set s \<Longrightarrow> cut c s = (s, None)"
  by (induction s) auto

lemma splitOn_append: "c \<notin> set a \<Longrightarrow> splitOn c (a @ c # b) = a # splitOn c b"
  by (induction a) auto

lemma splitOn_none: "c \<notin> set s \<Longrightarrow> splitOn c s = [s]"
  by (induction s) auto

end
