(* ===== verification/Versions.thy ===== *)
theory Versions
  imports Errors GoStrings "HOL-Library.Multiset"
begin

text \<open>
  Build versions (\<open>internal/deploy/version.go\<close>): the version index of an application, recording of
  native, Docker and matrix builds, promotion, retention and the lookups rollback is based on.  The
  state of one application on disk is a record: the decoded index \<open>versions.json\<close>, which
  \<open>builds/vN/binary\<close> and \<open>env/vN.enc\<close> exist, the target of the \<open>current\<close> symlink, and what
  \<open>deploy.json\<close> says is in use.  Build reports are a type variable \<open>'r\<close>.  \<open>vio\<close> tells which
  file-system steps of an operation fail; errors are their codes, an unwrapped system error counts
  as \<open>CodeUnknown\<close>.
\<close>

section \<open>Data\<close>

record 'r matrixArtifact =
  maPlatform :: string
  maVersion :: string
  maBinary :: string
  maImageTag :: string
  maStatus :: string
  maError :: string
  maSizeBytes :: int
  MatrixRunID :: string
  maSHA256 :: string
  maReport :: "'r option"

record 'r versionMeta =
  Version :: int
  vTag :: string
  GitCommit :: string
  BuiltAt :: int
  SizeBytes :: int
  DeployedAt :: "int option"
  DeployMode :: string
  IsCurrent :: bool
  DockerImage :: string
  MatrixArtifacts :: "'r matrixArtifact list"
  MultiArchImage :: string
  BuildReport :: "'r option"

datatype 'r versionsFile = IndexAbsent | IndexUnreadable | IndexCorrupt | IndexOk "'r versionMeta list"

text \<open>An instance of a slot or replica: its process id and version.\<close>

datatype deployInstance = DeployInstance (instPID: int) (instVersion: int)

record deployUse =
  duActiveVersion :: int
  duSlots :: "deployInstance option list"
  duReplicas :: "deployInstance option list"

datatype envStat = EnvPresent | EnvMissing | EnvUnreadable

record 'r appStore =
  index :: "'r versionsFile"
  binaries :: "int \<Rightarrow> bool"
  envs :: "int \<Rightarrow> envStat"
  currentLink :: "int option"
  deployUse :: "deployUse option"

datatype vstep =
    VHome | VMkdir | VWriteTmp | VRename | VMkVersionDir | VCopy | VStatBinary | VSymlink | VRenameLink
  | VRestoreMkdir | VRestoreWrite | VRestoreRename | VRemoveBuild | VRemoveEnv

record vio =
  vfails :: "vstep \<Rightarrow> bool"
  vsnapshot :: "code option"
  vnow :: int

record versionResult =
  resVersion :: int
  resBinary :: bool
  resEnv :: bool

type_synonym ('r, 'a) vop = "(code, 'a) result \<times> 'r appStore"

section \<open>Names, paths and the index\<close>

definition isAlnum :: "char \<Rightarrow> bool" where
  "isAlnum c \<longleftrightarrow>
     c \<in> set ''ABCDEFGHIJKLMNOPQRSTUVWXYZabcdefghijklmnopqrstuvwxyz0123456789''"

definition appNameRe :: "string \<Rightarrow> bool" where
  "appNameRe s =
     (case s of
        [] \<Rightarrow> False
      | c # cs \<Rightarrow>
          (isAlnum c \<or> c \<in> set ''_-'') \<and> length cs \<le> 63 \<and>
          list_all (\<lambda>d. isAlnum d \<or> d \<in> set ''._-'') cs)"

definition ValidateAppName :: "string \<Rightarrow> (code, unit) result" where
  "ValidateAppName name = (if \<not> appNameRe name then Inl CodeInvalidArgument else Inr ())"

definition appDataDir :: "vio \<Rightarrow> string \<Rightarrow> (code, unit) result" where
  "appDataDir io name =
     rbind (ValidateAppName name) (\<lambda>_. if vfails io VHome then Inl CodeUnknown else Inr ())"

definition LoadVersions :: "vio \<Rightarrow> string \<Rightarrow> 'r appStore \<Rightarrow> (code, 'r versionMeta list) result" where
  "LoadVersions io name st =
     rbind (appDataDir io name) (\<lambda>_.
       case index st of
         IndexAbsent \<Rightarrow> Inr []
       | IndexUnreadable \<Rightarrow> Inl CodeUnknown
       | IndexCorrupt \<Rightarrow> Inl CodeConfiguration
       | IndexOk vs \<Rightarrow> Inr vs)"

definition saveVersions :: "vio \<Rightarrow> string \<Rightarrow> 'r versionMeta list \<Rightarrow> 'r appStore \<Rightarrow> ('r, unit) vop" where
  "saveVersions io name vs st =
     (case appDataDir io name of
        Inl e \<Rightarrow> (Inl e, st)
      | Inr _ \<Rightarrow>
          if vfails io VMkdir \<or> vfails io VWriteTmp \<or> vfails io VRename then (Inl CodeUnknown, st)
          else (Inr (), st\<lparr>index := IndexOk vs\<rparr>))"

fun maxVersion :: "int \<Rightarrow> 'r versionMeta list \<Rightarrow> int" where
  "maxVersion m [] = m"
| "maxVersion m (v # vs) = maxVersion (if Version v > m then Version v else m) vs"

definition NextVersion :: "vio \<Rightarrow> string \<Rightarrow> 'r appStore \<Rightarrow> (code, int) result" where
  "NextVersion io name st = rbind (LoadVersions io name st) (\<lambda>vs. Inr (maxVersion 0 vs + 1))"

definition currentOf :: "'r versionMeta list \<Rightarrow> int" where
  "currentOf vs = (case find IsCurrent vs of Some v \<Rightarrow> Version v | None \<Rightarrow> 0)"

definition CurrentVersion :: "vio \<Rightarrow> string \<Rightarrow> 'r appStore \<Rightarrow> (code, int) result" where
  "CurrentVersion io name st = rbind (LoadVersions io name st) (\<lambda>vs. Inr (currentOf vs))"

definition CurrentVersionMeta :: "vio \<Rightarrow> string \<Rightarrow> 'r appStore \<Rightarrow> (code, 'r versionMeta option) result" where
  "CurrentVersionMeta io name st = rbind (LoadVersions io name st) (\<lambda>vs. Inr (find IsCurrent vs))"

definition versionExists :: "'r versionMeta list \<Rightarrow> int \<Rightarrow> bool" where
  "versionExists vs ver \<longleftrightarrow> list_ex (\<lambda>v. Version v = ver) vs"

definition TagForVersion :: "vio \<Rightarrow> string \<Rightarrow> int \<Rightarrow> 'r appStore \<Rightarrow> string" where
  "TagForVersion io name ver st =
     (case LoadVersions io name st of
        Inl _ \<Rightarrow> ''''
      | Inr vs \<Rightarrow> (case find (\<lambda>v. Version v = ver) vs of Some v \<Rightarrow> vTag v | None \<Rightarrow> ''''))"

definition DockerImageForVersion :: "vio \<Rightarrow> string \<Rightarrow> int \<Rightarrow> 'r appStore \<Rightarrow> (code, string) result" where
  "DockerImageForVersion io name ver st =
     rbind (LoadVersions io name st) (\<lambda>vs.
       case find (\<lambda>v. Version v = ver) vs of
         None \<Rightarrow> Inl CodeVersionNotFound
       | Some v \<Rightarrow> if DockerImage v = '''' then Inl CodeVersionNotFound else Inr (DockerImage v))"

text \<open>The returned paths are those of \<open>vN\<close>; the flag tells whether the env path is set.\<close>

definition VersionPaths :: "vio \<Rightarrow> string \<Rightarrow> int \<Rightarrow> 'r appStore \<Rightarrow> (code, bool) result" where
  "VersionPaths io name ver st =
     rbind (LoadVersions io name st) (\<lambda>vs.
       if \<not> versionExists vs ver then Inl CodeVersionNotFound
       else if \<not> binaries st ver then Inl CodeVersionNotFound
       else case envs st ver of
         EnvPresent \<Rightarrow> Inr True
       | EnvMissing \<Rightarrow> Inr False
       | EnvUnreadable \<Rightarrow> Inl CodeFilesystem)"

fun bestGood :: "(int \<Rightarrow> bool) \<Rightarrow> int \<Rightarrow> 'r versionMeta list \<Rightarrow> int" where
  "bestGood usable best [] = best"
| "bestGood usable best (v # vs) =
     bestGood usable
       (if Version v > best \<and> DeployedAt v \<noteq> None \<and> usable (Version v) then Version v else best) vs"

definition LastKnownGoodVersion :: "vio \<Rightarrow> string \<Rightarrow> 'r appStore \<Rightarrow> (code, int) result" where
  "LastKnownGoodVersion io name st =
     rbind (LoadVersions io name st) (\<lambda>vs.
       let best = bestGood (\<lambda>ver. isOk (VersionPaths io name ver st)) 0 vs in
       if best = 0 then Inl CodeRollbackTargetNotFound else Inr best)"

definition PreviousVersion :: "vio \<Rightarrow> string \<Rightarrow> 'r appStore \<Rightarrow> (code, int) result" where
  "PreviousVersion io name st =
     rbind (LoadVersions io name st) (\<lambda>vs.
       let cur0 = currentOf vs;
           cur = (if cur0 = 0 \<and> vs \<noteq> [] then Version (last (sort_key Version vs)) else cur0)
       in if cur \<le> 1 then Inl CodeRollbackTargetNotFound
          else if \<not> versionExists vs (cur - 1) then Inl CodeRollbackTargetNotFound
          else Inr (cur - 1))"

section \<open>Retention\<close>

text \<open>Retention policies; \<open>DefaultRetention m\<close> with \<open>m \<le> 0\<close> means five.\<close>

datatype retentionPolicy = DefaultRetention int | UnlimitedRetention

fun MaxRetainedVersions :: "retentionPolicy \<Rightarrow> int" where
  "MaxRetainedVersions (DefaultRetention m) = (if m \<le> 0 then 5 else m)"
| "MaxRetainedVersions UnlimitedRetention = 0"

definition policyOf :: "retentionPolicy option \<Rightarrow> retentionPolicy" where
  "policyOf pol = (case pol of None \<Rightarrow> DefaultRetention 0 | Some p \<Rightarrow> p)"

definition inUse :: "deployInstance option list \<Rightarrow> int set" where
  "inUse xs =
     set (concat (map (\<lambda>x. case x of
            None \<Rightarrow> []
          | Some i \<Rightarrow> if instPID i > 0 \<and> instVersion i > 0 then [instVersion i] else []) xs))"

fun rollbackTarget :: "int \<Rightarrow> int \<Rightarrow> 'r versionMeta list \<Rightarrow> int" where
  "rollbackTarget deployed best [] = best"
| "rollbackTarget deployed best (v # vs) =
     rollbackTarget deployed (if Version v < deployed \<and> Version v > best then Version v else best) vs"

definition vfList :: "vio \<Rightarrow> string \<Rightarrow> 'r appStore \<Rightarrow> 'r versionMeta list" where
  "vfList io name st = (case LoadVersions io name st of Inl _ \<Rightarrow> [] | Inr vs \<Rightarrow> vs)"

definition deploymentProtectedVersions :: "vio \<Rightarrow> string \<Rightarrow> 'r appStore \<Rightarrow> int set" where
  "deploymentProtectedVersions io name st =
     (case deployUse st of
        None \<Rightarrow> {}
      | Some ds \<Rightarrow>
          let deployed = duActiveVersion ds;
              rb = rollbackTarget deployed 0 (vfList io name st)
          in inUse (duSlots ds) \<union> inUse (duReplicas ds) \<union> (if deployed > 0 then {deployed} else {})
             \<union> (if deployed > 0 \<and> rb > 0 then {rb} else {}))"

definition removeVersionArtifacts :: "vio \<Rightarrow> int \<Rightarrow> 'r appStore \<Rightarrow> 'r appStore" where
  "removeVersionArtifacts io ver st =
     st\<lparr>binaries := (if vfails io VRemoveBuild then binaries st else (binaries st)(ver := False)),
        envs := (if vfails io VRemoveEnv then envs st else (envs st)(ver := EnvMissing))\<rparr>"

text \<open>The loop over the rows, sorted by version: what stays in the index, and the artifacts removed.\<close>

fun pruneRows ::
    "vio \<Rightarrow> ('r versionMeta \<Rightarrow> bool) \<Rightarrow> int \<Rightarrow> 'r versionMeta list \<Rightarrow> 'r appStore
       \<Rightarrow> 'r versionMeta list \<times> 'r appStore" where
  "pruneRows io keep over [] st = ([], st)"
| "pruneRows io keep over (v # vs) st =
     (if over \<le> 0 then (v # vs, st)
      else if keep v then (case pruneRows io keep over vs st of (ks, st') \<Rightarrow> (v # ks, st'))
      else pruneRows io keep (over - 1) vs (removeVersionArtifacts io (Version v) st))"

definition PruneVersions :: "vio \<Rightarrow> string \<Rightarrow> retentionPolicy option \<Rightarrow> 'r appStore \<Rightarrow> ('r, unit) vop" where
  "PruneVersions io name pol st =
     (let limit = MaxRetainedVersions (policyOf pol) in
      if limit \<le> 0 then (Inr (), st)
      else
        (case LoadVersions io name st of
           Inl e \<Rightarrow> (Inl e, st)
         | Inr vs \<Rightarrow>
             let cur = currentOf vs;
                 protected = deploymentProtectedVersions io name st;
                 rows = sort_key Version vs;
                 (ks, st') = pruneRows io (\<lambda>v. IsCurrent v \<or> Version v = cur \<or> Version v \<in> protected)
                               (int (length rows) - limit) rows st
             in saveVersions io name ks st'))"

definition WouldPruneOnNextBuild :: "vio \<Rightarrow> string \<Rightarrow> int \<Rightarrow> retentionPolicy option \<Rightarrow> 'r appStore \<Rightarrow> bool" where
  "WouldPruneOnNextBuild io name ver pol st =
     (let limit = MaxRetainedVersions (policyOf pol) in
      if limit \<le> 0 then False
      else
        (case LoadVersions io name st of
           Inl _ \<Rightarrow> False
         | Inr vs \<Rightarrow> if ver = currentOf vs then False else int (length vs) + 1 > limit))"

section \<open>Recording and promoting builds\<close>

definition newRow :: "int \<Rightarrow> string \<Rightarrow> string \<Rightarrow> int \<Rightarrow> 'r versionMeta" where
  "newRow ver tag commit at =
     \<lparr>Version = ver, vTag = tag, GitCommit = commit, BuiltAt = at, SizeBytes = 0, DeployedAt = None,
      DeployMode = '''', IsCurrent = False, DockerImage = '''', MatrixArtifacts = [],
      MultiArchImage = '''', BuildReport = None\<rparr>"

text \<open>Appending a row, saving and pruning, shared by the three ways to record a build.\<close>

definition commitRow ::
    "vio \<Rightarrow> string \<Rightarrow> retentionPolicy option \<Rightarrow> 'r versionMeta \<Rightarrow> versionResult \<Rightarrow> 'r appStore
       \<Rightarrow> ('r, versionResult) vop" where
  "commitRow io name pol row res st =
     (case LoadVersions io name st of
        Inl e \<Rightarrow> (Inl e, st)
      | Inr vs \<Rightarrow>
          (case saveVersions io name (vs @ [row]) st of
             (Inl e, st1) \<Rightarrow> (Inl e, st1)
           | (Inr _, st1) \<Rightarrow>
               (case PruneVersions io name pol st1 of
                  (Inl e, st2) \<Rightarrow> (Inl e, st2)
                | (Inr _, st2) \<Rightarrow> (Inr res, st2))))"

text \<open>\<open>setSize\<close> keeps a binary report consistent with the stored file of the given size.\<close>

definition RecordFreshBuild ::
    "vio \<Rightarrow> string \<Rightarrow> (int \<Rightarrow> 'r \<Rightarrow> 'r) \<Rightarrow> int \<Rightarrow> string \<Rightarrow> string \<Rightarrow> 'r option \<Rightarrow> retentionPolicy option
       \<Rightarrow> 'r appStore \<Rightarrow> ('r, versionResult) vop" where
  "RecordFreshBuild io name setSize bytes commit tag report pol st =
     (case NextVersion io name st of
        Inl e \<Rightarrow> (Inl e, st)
      | Inr ver \<Rightarrow>
          if vfails io VMkVersionDir then (Inl CodeUnknown, st)
          else if vfails io VCopy then (Inl CodeFilesystem, st)
          else
            let st1 = st\<lparr>binaries := (binaries st)(ver := True)\<rparr> in
            if vfails io VStatBinary then (Inl CodeUnknown, st1)
            else
              (case vsnapshot io of
                 Some e \<Rightarrow> (Inl e, st1)
               | None \<Rightarrow>
                   commitRow io name pol
                     ((newRow ver tag commit (vnow io))
                        \<lparr>SizeBytes := bytes, BuildReport := map_option (setSize bytes) report\<rparr>)
                     \<lparr>resVersion = ver, resBinary = True, resEnv = True\<rparr>
                     (st1\<lparr>envs := (envs st1)(ver := EnvPresent)\<rparr>)))"

definition RecordDockerBuild ::
    "vio \<Rightarrow> string \<Rightarrow> string \<Rightarrow> string \<Rightarrow> string \<Rightarrow> retentionPolicy option \<Rightarrow> 'r appStore
       \<Rightarrow> ('r, versionResult) vop" where
  "RecordDockerBuild io name img tag commit pol st =
     (case NextVersion io name st of
        Inl e \<Rightarrow> (Inl e, st)
      | Inr ver \<Rightarrow>
          commitRow io name pol ((newRow ver tag commit (vnow io))\<lparr>DockerImage := img\<rparr>)
            \<lparr>resVersion = ver, resBinary = False, resEnv = False\<rparr> st)"

definition RecordMatrixBuild ::
    "vio \<Rightarrow> string \<Rightarrow> string \<Rightarrow> string \<Rightarrow> 'r matrixArtifact list \<Rightarrow> string \<Rightarrow> retentionPolicy option
       \<Rightarrow> 'r appStore \<Rightarrow> ('r, versionResult) vop" where
  "RecordMatrixBuild io name tag commit artifacts multi pol st =
     (case NextVersion io name st of
        Inl e \<Rightarrow> (Inl e, st)
      | Inr ver \<Rightarrow>
          commitRow io name pol
            ((newRow ver tag commit (vnow io))\<lparr>MatrixArtifacts := artifacts, MultiArchImage := multi\<rparr>)
            \<lparr>resVersion = ver, resBinary = False, resEnv = False\<rparr> st)"

definition promoteRow :: "int \<Rightarrow> string \<Rightarrow> int \<Rightarrow> 'r versionMeta \<Rightarrow> 'r versionMeta" where
  "promoteRow ver mode now v =
     (if Version v = ver then v\<lparr>IsCurrent := True, DeployedAt := Some now, DeployMode := mode\<rparr>
      else v\<lparr>IsCurrent := False\<rparr>)"

text \<open>Staging writes the temporary files; nothing visible changes until the two renames.\<close>

definition PromoteVersion :: "vio \<Rightarrow> string \<Rightarrow> int \<Rightarrow> string \<Rightarrow> 'r appStore \<Rightarrow> ('r, unit) vop" where
  "PromoteVersion io name ver mode st =
     (if ver \<le> 0 then (Inr (), st)
      else
        (case LoadVersions io name st of
           Inl e \<Rightarrow> (Inl e, st)
         | Inr before \<Rightarrow>
             let after = map (promoteRow ver mode (vnow io)) before in
             if \<not> versionExists before ver then (Inl CodeVersionNotFound, st)
             else if vfails io VMkdir \<or> vfails io VWriteTmp then (Inl CodeFilesystem, st)
             else if vfails io VSymlink then (Inl CodeFilesystem, st)
             else if vfails io VRename then (Inl CodeFilesystem, st)
             else
               let st1 = st\<lparr>index := IndexOk after\<rparr> in
               if vfails io VRenameLink then
                 (Inl CodeFilesystem,
                  if vfails io VRestoreMkdir \<or> vfails io VRestoreWrite \<or> vfails io VRestoreRename then st1
                  else st1\<lparr>index := IndexOk before\<rparr>)
               else (Inr (), st1\<lparr>currentLink := Some ver\<rparr>)))"

definition updateCurrentSymlink :: "vio \<Rightarrow> string \<Rightarrow> int \<Rightarrow> 'r appStore \<Rightarrow> ('r, unit) vop" where
  "updateCurrentSymlink io name ver st =
     (case appDataDir io name of
        Inl e \<Rightarrow> (Inl e, st)
      | Inr _ \<Rightarrow>
          if vfails io VSymlink \<or> vfails io VRenameLink then (Inl CodeFilesystem, st)
          else (Inr (), st\<lparr>currentLink := Some ver\<rparr>))"

section \<open>Arguments, listings and history\<close>

definition ParseVersionArg :: "string \<Rightarrow> (code, int) result" where
  "ParseVersionArg s =
     (case atoi (trimPrefix ''V'' (trimPrefix ''v'' (trimSpace s))) of
        None \<Rightarrow> Inl CodeInvalidArgument
      | Some n \<Rightarrow> if n < 1 then Inl CodeInvalidArgument else Inr n)"

definition ResolveVersionOrTag :: "vio \<Rightarrow> string \<Rightarrow> string \<Rightarrow> 'r appStore \<Rightarrow> (code, int) result" where
  "ResolveVersionOrTag io name inp st =
     (let s = trimSpace inp in
      if s = '''' then Inl CodeInvalidArgument
      else case ParseVersionArg s of
        Inr ver \<Rightarrow>
          rbind (LoadVersions io name st) (\<lambda>vs.
            if \<not> versionExists vs ver then Inl CodeVersionNotFound else Inr ver)
      | Inl _ \<Rightarrow>
          rbind (LoadVersions io name st) (\<lambda>vs.
            case filter (\<lambda>v. vTag v = s) vs of
              [] \<Rightarrow> Inl CodeVersionNotFound
            | [v] \<Rightarrow> Inr (Version v)
            | _ \<Rightarrow> Inl CodeVersionNotFound))"

definition newestFirst :: "'r versionMeta list \<Rightarrow> 'r versionMeta list" where
  "newestFirst vs = sort_key (\<lambda>v. - Version v) vs"

definition ListVersionsForDisplay :: "vio \<Rightarrow> string \<Rightarrow> 'r appStore \<Rightarrow> (code, 'r versionMeta list) result" where
  "ListVersionsForDisplay io name st = rbind (LoadVersions io name st) (\<lambda>vs. Inr (newestFirst vs))"

definition RecentVersions :: "vio \<Rightarrow> string \<Rightarrow> int \<Rightarrow> 'r appStore \<Rightarrow> (code, 'r versionMeta list) result" where
  "RecentVersions io name n st =
     rbind (LoadVersions io name st) (\<lambda>vs.
       let out = newestFirst vs in
       Inr (if n > 0 \<and> int (length out) > n then take (nat n) out else out))"

record 'r historyEntry =
  heVersion :: int
  heTag :: string
  heBuiltAt :: int
  heReport :: "'r option"

definition historyRows :: "'r versionMeta \<Rightarrow> 'r historyEntry list" where
  "historyRows v =
     (let entry = (\<lambda>r. \<lparr>heVersion = Version v, heTag = vTag v, heBuiltAt = BuiltAt v, heReport = r\<rparr>) in
      if BuildReport v \<noteq> None then [entry (BuildReport v)]
      else if MatrixArtifacts v \<noteq> [] then
        map (\<lambda>a. entry (maReport a))
          (filter (\<lambda>a. maStatus a = ''success'' \<and> maReport a \<noteq> None) (MatrixArtifacts v))
      else [entry None])"

definition BuildReportHistory :: "vio \<Rightarrow> string \<Rightarrow> int \<Rightarrow> 'r appStore \<Rightarrow> (code, 'r historyEntry list) result" where
  "BuildReportHistory io name excl st =
     rbind (LoadVersions io name st) (\<lambda>vs.
       Inr (concat (map historyRows (filter (\<lambda>v. Version v \<noteq> excl) (newestFirst vs)))))"

section \<open>Well-formed indexes\<close>

definition rowsOf :: "'r appStore \<Rightarrow> 'r versionMeta list" where
  "rowsOf st = (case index st of IndexOk vs \<Rightarrow> vs | _ \<Rightarrow> [])"

definition wfIndex :: "'r versionMeta list \<Rightarrow> bool" where
  "wfIndex vs \<longleftrightarrow>
     distinct (map Version vs) \<and> (\<forall>v\<in>set vs. Version v \<ge> 1) \<and>
     (\<forall>v\<in>set vs. \<forall>w\<in>set vs. IsCurrent v \<and> IsCurrent w \<longrightarrow> v = w)"

lemma wfIndex_Nil [simp]: "wfIndex []"
  by (simp add: wfIndex_def)

lemma wfIndex_subset: "wfIndex vs \<Longrightarrow> distinct (map Version ks) \<Longrightarrow> set ks \<subseteq> set vs \<Longrightarrow> wfIndex ks"
  unfolding wfIndex_def by blast

lemma wfIndex_snoc:
  "wfIndex vs \<Longrightarrow> (\<And>v. v \<in> set vs \<Longrightarrow> Version v < Version row) \<Longrightarrow> Version row \<ge> 1 \<Longrightarrow> \<not> IsCurrent row \<Longrightarrow>
   wfIndex (vs @ [row])"
  by (fastforce simp: wfIndex_def)

lemma find_unique:
  assumes "\<forall>v\<in>set vs. \<forall>w\<in>set vs. P v \<and> P w \<longrightarrow> v = w"
  shows "find P vs = Some v \<longleftrightarrow> v \<in> set vs \<and> P v"
  using assms by (induction vs) auto

lemma find_current_cong:
  assumes "wfIndex vs" and "wfIndex ks" and "\<And>v. IsCurrent v \<Longrightarrow> v \<in> set ks \<longleftrightarrow> v \<in> set vs"
  shows "find IsCurrent ks = find IsCurrent vs"
proof -
  have "find IsCurrent ks = Some v \<longleftrightarrow> find IsCurrent vs = Some v" for v
    using assms find_unique [of vs IsCurrent v] find_unique [of ks IsCurrent v]
    by (auto simp: wfIndex_def)
  then show ?thesis by (metis option.exhaust)
qed

lemma maxVersion_ge: "m \<le> maxVersion m vs \<and> (\<forall>v\<in>set vs. Version v \<le> maxVersion m vs)"
proof (induction vs arbitrary: m)
  case (Cons a vs)
  show ?case using Cons.IH [of "if Version a > m then Version a else m"] by (auto split: if_splits)
qed simp

lemma rowsOf_update [simp]:
  "rowsOf (st\<lparr>index := IndexOk vs\<rparr>) = vs" "rowsOf (st\<lparr>currentLink := l\<rparr>) = rowsOf st"
  "rowsOf (st\<lparr>binaries := b\<rparr>) = rowsOf st" "rowsOf (st\<lparr>envs := e\<rparr>) = rowsOf st"
  "rowsOf (st\<lparr>deployUse := du\<rparr>) = rowsOf st"
  by (simp_all add: rowsOf_def)

lemma LoadVersions_Inr [result_simps]:
  "LoadVersions io name st = Inr vs \<longleftrightarrow>
     isOk (appDataDir io name) \<and> vs = rowsOf st \<and> index st \<notin> {IndexUnreadable, IndexCorrupt}"
  by (auto simp: LoadVersions_def rbind_eq_Inr isOk_iff rowsOf_def split: versionsFile.splits)

section \<open>What pruning removes\<close>

definition pruned :: "('r versionMeta \<Rightarrow> bool) \<Rightarrow> int \<Rightarrow> 'r versionMeta list \<Rightarrow> 'r versionMeta list" where
  "pruned keep over vs = take (nat over) (filter (\<lambda>v. \<not> keep v) vs)"

lemma pruned_subset: "set (pruned keep over vs) \<subseteq> {v \<in> set vs. \<not> keep v}"
  unfolding pruned_def by (auto dest: in_set_takeD)

lemma pruneRows_eq:
  assumes "distinct vs"
  shows "pruneRows io keep over vs st =
    (filter (\<lambda>v. v \<notin> set (pruned keep over vs)) vs,
     fold (\<lambda>v. removeVersionArtifacts io (Version v)) (pruned keep over vs) st)"
  using assms
proof (induction vs arbitrary: over st)
  case Nil
  then show ?case by (simp add: pruned_def)
next
  case (Cons v vs)
  consider (exhausted) "over \<le> 0" | (keep) "over > 0" "keep v" | (drop) "over > 0" "\<not> keep v" by linarith
  then show ?case
  proof cases
    case exhausted
    then show ?thesis by (simp add: pruned_def)
  next
    case keep
    then have eq: "pruned keep over (v # vs) = pruned keep over vs" by (simp add: pruned_def)
    have "v \<notin> set (pruned keep over vs)" using keep(2) pruned_subset [of keep over vs] by auto
    with keep Cons eq show ?thesis by simp
  next
    case drop
    then have "nat over = Suc (nat (over - 1))" by linarith
    with drop have eq: "pruned keep over (v # vs) = v # pruned keep (over - 1) vs" by (simp add: pruned_def)
    have "filter (\<lambda>x. x \<notin> set (v # pruned keep (over - 1) vs)) vs =
          filter (\<lambda>x. x \<notin> set (pruned keep (over - 1) vs)) vs"
      using Cons.prems by (intro filter_cong) auto
    with drop Cons eq show ?thesis by simp
  qed
qed

lemma fold_remove_frame:
  assumes "ver \<notin> Version ` set xs"
  shows "binaries (fold (\<lambda>v. removeVersionArtifacts io (Version v)) xs st) ver = binaries st ver"
    and "envs (fold (\<lambda>v. removeVersionArtifacts io (Version v)) xs st) ver = envs st ver"
  using assms by (induction xs arbitrary: st) (auto simp: removeVersionArtifacts_def)

lemma fold_remove_sel [simp]:
  "index (fold (\<lambda>v. removeVersionArtifacts io (Version v)) xs st) = index st"
  "currentLink (fold (\<lambda>v. removeVersionArtifacts io (Version v)) xs st) = currentLink st"
  "deployUse (fold (\<lambda>v. removeVersionArtifacts io (Version v)) xs st) = deployUse st"
  by (induction xs arbitrary: st) (simp_all add: removeVersionArtifacts_def)

definition pruneKeep :: "vio \<Rightarrow> string \<Rightarrow> 'r appStore \<Rightarrow> 'r versionMeta \<Rightarrow> bool" where
  "pruneKeep io name st v \<longleftrightarrow>
     IsCurrent v \<or> Version v = currentOf (rowsOf st) \<or> Version v \<in> deploymentProtectedVersions io name st"

definition pruneVictims :: "vio \<Rightarrow> string \<Rightarrow> int \<Rightarrow> 'r appStore \<Rightarrow> 'r versionMeta list" where
  "pruneVictims io name limit st =
     pruned (pruneKeep io name st) (int (length (rowsOf st)) - limit) (sort_key Version (rowsOf st))"

lemma PruneVersions_run:
  assumes "LoadVersions io name st = Inr vs" and "distinct (map Version vs)"
    and "0 < MaxRetainedVersions (policyOf pol)"
  shows "PruneVersions io name pol st =
    (let victims = pruneVictims io name (MaxRetainedVersions (policyOf pol)) st in
     saveVersions io name (filter (\<lambda>v. v \<notin> set victims) (sort_key Version vs))
       (fold (\<lambda>v. removeVersionArtifacts io (Version v)) victims st))"
proof -
  have d: "distinct (sort_key Version vs)" using assms(2) by (simp add: distinct_map)
  have vs: "vs = rowsOf st" using assms(1) by (simp add: LoadVersions_Inr)
  have k: "(\<lambda>v. IsCurrent v \<or> Version v = currentOf vs \<or> Version v \<in> deploymentProtectedVersions io name st)
      = pruneKeep io name st"
    by (simp add: pruneKeep_def vs fun_eq_iff)
  show ?thesis using assms(1,3) d
    by (simp add: PruneVersions_def Let_def k pruneRows_eq pruneVictims_def flip: vs)
qed

lemma set_split: "v \<in> set (filter (\<lambda>v. v \<notin> set xs) (sort_key f vs)) \<longleftrightarrow> v \<in> set vs \<and> v \<notin> set xs"
  by simp

lemma pruneVictims_sub: "set (pruneVictims io name limit st) \<subseteq> {v \<in> set (rowsOf st). \<not> pruneKeep io name st v}"
  using pruned_subset [of "pruneKeep io name st" _ "sort_key Version (rowsOf st)"]
  by (simp add: pruneVictims_def)

lemma pruneVictims_oldest:
  assumes "v \<in> set (pruneVictims io name limit st)" and "u \<in> set (rowsOf st)"
    and "u \<notin> set (pruneVictims io name limit st)" and "Version u < Version v"
  shows "pruneKeep io name st u"
proof (rule ccontr)
  assume nk: "\<not> pruneKeep io name st u"
  let ?xs = "filter (\<lambda>v. \<not> pruneKeep io name st v) (sort_key Version (rowsOf st))"
  let ?n = "nat (int (length (rowsOf st)) - limit)"
  have srt: "sorted (map Version (take ?n ?xs @ drop ?n ?xs))"
    using sorted_filter [of Version "sort_key Version (rowsOf st)"] by simp
  have "u \<in> set ?xs" using nk assms(2) by simp
  moreover have "u \<notin> set (take ?n ?xs)" using assms(3) by (simp add: pruneVictims_def pruned_def)
  ultimately have "u \<in> set (drop ?n ?xs)" by (metis Un_iff append_take_drop_id set_append)
  moreover have "v \<in> set (take ?n ?xs)" using assms(1) by (simp add: pruneVictims_def pruned_def)
  ultimately have "Version v \<le> Version u" using srt by (auto simp: sorted_append simp del: append_take_drop_id)
  with assms(4) show False by simp
qed

lemma length_filter_notin:
  assumes "distinct xs" and "distinct ys" and "set ys \<subseteq> set xs"
  shows "length (filter (\<lambda>v. v \<notin> set ys) xs) = length xs - length ys"
proof -
  have "length (filter (\<lambda>v. v \<notin> set ys) xs) = card (set xs - set ys)"
    using assms(1) by (simp add: set_diff_eq flip: distinct_card)
  then show ?thesis using assms by (simp add: card_Diff_subset distinct_card)
qed

lemma pruneVictims_length:
  assumes "distinct (rowsOf st)"
  shows "distinct (pruneVictims io name limit st)"
    and "length (pruneVictims io name limit st) =
      min (length (filter (\<lambda>v. \<not> pruneKeep io name st v) (rowsOf st))) (nat (int (length (rowsOf st)) - limit))"
proof -
  have "length (filter P (sort_key Version vs)) = length (filter P vs)" for P and vs :: "'a versionMeta list"
    by (metis mset_filter mset_sort size_mset)
  then show "length (pruneVictims io name limit st) =
      min (length (filter (\<lambda>v. \<not> pruneKeep io name st v) (rowsOf st))) (nat (int (length (rowsOf st)) - limit))"
    by (simp add: pruneVictims_def pruned_def)
  show "distinct (pruneVictims io name limit st)"
    using assms by (simp add: pruneVictims_def pruned_def)
qed

section \<open>Properties\<close>


definition demoRow :: "int \<Rightarrow> bool \<Rightarrow> unit versionMeta" where
  "demoRow n cur = (newRow n '''' '''' 0)\<lparr>IsCurrent := cur, DeployedAt := Some 1\<rparr>"

definition demoApp :: "unit appStore" where
  "demoApp =
     \<lparr>index = IndexOk [demoRow 1 False, demoRow 2 True, demoRow 3 False, demoRow 4 False],
      binaries = (\<lambda>n. n \<in> {1, 2, 3, 4}), envs = (\<lambda>_. EnvPresent), currentLink = Some 2,
      deployUse = Some \<lparr>duActiveVersion = 2, duSlots = [Some (DeployInstance 77 2)], duReplicas = []\<rparr>\<rparr>"

definition quietVio :: vio where
  "quietVio = \<lparr>vfails = (\<lambda>_. False), vsnapshot = None, vnow = 9\<rparr>"

lemma quietVio_sel [simp]: "vfails quietVio s = False" "vsnapshot quietVio = None" "vnow quietVio = 9"
  by (simp_all add: quietVio_def)

lemma demoApp_name: "appDataDir quietVio ''web'' = Inr ()"
proof -
  have "appNameRe ''web''" by code_simp
  then show ?thesis by (simp add: appDataDir_def ValidateAppName_def quietVio_def)
qed

lemma demoApp_wf: "wfIndex (rowsOf demoApp)"
  by (simp add: wfIndex_def rowsOf_def demoApp_def demoRow_def newRow_def)

lemma demoApp_protected: "deploymentProtectedVersions quietVio ''web'' demoApp = {1, 2}"
  by (simp add: deploymentProtectedVersions_def vfList_def LoadVersions_def demoApp_name demoApp_def
      demoRow_def newRow_def inUse_def Let_def insert_commute)

lemma demoApp_load: "LoadVersions quietVio ''web'' demoApp = Inr (rowsOf demoApp)"
  by (simp add: LoadVersions_Inr demoApp_name) (simp add: demoApp_def)

lemma demoApp_keep: "pruneKeep quietVio ''web'' demoApp v \<longleftrightarrow> IsCurrent v \<or> Version v \<in> {1, 2}"
  by (simp add: pruneKeep_def demoApp_protected)
    (auto simp: rowsOf_def demoApp_def demoRow_def newRow_def currentOf_def)

lemma demoApp_prune:
  "\<exists>st'. PruneVersions quietVio ''web'' (Some (DefaultRetention 3)) demoApp = (Inr (), st') \<and>
     map Version (rowsOf st') = [1, 2, 4]"
proof -
  have "pruneVictims quietVio ''web'' 3 demoApp = [demoRow 3 False]"
    by (simp add: pruneVictims_def pruned_def demoApp_keep)
      (simp add: rowsOf_def demoApp_def demoRow_def newRow_def)
  moreover have "sort_key Version (rowsOf demoApp) = rowsOf demoApp"
    by (simp add: rowsOf_def demoApp_def demoRow_def newRow_def)
  moreover have "map Version (filter (\<lambda>v. v \<noteq> demoRow 3 False) (rowsOf demoApp)) = [1, 2, 4]"
    by (simp add: rowsOf_def demoApp_def demoRow_def newRow_def)
  ultimately show ?thesis
    using demoApp_wf
    by (subst PruneVersions_run [OF demoApp_load])
      (simp_all add: wfIndex_def policyOf_def Let_def saveVersions_def demoApp_name)
qed




section \<open>Histories of builds\<close>

text \<open>
  \<open>vsafe st st'\<close>: on a well-formed index, the step keeps the index well-formed and does not
  touch the current version, its row, its artifacts or the symlink.
\<close>

definition vsafe :: "'r appStore \<Rightarrow> 'r appStore \<Rightarrow> bool" where
  "vsafe st st' \<longleftrightarrow>
     (wfIndex (rowsOf st) \<longrightarrow>
        wfIndex (rowsOf st') \<and> find IsCurrent (rowsOf st') = find IsCurrent (rowsOf st) \<and>
        currentLink st' = currentLink st \<and>
        (\<forall>v. find IsCurrent (rowsOf st) = Some v \<longrightarrow>
           binaries st' (Version v) = binaries st (Version v) \<and> envs st' (Version v) = envs st (Version v)))"

lemma vsafe_refl [simp]: "vsafe st st"
  by (simp add: vsafe_def)

lemma vsafe_trans: "vsafe st st1 \<Longrightarrow> vsafe st1 st2 \<Longrightarrow> vsafe st st2"
  by (auto simp: vsafe_def)

lemma vsafe_use [simp]: "vsafe st (st\<lparr>deployUse := du\<rparr>)"
  by (simp add: vsafe_def)

lemma PruneVersions_vsafe: "vsafe st (snd (PruneVersions io name pol st))"
proof (cases "0 < MaxRetainedVersions (policyOf pol) \<and> isOk (LoadVersions io name st) \<and> wfIndex (rowsOf st)")
  case True
  then obtain vs where load: "LoadVersions io name st = Inr vs" and wf: "wfIndex (rowsOf st)"
    by (auto simp: isOk_iff)
  then have vs: "vs = rowsOf st" by (simp add: LoadVersions_Inr)
  let ?V = "pruneVictims io name (MaxRetainedVersions (policyOf pol)) st"
  let ?ks = "filter (\<lambda>v. v \<notin> set ?V) (sort_key Version (rowsOf st))"
  let ?st = "fold (\<lambda>v. removeVersionArtifacts io (Version v)) ?V st"
  have sub: "set ?V \<subseteq> {v \<in> set (rowsOf st). \<not> pruneKeep io name st v}" by (rule pruneVictims_sub)
  have dv: "distinct (map Version (rowsOf st))" using wf by (simp add: wfIndex_def)
  have wfk: "wfIndex ?ks"
  proof (rule wfIndex_subset [OF wf])
    show "distinct (map Version ?ks)" using dv by (auto simp: distinct_map inj_on_def)
  qed auto
  have cur: "find IsCurrent ?ks = find IsCurrent (rowsOf st)"
    by (rule find_current_cong [OF wf wfk]) (use sub in \<open>auto simp: pruneKeep_def\<close>)
  have run: "snd (PruneVersions io name pol st) \<in> {?st, ?st\<lparr>index := IndexOk ?ks\<rparr>}"
    using PruneVersions_run [OF load, of pol] True dv vs
    by (auto simp: Let_def saveVersions_def split: sum.splits if_splits)
  have "binaries ?st (Version v) = binaries st (Version v) \<and> envs ?st (Version v) = envs st (Version v)"
    if "find IsCurrent (rowsOf st) = Some v" for v
  proof -
    from that have v: "v \<in> set (rowsOf st)" "IsCurrent v"
      using find_unique [of "rowsOf st" IsCurrent v] wf by (auto simp: wfIndex_def)
    then have "Version v \<notin> Version ` set ?V"
      using sub dv by (auto simp: distinct_map inj_on_def pruneKeep_def)
    then show ?thesis using fold_remove_frame [of "Version v" ?V io st] by blast
  qed
  moreover have "rowsOf ?st = rowsOf st" by (simp add: rowsOf_def)
  ultimately show ?thesis using run wfk cur wf unfolding vsafe_def by auto
next
  case False
  then show ?thesis
    by (auto simp: PruneVersions_def Let_def vsafe_def isOk_def split: sum.splits)
qed

lemma find_snoc_dead: "\<not> P x \<Longrightarrow> find P (xs @ [x]) = find P xs"
  by (induction xs) auto

lemma commitRow_vsafe:
  assumes "\<And>v. v \<in> set (rowsOf st) \<Longrightarrow> Version v < Version row" and "Version row \<ge> 1" and "\<not> IsCurrent row"
  shows "vsafe st (snd (commitRow io name pol row res st))"
proof (cases "LoadVersions io name st")
  case (Inl e)
  then show ?thesis by (simp add: commitRow_def)
next
  case (Inr vs)
  then have vs: "vs = rowsOf st" by (simp add: LoadVersions_Inr)
  show ?thesis
  proof (cases "fst (saveVersions io name (vs @ [row]) st)")
    case (Inl e)
    then have "snd (saveVersions io name (vs @ [row]) st) = st"
      by (auto simp: saveVersions_def split: sum.splits if_splits)
    with Inl Inr show ?thesis by (auto simp: commitRow_def split: prod.splits)
  next
    case (Inr u)
    then have s1: "saveVersions io name (vs @ [row]) st = (Inr (), st\<lparr>index := IndexOk (vs @ [row])\<rparr>)"
      by (auto simp: saveVersions_def split: sum.splits if_splits)
    have "vsafe st (st\<lparr>index := IndexOk (vs @ [row])\<rparr>)"
      using assms wfIndex_snoc [of vs row] by (auto simp: vsafe_def vs find_snoc_dead)
    from vsafe_trans [OF this PruneVersions_vsafe [of _ io name pol]]
    show ?thesis using \<open>LoadVersions io name st = Inr vs\<close>
      by (auto simp: commitRow_def s1 split: prod.splits sum.splits)
  qed
qed

lemma NextVersion_Inr:
  assumes "NextVersion io name st = Inr ver"
  shows "ver \<ge> 1" and "v \<in> set (rowsOf st) \<Longrightarrow> Version v < ver"
  using assms maxVersion_ge [of 0 "rowsOf st"]
  by (auto simp: NextVersion_def result_simps dest!: bspec)

lemma RecordFreshBuild_vsafe: "vsafe st (snd (RecordFreshBuild io name ss b c t r pol st))"
proof (cases "NextVersion io name st")
  case (Inl e)
  then show ?thesis by (simp add: RecordFreshBuild_def)
next
  case (Inr ver)
  note nv = NextVersion_Inr [OF Inr]
  have pre: "vsafe st (st\<lparr>binaries := (binaries st)(ver := True), envs := e\<rparr>)"
    if "\<And>w. w \<noteq> ver \<Longrightarrow> e w = envs st w" for e
    unfolding vsafe_def using nv(2) that
    by (auto dest!: find_unique [THEN iffD1, rotated] simp: wfIndex_def)
  have "vsafe st (snd (commitRow io name pol
          ((newRow ver t c (vnow io))\<lparr>SizeBytes := b, BuildReport := map_option (ss b) r\<rparr>) res
          (st\<lparr>binaries := (binaries st)(ver := True), envs := (envs st)(ver := EnvPresent)\<rparr>)))" for res
    by (rule vsafe_trans [OF pre commitRow_vsafe]) (use nv in \<open>auto simp: newRow_def\<close>)
  moreover have "vsafe st (st\<lparr>binaries := (binaries st)(ver := True)\<rparr>)"
    using pre [of "envs st"] by simp
  ultimately show ?thesis using Inr
    by (simp add: RecordFreshBuild_def Let_def split: option.split)
qed

lemma RecordDockerBuild_vsafe: "vsafe st (snd (RecordDockerBuild io name img t c pol st))"
proof (cases "NextVersion io name st")
  case (Inr ver)
  then show ?thesis using NextVersion_Inr [OF Inr]
    by (simp add: RecordDockerBuild_def) (rule commitRow_vsafe, auto simp: newRow_def)
qed (simp add: RecordDockerBuild_def)

lemma RecordMatrixBuild_vsafe: "vsafe st (snd (RecordMatrixBuild io name t c arts multi pol st))"
proof (cases "NextVersion io name st")
  case (Inr ver)
  then show ?thesis using NextVersion_Inr [OF Inr]
    by (simp add: RecordMatrixBuild_def) (rule commitRow_vsafe, auto simp: newRow_def)
qed (simp add: RecordMatrixBuild_def)

text \<open>
  The operations on the version store between two promotions, each in an arbitrary I/O environment;
  \<open>use\<close> is a change of \<open>deploy.json\<close> by a deployment.
\<close>

inductive buildStep :: "string \<Rightarrow> 'r appStore \<Rightarrow> 'r appStore \<Rightarrow> bool" for name where
  fresh: "buildStep name st (snd (RecordFreshBuild io name ss b c t r pol st))"
| docker: "buildStep name st (snd (RecordDockerBuild io name img t c pol st))"
| matrix: "buildStep name st (snd (RecordMatrixBuild io name t c arts multi pol st))"
| prune: "buildStep name st (snd (PruneVersions io name pol st))"
| use: "buildStep name st (st\<lparr>deployUse := du\<rparr>)"

inductive versionStep :: "string \<Rightarrow> 'r appStore \<Rightarrow> 'r appStore \<Rightarrow> bool" for name where
  build: "buildStep name st st' \<Longrightarrow> versionStep name st st'"
| promote: "versionStep name st (snd (PromoteVersion io name ver mode st))"

inductive_cases buildStepE: "buildStep name st st'"

lemma buildStep_vsafe: "buildStep name st st' \<Longrightarrow> vsafe st st'"
  by (erule buildStepE)
    (simp_all add: RecordFreshBuild_vsafe RecordDockerBuild_vsafe RecordMatrixBuild_vsafe PruneVersions_vsafe)

lemma buildSteps_vsafe: "(buildStep name)\<^sup>*\<^sup>* st st' \<Longrightarrow> vsafe st st'"
  by (induction rule: rtranclp_induct) (auto intro: vsafe_trans buildStep_vsafe)

lemma promoteRows_wf: "wfIndex vs \<Longrightarrow> wfIndex (map (promoteRow ver mode now) vs)"
  by (auto simp: wfIndex_def promoteRow_def comp_def distinct_map inj_on_def if_distrib cong: if_cong split: if_splits)

text \<open>
  No sequence of builds, prunes and deployment-state changes loses the current version. Starting
  from a well-formed index, after any number of recorded native, Docker and matrix builds and
  prunings, with arbitrary retention policies and failing at arbitrary steps, the index is
  well-formed and the current row, its binary, its environment snapshot and the symlink are exactly
  what they were.
\<close>

theorem builds_keep_current:
  assumes "(buildStep name)\<^sup>*\<^sup>* st st'" and "wfIndex (rowsOf st)" and "find IsCurrent (rowsOf st) = Some v"
  shows "find IsCurrent (rowsOf st') = Some v \<and> v \<in> set (rowsOf st') \<and> wfIndex (rowsOf st') \<and>
         currentLink st' = currentLink st \<and>
         binaries st' (Version v) = binaries st (Version v) \<and> envs st' (Version v) = envs st (Version v)"
proof -
  from buildSteps_vsafe [OF assms(1)] assms(2,3)
  have safe: "wfIndex (rowsOf st')" "find IsCurrent (rowsOf st') = Some v" "currentLink st' = currentLink st"
    "binaries st' (Version v) = binaries st (Version v)" "envs st' (Version v) = envs st (Version v)"
    by (auto simp: vsafe_def)
  then show ?thesis using find_unique [of "rowsOf st'" IsCurrent v] by (auto simp: wfIndex_def)
qed

theorem builds_keep_current_witness:
  "\<exists>st'. buildStep ''web'' demoApp st' \<and> find IsCurrent (rowsOf st') = Some (demoRow 2 True)"
proof -
  let ?st = "snd (PruneVersions quietVio ''web'' (Some (DefaultRetention 1)) demoApp)"
  have cur: "find IsCurrent (rowsOf demoApp) = Some (demoRow 2 True)"
    by (simp add: rowsOf_def demoApp_def demoRow_def newRow_def)
  have step: "buildStep ''web'' demoApp ?st" by (rule buildStep.prune)
  then have "(buildStep ''web'')\<^sup>*\<^sup>* demoApp ?st" by (rule r_into_rtranclp)
  from builds_keep_current [OF this demoApp_wf cur] step show ?thesis by blast
qed

text \<open>
  Every reachable version index is well-formed: from an application without an index, whatever
  sequence of builds, prunings and promotions runs and whichever of their file-system steps fail,
  version numbers are positive and pairwise different and at most one row is current.
\<close>

theorem reachable_index_wf:
  assumes "(versionStep name)\<^sup>*\<^sup>* st st'" and "index st = IndexAbsent"
  shows "wfIndex (rowsOf st')"
  using assms(1)
proof (induction rule: rtranclp_induct)
  case base
  then show ?case using assms(2) by (simp add: rowsOf_def)
next
  case (step s1 s2)
  from step(2) show ?case
  proof cases
    case build
    then show ?thesis using buildStep_vsafe [of name s1 s2] step.IH by (simp add: vsafe_def)
  next
    case (promote io ver mode)
    then show ?thesis using step.IH promoteRows_wf [of "rowsOf s1" ver mode "vnow io"]
      by (auto simp: PromoteVersion_def Let_def LoadVersions_Inr split: sum.splits)
  qed
qed

theorem reachable_index_wf_witness:
  "\<exists>st'. (versionStep ''web'')\<^sup>*\<^sup>* (demoApp\<lparr>index := IndexAbsent\<rparr>) st' \<and> wfIndex (rowsOf st')"
proof -
  let ?st = "demoApp\<lparr>index := IndexAbsent\<rparr>"
  have "versionStep ''web'' ?st (snd (PromoteVersion quietVio ''web'' 1 ''x'' ?st))"
    by (rule versionStep.promote)
  then have "(versionStep ''web'')\<^sup>*\<^sup>* ?st (snd (PromoteVersion quietVio ''web'' 1 ''x'' ?st))"
    by (rule r_into_rtranclp)
  moreover from reachable_index_wf [OF this]
  have "wfIndex (rowsOf (snd (PromoteVersion quietVio ''web'' 1 ''x'' ?st)))" by simp
  ultimately show ?thesis by blast
qed

section \<open>Lookups\<close>

lemma bestGood_spec:
  "bestGood usable best vs \<ge> best \<and>
   (\<forall>v\<in>set vs. DeployedAt v \<noteq> None \<and> usable (Version v) \<longrightarrow> Version v \<le> bestGood usable best vs) \<and>
   (bestGood usable best vs = best \<or>
    (\<exists>v\<in>set vs. bestGood usable best vs = Version v \<and> DeployedAt v \<noteq> None \<and> usable (Version v)))"
proof (induction vs arbitrary: best)
  case (Cons a vs)
  show ?case
    using Cons.IH [of "if Version a > best \<and> DeployedAt a \<noteq> None \<and> usable (Version a) then Version a else best"]
    by (auto split: if_splits)
qed simp

text \<open>
  C35: Automatic rollback restores a version that can be restored: \<open>LastKnownGoodVersion\<close> answers with
  the highest version that was promoted and whose binary and environment are readable, and fails
  with ROLLBACK_TARGET_NOT_FOUND exactly when there is none.
\<close>

theorem LastKnownGood_is_newest_promoted:
  assumes "LoadVersions io name st = Inr vs" and "wfIndex vs"
  shows "case LastKnownGoodVersion io name st of
      Inr ver \<Rightarrow> isOk (VersionPaths io name ver st) \<and>
        (\<exists>v\<in>set vs. Version v = ver \<and> DeployedAt v \<noteq> None) \<and>
        (\<forall>v\<in>set vs. DeployedAt v \<noteq> None \<and> isOk (VersionPaths io name (Version v) st) \<longrightarrow> Version v \<le> ver)
    | Inl e \<Rightarrow> e = CodeRollbackTargetNotFound \<and>
        (\<forall>v\<in>set vs. DeployedAt v \<noteq> None \<longrightarrow> \<not> isOk (VersionPaths io name (Version v) st))"
proof -
  let ?b = "bestGood (\<lambda>ver. isOk (VersionPaths io name ver st)) 0 vs"
  note spec = bestGood_spec [of 0 "\<lambda>ver. isOk (VersionPaths io name ver st)" vs]
  have "\<forall>v\<in>set vs. Version v \<ge> 1" using assms(2) by (simp add: wfIndex_def)
  then show ?thesis using spec assms(1)
    by (cases "?b = 0") (force simp: LastKnownGoodVersion_def Let_def)+
qed

theorem LastKnownGood_is_newest_promoted_witness:
  "\<exists>ver. LastKnownGoodVersion quietVio ''web'' demoApp = Inr ver \<and> ver \<noteq> currentOf (rowsOf demoApp)"
proof -
  have paths: "isOk (VersionPaths quietVio ''web'' 4 demoApp)"
    by (simp add: VersionPaths_def demoApp_load)
      (simp add: versionExists_def rowsOf_def demoApp_def demoRow_def newRow_def)
  have row: "demoRow 4 False \<in> set (rowsOf demoApp)" "Version (demoRow 4 False) = 4"
    "DeployedAt (demoRow 4 False) \<noteq> None"
    by (simp_all add: rowsOf_def demoApp_def demoRow_def newRow_def)
  have cur: "currentOf (rowsOf demoApp) = 2"
    by (simp add: rowsOf_def demoApp_def demoRow_def newRow_def currentOf_def)
  from LastKnownGood_is_newest_promoted [OF demoApp_load demoApp_wf] paths row cur
  show ?thesis by (fastforce split: sum.splits)
qed

lemma versionExists_iff: "versionExists vs ver \<longleftrightarrow> ver \<in> Version ` set vs"
  unfolding versionExists_def list_ex_iff by force

text \<open>
  Version arguments resolve unambiguously. A decimal version number, with or without the letter v,
  resolves to that version exactly when it is in the index; any other text resolves only if exactly
  one row carries it as its tag, and then to that row.
\<close>

theorem ResolveVersionOrTag_spec:
  assumes "LoadVersions io name st = Inr vs" and "trimSpace s = s" and "s \<noteq> ''''"
  shows "(\<forall>n. 1 \<le> n \<and> n < 2 ^ 63 \<and> s \<in> {utoa n, CHR ''v'' # utoa n} \<longrightarrow>
            ResolveVersionOrTag io name s st =
              (if int n \<in> Version ` set vs then Inr (int n) else Inl CodeVersionNotFound)) \<and>
         (\<forall>ver. \<not> isOk (ParseVersionArg s) \<longrightarrow>
            (ResolveVersionOrTag io name s st = Inr ver \<longleftrightarrow>
             (\<exists>v. filter (\<lambda>v. vTag v = s) vs = [v] \<and> ver = Version v)))"
proof (intro conjI allI impI)
  fix n assume n: "1 \<le> n \<and> n < 2 ^ 63 \<and> s \<in> {utoa n, CHR ''v'' # utoa n}"
  have dig: "\<And>c. c \<in> set (utoa n) \<Longrightarrow> isDigit c" using utoa_isDigit [of n] by (simp add: list_all_iff)
  obtain c cs where u: "utoa n = c # cs" using utoa_nonempty [of n] by (cases "utoa n") auto
  then have c: "c \<noteq> CHR ''v''" "c \<noteq> CHR ''V''" using dig [of c] isDigit_plain [of c] by auto
  have tp: "trimPrefix ''V'' (trimPrefix ''v'' s) = utoa n"
    using n u c by (auto simp: trimPrefix_def hasPrefix_def)
  then have "ParseVersionArg s = Inr (int n)"
    using n by (simp add: ParseVersionArg_def assms(2) atoi_utoa)
  then show "ResolveVersionOrTag io name s st =
              (if int n \<in> Version ` set vs then Inr (int n) else Inl CodeVersionNotFound)"
    using assms(1-3) by (auto simp: ResolveVersionOrTag_def Let_def versionExists_iff)
next
  fix ver assume "\<not> isOk (ParseVersionArg s)"
  then obtain e where "ParseVersionArg s = Inl e" by (cases "ParseVersionArg s") auto
  then show "ResolveVersionOrTag io name s st = Inr ver \<longleftrightarrow>
             (\<exists>v. filter (\<lambda>v. vTag v = s) vs = [v] \<and> ver = Version v)"
    using assms by (auto simp: ResolveVersionOrTag_def Let_def split: list.splits)
qed

theorem ResolveVersionOrTag_spec_witness:
  "ResolveVersionOrTag quietVio ''web'' ''v3'' demoApp = Inr 3"
proof -
  have s: "trimSpace ''v3'' = ''v3''" "utoa 3 = ''3''" by code_simp+
  have "3 \<in> Version ` set (rowsOf demoApp)"
    by (simp add: rowsOf_def demoApp_def demoRow_def newRow_def)
  with conjunct1 [OF ResolveVersionOrTag_spec [OF demoApp_load s(1)], rule_format, of 3] s(2)
  show ?thesis by simp
qed

section \<open>Where the code and its comments disagree\<close>

text \<open>
  The comment of \<open>LastKnownGoodVersion\<close> says that the version marked current wins when it was
  promoted and its binary exists; after a rollback from version 4 to version 2 the code answers 4.
\<close>

lemma LastKnownGood_ignores_current:
  "\<exists>st :: unit appStore. wfIndex (rowsOf st) \<and> currentOf (rowsOf st) = 2 \<and>
     isOk (VersionPaths quietVio ''web'' 2 st) \<and>
     (\<exists>v\<in>set (rowsOf st). Version v = 2 \<and> DeployedAt v \<noteq> None) \<and>
     LastKnownGoodVersion quietVio ''web'' st = Inr 4"
proof (intro exI [of _ demoApp] conjI)
  have vp: "isOk (VersionPaths quietVio ''web'' n demoApp) \<longleftrightarrow> n \<in> {1, 2, 3, 4}" for n
    by (auto simp: VersionPaths_def demoApp_load)
      (auto simp: versionExists_def rowsOf_def demoApp_def demoRow_def newRow_def)
  then show "isOk (VersionPaths quietVio ''web'' 2 demoApp)" by simp
  show "LastKnownGoodVersion quietVio ''web'' demoApp = Inr 4"
    by (simp add: LastKnownGoodVersion_def demoApp_load vp)
      (simp add: rowsOf_def demoApp_def demoRow_def newRow_def Let_def)
qed (simp_all add: demoApp_wf, simp_all add: rowsOf_def demoApp_def demoRow_def newRow_def currentOf_def)

text \<open>
  A build can be pruned by the very call that records it: with one retained version and version 1
  current, recording a Docker build reports version 2, and the index does not contain it.
\<close>

lemma RecordDockerBuild_prunes_itself:
  "\<exists>(st :: unit appStore) res st'. wfIndex (rowsOf st) \<and>
     RecordDockerBuild quietVio ''web'' ''img'' '''' '''' (Some (DefaultRetention 1)) st = (Inr res, st') \<and>
     resVersion res = 2 \<and> \<not> versionExists (rowsOf st') 2 \<and> NextVersion quietVio ''web'' st' = Inr 2"
proof -
  let ?st = "demoApp\<lparr>index := IndexOk [demoRow 1 True], deployUse := None\<rparr>"
  let ?res = "\<lparr>resVersion = 2, resBinary = False, resEnv = False\<rparr>"
  have "\<exists>st'. RecordDockerBuild quietVio ''web'' ''img'' '''' '''' (Some (DefaultRetention 1)) ?st = (Inr ?res, st')
      \<and> rowsOf st' = [demoRow 1 True] \<and> index st' = IndexOk [demoRow 1 True]"
    by (simp add: RecordDockerBuild_def NextVersion_def LoadVersions_def demoApp_name commitRow_def
        saveVersions_def PruneVersions_def policyOf_def currentOf_def deploymentProtectedVersions_def
        demoRow_def newRow_def Let_def removeVersionArtifacts_def)
  then show ?thesis by (auto simp: NextVersion_def LoadVersions_def demoApp_name versionExists_def
        wfIndex_def demoRow_def newRow_def intro!: exI [of _ ?st])
qed

end
