(* ===== verification/Topo.thy ===== *)
theory Topo
  imports Errors "HOL-Library.Multiset"
begin

text \<open>
  Workspace dependency order (\<open>internal/workspace/graph.go\<close>).  The dependency map is given by the
  list of its entries in whatever order Go iterates over them.  The level loop carries fuel;
  \<open>None\<close> would mean that it ran out, which the lemmas below exclude for distinct names.
\<close>

section \<open>The program\<close>

type_synonym depGraph = "(string \<Rightarrow> int) \<times> (string \<Rightarrow> string list)"

fun addDeps :: "string set \<Rightarrow> string \<Rightarrow> string list \<Rightarrow> depGraph \<Rightarrow> (code, depGraph) result" where
  "addDeps known name [] g = Inr g"
| "addDeps known name (dep # ds) g =
     (if dep \<notin> known then Inl CodeValidation
      else addDeps known name ds
             ((fst g)(name := fst g name + 1), (snd g)(dep := snd g dep @ [name])))"

fun addEntries :: "string set \<Rightarrow> (string \<times> string list) list \<Rightarrow> depGraph \<Rightarrow> (code, depGraph) result" where
  "addEntries known [] g = Inr g"
| "addEntries known ((name, ds) # es) g =
     (if name \<notin> known then addEntries known es g
      else rbind (addDeps known name ds g) (addEntries known es))"

text \<open>The two inner loops of one level: the dependents of one name, and the names of the level.\<close>

fun relax :: "string list \<Rightarrow> (string \<Rightarrow> int) \<times> string list \<Rightarrow> (string \<Rightarrow> int) \<times> string list" where
  "relax [] s = s"
| "relax (t # ts) (ind, nxt) =
     (let ind' = ind(t := ind t - 1) in relax ts (ind', if ind' t = 0 then nxt @ [t] else nxt))"

fun relaxLevel ::
    "(string \<Rightarrow> string list) \<Rightarrow> string list \<Rightarrow> (string \<Rightarrow> int) \<times> string list
       \<Rightarrow> (string \<Rightarrow> int) \<times> string list" where
  "relaxLevel dts [] s = s"
| "relaxLevel dts (n # ns) s = relaxLevel dts ns (relax (dts n) s)"

fun levelsLoop ::
    "nat \<Rightarrow> (string \<Rightarrow> string list) \<Rightarrow> (string \<Rightarrow> int) \<Rightarrow> string list \<Rightarrow> (string list list \<times> nat) option" where
  "levelsLoop fuel dts ind [] = Some ([], 0)"
| "levelsLoop 0 dts ind (r # rs) = None"
| "levelsLoop (Suc fuel) dts ind (r # rs) =
     (let (ind', nxt) = relaxLevel dts (r # rs) (ind, []) in
      case levelsLoop fuel dts ind' (sort nxt) of
        None \<Rightarrow> None
      | Some (levels, placed) \<Rightarrow> Some ((r # rs) # levels, length (r # rs) + placed))"

definition TopoLevels ::
    "string list \<Rightarrow> (string \<times> string list) list \<Rightarrow> (code, string list list) result option" where
  "TopoLevels names deps =
     (case addEntries (set names) deps (\<lambda>_. 0, \<lambda>_. []) of
        Inl e \<Rightarrow> Some (Inl e)
      | Inr (ind, dts) \<Rightarrow>
          let ready = sort (filter (\<lambda>n. ind n = 0) names) in
          case levelsLoop (length names) dts ind ready of
            None \<Rightarrow> None
          | Some (levels, placed) \<Rightarrow>
              Some (if placed < length names then Inl CodeValidation else Inr levels))"

definition TopoOrder :: "string list \<Rightarrow> (string \<times> string list) list \<Rightarrow> (code, string list) result option" where
  "TopoOrder names deps =
     (case TopoLevels names deps of
        None \<Rightarrow> None
      | Some r \<Rightarrow> Some (rbind r (\<lambda>levels. Inr (concat levels))))"

text \<open>The clash \<open>duplicatePort\<close> reports, as the two names and the port; services are name and port.\<close>

fun duplicatePort :: "(int \<rightharpoonup> string) \<Rightarrow> (string \<times> int) list \<Rightarrow> (string \<times> string \<times> int) option" where
  "duplicatePort owner [] = None"
| "duplicatePort owner ((name, port) # svcs) =
     (if port = 0 then duplicatePort owner svcs
      else case owner port of
        Some prev \<Rightarrow> Some (prev, name, port)
      | None \<Rightarrow> duplicatePort (owner(port \<mapsto> name)) svcs)"

section \<open>The specification\<close>

text \<open>
  \<open>depsOf\<close> is the dependency map itself.  A level is the set of unplaced names all of whose
  dependencies are placed; \<open>specLevels\<close> lists the levels in order, knowing nothing of counters or
  iteration orders.
\<close>

definition depsOf :: "(string \<times> string list) list \<Rightarrow> string \<Rightarrow> string list" where
  "depsOf deps n = (case map_of deps n of None \<Rightarrow> [] | Some ds \<Rightarrow> ds)"

definition readySet :: "string set \<Rightarrow> (string \<Rightarrow> string list) \<Rightarrow> string set \<Rightarrow> string set" where
  "readySet N D P = {n \<in> N. n \<notin> P \<and> set (D n) \<subseteq> P}"

fun specLevels :: "nat \<Rightarrow> string set \<Rightarrow> (string \<Rightarrow> string list) \<Rightarrow> string set \<Rightarrow> string list list" where
  "specLevels 0 N D P = []"
| "specLevels (Suc k) N D P =
     (if readySet N D P = {} then []
      else sorted_list_of_set (readySet N D P) # specLevels k N D (P \<union> readySet N D P))"

definition closed :: "string set \<Rightarrow> (string \<Rightarrow> string list) \<Rightarrow> bool" where
  "closed N D \<longleftrightarrow> (\<forall>n\<in>N. set (D n) \<subseteq> N)"

definition depRel :: "string set \<Rightarrow> (string \<Rightarrow> string list) \<Rightarrow> (string \<times> string) set" where
  "depRel N D = {(d, n). n \<in> N \<and> d \<in> set (D n)}"

section \<open>The graph the first loops build\<close>

lemma addDeps_Inr:
  assumes "addDeps known name ds g = Inr g'"
  shows "set ds \<subseteq> known" and "fst g' n = fst g n + (if n = name then int (length ds) else 0)"
    and "count_list (snd g' d) n = count_list (snd g d) n + (if n = name then count_list ds d else 0)"
  using assms by (induction ds arbitrary: g) (auto simp: split: if_splits)

lemma addDeps_Inl: "addDeps known name ds g = Inl e \<Longrightarrow> e = CodeValidation \<and> \<not> set ds \<subseteq> known"
  by (induction ds arbitrary: g) (auto split: if_splits)

lemma depsOf_Cons: "depsOf ((k, ds) # es) n = (if n = k then ds else depsOf es n)"
  by (simp add: depsOf_def)

lemma depsOf_new: "k \<notin> fst ` set es \<Longrightarrow> depsOf es k = []"
  by (simp add: depsOf_def map_of_eq_None_iff [THEN iffD2])

lemma addEntries_Inl:
  assumes "addEntries known es g = Inl e" and "distinct (map fst es)"
  shows "e = CodeValidation \<and> \<not> closed known (depsOf es)"
  using assms
proof (induction es arbitrary: g)
  case (Cons x es)
  obtain k ds where x: "x = (k, ds)" by (cases x)
  have new: "depsOf es k = []" using Cons.prems x by (intro depsOf_new) simp
  have mono: "\<not> closed known (depsOf (x # es))" if "\<not> closed known (depsOf es)"
  proof -
    from that obtain n where n: "n \<in> known" "\<not> set (depsOf es n) \<subseteq> known" by (auto simp: closed_def)
    with new have "n \<noteq> k" by auto
    with n show ?thesis by (auto simp: closed_def x depsOf_Cons)
  qed
  from Cons show ?case
    using mono addDeps_Inl [of known k ds g e]
    by (auto simp: x rbind_eq_Inl closed_def depsOf_Cons split: if_splits)
qed simp

lemma addEntries_Inr:
  assumes "addEntries known es g = Inr g'" and "distinct (map fst es)"
  shows "n \<in> known \<Longrightarrow> set (depsOf es n) \<subseteq> known"
    and "n \<in> known \<Longrightarrow> fst g' n = fst g n + int (length (depsOf es n))"
    and "count_list (snd g' d) n = count_list (snd g d) n + (if n \<in> known then count_list (depsOf es n) d else 0)"
  using assms
proof (induction es arbitrary: g)
  case Nil
  { case 1 then show ?case by (simp add: depsOf_def) }
  { case 2 then show ?case by (simp add: depsOf_def) }
  { case 3 then show ?case by (simp add: depsOf_def) }
next
  case (Cons x es)
  obtain k ds where x: "x = (k, ds)" by (cases x)
  have new: "depsOf es k = []" if "distinct (map fst (x # es))"
    using that x by (intro depsOf_new) simp
  { case 1
    show ?case
    proof (cases "k \<in> known")
      case True
      with 1 obtain g1 where g1: "addDeps known k ds g = Inr g1" "addEntries known es g1 = Inr g'"
        by (auto simp: x rbind_eq_Inr)
      with Cons.IH(1) [of g1] 1 addDeps_Inr(1) [OF g1(1)] show ?thesis
        by (cases "n = k") (simp_all add: x depsOf_Cons)
    next
      case False
      with Cons.IH(1) [of g] 1 show ?thesis by (cases "n = k") (simp_all add: x depsOf_Cons)
    qed }
  { case 2
    show ?case
    proof (cases "k \<in> known")
      case True
      with 2 obtain g1 where g1: "addDeps known k ds g = Inr g1" "addEntries known es g1 = Inr g'"
        by (auto simp: x rbind_eq_Inr)
      with Cons.IH(2) [of g1] 2 new addDeps_Inr(2) [OF g1(1), of n] show ?thesis
        by (auto simp: x depsOf_Cons)
    next
      case False
      with Cons.IH(2) [of g] 2 show ?thesis by (auto simp: x depsOf_Cons)
    qed }
  { case 3
    show ?case
    proof (cases "k \<in> known")
      case True
      with 3 obtain g1 where g1: "addDeps known k ds g = Inr g1" "addEntries known es g1 = Inr g'"
        by (auto simp: x rbind_eq_Inr)
      with Cons.IH(3) [of g1] 3 new addDeps_Inr(3) [OF g1(1), of d n] True show ?thesis
        by (auto simp: x depsOf_Cons)
    next
      case False
      with Cons.IH(3) [of g] 3 show ?thesis by (auto simp: x depsOf_Cons)
    qed }
qed

section \<open>One level\<close>

lemma relax_append: "relax (xs @ ys) s = relax ys (relax xs s)"
  by (induction xs s rule: relax.induct) (simp_all add: Let_def)

lemma relaxLevel_relax: "relaxLevel dts ns s = relax (concat (map dts ns)) s"
  by (induction dts ns s rule: relaxLevel.induct) (simp_all add: relax_append)

lemma relax_ind: "fst (relax ts (ind, nxt)) n = ind n - int (count_list ts n)"
  by (induction ts arbitrary: ind nxt) (auto simp: Let_def)

lemma relax_next:
  assumes "distinct nxt" and "\<And>n. n \<in> set nxt \<Longrightarrow> ind n \<le> 0"
  shows "distinct (snd (relax ts (ind, nxt))) \<and>
         set (snd (relax ts (ind, nxt))) = set nxt \<union> {n. 0 < ind n \<and> ind n \<le> int (count_list ts n)}"
  using assms
proof (induction ts arbitrary: ind nxt)
  case (Cons t ts)
  let ?ind = "ind(t := ind t - 1)" and ?nxt = "if ind t - 1 = 0 then nxt @ [t] else nxt"
  have dn: "distinct ?nxt" using Cons.prems(1) Cons.prems(2) [of t] by auto
  have le: "?ind n \<le> 0" if "n \<in> set ?nxt" for n
    using that Cons.prems(2) [of n] by (auto split: if_splits)
  have IH: "distinct (snd (relax ts (?ind, ?nxt)))"
    "set (snd (relax ts (?ind, ?nxt))) = set ?nxt \<union> {n. 0 < ?ind n \<and> ?ind n \<le> int (count_list ts n)}"
    using Cons.IH [of ?nxt ?ind, OF dn le] by blast+
  have "set ?nxt \<union> {n. 0 < ?ind n \<and> ?ind n \<le> int (count_list ts n)} =
        set nxt \<union> {n. 0 < ind n \<and> ind n \<le> int (count_list (t # ts) n)}"
    by (auto split: if_splits)
  with IH show ?case by (simp add: Let_def)
qed auto

lemma count_list_concat_map: "count_list (concat (map f xs)) n = sum_list (map (\<lambda>x. count_list (f x) n) xs)"
  by (induction xs) (auto simp: count_list_append)

lemma sum_count_list:
  "distinct ls \<Longrightarrow> sum_list (map (\<lambda>d. count_list ds d) ls) = length (filter (\<lambda>d. d \<in> set ls) ds)"
proof (induction ds)
  case (Cons x ds)
  have "sum_list (map (\<lambda>d. count_list (x # ds) d) ls) =
        sum_list (map (\<lambda>d. count_list ds d) ls) + length (filter (\<lambda>d. d = x) ls)"
    by (induction ls) auto
  moreover have "length (filter (\<lambda>d. d = x) ls) = (if x \<in> set ls then 1 else 0)"
    using Cons.prems by (induction ls) (auto simp: filter_empty_conv)
  ultimately show ?case using Cons by auto
qed simp

text \<open>
  The invariant of the level loop: \<open>P\<close> is what earlier levels placed, a counter is the number
  of a name's dependencies outside \<open>P\<close>, and \<open>ready\<close> lists the level in order.
\<close>

definition loopInv ::
    "string set \<Rightarrow> (string \<Rightarrow> string list) \<Rightarrow> (string \<Rightarrow> string list) \<Rightarrow> string set \<Rightarrow> (string \<Rightarrow> int)
       \<Rightarrow> string list \<Rightarrow> bool" where
  "loopInv N D dts P ind ready \<longleftrightarrow>
     finite N \<and> P \<subseteq> N \<and> closed N D \<and>
     (\<forall>n\<in>P. set (D n) \<subseteq> P) \<and>
     (\<forall>n\<in>N. ind n = int (length (filter (\<lambda>d. d \<notin> P) (D n)))) \<and>
     (\<forall>n. n \<notin> N \<longrightarrow> ind n = 0) \<and>
     (\<forall>d n. count_list (dts d) n = (if n \<in> N then count_list (D n) d else 0)) \<and>
     ready = sorted_list_of_set (readySet N D P)"

lemma loopInv_step:
  assumes inv: "loopInv N D dts P ind ready" and run: "relaxLevel dts ready (ind, []) = (ind', nxt)"
  shows "loopInv N D dts (P \<union> readySet N D P) ind' (sort nxt)"
proof -
  let ?R = "readySet N D P"
  have indN: "ind n = int (length (filter (\<lambda>d. d \<notin> P) (D n)))" if "n \<in> N" for n
    using inv that unfolding loopInv_def by blast
  have fin: "finite ?R" using inv by (simp add: loopInv_def readySet_def)
  have dist: "distinct ready" and set_ready: "set ready = ?R"
    using inv fin by (simp_all add: loopInv_def)
  have T: "int (count_list (concat (map dts ready)) n) =
      (if n \<in> N then int (length (filter (\<lambda>d. d \<in> ?R) (D n))) else 0)" for n
    using inv sum_count_list [OF dist, of "D n"]
    by (simp add: count_list_concat_map loopInv_def flip: set_ready)
  have split: "length (filter (\<lambda>d. d \<notin> P) ds) =
      length (filter (\<lambda>d. d \<in> ?R) ds) + length (filter (\<lambda>d. d \<notin> P \<union> ?R) ds)" for ds
    by (induction ds) (auto simp: readySet_def)
  have ind': "ind' n = ind n - int (count_list (concat (map dts ready)) n)" for n
    using relax_ind [of "concat (map dts ready)" ind "[]" n] run by (simp add: relaxLevel_relax)
  have cnt: "ind' n = int (length (filter (\<lambda>d. d \<notin> P \<union> ?R) (D n)))" if "n \<in> N" for n
    using split [of "D n"] T [of n] ind' [of n] indN [OF that] unfolding if_P [OF that] by linarith
  have nxt: "distinct nxt" "set nxt = {n. 0 < ind n \<and> ind n \<le> int (count_list (concat (map dts ready)) n)}"
    using relax_next [of "[]" ind "concat (map dts ready)"] run by (simp_all add: relaxLevel_relax)
  have ind_pos: "0 < ind n \<longleftrightarrow> \<not> set (D n) \<subseteq> P" if "n \<in> N" for n
    using indN [OF that] by (auto simp: filter_empty_conv)
  have zero: "ind n \<le> int (count_list (concat (map dts ready)) n) \<longleftrightarrow> set (D n) \<subseteq> P \<union> ?R" if "n \<in> N" for n
  proof -
    have "ind' n = 0 \<longleftrightarrow> set (D n) \<subseteq> P \<union> ?R" using cnt [OF that] by (auto simp: filter_empty_conv)
    moreover have "ind' n \<ge> 0" using cnt [OF that] by simp
    ultimately show ?thesis using ind' [of n] by linarith
  qed
  have "set nxt = readySet N D (P \<union> ?R)"
  proof (rule set_eqI)
    fix n
    show "n \<in> set nxt \<longleftrightarrow> n \<in> readySet N D (P \<union> ?R)"
    proof (cases "n \<in> N")
      case True
      then show ?thesis using inv ind_pos zero by (auto simp: nxt readySet_def loopInv_def)
    next
      case False
      then show ?thesis using inv by (auto simp: nxt readySet_def loopInv_def)
    qed
  qed
  then have "sort nxt = sorted_list_of_set (readySet N D (P \<union> ?R))"
    using nxt(1) by (metis sorted_list_of_set_sort_remdups distinct_remdups_id)
  moreover have "ind' n = 0" if "n \<notin> N" for n using that inv T [of n] by (simp add: ind' loopInv_def)
  ultimately show ?thesis
    using inv cnt by (auto simp: loopInv_def readySet_def)
qed

section \<open>The loop computes the specified levels\<close>

lemma readySet_sub: "readySet N D P \<subseteq> N" "readySet N D P \<inter> P = {}"
  by (auto simp: readySet_def)

lemma readySet_finite: "finite N \<Longrightarrow> finite (readySet N D P)"
  by (rule finite_subset [OF readySet_sub(1)])

lemma levelsLoop_spec:
  assumes "loopInv N D dts P ind ready" and "card (N - P) \<le> fuel"
  shows "levelsLoop fuel dts ind ready =
    Some (specLevels fuel N D P, length (concat (specLevels fuel N D P)))"
  using assms
proof (induction fuel arbitrary: P ind ready)
  case 0
  then have "N - P = {}" by (auto simp: loopInv_def)
  then have "readySet N D P = {}" by (auto simp: readySet_def)
  with 0 show ?case by (simp add: loopInv_def)
next
  case (Suc fuel)
  have fin: "finite N" and ready: "ready = sorted_list_of_set (readySet N D P)"
    using Suc.prems by (simp_all add: loopInv_def)
  show ?case
  proof (cases "readySet N D P = {}")
    case True
    then show ?thesis by (simp add: ready)
  next
    case False
    have finR: "finite (readySet N D P)" using fin by (rule readySet_finite)
    from finR False have "sorted_list_of_set (readySet N D P) \<noteq> []" by simp
    then obtain r rs where rs: "ready = r # rs" unfolding ready by (meson neq_Nil_conv)
    obtain ind' nxt where run: "relaxLevel dts ready (ind, []) = (ind', nxt)" by (cases "relaxLevel dts ready (ind, [])")
    note inv' = loopInv_step [OF Suc.prems(1) run]
    have "N - (P \<union> readySet N D P) \<subset> N - P" using False readySet_sub [of N D P] by auto
    then have "card (N - (P \<union> readySet N D P)) < card (N - P)" using fin by (intro psubset_card_mono) auto
    with Suc.prems(2) have "card (N - (P \<union> readySet N D P)) \<le> fuel" by simp
    from Suc.IH [OF inv' this] run have "levelsLoop (Suc fuel) dts ind (r # rs) =
      Some ((r # rs) # specLevels fuel N D (P \<union> readySet N D P),
            length (concat ((r # rs) # specLevels fuel N D (P \<union> readySet N D P))))"
      unfolding rs by simp
    with False ready rs show ?thesis by simp
  qed
qed

lemma specLevels_sets:
  assumes "finite N"
  shows "distinct (concat (specLevels k N D P)) \<and> set (concat (specLevels k N D P)) \<subseteq> N - P"
proof (induction k arbitrary: P)
  case (Suc k)
  have fin: "finite (readySet N D P)" using assms by (rule readySet_finite)
  show ?case
    using Suc.IH [of "P \<union> readySet N D P"] fin readySet_sub [of N D P] by auto
qed simp

lemma specLevels_order:
  assumes "finite N" and "xs @ l # ys = specLevels k N D P" and "n \<in> set l"
  shows "set (D n) \<subseteq> P \<union> set (concat xs)"
  using assms(2)
proof (induction k arbitrary: P xs)
  case (Suc k)
  have fin: "finite (readySet N D P)" using assms(1) by (rule readySet_finite)
  with Suc.prems have ne: "readySet N D P \<noteq> {}" by (auto split: if_splits)
  show ?case
  proof (cases xs)
    case Nil
    with Suc.prems ne have "l = sorted_list_of_set (readySet N D P)" by simp
    with fin assms(3) have "n \<in> readySet N D P" by simp
    then show ?thesis by (auto simp: readySet_def)
  next
    case (Cons x xs')
    with Suc.prems ne have x: "x = sorted_list_of_set (readySet N D P)"
      and rest: "xs' @ l # ys = specLevels k N D (P \<union> readySet N D P)" by auto
    from Suc.IH [OF rest] x fin Cons show ?thesis by auto
  qed
qed simp

lemma specLevels_complete:
  assumes "finite N" and "card (N - P) \<le> k" and "P \<subseteq> N"
    and acyc: "acyclic (depRel N D)" and cl: "closed N D"
  shows "set (concat (specLevels k N D P)) = N - P"
  using assms(2,3)
proof (induction k arbitrary: P)
  case 0
  then have "N - P = {}" using assms(1) by simp
  then show ?case by auto
next
  case (Suc k)
  have fin: "finite (readySet N D P)" using assms(1) by (rule readySet_finite)
  show ?case
  proof (cases "N - P = {}")
    case True
    then have "readySet N D P = {}" by (auto simp: readySet_def)
    with True show ?thesis by auto
  next
    case False
    have "wf (depRel N D)"
    proof (rule finite_acyclic_wf)
      have "depRel N D \<subseteq> (\<Union>n\<in>N. (\<lambda>d. (d, n)) ` set (D n))" by (auto simp: depRel_def)
      then show "finite (depRel N D)" by (rule finite_subset) (use assms(1) in auto)
    qed (rule acyc)
    then obtain n where n: "n \<in> N - P" and least: "\<And>d. (d, n) \<in> depRel N D \<Longrightarrow> d \<notin> N - P"
      using False by (metis wf_eq_minimal all_not_in_conv)
    have "set (D n) \<subseteq> P" using n least cl by (auto simp: depRel_def closed_def)
    with n have ne: "readySet N D P \<noteq> {}" by (auto simp: readySet_def)
    have "N - (P \<union> readySet N D P) \<subset> N - P" using ne readySet_sub [of N D P] by auto
    then have "card (N - (P \<union> readySet N D P)) < card (N - P)"
      using assms(1) by (intro psubset_card_mono) auto
    with Suc.prems(1) have "card (N - (P \<union> readySet N D P)) \<le> k" by simp
    from Suc.IH [OF this] ne fin Suc.prems(2) readySet_sub [of N D P] show ?thesis by auto
  qed
qed

lemma specLevels_acyclic:
  assumes "finite N" and "set (concat (specLevels k N D {})) = N"
  shows "acyclic (depRel N D)"
proof -
  let ?L = "specLevels k N D {}"
  define rank where "rank n = (LEAST i. i < length ?L \<and> n \<in> set (?L ! i))" for n
  have ex: "\<exists>i. i < length ?L \<and> n \<in> set (?L ! i)" if "n \<in> N" for n
  proof -
    from that assms(2) obtain l where "l \<in> set ?L" "n \<in> set l" by auto
    then show ?thesis by (metis in_set_conv_nth)
  qed
  have "(d, n) \<in> measure rank" if "(d, n) \<in> depRel N D" for d n
  proof -
    from that have n: "n \<in> N" and d: "d \<in> set (D n)" by (auto simp: depRel_def)
    from LeastI_ex [OF ex [OF n]] have i: "rank n < length ?L" "n \<in> set (?L ! rank n)"
      by (simp_all add: rank_def)
    have "take (rank n) ?L @ ?L ! rank n # drop (Suc (rank n)) ?L = ?L"
      using i(1) by (simp add: id_take_nth_drop [symmetric])
    from specLevels_order [OF assms(1) this i(2)] d have "d \<in> set (concat (take (rank n) ?L))" by auto
    then obtain l where "l \<in> set (take (rank n) ?L)" "d \<in> set l" by auto
    then obtain j where "j < length (take (rank n) ?L)" "take (rank n) ?L ! j = l"
      by (auto simp: in_set_conv_nth)
    with i(1) \<open>d \<in> set l\<close> have j: "j < rank n" "d \<in> set (?L ! j)" "j < length ?L" by auto
    then have "rank d \<le> j" unfolding rank_def by (intro Least_le) auto
    with j(1) show ?thesis by simp
  qed
  then have "depRel N D \<subseteq> measure rank" by auto
  then show ?thesis by (rule acyclic_subset [OF wf_acyclic [OF wf_measure]])
qed

lemma TopoLevels_result:
  assumes "distinct names" and "distinct (map fst deps)"
  shows "TopoLevels names deps =
    Some (if closed (set names) (depsOf deps) \<and> acyclic (depRel (set names) (depsOf deps))
          then Inr (specLevels (length names) (set names) (depsOf deps) {}) else Inl CodeValidation)"
proof (cases "addEntries (set names) deps (\<lambda>_. 0, \<lambda>_. [])")
  case (Inl e)
  from addEntries_Inl [OF Inl assms(2)] Inl show ?thesis by (auto simp: TopoLevels_def)
next
  case (Inr g)
  obtain ind dts where g: "g = (ind, dts)" by (cases g)
  let ?N = "set names" and ?D = "depsOf deps"
  note built = addEntries_Inr [OF Inr assms(2)]
  have cl: "closed ?N ?D" using built(1) by (auto simp: closed_def)
  have unknown: "ind n = 0" if "n \<notin> ?N" for n
  proof -
    have "fst g' m = fst g m" if "addDeps K k ds g = Inr g'" "m \<noteq> k" for K k ds g g' m
      using addDeps_Inr(2) [OF that(1), of m] that(2) by simp
    then have "fst g' n = fst g n" if "addEntries ?N es g = Inr g'" for es g g'
      using that \<open>n \<notin> ?N\<close> by (induction es arbitrary: g) (auto simp: rbind_eq_Inr split: if_splits, metis fst_conv)
    from this [OF Inr] g show ?thesis by simp
  qed
  have rdy: "sort (filter (\<lambda>n. ind n = 0) names) = sorted_list_of_set (readySet ?N ?D {})"
  proof -
    have "set (filter (\<lambda>n. ind n = 0) names) = readySet ?N ?D {}"
      using built(2) g by (auto simp: readySet_def)
    then show ?thesis using assms(1)
      by (metis distinct_filter distinct_remdups_id sorted_list_of_set_sort_remdups)
  qed
  have inv: "loopInv ?N ?D dts {} ind (sort (filter (\<lambda>n. ind n = 0) names))"
    unfolding loopInv_def rdy using built(2,3) cl unknown g by simp
  let ?L = "specLevels (length names) ?N ?D {}"
  have run: "levelsLoop (length names) dts ind (sort (filter (\<lambda>n. ind n = 0) names)) = Some (?L, length (concat ?L))"
    using levelsLoop_spec [OF inv] assms(1) by (simp add: distinct_card)
  have sets: "distinct (concat ?L)" "set (concat ?L) \<subseteq> ?N"
    using specLevels_sets [of ?N "length names" ?D "{}"] by auto
  have "length (concat ?L) < length names \<longleftrightarrow> set (concat ?L) \<noteq> ?N"
    using sets assms(1) card_subset_eq [of ?N "set (concat ?L)"] card_mono [of ?N "set (concat ?L)"]
    by (metis List.finite_set distinct_card le_neq_implies_less nat_neq_iff)
  also have "\<dots> \<longleftrightarrow> \<not> acyclic (depRel ?N ?D)"
    using specLevels_acyclic [of ?N "length names" ?D] cl assms(1)
      specLevels_complete [of ?N "{}" "length names" ?D]
    by (auto simp: distinct_card)
  finally show ?thesis using Inr g run cl by (simp add: TopoLevels_def Let_def)
qed

section \<open>Properties\<close>



text \<open>
  The order is deterministic. It does not depend on the order in which the service names are
  given nor on the order in which the dependency map is iterated.
\<close>

theorem TopoOrder_deterministic:
  assumes "distinct names" and "distinct (map fst deps)"
    and "mset names' = mset names" and "mset deps' = mset deps"
  shows "TopoOrder names' deps' = TopoOrder names deps \<and> TopoOrder names deps \<noteq> None"
proof -
  have d': "distinct names'" using assms(1,3) by (metis mset_eq_imp_distinct_iff)
  have "mset (map fst deps') = mset (map fst deps)" using assms(4) by simp
  then have k': "distinct (map fst deps')" using assms(2) by (metis mset_eq_imp_distinct_iff)
  have "map_of deps' = map_of deps"
    using assms(2,4) k' by (metis map_of_inject_set set_mset_mset)
  then have D: "depsOf deps' = depsOf deps" by (simp add: depsOf_def fun_eq_iff)
  have N: "set names' = set names" "length names' = length names"
    using assms(3) by (metis set_mset_mset, metis size_mset)
  show ?thesis
    using TopoLevels_result [OF assms(1,2)] TopoLevels_result [OF d' k']
    by (simp add: TopoOrder_def D N)
qed

theorem TopoOrder_deterministic_witness:
  "TopoOrder [''db'', ''web'', ''api''] [(''api'', [''db'']), (''web'', [''api''])] =
   TopoOrder [''web'', ''db'', ''api''] [(''web'', [''api'']), (''api'', [''db''])]"
  using TopoOrder_deterministic [of "[''web'', ''db'', ''api'']" "[(''web'', [''api'']), (''api'', [''db''])]"
      "[''db'', ''web'', ''api'']" "[(''api'', [''db'']), (''web'', [''api''])]"]
  by auto

text \<open>
  The port check is exact: no clash is reported if and only if the explicitly declared (non-zero)
  ports are pairwise different, and a reported clash names two services that both declare the port.
\<close>

theorem duplicatePort_exact:
  "(duplicatePort Map.empty svcs = None \<longleftrightarrow> distinct (filter (\<lambda>p. p \<noteq> 0) (map snd svcs))) \<and>
   set_option (duplicatePort Map.empty svcs) \<subseteq>
     {(a, b, p). p \<noteq> 0 \<and> (a, p) \<in> set svcs \<and> (b, p) \<in> set svcs}"
proof -
  have none: "duplicatePort owner svcs = None \<longleftrightarrow>
      distinct (filter (\<lambda>p. p \<noteq> 0) (map snd svcs)) \<and>
      set (filter (\<lambda>p. p \<noteq> 0) (map snd svcs)) \<inter> dom owner = {}" for owner
  proof (induction svcs arbitrary: owner)
    case (Cons s svcs)
    obtain n p where s: "s = (n, p)" by (cases s)
    show ?case
    proof (cases "p = 0 \<or> owner p \<noteq> None")
      case True
      then show ?thesis using Cons.IH [of owner] by (auto simp: s)
    next
      case False
      then show ?thesis using Cons.IH [of "owner(p \<mapsto> n)"] by (auto simp: s simp del: fun_upd_apply)
    qed
  qed simp
  have some: "p \<noteq> 0 \<and> (owner p = Some a \<or> (a, p) \<in> set svcs) \<and> (b, p) \<in> set svcs"
    if "duplicatePort owner svcs = Some (a, b, p)" for owner a b p
    using that
  proof (induction svcs arbitrary: owner)
    case (Cons s svcs)
    obtain n q where s: "s = (n, q)" by (cases s)
    show ?case
    proof (cases "q = 0 \<or> owner q \<noteq> None")
      case True
      then show ?thesis using Cons.IH [of owner] Cons.prems by (auto simp: s split: if_splits)
    next
      case False
      with Cons.prems have "duplicatePort (owner(q \<mapsto> n)) svcs = Some (a, b, p)" by (simp add: s)
      from Cons.IH [OF this] show ?thesis by (auto simp: s split: if_splits)
    qed
  qed simp
  show ?thesis using none [of Map.empty] some [of Map.empty] by auto
qed

end
