(* ===== verification/LedgerIndex.thy ===== *)
theory LedgerIndex
  imports AtomicFile
begin

text \<open>
  The in-memory shape both durable ledgers of the program share (\<open>internal/webhook/ledger.go\<close> and
  \<open>internal/ops/ledger.go\<close>): a map from keys to records and the keys in insertion order, written
  to disk as the list of records in that order.
\<close>

type_synonym 'v keyIndex = "string list \<times> (string \<rightharpoonup> 'v)"

definition idxInsert :: "string \<Rightarrow> 'v \<Rightarrow> 'v keyIndex \<Rightarrow> 'v keyIndex" where
  "idxInsert k v s = (fst s @ [k], (snd s)(k \<mapsto> v))"

definition idxDelete :: "string \<Rightarrow> 'v keyIndex \<Rightarrow> 'v keyIndex" where
  "idxDelete k s = (remove1 k (fst s), (snd s)(k := None))"

definition idxUpdate :: "string \<Rightarrow> 'v \<Rightarrow> 'v keyIndex \<Rightarrow> 'v keyIndex" where
  "idxUpdate k v s = (fst s, (snd s)(k \<mapsto> v))"

text \<open>The records as they are written to disk; a key without a record would be a nil pointer.\<close>

definition idxRecords :: "'v keyIndex \<Rightarrow> 'v option list" where
  "idxRecords s = map (snd s) (fst s)"

definition idxInv :: "'v keyIndex \<Rightarrow> bool" where
  "idxInv s \<longleftrightarrow> distinct (fst s) \<and> set (fst s) = dom (snd s)"

lemma idxInv_empty [simp]: "idxInv ([], Map.empty)"
  by (simp add: idxInv_def)

lemma idxInv_insert: "idxInv s \<Longrightarrow> snd s k = None \<Longrightarrow> idxInv (idxInsert k v s)"
  by (auto simp: idxInv_def idxInsert_def dom_def)

lemma idxInv_delete: "idxInv s \<Longrightarrow> idxInv (idxDelete k s)"
  by (auto simp: idxInv_def idxDelete_def)

lemma idxInv_update: "idxInv s \<Longrightarrow> k \<in> set (fst s) \<Longrightarrow> idxInv (idxUpdate k v s)"
  by (auto simp: idxInv_def idxUpdate_def)

lemma idxInv_tl: "idxInv (k # ks, m) \<Longrightarrow> idxInv (ks, m(k := None))"
  by (auto simp: idxInv_def)

lemma idxInv_card: "idxInv s \<Longrightarrow> card (dom (snd s)) = length (fst s)"
  by (metis distinct_card idxInv_def)

lemma idxDelete_insert:
  "idxInv s \<Longrightarrow> snd s k = None \<Longrightarrow> idxDelete k (idxInsert k v s) = s"
  by (cases s) (auto simp: idxInv_def idxDelete_def idxInsert_def dom_def remove1_append fun_upd_idem remove1_idem)

text \<open>
  The contract of a ledger that is loaded back from what it persists: \<open>load\<close> inverts \<open>idxRecords\<close>
  on indexes whose records are well-formed and carry their own key.
\<close>

fun idxLoad :: "('v \<Rightarrow> string) \<Rightarrow> ('v \<Rightarrow> bool) \<Rightarrow> 'v option list \<Rightarrow> 'v keyIndex \<Rightarrow> 'v keyIndex option" where
  "idxLoad key ok [] s = Some s"
| "idxLoad key ok (None # es) s = None"
| "idxLoad key ok (Some e # es) s =
     (if \<not> ok e then None
      else if snd s (key e) \<noteq> None then None
      else idxLoad key ok es (idxInsert (key e) e s))"

text \<open>What a load has inserted when it stops at the first bad record, or at the end.\<close>

fun idxLoaded :: "('v \<Rightarrow> string) \<Rightarrow> ('v \<Rightarrow> bool) \<Rightarrow> 'v option list \<Rightarrow> 'v keyIndex \<Rightarrow> 'v keyIndex" where
  "idxLoaded key ok [] s = s"
| "idxLoaded key ok (None # es) s = s"
| "idxLoaded key ok (Some e # es) s =
     (if \<not> ok e then s
      else if snd s (key e) \<noteq> None then s
      else idxLoaded key ok es (idxInsert (key e) e s))"

lemma idxLoaded_complete: "idxLoad key ok es s = Some s' \<Longrightarrow> idxLoaded key ok es s = s'"
  by (induction key ok es s rule: idxLoad.induct) (auto split: if_splits)

definition idxWf :: "('v \<Rightarrow> string) \<Rightarrow> ('v \<Rightarrow> bool) \<Rightarrow> 'v keyIndex \<Rightarrow> bool" where
  "idxWf key ok s \<longleftrightarrow> idxInv s \<and> (\<forall>k v. snd s k = Some v \<longrightarrow> ok v \<and> key v = k)"

lemma idxLoad_sound:
  "idxLoad key ok es s = Some s' \<Longrightarrow> idxWf key ok s \<Longrightarrow> idxWf key ok s'"
proof (induction key ok es s rule: idxLoad.induct)
  case (3 key ok e es s)
  then have "ok e" "snd s (key e) = None" by (auto split: if_splits)
  moreover have "idxWf key ok (idxInsert (key e) e s)"
    using 3(3) calculation idxInv_insert [of s "key e" e] by (auto simp: idxWf_def idxInsert_def)
  ultimately show ?case using 3 by simp
qed auto

lemma idxLoad_append:
  assumes "distinct (map key vs)" and "\<forall>v\<in>set vs. ok v" and "\<forall>v\<in>set vs. snd s (key v) = None"
  shows "idxLoad key ok (map Some vs) s = Some (fst s @ map key vs, snd s ++ map_of (map (\<lambda>v. (key v, v)) vs))"
  using assms
proof (induction vs arbitrary: s)
  case (Cons v vs)
  have ne: "key w \<noteq> key v" if "w \<in> set vs" for w
    using Cons.prems(1) that by auto (metis imageI)
  have "idxLoad key ok (map Some vs) (idxInsert (key v) v s) =
      Some (fst (idxInsert (key v) v s) @ map key vs,
            snd (idxInsert (key v) v s) ++ map_of (map (\<lambda>v. (key v, v)) vs))"
    using Cons.prems ne by (intro Cons.IH) (simp_all add: idxInsert_def)
  moreover have "(snd s)(key v \<mapsto> v) ++ map_of (map (\<lambda>v. (key v, v)) vs) =
      (snd s ++ map_of (map (\<lambda>v. (key v, v)) vs))(key v \<mapsto> v)"
  proof
    fix k
    have "map_of (map (\<lambda>v. (key v, v)) vs) (key v) = None"
      using Cons.prems(1) by (simp add: map_of_eq_None_iff image_image)
    then show "((snd s)(key v \<mapsto> v) ++ map_of (map (\<lambda>v. (key v, v)) vs)) k =
      ((snd s ++ map_of (map (\<lambda>v. (key v, v)) vs))(key v \<mapsto> v)) k"
      by (simp add: map_add_def split: option.split)
  qed
  moreover have "map_of (map (\<lambda>v. (key v, v)) (v # vs)) = (map_of (map (\<lambda>v. (key v, v)) vs))(key v \<mapsto> v)"
    by simp
  ultimately show ?case using Cons.prems by (simp add: idxInsert_def map_add_upd del: fun_upd_apply)
qed simp

lemma idxLoad_records:
  assumes "idxWf key ok s"
  shows "idxLoad key ok (idxRecords s) ([], Map.empty) = Some s"
proof -
  obtain os m where s: "s = (os, m)" by (cases s)
  have inv: "distinct os" "set os = dom m" and rec: "\<And>k v. m k = Some v \<Longrightarrow> ok v \<and> key v = k"
    using assms by (auto simp: idxWf_def idxInv_def s)
  define vs where "vs = map (\<lambda>k. the (m k)) os"
  have key: "map key vs = os" and ok: "\<forall>v\<in>set vs. ok v"
    using inv(2) rec by (auto simp: vs_def intro!: map_idI)
  have "idxRecords s = map Some vs" using inv(2) by (auto simp: idxRecords_def s vs_def)
  moreover have "map_of (map (\<lambda>v. (key v, v)) vs) = m"
  proof
    fix k
    show "map_of (map (\<lambda>v. (key v, v)) vs) k = m k"
    proof (cases "k \<in> set os")
      case True
      then obtain v where v: "m k = Some v" using inv(2) by auto
      then have "(k, v) \<in> set (map (\<lambda>v. (key v, v)) vs)" using True rec by (force simp: vs_def)
      moreover have "distinct (map fst (map (\<lambda>v. (key v, v)) vs))" using key inv(1) by (simp add: comp_def)
      ultimately show ?thesis using v by (simp add: map_of_distinct_mem)
    next
      case False
      then have "m k = None" using inv(2) by auto
      moreover have "k \<notin> fst ` set (map (\<lambda>v. (key v, v)) vs)" using False key by force
      ultimately show ?thesis by (simp add: map_of_eq_None_iff)
    qed
  qed
  ultimately show ?thesis using idxLoad_append [of key vs ok "([], Map.empty)"] inv(1) key ok s by simp
qed

lemma idxWf_insert:
  "idxWf key ok s \<Longrightarrow> snd s k = None \<Longrightarrow> key v = k \<Longrightarrow> ok v \<Longrightarrow> idxWf key ok (idxInsert k v s)"
  using idxInv_insert [of s k v] by (auto simp: idxWf_def idxInsert_def)

lemma idxWf_delete: "idxWf key ok s \<Longrightarrow> idxWf key ok (idxDelete k s)"
  using idxInv_delete [of s k] by (auto simp: idxWf_def idxDelete_def split: if_splits)

lemma idxWf_weaken: "idxWf key ok s \<Longrightarrow> (\<And>v. ok v \<Longrightarrow> ok' v) \<Longrightarrow> idxWf key ok' s"
  by (auto simp: idxWf_def)

lemma idxWf_update:
  "idxWf key ok s \<Longrightarrow> snd s k \<noteq> None \<Longrightarrow> key v = k \<Longrightarrow> ok v \<Longrightarrow> idxWf key ok (idxUpdate k v s)"
  using idxInv_update [of s k v] by (auto simp: idxWf_def idxUpdate_def idxInv_def)

lemma idxLoad_length: "idxLoad key ok es s = Some s' \<Longrightarrow> length (fst s') = length (fst s) + length es"
  by (induction key ok es s rule: idxLoad.induct) (auto simp: idxInsert_def split: if_splits)

section \<open>Ledgers as interfaces\<close>

text \<open>
  A durable ledger: states that carry an index, and an operation relation that keeps it consistent.
  Everything a history of operations leaves behind is then consistent, bounded as long as each
  operation respects the bound, and survives a reload from disk.
\<close>

locale durable_ledger =
  fixes idx :: "'s \<Rightarrow> 'v keyIndex"
    and step :: "'s \<Rightarrow> 's \<Rightarrow> bool"
    and key :: "'v \<Rightarrow> string"
    and ok :: "'v \<Rightarrow> bool"
    and cap :: "'s \<Rightarrow> nat"
  assumes step_wf: "step s s' \<Longrightarrow> idxWf key ok (idx s) \<Longrightarrow> idxWf key ok (idx s')"
    and step_bound: "step s s' \<Longrightarrow> idxWf key ok (idx s) \<Longrightarrow> length (fst (idx s)) \<le> cap s \<Longrightarrow>
                       length (fst (idx s')) \<le> cap s' \<and> cap s' = cap s"
begin

lemma history_wf:
  assumes "step\<^sup>*\<^sup>* s s'" and "idxWf key ok (idx s)" and "length (fst (idx s)) \<le> cap s"
  shows "idxWf key ok (idx s') \<and> length (fst (idx s')) \<le> cap s \<and> cap s' = cap s"
  using assms(1)
proof (induction rule: rtranclp_induct)
  case base
  then show ?case using assms by simp
next
  case (step s1 s2)
  then show ?case using step_wf [of s1 s2] step_bound [of s1 s2] by auto
qed

lemma history_reload:
  assumes "step\<^sup>*\<^sup>* s s'" and "idxWf key ok (idx s)" and "length (fst (idx s)) \<le> cap s"
  shows "idxLoad key ok (idxRecords (idx s')) ([], Map.empty) = Some (idx s')"
  using history_wf [OF assms] by (simp add: idxLoad_records)

lemma history_card:
  assumes "step\<^sup>*\<^sup>* s s'" and "idxWf key ok (idx s)" and "length (fst (idx s)) \<le> cap s"
  shows "card (dom (snd (idx s'))) \<le> cap s"
  using history_wf [OF assms] idxInv_card [of "idx s'"] by (simp add: idxWf_def)

end

end
