(* ===== verification/Delivery.thy ===== *)
theory Delivery
  imports LedgerIndex
begin

text \<open>
  The webhook delivery ledger (\<open>internal/webhook/ledger.go\<close>): the durable replay protection of the
  webhook endpoint.  A file holds either a decoded ledger or bytes that do not parse; writing one
  is the replacing write of \<open>AtomicFile\<close>.  Every operation runs under the ledger's mutex, so it is
  one atomic function of the ledger and the directory.  The capacity is positive.
\<close>

record deliveryRecord =
  dlKey :: string
  dlApp :: string
  dlDeliveryID :: string
  dlBranch :: string
  dlCommit :: string
  dlProvider :: string
  dlReceivedAt :: int

datatype deliveryFile = DeliveryGarbage | DeliveryData int "deliveryRecord option list"

record deliveryLedger =
  dPath :: string
  dMax :: nat
  dIndex :: "deliveryRecord keyIndex"
  dReady :: bool
  dErr :: "code option"

type_synonym deliveryState = "deliveryLedger \<times> deliveryFile dir"

text \<open>The environment of one call: the write, the process id, the clock and read failures.\<close>

record deliveryEnv =
  deIo :: "deliveryFile io"
  dePid :: nat
  deNow :: int
  deReadErr :: bool

definition DefaultLedgerCapacity :: nat where "DefaultLedgerCapacity = 512"

definition deliveryLedgerVersion :: int where "deliveryLedgerVersion = 1"

definition NewDeliveryLedger :: "string \<Rightarrow> nat \<Rightarrow> deliveryLedger" where
  "NewDeliveryLedger path capacity =
     \<lparr>dPath = path, dMax = capacity, dIndex = ([], Map.empty), dReady = False, dErr = None\<rparr>"

definition deliveryOk :: "deliveryRecord \<Rightarrow> bool" where
  "deliveryOk e \<longleftrightarrow> dlKey e \<noteq> '''' \<and> dlApp e \<noteq> '''' \<and> dlDeliveryID e \<noteq> ''''"

text \<open>The result of a load and the index it leaves behind: a bad entry keeps what was inserted before it.\<close>

definition loadDeliveries ::
    "deliveryEnv \<Rightarrow> deliveryState \<Rightarrow> (code, unit) result \<times> deliveryRecord keyIndex" where
  "loadDeliveries env s =
     (let ix = dIndex (fst s) in
      if deReadErr env then (Inl CodeUnavailable, ix)
      else case snd s (dPath (fst s)) of
        None \<Rightarrow> (Inr (), ix)
      | Some DeliveryGarbage \<Rightarrow> (Inl CodeUnavailable, ix)
      | Some (DeliveryData v es) \<Rightarrow>
          if v \<noteq> deliveryLedgerVersion then (Inl CodeUnavailable, ix)
          else (if idxLoad dlKey deliveryOk es ix = None then Inl CodeUnavailable else Inr (),
                idxLoaded dlKey deliveryOk es ix))"

definition Delivery_Initialize :: "deliveryEnv \<Rightarrow> deliveryState \<Rightarrow> (code, unit) result \<times> deliveryState" where
  "Delivery_Initialize env s =
     (case s of (l, d) \<Rightarrow>
        if dReady l then (Inr (), s)
        else case loadDeliveries env s of
          (Inl e, ix) \<Rightarrow> (Inl e, (l\<lparr>dIndex := ix, dErr := Some e\<rparr>, d))
        | (Inr _, ix) \<Rightarrow> (Inr (), (l\<lparr>dIndex := ix, dReady := True\<rparr>, d)))"

definition deliveryKey :: "string \<Rightarrow> string \<Rightarrow> string" where
  "deliveryKey app i = app @ [CHR 0x00] @ i"

fun evictLoop :: "nat \<Rightarrow> string list \<Rightarrow> (string \<rightharpoonup> 'v) \<Rightarrow> 'v keyIndex" where
  "evictLoop limit [] m = ([], m)"
| "evictLoop limit (k # ks) m =
     (if length (k # ks) > limit then evictLoop limit ks (m(k := None)) else (k # ks, m))"

definition persistDeliveries ::
    "deliveryEnv \<Rightarrow> string \<Rightarrow> deliveryRecord keyIndex \<Rightarrow> deliveryFile dir \<Rightarrow> (deliveryFile, unit) fsop" where
  "persistDeliveries env path ix d =
     (if fails (deIo env) IoMkdir then (Inl CodeUnavailable, d)
      else replaceFile (deIo env) CodeUnavailable (dePid env) path
             (DeliveryData deliveryLedgerVersion (idxRecords ix)) d)"

text \<open>A wrapped ledger error keeps the code of a secret failure, which a ledger never has.\<close>

definition SeenOrRecord ::
    "deliveryEnv \<Rightarrow> string \<Rightarrow> string \<Rightarrow> string \<Rightarrow> string \<Rightarrow> string \<Rightarrow> deliveryState
       \<Rightarrow> (code, bool) result \<times> deliveryState" where
  "SeenOrRecord env app i branch commit provider s =
     (case s of (l, d) \<Rightarrow>
        if \<not> dReady l \<or> dErr l \<noteq> None then (Inl CodeUnavailable, s)
        else
          let key = deliveryKey app i in
          if snd (dIndex l) key \<noteq> None then (Inr True, s)
          else
            let rec = \<lparr>dlKey = key, dlApp = app, dlDeliveryID = i, dlBranch = branch, dlCommit = commit,
                       dlProvider = provider, dlReceivedAt = deNow env\<rparr>;
                ix = idxInsert key rec (dIndex l);
                ix' = evictLoop (dMax l) (fst ix) (snd ix)
            in case persistDeliveries env (dPath l) ix' d of
                 (Inl e, d') \<Rightarrow>
                   (Inl e, (l\<lparr>dIndex := (butlast (fst ix'), (snd ix')(key := None)), dErr := Some e\<rparr>, d'))
               | (Inr _, d') \<Rightarrow> (Inr False, (l\<lparr>dIndex := ix'\<rparr>, d')))"

definition Delivery_Remove ::
    "deliveryEnv \<Rightarrow> string \<Rightarrow> string \<Rightarrow> deliveryState \<Rightarrow> (code, unit) result \<times> deliveryState" where
  "Delivery_Remove env app i s =
     (case s of (l, d) \<Rightarrow>
        if \<not> dReady l \<or> dErr l \<noteq> None then (Inl CodeUnavailable, s)
        else
          let key = deliveryKey app i in
          if snd (dIndex l) key = None then (Inr (), s)
          else
            let ix = idxDelete key (dIndex l) in
            case persistDeliveries env (dPath l) ix d of
              (Inl e, d') \<Rightarrow> (Inl e, (l\<lparr>dIndex := ix, dErr := Some e\<rparr>, d'))
            | (Inr _, d') \<Rightarrow> (Inr (), (l\<lparr>dIndex := ix\<rparr>, d')))"

definition Delivery_Len :: "deliveryLedger \<Rightarrow> nat" where
  "Delivery_Len l = card (dom (snd (dIndex l)))"

record deliveryInfo =
  diApp :: string
  diDeliveryID :: string
  diBranch :: string
  diCommit :: string
  diProvider :: string
  diReceivedAt :: int

definition infoOf :: "deliveryRecord \<Rightarrow> deliveryInfo" where
  "infoOf e = \<lparr>diApp = dlApp e, diDeliveryID = dlDeliveryID e, diBranch = dlBranch e, diCommit = dlCommit e,
               diProvider = dlProvider e, diReceivedAt = dlReceivedAt e\<rparr>"

fun recentLoop :: "string \<Rightarrow> int \<Rightarrow> (string \<rightharpoonup> deliveryRecord) \<Rightarrow> deliveryInfo list \<Rightarrow> string list
    \<Rightarrow> deliveryInfo list" where
  "recentLoop app limit m out [] = out"
| "recentLoop app limit m out (k # ks) =
     (case m k of
        None \<Rightarrow> recentLoop app limit m out ks
      | Some e \<Rightarrow>
          if dlApp e \<noteq> app then recentLoop app limit m out ks
          else
            let out' = out @ [infoOf e] in
            if limit > 0 \<and> int (length out') \<ge> limit then out' else recentLoop app limit m out' ks)"

definition RecentForApp :: "string \<Rightarrow> int \<Rightarrow> deliveryLedger \<Rightarrow> deliveryInfo list" where
  "RecentForApp app limit l = recentLoop app limit (snd (dIndex l)) [] (rev (fst (dIndex l)))"

section \<open>Lemmas\<close>

lemma evictLoop_eq:
  assumes "idxInv (os, m)"
  shows "evictLoop limit os m =
    (drop (length os - limit) os, m |` set (drop (length os - limit) os))"
  using assms
proof (induction limit os m rule: evictLoop.induct)
  case (1 limit m)
  then show ?case by (auto simp: idxInv_def restrict_map_def)
next
  case (2 limit k ks m)
  show ?case
  proof (cases "length (k # ks) > limit")
    case True
    then have len: "Suc (length ks) - limit = Suc (length ks - limit)" by simp
    have "k \<notin> set (drop (length ks - limit) ks)" using 2(2) by (auto simp: idxInv_def dest: in_set_dropD)
    then have "m(k := None) |` set (drop (length ks - limit) ks) = m |` set (drop (length ks - limit) ks)"
      by (auto simp: restrict_map_def)
    with 2(1) [OF True idxInv_tl [OF 2(2)]]
    have "evictLoop limit ks (m(k := None)) =
      (drop (length ks - limit) ks, m |` set (drop (length ks - limit) ks))" by (simp only:)
    with True len show ?thesis by simp
  next
    case False
    have "m |` set (k # ks) = m" using 2(2) by (auto simp: restrict_map_def idxInv_def fun_eq_iff domIff)
    with False show ?thesis by simp
  qed
qed

lemma evictLoop_wf:
  assumes "idxWf key ok (os, m)"
  shows "idxWf key ok (evictLoop limit os m)"
    and "length (fst (evictLoop limit os m)) = min (length os) limit"
proof -
  have inv: "idxInv (os, m)" using assms by (simp add: idxWf_def)
  have "set (drop (length os - limit) os) \<subseteq> dom m" using inv by (auto simp: idxInv_def dest: in_set_dropD)
  then show "idxWf key ok (evictLoop limit os m)"
    using assms by (auto simp: evictLoop_eq [OF inv] idxWf_def idxInv_def restrict_map_def split: if_splits)
  show "length (fst (evictLoop limit os m)) = min (length os) limit"
    by (auto simp: evictLoop_eq [OF inv])
qed

lemma deliveryKey_inject:
  assumes "CHR 0x00 \<notin> set app" and "CHR 0x00 \<notin> set app'"
  shows "deliveryKey app i = deliveryKey app' i' \<longleftrightarrow> app = app' \<and> i = i'"
proof
  assume eq: "deliveryKey app i = deliveryKey app' i'"
  have "takeWhile (\<lambda>c. c \<noteq> CHR 0x00) (deliveryKey a x) = a" if "CHR 0x00 \<notin> set a" for a x
    using that by (simp add: deliveryKey_def takeWhile_append takeWhile_eq_all_conv [THEN iffD2])
  with eq assms have "app = app'" by metis
  with eq show "app = app' \<and> i = i'" by (simp add: deliveryKey_def)
qed simp

definition deliveryWf :: "deliveryLedger \<Rightarrow> bool" where
  "deliveryWf l \<longleftrightarrow> idxWf dlKey (\<lambda>e. dlKey e \<noteq> '''') (dIndex l) \<and> 1 \<le> dMax l"

lemma drop_snoc_last:
  assumes "1 \<le> limit"
  shows "drop (length (xs @ [k]) - limit) (xs @ [k]) = drop (Suc (length xs) - limit) xs @ [k]"
  using assms by simp

text \<open>The index after recording a new key: the newest \<open>dMax\<close> keys, the new one last.\<close>

lemma evict_insert:
  assumes "idxWf key ok ix" and "snd ix k = None" and "key v = k" and "ok v" and "1 \<le> limit"
  defines "ix' \<equiv> evictLoop limit (fst (idxInsert k v ix)) (snd (idxInsert k v ix))"
  shows "idxWf key ok ix'" and "length (fst ix') \<le> limit" and "snd ix' k = Some v"
    and "fst ix' = drop (Suc (length (fst ix)) - limit) (fst ix) @ [k]"
    and "\<And>j. j \<in> set (drop (Suc (length (fst ix)) - limit) (fst ix)) \<Longrightarrow> snd ix' j = snd ix j"
    and "idxWf key ok (butlast (fst ix'), (snd ix')(k := None))"
proof -
  have wf: "idxWf key ok (fst (idxInsert k v ix), snd (idxInsert k v ix))"
    using idxWf_insert [OF assms(1-4)] by simp
  then have inv: "idxInv (fst (idxInsert k v ix), snd (idxInsert k v ix))" by (simp add: idxWf_def)
  show wf': "idxWf key ok ix'" and "length (fst ix') \<le> limit"
    using evictLoop_wf [OF wf, of limit] by (simp_all add: ix'_def)
  show order: "fst ix' = drop (Suc (length (fst ix)) - limit) (fst ix) @ [k]"
    using drop_snoc_last [OF assms(5), of "fst ix" k]
    by (simp add: ix'_def evictLoop_eq [OF inv]) (simp add: idxInsert_def)
  have m: "snd ix' = (snd ix)(k \<mapsto> v) |` set (fst ix')"
    by (simp add: ix'_def evictLoop_eq [OF inv]) (simp add: idxInsert_def)
  show "snd ix' k = Some v" by (simp add: m order)
  show "snd ix' j = snd ix j" if "j \<in> set (drop (Suc (length (fst ix)) - limit) (fst ix))" for j
  proof -
    have "j \<in> dom (snd ix)" using that assms(1) by (auto simp: idxWf_def idxInv_def dest: in_set_dropD)
    then have "j \<noteq> k" using assms(2) by auto
    with that show ?thesis by (simp add: m order)
  qed
  have "butlast (fst ix') = remove1 k (fst ix')"
    using wf' by (simp add: order idxWf_def idxInv_def remove1_append remove1_idem)
  then show "idxWf key ok (butlast (fst ix'), (snd ix')(k := None))"
    using idxWf_delete [OF wf', of k] by (simp add: idxDelete_def)
qed

definition deliveryRec :: "deliveryEnv \<Rightarrow> string \<Rightarrow> string \<Rightarrow> string \<Rightarrow> string \<Rightarrow> string \<Rightarrow> deliveryRecord" where
  "deliveryRec env app i branch commit provider =
     \<lparr>dlKey = deliveryKey app i, dlApp = app, dlDeliveryID = i, dlBranch = branch, dlCommit = commit,
      dlProvider = provider, dlReceivedAt = deNow env\<rparr>"

definition recordIx :: "deliveryLedger \<Rightarrow> deliveryRecord \<Rightarrow> deliveryRecord keyIndex" where
  "recordIx l rec =
     evictLoop (dMax l) (fst (idxInsert (dlKey rec) rec (dIndex l))) (snd (idxInsert (dlKey rec) rec (dIndex l)))"

lemma deliveryRec_key [simp]: "dlKey (deliveryRec env app i br co pr) = deliveryKey app i"
  by (simp add: deliveryRec_def)

lemma deliveryKey_nonempty [simp]: "deliveryKey app i \<noteq> ''''"
  by (simp add: deliveryKey_def)

lemma SeenOrRecord_new:
  assumes "dReady l" and "dErr l = None" and "snd (dIndex l) (deliveryKey app i) = None"
  shows "SeenOrRecord env app i br co pr (l, d) =
    (let ix' = recordIx l (deliveryRec env app i br co pr) in
     case persistDeliveries env (dPath l) ix' d of
       (Inl e, d') \<Rightarrow>
         (Inl e, (l\<lparr>dIndex := (butlast (fst ix'), (snd ix')(deliveryKey app i := None)), dErr := Some e\<rparr>, d'))
     | (Inr _, d') \<Rightarrow> (Inr False, (l\<lparr>dIndex := ix'\<rparr>, d')))"
  using assms by (simp add: SeenOrRecord_def recordIx_def deliveryRec_def Let_def)

lemma SeenOrRecord_old:
  "dReady l \<Longrightarrow> dErr l = None \<Longrightarrow> snd (dIndex l) (deliveryKey app i) \<noteq> None \<Longrightarrow>
   SeenOrRecord env app i br co pr (l, d) = (Inr True, (l, d))"
  by (simp add: SeenOrRecord_def)

lemma SeenOrRecord_refused:
  "\<not> dReady l \<or> dErr l \<noteq> None \<Longrightarrow> SeenOrRecord env app i br co pr (l, d) = (Inl CodeUnavailable, (l, d))"
  by (auto simp: SeenOrRecord_def)

lemma recordIx_props:
  assumes "idxWf dlKey (\<lambda>e. dlKey e \<noteq> '''') (dIndex l)" and "snd (dIndex l) (dlKey rec) = None"
    and "dlKey rec \<noteq> ''''" and "1 \<le> dMax l"
  shows "idxWf dlKey (\<lambda>e. dlKey e \<noteq> '''') (recordIx l rec)" and "length (fst (recordIx l rec)) \<le> dMax l"
    and "snd (recordIx l rec) (dlKey rec) = Some rec"
    and "fst (recordIx l rec) = drop (Suc (length (fst (dIndex l))) - dMax l) (fst (dIndex l)) @ [dlKey rec]"
    and "\<And>j. j \<in> set (drop (Suc (length (fst (dIndex l))) - dMax l) (fst (dIndex l))) \<Longrightarrow>
           snd (recordIx l rec) j = snd (dIndex l) j"
    and "idxWf dlKey (\<lambda>e. dlKey e \<noteq> '''')
           (butlast (fst (recordIx l rec)), (snd (recordIx l rec))(dlKey rec := None))"
  unfolding recordIx_def
  using evict_insert [of dlKey "\<lambda>e. dlKey e \<noteq> ''''" "dIndex l" "dlKey rec" rec "dMax l"] assms by blast+

inductive deliveryStep :: "deliveryState \<Rightarrow> deliveryState \<Rightarrow> bool" where
  recorded: "deliveryStep s (snd (SeenOrRecord env app i br co pr s))"
| removed: "deliveryStep s (snd (Delivery_Remove env app i s))"

lemma deliveryStep_wf:
  assumes "deliveryStep s s'" and "deliveryWf (fst s)"
  shows "deliveryWf (fst s') \<and> dMax (fst s') = dMax (fst s) \<and>
         (length (fst (dIndex (fst s))) \<le> dMax (fst s) \<longrightarrow> length (fst (dIndex (fst s'))) \<le> dMax (fst s'))"
  using assms
proof cases
  case (recorded env app i br co pr)
  obtain l d where s: "s = (l, d)" by (cases s)
  let ?rec = "deliveryRec env app i br co pr"
  have wf: "idxWf dlKey (\<lambda>e. dlKey e \<noteq> '''') (dIndex l)" "1 \<le> dMax l"
    using assms(2) by (simp_all add: s deliveryWf_def)
  show ?thesis
  proof (cases "dReady l \<and> dErr l = None \<and> snd (dIndex l) (deliveryKey app i) = None")
    case True
    then have "snd (dIndex l) (dlKey ?rec) = None" "dlKey ?rec \<noteq> ''''" by simp_all
    note props = recordIx_props [OF wf(1) this wf(2)]
    show ?thesis
      using True wf props(1,2,6)
      by (auto simp: recorded s SeenOrRecord_new Let_def deliveryWf_def split: prod.splits sum.splits)
  next
    case False
    then have "snd (SeenOrRecord env app i br co pr (l, d)) = (l, d)"
      by (auto simp: SeenOrRecord_def)
    with recorded assms(2) s show ?thesis by simp
  qed
next
  case (removed env app i)
  obtain l d where s: "s = (l, d)" by (cases s)
  have len: "length (fst (idxDelete k ix)) \<le> length (fst ix)" for k and ix :: "deliveryRecord keyIndex"
    by (simp add: idxDelete_def length_remove1)
  show ?thesis
    using assms(2) idxWf_delete [of dlKey "\<lambda>e. dlKey e \<noteq> ''''" "dIndex l" "deliveryKey app i"]
      le_trans [OF len]
    by (auto simp: removed s Delivery_Remove_def deliveryWf_def Let_def split: prod.splits sum.splits)
qed

interpretation deliveries: durable_ledger
  "\<lambda>s. dIndex (fst s)" "\<lambda>s s'. deliveryStep s s' \<and> deliveryWf (fst s)" dlKey "\<lambda>e. dlKey e \<noteq> ''''"
  "\<lambda>s. dMax (fst s)"
proof (unfold_locales, goal_cases)
  case (1 s s')
  then show ?case using deliveryStep_wf [of s s'] by (simp add: deliveryWf_def)
next
  case (2 s s')
  then show ?case using deliveryStep_wf [of s s'] by auto
qed

lemma deliverySteps_wf:
  assumes "deliveryStep\<^sup>*\<^sup>* s s'" and "deliveryWf (fst s)"
  shows "(\<lambda>s s'. deliveryStep s s' \<and> deliveryWf (fst s))\<^sup>*\<^sup>* s s' \<and> deliveryWf (fst s')"
  using assms(1)
proof (induction rule: rtranclp_induct)
  case (step s1 s2)
  then show ?case using deliveryStep_wf [of s1 s2]
    by (auto intro: rtranclp.rtrancl_into_rtrancl)
qed (use assms(2) in simp)

section \<open>Properties\<close>

text \<open>
  The ledger stays consistent and bounded. After any history of records and removals, with
  arbitrary write failures, the ledger holds at most its capacity of records, no key twice, and what
  it would persist loads back to exactly its in-memory index.
\<close>

theorem delivery_history_bounded:
  assumes "deliveryStep\<^sup>*\<^sup>* s s'" and "deliveryWf (fst s)" and "length (fst (dIndex (fst s))) \<le> dMax (fst s)"
  shows "Delivery_Len (fst s') \<le> dMax (fst s) \<and> idxInv (dIndex (fst s')) \<and>
         idxLoad dlKey (\<lambda>e. dlKey e \<noteq> '''') (idxRecords (dIndex (fst s'))) ([], Map.empty) = Some (dIndex (fst s'))"
proof -
  note run = deliverySteps_wf [OF assms(1,2), THEN conjunct1]
  have wf: "idxWf dlKey (\<lambda>e. dlKey e \<noteq> '''') (dIndex (fst s))" using assms(2) by (simp add: deliveryWf_def)
  show ?thesis
    using deliveries.history_card [OF run wf assms(3)] deliveries.history_reload [OF run wf assms(3)]
      deliveries.history_wf [OF run wf assms(3)]
    by (simp add: Delivery_Len_def idxWf_def)
qed

definition quietEnv :: deliveryEnv where
  "quietEnv = \<lparr>deIo = quietIo DeliveryGarbage, dePid = 7, deNow = 5, deReadErr = False\<rparr>"

definition demoLedger :: deliveryLedger where
  "demoLedger = (NewDeliveryLedger ''ledger.json'' 2)\<lparr>dReady := True\<rparr>"

lemma demoLedger_wf: "deliveryWf demoLedger" "length (fst (dIndex demoLedger)) \<le> dMax demoLedger"
  by (simp_all add: demoLedger_def NewDeliveryLedger_def deliveryWf_def idxWf_def)

theorem delivery_history_bounded_witness:
  "Delivery_Len (fst (snd (SeenOrRecord quietEnv ''web'' ''d1'' ''main'' ''c'' ''github'' (demoLedger, Map.empty)))) \<le> 2"
proof -
  have "deliveryStep (demoLedger, Map.empty)
      (snd (SeenOrRecord quietEnv ''web'' ''d1'' ''main'' ''c'' ''github'' (demoLedger, Map.empty)))"
    by (rule deliveryStep.recorded)
  then have "deliveryStep\<^sup>*\<^sup>* (demoLedger, Map.empty)
      (snd (SeenOrRecord quietEnv ''web'' ''d1'' ''main'' ''c'' ''github'' (demoLedger, Map.empty)))"
    by (rule r_into_rtranclp)
  from delivery_history_bounded [OF this] demoLedger_wf show ?thesis
    by (simp add: demoLedger_def NewDeliveryLedger_def)
qed

text \<open>A later delivery: its environment and arguments.\<close>

type_synonym delivery = "deliveryEnv \<times> string \<times> string \<times> string \<times> string \<times> string"

definition runDeliveries :: "delivery list \<Rightarrow> deliveryState \<Rightarrow> deliveryState" where
  "runDeliveries ds s = fold (\<lambda>(env, app, i, br, co, pr). snd \<circ> SeenOrRecord env app i br co pr) ds s"

text \<open>\<open>retainedKey K n l\<close>: the ledger is out of order, or holds \<open>K\<close> with at most \<open>n\<close> newer keys.\<close>

definition retainedKey :: "string \<Rightarrow> nat \<Rightarrow> deliveryLedger \<Rightarrow> bool" where
  "retainedKey K n l \<longleftrightarrow>
     deliveryWf l \<and>
     (dErr l \<noteq> None \<or> (\<exists>pre post. fst (dIndex l) = pre @ K # post \<and> length post \<le> n))"

lemma retainedKey_step:
  assumes "retainedKey K n l" and "Suc n < dMax l"
  shows "retainedKey K (Suc n) (fst (snd (SeenOrRecord env app i br co pr (l, d)))) \<and>
         dMax (fst (snd (SeenOrRecord env app i br co pr (l, d)))) = dMax l"
proof (cases "dReady l \<and> dErr l = None \<and> snd (dIndex l) (deliveryKey app i) = None")
  case True
  let ?rec = "deliveryRec env app i br co pr"
  have wf: "idxWf dlKey (\<lambda>e. dlKey e \<noteq> '''') (dIndex l)" "1 \<le> dMax l"
    using assms(1) by (simp_all add: retainedKey_def deliveryWf_def)
  have "snd (dIndex l) (dlKey ?rec) = None" "dlKey ?rec \<noteq> ''''" using True by simp_all
  note props = recordIx_props [OF wf(1) this wf(2)]
  from assms(1) True obtain pre post where ord: "fst (dIndex l) = pre @ K # post" "length post \<le> n"
    by (auto simp: retainedKey_def)
  let ?m = "Suc (length (fst (dIndex l))) - dMax l"
  have "?m \<le> length pre" using ord assms(2) by simp
  then have "drop ?m (fst (dIndex l)) = drop ?m pre @ K # post" by (simp add: ord)
  then have "fst (recordIx l ?rec) = drop ?m pre @ K # (post @ [dlKey ?rec])" by (simp add: props(4))
  moreover have "length (post @ [dlKey ?rec]) \<le> Suc n" using ord(2) by simp
  ultimately have ex: "\<exists>pre post. fst (recordIx l ?rec) = pre @ K # post \<and> length post \<le> Suc n" by blast
  show ?thesis
    using True wf props(1,6) ex
    by (auto simp: SeenOrRecord_new Let_def retainedKey_def deliveryWf_def split: prod.splits sum.splits)
next
  case False
  then have "snd (SeenOrRecord env app i br co pr (l, d)) = (l, d)" by (auto simp: SeenOrRecord_def)
  with assms show ?thesis by (auto simp: retainedKey_def intro: le_SucI)
qed

lemma retainedKey_run:
  assumes "retainedKey K n (fst s)" and "n + length ds < dMax (fst s)"
  shows "retainedKey K (n + length ds) (fst (runDeliveries ds s))"
  using assms
proof (induction ds arbitrary: n s)
  case (Cons x ds)
  obtain env app i br co pr where x: "x = (env, app, i, br, co, pr)" by (cases x)
  obtain l d where s: "s = (l, d)" by (cases s)
  let ?s = "snd (SeenOrRecord env app i br co pr (l, d))"
  have "retainedKey K (Suc n) (fst ?s) \<and> dMax (fst ?s) = dMax l"
    using Cons.prems by (intro retainedKey_step) (simp_all add: s)
  with Cons.IH [of "Suc n" ?s] Cons.prems show ?case by (simp add: runDeliveries_def x s)
qed (simp add: runDeliveries_def)

text \<open>
  A delivery is accepted at most once within the replay window. If a delivery was recorded as new,
  then after fewer than the capacity of further deliveries, of any applications and with any write
  failures, the same delivery is never accepted as new again: it is reported as seen, or the ledger
  refuses to answer.
\<close>

theorem delivery_accepted_once:
  assumes "fst (SeenOrRecord env app i br co pr (l, d)) = Inr False" and "deliveryWf l"
    and "length ds < dMax l"
  shows "fst (SeenOrRecord env' app i br' co' pr'
           (runDeliveries ds (snd (SeenOrRecord env app i br co pr (l, d))))) \<in> {Inr True, Inl CodeUnavailable}"
proof -
  let ?rec = "deliveryRec env app i br co pr" and ?s = "snd (SeenOrRecord env app i br co pr (l, d))"
  have new: "dReady l" "dErr l = None" "snd (dIndex l) (deliveryKey app i) = None"
    using assms(1) by (auto simp: SeenOrRecord_def Let_def split: if_splits)
  have wf: "idxWf dlKey (\<lambda>e. dlKey e \<noteq> '''') (dIndex l)" "1 \<le> dMax l"
    using assms(2) by (simp_all add: deliveryWf_def)
  have "snd (dIndex l) (dlKey ?rec) = None" "dlKey ?rec \<noteq> ''''" using new by simp_all
  note props = recordIx_props [OF wf(1) this wf(2)]
  have s: "fst ?s = l\<lparr>dIndex := recordIx l ?rec\<rparr>"
    using assms(1) by (auto simp: SeenOrRecord_new [OF new] Let_def split: prod.splits sum.splits)
  have "retainedKey (deliveryKey app i) 0 (fst ?s)"
    using props(1,4) wf by (simp add: s retainedKey_def deliveryWf_def)
  then have "retainedKey (deliveryKey app i) (0 + length ds) (fst (runDeliveries ds ?s))"
    by (rule retainedKey_run) (simp add: s assms(3))
  moreover obtain l' d' where s': "runDeliveries ds ?s = (l', d')" by (cases "runDeliveries ds ?s")
  ultimately have "dErr l' \<noteq> None \<or> deliveryKey app i \<in> dom (snd (dIndex l'))"
    by (auto simp: retainedKey_def deliveryWf_def idxWf_def idxInv_def)
  then show ?thesis
    by (cases "dReady l' \<and> dErr l' = None") (auto simp: s' SeenOrRecord_old SeenOrRecord_refused)
qed

lemma demo_recorded:
  "SeenOrRecord quietEnv ''web'' ''d1'' ''main'' ''c'' ''github'' (demoLedger, Map.empty) =
     (Inr False,
      (demoLedger\<lparr>dIndex := recordIx demoLedger (deliveryRec quietEnv ''web'' ''d1'' ''main'' ''c'' ''github'')\<rparr>,
       Map.empty(''ledger.json'' \<mapsto> DeliveryData 1
         [Some (deliveryRec quietEnv ''web'' ''d1'' ''main'' ''c'' ''github'')])))"
  by (simp add: SeenOrRecord_new demoLedger_def NewDeliveryLedger_def Let_def persistDeliveries_def
      quietEnv_def replaceFile_quiet deliveryLedgerVersion_def recordIx_def idxInsert_def idxRecords_def
      del: deliveryRec_key)

theorem delivery_accepted_once_witness:
  "fst (SeenOrRecord quietEnv ''web'' ''d1'' ''main'' ''c'' ''github''
     (runDeliveries [(quietEnv, ''api'', ''d2'', ''main'', ''e'', ''github'')]
       (snd (SeenOrRecord quietEnv ''web'' ''d1'' ''main'' ''c'' ''github'' (demoLedger, Map.empty)))))
   \<in> {Inr True, Inl CodeUnavailable}"
  by (rule delivery_accepted_once)
    (simp_all add: demo_recorded demoLedger_wf, simp add: demoLedger_def NewDeliveryLedger_def)

lemma SeenOrRecord_accepted:
  assumes "fst (SeenOrRecord env app i br co pr (l, d)) = Inr False"
  shows "dReady l" and "dErr l = None" and "snd (dIndex l) (deliveryKey app i) = None"
    and "fst (snd (SeenOrRecord env app i br co pr (l, d))) =
           l\<lparr>dIndex := recordIx l (deliveryRec env app i br co pr)\<rparr>"
    and "snd (snd (SeenOrRecord env app i br co pr (l, d))) (dPath l) =
           Some (DeliveryData deliveryLedgerVersion (idxRecords (recordIx l (deliveryRec env app i br co pr))))"
proof -
  show new: "dReady l" "dErr l = None" "snd (dIndex l) (deliveryKey app i) = None"
    using assms by (auto simp: SeenOrRecord_def Let_def split: if_splits)
  show "fst (snd (SeenOrRecord env app i br co pr (l, d))) =
      l\<lparr>dIndex := recordIx l (deliveryRec env app i br co pr)\<rparr>"
    using assms by (auto simp: SeenOrRecord_new [OF new] Let_def split: prod.splits sum.splits)
  let ?w = "persistDeliveries env (dPath l) (recordIx l (deliveryRec env app i br co pr)) d"
  have "fst ?w = Inr ()" "snd (snd (SeenOrRecord env app i br co pr (l, d))) = snd ?w"
    using assms by (auto simp: SeenOrRecord_new [OF new] Let_def split: prod.splits sum.splits)
  then show "snd (snd (SeenOrRecord env app i br co pr (l, d))) (dPath l) =
      Some (DeliveryData deliveryLedgerVersion (idxRecords (recordIx l (deliveryRec env app i br co pr))))"
    by (auto simp: persistDeliveries_def replaceFile_ok split: if_splits)
qed

text \<open>
  An accepted delivery survives a restart. If a delivery was accepted, a new ledger
  opened on the directory that the record left behind loads without error, has exactly the index of the
  ledger that recorded it, and reports the delivery as seen.
\<close>

theorem delivery_survives_restart:
  assumes "fst (SeenOrRecord env app i br co pr (l, d)) = Inr False"
    and "idxWf dlKey deliveryOk (dIndex l)" and "1 \<le> dMax l" and "app \<noteq> ''''" and "i \<noteq> ''''"
    and "\<not> deReadErr env'"
    and "s = snd (SeenOrRecord env app i br co pr (l, d))"
    and "(res, s') = Delivery_Initialize env' (NewDeliveryLedger (dPath l) capacity, snd s)"
  shows "res = Inr () \<and> dIndex (fst s') = dIndex (fst s) \<and>
         fst (SeenOrRecord env'' app i br' co' pr' s') = Inr True"
proof -
  let ?rec = "deliveryRec env app i br co pr"
  note acc = SeenOrRecord_accepted [OF assms(1)]
  have "deliveryOk ?rec" using assms(4,5) by (simp add: deliveryOk_def deliveryRec_def)
  with acc(3) assms(2,3) have wf: "idxWf dlKey deliveryOk (recordIx l ?rec)"
    and key: "snd (recordIx l ?rec) (deliveryKey app i) = Some ?rec"
    using evict_insert [of dlKey deliveryOk "dIndex l" "dlKey ?rec" ?rec "dMax l"]
    by (simp_all add: recordIx_def)
  note load = idxLoad_records [OF wf]
  have "res = Inr () \<and> s' = ((NewDeliveryLedger (dPath l) capacity)
      \<lparr>dIndex := recordIx l ?rec, dReady := True\<rparr>, snd s)"
    using assms(6-8) acc(5) load idxLoaded_complete [OF load]
    by (simp add: Delivery_Initialize_def loadDeliveries_def NewDeliveryLedger_def Let_def)
  moreover have "dIndex (fst s) = recordIx l ?rec" using acc(4) assms(7) by simp
  ultimately show ?thesis using key by (simp add: SeenOrRecord_old NewDeliveryLedger_def)
qed

theorem delivery_survives_restart_witness:
  "fst (SeenOrRecord quietEnv ''web'' ''d1'' ''main'' ''c'' ''github''
     (snd (Delivery_Initialize quietEnv (NewDeliveryLedger ''ledger.json'' 2,
        snd (snd (SeenOrRecord quietEnv ''web'' ''d1'' ''main'' ''c'' ''github'' (demoLedger, Map.empty))))))) = Inr True"
proof -
  have hyps: "fst (SeenOrRecord quietEnv ''web'' ''d1'' ''main'' ''c'' ''github'' (demoLedger, Map.empty)) = Inr False"
    "idxWf dlKey deliveryOk (dIndex demoLedger)" "1 \<le> dMax demoLedger" "\<not> deReadErr quietEnv"
    and path: "dPath demoLedger = ''ledger.json''"
    by (simp_all add: demo_recorded) (simp_all add: idxWf_def demoLedger_def NewDeliveryLedger_def quietEnv_def)
  show ?thesis
    using delivery_survives_restart [where capacity = 2, OF hyps(1-3) _ _ hyps(4) refl prod.collapse]
    by (simp add: path)
qed

section \<open>Two consequences of a failed write\<close>

text \<open>
  A single failed write closes the ledger for good: no later delivery is recorded, although the comment on
  the rollback in \<open>SeenOrRecord\<close> promises that a retry can be recorded once the filesystem recovers.
\<close>

lemma ledger_error_is_permanent:
  assumes "dErr (fst s) \<noteq> None"
  shows "runDeliveries ds s = s \<and> fst (SeenOrRecord env app i br co pr s) = Inl CodeUnavailable"
proof -
  obtain l d where s: "s = (l, d)" by (cases s)
  have "runDeliveries ds (l, d) = (l, d)"
    using assms by (induction ds) (auto simp: runDeliveries_def s SeenOrRecord_refused)
  with assms s show ?thesis by (simp add: SeenOrRecord_refused)
qed

text \<open>
  When only the final directory sync fails, the request is refused, but the renamed file already lists
  the delivery: after a restart the provider's redelivery is taken for a duplicate and never built.
\<close>

definition dirSyncEnv :: deliveryEnv where
  "dirSyncEnv = quietEnv\<lparr>deIo := \<lparr>fails = (\<lambda>st. st = IoSyncDir), partial = DeliveryGarbage, raced = None\<rparr>\<rparr>"

lemma refused_delivery_swallowed:
  "\<exists>d'. fst (SeenOrRecord dirSyncEnv ''web'' ''d1'' ''main'' ''c'' ''github'' (demoLedger, Map.empty)) = Inl CodeUnavailable
     \<and> snd (snd (SeenOrRecord dirSyncEnv ''web'' ''d1'' ''main'' ''c'' ''github'' (demoLedger, Map.empty))) = d'
     \<and> fst (SeenOrRecord quietEnv ''web'' ''d1'' ''main'' ''c'' ''github''
            (snd (Delivery_Initialize quietEnv (NewDeliveryLedger ''ledger.json'' 2, d')))) = Inr True"
  by (simp add: SeenOrRecord_def demoLedger_def NewDeliveryLedger_def Let_def persistDeliveries_def dirSyncEnv_def
      quietEnv_def replaceFile_def stageTmp_def syncDir_def deliveryLedgerVersion_def idxInsert_def idxRecords_def
      Delivery_Initialize_def loadDeliveries_def deliveryOk_def)

end
