(* ===== verification/Jobs.thy ===== *)
theory Jobs
  imports Versions Plans "HOL-Library.AList"
begin

text \<open>
  The durable deployment-job store (\<open>internal/webhook/jobs.go\<close>): one JSON file per accepted webhook
  delivery, its status machine, the retention sweep and the recovery of jobs a restart interrupted.
  The in-memory map is an association list: its list order stands for the unspecified order in
  which Go ranges over a map.  A file holds a decoded record or bytes that do not parse.  Every
  operation runs under the store's mutex, so it is one function of the store and the directory.
  The redactor applied to messages is a field of the environment.
\<close>

section \<open>Statuses, stages and error codes\<close>

definition StatusAccepted :: string where "StatusAccepted = ''accepted''"
definition StatusQueued :: string where "StatusQueued = ''queued''"
definition StatusSyncing :: string where "StatusSyncing = ''syncing''"
definition StatusBuilding :: string where "StatusBuilding = ''building''"
definition StatusDeploying :: string where "StatusDeploying = ''deploying''"
definition StatusHealthChecking :: string where "StatusHealthChecking = ''health_checking''"
definition StatusSucceeded :: string where "StatusSucceeded = ''succeeded''"
definition StatusFailed :: string where "StatusFailed = ''failed''"
definition StatusRolledBack :: string where "StatusRolledBack = ''rolled_back''"
definition StatusCancelled :: string where "StatusCancelled = ''cancelled''"

lemmas jobStatus_defs =
  StatusAccepted_def StatusQueued_def StatusSyncing_def StatusBuilding_def StatusDeploying_def
  StatusHealthChecking_def StatusSucceeded_def StatusFailed_def StatusRolledBack_def StatusCancelled_def

definition StageQueue :: string where "StageQueue = ''queue''"
definition StageGitSync :: string where "StageGitSync = ''git_sync''"
definition StageBuild :: string where "StageBuild = ''build''"
definition StageCleanup :: string where "StageCleanup = ''cleanup''"
definition StageRecovery :: string where "StageRecovery = ''recovery''"

definition JobErrQueue :: string where "JobErrQueue = ''WEBHOOK_QUEUE_FAILED''"
definition JobErrInterrupted :: string where "JobErrInterrupted = ''WEBHOOK_JOB_INTERRUPTED''"

definition DefaultJobRetention :: int where "DefaultJobRetention = 200"
definition jobSchemaVersion :: int where "jobSchemaVersion = 1"

definition statusRank :: "string \<Rightarrow> nat option" where
  "statusRank s =
     map_of [(StatusAccepted, 0), (StatusQueued, 1), (StatusSyncing, 2), (StatusBuilding, 3),
             (StatusDeploying, 4), (StatusHealthChecking, 5)] s"

text \<open>Indexing a Go map with an absent key gives the zero value.\<close>

definition rankOf :: "string \<Rightarrow> nat" where
  "rankOf s = (case statusRank s of None \<Rightarrow> 0 | Some n \<Rightarrow> n)"

definition isTerminalStatus :: "string \<Rightarrow> bool" where
  "isTerminalStatus s \<longleftrightarrow>
     s = StatusSucceeded \<or> s = StatusFailed \<or> s = StatusRolledBack \<or> s = StatusCancelled"

section \<open>Records and the store\<close>

record jobRecord =
  jSchemaVersion :: int
  jID :: string
  jDeliveryID :: string
  jAppID :: string
  jAppName :: string
  jBranch :: string
  jCommit :: string
  jProvider :: string
  jStatus :: string
  jStage :: string
  jAcceptedAt :: int
  jStartedAt :: int
  jFinishedAt :: int
  jVersion :: int
  jErrorCode :: string
  jErrorMessage :: string

definition jobTerminal :: "jobRecord \<Rightarrow> bool" where
  "jobTerminal r = isTerminalStatus (jStatus r)"

definition jobActive :: "jobRecord \<Rightarrow> bool" where
  "jobActive r \<longleftrightarrow> \<not> isTerminalStatus (jStatus r) \<and> jStatus r \<noteq> ''''"

definition validJobID :: "string \<Rightarrow> bool" where
  "validJobID s = hexId ''wh_'' s"

text \<open>The eight big-endian bytes of a non-negative 64-bit number, which \<open>%016x\<close> prints as sixteen digits.\<close>

definition be64 :: "nat \<Rightarrow> nat list" where
  "be64 n = map (\<lambda>i. n div 256 ^ (7 - i) mod 256) [0..<8]"

definition NewJobID :: "nat list option \<Rightarrow> nat \<Rightarrow> string" where
  "NewJobID rnd nanos =
     (case rnd of None \<Rightarrow> mintId ''wh_'' (be64 nanos) | Some bs \<Rightarrow> mintId ''wh_'' bs)"

datatype jobFile = JobGarbage | JobData jobRecord

record jobStore =
  jsMax :: int
  jsJobs :: "(string \<times> jobRecord) list"
  jsReady :: bool
  jsErr :: "code option"
  jsReadOnly :: bool

type_synonym jobState = "jobStore \<times> jobFile dir"

text \<open>
  The environment of one call: the system calls of its write, the files \<open>os.Remove\<close>,
  \<open>os.Rename\<close> and \<open>os.ReadFile\<close> fail on, the process id, the clock in milliseconds, seconds and nanoseconds,
  the random source, and the redactor.
\<close>

record jobEnv =
  jeIo :: "jobFile io"
  jeRemoveErr :: "string \<Rightarrow> bool"
  jeRenameErr :: "string \<Rightarrow> bool"
  jeReadErr :: "string \<Rightarrow> bool"
  jePid :: nat
  jeNow :: int
  jeUnix :: nat
  jeNanos :: nat
  jeRand :: "nat list option"
  jeRedact :: "string \<Rightarrow> string"

definition NewJobStore :: "int \<Rightarrow> jobStore" where
  "NewJobStore mx = \<lparr>jsMax = mx, jsJobs = [], jsReady = False, jsErr = None, jsReadOnly = False\<rparr>"

definition OpenJobStoreReadOnly :: jobStore where
  "OpenJobStoreReadOnly = \<lparr>jsMax = 0, jsJobs = [], jsReady = False, jsErr = None, jsReadOnly = True\<rparr>"

definition jobPath :: "string \<Rightarrow> string" where
  "jobPath i = i @ ''.json''"

definition jobTmp :: "string \<Rightarrow> nat \<Rightarrow> string" where
  "jobTmp i pid = tmpName (jobPath i) pid @ ''-job''"

definition jobRecordValid :: "jobRecord \<Rightarrow> bool" where
  "jobRecordValid r \<longleftrightarrow>
     jSchemaVersion r = jobSchemaVersion \<and> validJobID (jID r) \<and> jAppName r \<noteq> '''' \<and>
     jDeliveryID r \<noteq> '''' \<and> jStatus r \<noteq> '''' \<and> jAcceptedAt r \<noteq> 0"

definition loadJobRecord :: "jobEnv \<Rightarrow> string \<Rightarrow> jobFile dir \<Rightarrow> jobRecord option" where
  "loadJobRecord env path d =
     (if jeReadErr env path then None
      else case d path of
        Some (JobData r) \<Rightarrow> if jobRecordValid r then Some r else None
      | _ \<Rightarrow> None)"

definition corruptName :: "string \<Rightarrow> nat \<Rightarrow> string" where
  "corruptName path unix = path @ ''.corrupt.'' @ utoa unix"

fun loadJobs :: "jobEnv \<Rightarrow> bool \<Rightarrow> string list \<Rightarrow> (string \<times> jobRecord) list \<Rightarrow> jobFile dir
    \<Rightarrow> (string \<times> jobRecord) list \<times> jobFile dir" where
  "loadJobs env ro [] J d = (J, d)"
| "loadJobs env ro (n # ns) J d =
     (if \<not> hasSuffix ''.json'' n then loadJobs env ro ns J d
      else case loadJobRecord env n d of
        None \<Rightarrow>
          if ro \<or> jeRenameErr env n then loadJobs env ro ns J d
          else loadJobs env ro ns J (d(corruptName n (jeUnix env) := d n, n := None))
      | Some r \<Rightarrow> loadJobs env ro ns (AList.update (jID r) r J) d)"

definition JobStore_Load :: "jobEnv \<Rightarrow> readDir \<Rightarrow> jobState \<Rightarrow> (code, unit) result \<times> jobState" where
  "JobStore_Load env rd s =
     (case s of (st, d) \<Rightarrow>
        if jsReady st then (case jsErr st of None \<Rightarrow> Inr () | Some e \<Rightarrow> Inl e, s)
        else if fails (jeIo env) IoMkdir \<and> \<not> jsReadOnly st then
          (Inl CodeFilesystem, (st\<lparr>jsErr := Some CodeFilesystem, jsReady := True\<rparr>, d))
        else case rd of
          DirMissing \<Rightarrow> (Inr (), (st\<lparr>jsReady := True\<rparr>, d))
        | DirError \<Rightarrow>
            if \<not> jsReadOnly st then
              (Inl CodeFilesystem, (st\<lparr>jsErr := Some CodeFilesystem, jsReady := True\<rparr>, d))
            else (Inr (), (st\<lparr>jsReady := True\<rparr>, d))
        | Entries ns \<Rightarrow>
            let (J, d') = loadJobs env (jsReadOnly st) ns (jsJobs st) d
            in (Inr (), (st\<lparr>jsJobs := J, jsReady := True\<rparr>, d')))"

definition writable :: "jobStore \<Rightarrow> (code, unit) result" where
  "writable st =
     (if jsReadOnly st then Inl CodePermissionDenied
      else if jsErr st \<noteq> None then Inl CodeFilesystem
      else Inr ())"

definition persistJob :: "jobEnv \<Rightarrow> jobRecord \<Rightarrow> jobFile dir \<Rightarrow> (jobFile, unit) fsop" where
  "persistJob env r d =
     (if fails (jeIo env) IoMkdir then (Inl CodeFilesystem, d)
      else
        let tmp = jobTmp (jID r) (jePid env) in
        case stageTmp (jeIo env) CodeFilesystem tmp (JobData r) d of
          (Inl e, d1) \<Rightarrow> (Inl e, d1)
        | (Inr _, d1) \<Rightarrow>
            if fails (jeIo env) IoRename then (Inl CodeFilesystem, removeTmp (jeIo env) tmp d1)
            else (Inr (), d1(jobPath (jID r) \<mapsto> JobData r, tmp := None)))"

section \<open>Retention\<close>

text \<open>Oldest first, ties by identifier; the identifiers are distinct, so the order is total.\<close>

definition sweepOrder :: "(string \<times> jobRecord) list \<Rightarrow> (string \<times> jobRecord) list" where
  "sweepOrder J = sort_key (\<lambda>(k, r). (jAcceptedAt r, jID r)) J"

fun sweepLoop :: "jobEnv \<Rightarrow> int \<Rightarrow> (string \<times> jobRecord) list \<Rightarrow> (string \<times> jobRecord) list \<Rightarrow> jobFile dir
    \<Rightarrow> (string \<times> jobRecord) list \<times> jobFile dir" where
  "sweepLoop env excess [] J d = (J, d)"
| "sweepLoop env excess ((k, r) # xs) J d =
     (if excess \<le> 0 then (J, d)
      else if \<not> jobTerminal r then sweepLoop env excess xs J d
      else if jeRemoveErr env (jobPath k) then sweepLoop env excess xs J d
      else sweepLoop env (excess - 1) xs (AList.delete k J) (d(jobPath k := None)))"

definition sweepRetention :: "jobEnv \<Rightarrow> jobState \<Rightarrow> jobState" where
  "sweepRetention env s =
     (case s of (st, d) \<Rightarrow>
        if jsMax st \<le> 0 then s
        else
          let (J, d') = sweepLoop env (int (length (jsJobs st)) - jsMax st) (sweepOrder (jsJobs st)) (jsJobs st) d
          in (st\<lparr>jsJobs := J\<rparr>, d'))"

section \<open>Creation and updates\<close>

definition fillJob :: "jobEnv \<Rightarrow> jobRecord \<Rightarrow> jobRecord" where
  "fillJob env r =
     r\<lparr>jStatus := (if jStatus r = '''' then StatusAccepted else jStatus r),
       jStage := (if jStage r = '''' then StageQueue else jStage r),
       jAcceptedAt := (if jAcceptedAt r = 0 then jeNow env else jAcceptedAt r),
       jSchemaVersion := jobSchemaVersion\<rparr>"

definition withJobID :: "jobEnv \<Rightarrow> jobRecord \<Rightarrow> jobRecord" where
  "withJobID env r = (if jID r = '''' then r\<lparr>jID := NewJobID (jeRand env) (jeNanos env)\<rparr> else r)"

definition JobStore_Create :: "jobEnv \<Rightarrow> jobRecord option \<Rightarrow> jobState \<Rightarrow> (code, unit) result \<times> jobState" where
  "JobStore_Create env rec s =
     (case (rec, s) of
        (None, _) \<Rightarrow> (Inl CodeInvalidArgument, s)
      | (Some r0, (st, d)) \<Rightarrow>
          let r1 = withJobID env r0 in
          if \<not> validJobID (jID r1) then (Inl CodeInvalidArgument, s)
          else
            let r = fillJob env r1 in
            case writable st of
              Inl e \<Rightarrow> (Inl e, s)
            | Inr _ \<Rightarrow>
                if map_of (jsJobs st) (jID r) \<noteq> None then (Inl CodeAlreadyExists, s)
                else case persistJob env r d of
                  (Inl e, d') \<Rightarrow> (Inl e, (st, d'))
                | (Inr _, d') \<Rightarrow>
                    (Inr (), sweepRetention env (st\<lparr>jsJobs := AList.update (jID r) r (jsJobs st)\<rparr>, d')))"

definition updateJob ::
    "jobEnv \<Rightarrow> string \<Rightarrow> (jobRecord \<Rightarrow> (code, jobRecord) result) \<Rightarrow> jobState \<Rightarrow> (code, unit) result \<times> jobState" where
  "updateJob env i fn s =
     (case s of (st, d) \<Rightarrow>
        case writable st of
          Inl e \<Rightarrow> (Inl e, s)
        | Inr _ \<Rightarrow>
            case map_of (jsJobs st) i of
              None \<Rightarrow> (Inl CodeNotFound, s)
            | Some before \<Rightarrow>
                case fn before of
                  Inl e \<Rightarrow> (Inl e, s)
                | Inr r \<Rightarrow>
                    if jID r \<noteq> jID before then (Inl CodeInvalidArgument, s)
                    else case persistJob env r d of
                      (Inl e, d') \<Rightarrow> (Inl e, (st, d'))
                    | (Inr _, d') \<Rightarrow> (Inr (), (st\<lparr>jsJobs := AList.update i r (jsJobs st)\<rparr>, d')))"

definition forwardTransition :: "jobRecord \<Rightarrow> string \<Rightarrow> (code, unit) result" where
  "forwardTransition r newStatus =
     (if isTerminalStatus (jStatus r) then Inl CodeInvalidArgument
      else case (statusRank (jStatus r), statusRank newStatus) of
        (Some oldRank, Some newRank) \<Rightarrow> if newRank < oldRank then Inl CodeInvalidArgument else Inr ()
      | _ \<Rightarrow> Inl CodeInvalidArgument)"

definition terminalTransition :: "jobRecord \<Rightarrow> string \<Rightarrow> (code, unit) result" where
  "terminalTransition r status =
     (if isTerminalStatus (jStatus r) then Inl CodeInvalidArgument
      else if \<not> isTerminalStatus status then Inl CodeInvalidArgument
      else Inr ())"

definition SanitizeJobMessage :: "(string \<Rightarrow> string) \<Rightarrow> string \<Rightarrow> string" where
  "SanitizeJobMessage redact msg =
     (let m = trimSpace (redact msg) in
      if length m > 300 then take 300 m @ [CHR 0xE2, CHR 0x80, CHR 0xA6] else m)"

definition MarkQueued :: "jobEnv \<Rightarrow> string \<Rightarrow> jobState \<Rightarrow> (code, unit) result \<times> jobState" where
  "MarkQueued env i = updateJob env i (\<lambda>r.
     rbind (forwardTransition r StatusQueued) (\<lambda>_. Inr (r\<lparr>jStatus := StatusQueued, jStage := StageQueue\<rparr>)))"

definition MarkSyncing :: "jobEnv \<Rightarrow> string \<Rightarrow> jobState \<Rightarrow> (code, unit) result \<times> jobState" where
  "MarkSyncing env i = updateJob env i (\<lambda>r.
     rbind (forwardTransition r StatusSyncing) (\<lambda>_.
       Inr (r\<lparr>jStatus := StatusSyncing, jStage := StageGitSync,
              jStartedAt := (if jStartedAt r = 0 then jeNow env else jStartedAt r)\<rparr>)))"

definition MarkBuilding :: "jobEnv \<Rightarrow> string \<Rightarrow> jobState \<Rightarrow> (code, unit) result \<times> jobState" where
  "MarkBuilding env i = updateJob env i (\<lambda>r.
     rbind (forwardTransition r StatusBuilding) (\<lambda>_. Inr (r\<lparr>jStatus := StatusBuilding, jStage := StageBuild\<rparr>)))"

definition MarkProgress :: "jobEnv \<Rightarrow> string \<Rightarrow> string \<Rightarrow> string \<Rightarrow> jobState \<Rightarrow> (code, unit) result \<times> jobState" where
  "MarkProgress env i status stage = updateJob env i (\<lambda>r.
     rbind (forwardTransition r status) (\<lambda>_. Inr (r\<lparr>jStatus := status, jStage := stage\<rparr>)))"

definition MarkCleanup :: "jobEnv \<Rightarrow> string \<Rightarrow> jobState \<Rightarrow> (code, unit) result \<times> jobState" where
  "MarkCleanup env i = updateJob env i (\<lambda>r.
     if isTerminalStatus (jStatus r) then Inl CodeInvalidArgument else Inr (r\<lparr>jStage := StageCleanup\<rparr>))"

definition MarkSucceeded :: "jobEnv \<Rightarrow> string \<Rightarrow> int \<Rightarrow> jobState \<Rightarrow> (code, unit) result \<times> jobState" where
  "MarkSucceeded env i ver = updateJob env i (\<lambda>r.
     rbind (terminalTransition r StatusSucceeded) (\<lambda>_.
       Inr (r\<lparr>jStatus := StatusSucceeded, jStage := StageCleanup, jVersion := ver, jErrorCode := '''',
              jErrorMessage := '''', jFinishedAt := jeNow env\<rparr>)))"

definition Job_MarkFailed :: "jobEnv \<Rightarrow> string \<Rightarrow> string \<Rightarrow> string \<Rightarrow> jobState \<Rightarrow> (code, unit) result \<times> jobState" where
  "Job_MarkFailed env i errCode msg = updateJob env i (\<lambda>r.
     rbind (terminalTransition r StatusFailed) (\<lambda>_.
       Inr (r\<lparr>jStatus := StatusFailed, jStage := StageCleanup, jErrorCode := errCode,
              jErrorMessage := SanitizeJobMessage (jeRedact env) msg, jFinishedAt := jeNow env\<rparr>)))"

definition MarkRolledBack ::
    "jobEnv \<Rightarrow> string \<Rightarrow> int \<Rightarrow> string \<Rightarrow> string \<Rightarrow> jobState \<Rightarrow> (code, unit) result \<times> jobState" where
  "MarkRolledBack env i ver errCode msg = updateJob env i (\<lambda>r.
     rbind (terminalTransition r StatusRolledBack) (\<lambda>_.
       Inr (r\<lparr>jStatus := StatusRolledBack, jStage := StageCleanup, jVersion := ver, jErrorCode := errCode,
              jErrorMessage := SanitizeJobMessage (jeRedact env) msg, jFinishedAt := jeNow env\<rparr>)))"

definition MarkCancelled :: "jobEnv \<Rightarrow> string \<Rightarrow> string \<Rightarrow> jobState \<Rightarrow> (code, unit) result \<times> jobState" where
  "MarkCancelled env i msg = updateJob env i (\<lambda>r.
     rbind (terminalTransition r StatusCancelled) (\<lambda>_.
       Inr (r\<lparr>jStatus := StatusCancelled, jStage := StageQueue, jErrorCode := JobErrQueue,
              jErrorMessage := SanitizeJobMessage (jeRedact env) msg, jFinishedAt := jeNow env\<rparr>)))"

section \<open>Queries\<close>

definition JobStore_Get :: "string \<Rightarrow> jobStore \<Rightarrow> jobRecord option" where
  "JobStore_Get i st = map_of (jsJobs st) i"

text \<open>Newest first; ties by descending identifier.\<close>

definition newestJobs :: "jobRecord list \<Rightarrow> jobRecord list" where
  "newestJobs rs = rev (sort_key (\<lambda>r. (jAcceptedAt r, jID r)) rs)"

definition filterForApp :: "string \<Rightarrow> (jobRecord \<Rightarrow> bool) \<Rightarrow> int option \<Rightarrow> jobStore \<Rightarrow> jobRecord list" where
  "filterForApp app keep limit st =
     (let out = newestJobs (filter (\<lambda>r. (jAppName r = app \<or> jAppID r = app) \<and> keep r) (map snd (jsJobs st))) in
      case limit of
        None \<Rightarrow> out
      | Some n \<Rightarrow> if n > 0 \<and> int (length out) > n then take (nat n) out else out)"

definition ActiveForApp :: "string \<Rightarrow> jobStore \<Rightarrow> jobRecord list" where
  "ActiveForApp app st = filterForApp app jobActive None st"

definition HistoryForApp :: "string \<Rightarrow> int \<Rightarrow> jobStore \<Rightarrow> jobRecord list" where
  "HistoryForApp app limit st = filterForApp app jobTerminal (Some limit) st"

definition JobStore_Count :: "jobStore \<Rightarrow> nat" where
  "JobStore_Count st = length (jsJobs st)"

section \<open>Restart recovery\<close>

record recoveryOutcome =
  roJobID :: string
  roPrevious :: string
  roResult :: string
  roVersion :: int

definition interruptedMsg :: "string \<Rightarrow> string" where
  "interruptedMsg status =
     ''daemon restart interrupted the job while '' @ status @
     ''; the deployment was not re-run (redeliver the webhook to deploy again)''"

definition MarkInterrupted :: "jobEnv \<Rightarrow> string \<Rightarrow> string \<Rightarrow> jobState \<Rightarrow> (code, unit) result \<times> jobState" where
  "MarkInterrupted env i msg = updateJob env i (\<lambda>r.
     rbind (terminalTransition r StatusFailed) (\<lambda>_.
       Inr (r\<lparr>jStatus := StatusFailed, jStage := StageRecovery, jErrorCode := JobErrInterrupted,
              jErrorMessage := SanitizeJobMessage (jeRedact env) msg, jFinishedAt := jeNow env\<rparr>)))"

text \<open>The version evidence: the current version is the pushed commit, promoted after acceptance.\<close>

definition deployedBy :: "(code, 'r versionMeta option) result \<Rightarrow> jobRecord \<Rightarrow> int option" where
  "deployedBy cur job =
     (case cur of
        Inr (Some meta) \<Rightarrow>
          if equalFold (GitCommit meta) (jCommit job) then
            (case DeployedAt meta of
               Some t \<Rightarrow> if t \<ge> jAcceptedAt job then Some (Version meta) else None
             | None \<Rightarrow> None)
          else None
      | _ \<Rightarrow> None)"

text \<open>One interrupted job; its two possible writes have their own environments.\<close>

definition recoverJob ::
    "jobEnv \<times> jobEnv \<Rightarrow> (string \<Rightarrow> (code, 'r versionMeta option) result) \<Rightarrow> jobRecord \<Rightarrow> jobState
       \<Rightarrow> recoveryOutcome \<times> jobState" where
  "recoverJob es currentVersion job s =
     (let out = \<lparr>roJobID = jID job, roPrevious = jStatus job, roResult = '''', roVersion = 0\<rparr>;
          evidence = (if rankOf (jStatus job) \<ge> rankOf StatusBuilding
                      then deployedBy (currentVersion (jAppName job)) job else None);
          try = (case evidence of
                   None \<Rightarrow> (None, s)
                 | Some ver \<Rightarrow>
                     (case MarkSucceeded (fst es) (jID job) ver s of
                        (Inl _, s') \<Rightarrow> (None, s')
                      | (Inr _, s') \<Rightarrow> (Some ver, s')))
      in case try of
           (Some ver, s') \<Rightarrow> (out\<lparr>roResult := StatusSucceeded, roVersion := ver\<rparr>, s')
         | (None, s') \<Rightarrow>
             (case MarkInterrupted (snd es) (jID job) (interruptedMsg (jStatus job)) s' of
                (Inl _, s'') \<Rightarrow> (out, s'')
              | (Inr _, s'') \<Rightarrow> (out\<lparr>roResult := StatusFailed\<rparr>, s'')))"

fun recoverLoop ::
    "(string \<Rightarrow> jobEnv \<times> jobEnv) \<Rightarrow> (string \<Rightarrow> (code, 'r versionMeta option) result) \<Rightarrow> jobRecord list
       \<Rightarrow> jobState \<Rightarrow> recoveryOutcome list \<times> jobState" where
  "recoverLoop es currentVersion [] s = ([], s)"
| "recoverLoop es currentVersion (job # jobs) s =
     (let (out, s') = recoverJob (es (jID job)) currentVersion job s;
          (outs, s'') = recoverLoop es currentVersion jobs s'
      in (out # outs, s''))"

definition RecoverInterrupted ::
    "(string \<Rightarrow> jobEnv \<times> jobEnv) \<Rightarrow> (string \<Rightarrow> (code, 'r versionMeta option) result) option \<Rightarrow> jobState
       \<Rightarrow> recoveryOutcome list \<times> jobState" where
  "RecoverInterrupted es currentVersion s =
     recoverLoop es (case currentVersion of None \<Rightarrow> (\<lambda>_. Inr None) | Some f \<Rightarrow> f)
       (filter jobActive (map snd (jsJobs (fst s)))) s"

section \<open>The transition relation\<close>

inductive jobStep :: "jobState \<Rightarrow> jobState \<Rightarrow> bool" where
  created: "jAppName r \<noteq> '''' \<Longrightarrow> jDeliveryID r \<noteq> '''' \<Longrightarrow> jeNow env \<noteq> 0 \<Longrightarrow>
     jobStep s (snd (JobStore_Create env (Some r) s))"
| queued: "jobStep s (snd (MarkQueued env i s))"
| syncing: "jobStep s (snd (MarkSyncing env i s))"
| building: "jobStep s (snd (MarkBuilding env i s))"
| progress: "jobStep s (snd (MarkProgress env i status stage s))"
| cleanup: "jobStep s (snd (MarkCleanup env i s))"
| succeeded: "jobStep s (snd (MarkSucceeded env i ver s))"
| failed: "jobStep s (snd (Job_MarkFailed env i errCode msg s))"
| rolledBack: "jobStep s (snd (MarkRolledBack env i ver errCode msg s))"
| cancelled: "jobStep s (snd (MarkCancelled env i msg s))"
| interrupted: "jobStep s (snd (MarkInterrupted env i msg s))"

text \<open>What a status change may do to a record.\<close>

definition sameJob :: "jobRecord \<Rightarrow> jobRecord \<Rightarrow> bool" where
  "sameJob r r' \<longleftrightarrow>
     jSchemaVersion r' = jSchemaVersion r \<and> jID r' = jID r \<and> jDeliveryID r' = jDeliveryID r \<and>
     jAppID r' = jAppID r \<and> jAppName r' = jAppName r \<and> jBranch r' = jBranch r \<and> jCommit r' = jCommit r \<and>
     jProvider r' = jProvider r \<and> jAcceptedAt r' = jAcceptedAt r"

definition advances :: "jobRecord \<Rightarrow> jobRecord \<Rightarrow> bool" where
  "advances r r' \<longleftrightarrow>
     \<not> jobTerminal r \<and> sameJob r r' \<and>
     (jobTerminal r' \<or> jStatus r' = jStatus r \<or>
      (\<exists>m n. statusRank (jStatus r) = Some m \<and> statusRank (jStatus r') = Some n \<and> m \<le> n))"

definition lifecycle :: "(jobRecord \<Rightarrow> (code, jobRecord) result) \<Rightarrow> bool" where
  "lifecycle fn \<longleftrightarrow> (\<forall>r r'. fn r = Inr r' \<longrightarrow> advances r r')"

lemma terminal_statuses [simp]:
  "isTerminalStatus StatusSucceeded" "isTerminalStatus StatusFailed" "isTerminalStatus StatusRolledBack"
  "isTerminalStatus StatusCancelled"
  by (simp_all add: isTerminalStatus_def)

lemma running_statuses [simp]:
  "\<not> isTerminalStatus StatusAccepted" "\<not> isTerminalStatus StatusQueued" "\<not> isTerminalStatus StatusSyncing"
  "\<not> isTerminalStatus StatusBuilding"
  by (simp_all add: isTerminalStatus_def jobStatus_defs)

lemma statusRank_nonempty: "statusRank s = Some n \<Longrightarrow> s \<noteq> ''''"
  by (auto simp: statusRank_def jobStatus_defs)

lemma statusRank_terminal: "isTerminalStatus s \<Longrightarrow> statusRank s = None"
  by (auto simp: isTerminalStatus_def statusRank_def jobStatus_defs)

lemma forward_advances:
  assumes "forwardTransition r status = Inr u" and "sameJob r r'" and "jStatus r' = status"
  shows "advances r r'"
  using assms by (auto simp: forwardTransition_def advances_def jobTerminal_def split: option.splits if_splits)

lemma terminal_advances:
  assumes "terminalTransition r status = Inr u" and "sameJob r r'" and "jStatus r' = status"
  shows "advances r r'"
  using assms by (auto simp: terminalTransition_def advances_def jobTerminal_def split: if_splits)

lemmas markDefs =
  MarkQueued_def MarkSyncing_def MarkBuilding_def MarkProgress_def MarkCleanup_def MarkSucceeded_def
  Job_MarkFailed_def MarkRolledBack_def MarkCancelled_def MarkInterrupted_def

lemma lifecycle_forward:
  "(\<And>r. sameJob r (f r) \<and> jStatus (f r) = status) \<Longrightarrow>
   lifecycle (\<lambda>r. rbind (forwardTransition r status) (\<lambda>_. Inr (f r)))"
  by (auto simp: lifecycle_def result_simps intro!: forward_advances)

lemma lifecycle_terminal:
  "(\<And>r. sameJob r (f r) \<and> jStatus (f r) = status) \<Longrightarrow>
   lifecycle (\<lambda>r. rbind (terminalTransition r status) (\<lambda>_. Inr (f r)))"
  by (auto simp: lifecycle_def result_simps intro!: terminal_advances)

lemma lifecycle_cleanup:
  "lifecycle (\<lambda>r. if isTerminalStatus (jStatus r) then Inl e else Inr (r\<lparr>jStage := stage\<rparr>))"
  by (auto simp: lifecycle_def advances_def jobTerminal_def sameJob_def)

text \<open>Every status change of the store is an update by a function of the lifecycle.\<close>

lemma mark_lifecycle:
  "\<exists>fn. lifecycle fn \<and> MarkQueued env i = updateJob env i fn"
  "\<exists>fn. lifecycle fn \<and> MarkSyncing env i = updateJob env i fn"
  "\<exists>fn. lifecycle fn \<and> MarkBuilding env i = updateJob env i fn"
  "\<exists>fn. lifecycle fn \<and> MarkProgress env i status stage = updateJob env i fn"
  "\<exists>fn. lifecycle fn \<and> MarkCleanup env i = updateJob env i fn"
  "\<exists>fn. lifecycle fn \<and> MarkSucceeded env i ver = updateJob env i fn"
  "\<exists>fn. lifecycle fn \<and> Job_MarkFailed env i errCode msg = updateJob env i fn"
  "\<exists>fn. lifecycle fn \<and> MarkRolledBack env i ver errCode msg = updateJob env i fn"
  "\<exists>fn. lifecycle fn \<and> MarkCancelled env i msg = updateJob env i fn"
  "\<exists>fn. lifecycle fn \<and> MarkInterrupted env i msg = updateJob env i fn"
  unfolding markDefs
  by (rule exI, rule conjI, rule_tac [2] refl,
      (rule lifecycle_cleanup | (rule lifecycle_forward, simp add: sameJob_def)
       | (rule lifecycle_terminal, simp add: sameJob_def)))+

lemma jobStep_shape:
  assumes "jobStep s s'"
  shows "(\<exists>env r. jAppName r \<noteq> '''' \<and> jDeliveryID r \<noteq> '''' \<and> jeNow env \<noteq> 0 \<and>
            s' = snd (JobStore_Create env (Some r) s)) \<or>
         (\<exists>env i fn. lifecycle fn \<and> s' = snd (updateJob env i fn s))"
  using assms by cases (blast | metis mark_lifecycle)+

section \<open>The invariant: memory and disk agree\<close>

definition jobInv :: "jobState \<Rightarrow> bool" where
  "jobInv s \<longleftrightarrow>
     distinct (map fst (jsJobs (fst s))) \<and>
     (\<forall>(k, r) \<in> set (jsJobs (fst s)). jID r = k \<and> jobRecordValid r \<and> snd s (jobPath k) = Some (JobData r)) \<and>
     (\<forall>n. hasSuffix ''.json'' n \<and> snd s n \<noteq> None \<longrightarrow> n \<in> jobPath ` fst ` set (jsJobs (fst s)))"

lemma jobPath_inject [simp]: "jobPath i = jobPath j \<longleftrightarrow> i = j"
  by (simp add: jobPath_def)

lemma jobPath_json [simp]: "hasSuffix ''.json'' (jobPath i)"
  by (simp add: jobPath_def)

lemma jobTmp_not_json [simp]: "\<not> hasSuffix ''.json'' (jobTmp i pid)"
  by (simp add: jobTmp_def hasSuffix_def hasPrefix_def)

lemma jobTmp_neq [simp]: "jobPath j \<noteq> jobTmp i pid"
  using jobPath_json jobTmp_not_json by metis

lemma persistJob_result:
  "fst (persistJob env r d) = Inr () \<Longrightarrow> snd (persistJob env r d) (jobPath (jID r)) = Some (JobData r)"
  "fst (persistJob env r d) = Inl e \<Longrightarrow> hasSuffix ''.json'' n \<Longrightarrow> snd (persistJob env r d) n = d n"
  "hasSuffix ''.json'' n \<Longrightarrow> n \<noteq> jobPath (jID r) \<Longrightarrow> snd (persistJob env r d) n = d n"
  by (auto simp: persistJob_def write_defs split: if_splits)

text \<open>A failed write leaves every job record as it was.\<close>

lemma jobInv_failed:
  assumes "jobInv (st, d)" and "fst (persistJob env r d) = Inl e"
  shows "jobInv (st, snd (persistJob env r d))"
  using assms persistJob_result(2) [OF assms(2)] by (force simp: jobInv_def)

text \<open>A successful write installs the record, whether the job is new or updated.\<close>

lemma jobInv_stored:
  assumes "jobInv (st, d)" and "fst (persistJob env r d) = Inr ()" and "jobRecordValid r"
  shows "jobInv (st\<lparr>jsJobs := AList.update (jID r) r (jsJobs st)\<rparr>, snd (persistJob env r d))"
proof -
  let ?d = "snd (persistJob env r d)" and ?J = "AList.update (jID r) r (jsJobs st)"
  have dist: "distinct (map fst ?J)" using assms(1) by (simp add: jobInv_def distinct_update)
  have keys: "fst ` set ?J = insert (jID r) (fst ` set (jsJobs st))"
    by (simp add: dom_update)
  have "jID v = k \<and> jobRecordValid v \<and> ?d (jobPath k) = Some (JobData v)" if "(k, v) \<in> set ?J" for k v
  proof (cases "k = jID r")
    case True
    have "map_of ?J k = Some v" using that dist by simp
    then have "v = r" by (simp add: True update_conv)
    with True show ?thesis using persistJob_result(1) [OF assms(2)] assms(3) by simp
  next
    case False
    have "map_of ?J k = Some v" using that dist by simp
    then have "map_of (jsJobs st) k = Some v" using False by (simp add: update_conv)
    then have "(k, v) \<in> set (jsJobs st)" by (rule map_of_SomeD)
    with False show ?thesis
      using assms(1) persistJob_result(3) [of "jobPath k" r env d] by (auto simp: jobInv_def)
  qed
  moreover have "n \<in> jobPath ` fst ` set ?J" if "hasSuffix ''.json'' n" "?d n \<noteq> None" for n
  proof (cases "n = jobPath (jID r)")
    case False
    then have "d n \<noteq> None" using that persistJob_result(3) [of n r env d] by simp
    then have "n \<in> jobPath ` fst ` set (jsJobs st)" using that(1) assms(1) by (simp add: jobInv_def)
    then show ?thesis by (auto simp: keys)
  qed (simp add: keys)
  ultimately show ?thesis using dist unfolding jobInv_def by auto
qed

section \<open>What the sweep removes\<close>

text \<open>The keys a sweep deletes: the first removable terminal records of its visiting order.\<close>

definition sweepVictims :: "jobEnv \<Rightarrow> int \<Rightarrow> (string \<times> jobRecord) list \<Rightarrow> (string \<times> jobRecord) list" where
  "sweepVictims env excess xs =
     take (nat excess) (filter (\<lambda>(k, r). jobTerminal r \<and> \<not> jeRemoveErr env (jobPath k)) xs)"

lemma sweepLoop_eq:
  "sweepLoop env excess xs J d =
     (filter (\<lambda>(k, r). k \<notin> fst ` set (sweepVictims env excess xs)) J,
      \<lambda>n. if n \<in> jobPath ` fst ` set (sweepVictims env excess xs) then None else d n)"
proof (induction env excess xs J d rule: sweepLoop.induct)
  case (2 env excess k r xs J d)
  show ?case
  proof (cases "0 < excess \<and> jobTerminal r \<and> \<not> jeRemoveErr env (jobPath k)")
    case True
    then have "nat excess = Suc (nat (excess - 1))" by arith
    then have victims: "sweepVictims env excess ((k, r) # xs) = (k, r) # sweepVictims env (excess - 1) xs"
      using True by (simp add: sweepVictims_def)
    have "sweepLoop env excess ((k, r) # xs) J d =
        sweepLoop env (excess - 1) xs (AList.delete k J) (d(jobPath k := None))" using True by simp
    also have "\<dots> =
        (filter (\<lambda>(j, r). j \<notin> fst ` set (sweepVictims env (excess - 1) xs)) (AList.delete k J),
         \<lambda>n. if n \<in> jobPath ` fst ` set (sweepVictims env (excess - 1) xs) then None else (d(jobPath k := None)) n)"
      using True by (intro 2(3)) auto
    finally show ?thesis by (auto simp: victims AList.delete_eq intro!: filter_cong)
  next
    case False
    then have "sweepVictims env excess ((k, r) # xs) = (if excess \<le> 0 then [] else sweepVictims env excess xs)"
      by (auto simp: sweepVictims_def)
    with False 2(1,2) show ?thesis by auto
  qed
qed (simp add: sweepVictims_def)

lemma set_sweepOrder [simp]: "set (sweepOrder J) = set J"
  by (simp add: sweepOrder_def)

lemma sweepVictims_mem: "(k, r) \<in> set (sweepVictims env excess xs) \<Longrightarrow> (k, r) \<in> set xs \<and> jobTerminal r"
  by (auto simp: sweepVictims_def dest: in_set_takeD)

text \<open>
  The effect of a sweep: the jobs and files of its victims go, everything else stays, and only
  terminal jobs are victims.
\<close>

definition sweptBy :: "jobEnv \<Rightarrow> jobStore \<Rightarrow> (string \<times> jobRecord) list" where
  "sweptBy env st =
     (if jsMax st \<le> 0 then []
      else sweepVictims env (int (length (jsJobs st)) - jsMax st) (sweepOrder (jsJobs st)))"

lemma sweepRetention_eq:
  "sweepRetention env (st, d) =
     (st\<lparr>jsJobs := filter (\<lambda>(k, r). k \<notin> fst ` set (sweptBy env st)) (jsJobs st)\<rparr>,
      \<lambda>n. if n \<in> jobPath ` fst ` set (sweptBy env st) then None else d n)"
  by (simp add: sweepRetention_def sweptBy_def sweepLoop_eq)

lemma sweptBy_terminal:
  assumes "distinct (map fst (jsJobs st))" and "k \<in> fst ` set (sweptBy env st)"
  shows "\<exists>r. map_of (jsJobs st) k = Some r \<and> jobTerminal r"
proof -
  from assms(2) obtain r where "(k, r) \<in> set (sweptBy env st)" by auto
  then have "(k, r) \<in> set (jsJobs st)" "jobTerminal r"
    by (auto simp: sweptBy_def split: if_splits dest: sweepVictims_mem)
  with assms(1) show ?thesis by auto
qed

lemma jobInv_sweep:
  assumes "jobInv s"
  shows "jobInv (sweepRetention env s)"
proof -
  obtain st d where s: "s = (st, d)" by (cases s)
  define V where "V = fst ` set (sweptBy env st)"
  define J where "J = filter (\<lambda>(k, r). k \<notin> V) (jsJobs st)"
  have swept: "sweepRetention env s = (st\<lparr>jsJobs := J\<rparr>, \<lambda>n. if n \<in> jobPath ` V then None else d n)"
    by (simp add: s sweepRetention_eq V_def J_def)
  have "distinct (map fst J)" using assms by (auto simp: J_def jobInv_def s intro: distinct_map_filter)
  moreover have "\<forall>(k, r) \<in> set J. jID r = k \<and> jobRecordValid r \<and> k \<notin> V \<and> d (jobPath k) = Some (JobData r)"
    using assms by (auto simp: J_def jobInv_def s)
  moreover have "n \<in> jobPath ` fst ` set J" if "n \<in> jobPath ` fst ` set (jsJobs st)" "n \<notin> jobPath ` V" for n
    using that by (force simp: J_def)
  ultimately show ?thesis using assms unfolding swept by (auto simp: jobInv_def s) (fastforce+)
qed

lemma map_of_filter_keys:
  "map_of (filter (\<lambda>(k, r). k \<notin> S) xs) k = (if k \<in> S then None else map_of xs k)"
  by (induction xs) auto

lemma sweep_lookup:
  "map_of (jsJobs (fst (sweepRetention env (st, d)))) k =
     (if k \<in> fst ` set (sweptBy env st) then None else map_of (jsJobs st) k)"
  by (simp add: sweepRetention_eq map_of_filter_keys)

section \<open>Every step keeps the invariant and the lifecycle\<close>

lemma advances_valid: "advances r r' \<Longrightarrow> jobRecordValid r \<Longrightarrow> jobRecordValid r'"
  by (auto simp: advances_def sameJob_def jobRecordValid_def jobTerminal_def isTerminalStatus_def jobStatus_defs
      dest: statusRank_nonempty)

lemma updateJob_cases:
  assumes "lifecycle fn" and "jobInv (st, d)"
  obtains (same) d' where "snd (updateJob env i fn (st, d)) = (st, d')" "jobInv (st, d')"
      "fst (updateJob env i fn (st, d)) \<noteq> Inr ()" "\<And>n. hasSuffix ''.json'' n \<Longrightarrow> d' n = d n"
  | (moved) r r' d' where "map_of (jsJobs st) i = Some r" "fn r = Inr r'" "advances r r'"
      "snd (updateJob env i fn (st, d)) = (st\<lparr>jsJobs := AList.update i r' (jsJobs st)\<rparr>, d')"
      "jobInv (st\<lparr>jsJobs := AList.update i r' (jsJobs st)\<rparr>, d')" "d' (jobPath i) = Some (JobData r')"
      "fst (updateJob env i fn (st, d)) = Inr ()"
proof (cases "\<exists>r r'. writable st = Inr () \<and> map_of (jsJobs st) i = Some r \<and> fn r = Inr r' \<and> jID r' = jID r")
  case True
  then obtain r r' where w: "writable st = Inr ()" and r: "map_of (jsJobs st) i = Some r" "fn r = Inr r'" by blast
  have adv: "advances r r'" using assms(1) r(2) by (simp add: lifecycle_def)
  have ids: "jID r = i" "jobRecordValid r"
    using assms(2) map_of_SomeD [OF r(1)] by (auto simp: jobInv_def)
  then have ids': "jID r' = i" "jobRecordValid r'"
    using adv advances_valid [OF adv] by (simp_all add: advances_def sameJob_def)
  have upd: "updateJob env i fn (st, d) =
      (case persistJob env r' d of (Inl e, d') \<Rightarrow> (Inl e, (st, d'))
       | (Inr _, d') \<Rightarrow> (Inr (), (st\<lparr>jsJobs := AList.update i r' (jsJobs st)\<rparr>, d')))"
    by (simp add: updateJob_def w r ids ids')
  obtain res d' where p: "persistJob env r' d = (res, d')" by (cases "persistJob env r' d")
  show thesis
  proof (cases res)
    case (Inl e)
    then have bad: "fst (persistJob env r' d) = Inl e" by (simp add: p)
    show thesis
      using same [of d'] jobInv_failed [OF assms(2) bad] persistJob_result(2) [OF bad]
      by (simp add: upd p Inl)
  next
    case (Inr u)
    then have ok: "fst (persistJob env r' d) = Inr ()" by (simp add: p)
    show thesis
      using moved [OF r adv, of d'] jobInv_stored [OF assms(2) ok ids'(2)] persistJob_result(1) [OF ok]
      by (simp add: upd p Inr ids')
  qed
next
  case False
  then have "snd (updateJob env i fn (st, d)) = (st, d) \<and> fst (updateJob env i fn (st, d)) \<noteq> Inr ()"
    by (auto simp: updateJob_def split: sum.splits option.splits)
  then show thesis using same [of d] assms(2) by simp
qed

lemma fillJob_fields [simp]:
  "jID (fillJob env r) = jID r" "jAppName (fillJob env r) = jAppName r" "jDeliveryID (fillJob env r) = jDeliveryID r"
  by (simp_all add: fillJob_def)

lemma withJobID_fields [simp]:
  "jAppName (withJobID env r) = jAppName r" "jDeliveryID (withJobID env r) = jDeliveryID r"
  "jID r \<noteq> '''' \<Longrightarrow> withJobID env r = r"
  by (simp_all add: withJobID_def)

lemma JobStore_Create_cases:
  assumes "jobInv (st, d)" and "jAppName r0 \<noteq> ''''" and "jDeliveryID r0 \<noteq> ''''" and "jeNow env \<noteq> 0"
  obtains (same) d' where "snd (JobStore_Create env (Some r0) (st, d)) = (st, d')" "jobInv (st, d')"
      "fst (JobStore_Create env (Some r0) (st, d)) \<noteq> Inr ()"
  | (stored) r d' where "r = fillJob env (withJobID env r0)" "map_of (jsJobs st) (jID r) = None"
      "snd (JobStore_Create env (Some r0) (st, d)) =
         sweepRetention env (st\<lparr>jsJobs := AList.update (jID r) r (jsJobs st)\<rparr>, d')"
      "jobInv (st\<lparr>jsJobs := AList.update (jID r) r (jsJobs st)\<rparr>, d')"
      "fst (JobStore_Create env (Some r0) (st, d)) = Inr ()"
proof -
  define r where "r = fillJob env (withJobID env r0)"
  have create: "JobStore_Create env (Some r0) (st, d) =
      (if \<not> validJobID (jID r) then (Inl CodeInvalidArgument, (st, d))
       else case writable st of
         Inl e \<Rightarrow> (Inl e, (st, d))
       | Inr _ \<Rightarrow>
           if map_of (jsJobs st) (jID r) \<noteq> None then (Inl CodeAlreadyExists, (st, d))
           else case persistJob env r d of
             (Inl e, d') \<Rightarrow> (Inl e, (st, d'))
           | (Inr _, d') \<Rightarrow> (Inr (), sweepRetention env (st\<lparr>jsJobs := AList.update (jID r) r (jsJobs st)\<rparr>, d')))"
    unfolding JobStore_Create_def r_def Let_def by simp
  show thesis
  proof (cases "validJobID (jID r) \<and> writable st = Inr () \<and> map_of (jsJobs st) (jID r) = None")
    case True
    have valid: "jobRecordValid r"
      using True assms(2-4) by (simp add: r_def jobRecordValid_def) (simp add: fillJob_def StatusAccepted_def)
    obtain res d' where p: "persistJob env r d = (res, d')" by (cases "persistJob env r d")
    show thesis
    proof (cases res)
      case (Inl e)
      then have "fst (persistJob env r d) = Inl e" by (simp add: p)
      from jobInv_failed [OF assms(1) this] show thesis
        using True by (intro same [of d']) (simp_all add: create p Inl)
    next
      case (Inr u)
      then have "fst (persistJob env r d) = Inr ()" by (simp add: p)
      from jobInv_stored [OF assms(1) this valid] show thesis
        using True by (intro stored [OF r_def, of d']) (simp_all add: create p Inr)
    qed
  next
    case False
    then have "snd (JobStore_Create env (Some r0) (st, d)) = (st, d)"
      "fst (JobStore_Create env (Some r0) (st, d)) \<noteq> Inr ()"
      by (auto simp: create split: sum.splits)
    then show thesis using same assms(1) by blast
  qed
qed

lemma jobStep_inv:
  assumes "jobStep s s'" and "jobInv s"
  shows "jobInv s'"
proof -
  obtain st d where s: "s = (st, d)" by (cases s)
  note inv = assms(2) [unfolded s]
  show ?thesis using jobStep_shape [OF assms(1)] unfolding s
  proof (elim disjE exE conjE)
    fix env r assume c: "jAppName r \<noteq> ''''" "jDeliveryID r \<noteq> ''''" "jeNow env \<noteq> 0"
      "s' = snd (JobStore_Create env (Some r) (st, d))"
    show ?thesis by (cases rule: JobStore_Create_cases [OF inv c(1-3)]) (simp_all add: c(4) jobInv_sweep)
  next
    fix env i fn assume c: "lifecycle fn" "s' = snd (updateJob env i fn (st, d))"
    show ?thesis by (cases rule: updateJob_cases [OF c(1) inv, of env i]) (simp_all add: c(2))
  qed
qed

lemma jobSteps_inv: "jobStep\<^sup>*\<^sup>* s s' \<Longrightarrow> jobInv s \<Longrightarrow> jobInv s'"
  by (induction rule: rtranclp_induct) (auto dest: jobStep_inv)

section \<open>Properties\<close>

text \<open>
  C22: The job state machine only moves forward. One operation of the store, with any
  failures, either leaves a job as it is, or removes a terminal one in a sweep, or moves an unfinished
  one forward: its status stays, advances in rank or becomes terminal, and its identity, delivery,
  application, branch, commit and acceptance time never change. In particular a terminal job never changes.
\<close>

theorem job_lifecycle:
  assumes "jobStep s s'" and "jobInv s" and "map_of (jsJobs (fst s)) k = Some r"
  shows "map_of (jsJobs (fst s')) k = Some r \<or>
         (jobTerminal r \<and> map_of (jsJobs (fst s')) k = None) \<or>
         (\<exists>r'. map_of (jsJobs (fst s')) k = Some r' \<and> advances r r')"
proof -
  obtain st d where s: "s = (st, d)" by (cases s)
  note inv = assms(2) [unfolded s] and k = assms(3) [unfolded s, simplified]
  show ?thesis using jobStep_shape [OF assms(1)] unfolding s
  proof (elim disjE exE conjE)
    fix env r0 assume c: "jAppName r0 \<noteq> ''''" "jDeliveryID r0 \<noteq> ''''" "jeNow env \<noteq> 0"
      "s' = snd (JobStore_Create env (Some r0) (st, d))"
    show ?thesis
    proof (cases rule: JobStore_Create_cases [OF inv c(1-3), case_names same stored])
      case (stored rn d')
      let ?st = "st\<lparr>jsJobs := AList.update (jID rn) rn (jsJobs st)\<rparr>"
      have "map_of (jsJobs ?st) k = Some r" using k stored(2) by (auto simp: update_conv)
      moreover have "distinct (map fst (jsJobs ?st))" using stored(4) by (simp add: jobInv_def)
      ultimately show ?thesis
        using sweptBy_terminal [of ?st k env] by (auto simp: c(4) stored(3) sweep_lookup simp del: jobStore.simps)
    qed (simp add: c(4) k)
  next
    fix env i fn assume c: "lifecycle fn" "s' = snd (updateJob env i fn (st, d))"
    show ?thesis
      using k by (cases rule: updateJob_cases [OF c(1) inv, of env i]) (auto simp: c(2) update_conv)
  qed
qed

definition demoJob :: jobRecord where
  "demoJob = \<lparr>jSchemaVersion = 1, jID = ''wh_0123456789abcdef'', jDeliveryID = ''d1'', jAppID = ''a1'',
     jAppName = ''web'', jBranch = ''main'', jCommit = ''c0ffee'', jProvider = ''github'', jStatus = StatusAccepted,
     jStage = StageQueue, jAcceptedAt = 5, jStartedAt = 0, jFinishedAt = 0, jVersion = 0, jErrorCode = '''',
     jErrorMessage = ''''\<rparr>"

definition quietJobEnv :: jobEnv where
  "quietJobEnv = \<lparr>jeIo = quietIo JobGarbage, jeRemoveErr = (\<lambda>_. False), jeRenameErr = (\<lambda>_. False),
     jeReadErr = (\<lambda>_. False), jePid = 7, jeNow = 9, jeUnix = 1, jeNanos = 1, jeRand = Some [1, 2, 3, 4, 5, 6, 7, 8],
     jeRedact = (\<lambda>m. m)\<rparr>"

definition demoJobState :: jobState where
  "demoJobState =
     (\<lparr>jsMax = 200, jsJobs = [(jID demoJob, demoJob)], jsReady = True, jsErr = None, jsReadOnly = False\<rparr>,
      [jobPath (jID demoJob) \<mapsto> JobData demoJob])"

lemma demoJob_valid: "jobRecordValid demoJob"
  by (simp add: demoJob_def jobRecordValid_def jobSchemaVersion_def validJobID_def hexId_def hasPrefix_def
      isLowerHex_def StatusAccepted_def)

lemma demoJobState_inv: "jobInv demoJobState"
  by (simp add: demoJobState_def jobInv_def demoJob_valid)

theorem job_lifecycle_witness:
  "map_of (jsJobs (fst (snd (MarkCancelled quietJobEnv (jID demoJob) ''bye'' demoJobState)))) (jID demoJob) = Some demoJob \<or>
   (\<exists>r'. map_of (jsJobs (fst (snd (MarkCancelled quietJobEnv (jID demoJob) ''bye'' demoJobState)))) (jID demoJob) = Some r'
      \<and> advances demoJob r')"
  using job_lifecycle [OF jobStep.cancelled demoJobState_inv, of "jID demoJob" demoJob quietJobEnv "jID demoJob" "''bye''"]
  by (auto simp: demoJobState_def jobTerminal_def) (simp add: demoJob_def)

section \<open>Durability\<close>

lemma jobInv_files:
  "jobInv (st, d) \<Longrightarrow> hasSuffix ''.json'' n \<Longrightarrow> n \<in> dom d \<Longrightarrow> n \<in> jobPath ` fst ` set (jsJobs st)"
  by (simp add: jobInv_def domIff)

lemma loadJobs_reload:
  assumes "jobInv (st, d)" and "\<And>n. \<not> jeReadErr env n" and "set ns \<subseteq> dom d"
  shows "snd (loadJobs env ro ns A d) = d \<and>
         map_of (fst (loadJobs env ro ns A d)) k =
           (if jobPath k \<in> set ns then map_of (jsJobs st) k else map_of A k)"
  using assms(3)
proof (induction ns arbitrary: A)
  case (Cons n ns)
  show ?case
  proof (cases "hasSuffix ''.json'' n")
    case True
    then have "n \<in> jobPath ` fst ` set (jsJobs st)"
      using Cons.prems by (intro jobInv_files [OF assms(1)]) simp_all
    then obtain j r where jr: "(j, r) \<in> set (jsJobs st)" and n: "n = jobPath j" by auto
    then have "d n = Some (JobData r)" "jobRecordValid r" "jID r = j" and "map_of (jsJobs st) j = Some r"
      using assms(1) by (auto simp: jobInv_def)
    moreover have "loadJobRecord env n d = Some r" using calculation assms(2) by (simp add: loadJobRecord_def)
    ultimately show ?thesis using Cons True by (auto simp: n update_conv)
  next
    case False
    then have "n \<noteq> jobPath k" by auto
    with False Cons show ?thesis by auto
  qed
qed simp

text \<open>
  C25: Every job the store knows survives a crash. After any history of operations with any failing
  system calls, a new store that loads the directory finds exactly the jobs the old one held in memory,
  each with its latest record, and repairs nothing.
\<close>

theorem job_store_crash_safe:
  assumes "jobStep\<^sup>*\<^sup>* s s'" and "jobInv s" and "set ns = dom (snd s')"
    and "\<And>n. \<not> jeReadErr env n" and "\<not> fails (jeIo env) IoMkdir"
  shows "JobStore_Get k (fst (snd (JobStore_Load env (Entries ns) (NewJobStore mx, snd s')))) = JobStore_Get k (fst s') \<and>
         snd (snd (JobStore_Load env (Entries ns) (NewJobStore mx, snd s'))) = snd s'"
proof -
  obtain st d where s: "s' = (st, d)" by (cases s')
  have inv: "jobInv (st, d)" using jobSteps_inv [OF assms(1,2)] by (simp add: s)
  have missing: "map_of (jsJobs st) k = None" if "d (jobPath k) = None" for k
    using inv that by (cases "map_of (jsJobs st) k") (auto simp: jobInv_def dest!: map_of_SomeD)
  note load = loadJobs_reload [OF inv assms(4), of ns False "[]" k]
  show ?thesis
    using load assms(3,5) missing [of k]
    by (auto simp: JobStore_Load_def NewJobStore_def JobStore_Get_def s domIff split: prod.splits)
qed

theorem job_store_crash_safe_witness:
  "JobStore_Get (jID demoJob) (fst (snd (JobStore_Load quietJobEnv (Entries [jobPath (jID demoJob)])
     (NewJobStore 200, snd demoJobState)))) = JobStore_Get (jID demoJob) (fst demoJobState)"
  by (rule job_store_crash_safe [THEN conjunct1, OF rtranclp.rtrancl_refl demoJobState_inv])
    (simp_all add: demoJobState_def quietJobEnv_def)

section \<open>Retention\<close>

lemma length_filter_victims:
  assumes "distinct (map fst xs)" and "set vs \<subseteq> set xs" and "distinct vs"
  shows "length (filter (\<lambda>(k, r). k \<notin> fst ` set vs) xs) + length vs = length xs"
proof -
  have "(k \<notin> fst ` set vs) = ((k, r) \<notin> set vs)" if "(k, r) \<in> set xs" for k r
    using that assms(1,2) by (force dest: eq_key_imp_eq_value)
  then have "filter (\<lambda>(k, r). k \<notin> fst ` set vs) xs = filter (\<lambda>x. x \<notin> set vs) xs"
    by (intro filter_cong) auto
  moreover have "length (filter (\<lambda>x. x \<in> set vs) xs) = length vs"
  proof -
    have "distinct xs" using assms(1) by (simp add: distinct_map)
    then have "length (filter (\<lambda>x. x \<in> set vs) xs) = card (set xs \<inter> set vs)"
      by (simp add: distinct_length_filter Int_commute)
    then show ?thesis using assms(2,3) by (simp add: Int_absorb1 distinct_card)
  qed
  ultimately show ?thesis using sum_length_filter_compl [of "\<lambda>x. x \<in> set vs" xs] by simp
qed

lemma sorted_take_drop_less:
  assumes "sorted (map f xs)" and "distinct (map f xs)" and "x \<in> set (take n xs)" and "y \<in> set (drop n xs)"
  shows "f x < (f y :: 'a :: linorder)"
proof -
  have xs: "map f xs = map f (take n xs) @ map f (drop n xs)" by (metis append_take_drop_id map_append)
  with assms have "f x \<le> f y" unfolding xs sorted_append by auto
  moreover have "f x \<noteq> f y" using assms(2-4) unfolding xs distinct_append by (metis IntI empty_iff image_eqI set_map)
  ultimately show ?thesis by simp
qed

lemma sweepOrder_sorted:
  assumes "jobInv (st, d)"
  shows "sorted (map (\<lambda>(k, r). (jAcceptedAt r, jID r)) (filter P (sweepOrder (jsJobs st))))"
    and "distinct (map (\<lambda>(k, r). (jAcceptedAt r, jID r)) (filter P (sweepOrder (jsJobs st))))"
proof -
  show "sorted (map (\<lambda>(k, r). (jAcceptedAt r, jID r)) (filter P (sweepOrder (jsJobs st))))"
    unfolding sweepOrder_def by (intro sorted_filter sorted_sort_key)
  have "distinct (map fst (sweepOrder (jsJobs st)))"
    using assms by (simp add: sweepOrder_def jobInv_def distinct_map inj_on_def)
  then have "distinct (sweepOrder (jsJobs st))" by (simp add: distinct_map)
  moreover have "inj_on (\<lambda>(k, r). (jAcceptedAt r, jID r)) (set (jsJobs st))"
  proof (rule inj_onI)
    fix x y assume xy: "x \<in> set (jsJobs st)" "y \<in> set (jsJobs st)"
      "(case x of (k, r) \<Rightarrow> (jAcceptedAt r, jID r)) = (case y of (k, r) \<Rightarrow> (jAcceptedAt r, jID r))"
    have "jID (snd z) = fst z" if "z \<in> set (jsJobs st)" for z using assms that by (auto simp: jobInv_def)
    with xy have "fst x = fst y" by (simp add: split_beta)
    moreover have "inj_on fst (set (jsJobs st))" using assms by (simp add: jobInv_def distinct_map)
    ultimately show "x = y" using xy(1,2) by (simp add: inj_on_def)
  qed
  ultimately show "distinct (map (\<lambda>(k, r). (jAcceptedAt r, jID r)) (filter P (sweepOrder (jsJobs st))))"
    by (auto simp: distinct_map intro: inj_on_subset)
qed

text \<open>
  Retention removes exactly the right jobs. With a positive limit and no failing removal, a sweep
  keeps every unfinished job, ends within the limit or with no finished job left, never goes
  below the limit, and every finished job it removes is older than every finished job it keeps.
\<close>

theorem job_retention:
  assumes "jobInv (st, d)" and "0 < jsMax st" and "\<And>n. \<not> jeRemoveErr env n"
    and "st' = fst (sweepRetention env (st, d))"
  shows "(\<forall>(k, r) \<in> set (jsJobs st). \<not> jobTerminal r \<longrightarrow> (k, r) \<in> set (jsJobs st')) \<and>
         (int (JobStore_Count st') \<le> jsMax st \<or> (\<forall>(k, r) \<in> set (jsJobs st'). \<not> jobTerminal r)) \<and>
         (jsJobs st' = jsJobs st \<or> jsMax st \<le> int (JobStore_Count st')) \<and>
         (\<forall>(k, r) \<in> set (jsJobs st). \<forall>(k', r') \<in> set (jsJobs st').
            (k, r) \<notin> set (jsJobs st') \<and> jobTerminal r' \<longrightarrow> (jAcceptedAt r, jID r) < (jAcceptedAt r', jID r'))"
    (is "?active \<and> ?bound \<and> ?tight \<and> ?oldest")
proof -
  define f :: "string \<times> jobRecord \<Rightarrow> int \<times> string" where "f = (\<lambda>(k, r). (jAcceptedAt r, jID r))"
  define T where "T = filter (\<lambda>(k, r). jobTerminal r) (sweepOrder (jsJobs st))"
  define n where "n = nat (int (length (jsJobs st)) - jsMax st)"
  define V where "V = take n T"
  have swept: "sweptBy env st = V"
    using assms(2,3) by (simp add: sweptBy_def sweepVictims_def V_def T_def n_def)
  have jobs: "jsJobs st' = filter (\<lambda>(k, r). k \<notin> fst ` set V) (jsJobs st)"
    by (simp add: assms(4) sweepRetention_eq swept)
  have dist: "distinct (map fst (jsJobs st))" using assms(1) by (simp add: jobInv_def)
  note sorted = sweepOrder_sorted [OF assms(1), of "\<lambda>(k, r). jobTerminal r", folded T_def f_def]
  have VJ: "set V \<subseteq> set (jsJobs st)" and VT: "\<And>k r. (k, r) \<in> set V \<Longrightarrow> jobTerminal r"
    by (auto simp: V_def T_def dest: in_set_takeD)
  have distV: "distinct V" using sorted(2) by (simp add: V_def distinct_map)
  have mem: "(k, r) \<in> set (jsJobs st') \<longleftrightarrow> (k, r) \<in> set (jsJobs st) \<and> (k, r) \<notin> set V" for k r
    using dist VJ by (force simp: jobs dest: eq_key_imp_eq_value)
  have count: "JobStore_Count st' + length V = length (jsJobs st)"
    using length_filter_victims [OF dist VJ distV] by (simp add: JobStore_Count_def jobs)
  have ?active using mem VT by blast
  moreover have ?bound
  proof (cases "n \<le> length T")
    case True
    then have "length V = n" by (simp add: V_def)
    with count show ?thesis using n_def by linarith
  next
    case False
    then have "set V = set T" by (simp add: V_def)
    then show ?thesis using mem by (auto simp: T_def)
  qed
  moreover have ?tight
  proof (cases "n = 0")
    case False
    then have "int (length (jsJobs st)) - jsMax st = int n" by (simp add: n_def)
    moreover have "length V \<le> n" by (simp add: V_def)
    ultimately show ?thesis using count by linarith
  qed (simp add: jobs V_def)
  moreover have "f (k, r) < f (k', r')"
    if "(k, r) \<in> set (jsJobs st)" "(k', r') \<in> set (jsJobs st')" "(k, r) \<notin> set (jsJobs st')" "jobTerminal r'" for k r k' r'
  proof (rule sorted_take_drop_less [OF sorted])
    show "(k, r) \<in> set (take n T)" using mem that(1,3) by (simp add: V_def)
    have "(k', r') \<in> set T" using that(2,4) by (auto simp: mem T_def)
    moreover have "(k', r') \<notin> set (take n T)" using that(2) by (simp add: mem V_def)
    ultimately show "(k', r') \<in> set (drop n T)" by (metis UnE append_take_drop_id set_append)
  qed
  then have ?oldest by (auto simp: f_def)
  ultimately show ?thesis by blast
qed

theorem job_retention_witness:
  "JobStore_Count (fst (sweepRetention quietJobEnv demoJobState)) \<le> 200"
proof -
  obtain st d where s: "demoJobState = (st, d)" by (cases demoJobState)
  then have st: "jsMax st = 200" "\<not> jobTerminal demoJob" "jsJobs st = [(jID demoJob, demoJob)]"
    by (auto simp: demoJobState_def demoJob_def jobTerminal_def)
  show ?thesis
    using job_retention [of st d quietJobEnv, OF demoJobState_inv [unfolded s] _ _ refl] st
    by (auto simp: s quietJobEnv_def sweepRetention_eq JobStore_Count_def)
qed

section \<open>Recovery\<close>

definition quietEnvs :: "jobEnv \<times> jobEnv \<Rightarrow> bool" where
  "quietEnvs es \<longleftrightarrow> (\<forall>st. \<not> fails (jeIo (fst es)) st \<and> \<not> fails (jeIo (snd es)) st)"

text \<open>No temporary file is left over from an earlier write.\<close>

definition noTmp :: "jobFile dir \<Rightarrow> bool" where
  "noTmp d \<longleftrightarrow> (\<forall>i pid. d (jobTmp i pid) = None)"

lemma updateJob_quiet:
  assumes "writable st = Inr ()" and "map_of (jsJobs st) i = Some r" and "jID r = i" and "fn r = Inr r'"
    and "jID r' = i" and "\<And>x. \<not> fails (jeIo env) x" and "noTmp d"
  shows "updateJob env i fn (st, d) =
    (Inr (), (st\<lparr>jsJobs := AList.update i r' (jsJobs st)\<rparr>, d(jobPath i \<mapsto> JobData r')))"
  using assms by (auto simp: updateJob_def persistJob_def write_defs noTmp_def fun_eq_iff)

text \<open>The record recovery leaves for an interrupted job.\<close>

definition recoverEvidence :: "(string \<Rightarrow> (code, 'r versionMeta option) result) \<Rightarrow> jobRecord \<Rightarrow> int option" where
  "recoverEvidence cv job =
     (if rankOf (jStatus job) \<ge> rankOf StatusBuilding then deployedBy (cv (jAppName job)) job else None)"

definition closedJob :: "jobEnv \<times> jobEnv \<Rightarrow> (string \<Rightarrow> (code, 'r versionMeta option) result) \<Rightarrow> jobRecord \<Rightarrow> jobRecord" where
  "closedJob es cv job =
     (case recoverEvidence cv job of
        Some ver \<Rightarrow> job\<lparr>jStatus := StatusSucceeded, jStage := StageCleanup, jVersion := ver, jErrorCode := '''',
                       jErrorMessage := '''', jFinishedAt := jeNow (fst es)\<rparr>
      | None \<Rightarrow> job\<lparr>jStatus := StatusFailed, jStage := StageRecovery, jErrorCode := JobErrInterrupted,
                   jErrorMessage := SanitizeJobMessage (jeRedact (snd es)) (interruptedMsg (jStatus job)),
                   jFinishedAt := jeNow (snd es)\<rparr>)"

lemma closedJob_id [simp]: "jID (closedJob es cv job) = jID job"
  by (simp add: closedJob_def split: option.splits)

lemma recoverJob_quiet:
  assumes "writable st = Inr ()" and "map_of (jsJobs st) (jID job) = Some job" and "jobActive job"
    and "quietEnvs es" and "noTmp d"
  shows "snd (recoverJob es cv job (st, d)) =
    (st\<lparr>jsJobs := AList.update (jID job) (closedJob es cv job) (jsJobs st)\<rparr>,
     d(jobPath (jID job) \<mapsto> JobData (closedJob es cv job)))"
proof -
  have open_: "terminalTransition job StatusSucceeded = Inr ()" "terminalTransition job StatusFailed = Inr ()"
    using assms(3) by (simp_all add: terminalTransition_def jobActive_def)
  note upd = updateJob_quiet [OF assms(1,2) refl _ _ _ assms(5)]
  have quiet: "\<not> fails (jeIo (fst es)) x" "\<not> fails (jeIo (snd es)) x" for x
    using assms(4) by (simp_all add: quietEnvs_def)
  show ?thesis
  proof (cases "recoverEvidence cv job")
    case None
    then show ?thesis using quiet
      by (simp add: recoverJob_def recoverEvidence_def Let_def MarkInterrupted_def upd open_ closedJob_def
          split: if_splits)
  next
    case (Some ver)
    then show ?thesis using quiet
      by (simp add: recoverJob_def recoverEvidence_def Let_def MarkSucceeded_def upd open_ closedJob_def
          split: if_splits)
  qed
qed

lemma recoverLoop_quiet:
  assumes "writable st = Inr ()" and "\<forall>j \<in> set jobs. map_of (jsJobs st) (jID j) = Some j \<and> jobActive j"
    and "distinct (map jID jobs)" and "\<And>i. quietEnvs (es i)" and "noTmp d"
  shows "map_of (jsJobs (fst (snd (recoverLoop es cv jobs (st, d))))) k =
    (case map_of (jsJobs st) k of None \<Rightarrow> None
     | Some r \<Rightarrow> Some (if r \<in> set jobs \<and> jID r = k then closedJob (es k) cv r else r))"
  using assms(1-3,5)
proof (induction jobs arbitrary: st d)
  case Nil
  then show ?case by (simp split: option.splits)
next
  case (Cons job jobs)
  let ?r = "closedJob (es (jID job)) cv job"
  let ?st = "st\<lparr>jsJobs := AList.update (jID job) ?r (jsJobs st)\<rparr>" and ?d = "d(jobPath (jID job) \<mapsto> JobData ?r)"
  have job: "map_of (jsJobs st) (jID job) = Some job" "jobActive job" using Cons.prems(2) by auto
  have step: "snd (recoverJob (es (jID job)) cv job (st, d)) = (?st, ?d)"
    by (rule recoverJob_quiet [OF Cons.prems(1) job assms(4) Cons.prems(4)])
  have other: "jID j \<noteq> jID job" if "j \<in> set jobs" for j
    using Cons.prems(3) imageI [OF that, of jID] by (simp only: list.map distinct.simps set_map) metis
  have new: "?r \<notin> set jobs" using other [of ?r] by auto
  have "map_of (jsJobs (fst (snd (recoverLoop es cv jobs (?st, ?d))))) k =
      (case map_of (jsJobs ?st) k of None \<Rightarrow> None
       | Some r \<Rightarrow> Some (if r \<in> set jobs \<and> jID r = k then closedJob (es k) cv r else r))"
  proof (rule Cons.IH)
    show "writable ?st = Inr ()" using Cons.prems(1) by (simp add: writable_def split: if_splits)
    show "\<forall>j\<in>set jobs. map_of (jsJobs ?st) (jID j) = Some j \<and> jobActive j"
      using Cons.prems(2) other by (simp add: update_conv)
    show "distinct (map jID jobs)" using Cons.prems(3) by simp
    show "noTmp ?d" using Cons.prems(4) by (simp add: noTmp_def jobTmp_neq [symmetric])
  qed
  moreover have "snd (recoverLoop es cv (job # jobs) (st, d)) = snd (recoverLoop es cv jobs (?st, ?d))"
    using step by (simp add: split_beta)
  ultimately show ?case
    using job other new by (auto simp: update_conv split: option.splits)
qed

text \<open>
  Recovery closes every interrupted job and invents no success. On a writable store whose writes
  succeed, each unfinished job becomes terminal: succeeded with the current version exactly when its rebuild
  had started and the current version is its commit, deployed since it was accepted, and otherwise failed as
  interrupted; finished jobs are untouched and no job appears or disappears.
\<close>

theorem recovery_closes_jobs:
  assumes "jobInv (st, d)" and "writable st = Inr ()" and "\<And>i. quietEnvs (es i)" and "noTmp d"
    and "st' = fst (snd (RecoverInterrupted es (Some cv) (st, d)))"
  shows "case map_of (jsJobs st) k of
           None \<Rightarrow> map_of (jsJobs st') k = None
         | Some r \<Rightarrow> \<exists>r'. map_of (jsJobs st') k = Some r' \<and>
             (if jobTerminal r then r' = r
              else sameJob r r' \<and>
                   (case (if 3 \<le> rankOf (jStatus r) then deployedBy (cv (jAppName r)) r else None) of
                      Some ver \<Rightarrow> jStatus r' = StatusSucceeded \<and> jVersion r' = ver
                    | None \<Rightarrow> jStatus r' = StatusFailed \<and> jErrorCode r' = JobErrInterrupted))"
proof -
  let ?jobs = "filter jobActive (map snd (jsJobs st))"
  have entry: "jID r = k \<and> jobRecordValid r" if "map_of (jsJobs st) k = Some r" for k r
    using assms(1) map_of_SomeD [OF that] by (auto simp: jobInv_def)
  have mem: "map_of (jsJobs st) (jID j) = Some j \<and> jobActive j" if "j \<in> set ?jobs" for j
    using that assms(1) by (auto simp: jobInv_def)
  have "map jID (map snd (jsJobs st)) = map fst (jsJobs st)"
    using assms(1) by (auto simp: jobInv_def)
  moreover have "distinct (map fst (jsJobs st))" using assms(1) by (simp add: jobInv_def)
  ultimately have dist: "distinct (map jID ?jobs)" by (intro distinct_map_filter) (simp only:)
  have "map_of (jsJobs st') k =
      (case map_of (jsJobs st) k of None \<Rightarrow> None
       | Some r \<Rightarrow> Some (if r \<in> set ?jobs \<and> jID r = k then closedJob (es k) cv r else r))"
    unfolding assms(5) RecoverInterrupted_def fst_conv option.case
    by (rule recoverLoop_quiet [OF assms(2) _ dist assms(3,4)]) (use mem in blast)
  moreover have "(r \<in> set ?jobs \<and> jID r = k) = (\<not> jobTerminal r)" if "map_of (jsJobs st) k = Some r" for r
    using entry [OF that] imageI [OF map_of_SomeD [OF that], of snd]
    by (auto simp: jobActive_def jobTerminal_def jobRecordValid_def)
  moreover have "rankOf StatusBuilding = 3" by (simp add: rankOf_def statusRank_def jobStatus_defs)
  ultimately show ?thesis
    by (cases "map_of (jsJobs st) k") (auto simp: closedJob_def recoverEvidence_def sameJob_def split: option.splits)
qed

theorem recovery_closes_jobs_witness:
  "jStatus (the (map_of (jsJobs (fst (snd (RecoverInterrupted (\<lambda>_. (quietJobEnv, quietJobEnv))
     (Some (\<lambda>_. (Inl CodeFilesystem :: (code, nat versionMeta option) result))) demoJobState)))) (jID demoJob))) = StatusFailed"
proof -
  obtain st d where s: "demoJobState = (st, d)" by (cases demoJobState)
  then have st: "writable st = Inr ()" "map_of (jsJobs st) (jID demoJob) = Some demoJob" "\<not> jobTerminal demoJob"
    "noTmp d"
    by (auto simp: demoJobState_def demoJob_def jobTerminal_def writable_def noTmp_def jobTmp_neq [symmetric])
  have quiet: "quietEnvs (quietJobEnv, quietJobEnv)" by (simp add: quietEnvs_def quietJobEnv_def)
  show ?thesis
    using recovery_closes_jobs [OF demoJobState_inv [unfolded s] st(1) quiet st(4) refl,
        where k = "jID demoJob" and cv = "\<lambda>_. (Inl CodeFilesystem :: (code, nat versionMeta option) result)"] st(2,3)
    by (auto simp: s deployedBy_def split: if_splits)
qed

end
