(* ===== verification/HookQueue.thy ===== *)
theory HookQueue
  imports Errors
begin

text \<open>
  The webhook build queue (\<open>internal/webhook/queue.go\<close>): one worker goroutine per application, each with a
  buffered channel and a stop channel, and a mutex that makes \<open>Enqueue\<close> atomic.  The worker loop
  \<open>run\<close> is a small-step machine: its program counter says at which \<open>select\<close> it stands, and a step names the
  arm the scheduler picks among the ready ones.  The callbacks (\<open>onJobStart\<close>, \<open>onJobDone\<close>,
  \<open>onJobDropped\<close>) are recorded as a trace.  A job handed to a worker that already waits in its \<open>select\<close> is a
  buffered send followed by the worker's step.  \<open>qAccepted\<close> is a history variable: the jobs
  \<open>Enqueue\<close> returned no error for.
\<close>

record hookJob =
  hjID :: string
  hjAppID :: string
  hjAppName :: string
  hjDirectory :: string
  hjBranch :: string
  hjCommitSHA :: string
  hjDeliveryID :: string
  hjProvider :: string
  hjReceivedAt :: int

definition perAppQueueDepth :: nat where "perAppQueueDepth = 8"

datatype workerPc = AtCheck | AtSelect | Running hookJob | Draining | Exited

record appWorker =
  wJobs :: "hookJob list"
  wStop :: bool
  wPc :: workerPc

datatype queueEvent = JobStart hookJob | JobDone hookJob bool | JobDropped hookJob

record hookQueue =
  qWorkers :: "string \<rightharpoonup> appWorker"
  qClosed :: bool
  qCancelled :: bool
  qTrace :: "queueEvent list"
  qAccepted :: "hookJob list"

definition NewQueue :: hookQueue where
  "NewQueue = \<lparr>qWorkers = Map.empty, qClosed = False, qCancelled = False, qTrace = [], qAccepted = []\<rparr>"

definition newWorker :: appWorker where
  "newWorker = \<lparr>wJobs = [], wStop = False, wPc = AtCheck\<rparr>"

text \<open>\<open>ErrQueueFull\<close> and \<open>ErrQueueClosed\<close> both carry \<^const>\<open>CodeUnavailable\<close>.\<close>

definition Enqueue :: "hookJob \<Rightarrow> hookQueue \<Rightarrow> (code, unit) result \<times> hookQueue" where
  "Enqueue job q =
     (if qClosed q then (Inl CodeUnavailable, q)
      else
        let w = (case qWorkers q (hjAppName job) of None \<Rightarrow> newWorker | Some w \<Rightarrow> w) in
        if length (wJobs w) < perAppQueueDepth then
          (Inr (), q\<lparr>qWorkers := (qWorkers q)(hjAppName job \<mapsto> w\<lparr>wJobs := wJobs w @ [job]\<rparr>),
                     qAccepted := qAccepted q @ [job]\<rparr>)
        else (Inl CodeUnavailable, q\<lparr>qWorkers := (qWorkers q)(hjAppName job \<mapsto> w)\<rparr>))"

text \<open>The arm a worker takes: a job, the stop signal, the default arm, or the end of its rebuild.\<close>

datatype arm = TakeJob | TakeStop | TakeDefault | Finish bool

definition run :: "arm \<Rightarrow> appWorker \<Rightarrow> (appWorker \<times> queueEvent list) option" where
  "run a w =
     (case (wPc w, a) of
        (AtCheck, TakeStop) \<Rightarrow> if wStop w then Some (w\<lparr>wPc := Draining\<rparr>, []) else None
      | (AtCheck, TakeDefault) \<Rightarrow> if wStop w then None else Some (w\<lparr>wPc := AtSelect\<rparr>, [])
      | (AtSelect, TakeJob) \<Rightarrow>
          (case wJobs w of
             [] \<Rightarrow> None
           | job # rest \<Rightarrow> Some (w\<lparr>wJobs := rest, wPc := Running job\<rparr>, [JobStart job]))
      | (AtSelect, TakeStop) \<Rightarrow> if wStop w then Some (w\<lparr>wPc := Draining\<rparr>, []) else None
      | (Running job, Finish ok) \<Rightarrow> Some (w\<lparr>wPc := AtCheck\<rparr>, [JobDone job ok])
      | (Draining, TakeJob) \<Rightarrow>
          (case wJobs w of
             [] \<Rightarrow> None
           | job # rest \<Rightarrow> Some (w\<lparr>wJobs := rest\<rparr>, [JobDropped job]))
      | (Draining, TakeDefault) \<Rightarrow> if wJobs w = [] then Some (w\<lparr>wPc := Exited\<rparr>, []) else None
      | _ \<Rightarrow> None)"

text \<open>\<open>Close\<close>: the flag flips under the mutex, then the context is cancelled, then every worker is stopped.\<close>

definition closeFlag :: "hookQueue \<Rightarrow> hookQueue" where
  "closeFlag q = q\<lparr>qClosed := True\<rparr>"

definition closeCancel :: "hookQueue \<Rightarrow> hookQueue" where
  "closeCancel q = q\<lparr>qCancelled := True\<rparr>"

definition closeStop :: "string \<Rightarrow> hookQueue \<Rightarrow> hookQueue" where
  "closeStop app q =
     q\<lparr>qWorkers := (qWorkers q)(app := map_option (\<lambda>w. w\<lparr>wStop := True\<rparr>) (qWorkers q app))\<rparr>"

inductive queueStep :: "hookQueue \<Rightarrow> hookQueue \<Rightarrow> bool" where
  enqueue: "queueStep q (snd (Enqueue job q))"
| worker: "qWorkers q app = Some w \<Longrightarrow> run a w = Some (w', evs) \<Longrightarrow>
     queueStep q (q\<lparr>qWorkers := (qWorkers q)(app \<mapsto> w'), qTrace := qTrace q @ evs\<rparr>)"
| flag: "\<not> qClosed q \<Longrightarrow> queueStep q (closeFlag q)"
| cancel: "qClosed q \<Longrightarrow> \<not> qCancelled q \<Longrightarrow> queueStep q (closeCancel q)"
| stop: "qClosed q \<Longrightarrow> qCancelled q \<Longrightarrow> queueStep q (closeStop app q)"

inductive_cases queueStepE: "queueStep q q'"

section \<open>The history of one application\<close>

definition ofApp :: "string \<Rightarrow> hookJob list \<Rightarrow> hookJob list" where
  "ofApp app js = filter (\<lambda>j. hjAppName j = app) js"

fun startedIn :: "queueEvent list \<Rightarrow> hookJob list" where
  "startedIn [] = []"
| "startedIn (JobStart j # es) = j # startedIn es"
| "startedIn (_ # es) = startedIn es"

fun doneIn :: "queueEvent list \<Rightarrow> hookJob list" where
  "doneIn [] = []"
| "doneIn (JobDone j _ # es) = j # doneIn es"
| "doneIn (_ # es) = doneIn es"

fun droppedIn :: "queueEvent list \<Rightarrow> hookJob list" where
  "droppedIn [] = []"
| "droppedIn (JobDropped j # es) = j # droppedIn es"
| "droppedIn (_ # es) = droppedIn es"

lemma startedIn_append [simp]: "startedIn (xs @ ys) = startedIn xs @ startedIn ys"
  by (induction xs rule: startedIn.induct) auto

lemma doneIn_append [simp]: "doneIn (xs @ ys) = doneIn xs @ doneIn ys"
  by (induction xs rule: doneIn.induct) auto

lemma droppedIn_append [simp]: "droppedIn (xs @ ys) = droppedIn xs @ droppedIn ys"
  by (induction xs rule: droppedIn.induct) auto

lemma ofApp_simps [simp]:
  "ofApp app [] = []" "ofApp app (xs @ ys) = ofApp app xs @ ofApp app ys"
  "ofApp app (j # js) = (if hjAppName j = app then j # ofApp app js else ofApp app js)"
  by (simp_all add: ofApp_def)

lemma ofApp_all: "\<forall>j \<in> set js. hjAppName j = app \<Longrightarrow> ofApp app js = js"
  by (simp add: ofApp_def)

lemma ofApp_none: "\<forall>j \<in> set js. hjAppName j \<noteq> app \<Longrightarrow> ofApp app js = []"
  by (simp add: ofApp_def)

definition inFlight :: "appWorker \<Rightarrow> hookJob list" where
  "inFlight w = (case wPc w of Running j \<Rightarrow> [j] | _ \<Rightarrow> [])"

text \<open>
  The invariant of one worker against the history of its application: every accepted job is, in acceptance order,
  started, then dropped, then still buffered; what was started is finished but for the job in
  flight; drops only happen once the worker drains, which only happens after its stop signal.
\<close>

definition workerInv :: "string \<Rightarrow> hookQueue \<Rightarrow> appWorker \<Rightarrow> bool" where
  "workerInv app q w \<longleftrightarrow>
     (\<forall>j \<in> set (wJobs w) \<union> set (inFlight w). hjAppName j = app) \<and>
     length (wJobs w) \<le> perAppQueueDepth \<and>
     (wStop w \<longrightarrow> qClosed q) \<and>
     (wPc w \<in> {Draining, Exited} \<longrightarrow> wStop w) \<and>
     (wPc w = Exited \<longrightarrow> wJobs w = []) \<and>
     (ofApp app (droppedIn (qTrace q)) \<noteq> [] \<longrightarrow> wPc w \<in> {Draining, Exited}) \<and>
     ofApp app (qAccepted q) = ofApp app (startedIn (qTrace q)) @ ofApp app (droppedIn (qTrace q)) @ wJobs w \<and>
     ofApp app (startedIn (qTrace q)) = ofApp app (doneIn (qTrace q)) @ inFlight w"

definition queueInv :: "hookQueue \<Rightarrow> bool" where
  "queueInv q \<longleftrightarrow>
     (\<forall>app. case qWorkers q app of
        None \<Rightarrow> ofApp app (qAccepted q) = [] \<and> ofApp app (startedIn (qTrace q)) = [] \<and>
                ofApp app (doneIn (qTrace q)) = [] \<and> ofApp app (droppedIn (qTrace q)) = []
      | Some w \<Rightarrow> workerInv app q w)"

lemma queueInv_new: "queueInv NewQueue"
  by (simp add: queueInv_def NewQueue_def)

lemma queueInv_worker: "queueInv q \<Longrightarrow> qWorkers q app = Some w \<Longrightarrow> workerInv app q w"
  by (auto simp: queueInv_def dest!: spec [of _ app])

text \<open>Another application's worker sees nothing of a step.\<close>

lemma queueInv_frame:
  assumes "queueInv q" and "\<And>a. a \<noteq> app \<Longrightarrow> qWorkers q' a = qWorkers q a"
    and "\<And>a. a \<noteq> app \<Longrightarrow> ofApp a (qAccepted q') = ofApp a (qAccepted q)"
    and "\<And>a. a \<noteq> app \<Longrightarrow> ofApp a (startedIn (qTrace q')) = ofApp a (startedIn (qTrace q))"
    and "\<And>a. a \<noteq> app \<Longrightarrow> ofApp a (doneIn (qTrace q')) = ofApp a (doneIn (qTrace q))"
    and "\<And>a. a \<noteq> app \<Longrightarrow> ofApp a (droppedIn (qTrace q')) = ofApp a (droppedIn (qTrace q))"
    and "qClosed q \<Longrightarrow> qClosed q'"
    and "qWorkers q' app = Some w" and "workerInv app q' w"
  shows "queueInv q'"
  unfolding queueInv_def
proof
  fix a
  show "case qWorkers q' a of
        None \<Rightarrow> ofApp a (qAccepted q') = [] \<and> ofApp a (startedIn (qTrace q')) = [] \<and>
                ofApp a (doneIn (qTrace q')) = [] \<and> ofApp a (droppedIn (qTrace q')) = []
      | Some w \<Rightarrow> workerInv a q' w"
  proof (cases "a = app")
    case True
    with assms(8,9) show ?thesis by simp
  next
    case False
    note eqs = assms(2-6) [OF False]
    from assms(1) have "case qWorkers q a of
        None \<Rightarrow> ofApp a (qAccepted q) = [] \<and> ofApp a (startedIn (qTrace q)) = [] \<and>
                ofApp a (doneIn (qTrace q)) = [] \<and> ofApp a (droppedIn (qTrace q)) = []
      | Some w \<Rightarrow> workerInv a q w" by (simp add: queueInv_def)
    then show ?thesis using assms(7) by (auto simp: eqs workerInv_def split: option.splits)
  qed
qed

lemma workerInv_Enqueue:
  assumes "queueInv q" and "\<not> qClosed q" and "app = hjAppName job"
    and "w = (case qWorkers q app of None \<Rightarrow> newWorker | Some w \<Rightarrow> w)"
  shows "workerInv app q w" and "wPc w \<notin> {Draining, Exited}"
proof -
  show inv: "workerInv app q w"
    using assms(1,4) by (cases "qWorkers q app")
      (auto simp: queueInv_def workerInv_def newWorker_def inFlight_def dest!: spec [of _ app])
  then show "wPc w \<notin> {Draining, Exited}" using assms(2) by (auto simp: workerInv_def)
qed

lemma queueInv_Enqueue:
  assumes "queueInv q"
  shows "queueInv (snd (Enqueue job q))"
proof (cases "qClosed q")
  case False
  define w where "w = (case qWorkers q (hjAppName job) of None \<Rightarrow> newWorker | Some w \<Rightarrow> w)"
  note inv = workerInv_Enqueue [OF assms False refl w_def]
  let ?q = "snd (Enqueue job q)"
  have ops: "Enqueue job q =
      (if length (wJobs w) < perAppQueueDepth then
         (Inr (), q\<lparr>qWorkers := (qWorkers q)(hjAppName job \<mapsto> w\<lparr>wJobs := wJobs w @ [job]\<rparr>),
                    qAccepted := qAccepted q @ [job]\<rparr>)
       else (Inl CodeUnavailable, q\<lparr>qWorkers := (qWorkers q)(hjAppName job \<mapsto> w)\<rparr>))"
    using False by (simp add: Enqueue_def w_def Let_def)
  show ?thesis
  proof (cases "length (wJobs w) < perAppQueueDepth")
    case True
    have "workerInv (hjAppName job) ?q (w\<lparr>wJobs := wJobs w @ [job]\<rparr>)"
      using inv True by (auto simp: ops workerInv_def inFlight_def)
    then show ?thesis
      by (rule queueInv_frame [OF assms, rotated -1]) (use True in \<open>simp_all add: ops\<close>)
  next
    case False
    have "workerInv (hjAppName job) ?q w" using inv False by (auto simp: ops workerInv_def)
    then show ?thesis
      by (rule queueInv_frame [OF assms, rotated -1]) (use False in \<open>simp_all add: ops\<close>)
  qed
qed (simp add: Enqueue_def assms)

text \<open>The steps of a worker, by cases.\<close>

lemma run_cases:
  assumes "run a w = Some (w', evs)"
  obtains (stop) "wPc w = AtCheck \<or> wPc w = AtSelect" "wStop w" "w' = w\<lparr>wPc := Draining\<rparr>" "evs = []"
  | (loop) "wPc w = AtCheck" "\<not> wStop w" "w' = w\<lparr>wPc := AtSelect\<rparr>" "evs = []"
  | (take) job rest where "wPc w = AtSelect" "wJobs w = job # rest" "w' = w\<lparr>wJobs := rest, wPc := Running job\<rparr>"
      "evs = [JobStart job]"
  | (finish) job ok where "wPc w = Running job" "w' = w\<lparr>wPc := AtCheck\<rparr>" "evs = [JobDone job ok]"
  | (drop) job rest where "wPc w = Draining" "wJobs w = job # rest" "w' = w\<lparr>wJobs := rest\<rparr>"
      "evs = [JobDropped job]"
  | (exit) "wPc w = Draining" "wJobs w = []" "w' = w\<lparr>wPc := Exited\<rparr>" "evs = []"
  using assms
  by (auto simp: run_def split: workerPc.splits arm.splits list.splits if_splits)

lemma queueInv_run:
  assumes "queueInv q" and "qWorkers q app = Some w" and "run a w = Some (w', evs)"
  shows "queueInv (q\<lparr>qWorkers := (qWorkers q)(app \<mapsto> w'), qTrace := qTrace q @ evs\<rparr>)" (is "queueInv ?q")
proof -
  have inv: "workerInv app q w" by (rule queueInv_worker [OF assms(1,2)])
  from assms(3) have new: "workerInv app ?q w'"
    by (cases rule: run_cases) (use inv in \<open>auto simp: workerInv_def inFlight_def\<close>)
  have apps: "\<forall>j \<in> set (startedIn evs @ doneIn evs @ droppedIn evs). hjAppName j = app"
    using assms(3) inv by (cases rule: run_cases) (auto simp: workerInv_def inFlight_def)
  then have "ofApp b (startedIn evs) = [] \<and> ofApp b (doneIn evs) = [] \<and> ofApp b (droppedIn evs) = []" if "b \<noteq> app" for b
    using that by (auto intro!: ofApp_none)
  with new show ?thesis by (intro queueInv_frame [OF assms(1), where app = app]) simp_all
qed

lemma queueInv_mono:
  assumes "queueInv q" and "qAccepted q' = qAccepted q" and "qTrace q' = qTrace q" and "qWorkers q' = qWorkers q"
    and "qClosed q \<Longrightarrow> qClosed q'"
  shows "queueInv q'"
  unfolding queueInv_def assms(2-4)
proof
  fix app
  show "case qWorkers q app of
        None \<Rightarrow> ofApp app (qAccepted q) = [] \<and> ofApp app (startedIn (qTrace q)) = [] \<and>
                ofApp app (doneIn (qTrace q)) = [] \<and> ofApp app (droppedIn (qTrace q)) = []
      | Some w \<Rightarrow> workerInv app q' w"
    using assms(1) [unfolded queueInv_def, rule_format, of app] assms(2,3,5)
    by (cases "qWorkers q app") (auto simp: workerInv_def)
qed

lemma queueInv_closeStop:
  assumes "queueInv q" and "qClosed q"
  shows "queueInv (closeStop app q)"
proof (cases "qWorkers q app")
  case None
  then have "closeStop app q = q" by (simp add: closeStop_def fun_upd_idem)
  with assms(1) show ?thesis by simp
next
  case (Some w)
  have "workerInv app (closeStop app q) (w\<lparr>wStop := True\<rparr>)"
    using queueInv_worker [OF assms(1) Some] assms(2) by (auto simp: workerInv_def closeStop_def inFlight_def)
  then show ?thesis
    by (rule queueInv_frame [OF assms(1), rotated -1]) (use Some assms(2) in \<open>simp_all add: closeStop_def\<close>)
qed

lemma queueStep_inv:
  assumes "queueStep q q'" and "queueInv q"
  shows "queueInv q'"
  using assms(1)
proof (rule queueStepE)
  fix job assume "q' = snd (Enqueue job q)"
  with assms(2) show ?thesis by (simp add: queueInv_Enqueue)
next
  fix app w a w' evs
  assume "q' = q\<lparr>qWorkers := (qWorkers q)(app \<mapsto> w'), qTrace := qTrace q @ evs\<rparr>"
    "qWorkers q app = Some w" "run a w = Some (w', evs)"
  with queueInv_run [OF assms(2)] show ?thesis by simp
next
  assume "q' = closeFlag q" "\<not> qClosed q"
  then show ?thesis by (intro queueInv_mono [OF assms(2)]) (simp_all add: closeFlag_def)
next
  assume "q' = closeCancel q" "qClosed q" "\<not> qCancelled q"
  then show ?thesis by (intro queueInv_mono [OF assms(2)]) (simp_all add: closeCancel_def)
next
  fix app assume "q' = closeStop app q" "qClosed q" "qCancelled q"
  then show ?thesis by (simp add: queueInv_closeStop [OF assms(2)])
qed

lemma queueSteps_inv: "queueStep\<^sup>*\<^sup>* q q' \<Longrightarrow> queueInv q \<Longrightarrow> queueInv q'"
  by (induction rule: rtranclp_induct) (auto dest: queueStep_inv)

section \<open>Properties\<close>

text \<open>
  C21: Every accepted job runs at most once, in order, one at a time. In every reachable state of the queue,
  under every interleaving of enqueues, workers and shutdown, the jobs accepted for an application are
  exactly, in acceptance order, those started, then those dropped, then those still buffered; at most one started
  job is unfinished, and the backlog never exceeds eight.
\<close>

theorem queue_fifo_exactly_once:
  assumes "queueStep\<^sup>*\<^sup>* NewQueue q" and "qWorkers q app = Some w"
  shows "ofApp app (qAccepted q) = ofApp app (startedIn (qTrace q)) @ ofApp app (droppedIn (qTrace q)) @ wJobs w \<and>
         ofApp app (startedIn (qTrace q)) = ofApp app (doneIn (qTrace q)) @ inFlight w \<and>
         length (inFlight w) \<le> 1 \<and> length (wJobs w) \<le> 8"
proof -
  have "length (inFlight w) \<le> 1" by (simp add: inFlight_def split: workerPc.splits)
  then show ?thesis
    using queueInv_worker [OF queueSteps_inv [OF assms(1) queueInv_new] assms(2)]
    by (simp add: workerInv_def perAppQueueDepth_def)
qed

definition demoHookJob :: "string \<Rightarrow> hookJob" where
  "demoHookJob i = \<lparr>hjID = i, hjAppID = ''a1'', hjAppName = ''web'', hjDirectory = ''/srv'', hjBranch = ''main'',
     hjCommitSHA = ''c0ffee'', hjDeliveryID = i, hjProvider = ''github'', hjReceivedAt = 5\<rparr>"

lemma demoHookJob_app [simp]: "hjAppName (demoHookJob i) = ''web''"
  by (simp add: demoHookJob_def)

definition demoQueue :: hookQueue where
  "demoQueue = snd (Enqueue (demoHookJob ''j1'') NewQueue)"

lemma demoQueue_eq:
  "demoQueue = \<lparr>qWorkers = [''web'' \<mapsto> \<lparr>wJobs = [demoHookJob ''j1''], wStop = False, wPc = AtCheck\<rparr>], qClosed = False,
     qCancelled = False, qTrace = [], qAccepted = [demoHookJob ''j1'']\<rparr>"
  by (simp add: demoQueue_def Enqueue_def NewQueue_def newWorker_def perAppQueueDepth_def)

lemma demoQueue_reachable: "queueStep\<^sup>*\<^sup>* NewQueue demoQueue"
  unfolding demoQueue_def by (rule r_into_rtranclp) (rule queueStep.enqueue)

theorem queue_fifo_exactly_once_witness:
  "ofApp ''web'' (qAccepted demoQueue) = ofApp ''web'' (startedIn (qTrace demoQueue)) @
     ofApp ''web'' (droppedIn (qTrace demoQueue)) @ [demoHookJob ''j1'']"
  using queue_fifo_exactly_once [OF demoQueue_reachable,
      of "''web''" "\<lparr>wJobs = [demoHookJob ''j1''], wStop = False, wPc = AtCheck\<rparr>"]
  by (simp add: demoQueue_eq)

text \<open>An upper bound on the steps a stopped worker still takes.\<close>

definition drainBound :: "appWorker \<Rightarrow> nat" where
  "drainBound w =
     3 * length (wJobs w) +
     (case wPc w of AtCheck \<Rightarrow> 2 | AtSelect \<Rightarrow> 3 | Running _ \<Rightarrow> 3 | Draining \<Rightarrow> 1 | Exited \<Rightarrow> 0)"

lemma run_drains:
  assumes "run a w = Some (w', evs)" and "wStop w"
  shows "wStop w' \<and> drainBound w' < drainBound w"
  using assms by (cases rule: run_cases) (auto simp: drainBound_def)

lemma run_enabled:
  assumes "wStop w" and "wPc w \<noteq> Exited"
  shows "\<exists>a w' evs. run a w = Some (w', evs)"
proof (cases "wPc w")
  case AtCheck
  then have "run TakeStop w = Some (w\<lparr>wPc := Draining\<rparr>, [])" using assms(1) by (simp add: run_def)
  then show ?thesis by blast
next
  case AtSelect
  then have "run TakeStop w = Some (w\<lparr>wPc := Draining\<rparr>, [])" using assms(1) by (simp add: run_def)
  then show ?thesis by blast
next
  case (Running j)
  then have "run (Finish True) w = Some (w\<lparr>wPc := AtCheck\<rparr>, [JobDone j True])" by (simp add: run_def)
  then show ?thesis by blast
next
  case Draining
  show ?thesis
  proof (cases "wJobs w")
    case Nil
    with Draining have "run TakeDefault w = Some (w\<lparr>wPc := Exited\<rparr>, [])" by (simp add: run_def)
    then show ?thesis by blast
  next
    case (Cons j js)
    with Draining have "run TakeJob w = Some (w\<lparr>wJobs := js\<rparr>, [JobDropped j])" by (simp add: run_def)
    then show ?thesis by blast
  qed
qed (use assms in simp)

text \<open>
  Shutdown terminates and loses nothing. A stopped worker is never stuck before it exits, every step it
  takes lowers a bound of at most 27 that its stop signal survives, so it exits after finitely many steps,
  and once it has exited every job accepted for its application was finished or reported as dropped.
\<close>

theorem queue_shutdown_drains:
  assumes "queueStep\<^sup>*\<^sup>* NewQueue q" and "qWorkers q app = Some w" and "wStop w"
  shows "(wPc w \<noteq> Exited \<longrightarrow> (\<exists>a w' evs. run a w = Some (w', evs))) \<and>
         (\<forall>a w' evs. run a w = Some (w', evs) \<longrightarrow> wStop w' \<and> drainBound w' < drainBound w) \<and>
         drainBound w \<le> 27 \<and>
         (wPc w = Exited \<longrightarrow>
            ofApp app (qAccepted q) = ofApp app (doneIn (qTrace q)) @ ofApp app (droppedIn (qTrace q)))"
proof -
  have inv: "workerInv app q w" by (rule queueInv_worker [OF queueSteps_inv [OF assms(1) queueInv_new] assms(2)])
  then have "drainBound w \<le> 27"
    by (auto simp: workerInv_def drainBound_def perAppQueueDepth_def split: workerPc.splits)
  moreover have "wPc w = Exited \<longrightarrow>
      ofApp app (qAccepted q) = ofApp app (doneIn (qTrace q)) @ ofApp app (droppedIn (qTrace q))"
    using inv by (auto simp: workerInv_def inFlight_def)
  ultimately show ?thesis using run_enabled [OF assms(3)] run_drains assms(3) by blast
qed

definition stoppedQueue :: hookQueue where
  "stoppedQueue = closeStop ''web'' (closeCancel (closeFlag demoQueue))"

lemma stoppedQueue_eq:
  "stoppedQueue = \<lparr>qWorkers = [''web'' \<mapsto> \<lparr>wJobs = [demoHookJob ''j1''], wStop = True, wPc = AtCheck\<rparr>], qClosed = True,
     qCancelled = True, qTrace = [], qAccepted = [demoHookJob ''j1'']\<rparr>"
  by (simp add: stoppedQueue_def demoQueue_eq closeStop_def closeCancel_def closeFlag_def)

lemma closing_steps:
  assumes "queueStep\<^sup>*\<^sup>* NewQueue q" and "\<not> qClosed q" and "\<not> qCancelled q"
  shows "queueStep\<^sup>*\<^sup>* NewQueue (closeStop app (closeCancel (closeFlag q)))"
proof -
  have "queueStep q (closeFlag q)" "queueStep (closeFlag q) (closeCancel (closeFlag q))"
    "queueStep (closeCancel (closeFlag q)) (closeStop app (closeCancel (closeFlag q)))"
    by (rule queueStep.flag queueStep.cancel queueStep.stop; use assms(2,3) in \<open>simp add: closeFlag_def closeCancel_def\<close>)+
  with assms(1) show ?thesis by (meson rtranclp.rtrancl_into_rtrancl)
qed

theorem queue_shutdown_drains_witness:
  "\<exists>a w' evs. run a \<lparr>wJobs = [demoHookJob ''j1''], wStop = True, wPc = AtCheck\<rparr> = Some (w', evs)"
proof -
  have "queueStep\<^sup>*\<^sup>* NewQueue stoppedQueue"
    unfolding stoppedQueue_def by (rule closing_steps [OF demoQueue_reachable]) (simp_all add: demoQueue_eq)
  from queue_shutdown_drains [OF this, of "''web''" "\<lparr>wJobs = [demoHookJob ''j1''], wStop = True, wPc = AtCheck\<rparr>"]
  show ?thesis by (simp add: stoppedQueue_eq)
qed

section \<open>A job may start after shutdown began\<close>

text \<open>
  The comment in \<open>run\<close> says that checking the stop channel first means a shutdown never starts another queued
  job.  A worker that passed the check before the stop signal arrives still chooses between a
  queued job and the signal: here the queue is closed and its worker stopped, and then the queued job starts.
\<close>

definition pausedQueue :: hookQueue where
  "pausedQueue = demoQueue\<lparr>qWorkers := [''web'' \<mapsto> \<lparr>wJobs = [demoHookJob ''j1''], wStop = False, wPc = AtSelect\<rparr>]\<rparr>"

lemma shutdown_may_start_job:
  "\<exists>q q'. queueStep\<^sup>*\<^sup>* NewQueue q \<and> qClosed q \<and> qCancelled q \<and> (\<exists>w. qWorkers q ''web'' = Some w \<and> wStop w) \<and>
     qTrace q = [] \<and> queueStep q q' \<and> qTrace q' = [JobStart (demoHookJob ''j1'')]"
proof -
  have "queueStep demoQueue pausedQueue"
    using queueStep.worker [of demoQueue "''web''" "\<lparr>wJobs = [demoHookJob ''j1''], wStop = False, wPc = AtCheck\<rparr>" TakeDefault
        "\<lparr>wJobs = [demoHookJob ''j1''], wStop = False, wPc = AtSelect\<rparr>" "[]"]
    by (simp add: demoQueue_eq pausedQueue_def run_def)
  with demoQueue_reachable have "queueStep\<^sup>*\<^sup>* NewQueue pausedQueue" by (rule rtranclp.rtrancl_into_rtrancl)
  then have reach: "queueStep\<^sup>*\<^sup>* NewQueue (closeStop ''web'' (closeCancel (closeFlag pausedQueue)))"
    by (rule closing_steps) (simp_all add: pausedQueue_def demoQueue_eq)
  let ?q = "closeStop ''web'' (closeCancel (closeFlag pausedQueue))"
  let ?w = "\<lparr>wJobs = [demoHookJob ''j1''], wStop = True, wPc = AtSelect\<rparr>"
  have q: "qWorkers ?q ''web'' = Some ?w" "qClosed ?q" "qCancelled ?q" "qTrace ?q = []"
    by (simp_all add: closeStop_def closeCancel_def closeFlag_def pausedQueue_def demoQueue_eq)
  have "run TakeJob ?w = Some (?w\<lparr>wJobs := [], wPc := Running (demoHookJob ''j1'')\<rparr>, [JobStart (demoHookJob ''j1'')])"
    by (simp add: run_def)
  from queueStep.worker [OF q(1) this] reach q show ?thesis by fastforce
qed

end
