(* ===== verification/Webhook.thy ===== *)
theory Webhook
  imports Delivery Jobs HookQueue
begin

text \<open>
  The webhook endpoint (\<open>internal/webhook\<close>: \<open>hmac.go\<close>, \<open>payload.go\<close>, \<open>resolver.go\<close>, \<open>server.go\<close>, \<open>events.go\<close>):
  signature verification, payload classification, application resolution and the request handler, which drives the
  delivery ledger, the job store and the build queue.  HMAC-SHA256, the JSON decoder of the payload, the
  project configuration loader and the clock are arguments.  Byte strings are \<^typ>\<open>string\<close>, a digest is a list of byte
  values.  Reported events are recorded as a list; local logging is left out.
\<close>

section \<open>Signatures\<close>

definition signaturePrefix :: string where "signaturePrefix = ''sha256=''"
definition ProviderGitHub :: string where "ProviderGitHub = ''github''"

definition fromHexChar :: "char \<Rightarrow> nat option" where
  "fromHexChar c =
     (let n = of_char c :: nat in
      if 48 \<le> n \<and> n \<le> 57 then Some (n - 48)
      else if 97 \<le> n \<and> n \<le> 102 then Some (n - 87)
      else if 65 \<le> n \<and> n \<le> 70 then Some (n - 55)
      else None)"

fun hexDecode :: "string \<Rightarrow> nat list option" where
  "hexDecode [] = Some []"
| "hexDecode [c] = None"
| "hexDecode (c # c' # cs) =
     (case (fromHexChar c, fromHexChar c', hexDecode cs) of
        (Some a, Some b, Some bs) \<Rightarrow> Some ((16 * a + b) # bs)
      | _ \<Rightarrow> None)"

definition VerifySignature :: "(string \<Rightarrow> string \<Rightarrow> nat list) \<Rightarrow> string \<Rightarrow> string \<Rightarrow> string \<Rightarrow> bool" where
  "VerifySignature hmac secret body sigHeader =
     (if length secret = 0 then False
      else if \<not> hasPrefix signaturePrefix sigHeader then False
      else
        let hexDigest = drop (length signaturePrefix) sigHeader in
        if length hexDigest \<noteq> 2 * 32 then False
        else case hexDecode hexDigest of
          None \<Rightarrow> False
        | Some given \<Rightarrow> hmac secret body = given)"

section \<open>Payloads\<close>

record pushPayload =
  ppRef :: string
  ppBefore :: string
  ppAfter :: string
  ppCreated :: bool
  ppDeleted :: bool

definition BranchFromRef :: "string \<Rightarrow> string" where
  "BranchFromRef ref = trimPrefix ''refs/heads/'' ref"

definition isNullSHA :: "string \<Rightarrow> bool" where
  "isNullSHA sha = (if length sha \<noteq> 40 \<and> length sha \<noteq> 64 then False else list_all (\<lambda>c. c = CHR ''0'') sha)"

definition IsBranchDeletion :: "pushPayload option \<Rightarrow> bool" where
  "IsBranchDeletion p = (case p of None \<Rightarrow> False | Some p \<Rightarrow> ppDeleted p \<or> isNullSHA (ppAfter p))"

definition ignoredReason :: "string \<Rightarrow> pushPayload \<Rightarrow> string \<Rightarrow> string \<Rightarrow> string" where
  "ignoredReason eventType payload branch configured =
     (if eventType \<noteq> '''' \<and> eventType \<noteq> ''push'' then ''event ignored''
      else if IsBranchDeletion (Some payload) then ''branch deleted; nothing to rebuild''
      else if branch \<noteq> configured then ''branch does not match configured branch''
      else '''')"

section \<open>Application resolution\<close>

record hookConfig =
  hcEnabled :: bool
  hcSecretEnv :: string
  hcBranch :: string

record appInfo =
  aiID :: string
  aiName :: string
  aiDirectory :: string

record resolvedApp =
  raInfo :: appInfo
  raConfig :: "hookConfig option"

text \<open>\<open>load\<close> is the project configuration loader: the webhook section of a directory's configuration.\<close>

definition resolveAppDir :: "(string \<Rightarrow> (code, hookConfig option) result) \<Rightarrow> appInfo \<Rightarrow> (code, resolvedApp) result" where
  "resolveAppDir load info =
     (if aiDirectory info = '''' then Inl CodeConfiguration
      else case load (aiDirectory info) of
        Inl e \<Rightarrow> if e = CodeNotFound then Inr \<lparr>raInfo = info, raConfig = None\<rparr>
                  else Inl (CodeOf (Wrap CodeConfiguration '''' (Some (PhelixError e '''' None))))
      | Inr cfg \<Rightarrow> Inr \<lparr>raInfo = info, raConfig = cfg\<rparr>)"

fun registryResolve :: "(string \<Rightarrow> (code, hookConfig option) result) \<Rightarrow> appInfo list \<Rightarrow> string \<Rightarrow> (code, resolvedApp) result" where
  "registryResolve load [] identifier = Inl CodeNotFound"
| "registryResolve load (it # its) identifier =
     (if aiID it = identifier \<or> aiName it = identifier then resolveAppDir load it
      else registryResolve load its identifier)"

fun validateSecrets :: "(string \<Rightarrow> (code, hookConfig option) result) \<Rightarrow> (string \<Rightarrow> string option) \<Rightarrow> appInfo list \<Rightarrow> (code, unit) result" where
  "validateSecrets load lookupSecret [] = Inr ()"
| "validateSecrets load lookupSecret (info # infos) =
     (case resolveAppDir load info of
        Inl _ \<Rightarrow> validateSecrets load lookupSecret infos
      | Inr resolved \<Rightarrow>
          (case raConfig resolved of
             None \<Rightarrow> validateSecrets load lookupSecret infos
           | Some cfg \<Rightarrow>
               if \<not> hcEnabled cfg then validateSecrets load lookupSecret infos
               else case lookupSecret (hcSecretEnv cfg) of
                 None \<Rightarrow> Inl CodeConfiguration
               | Some v \<Rightarrow> if trimSpace v = '''' then Inl CodeConfiguration
                           else validateSecrets load lookupSecret infos))"

section \<open>Events\<close>

definition EventActionAccepted :: string where "EventActionAccepted = ''webhook_accepted''"
definition EventActionRejected :: string where "EventActionRejected = ''webhook_rejected''"
definition EventActionBranchMismatch :: string where "EventActionBranchMismatch = ''webhook_branch_mismatch''"
definition EventActionDuplicate :: string where "EventActionDuplicate = ''webhook_duplicate''"
definition EventActionQueueFailure :: string where "EventActionQueueFailure = ''webhook_queue_failure''"

record hookEvent =
  evAppID :: string
  evAppName :: string
  evAction :: string
  evSuccess :: bool
  evMessage :: string

fun joinWith :: "string \<Rightarrow> string list \<Rightarrow> string" where
  "joinWith sep [] = []"
| "joinWith sep [x] = x"
| "joinWith sep (x # xs) = x @ sep @ joinWith sep xs"

definition JobEventMessage :: "jobRecord \<Rightarrow> string" where
  "JobEventMessage rec =
     joinWith '' ''
       ([''job='' @ jID rec, ''delivery='' @ jDeliveryID rec, ''branch='' @ jBranch rec, ''commit='' @ jCommit rec] @
        (if jStage rec \<noteq> '''' then [''stage='' @ jStage rec] else []) @
        (if jVersion rec > 0 then [''version=v'' @ itoa (jVersion rec)] else []) @
        (if jErrorCode rec \<noteq> '''' then [''error_code='' @ jErrorCode rec] else []))"

section \<open>The request handler\<close>

record hookRequest =
  rqMethod :: string
  rqPath :: string
  rqContentLength :: int
  rqBody :: string
  rqBodyErr :: bool
  rqDelivery :: string
  rqSignature :: string
  rqEventType :: string

record hookResponse =
  rsStatus :: nat
  rsAccepted :: bool
  rsQueued :: bool
  rsMessage :: string

definition response :: "nat \<Rightarrow> bool \<Rightarrow> bool \<Rightarrow> string \<Rightarrow> hookResponse" where
  "response status accepted queued message =
     \<lparr>rsStatus = status, rsAccepted = accepted, rsQueued = queued, rsMessage = message\<rparr>"

text \<open>
  The server's collaborators and the environment of one request: each ledger and store call has its own
  environment, \<open>seJobs\<close> says whether a job store is configured, \<open>seQueueErr\<close> is the text of a queue error.
\<close>

record serverEnv =
  seMaxBodyBytes :: int
  seResolve :: "string \<Rightarrow> (code, resolvedApp) result"
  seLookupSecret :: "string \<Rightarrow> string option"
  seHmac :: "string \<Rightarrow> string \<Rightarrow> nat list"
  seParse :: "string \<Rightarrow> pushPayload option"
  seJobs :: bool
  seRecord :: deliveryEnv
  seRollback :: deliveryEnv
  seCreate :: jobEnv
  seMark :: jobEnv
  seNow :: int
  seQueueErr :: string

record hookState =
  hsLedger :: deliveryState
  hsJobs :: jobState
  hsQueue :: hookQueue
  hsEvents :: "hookEvent list"

definition DefaultMaxBodyBytes :: int where "DefaultMaxBodyBytes = 2 * 1024 * 1024"

definition effectiveMaxBody :: "int \<Rightarrow> int" where
  "effectiveMaxBody n = (if n \<le> 0 then DefaultMaxBodyBytes else n)"

definition reportHook :: "appInfo \<Rightarrow> string \<Rightarrow> bool \<Rightarrow> string \<Rightarrow> hookState \<Rightarrow> hookState" where
  "reportHook info action success msg s =
     s\<lparr>hsEvents := hsEvents s @ [\<lparr>evAppID = aiID info, evAppName = aiName info, evAction = action,
                                   evSuccess = success, evMessage = msg\<rparr>]\<rparr>"

text \<open>From the method check to the signature: the authenticated application, its configuration and the delivery id.\<close>

definition hookAuthenticate :: "serverEnv \<Rightarrow> hookRequest \<Rightarrow> (hookResponse, appInfo \<times> hookConfig \<times> string) result" where
  "hookAuthenticate env rq =
     (if rqMethod rq \<noteq> ''POST'' then Inl (response 405 False False ''method not allowed'')
      else
        let identifier = trimPrefix ''/webhook/'' (rqPath rq) in
        if identifier = '''' \<or> CHR ''/'' \<in> set identifier \<or> CHR 0x5C \<in> set identifier then
          Inl (response 404 False False ''unknown application'')
        else case seResolve env identifier of
          Inl e \<Rightarrow> if e = CodeNotFound then Inl (response 404 False False ''unknown application'')
                    else Inl (response 500 False False ''webhook unavailable'')
        | Inr resolved \<Rightarrow>
            case raConfig resolved of
              None \<Rightarrow> Inl (response 404 False False ''unknown application'')
            | Some cfg \<Rightarrow>
                if \<not> hcEnabled cfg then Inl (response 404 False False ''unknown application'')
                else case seLookupSecret env (hcSecretEnv cfg) of
                  None \<Rightarrow> Inl (response 500 False False ''webhook unavailable'')
                | Some secret \<Rightarrow>
                    if trimSpace secret = '''' then Inl (response 500 False False ''webhook unavailable'')
                    else if rqContentLength rq > seMaxBodyBytes env then
                      Inl (response 413 False False ''request body too large'')
                    else if rqBodyErr rq then Inl (response 400 False False ''could not read request body'')
                    else if int (length (rqBody rq)) > seMaxBodyBytes env then
                      Inl (response 413 False False ''request body too large'')
                    else if \<not> VerifySignature (seHmac env) secret (rqBody rq) (rqSignature rq) then
                      Inl (response 401 False False ''invalid signature'')
                    else Inr (raInfo resolved, cfg, trimSpace (rqDelivery rq)))"

text \<open>The payload, the delivery id and the branch: an event to report with the answer, or the pushed branch and commit.\<close>

definition hookClassify ::
    "serverEnv \<Rightarrow> hookRequest \<Rightarrow> hookConfig \<Rightarrow> string \<Rightarrow> (hookResponse \<times> string \<times> bool \<times> string, string \<times> string) result" where
  "hookClassify env rq cfg deliveryID =
     (case seParse env (rqBody rq) of
        None \<Rightarrow> Inl (response 400 False False ''invalid payload'', EventActionRejected, False, ''unparseable payload'')
      | Some payload \<Rightarrow>
          if deliveryID = '''' then
            Inl (response 400 False False ''missing delivery id'', EventActionRejected, False, ''missing delivery id'')
          else
            let branch = BranchFromRef (ppRef payload);
                ignored = ignoredReason (rqEventType rq) payload branch (hcBranch cfg)
            in if ignored \<noteq> '''' then
                 Inl (response 200 True False ignored, EventActionBranchMismatch, True, ignored)
               else Inr (branch, ppAfter payload))"

definition newJobRecord :: "serverEnv \<Rightarrow> appInfo \<Rightarrow> string \<Rightarrow> string \<Rightarrow> string \<Rightarrow> jobRecord" where
  "newJobRecord env info deliveryID branch commit =
     \<lparr>jSchemaVersion = 0, jID = NewJobID (jeRand (seCreate env)) (jeNanos (seCreate env)), jDeliveryID = deliveryID,
      jAppID = aiID info, jAppName = aiName info, jBranch = branch, jCommit = commit, jProvider = ProviderGitHub,
      jStatus = StatusAccepted, jStage = StageQueue, jAcceptedAt = seNow env, jStartedAt = 0, jFinishedAt = 0,
      jVersion = 0, jErrorCode = '''', jErrorMessage = ''''\<rparr>"

definition newHookJob :: "serverEnv \<Rightarrow> appInfo \<Rightarrow> jobRecord \<Rightarrow> hookJob" where
  "newHookJob env info rec =
     \<lparr>hjID = jID rec, hjAppID = aiID info, hjAppName = aiName info, hjDirectory = aiDirectory info,
      hjBranch = jBranch rec, hjCommitSHA = jCommit rec, hjDeliveryID = jDeliveryID rec, hjProvider = ProviderGitHub,
      hjReceivedAt = seNow env\<rparr>"

text \<open>A failed rollback of the ledger is only logged.\<close>

definition rollbackDelivery :: "serverEnv \<Rightarrow> appInfo \<Rightarrow> string \<Rightarrow> hookState \<Rightarrow> hookState" where
  "rollbackDelivery env info deliveryID s =
     s\<lparr>hsLedger := snd (Delivery_Remove (seRollback env) (aiName info) deliveryID (hsLedger s))\<rparr>"

definition hookAccept ::
    "serverEnv \<Rightarrow> appInfo \<Rightarrow> string \<Rightarrow> string \<Rightarrow> string \<Rightarrow> hookState \<Rightarrow> hookResponse \<times> hookState" where
  "hookAccept env info deliveryID branch commit s =
     (let (seen, ledger) = SeenOrRecord (seRecord env) (aiName info) deliveryID branch commit ProviderGitHub (hsLedger s);
          s1 = s\<lparr>hsLedger := ledger\<rparr>
      in case seen of
           Inl _ \<Rightarrow> (response 500 False False ''webhook unavailable'', s1)
         | Inr True \<Rightarrow>
             (response 200 True False ''delivery already processed'', reportHook info EventActionDuplicate True '''' s1)
         | Inr False \<Rightarrow>
             if \<not> seJobs env then (response 500 False False ''webhook unavailable'', s1)
             else
               let rec = newJobRecord env info deliveryID branch commit;
                   (created, jobs) = JobStore_Create (seCreate env) (Some rec) (hsJobs s1);
                   s2 = s1\<lparr>hsJobs := jobs\<rparr>
               in case created of
                    Inl _ \<Rightarrow> (response 500 False False ''webhook unavailable'', rollbackDelivery env info deliveryID s2)
                  | Inr _ \<Rightarrow>
                      let (queued, queue) = Enqueue (newHookJob env info rec) (hsQueue s2);
                          s3 = s2\<lparr>hsQueue := queue\<rparr>
                      in case queued of
                           Inl _ \<Rightarrow>
                             let s4 = rollbackDelivery env info deliveryID s3;
                                 s5 = s4\<lparr>hsJobs := snd (Job_MarkFailed (seMark env) (jID rec) JobErrQueue (seQueueErr env) (hsJobs s4))\<rparr>
                             in (response 503 False False ''webhook queue unavailable'',
                                 reportHook info EventActionQueueFailure False (seQueueErr env) s5)
                         | Inr _ \<Rightarrow>
                             let s4 = s3\<lparr>hsJobs := snd (MarkQueued (seMark env) (jID rec) (hsJobs s3))\<rparr>
                             in (response 200 True True ''webhook accepted'',
                                 reportHook info EventActionAccepted True (JobEventMessage rec) s4))"

definition handleWebhook :: "serverEnv \<Rightarrow> hookRequest \<Rightarrow> hookState \<Rightarrow> hookResponse \<times> hookState" where
  "handleWebhook env rq s =
     (case hookAuthenticate env rq of
        Inl rs \<Rightarrow> (rs, s)
      | Inr (info, cfg, deliveryID) \<Rightarrow>
          case hookClassify env rq cfg deliveryID of
            Inl (rs, action, success, msg) \<Rightarrow> (rs, reportHook info action success msg s)
          | Inr (branch, commit) \<Rightarrow> hookAccept env info deliveryID branch commit s)"

section \<open>Signatures accept exactly the right digest\<close>

lemma fromHexChar_bound: "fromHexChar c = Some n \<Longrightarrow> n < 16"
  by (auto simp: fromHexChar_def Let_def split: if_splits)

lemma hexDigit_of_char: "n < 16 \<Longrightarrow> hexDigit n = char_of (if n < 10 then 48 + n else 87 + n)"
proof -
  have "list_all (\<lambda>n. hexDigit n = char_of (if n < 10 then 48 + n else 87 + n)) [0..<16]" by code_simp
  then show "hexDigit n = char_of (if n < 10 then 48 + n else 87 + n)" if "n < 16"
    using that unfolding list_all_iff by simp
qed

lemma fromHexChar_iff: "fromHexChar c = Some n \<longleftrightarrow> n < 16 \<and> lowerChar c = hexDigit n"
proof -
  define m :: nat where "m = of_char c"
  have c: "c = char_of m" and m: "m < 256" by (simp_all add: m_def)
  have eq: "char_of (x :: nat) = (char_of y :: char) \<longleftrightarrow> x = y" if "x < 256" "y < 256" for x y
    using that by (metis mod_less of_char_of)
  show ?thesis
    using m by (auto simp: fromHexChar_def lowerChar_def Let_def hexDigit_of_char eq c split: if_splits)
qed

lemma hexDecode_iff: "hexDecode s = Some bs \<longleftrightarrow> map lowerChar s = hexEncode bs \<and> (\<forall>b \<in> set bs. b < 256)"
proof (induction s arbitrary: bs rule: hexDecode.induct)
  case 1
  then show ?case by (cases bs) auto
next
  case (2 c)
  then show ?case by (cases bs) auto
next
  case (3 c c' cs)
  show ?case
  proof (cases bs)
    case (Cons b bs')
    have "(\<exists>x y. fromHexChar c = Some x \<and> fromHexChar c' = Some y \<and> b = 16 * x + y) \<longleftrightarrow>
        b < 256 \<and> lowerChar c = hexDigit (b mod 256 div 16) \<and> lowerChar c' = hexDigit (b mod 16)"
      (is "?l = ?r")
    proof
      assume ?l
      then show ?r by (auto simp: fromHexChar_iff)
    next
      assume ?r
      moreover from this have "b div 16 < 16" by (simp add: div_less_iff_less_mult)
      ultimately have "fromHexChar c = Some (b div 16)" "fromHexChar c' = Some (b mod 16)" "b = 16 * (b div 16) + b mod 16"
        by (simp_all add: fromHexChar_iff)
      then show ?l by blast
    qed
    moreover have "hexDecode (c # c' # cs) = Some bs \<longleftrightarrow>
        (\<exists>x y. fromHexChar c = Some x \<and> fromHexChar c' = Some y \<and> b = 16 * x + y) \<and> hexDecode cs = Some bs'"
      by (auto simp: Cons split: option.splits)
    ultimately show ?thesis using 3 [of bs'] unfolding Cons by auto
  qed (simp split: option.splits)
qed

text \<open>
  Signature verification accepts exactly the right digests. For a message authentication code of 32 bytes,
  a header is accepted if and only if the secret is not empty and the header is the prefix followed by the
  hexadecimal digits of the code of the exact body, in either case.
\<close>

theorem VerifySignature_exact:
  assumes "length (hmac secret body) = 32" and "\<forall>b \<in> set (hmac secret body). b < 256"
  shows "VerifySignature hmac secret body sig \<longleftrightarrow>
    secret \<noteq> '''' \<and> (\<exists>h. sig = ''sha256='' @ h \<and> map lowerChar h = hexEncode (hmac secret body))"
proof -
  have split: "hasPrefix ''sha256='' sig \<longleftrightarrow> (\<exists>h. sig = ''sha256='' @ h)"
    by (metis append_take_drop_id hasPrefix_append hasPrefix_def)
  have len: "length h = 64" if "map lowerChar h = hexEncode (hmac secret body)" for h
    using that assms(1) by (metis length_hexEncode length_map mult_2 numeral_Bit0)
  show ?thesis
  proof (cases "\<exists>h. sig = ''sha256='' @ h")
    case True
    then obtain h where sig: "sig = ''sha256='' @ h" by blast
    have "VerifySignature hmac secret body sig \<longleftrightarrow>
        secret \<noteq> '''' \<and> length h = 64 \<and> hexDecode h = Some (hmac secret body)"
      by (auto simp: sig VerifySignature_def signaturePrefix_def Let_def hasPrefix_def split: option.splits)
    then show ?thesis using len [of h] assms(2) by (auto simp: sig hexDecode_iff)
  qed (simp add: VerifySignature_def signaturePrefix_def split)
qed

theorem VerifySignature_exact_witness:
  "VerifySignature (\<lambda>_ _. replicate 32 255) ''k'' ''{}'' (''sha256='' @ concat (replicate 32 ''fF''))"
proof -
  have "map lowerChar (concat (replicate 32 ''fF'')) = hexEncode (replicate 32 255)" by code_simp
  then show ?thesis
    using VerifySignature_exact [of "\<lambda>_ _. replicate 32 255" "''k''" "''{}''"] by simp
qed

section \<open>What the handler's stages establish\<close>

definition hookIdentifier :: "hookRequest \<Rightarrow> string" where
  "hookIdentifier rq = trimPrefix ''/webhook/'' (rqPath rq)"

lemma hookAuthenticate_ok:
  assumes "hookAuthenticate env rq = Inr (info, cfg, i)"
  shows "\<exists>resolved secret. rqMethod rq = ''POST'' \<and> seResolve env (hookIdentifier rq) = Inr resolved \<and>
           raInfo resolved = info \<and> raConfig resolved = Some cfg \<and> hcEnabled cfg \<and>
           seLookupSecret env (hcSecretEnv cfg) = Some secret \<and> trimSpace secret \<noteq> '''' \<and>
           int (length (rqBody rq)) \<le> seMaxBodyBytes env \<and>
           VerifySignature (seHmac env) secret (rqBody rq) (rqSignature rq) \<and> i = trimSpace (rqDelivery rq)"
  using assms unfolding hookAuthenticate_def hookIdentifier_def Let_def
  by (auto split: if_splits sum.splits option.splits)

lemma ignoredReason_empty:
  "ignoredReason ev p branch configured = '''' \<longleftrightarrow>
     ev \<in> {'''', ''push''} \<and> \<not> ppDeleted p \<and> \<not> isNullSHA (ppAfter p) \<and> branch = configured"
  by (auto simp: ignoredReason_def IsBranchDeletion_def)

lemma hookClassify_ok:
  assumes "hookClassify env rq cfg i = Inr (branch, commit)"
  shows "\<exists>p. seParse env (rqBody rq) = Some p \<and> i \<noteq> '''' \<and> rqEventType rq \<in> {'''', ''push''} \<and> \<not> ppDeleted p \<and>
           \<not> isNullSHA (ppAfter p) \<and> BranchFromRef (ppRef p) = hcBranch cfg \<and> branch = hcBranch cfg \<and> commit = ppAfter p"
  using assms by (auto simp: hookClassify_def Let_def ignoredReason_empty split: option.splits if_splits)

lemma hookClassify_refused:
  assumes "hookClassify env rq cfg i = Inl (rs, action, success, msg)"
  shows "\<not> rsQueued rs" and "rsStatus rs \<noteq> 503"
  using assms by (auto simp: hookClassify_def response_def Let_def split: option.splits if_splits)

lemma hookAuthenticate_refused:
  assumes "hookAuthenticate env rq = Inl rs"
  shows "\<not> rsQueued rs" and "rsStatus rs \<noteq> 503"
  using assms by (auto simp: hookAuthenticate_def response_def Let_def split: option.splits sum.splits if_splits)

lemma reportHook_fields [simp]:
  "hsLedger (reportHook info a b m s) = hsLedger s" "hsJobs (reportHook info a b m s) = hsJobs s"
  "hsQueue (reportHook info a b m s) = hsQueue s"
  by (simp_all add: reportHook_def)

lemma response_fields [simp]:
  "rsQueued (response st a q m) = q" "rsStatus (response st a q m) = st" "rsAccepted (response st a q m) = a"
  by (simp_all add: response_def)

text \<open>A request that reaches the acceptance stage.\<close>

lemma handleWebhook_cases:
  obtains (refused) rs where "hookAuthenticate env rq = Inl rs" "handleWebhook env rq s = (rs, s)"
  | (ignored) info cfg i rs action success msg where "hookAuthenticate env rq = Inr (info, cfg, i)"
      "hookClassify env rq cfg i = Inl (rs, action, success, msg)"
      "handleWebhook env rq s = (rs, reportHook info action success msg s)"
  | (push) info cfg i branch commit where "hookAuthenticate env rq = Inr (info, cfg, i)"
      "hookClassify env rq cfg i = Inr (branch, commit)"
      "handleWebhook env rq s = hookAccept env info i branch commit s"
proof (cases "hookAuthenticate env rq")
  case (Inl rs)
  then show thesis using refused by (simp add: handleWebhook_def)
next
  case (Inr x)
  obtain info cfg i where x: "x = (info, cfg, i)" by (cases x)
  show thesis
  proof (cases "hookClassify env rq cfg i")
    case (Inl y)
    then show thesis using ignored Inr x by (cases y) (auto simp: handleWebhook_def)
  next
    case (Inr z)
    then show thesis using push \<open>hookAuthenticate env rq = Inr x\<close> x by (cases z) (auto simp: handleWebhook_def)
  qed
qed

text \<open>
  C9: Only authentic pushes to the configured branch have an effect. A request that changes anything at
  all, reported events included, was a POST for a resolved application with the webhook enabled
  whose body carries a valid signature under the configured secret; one that changes the ledger, the job store or
  the queue, or is answered as queued, is moreover a parsed push with a delivery id to exactly the
  configured branch that deletes nothing.
\<close>

theorem webhook_needs_authentic_push:
  assumes "handleWebhook env rq s = (rs, s')"
  shows "(s' \<noteq> s \<or> rsQueued rs \<longrightarrow>
            (\<exists>resolved cfg secret. rqMethod rq = ''POST'' \<and> seResolve env (hookIdentifier rq) = Inr resolved \<and>
               raConfig resolved = Some cfg \<and> hcEnabled cfg \<and> seLookupSecret env (hcSecretEnv cfg) = Some secret \<and>
               trimSpace secret \<noteq> '''' \<and> int (length (rqBody rq)) \<le> seMaxBodyBytes env \<and>
               VerifySignature (seHmac env) secret (rqBody rq) (rqSignature rq))) \<and>
         (hsLedger s' \<noteq> hsLedger s \<or> hsJobs s' \<noteq> hsJobs s \<or> hsQueue s' \<noteq> hsQueue s \<or> rsQueued rs \<longrightarrow>
            (\<exists>resolved cfg p. seResolve env (hookIdentifier rq) = Inr resolved \<and> raConfig resolved = Some cfg \<and>
               seParse env (rqBody rq) = Some p \<and> trimSpace (rqDelivery rq) \<noteq> '''' \<and> rqEventType rq \<in> {'''', ''push''} \<and>
               \<not> ppDeleted p \<and> \<not> isNullSHA (ppAfter p) \<and> BranchFromRef (ppRef p) = hcBranch cfg))"
proof (cases rule: handleWebhook_cases [of env rq s, case_names refused ignored push])
  case (refused rs')
  then show ?thesis using assms hookAuthenticate_refused by auto
next
  case (ignored info cfg i rs' action success msg)
  then have "hsLedger s' = hsLedger s" "hsJobs s' = hsJobs s" "hsQueue s' = hsQueue s" "\<not> rsQueued rs"
    using assms hookClassify_refused by auto
  with hookAuthenticate_ok [OF ignored(1)] show ?thesis by metis
next
  case (push info cfg i branch commit)
  from hookAuthenticate_ok [OF push(1)] hookClassify_ok [OF push(2)] show ?thesis by metis
qed

section \<open>Acceptance\<close>

text \<open>The branches of the acceptance stage.\<close>

lemma hookAccept_cases:
  fixes env info i branch commit s
  defines "ledger \<equiv> SeenOrRecord (seRecord env) (aiName info) i branch commit ProviderGitHub (hsLedger s)"
    and "rec \<equiv> newJobRecord env info i branch commit"
  defines "created \<equiv> JobStore_Create (seCreate env) (Some rec) (hsJobs s)"
    and "queued \<equiv> Enqueue (newHookJob env info rec) (hsQueue s)"
  obtains (notNew) "fst ledger \<noteq> Inr False" "\<not> rsQueued (fst (hookAccept env info i branch commit s))"
      "rsStatus (fst (hookAccept env info i branch commit s)) \<noteq> 503"
      "hsLedger (snd (hookAccept env info i branch commit s)) = snd ledger"
      "hsJobs (snd (hookAccept env info i branch commit s)) = hsJobs s"
      "hsQueue (snd (hookAccept env info i branch commit s)) = hsQueue s"
  | (noStore) "fst ledger = Inr False" "\<not> seJobs env" "\<not> rsQueued (fst (hookAccept env info i branch commit s))"
      "rsStatus (fst (hookAccept env info i branch commit s)) \<noteq> 503"
      "hsLedger (snd (hookAccept env info i branch commit s)) = snd ledger"
      "hsJobs (snd (hookAccept env info i branch commit s)) = hsJobs s"
      "hsQueue (snd (hookAccept env info i branch commit s)) = hsQueue s"
  | (notCreated) "fst ledger = Inr False" "fst created \<noteq> Inr ()" "\<not> rsQueued (fst (hookAccept env info i branch commit s))"
      "rsStatus (fst (hookAccept env info i branch commit s)) \<noteq> 503"
      "hsLedger (snd (hookAccept env info i branch commit s)) =
         snd (Delivery_Remove (seRollback env) (aiName info) i (snd ledger))"
      "hsJobs (snd (hookAccept env info i branch commit s)) = snd created"
      "hsQueue (snd (hookAccept env info i branch commit s)) = hsQueue s"
  | (notQueued) "fst ledger = Inr False" "fst created = Inr ()" "fst queued \<noteq> Inr ()"
      "\<not> rsQueued (fst (hookAccept env info i branch commit s))"
      "rsStatus (fst (hookAccept env info i branch commit s)) = 503"
      "hsLedger (snd (hookAccept env info i branch commit s)) =
         snd (Delivery_Remove (seRollback env) (aiName info) i (snd ledger))"
      "hsJobs (snd (hookAccept env info i branch commit s)) =
         snd (Job_MarkFailed (seMark env) (jID rec) JobErrQueue (seQueueErr env) (snd created))"
      "hsQueue (snd (hookAccept env info i branch commit s)) = snd queued"
  | (accepted) "fst ledger = Inr False" "seJobs env" "fst created = Inr ()" "fst queued = Inr ()"
      "rsQueued (fst (hookAccept env info i branch commit s))"
      "rsStatus (fst (hookAccept env info i branch commit s)) = 200"
      "hsLedger (snd (hookAccept env info i branch commit s)) = snd ledger"
      "hsJobs (snd (hookAccept env info i branch commit s)) = snd (MarkQueued (seMark env) (jID rec) (snd created))"
      "hsQueue (snd (hookAccept env info i branch commit s)) = snd queued"
proof -
  obtain seen l where L: "ledger = (seen, l)" by (cases ledger)
  obtain cr j where C: "created = (cr, j)" by (cases created)
  obtain qr q where Q: "queued = (qr, q)" by (cases queued)
  have eq: "hookAccept env info i branch commit s =
      (case seen of
         Inl _ \<Rightarrow> (response 500 False False ''webhook unavailable'', s\<lparr>hsLedger := l\<rparr>)
       | Inr True \<Rightarrow> (response 200 True False ''delivery already processed'',
                       reportHook info EventActionDuplicate True '''' (s\<lparr>hsLedger := l\<rparr>))
       | Inr False \<Rightarrow>
           if \<not> seJobs env then (response 500 False False ''webhook unavailable'', s\<lparr>hsLedger := l\<rparr>)
           else case cr of
             Inl _ \<Rightarrow> (response 500 False False ''webhook unavailable'',
                        rollbackDelivery env info i (s\<lparr>hsLedger := l, hsJobs := j\<rparr>))
           | Inr _ \<Rightarrow>
               (case qr of
                  Inl _ \<Rightarrow>
                    let s4 = rollbackDelivery env info i (s\<lparr>hsLedger := l, hsJobs := j, hsQueue := q\<rparr>)
                    in (response 503 False False ''webhook queue unavailable'',
                        reportHook info EventActionQueueFailure False (seQueueErr env)
                          (s4\<lparr>hsJobs := snd (Job_MarkFailed (seMark env) (jID rec) JobErrQueue (seQueueErr env) (hsJobs s4))\<rparr>))
                | Inr _ \<Rightarrow>
                    (response 200 True True ''webhook accepted'',
                     reportHook info EventActionAccepted True (JobEventMessage rec)
                       (s\<lparr>hsLedger := l, hsQueue := q, hsJobs := snd (MarkQueued (seMark env) (jID rec) j)\<rparr>))))"
    using L C Q
    by (simp add: hookAccept_def ledger_def [symmetric] rec_def [symmetric] created_def [symmetric] queued_def [symmetric]
        Let_def split: sum.splits bool.splits)
  consider "seen \<noteq> Inr False" | "seen = Inr False" "\<not> seJobs env" | "seen = Inr False" "seJobs env" "cr \<noteq> Inr ()"
    | "seen = Inr False" "seJobs env" "cr = Inr ()" "qr \<noteq> Inr ()"
    | "seen = Inr False" "seJobs env" "cr = Inr ()" "qr = Inr ()" by blast
  then show thesis
  proof cases
    case 1
    then show thesis using notNew by (auto simp: eq L split: sum.splits bool.splits)
  next
    case 2
    then show thesis using noStore by (simp add: eq L)
  next
    case 3
    then show thesis using notCreated by (auto simp: eq L C rollbackDelivery_def split: sum.splits)
  next
    case 4
    then show thesis using notQueued by (auto simp: eq L C Q rollbackDelivery_def Let_def split: sum.splits)
  next
    case 5
    then show thesis using accepted by (simp add: eq L C Q)
  qed
qed

lemma Enqueue_accepted:
  "fst (Enqueue job q) = Inr () \<Longrightarrow> qAccepted (snd (Enqueue job q)) = qAccepted q @ [job]"
  "fst (Enqueue job q) \<noteq> Inr () \<Longrightarrow> qAccepted (snd (Enqueue job q)) = qAccepted q"
  by (auto simp: Enqueue_def Let_def split: if_splits)

text \<open>A record that was just created is still there after the sweep, in memory and on disk.\<close>

lemma JobStore_Create_kept:
  assumes "fst (JobStore_Create env (Some r) (st, d)) = Inr ()" and "jobInv (st, d)" and "jAppName r \<noteq> ''''"
    and "jDeliveryID r \<noteq> ''''" and "jeNow env \<noteq> 0" and "jStatus r = StatusAccepted" and "jID r \<noteq> ''''"
  shows "jobInv (snd (JobStore_Create env (Some r) (st, d)))"
    and "map_of (jsJobs (fst (snd (JobStore_Create env (Some r) (st, d))))) (jID r) = Some (fillJob env r)"
proof -
  show "jobInv (snd (JobStore_Create env (Some r) (st, d)))"
    by (rule jobStep_inv [OF jobStep.created [OF assms(3-5)] assms(2)])
  show "map_of (jsJobs (fst (snd (JobStore_Create env (Some r) (st, d))))) (jID r) = Some (fillJob env r)"
  proof (cases rule: JobStore_Create_cases [OF assms(2-5), case_names same stored])
    case (stored rn d')
    let ?st = "st\<lparr>jsJobs := AList.update (jID rn) rn (jsJobs st)\<rparr>"
    have rn: "rn = fillJob env r" using stored(1) assms(7) by simp
    then have "\<not> jobTerminal rn" using assms(6) by (simp add: jobTerminal_def fillJob_def StatusAccepted_def isTerminalStatus_def jobStatus_defs)
    moreover have "map_of (jsJobs ?st) (jID rn) = Some rn" by (simp add: update_conv)
    moreover have "distinct (map fst (jsJobs ?st))" using stored(4) by (simp add: jobInv_def)
    ultimately show ?thesis
      using sweptBy_terminal [of ?st "jID rn" env] by (auto simp: stored(3) sweep_lookup rn simp del: jobStore.simps)
  qed (use assms(1) in simp)
qed

lemma jobInv_on_disk: "jobInv s \<Longrightarrow> map_of (jsJobs (fst s)) k = Some r \<Longrightarrow> snd s (jobPath k) = Some (JobData r)"
  by (auto simp: jobInv_def dest!: map_of_SomeD)

lemma NewJobID_nonempty: "NewJobID rnd n \<noteq> ''''"
  by (simp add: NewJobID_def mintId_def split: option.splits)

lemma accepted_job_stored:
  fixes env info i branch commit menv s
  defines "rec \<equiv> newJobRecord env info i branch commit" and "job \<equiv> newHookJob env info (newJobRecord env info i branch commit)"
  assumes "fst (JobStore_Create (seCreate env) (Some rec) s) = Inr ()" and "jobInv s" and "aiName info \<noteq> ''''"
    and "i \<noteq> ''''" and "jeNow (seCreate env) \<noteq> 0"
  defines "s' \<equiv> snd (MarkQueued menv (jID rec) (snd (JobStore_Create (seCreate env) (Some rec) s)))"
  shows "\<exists>r. snd s' (jobPath (hjID job)) = Some (JobData r) \<and> jID r = hjID job \<and>
           jDeliveryID r = hjDeliveryID job \<and> jAppName r = hjAppName job \<and> jCommit r = hjCommitSHA job \<and>
           jStatus r \<in> {StatusAccepted, StatusQueued}"
proof -
  obtain st d where s: "s = (st, d)" by (cases s)
  obtain st1 d1 where s1: "snd (JobStore_Create (seCreate env) (Some rec) s) = (st1, d1)"
    by (cases "snd (JobStore_Create (seCreate env) (Some rec) s)")
  have "jAppName rec \<noteq> ''''" "jDeliveryID rec \<noteq> ''''" "jStatus rec = StatusAccepted" "jID rec \<noteq> ''''"
    using assms(5,6) NewJobID_nonempty by (simp_all add: rec_def newJobRecord_def)
  note kept = JobStore_Create_kept [OF assms(3) [unfolded s] assms(4) [unfolded s] this(1,2) assms(7) this(3,4),
      folded s, unfolded s1]
  have inv': "jobInv s'" unfolding s'_def s1 by (rule jobStep_inv [OF jobStep.queued kept(1)])
  have fill: "jID (fillJob (seCreate env) rec) = hjID job" "jDeliveryID (fillJob (seCreate env) rec) = hjDeliveryID job"
    "jAppName (fillJob (seCreate env) rec) = hjAppName job" "jCommit (fillJob (seCreate env) rec) = hjCommitSHA job"
    "jStatus (fillJob (seCreate env) rec) = StatusAccepted" "jID rec = hjID job"
    by (simp_all add: rec_def job_def newJobRecord_def newHookJob_def fillJob_def StatusAccepted_def)
  obtain fn where fn: "MarkQueued menv (jID rec) = updateJob menv (jID rec) fn" "lifecycle fn"
    "\<And>r r'. fn r = Inr r' \<Longrightarrow> jStatus r' = StatusQueued \<and> sameJob r r'"
    by (rule that [OF MarkQueued_def]) (auto simp: result_simps sameJob_def intro!: lifecycle_forward)
  have s': "s' = snd (updateJob menv (jID rec) fn (st1, d1))" unfolding s'_def s1 fn(1) by (rule refl)
  have "\<exists>r. map_of (jsJobs (fst s')) (hjID job) = Some r \<and> jID r = hjID job \<and>
           jDeliveryID r = hjDeliveryID job \<and> jAppName r = hjAppName job \<and> jCommit r = hjCommitSHA job \<and>
           jStatus r \<in> {StatusAccepted, StatusQueued}"
  proof (cases rule: updateJob_cases [OF fn(2) kept(1), of menv "jID rec", case_names same moved])
    case (same d')
    then show ?thesis using kept(2) fill unfolding s' by simp
  next
    case (moved r r' d')
    moreover have "r = fillJob (seCreate env) rec" using moved(1) kept(2) by simp
    ultimately show ?thesis using fn(3) [OF moved(2)] fill unfolding s' by (simp add: update_conv sameJob_def)
  qed
  with jobInv_on_disk [OF inv'] show ?thesis by blast
qed

text \<open>
  A queued answer is backed by durable state, and nothing else is queued. When the handler answers
  that a delivery was queued, the ledger file on disk lists the delivery, the job file on disk holds the job of
  the same delivery as accepted or queued, and the queue accepted exactly that job; when it gives any
  other answer, the queue accepted nothing.
\<close>

theorem webhook_queued_is_durable:
  assumes "handleWebhook env rq s = (rs, s')" and "jobInv (hsJobs s)" and "deliveryWf (fst (hsLedger s))"
    and "\<And>resolved. seResolve env (hookIdentifier rq) = Inr resolved \<Longrightarrow> aiName (raInfo resolved) \<noteq> ''''"
    and "jeNow (seCreate env) \<noteq> 0"
  shows "if rsQueued rs
         then \<exists>job es e r.
           qAccepted (hsQueue s') = qAccepted (hsQueue s) @ [job] \<and>
           snd (hsLedger s') (dPath (fst (hsLedger s))) = Some (DeliveryData deliveryLedgerVersion es) \<and>
           Some e \<in> set es \<and> dlApp e = hjAppName job \<and> dlDeliveryID e = hjDeliveryID job \<and>
           snd (hsJobs s') (jobPath (hjID job)) = Some (JobData r) \<and> jID r = hjID job \<and>
           jDeliveryID r = hjDeliveryID job \<and> jAppName r = hjAppName job \<and> jCommit r = hjCommitSHA job \<and>
           jStatus r \<in> {StatusAccepted, StatusQueued}
         else qAccepted (hsQueue s') = qAccepted (hsQueue s)"
proof (cases rule: handleWebhook_cases [of env rq s, case_names refused ignored push])
  case (refused rs')
  then show ?thesis using assms(1) hookAuthenticate_refused by auto
next
  case (ignored info cfg i rs' action success msg)
  then show ?thesis using assms(1) hookClassify_refused by auto
next
  case (push info cfg i branch commit)
  have name: "aiName info \<noteq> ''''" and i: "i \<noteq> ''''"
    using hookAuthenticate_ok [OF push(1)] hookClassify_ok [OF push(2)] assms(4) by auto
  let ?rec = "newJobRecord env info i branch commit"
  have acc: "rs = fst (hookAccept env info i branch commit s)" "s' = snd (hookAccept env info i branch commit s)"
    using push(3) assms(1) by (metis fst_conv, metis snd_conv)
  show ?thesis
  proof (cases rule: hookAccept_cases [of env info i branch commit s, case_names notNew noStore notCreated notQueued accepted])
    case accepted
    let ?job = "newHookJob env info ?rec"
    obtain l d where ld: "hsLedger s = (l, d)" by (cases "hsLedger s")
    obtain st jd where sj: "hsJobs s = (st, jd)" by (cases "hsJobs s")
    note new = SeenOrRecord_accepted [OF accepted(1) [unfolded ld]]
    let ?e = "deliveryRec (seRecord env) (aiName info) i branch commit ProviderGitHub"
    have "snd (recordIx l ?e) (dlKey ?e) = Some ?e" "idxWf dlKey (\<lambda>e. dlKey e \<noteq> '''') (recordIx l ?e)"
      using recordIx_props(1,3) [of l ?e] assms(3) new(3) by (simp_all add: ld deliveryWf_def)
    then have "Some ?e \<in> set (idxRecords (recordIx l ?e))"
      by (force simp: idxRecords_def idxWf_def idxInv_def)
    moreover have "snd (hsLedger s') (dPath l) = Some (DeliveryData deliveryLedgerVersion (idxRecords (recordIx l ?e)))"
      using new(5) by (simp add: acc accepted(7) ld)
    moreover have "dlApp ?e = hjAppName ?job" "dlDeliveryID ?e = hjDeliveryID ?job"
      by (simp_all add: deliveryRec_def newHookJob_def newJobRecord_def)
    moreover have "qAccepted (hsQueue s') = qAccepted (hsQueue s) @ [?job]"
      using Enqueue_accepted(1) [OF accepted(4)] by (simp add: acc accepted(9))
    moreover have "\<exists>r. snd (hsJobs s') (jobPath (hjID ?job)) = Some (JobData r) \<and> jID r = hjID ?job \<and>
        jDeliveryID r = hjDeliveryID ?job \<and> jAppName r = hjAppName ?job \<and> jCommit r = hjCommitSHA ?job \<and>
        jStatus r \<in> {StatusAccepted, StatusQueued}"
      using accepted_job_stored [OF accepted(3) assms(2) name i assms(5)] by (simp add: acc accepted(8))
    ultimately show ?thesis using accepted(5) acc(1) by (auto simp: ld)
  qed (use acc Enqueue_accepted(2) in auto)
qed

section \<open>Replay protection of the endpoint\<close>

text \<open>
  Interleaved runs of the server: \<open>hookRun s n s'\<close> reaches \<open>s'\<close> from \<open>s\<close> with \<open>n\<close> requests, of any senders, between
  which the queue's workers and the job store take any number of steps.
\<close>

inductive hookRun :: "hookState \<Rightarrow> nat \<Rightarrow> hookState \<Rightarrow> bool" for s where
  start: "hookRun s 0 s"
| request: "hookRun s n s' \<Longrightarrow> hookRun s (Suc n) (snd (handleWebhook env rq s'))"
| worker: "hookRun s n s' \<Longrightarrow> queueStep (hsQueue s') q \<Longrightarrow> hookRun s n (s'\<lparr>hsQueue := q\<rparr>)"
| job: "hookRun s n s' \<Longrightarrow> jobStep (hsJobs s') j \<Longrightarrow> hookRun s n (s'\<lparr>hsJobs := j\<rparr>)"

lemma retainedKey_mono: "retainedKey K n l \<Longrightarrow> n \<le> m \<Longrightarrow> retainedKey K m l"
  by (force simp: retainedKey_def)

lemma remove1_around:
  assumes "k \<noteq> K"
  shows "\<exists>pre' post'. remove1 k (pre @ K # post) = pre' @ K # post' \<and> length post' \<le> length post"
proof (cases "k \<in> set pre")
  case True
  then have "remove1 k (pre @ K # post) = remove1 k pre @ K # post" by (simp add: remove1_append)
  then show ?thesis by blast
next
  case False
  then have "remove1 k (pre @ K # post) = pre @ K # remove1 k post" using assms by (simp add: remove1_append)
  moreover have "length (remove1 k post) \<le> length post" by (simp add: length_remove1)
  ultimately show ?thesis by blast
qed

lemma retainedKey_Remove:
  assumes "retainedKey K n l" and "deliveryKey app i \<noteq> K"
  shows "retainedKey K n (fst (snd (Delivery_Remove env app i (l, d)))) \<and>
         dMax (fst (snd (Delivery_Remove env app i (l, d)))) = dMax l"
proof (cases "\<not> dReady l \<or> dErr l \<noteq> None \<or> snd (dIndex l) (deliveryKey app i) = None")
  case True
  then have "fst (snd (Delivery_Remove env app i (l, d))) = l" by (auto simp: Delivery_Remove_def Let_def)
  with assms show ?thesis by simp
next
  case False
  with assms(1) obtain pre post where ord: "fst (dIndex l) = pre @ K # post" "length post \<le> n"
    and wf: "idxWf dlKey (\<lambda>e. dlKey e \<noteq> '''') (dIndex l)" "1 \<le> dMax l"
    by (auto simp: retainedKey_def deliveryWf_def)
  obtain pre' post' where "remove1 (deliveryKey app i) (fst (dIndex l)) = pre' @ K # post'" "length post' \<le> length post"
    using remove1_around [OF assms(2), of pre post] unfolding ord(1) by blast
  then have "fst (idxDelete (deliveryKey app i) (dIndex l)) = pre' @ K # post'" "length post' \<le> n"
    using ord(2) by (simp_all add: idxDelete_def)
  with idxWf_delete [OF wf(1)] wf(2) False show ?thesis
    by (auto simp: Delivery_Remove_def Let_def retainedKey_def deliveryWf_def split: prod.splits sum.splits)
qed

text \<open>One request keeps a recorded delivery in the window, at the price of at most one place.\<close>

lemma retainedKey_seen:
  assumes "retainedKey (deliveryKey app i) n l"
  shows "fst (SeenOrRecord env app i br co pr (l, d)) \<noteq> Inr False" and "snd (SeenOrRecord env app i br co pr (l, d)) = (l, d)"
proof -
  have "deliveryKey app i \<in> dom (snd (dIndex l))" if "dErr l = None"
    using assms that by (auto simp: retainedKey_def deliveryWf_def idxWf_def idxInv_def)
  then show "fst (SeenOrRecord env app i br co pr (l, d)) \<noteq> Inr False" and "snd (SeenOrRecord env app i br co pr (l, d)) = (l, d)"
    by (auto simp: SeenOrRecord_def Let_def)
qed

lemma retainedKey_handle:
  assumes "retainedKey K n (fst (hsLedger s))" and "Suc n < dMax (fst (hsLedger s))"
  shows "retainedKey K (Suc n) (fst (hsLedger (snd (handleWebhook env rq s)))) \<and>
         dMax (fst (hsLedger (snd (handleWebhook env rq s)))) = dMax (fst (hsLedger s))"
proof (cases rule: handleWebhook_cases [of env rq s, case_names refused ignored push])
  case (push info cfg i branch commit)
  obtain l d where ld: "hsLedger s = (l, d)" by (cases "hsLedger s")
  let ?sr = "SeenOrRecord (seRecord env) (aiName info) i branch commit ProviderGitHub (l, d)"
  have step: "retainedKey K (Suc n) (fst (snd ?sr)) \<and> dMax (fst (snd ?sr)) = dMax l"
    using assms by (intro retainedKey_step) (simp_all add: ld)
  have other: "deliveryKey (aiName info) i \<noteq> K" if "fst ?sr = Inr False"
    using retainedKey_seen(1) that assms(1) by (auto simp: ld)
  obtain l' d' where sr': "snd ?sr = (l', d')" by (cases "snd ?sr")
  have rm: "retainedKey K (Suc n) (fst (snd (Delivery_Remove (seRollback env) (aiName info) i (snd ?sr)))) \<and>
      dMax (fst (snd (Delivery_Remove (seRollback env) (aiName info) i (snd ?sr)))) = dMax l" if "fst ?sr = Inr False"
    using retainedKey_Remove [OF _ other [OF that]] step unfolding sr' by auto
  show ?thesis
    by (cases rule: hookAccept_cases [of env info i branch commit s]) (use step rm in \<open>simp_all add: push(3) ld\<close>)
qed (use assms retainedKey_mono [OF assms(1), of "Suc n"] in simp_all)

lemma retainedKey_hookRun:
  assumes "hookRun s n s'" and "retainedKey K 0 (fst (hsLedger s))" and "n < dMax (fst (hsLedger s))"
  shows "retainedKey K n (fst (hsLedger s')) \<and> dMax (fst (hsLedger s')) = dMax (fst (hsLedger s))"
  using assms
proof (induction rule: hookRun.induct)
  case (request n s' env rq)
  then show ?case using retainedKey_handle [of K n s' env rq] by simp
qed simp_all

text \<open>
  C10: A delivery is built at most once within the replay window. After a request was answered as queued,
  any run of the server with fewer further requests than the ledger's capacity, interleaved with workers and job
  updates and with any failures, leaves the same delivery of the same application refused: a redelivery is
  not answered as queued and enqueues nothing.
\<close>

theorem webhook_builds_delivery_once:
  assumes "handleWebhook env rq s = (rs, s1)" and "rsQueued rs" and "deliveryWf (fst (hsLedger s))"
    and "hookAuthenticate env rq = Inr (info, cfg, i)" and "hookRun s1 n s2" and "n < dMax (fst (hsLedger s))"
    and "hookAuthenticate env' rq' = Inr (info', cfg', i)" and "aiName info' = aiName info"
  shows "\<not> rsQueued (fst (handleWebhook env' rq' s2)) \<and>
         qAccepted (hsQueue (snd (handleWebhook env' rq' s2))) = qAccepted (hsQueue s2)"
proof -
  obtain l d where ld: "hsLedger s = (l, d)" by (cases "hsLedger s")
  have "retainedKey (deliveryKey (aiName info) i) 0 (fst (hsLedger s1)) \<and> dMax (fst (hsLedger s1)) = dMax l"
  proof (cases rule: handleWebhook_cases [of env rq s, case_names refused ignored push])
    case (push info0 cfg0 i0 branch commit)
    then have acc: "rs = fst (hookAccept env info i branch commit s)" "s1 = snd (hookAccept env info i branch commit s)"
      using assms(1,4) by (metis fst_conv sum.inject(2) prod.inject, metis snd_conv sum.inject(2) prod.inject)
    show ?thesis
    proof (cases rule: hookAccept_cases [of env info i branch commit s, case_names notNew noStore notCreated notQueued accepted])
      case accepted
      note new = SeenOrRecord_accepted [OF accepted(1) [unfolded ld]]
      let ?e = "deliveryRec (seRecord env) (aiName info) i branch commit ProviderGitHub"
      have "idxWf dlKey (\<lambda>e. dlKey e \<noteq> '''') (recordIx l ?e) \<and>
          fst (recordIx l ?e) = drop (Suc (length (fst (dIndex l))) - dMax l) (fst (dIndex l)) @ [dlKey ?e]"
        using recordIx_props(1,4) [of l ?e] assms(3) new(3) by (simp add: ld deliveryWf_def)
      then show ?thesis
        using assms(3) new(4) by (simp add: acc accepted(7) ld retainedKey_def deliveryWf_def)
    qed (use acc assms(2) in simp_all)
  qed (use assms(1,2) hookAuthenticate_refused(1) hookClassify_refused(1) in auto)
  then have kept: "retainedKey (deliveryKey (aiName info) i) n (fst (hsLedger s2))"
    using retainedKey_hookRun [OF assms(5)] assms(6) by (simp add: ld)
  show ?thesis
  proof (cases rule: handleWebhook_cases [of env' rq' s2, case_names refused ignored push])
    case (refused rs')
    then show ?thesis using assms(7) by simp
  next
    case (ignored info0 cfg0 i0 rs' action success msg)
    then show ?thesis using hookClassify_refused by simp
  next
    case (push info0 cfg0 i0 branch commit)
    obtain l2 d2 where ld2: "hsLedger s2 = (l2, d2)" by (cases "hsLedger s2")
    have id: "info0 = info'" "i0 = i" using push(1) assms(7) by simp_all
    have "fst (SeenOrRecord (seRecord env') (aiName info0) i0 branch commit ProviderGitHub (hsLedger s2)) \<noteq> Inr False"
      using retainedKey_seen(1) [of "aiName info" i n l2] kept unfolding id ld2 assms(8) by simp
    then show ?thesis
      by (cases rule: hookAccept_cases [of env' info0 i0 branch commit s2]) (simp_all add: push(3))
  qed
qed

section \<open>Concrete requests\<close>

definition demoHookApp :: resolvedApp where
  "demoHookApp = \<lparr>raInfo = \<lparr>aiID = ''a1'', aiName = ''web'', aiDirectory = ''/srv''\<rparr>,
              raConfig = Some \<lparr>hcEnabled = True, hcSecretEnv = ''HOOK'', hcBranch = ''main''\<rparr>\<rparr>"

definition demoServer :: serverEnv where
  "demoServer = \<lparr>seMaxBodyBytes = effectiveMaxBody 0, seResolve = (\<lambda>_. Inr demoHookApp), seLookupSecret = (\<lambda>_. Some ''k''),
     seHmac = (\<lambda>_ _. replicate 32 255),
     seParse = (\<lambda>_. Some \<lparr>ppRef = ''refs/heads/main'', ppBefore = '''', ppAfter = ''c0ffee'', ppCreated = False, ppDeleted = False\<rparr>),
     seJobs = True, seRecord = quietEnv, seRollback = quietEnv, seCreate = quietJobEnv, seMark = quietJobEnv, seNow = 5,
     seQueueErr = ''webhook queue is full''\<rparr>"

definition demoRequest :: hookRequest where
  "demoRequest = \<lparr>rqMethod = ''POST'', rqPath = ''/webhook/web'', rqContentLength = 2, rqBody = ''{}'', rqBodyErr = False,
     rqDelivery = ''d1'', rqSignature = ''sha256='' @ concat (replicate 32 ''ff''), rqEventType = ''push''\<rparr>"

definition demoHook :: hookState where
  "demoHook = \<lparr>hsLedger = (demoLedger, Map.empty), hsJobs = ((NewJobStore 200)\<lparr>jsReady := True\<rparr>, Map.empty),
     hsQueue = NewQueue, hsEvents = []\<rparr>"

lemma demo_authenticated:
  "hookAuthenticate demoServer demoRequest =
     Inr (raInfo demoHookApp, \<lparr>hcEnabled = True, hcSecretEnv = ''HOOK'', hcBranch = ''main''\<rparr>, ''d1'')"
  by code_simp

lemma demo_queued: "rsQueued (fst (handleWebhook demoServer demoRequest demoHook))"
  by code_simp

lemma demoHook_inv: "jobInv (hsJobs demoHook)" "deliveryWf (fst (hsLedger demoHook))" "dMax (fst (hsLedger demoHook)) = 2"
proof -
  show "jobInv (hsJobs demoHook)" by (simp add: demoHook_def jobInv_def NewJobStore_def)
  show "deliveryWf (fst (hsLedger demoHook))" by (simp add: demoHook_def demoLedger_wf)
  show "dMax (fst (hsLedger demoHook)) = 2" by (simp add: demoHook_def demoLedger_def NewDeliveryLedger_def)
qed

theorem webhook_needs_authentic_push_witness:
  "VerifySignature (seHmac demoServer) ''k'' (rqBody demoRequest) (rqSignature demoRequest)"
proof -
  obtain rs s' where h: "handleWebhook demoServer demoRequest demoHook = (rs, s')"
    by (cases "handleWebhook demoServer demoRequest demoHook")
  with demo_queued have "rsQueued rs" by simp
  with webhook_needs_authentic_push [OF h] have "\<exists>secret. seLookupSecret demoServer ''HOOK'' = Some secret \<and>
      VerifySignature (seHmac demoServer) secret (rqBody demoRequest) (rqSignature demoRequest)"
    by (auto simp: demoServer_def demoHookApp_def)
  then show ?thesis by (auto simp: demoServer_def)
qed

theorem webhook_queued_is_durable_witness:
  "\<exists>job. qAccepted (hsQueue (snd (handleWebhook demoServer demoRequest demoHook))) = qAccepted NewQueue @ [job]"
proof -
  obtain rs s' where h: "handleWebhook demoServer demoRequest demoHook = (rs, s')"
    by (cases "handleWebhook demoServer demoRequest demoHook")
  with demo_queued have queued: "rsQueued rs" by simp
  have "aiName (raInfo r) \<noteq> ''''" if "seResolve demoServer (hookIdentifier demoRequest) = Inr r" for r
    using that by (auto simp: demoServer_def demoHookApp_def)
  moreover have "jeNow (seCreate demoServer) \<noteq> 0" by (simp add: demoServer_def quietJobEnv_def)
  ultimately show ?thesis
    using webhook_queued_is_durable [OF h demoHook_inv(1,2)] queued unfolding h by (auto simp: demoHook_def)
qed

theorem webhook_builds_delivery_once_witness:
  "\<not> rsQueued (fst (handleWebhook demoServer demoRequest (snd (handleWebhook demoServer demoRequest demoHook))))"
proof -
  obtain rs s' where h: "handleWebhook demoServer demoRequest demoHook = (rs, s')"
    by (cases "handleWebhook demoServer demoRequest demoHook")
  with demo_queued have "rsQueued rs" by simp
  from webhook_builds_delivery_once [OF h this demoHook_inv(2) demo_authenticated hookRun.start _ demo_authenticated refl]
  show ?thesis by (simp add: h demoHook_inv)
qed

text \<open>
  A delivery the queue refuses is forgotten. When the handler answers 503 because the queue is full or
  closed and the ledger could be rewritten, the delivery is not in the ledger any more, so that its
  redelivery is treated as new, and the queue accepted nothing.
\<close>

theorem queue_refusal_rolls_back:
  assumes "handleWebhook env rq s = (rs, s')" and "rsStatus rs = 503" and "hookAuthenticate env rq = Inr (info, cfg, i)"
    and "deliveryWf (fst (hsLedger s))" and "dErr (fst (hsLedger s')) = None"
  shows "snd (dIndex (fst (hsLedger s'))) (deliveryKey (aiName info) i) = None \<and>
         fst (SeenOrRecord env' (aiName info) i br co pr (hsLedger s')) \<noteq> Inr True \<and>
         qAccepted (hsQueue s') = qAccepted (hsQueue s)"
proof (cases rule: handleWebhook_cases [of env rq s, case_names refused ignored push])
  case (push info0 cfg0 i0 branch commit)
  then have acc: "rs = fst (hookAccept env info i branch commit s)" "s' = snd (hookAccept env info i branch commit s)"
    using assms(1,3) by (metis fst_conv sum.inject(2) prod.inject, metis snd_conv sum.inject(2) prod.inject)
  obtain l d where ld: "hsLedger s = (l, d)" by (cases "hsLedger s")
  show ?thesis
  proof (cases rule: hookAccept_cases [of env info i branch commit s, case_names notNew noStore notCreated notQueued accepted])
    case notQueued
    let ?sr = "SeenOrRecord (seRecord env) (aiName info) i branch commit ProviderGitHub (l, d)"
    note new = SeenOrRecord_accepted [OF notQueued(1) [unfolded ld]]
    obtain l1 d1 where sr: "snd ?sr = (l1, d1)" by (cases "snd ?sr")
    have "dReady l1" "dErr l1 = None" using new(1,2,4) sr by auto
    moreover have "hsLedger s' = snd (Delivery_Remove (seRollback env) (aiName info) i (l1, d1))"
      by (simp add: acc notQueued(6) ld sr)
    ultimately have gone: "snd (dIndex (fst (hsLedger s'))) (deliveryKey (aiName info) i) = None"
      by (auto simp: Delivery_Remove_def idxDelete_def Let_def split: prod.splits sum.splits)
    then have "fst (SeenOrRecord env' (aiName info) i br co pr (hsLedger s')) \<noteq> Inr True"
      by (cases "hsLedger s'") (auto simp: SeenOrRecord_def Let_def split: prod.splits sum.splits)
    with gone show ?thesis using Enqueue_accepted(2) [OF notQueued(3)] by (simp add: acc notQueued(8))
  qed (use acc assms(2) in simp_all)
qed (use assms hookAuthenticate_refused(2) hookClassify_refused(2) in auto)

definition closedHook :: hookState where
  "closedHook = demoHook\<lparr>hsQueue := NewQueue\<lparr>qClosed := True\<rparr>\<rparr>"

lemma closed_refused:
  "rsStatus (fst (handleWebhook demoServer demoRequest closedHook)) = 503"
  "dErr (fst (hsLedger (snd (handleWebhook demoServer demoRequest closedHook)))) = None"
  by code_simp+

theorem queue_refusal_rolls_back_witness:
  "snd (dIndex (fst (hsLedger (snd (handleWebhook demoServer demoRequest closedHook))))) (deliveryKey ''web'' ''d1'') = None"
proof -
  obtain rs s' where h: "handleWebhook demoServer demoRequest closedHook = (rs, s')"
    by (cases "handleWebhook demoServer demoRequest closedHook")
  have "deliveryWf (fst (hsLedger closedHook))" using demoHook_inv(2) by (simp add: closedHook_def)
  from queue_refusal_rolls_back [OF h _ demo_authenticated this] closed_refused h show ?thesis
    by (simp add: demoHookApp_def)
qed

section \<open>A delivery lost without a job store\<close>

text \<open>
  Without a configured job store the handler refuses the delivery with a server error, but leaves it recorded: when
  the provider redelivers, the answer is that it was already processed, although it was never built.
  The comment above that branch says the ledger entry is rolled back so that the provider redelivers.
\<close>

lemma missing_store_swallows_delivery:
  "fst (handleWebhook (demoServer\<lparr>seJobs := False\<rparr>) demoRequest demoHook) = response 500 False False ''webhook unavailable''"
  "fst (handleWebhook demoServer demoRequest (snd (handleWebhook (demoServer\<lparr>seJobs := False\<rparr>) demoRequest demoHook))) =
     response 200 True False ''delivery already processed''"
  by code_simp+

end
