(* ===== verification/OpsLedger.thy ===== *)
theory OpsLedger
  imports LedgerIndex
begin

text \<open>
  The request-key idempotency ledger (\<open>internal/ops/ledger.go\<close>).  Every begin and complete runs under the instance's
  mutex and a blocking cross-process file lock and first re-reads the ledger from disk, so it is one
  function of a process's ledger value and the shared filesystem; several processes are several ledger
  values over one filesystem.  A file holds a decoded ledger or bytes that do not parse: the base64 encoding
  of results makes the JSON round trip exact.  Each operation has one clock reading; the process table, the data directory,
  the JSON encoder of the machine envelope and failures are fields of the environment.
\<close>

definition ledgerVersion :: int where "ledgerVersion = 2"
definition ledgerCapacity :: nat where "ledgerCapacity = 512"
definition ledgerFile :: string where "ledgerFile = ''request-key-ledger.json''"
definition entryStateInProgress :: string where "entryStateInProgress = ''in_progress''"
definition entryStateComplete :: string where "entryStateComplete = ''complete''"

text \<open>One hour in milliseconds.\<close>

definition abandonedInProgressAge :: int where "abandonedInProgressAge = 60 * 60 * 1000"

record keyEntry =
  keKey :: string
  keFingerprint :: string
  keKind :: string
  keApp :: string
  keOperationID :: string
  keState :: string
  keResult :: string
  kePID :: int
  keCreatedAt :: int
  keUpdatedAt :: int

datatype opsFile = OpsGarbage | OpsData int "keyEntry option list"

datatype BeginOutcome = BeginExecute | BeginReplay

record keyLedger =
  klDir :: string
  klMax :: nat
  klIndex :: "keyEntry keyIndex"
  klLoaded :: bool
  klCorrupt :: "code option"

type_synonym ledgerState = "keyLedger \<times> opsFile dir"

record ledgerEnvelope =
  leSchemaVersion :: string
  leOperationID :: string
  leStatus :: string
  leErrorCode :: string
  leErrorMessage :: string
  leExitCode :: int

text \<open>Orphan recovery and the operation itself may both write; each write has its own system calls.\<close>

record opsEnv =
  opDataDir :: string
  opOrphanIo :: "opsFile io"
  opIo :: "opsFile io"
  opLockErr :: bool
  opReadErr :: bool
  opPid :: nat
  opNow :: int
  opAlive :: "int \<Rightarrow> bool"
  opMarshal :: "ledgerEnvelope \<Rightarrow> string option"

definition newKeyLedger :: keyLedger where
  "newKeyLedger = \<lparr>klDir = '''', klMax = ledgerCapacity, klIndex = ([], Map.empty), klLoaded = False, klCorrupt = None\<rparr>"

definition ledgerPath :: "string \<Rightarrow> string" where
  "ledgerPath dd = dd @ ''/ops/'' @ ledgerFile"

definition pidAlive :: "opsEnv \<Rightarrow> int \<Rightarrow> bool" where
  "pidAlive env pid = (if pid \<le> 0 then False else opAlive env pid)"

definition indeterminateMessage :: string where
  "indeterminateMessage =
     ''process restarted while this request key was in progress; the outcome is indeterminate and the operation was not re-executed '' @
     [CHR 0xE2, CHR 0x80, CHR 0x94] @
     '' inspect the operation state, then retry under a fresh request key (or, if this was a plan apply, create and apply a new plan)''"

definition indeterminateFallback :: string where
  "indeterminateFallback =
     ''{\"schema_version\":\"1\",\"status\":\"failed\",\"error\":{\"code\":\"UNAVAILABLE\",\"message\":\"outcome indeterminate\",\"exit_code\":1}}''"

definition indeterminateResult :: "opsEnv \<Rightarrow> keyEntry \<Rightarrow> string" where
  "indeterminateResult env e =
     (case opMarshal env \<lparr>leSchemaVersion = ''1'', leOperationID = keOperationID e, leStatus = ''failed'',
             leErrorCode = code_String CodeUnavailable, leErrorMessage = indeterminateMessage, leExitCode = 1\<rparr> of
        None \<Rightarrow> indeterminateFallback
      | Some b \<Rightarrow> b)"

definition closeEntry :: "opsEnv \<Rightarrow> keyEntry \<Rightarrow> keyEntry" where
  "closeEntry env e =
     e\<lparr>keState := entryStateComplete, keUpdatedAt := opNow env, keResult := indeterminateResult env e\<rparr>"

definition anchorLocked :: "opsEnv \<Rightarrow> keyLedger \<Rightarrow> keyLedger" where
  "anchorLocked env l =
     (if opDataDir env \<noteq> klDir l then
        l\<lparr>klDir := opDataDir env, klLoaded := False, klIndex := ([], Map.empty), klCorrupt := None\<rparr>
      else l)"

definition keyEntryOk :: "keyEntry \<Rightarrow> bool" where
  "keyEntryOk e \<longleftrightarrow>
     \<not> (keKey e = '''' \<or> keFingerprint e = '''' \<or>
        (keState e \<noteq> entryStateInProgress \<and> keState e \<noteq> entryStateComplete)) \<and>
     \<not> (keState e = entryStateComplete \<and> keResult e = '''')"

definition loadLocked :: "opsEnv \<Rightarrow> ledgerState \<Rightarrow> (code, unit) result \<times> keyLedger" where
  "loadLocked env s =
     (let l = (fst s)\<lparr>klIndex := ([], Map.empty)\<rparr>;
          poison = (\<lambda>l. (Inl CodeUnavailable, l\<lparr>klCorrupt := Some CodeUnavailable\<rparr>))
      in if opReadErr env then (Inl CodeUnavailable, l)
         else case snd s (ledgerPath (klDir l)) of
           None \<Rightarrow> if fails (opIo env) IoMkdir then (Inl CodeUnavailable, l) else (Inr (), l)
         | Some OpsGarbage \<Rightarrow> poison l
         | Some (OpsData v es) \<Rightarrow>
             if v \<noteq> ledgerVersion then poison l
             else
               let es' = (if length es > klMax l then drop (length es - klMax l) es else es);
                   l' = l\<lparr>klIndex := idxLoaded keKey keyEntryOk es' ([], Map.empty)\<rparr>
               in if idxLoad keKey keyEntryOk es' ([], Map.empty) = None then poison l' else (Inr (), l'))"

definition persistLedger :: "opsFile io \<Rightarrow> opsEnv \<Rightarrow> keyLedger \<Rightarrow> opsFile dir \<Rightarrow> (opsFile, unit) fsop" where
  "persistLedger io env l d =
     (if fails io IoMkdir then (Inl CodeUnavailable, d)
      else replaceFile io CodeUnavailable (opPid env) (ledgerPath (klDir l))
             (OpsData ledgerVersion (idxRecords (klIndex l))) d)"

definition isOrphan :: "opsEnv \<Rightarrow> keyEntry \<Rightarrow> bool" where
  "isOrphan env e \<longleftrightarrow> keState e = entryStateInProgress \<and> \<not> pidAlive env (kePID e)"

definition closeOrphans :: "opsEnv \<Rightarrow> keyEntry keyIndex \<Rightarrow> keyEntry keyIndex" where
  "closeOrphans env ix =
     (fst ix, \<lambda>k. map_option (\<lambda>e. if k \<in> set (fst ix) \<and> isOrphan env e then closeEntry env e else e) (snd ix k))"

definition hasOrphan :: "opsEnv \<Rightarrow> keyEntry keyIndex \<Rightarrow> bool" where
  "hasOrphan env ix =
     list_ex (\<lambda>k. case snd ix k of None \<Rightarrow> False | Some e \<Rightarrow> isOrphan env e) (fst ix)"

definition closeOrphanedInProgressLocked :: "opsEnv \<Rightarrow> ledgerState \<Rightarrow> (code, unit) result \<times> ledgerState" where
  "closeOrphanedInProgressLocked env s =
     (case s of (l, d) \<Rightarrow>
        let l' = l\<lparr>klIndex := closeOrphans env (klIndex l)\<rparr> in
        if hasOrphan env (klIndex l) then
          (case persistLedger (opOrphanIo env) env l' d of
             (Inl e, d') \<Rightarrow> (Inl e, (l', d'))
           | (Inr _, d') \<Rightarrow> (Inr (), (l', d')))
        else (Inr (), (l', d)))"

definition initializeLocked :: "opsEnv \<Rightarrow> ledgerState \<Rightarrow> (code, unit) result \<times> ledgerState" where
  "initializeLocked env s =
     (let l = anchorLocked env (fst s) in
      case klCorrupt l of
        Some e \<Rightarrow> (Inl e, (l, snd s))
      | None \<Rightarrow>
          let firstInit = \<not> klLoaded l in
          case loadLocked env (l, snd s) of
            (Inl e, l1) \<Rightarrow> (Inl e, (l1, snd s))
          | (Inr _, l1) \<Rightarrow>
              if \<not> firstInit then (Inr (), (l1, snd s))
              else case closeOrphanedInProgressLocked env (l1, snd s) of
                (Inl e, s2) \<Rightarrow> (Inl e, s2)
              | (Inr _, (l2, d2)) \<Rightarrow> (Inr (), (l2\<lparr>klLoaded := True\<rparr>, d2)))"

section \<open>Making room\<close>

definition findKey :: "(keyEntry \<Rightarrow> bool) \<Rightarrow> keyEntry keyIndex \<Rightarrow> string option" where
  "findKey P ix = find (\<lambda>k. case snd ix k of None \<Rightarrow> False | Some e \<Rightarrow> P e) (fst ix)"

definition evictOneCompletedLocked :: "keyEntry keyIndex \<Rightarrow> keyEntry keyIndex option" where
  "evictOneCompletedLocked ix =
     map_option (\<lambda>k. idxDelete k ix) (findKey (\<lambda>e. keState e = entryStateComplete) ix)"

definition isAbandoned :: "opsEnv \<Rightarrow> keyEntry \<Rightarrow> bool" where
  "isAbandoned env e \<longleftrightarrow>
     keState e = entryStateInProgress \<and> keUpdatedAt e \<le> opNow env - abandonedInProgressAge"

definition closeOneAbandonedLocked :: "opsEnv \<Rightarrow> keyEntry keyIndex \<Rightarrow> keyEntry keyIndex option" where
  "closeOneAbandonedLocked env ix =
     (case findKey (isAbandoned env) ix of
        None \<Rightarrow> None
      | Some k \<Rightarrow> Some (fst ix, (snd ix)(k := map_option (closeEntry env) (snd ix k))))"

definition openCount :: "keyEntry keyIndex \<Rightarrow> nat" where
  "openCount ix =
     length (filter (\<lambda>k. case snd ix k of None \<Rightarrow> False | Some e \<Rightarrow> keState e = entryStateInProgress) (fst ix))"

lemma findKey_Some:
  assumes "findKey P ix = Some k"
  shows "k \<in> set (fst ix)" and "\<exists>e. snd ix k = Some e \<and> P e"
  using assms by (auto simp: findKey_def find_Some_iff split: option.splits)

lemma evict_shorter: "evictOneCompletedLocked ix = Some ix' \<Longrightarrow> length (fst ix') < length (fst ix)"
  using findKey_Some(1) [of _ ix]
  by (auto simp: evictOneCompletedLocked_def idxDelete_def length_remove1) (metis length_pos_if_in_set less_Suc_eq_0_disj diff_less zero_less_one)

lemma states_distinct [simp]: "entryStateComplete \<noteq> entryStateInProgress" "entryStateInProgress \<noteq> entryStateComplete"
  by (simp_all add: entryStateComplete_def entryStateInProgress_def)

lemma close_fewer_open:
  assumes "closeOneAbandonedLocked env ix = Some ix'"
  shows "length (fst ix') = length (fst ix)" and "openCount ix' < openCount ix"
proof -
  from assms obtain k where k: "findKey (isAbandoned env) ix = Some k"
    and ix': "ix' = (fst ix, (snd ix)(k := map_option (closeEntry env) (snd ix k)))"
    by (auto simp: closeOneAbandonedLocked_def split: option.splits)
  obtain e where e: "snd ix k = Some e" "keState e = entryStateInProgress" and mem: "k \<in> set (fst ix)"
    using findKey_Some [OF k] by (auto simp: isAbandoned_def)
  show "length (fst ix') = length (fst ix)" by (simp add: ix')
  let ?P = "\<lambda>k. case snd ix k of None \<Rightarrow> False | Some e \<Rightarrow> keState e = entryStateInProgress"
  have "filter (\<lambda>k. case snd ix' k of None \<Rightarrow> False | Some e \<Rightarrow> keState e = entryStateInProgress) (fst ix') =
      filter (\<lambda>j. ?P j \<and> j \<noteq> k) (fst ix)"
    by (intro filter_cong) (auto simp: ix' e closeEntry_def split: option.splits)
  moreover have "length (filter (\<lambda>j. ?P j \<and> j \<noteq> k) (fst ix)) < length (filter ?P (fst ix))"
  proof -
    have "filter (\<lambda>j. ?P j \<and> j \<noteq> k) (fst ix) = filter (\<lambda>j. j \<noteq> k) (filter ?P (fst ix))"
      by (simp add: conj_commute)
    then show ?thesis using mem e by (simp only:) (rule length_filter_less [where x = k], simp_all)
  qed
  ultimately show "openCount ix' < openCount ix" by (simp add: openCount_def)
qed

function makeRoomLocked :: "opsEnv \<Rightarrow> nat \<Rightarrow> keyEntry keyIndex \<Rightarrow> bool \<times> keyEntry keyIndex" where
  "makeRoomLocked env mx ix =
     (if length (fst ix) < mx then (True, ix)
      else case evictOneCompletedLocked ix of
        Some ix' \<Rightarrow> makeRoomLocked env mx ix'
      | None \<Rightarrow>
          (case closeOneAbandonedLocked env ix of
             Some ix' \<Rightarrow> makeRoomLocked env mx ix'
           | None \<Rightarrow> (False, ix)))"
  by pat_completeness auto

termination
  by (relation "measures [\<lambda>(env, mx, ix). length (fst ix), \<lambda>(env, mx, ix). openCount ix]")
    (auto dest: evict_shorter close_fewer_open)

declare makeRoomLocked.simps [simp del]

section \<open>Begin and complete\<close>

definition newKeyEntry :: "opsEnv \<Rightarrow> string \<Rightarrow> string \<Rightarrow> string \<Rightarrow> string \<Rightarrow> keyEntry" where
  "newKeyEntry env key fingerprint kind app =
     \<lparr>keKey = key, keFingerprint = fingerprint, keKind = kind, keApp = app, keOperationID = '''',
      keState = entryStateInProgress, keResult = '''', kePID = int (opPid env), keCreatedAt = opNow env,
      keUpdatedAt = opNow env\<rparr>"

definition beginLocked ::
    "opsEnv \<Rightarrow> string \<Rightarrow> string \<Rightarrow> string \<Rightarrow> string \<Rightarrow> ledgerState \<Rightarrow> (code, BeginOutcome \<times> keyEntry) result \<times> ledgerState" where
  "beginLocked env key fingerprint kind app s =
     (case initializeLocked env s of
        (Inl e, s1) \<Rightarrow> (Inl e, s1)
      | (Inr _, (l, d)) \<Rightarrow>
          case snd (klIndex l) key of
            Some existing \<Rightarrow>
              if keFingerprint existing \<noteq> fingerprint then (Inl CodeIdempotencyConflict, (l, d))
              else if keState existing = entryStateInProgress then (Inl CodeUnavailable, (l, d))
              else (Inr (BeginReplay, existing), (l, d))
          | None \<Rightarrow>
              let (room, ix) = makeRoomLocked env (klMax l) (klIndex l) in
              if \<not> room then (Inl CodeUnavailable, (l\<lparr>klIndex := ix\<rparr>, d))
              else
                let entry = newKeyEntry env key fingerprint kind app;
                    l' = l\<lparr>klIndex := idxInsert key entry ix\<rparr>
                in case persistLedger (opIo env) env l' d of
                     (Inl e, d') \<Rightarrow> (Inl e, (l\<lparr>klIndex := (butlast (fst (klIndex l')), (snd (klIndex l'))(key := None))\<rparr>, d'))
                   | (Inr _, d') \<Rightarrow> (Inr (BeginExecute, entry), (l', d')))"

definition BeginKey ::
    "opsEnv \<Rightarrow> string \<Rightarrow> string \<Rightarrow> string \<Rightarrow> string \<Rightarrow> ledgerState \<Rightarrow> (code, BeginOutcome \<times> keyEntry) result \<times> ledgerState" where
  "BeginKey env key fingerprint kind app s =
     (if key = '''' then (Inl CodeInvalidArgument, s)
      else
        let s' = (anchorLocked env (fst s), snd s) in
        if opLockErr env then (Inl CodeUnavailable, s')
        else beginLocked env key fingerprint kind app s')"

definition completeLocked :: "opsEnv \<Rightarrow> string \<Rightarrow> string \<Rightarrow> string \<Rightarrow> ledgerState \<Rightarrow> (code, unit) result \<times> ledgerState" where
  "completeLocked env key operationID data s =
     (case initializeLocked env s of
        (Inl e, s1) \<Rightarrow> (Inl e, s1)
      | (Inr _, (l, d)) \<Rightarrow>
          case snd (klIndex l) key of
            None \<Rightarrow> (Inl CodeUnavailable, (l, d))
          | Some e \<Rightarrow>
              if keState e \<noteq> entryStateInProgress then (Inl CodeUnavailable, (l, d))
              else
                let e' = e\<lparr>keOperationID := operationID, keState := entryStateComplete, keResult := data,
                           keUpdatedAt := opNow env\<rparr>;
                    l' = l\<lparr>klIndex := idxUpdate key e' (klIndex l)\<rparr>
                in case persistLedger (opIo env) env l' d of
                     (Inl err, d') \<Rightarrow> (Inl err, (l', d'))
                   | (Inr _, d') \<Rightarrow> (Inr (), (l', d')))"

definition CompleteKeyData :: "opsEnv \<Rightarrow> string \<Rightarrow> string \<Rightarrow> string \<Rightarrow> ledgerState \<Rightarrow> (code, unit) result \<times> ledgerState" where
  "CompleteKeyData env key operationID data s =
     (if key = '''' \<or> data = '''' then (Inr (), s)
      else
        let s' = (anchorLocked env (fst s), snd s) in
        if opLockErr env then (Inl CodeUnavailable, s')
        else completeLocked env key operationID data s')"

section \<open>The ledger as an abstract state machine\<close>

text \<open>What a load of the file in data directory \<open>dd\<close> sees, for a ledger of capacity \<open>mx\<close>.\<close>

definition loadedIx :: "nat \<Rightarrow> string \<Rightarrow> opsFile dir \<Rightarrow> keyEntry keyIndex option" where
  "loadedIx mx dd d =
     (case d (ledgerPath dd) of
        None \<Rightarrow> Some ([], Map.empty)
      | Some OpsGarbage \<Rightarrow> None
      | Some (OpsData v es) \<Rightarrow>
          if v \<noteq> ledgerVersion then None
          else idxLoad keKey keyEntryOk (drop (length es - mx) es) ([], Map.empty))"

text \<open>The moves an operation makes on the loaded index; it may only complete keys of \<open>C\<close>.\<close>

definition completedEntry :: "opsEnv \<Rightarrow> string \<Rightarrow> string \<Rightarrow> keyEntry \<Rightarrow> keyEntry" where
  "completedEntry env operationID data e =
     e\<lparr>keOperationID := operationID, keState := entryStateComplete, keResult := data, keUpdatedAt := opNow env\<rparr>"

inductive ledgerMove :: "nat \<Rightarrow> opsEnv \<Rightarrow> string set \<Rightarrow> keyEntry keyIndex \<Rightarrow> keyEntry keyIndex \<Rightarrow> bool" for mx env C where
  stay: "ledgerMove mx env C ix ix"
| orphans: "ledgerMove mx env C ix (closeOrphans env ix)"
| begun: "snd ix key = None \<Longrightarrow> key \<noteq> '''' \<Longrightarrow> fp \<noteq> '''' \<Longrightarrow> makeRoomLocked env mx ix = (True, ix') \<Longrightarrow>
     ledgerMove mx env C ix (idxInsert key (newKeyEntry env key fp kind app) ix')"
| completed: "snd ix key = Some e \<Longrightarrow> keState e = entryStateInProgress \<Longrightarrow> data \<noteq> '''' \<Longrightarrow> key \<in> C \<Longrightarrow>
     ledgerMove mx env C ix (idxUpdate key (completedEntry env opid data e) ix)"

text \<open>The envelope encoder never produces an empty result.\<close>

definition opsEnvOk :: "opsEnv \<Rightarrow> bool" where
  "opsEnvOk env \<longleftrightarrow> (\<forall>e. indeterminateResult env e \<noteq> '''')"

abbreviation opsWf :: "keyEntry keyIndex \<Rightarrow> bool" where
  "opsWf \<equiv> idxWf keKey keyEntryOk"

lemma loadedIx_wf:
  assumes "loadedIx mx dd d = Some ix"
  shows "opsWf ix" and "length (fst ix) \<le> mx"
proof -
  have emp: "opsWf ([], Map.empty)" by (simp add: idxWf_def)
  show "opsWf ix"
    using assms emp by (auto simp: loadedIx_def split: option.splits opsFile.splits if_splits intro: idxLoad_sound)
  show "length (fst ix) \<le> mx"
    using assms by (auto simp: loadedIx_def split: option.splits opsFile.splits if_splits dest!: idxLoad_length)
qed

lemma loadedIx_written:
  assumes "opsWf ix" and "length (fst ix) \<le> mx" and "d (ledgerPath dd) = Some (OpsData ledgerVersion (idxRecords ix))"
  shows "loadedIx mx dd d = Some ix"
  using assms idxLoad_records [OF assms(1)] by (simp add: loadedIx_def idxRecords_def)

lemma persistLedger_result:
  assumes "opsWf (klIndex l)" and "length (fst (klIndex l)) \<le> mx"
  shows "loadedIx mx (klDir l) (snd (persistLedger io env l d)) \<in> {loadedIx mx (klDir l) d, Some (klIndex l)}"
    and "fst (persistLedger io env l d) = Inr () \<Longrightarrow>
           loadedIx mx (klDir l) (snd (persistLedger io env l d)) = Some (klIndex l)"
proof -
  let ?path = "ledgerPath (klDir l)" and ?data = "OpsData ledgerVersion (idxRecords (klIndex l))"
  have "snd (persistLedger io env l d) ?path \<in> {d ?path, Some ?data}"
    using replaceFile_atomic [of io CodeUnavailable "opPid env" ?path ?data d] by (auto simp: persistLedger_def)
  then show "loadedIx mx (klDir l) (snd (persistLedger io env l d)) \<in> {loadedIx mx (klDir l) d, Some (klIndex l)}"
    using loadedIx_written [OF assms] by (auto simp: loadedIx_def)
  show "loadedIx mx (klDir l) (snd (persistLedger io env l d)) = Some (klIndex l)"
    if "fst (persistLedger io env l d) = Inr ()"
  proof (rule loadedIx_written [OF assms])
    show "snd (persistLedger io env l d) ?path = Some ?data"
      using that by (auto simp: persistLedger_def replaceFile_ok split: if_splits)
  qed
qed

lemma closeEntry_ok:
  assumes "opsEnvOk env" and "keyEntryOk e"
  shows "keyEntryOk (closeEntry env e) \<and> keKey (closeEntry env e) = keKey e"
  using assms by (auto simp: closeEntry_def keyEntryOk_def opsEnvOk_def)

lemma closeOrphans_wf:
  assumes "opsEnvOk env" and "opsWf ix"
  shows "opsWf (closeOrphans env ix)" and "fst (closeOrphans env ix) = fst ix"
  using assms closeEntry_ok [OF assms(1)]
  by (auto simp: closeOrphans_def idxWf_def idxInv_def dom_def split: if_splits)

lemma closeOrphans_none:
  assumes "\<not> hasOrphan env ix"
  shows "closeOrphans env ix = ix"
proof -
  have "map_option (\<lambda>e. if k \<in> set (fst ix) \<and> isOrphan env e then closeEntry env e else e) (snd ix k) = snd ix k" for k
    using assms by (cases "snd ix k") (auto simp: hasOrphan_def list_ex_iff)
  then show ?thesis by (simp add: closeOrphans_def)
qed

lemma evict_facts:
  assumes "evictOneCompletedLocked ix = Some ix'" and "opsWf ix"
  shows "opsWf ix'" and "\<exists>k e. snd ix k = Some e \<and> keState e = entryStateComplete \<and> snd ix' = (snd ix)(k := None)"
proof -
  from assms(1) obtain k where k: "findKey (\<lambda>e. keState e = entryStateComplete) ix = Some k" and ix': "ix' = idxDelete k ix"
    by (auto simp: evictOneCompletedLocked_def)
  show "opsWf ix'" by (simp add: ix' idxWf_delete [OF assms(2)])
  show "\<exists>k e. snd ix k = Some e \<and> keState e = entryStateComplete \<and> snd ix' = (snd ix)(k := None)"
    using findKey_Some(2) [OF k] by (auto simp: ix' idxDelete_def)
qed

lemma closeOne_facts:
  assumes "closeOneAbandonedLocked env ix = Some ix'" and "opsWf ix" and "opsEnvOk env"
  shows "opsWf ix'" and "\<exists>k e. snd ix k = Some e \<and> isAbandoned env e \<and> snd ix' = (snd ix)(k \<mapsto> closeEntry env e)"
proof -
  from assms(1) obtain k where k: "findKey (isAbandoned env) ix = Some k"
    and ix': "ix' = (fst ix, (snd ix)(k := map_option (closeEntry env) (snd ix k)))"
    by (auto simp: closeOneAbandonedLocked_def split: option.splits)
  obtain e where e: "snd ix k = Some e" "isAbandoned env e" using findKey_Some(2) [OF k] by blast
  have "ix' = idxUpdate k (closeEntry env e) ix" by (simp add: ix' e idxUpdate_def)
  moreover have "keyEntryOk e" "keKey e = k" using assms(2) e(1) by (auto simp: idxWf_def)
  ultimately show "opsWf ix'"
    using idxWf_update [OF assms(2)] closeEntry_ok [OF assms(3), of e] e(1) by simp
  show "\<exists>k e. snd ix k = Some e \<and> isAbandoned env e \<and> snd ix' = (snd ix)(k \<mapsto> closeEntry env e)"
    using e by (auto simp: ix')
qed

text \<open>Making room keeps the index well-formed and every entry that is neither complete nor abandoned.\<close>

lemma makeRoom_facts:
  assumes "makeRoomLocked env mx ix = (room, ix')" and "opsWf ix" and "opsEnvOk env"
  shows "opsWf ix' \<and> (room \<longrightarrow> length (fst ix') < mx) \<and> dom (snd ix') \<subseteq> dom (snd ix) \<and>
    (snd ix k = Some e \<longrightarrow> keState e = entryStateInProgress \<longrightarrow> \<not> isAbandoned env e \<longrightarrow> snd ix' k = Some e)"
  using assms
proof (induction env mx ix arbitrary: ix' rule: makeRoomLocked.induct)
  case (1 env mx ix)
  note unf = makeRoomLocked.simps [of env mx ix]
  consider (room) "length (fst ix) < mx"
    | (evicted) ix1 where "\<not> length (fst ix) < mx" "evictOneCompletedLocked ix = Some ix1"
    | (closed) ix1 where "\<not> length (fst ix) < mx" "evictOneCompletedLocked ix = None" "closeOneAbandonedLocked env ix = Some ix1"
    | (full) "\<not> length (fst ix) < mx" "evictOneCompletedLocked ix = None" "closeOneAbandonedLocked env ix = None"
    by (cases "evictOneCompletedLocked ix"; cases "closeOneAbandonedLocked env ix") auto
  then show ?case
  proof cases
    case room
    then show ?thesis using 1(3-5) unf by auto
  next
    case (evicted ix1)
    then have rec: "makeRoomLocked env mx ix1 = (room, ix')" using 1(3) unf by simp
    obtain j f where j: "snd ix j = Some f" "keState f = entryStateComplete" "snd ix1 = (snd ix)(j := None)"
      using evict_facts(2) [OF evicted(2) 1(4)] by blast
    have "snd ix1 k = Some e" if "snd ix k = Some e" "keState e = entryStateInProgress" using that j by auto
    moreover have "dom (snd ix1) \<subseteq> dom (snd ix)" using j by auto
    ultimately show ?thesis
      using 1(2) [OF evicted rec evict_facts(1) [OF evicted(2) 1(4)] 1(5)] by blast
  next
    case (closed ix1)
    then have rec: "makeRoomLocked env mx ix1 = (room, ix')" using 1(3) unf by simp
    obtain j f where j: "snd ix j = Some f" "isAbandoned env f" "snd ix1 = (snd ix)(j \<mapsto> closeEntry env f)"
      using closeOne_facts(2) [OF closed(3) 1(4,5)] by blast
    have "snd ix1 k = Some e" if "snd ix k = Some e" "\<not> isAbandoned env e" using that j by auto
    moreover have "dom (snd ix1) \<subseteq> dom (snd ix)" using j by auto
    ultimately show ?thesis
      using 1(1) [OF closed rec closeOne_facts(1) [OF closed(3) 1(4,5)] 1(5)] by blast
  next
    case full
    then show ?thesis using 1(3,4) unf by simp
  qed
qed

text \<open>An operation in progress whose owner lives and that is younger than the abandonment age.\<close>

definition liveEntry :: "opsEnv \<Rightarrow> keyEntry \<Rightarrow> bool" where
  "liveEntry env e \<longleftrightarrow> keState e = entryStateInProgress \<and> pidAlive env (kePID e) \<and> \<not> isAbandoned env e"

lemma ledgerMove_wf:
  assumes "ledgerMove mx env C ix ix'" and "opsWf ix" and "opsEnvOk env"
  shows "opsWf ix'"
  using assms(1)
proof cases
  case (begun key fp ix1 kind app)
  note room = makeRoom_facts [OF begun(5) assms(2,3), of key "newKeyEntry env key fp kind app"]
  then have "snd ix1 key = None" using begun(2) by (auto simp: domIff)
  with room begun(3,4) show ?thesis unfolding begun(1)
    by (intro idxWf_insert) (auto simp: keyEntryOk_def newKeyEntry_def)
next
  case (completed key e data opid)
  have "keyEntryOk e" "keKey e = key" using assms(2) completed(2) by (auto simp: idxWf_def)
  then show ?thesis unfolding completed(1)
    using completed(2,4) by (intro idxWf_update [OF assms(2)]) (auto simp: completedEntry_def keyEntryOk_def)
qed (use assms closeOrphans_wf(1) in auto)

lemma ledgerMove_facts:
  assumes "ledgerMove mx env C ix ix'" and "opsWf ix" and "length (fst ix) \<le> mx" and "opsEnvOk env"
  shows "opsWf ix' \<and> length (fst ix') \<le> mx"
proof -
  have "length (fst ix') \<le> mx" using assms(1)
  proof cases
    case (begun key fp ix1 kind app)
    from makeRoom_facts [OF begun(5) assms(2,4), of key "newKeyEntry env key fp kind app"] show ?thesis
      by (simp add: begun(1) idxInsert_def)
  qed (use assms closeOrphans_wf(2) [OF assms(4,2)] in \<open>auto simp: idxUpdate_def\<close>)
  with ledgerMove_wf [OF assms(1,2,4)] show ?thesis by blast
qed

lemma ledgerMove_live:
  assumes "ledgerMove mx env C ix ix'" and "opsWf ix" and "opsEnvOk env" and "snd ix K = Some e" and "liveEntry env e"
    and "K \<notin> C"
  shows "snd ix' K = Some e"
  using assms(1)
proof cases
  case stay
  then show ?thesis using assms by simp
next
  case orphans
  then show ?thesis using assms(4,5) by (simp add: closeOrphans_def isOrphan_def liveEntry_def)
next
  case (begun key fp ix1 kind app)
  then have "key \<noteq> K" using assms(4) by auto
  with makeRoom_facts [OF begun(5) assms(2,3)] show ?thesis
    using assms(4,5) by (auto simp: begun(1) idxInsert_def liveEntry_def)
next
  case (completed key e' data opid)
  then show ?thesis using assms(4,6) by (auto simp: idxUpdate_def)
qed

section \<open>The operations refine the abstract machine\<close>

lemma anchor_fields [simp]:
  "klMax (anchorLocked env l) = klMax l" "klDir (anchorLocked env l) = opDataDir env"
  "anchorLocked env (anchorLocked env l) = anchorLocked env l"
  by (simp_all add: anchorLocked_def)

lemma loadLocked_cases:
  assumes "loadLocked env (l, d) = (r, l')"
  shows "klMax l' = klMax l \<and> klDir l' = klDir l \<and> klLoaded l' = klLoaded l \<and>
         (r = Inr () \<longrightarrow> loadedIx (klMax l) (klDir l) d = Some (klIndex l'))"
proof -
  have trim: "(if length es > n then drop (length es - n) es else es) = drop (length es - n) es" for n and es :: "keyEntry option list"
    by simp
  show ?thesis
    using assms unfolding loadLocked_def Let_def trim loadedIx_def
    by (auto split: if_splits option.splits opsFile.splits simp: idxLoaded_complete)
qed

lemma initialize_facts:
  assumes "initializeLocked env (l, d) = (r, (l', d'))" and "opsEnvOk env"
  shows "klMax l' = klMax l" and "klDir l' = opDataDir env"
    and "loadedIx (klMax l) (opDataDir env) d = None \<Longrightarrow> r \<noteq> Inr () \<and> d' = d"
    and "loadedIx (klMax l) (opDataDir env) d = Some ix \<Longrightarrow>
           loadedIx (klMax l) (opDataDir env) d' \<in> {Some ix, Some (closeOrphans env ix)} \<and>
           (r = Inr () \<longrightarrow> loadedIx (klMax l) (opDataDir env) d' = Some (klIndex l'))"
proof -
  let ?la = "anchorLocked env l" and ?mx = "klMax l" and ?dd = "opDataDir env"
  obtain lr l1 where load: "loadLocked env (?la, d) = (lr, l1)" by (cases "loadLocked env (?la, d)")
  note lf = loadLocked_cases [OF load, simplified]
  have "klMax l' = ?mx \<and> klDir l' = ?dd \<and> (loadedIx ?mx ?dd d = None \<longrightarrow> r \<noteq> Inr () \<and> d' = d) \<and>
      (loadedIx ?mx ?dd d = Some ix \<longrightarrow>
         loadedIx ?mx ?dd d' \<in> {Some ix, Some (closeOrphans env ix)} \<and> (r = Inr () \<longrightarrow> loadedIx ?mx ?dd d' = Some (klIndex l')))"
  proof (cases "klCorrupt ?la = None \<and> lr = Inr () \<and> \<not> klLoaded ?la")
    case True
    then have ix1: "loadedIx ?mx ?dd d = Some (klIndex l1)" using lf by simp
    note wf = loadedIx_wf [OF ix1]
    let ?l2 = "l1\<lparr>klIndex := closeOrphans env (klIndex l1)\<rparr>"
    let ?p = "persistLedger (opOrphanIo env) env ?l2 d"
    have wf2: "opsWf (klIndex ?l2)" "length (fst (klIndex ?l2)) \<le> ?mx"
      using closeOrphans_wf [OF assms(2) wf(1)] wf(2) by simp_all
    note pres = persistLedger_result [OF wf2, of "opOrphanIo env" env d]
    have dir: "klDir ?l2 = ?dd" using lf by simp
    show ?thesis
    proof (cases "hasOrphan env (klIndex l1)")
      case orphan: True
      obtain pr pd where p: "?p = (pr, pd)" by (cases ?p)
      show ?thesis
        using assms(1) True load orphan p pres lf ix1 unfolding dir
        by (cases pr) (auto simp: initializeLocked_def Let_def closeOrphanedInProgressLocked_def)
    next
      case False
      then show ?thesis
        using assms(1) True load lf ix1 closeOrphans_none [OF False]
        by (auto simp: initializeLocked_def Let_def closeOrphanedInProgressLocked_def)
    qed
  next
    case False
    then show ?thesis
      using assms(1) load lf
      by (cases "klCorrupt ?la"; cases lr) (auto simp: initializeLocked_def Let_def)
  qed
  then show "klMax l' = klMax l" and "klDir l' = opDataDir env"
    and "loadedIx (klMax l) (opDataDir env) d = None \<Longrightarrow> r \<noteq> Inr () \<and> d' = d"
    and "loadedIx (klMax l) (opDataDir env) d = Some ix \<Longrightarrow>
           loadedIx (klMax l) (opDataDir env) d' \<in> {Some ix, Some (closeOrphans env ix)} \<and>
           (r = Inr () \<longrightarrow> loadedIx (klMax l) (opDataDir env) d' = Some (klIndex l'))"
    by blast+
qed

lemma initialize_move:
  assumes "initializeLocked env (l, d) = (r, (l', d'))" and "opsEnvOk env"
    and "loadedIx (klMax l) (opDataDir env) d = Some ix"
  obtains ix1 where "ledgerMove (klMax l) env C ix ix1" and "loadedIx (klMax l) (opDataDir env) d' = Some ix1"
    and "r = Inr () \<Longrightarrow> klIndex l' = ix1" and "\<And>k. (snd ix1 k = None) = (snd ix k = None)"
proof -
  have dom: "(snd (closeOrphans env ix) k = None) = (snd ix k = None)" for k by (simp add: closeOrphans_def)
  show thesis
    using initialize_facts(4) [OF assms(1,2,3)] that [of ix, OF ledgerMove.stay]
      that [of "closeOrphans env ix", OF ledgerMove.orphans] dom by auto
qed

text \<open>What a successful begin means for the key, before and after.\<close>

definition beginMeaning ::
    "string \<Rightarrow> string \<Rightarrow> (code, BeginOutcome \<times> keyEntry) result \<Rightarrow> keyEntry keyIndex \<Rightarrow> keyEntry keyIndex \<Rightarrow> bool" where
  "beginMeaning key fp res ix ix' =
     (case res of
        Inl _ \<Rightarrow> True
      | Inr (BeginExecute, e) \<Rightarrow> snd ix key = None \<and> snd ix' key = Some e \<and> keState e = entryStateInProgress
      | Inr (BeginReplay, e) \<Rightarrow> snd ix' key = Some e \<and> keFingerprint e = fp \<and> keState e = entryStateComplete)"

lemma BeginKey_moves:
  assumes "loadedIx (klMax l) (opDataDir env) d = Some ix" and "opsEnvOk env" and "fp \<noteq> ''''"
    and "BeginKey env key fp kind app (l, d) = (res, (l', d'))"
  shows "\<exists>ix1 ix2. ledgerMove (klMax l) env {} ix ix1 \<and> ledgerMove (klMax l) env {} ix1 ix2 \<and>
           loadedIx (klMax l) (opDataDir env) d' = Some ix2 \<and> beginMeaning key fp res ix ix2"
proof (cases "key = '''' \<or> opLockErr env")
  case True
  then have "\<exists>c. res = Inl c" "d' = d" using assms(4) by (auto simp: BeginKey_def Let_def split: if_splits)
  then show ?thesis
    using assms(1) by (intro exI [of _ ix] conjI ledgerMove.stay) (auto simp: beginMeaning_def)
next
  case False
  let ?mx = "klMax l" and ?la = "anchorLocked env l"
  have begin_: "beginLocked env key fp kind app (?la, d) = (res, (l', d'))"
    using assms(4) False by (simp add: BeginKey_def Let_def)
  obtain ir l1 d1 where init: "initializeLocked env (?la, d) = (ir, (l1, d1))"
    by (cases "initializeLocked env (?la, d)") auto
  from assms(1) have ixa: "loadedIx (klMax ?la) (opDataDir env) d = Some ix" by simp
  obtain ix1 where m1: "ledgerMove ?mx env {} ix ix1" and d1: "loadedIx ?mx (opDataDir env) d1 = Some ix1"
    and l1: "ir = Inr () \<Longrightarrow> klIndex l1 = ix1" and dom1: "\<And>k. (snd ix1 k = None) = (snd ix k = None)"
    using initialize_move [OF init assms(2) ixa] by auto
  have l1f: "klMax l1 = ?mx" "klDir l1 = opDataDir env" using initialize_facts(1,2) [OF init assms(2)] by simp_all
  note wf1 = loadedIx_wf [OF d1]
  show ?thesis
  proof (cases "ir = Inr () \<and> snd ix1 key = None \<and> fst (makeRoomLocked env ?mx ix1)")
    case True
    then obtain ix2 where room: "makeRoomLocked env ?mx ix1 = (True, ix2)" by (cases "makeRoomLocked env ?mx ix1") auto
    let ?e = "newKeyEntry env key fp kind app" and ?ix3 = "idxInsert key (newKeyEntry env key fp kind app) ix2"
    have m2: "ledgerMove ?mx env {} ix1 ?ix3" using True room False assms(3) by (intro ledgerMove.begun) auto
    note wf3 = ledgerMove_facts [OF m2 wf1 assms(2)]
    let ?l' = "l1\<lparr>klIndex := ?ix3\<rparr>"
    obtain pr pd where p: "persistLedger (opIo env) env ?l' d1 = (pr, pd)" by (cases "persistLedger (opIo env) env ?l' d1")
    have pres: "loadedIx ?mx (opDataDir env) pd \<in> {Some ix1, Some ?ix3}"
      "pr = Inr () \<Longrightarrow> loadedIx ?mx (opDataDir env) pd = Some ?ix3"
      using persistLedger_result [of ?l' ?mx "opIo env" env d1] wf3 d1 p l1f(2) by auto
    have "d' = pd \<and> res = (case pr of Inl c \<Rightarrow> Inl c | Inr _ \<Rightarrow> Inr (BeginExecute, ?e))"
      using begin_ init True l1 room l1f(1) p
      by (auto simp: beginLocked_def Let_def split: sum.splits)
    moreover have "snd ?ix3 key = Some ?e" "keState ?e = entryStateInProgress"
      by (simp_all add: idxInsert_def newKeyEntry_def)
    moreover have "snd ix key = None" using True dom1 by simp
    ultimately have "d' = pd" "beginMeaning key fp res ix ?ix3" "pr \<noteq> Inr () \<Longrightarrow> beginMeaning key fp res ix ix1"
      by (cases pr; auto simp: beginMeaning_def)+
    with pres m1 m2 ledgerMove.stay [of ?mx env "{}" ix1] show ?thesis
      by (cases "loadedIx ?mx (opDataDir env) pd = Some ?ix3") blast+
  next
    case no: False
    have "d' = d1 \<and> beginMeaning key fp res ix ix1"
    proof (cases ir)
      case (Inl c)
      then show ?thesis using begin_ init by (auto simp: beginLocked_def beginMeaning_def)
    next
      case (Inr u)
      then have ix: "klIndex l1 = ix1" using l1 by simp
      show ?thesis
      proof (cases "snd ix1 key")
        case None
        then have "\<not> fst (makeRoomLocked env ?mx ix1)" using no Inr by simp
        then show ?thesis using begin_ init Inr ix None l1f(1)
          by (auto simp: beginLocked_def beginMeaning_def Let_def split: prod.splits)
      next
        case (Some e)
        then have "keState e = entryStateInProgress \<or> keState e = entryStateComplete"
          using wf1(1) by (auto simp: idxWf_def keyEntryOk_def)
        then show ?thesis using begin_ init Inr ix Some
          by (auto simp: beginLocked_def beginMeaning_def split: if_splits)
      qed
    qed
    then show ?thesis using d1 m1 ledgerMove.stay [of ?mx env "{}" ix1] by blast
  qed
qed

lemma CompleteKeyData_moves:
  assumes "loadedIx (klMax l) (opDataDir env) d = Some ix" and "opsEnvOk env"
    and "CompleteKeyData env key opid data (l, d) = (res, (l', d'))"
  shows "\<exists>ix1 ix2. ledgerMove (klMax l) env {key} ix ix1 \<and> ledgerMove (klMax l) env {key} ix1 ix2 \<and>
           loadedIx (klMax l) (opDataDir env) d' = Some ix2 \<and>
           (\<forall>k. k \<noteq> key \<longrightarrow> snd ix2 k = snd ix1 k) \<and>
           (res = Inr () \<longrightarrow> key \<noteq> '''' \<longrightarrow> data \<noteq> '''' \<longrightarrow>
              (\<exists>e. snd ix1 key = Some e \<and> snd ix2 key = Some (completedEntry env opid data e)))"
proof (cases "key = '''' \<or> data = '''' \<or> opLockErr env")
  case True
  then have "(res = Inl CodeUnavailable \<or> key = '''' \<or> data = '''')" "d' = d"
    using assms(3) by (auto simp: CompleteKeyData_def Let_def split: if_splits)
  then show ?thesis using assms(1) by (intro exI [of _ ix] conjI ledgerMove.stay) auto
next
  case False
  let ?mx = "klMax l" and ?la = "anchorLocked env l"
  have compl: "completeLocked env key opid data (?la, d) = (res, (l', d'))"
    using assms(3) False by (simp add: CompleteKeyData_def Let_def)
  obtain ir l1 d1 where init: "initializeLocked env (?la, d) = (ir, (l1, d1))"
    by (cases "initializeLocked env (?la, d)") auto
  from assms(1) have ixa: "loadedIx (klMax ?la) (opDataDir env) d = Some ix" by simp
  obtain ix1 where m1: "ledgerMove ?mx env {key} ix ix1" and d1: "loadedIx ?mx (opDataDir env) d1 = Some ix1"
    and l1: "ir = Inr () \<Longrightarrow> klIndex l1 = ix1"
    using initialize_move [OF init assms(2) ixa] by (metis anchor_fields(1))
  have l1f: "klDir l1 = opDataDir env" using initialize_facts(2) [OF init assms(2)] by simp
  note wf1 = loadedIx_wf [OF d1]
  show ?thesis
  proof (cases "ir = Inr () \<and> (\<exists>e. snd ix1 key = Some e \<and> keState e = entryStateInProgress)")
    case True
    then obtain e where e: "snd ix1 key = Some e" "keState e = entryStateInProgress" by blast
    let ?ix2 = "idxUpdate key (completedEntry env opid data e) ix1"
    have m2: "ledgerMove ?mx env {key} ix1 ?ix2" using e False by (intro ledgerMove.completed) auto
    note wf2 = ledgerMove_facts [OF m2 wf1 assms(2)]
    let ?l' = "l1\<lparr>klIndex := ?ix2\<rparr>"
    obtain pr pd where p: "persistLedger (opIo env) env ?l' d1 = (pr, pd)" by (cases "persistLedger (opIo env) env ?l' d1")
    have pres: "loadedIx ?mx (opDataDir env) pd \<in> {Some ix1, Some ?ix2}"
      "pr = Inr () \<Longrightarrow> loadedIx ?mx (opDataDir env) pd = Some ?ix2"
      using persistLedger_result [of ?l' ?mx "opIo env" env d1] wf2 d1 p l1f by auto
    have "d' = pd \<and> res = pr"
      using compl init True l1 e p by (cases pr) (auto simp: completeLocked_def Let_def completedEntry_def)
    moreover have "\<forall>k. k \<noteq> key \<longrightarrow> snd ?ix2 k = snd ix1 k" "snd ?ix2 key = Some (completedEntry env opid data e)"
      by (simp_all add: idxUpdate_def)
    ultimately show ?thesis
      using pres m1 m2 ledgerMove.stay [of ?mx env "{key}" ix1] e(1)
      by (cases "loadedIx ?mx (opDataDir env) pd = Some ?ix2") blast+
  next
    case no: False
    have "d' = d1 \<and> res \<noteq> Inr ()"
      using compl init no l1 by (cases ir) (auto simp: completeLocked_def split: option.splits if_splits)
    then show ?thesis using d1 m1 ledgerMove.stay [of ?mx env "{key}" ix1] by blast
  qed
qed

section \<open>Many processes, one file\<close>

datatype opsCall = CallBegin string string string string | CallComplete string string string

definition runCall :: "opsEnv \<Rightarrow> opsCall \<Rightarrow> ledgerState \<Rightarrow> opsFile dir" where
  "runCall env c s =
     (case c of
        CallBegin key fp kind app \<Rightarrow> snd (snd (BeginKey env key fp kind app s))
      | CallComplete key opid data \<Rightarrow> snd (snd (CompleteKeyData env key opid data s)))"

text \<open>Fingerprints are hexadecimal digests, never empty.\<close>

definition callOk :: "opsCall \<Rightarrow> bool" where
  "callOk c = (case c of CallBegin key fp kind app \<Rightarrow> fp \<noteq> '''' | CallComplete _ _ _ \<Rightarrow> True)"

text \<open>
  One call of some process: its memory is arbitrary, as is what it remembers of earlier calls; \<open>P\<close> restricts
  the environments and calls considered.
\<close>

inductive opsStep :: "(opsEnv \<Rightarrow> opsCall \<Rightarrow> bool) \<Rightarrow> nat \<Rightarrow> string \<Rightarrow> opsFile dir \<Rightarrow> opsFile dir \<Rightarrow> bool" for P mx dd where
  call: "P env c \<Longrightarrow> callOk c \<Longrightarrow> opsEnvOk env \<Longrightarrow> opDataDir env = dd \<Longrightarrow> klMax l = mx \<Longrightarrow>
     opsStep P mx dd d (runCall env c (l, d))"

definition completes :: "opsCall \<Rightarrow> string set" where
  "completes c = (case c of CallBegin _ _ _ _ \<Rightarrow> {} | CallComplete key _ _ \<Rightarrow> {key})"

lemma runCall_moves:
  assumes "loadedIx (klMax l) (opDataDir env) d = Some ix" and "opsEnvOk env" and "callOk c"
  shows "\<exists>ix1 ix2. ledgerMove (klMax l) env (completes c) ix ix1 \<and> ledgerMove (klMax l) env (completes c) ix1 ix2 \<and>
           loadedIx (klMax l) (opDataDir env) (runCall env c (l, d)) = Some ix2"
proof (cases c)
  case (CallBegin key fp kind app)
  obtain res l' d' where r: "BeginKey env key fp kind app (l, d) = (res, (l', d'))"
    by (cases "BeginKey env key fp kind app (l, d)") auto
  have "fp \<noteq> ''''" using assms(3) by (simp add: CallBegin callOk_def)
  from BeginKey_moves [OF assms(1,2) this r] show ?thesis by (simp add: CallBegin runCall_def r completes_def) blast
next
  case (CallComplete key opid data)
  obtain res l' d' where r: "CompleteKeyData env key opid data (l, d) = (res, (l', d'))"
    by (cases "CompleteKeyData env key opid data (l, d)") auto
  from CompleteKeyData_moves [OF assms(1,2) r] show ?thesis by (simp add: CallComplete runCall_def r completes_def) blast
qed

text \<open>A file that does not load is left alone.\<close>

lemma initialize_unreadable:
  assumes "loadedIx (klMax l) (opDataDir env) d = None" and "opsEnvOk env"
  shows "\<exists>e l'. initializeLocked env (anchorLocked env l, d) = (Inl e, (l', d))"
proof -
  obtain r l' d' where init: "initializeLocked env (anchorLocked env l, d) = (r, (l', d'))"
    by (cases "initializeLocked env (anchorLocked env l, d)") auto
  have "r \<noteq> Inr ()" "d' = d" using initialize_facts(3) [OF init assms(2)] assms(1) by simp_all
  with init show ?thesis by (cases r) auto
qed

lemma runCall_unreadable:
  assumes "loadedIx (klMax l) (opDataDir env) d = None" and "opsEnvOk env"
  shows "runCall env c (l, d) = d"
proof -
  obtain e l' where "initializeLocked env (anchorLocked env l, d) = (Inl e, (l', d))"
    using initialize_unreadable [OF assms] by blast
  then show ?thesis
    by (auto simp: runCall_def BeginKey_def CompleteKeyData_def beginLocked_def completeLocked_def Let_def
        split: opsCall.splits)
qed

text \<open>The simulation: a call is two moves of the abstract machine on what a load sees.\<close>

lemma opsStep_moves:
  assumes "opsStep P mx dd d d'" and "loadedIx mx dd d = Some ix"
  shows "\<exists>env c ix1 ix2. P env c \<and> opsEnvOk env \<and> ledgerMove mx env (completes c) ix ix1 \<and> ledgerMove mx env (completes c) ix1 ix2 \<and>
           loadedIx mx dd d' = Some ix2"
  using assms(1)
proof cases
  case (call env c l)
  have "loadedIx (klMax l) (opDataDir env) d = Some ix" using assms(2) call by simp
  from runCall_moves [OF this call(4,3)] obtain ix1 ix2 where
    "ledgerMove mx env (completes c) ix ix1" "ledgerMove mx env (completes c) ix1 ix2" "loadedIx mx dd d' = Some ix2"
    unfolding call(1,5,6) by blast
  with call(2,4) show ?thesis by blast
qed

definition ledgerStep :: "nat \<Rightarrow> keyEntry keyIndex \<Rightarrow> keyEntry keyIndex \<Rightarrow> bool" where
  "ledgerStep mx ix ix' \<longleftrightarrow> (\<exists>env C. opsEnvOk env \<and> ledgerMove mx env C ix ix')"

interpretation requestKeys: durable_ledger "\<lambda>ix. ix" "ledgerStep mx" keKey keyEntryOk "\<lambda>_. mx" for mx
proof (unfold_locales, goal_cases)
  case (1 s s')
  then show ?case
    unfolding ledgerStep_def using ledgerMove_wf by blast
next
  case (2 s s')
  then show ?case unfolding ledgerStep_def using ledgerMove_facts by blast
qed

lemma opsSteps_simulate:
  assumes "(opsStep P mx dd)\<^sup>*\<^sup>* d d'" and "loadedIx mx dd d = Some ix"
  shows "\<exists>ix'. loadedIx mx dd d' = Some ix' \<and> (ledgerStep mx)\<^sup>*\<^sup>* ix ix'"
  using assms(1)
proof (induction rule: rtranclp_induct)
  case base
  then show ?case using assms(2) by blast
next
  case (step d1 d2)
  then obtain ix1 where ix1: "loadedIx mx dd d1 = Some ix1" "(ledgerStep mx)\<^sup>*\<^sup>* ix ix1" by blast
  from opsStep_moves [OF step(2) ix1(1)] obtain env c ix2 ix3 where
    "opsEnvOk env" "ledgerMove mx env (completes c) ix1 ix2" "ledgerMove mx env (completes c) ix2 ix3" "loadedIx mx dd d2 = Some ix3" by blast
  moreover from this have "ledgerStep mx ix1 ix2" "ledgerStep mx ix2 ix3" unfolding ledgerStep_def by blast+
  ultimately show ?case using ix1(2) by (meson rtranclp.rtrancl_into_rtrancl)
qed

lemma call_keeps_live:
  assumes "loadedIx (klMax l) (opDataDir env) d = Some ix" and "opsEnvOk env" and "callOk c" and "snd ix K = Some e"
    and "liveEntry env e" and "K \<notin> completes c"
  shows "\<exists>ix'. loadedIx (klMax l) (opDataDir env) (runCall env c (l, d)) = Some ix' \<and> snd ix' K = Some e"
proof -
  obtain ix1 ix2 where m: "ledgerMove (klMax l) env (completes c) ix ix1" "ledgerMove (klMax l) env (completes c) ix1 ix2"
    and ix2: "loadedIx (klMax l) (opDataDir env) (runCall env c (l, d)) = Some ix2"
    using runCall_moves [OF assms(1-3)] by blast
  have wf: "opsWf ix" "opsWf ix1" using loadedIx_wf(1) [OF assms(1)] ledgerMove_wf [OF m(1) _ assms(2)] by simp_all
  have "snd ix1 K = Some e" by (rule ledgerMove_live [OF m(1) wf(1) assms(2,4,5,6)])
  then have "snd ix2 K = Some e" by (rule ledgerMove_live [OF m(2) wf(2) assms(2) _ assms(5,6)])
  with ix2 show ?thesis by blast
qed

lemma BeginKey_live:
  assumes "loadedIx (klMax l) (opDataDir env) d = Some ix" and "snd ix K = Some e" and "opsEnvOk env" and "liveEntry env e"
    and "fp \<noteq> ''''" and "BeginKey env K fp kind app (l, d) = (res, (l', d'))"
  shows "\<not> isOk res"
proof -
  obtain ix1 ix2 where m: "ledgerMove (klMax l) env {} ix ix1" "ledgerMove (klMax l) env {} ix1 ix2"
    and mean: "beginMeaning K fp res ix ix2"
    using BeginKey_moves [OF assms(1,3,5,6)] by blast
  have wf: "opsWf ix" "opsWf ix1" using loadedIx_wf(1) [OF assms(1)] ledgerMove_wf [OF m(1) _ assms(3)] by simp_all
  have "snd ix1 K = Some e" by (rule ledgerMove_live [OF m(1) wf(1) assms(3,2,4)]) simp
  then have "snd ix2 K = Some e" by (rule ledgerMove_live [OF m(2) wf(2) assms(3) _ assms(4)]) simp
  with mean assms(2,4) show ?thesis
    by (auto simp: beginMeaning_def liveEntry_def split: sum.splits BeginOutcome.splits) (metis BeginOutcome.exhaust)
qed

section \<open>Properties\<close>

text \<open>
  C20: Beginning a request key refines the abstract ledger. Whatever the process's memory and whichever
  system calls fail, what a load of the ledger file sees afterwards results from what it saw before by
  two moves of the abstract machine; execution is granted only for a key that was absent, and then
  the file records it as in progress; a replay is granted only for a completed entry with the same fingerprint.
\<close>

theorem BeginKey_refines:
  assumes "loadedIx (klMax l) (opDataDir env) d = Some ix" and "opsEnvOk env" and "fp \<noteq> ''''"
    and "BeginKey env key fp kind app (l, d) = (res, (l', d'))"
  shows "\<exists>ix1 ix2. ledgerMove (klMax l) env {} ix ix1 \<and> ledgerMove (klMax l) env {} ix1 ix2 \<and>
           loadedIx (klMax l) (opDataDir env) d' = Some ix2 \<and> beginMeaning key fp res ix ix2"
  by (rule BeginKey_moves [OF assms])


text \<open>
  C11: A running operation is never clobbered. While an entry in progress belongs to a living process and is younger
  than the abandonment age, no calls of any processes, other than completing that very key, change
  the entry, and no begin of the key is allowed to execute or replay.
\<close>

theorem live_operation_protected:
  assumes "(opsStep (\<lambda>env c. liveEntry env e \<and> (\<forall>opid data. c \<noteq> CallComplete K opid data)) mx dd)\<^sup>*\<^sup>* d d'"
    and "loadedIx mx dd d = Some ix" and "snd ix K = Some e" and "liveEntry env e" and "opsEnvOk env"
    and "opDataDir env = dd" and "klMax l = mx" and "fp \<noteq> ''''"
  shows "(\<exists>ix'. loadedIx mx dd d' = Some ix' \<and> snd ix' K = Some e) \<and>
         \<not> isOk (fst (BeginKey env K fp kind app (l, d')))"
proof -
  have held: "\<exists>ix'. loadedIx mx dd d' = Some ix' \<and> snd ix' K = Some e"
    using assms(1)
  proof (induction rule: rtranclp_induct)
    case base
    then show ?case using assms(2,3) by blast
  next
    case (step d1 d2)
    then obtain ix1 where ix1: "loadedIx mx dd d1 = Some ix1" "snd ix1 K = Some e" by blast
    from step(2) show ?case
    proof cases
      case (call env c l)
      have "loadedIx (klMax l) (opDataDir env) d1 = Some ix1" "liveEntry env e" "K \<notin> completes c"
        using ix1(1) call by (auto simp: completes_def split: opsCall.splits)
      from call_keeps_live [OF this(1) call(4,3) ix1(2) this(2,3)] show ?thesis using call by simp
    qed
  qed
  then obtain ix' where ix': "loadedIx (klMax l) (opDataDir env) d' = Some ix'" "snd ix' K = Some e"
    using assms(6,7) by blast
  obtain res l' d'' where r: "BeginKey env K fp kind app (l, d') = (res, (l', d''))"
    by (cases "BeginKey env K fp kind app (l, d')") auto
  from BeginKey_live [OF ix' assms(5,4,8) r] held r show ?thesis by simp
qed

definition demoOpsEnv :: opsEnv where
  "demoOpsEnv = \<lparr>opDataDir = ''/data'', opOrphanIo = quietIo OpsGarbage, opIo = quietIo OpsGarbage, opLockErr = False,
     opReadErr = False, opPid = 7, opNow = 5, opAlive = (\<lambda>_. True), opMarshal = (\<lambda>_. Some ''{}'')\<rparr>"

lemma demoOpsEnv_ok: "opsEnvOk demoOpsEnv" "opDataDir demoOpsEnv = ''/data''"
  by (simp_all add: opsEnvOk_def indeterminateResult_def demoOpsEnv_def)

definition demoEntry :: keyEntry where "demoEntry = newKeyEntry demoOpsEnv ''k1'' ''f1'' ''rebuild'' ''web''"

definition demoOpsDir :: "opsFile dir" where
  "demoOpsDir = [ledgerPath ''/data'' \<mapsto> OpsData 2 [Some demoEntry]]"

lemma demoEntry_ok: "keyEntryOk demoEntry" "keKey demoEntry = ''k1''" "liveEntry demoOpsEnv demoEntry"
  by (simp_all add: demoEntry_def newKeyEntry_def keyEntryOk_def liveEntry_def pidAlive_def isAbandoned_def
      abandonedInProgressAge_def demoOpsEnv_def)

lemma demoOps_loaded: "loadedIx 512 ''/data'' demoOpsDir = Some ([''k1''], [''k1'' \<mapsto> demoEntry])"
  by (simp add: loadedIx_def demoOpsDir_def ledgerVersion_def demoEntry_ok idxInsert_def)


theorem live_operation_protected_witness:
  "\<not> isOk (fst (BeginKey demoOpsEnv ''k1'' ''f1'' ''rebuild'' ''web'' (newKeyLedger, demoOpsDir)))"
  using live_operation_protected [OF rtranclp.rtrancl_refl demoOps_loaded _ demoEntry_ok(3) demoOpsEnv_ok, of "''k1''" newKeyLedger
      "''f1''" "''rebuild''" "''web''"]
  by (simp add: newKeyLedger_def ledgerCapacity_def)

theorem BeginKey_refines_witness:
  "\<exists>ix1 ix2. ledgerMove 512 demoOpsEnv {} ([''k1''], [''k1'' \<mapsto> demoEntry]) ix1 \<and> ledgerMove 512 demoOpsEnv {} ix1 ix2"
proof -
  have max: "klMax newKeyLedger = 512" by (simp add: newKeyLedger_def ledgerCapacity_def)
  obtain res l' d' where r: "BeginKey demoOpsEnv ''k2'' ''f2'' ''build'' ''api'' (newKeyLedger, demoOpsDir) = (res, (l', d'))"
    by (cases "BeginKey demoOpsEnv ''k2'' ''f2'' ''build'' ''api'' (newKeyLedger, demoOpsDir)") auto
  from BeginKey_refines [of newKeyLedger demoOpsEnv demoOpsDir, unfolded max demoOpsEnv_ok(2), OF demoOps_loaded demoOpsEnv_ok(1) _ r]
  show ?thesis by auto
qed

section \<open>Replays\<close>

lemma closeOrphans_complete: "snd ix k = Some e \<Longrightarrow> keState e = entryStateComplete \<Longrightarrow> snd (closeOrphans env ix) k = Some e"
  by (simp add: closeOrphans_def isOrphan_def)

lemma BeginKey_existing:
  assumes "loadedIx (klMax l) (opDataDir env) d = Some ix" and "opsEnvOk env" and "snd ix key = Some e"
    and "keState e = entryStateComplete" and "key \<noteq> ''''"
  shows "fst (BeginKey env key fp kind app (l, d)) = Inr x \<Longrightarrow> fp = keFingerprint e \<and> x = (BeginReplay, e)"
    and "\<not> opLockErr env \<Longrightarrow> \<not> opReadErr env \<Longrightarrow> klCorrupt (anchorLocked env l) = None \<Longrightarrow> klLoaded (anchorLocked env l) \<Longrightarrow>
           \<not> fails (opIo env) IoMkdir \<Longrightarrow>
           fst (BeginKey env key fp kind app (l, d)) =
             (if fp = keFingerprint e then Inr (BeginReplay, e) else Inl CodeIdempotencyConflict)"
proof -
  let ?la = "anchorLocked env l"
  obtain ir l1 d1 where init: "initializeLocked env (?la, d) = (ir, (l1, d1))"
    by (cases "initializeLocked env (?la, d)") auto
  from assms(1) have ixa: "loadedIx (klMax ?la) (opDataDir env) d = Some ix" by simp
  have idx: "snd (klIndex l1) key = Some e" if "ir = Inr ()"
    using initialize_facts(4) [OF init assms(2) ixa] that assms(3) closeOrphans_complete [OF assms(3,4), of env] by auto
  have beginL: "fst (beginLocked env key fp kind app (?la, d)) =
      (case ir of Inl c \<Rightarrow> Inl c | Inr _ \<Rightarrow> if fp = keFingerprint e then Inr (BeginReplay, e) else Inl CodeIdempotencyConflict)"
    using init idx assms(4) by (cases ir) (auto simp: beginLocked_def)
  show "fp = keFingerprint e \<and> x = (BeginReplay, e)" if "fst (BeginKey env key fp kind app (l, d)) = Inr x"
    using that beginL assms(5) by (auto simp: BeginKey_def Let_def split: if_splits sum.splits)
  show "fst (BeginKey env key fp kind app (l, d)) =
      (if fp = keFingerprint e then Inr (BeginReplay, e) else Inl CodeIdempotencyConflict)"
    if ok: "\<not> opLockErr env" "\<not> opReadErr env" "klCorrupt ?la = None" "klLoaded ?la" "\<not> fails (opIo env) IoMkdir"
  proof -
    obtain lr l0 where load: "loadLocked env (?la, d) = (lr, l0)" by (cases "loadLocked env (?la, d)")
    have "lr = Inr ()"
      using load ok(2,5) ixa by (auto simp: loadLocked_def loadedIx_def Let_def split: option.splits opsFile.splits if_splits)
    then have "ir = Inr ()" using init load ok by (simp add: initializeLocked_def Let_def)
    then show ?thesis using beginL assms(5) ok(1) by (simp add: BeginKey_def Let_def)
  qed
qed

text \<open>
  A completed key replays its exact result. After a key was completed with some bytes, every process that begins
  the key again either fails or is told to replay exactly these bytes and the same operation, and only if
  its fingerprint is the one the key was begun with; a process that has loaded the ledger before and can read it gets exactly
  the replay, or a conflict for a different fingerprint. No process executes.
\<close>

theorem completed_key_replays:
  assumes "CompleteKeyData env key opid data (l, d) = (Inr (), (l1, d1))" and "key \<noteq> ''''" and "data \<noteq> ''''"
    and "loadedIx (klMax l) (opDataDir env) d = Some ix" and "opsEnvOk env"
    and "opDataDir env2 = opDataDir env" and "klMax l2 = klMax l" and "opsEnvOk env2"
  shows "\<exists>e. keResult e = data \<and> keOperationID e = opid \<and>
           (\<forall>fp kind app x. fst (BeginKey env2 key fp kind app (l2, d1)) = Inr x \<longrightarrow> x = (BeginReplay, e) \<and> fp = keFingerprint e) \<and>
           (\<not> opLockErr env2 \<and> \<not> opReadErr env2 \<and> klCorrupt (anchorLocked env2 l2) = None \<and> klLoaded (anchorLocked env2 l2) \<and>
              \<not> fails (opIo env2) IoMkdir \<longrightarrow>
            (\<forall>fp kind app. fst (BeginKey env2 key fp kind app (l2, d1)) =
               (if fp = keFingerprint e then Inr (BeginReplay, e) else Inl CodeIdempotencyConflict)))"
proof -
  from CompleteKeyData_moves [OF assms(4,5,1)] assms(2,3) obtain ix2 e0 where
    ix2: "loadedIx (klMax l) (opDataDir env) d1 = Some ix2" "snd ix2 key = Some (completedEntry env opid data e0)" by blast
  let ?e = "completedEntry env opid data e0"
  have "loadedIx (klMax l2) (opDataDir env2) d1 = Some ix2" using ix2(1) assms(6,7) by simp
  moreover have "keState ?e = entryStateComplete" "keResult ?e = data" "keOperationID ?e = opid"
    by (simp_all add: completedEntry_def)
  ultimately show ?thesis
    using BeginKey_existing [of l2 env2 d1 ix2 key ?e, OF _ assms(8) ix2(2) _ assms(2)] by blast
qed

theorem completed_key_replays_witness:
  "\<exists>e. keResult e = ''{1}'' \<and>
     (\<forall>x. fst (BeginKey demoOpsEnv ''k1'' ''f1'' ''rebuild'' ''web''
        (newKeyLedger, snd (snd (CompleteKeyData demoOpsEnv ''k1'' ''op_1'' ''{1}'' (newKeyLedger, demoOpsDir))))) = Inr x \<longrightarrow>
        x = (BeginReplay, e))"
proof -
  have max: "klMax newKeyLedger = 512" by (simp add: newKeyLedger_def ledgerCapacity_def)
  obtain res l' d' where r: "CompleteKeyData demoOpsEnv ''k1'' ''op_1'' ''{1}'' (newKeyLedger, demoOpsDir) = (res, (l', d'))"
    by (cases "CompleteKeyData demoOpsEnv ''k1'' ''op_1'' ''{1}'' (newKeyLedger, demoOpsDir)") auto
  have "fst (CompleteKeyData demoOpsEnv ''k1'' ''op_1'' ''{1}'' (newKeyLedger, demoOpsDir)) = Inr ()" by code_simp
  with r have "res = Inr ()" by simp
  from completed_key_replays [of demoOpsEnv "''k1''" "''op_1''" "''{1}''" newKeyLedger demoOpsDir l' d' _ demoOpsEnv newKeyLedger,
      unfolded max demoOpsEnv_ok(2), OF r [unfolded this] _ _ demoOps_loaded demoOpsEnv_ok(1) refl refl demoOpsEnv_ok(1)]
  obtain e where "keResult e = ''{1}''"
    "\<forall>fp kind app x. fst (BeginKey demoOpsEnv ''k1'' fp kind app (newKeyLedger, d')) = Inr x \<longrightarrow> x = (BeginReplay, e) \<and> fp = keFingerprint e"
    by auto
  then show ?thesis unfolding r by auto
qed

section \<open>Two places where the code and its comments differ\<close>

text \<open>
  \<open>closeOneAbandonedLocked\<close> says that a reclaimed key replays its indeterminate result and never re-executes.
  The same call of \<open>makeRoomLocked\<close> evicts it at once: in a ledger of capacity one whose only entry is an
  hour old, beginning another key removes it, and the first key, whose operation may still run in a living
  process, is then granted execution again.
\<close>

definition lateEnv :: opsEnv where
  "lateEnv = demoOpsEnv\<lparr>opNow := 5 + abandonedInProgressAge, opPid := 8\<rparr>"

definition smallLedger :: keyLedger where "smallLedger = newKeyLedger\<lparr>klMax := 1\<rparr>"

lemma abandoned_key_executes_again:
  "fst (BeginKey demoOpsEnv ''k1'' ''f1'' ''rebuild'' ''web'' (smallLedger, Map.empty)) = Inr (BeginExecute, demoEntry)"
  "pidAlive lateEnv (kePID demoEntry)"
  "\<exists>e e' d1 d2. d1 = snd (snd (BeginKey demoOpsEnv ''k1'' ''f1'' ''rebuild'' ''web'' (smallLedger, Map.empty))) \<and>
     BeginKey lateEnv ''k2'' ''f2'' ''build'' ''api'' (smallLedger, d1) = (Inr (BeginExecute, e), d2) \<and>
     fst (BeginKey (lateEnv\<lparr>opNow := 5 + 2 * abandonedInProgressAge\<rparr>) ''k1'' ''f1'' ''rebuild'' ''web'' (smallLedger, snd d2)) =
       Inr (BeginExecute, e')"
proof -
  show "fst (BeginKey demoOpsEnv ''k1'' ''f1'' ''rebuild'' ''web'' (smallLedger, Map.empty)) = Inr (BeginExecute, demoEntry)"
    by code_simp
  show "pidAlive lateEnv (kePID demoEntry)" by code_simp
  let ?d1 = "snd (snd (BeginKey demoOpsEnv ''k1'' ''f1'' ''rebuild'' ''web'' (smallLedger, Map.empty)))"
  let ?b2 = "BeginKey lateEnv ''k2'' ''f2'' ''build'' ''api'' (smallLedger, ?d1)"
  have "fst ?b2 = Inr (BeginExecute, newKeyEntry lateEnv ''k2'' ''f2'' ''build'' ''api'')" by code_simp
  moreover have "fst (BeginKey (lateEnv\<lparr>opNow := 5 + 2 * abandonedInProgressAge\<rparr>) ''k1'' ''f1'' ''rebuild'' ''web''
      (smallLedger, snd (snd ?b2))) =
      Inr (BeginExecute, newKeyEntry (lateEnv\<lparr>opNow := 5 + 2 * abandonedInProgressAge\<rparr>) ''k1'' ''f1'' ''rebuild'' ''web'')"
    by code_simp
  ultimately show "\<exists>e e' d1 d2. d1 = ?d1 \<and>
     BeginKey lateEnv ''k2'' ''f2'' ''build'' ''api'' (smallLedger, d1) = (Inr (BeginExecute, e), d2) \<and>
     fst (BeginKey (lateEnv\<lparr>opNow := 5 + 2 * abandonedInProgressAge\<rparr>) ''k1'' ''f1'' ''rebuild'' ''web'' (smallLedger, snd d2)) =
       Inr (BeginExecute, e')"
    by (metis prod.collapse)
qed

text \<open>
  The comment on the failed persist in \<open>beginLocked\<close> says that the failed atomic write never touched the disk.  A failing
  directory sync comes after the rename: the begin fails and nothing executes, but the file lists the key
  as in progress, and a retry of the same request is refused as long as the process lives.
\<close>

definition syncFailEnv :: opsEnv where
  "syncFailEnv = demoOpsEnv\<lparr>opIo := \<lparr>fails = (\<lambda>st. st = IoSyncDir), partial = OpsGarbage, raced = None\<rparr>\<rparr>"

lemma failed_begin_blocks_key:
  "fst (BeginKey syncFailEnv ''k1'' ''f1'' ''rebuild'' ''web'' (newKeyLedger, Map.empty)) = Inl CodeUnavailable"
  "fst (BeginKey demoOpsEnv ''k1'' ''f1'' ''rebuild'' ''web''
     (newKeyLedger, snd (snd (BeginKey syncFailEnv ''k1'' ''f1'' ''rebuild'' ''web'' (newKeyLedger, Map.empty))))) =
     Inl CodeUnavailable"
  by code_simp+

end
