(* ===== verification/Instances.thy ===== *)
theory Instances
  imports Errors GoStrings
begin

text \<open>
  Instances and their processes (\<open>internal/deploy/instance.go\<close>, \<open>docker_identity.go\<close> and the
  \<open>Instance\<close> record of \<open>state.go\<close>): how a recorded process is recognised before it is signalled, and
  how it is stopped.  The operating system is a table of processes and a table of containers, each
  with the port it listens on; symbolic links are resolved by an argument, and how a process reacts
  to being stopped is a value of \<open>reaction\<close>, one for each way the wait and the kill can end.
\<close>

section \<open>The program\<close>

subsection \<open>The operating system\<close>

record procInfo =
  prTicks :: nat
  prExe :: string
  prPort :: int

record container =
  ctRunning :: bool
  ctManaged :: bool
  ctPort :: int

record os =
  osProcs :: "int \<rightharpoonup> procInfo"
  osContainers :: "string \<rightharpoonup> container"
  osDockerUp :: bool

subsection \<open>Instances\<close>

record inst =
  inSecretEnvs :: "string list"
  inSlot :: string
  inPID :: int
  inPort :: int
  inBinaryPath :: string
  inContainerID :: string
  inStartedAt :: int
  inStatus :: string
  inVersion :: int
  inEnvPath :: string
  inStartTicks :: nat
  inRestartCount :: int
  inLastRestartAt :: int
  inLastExitCode :: int
  inLastExitReason :: string
  inLastExitAt :: int
  inReadyAt :: int

definition emptyInst :: "string \<Rightarrow> inst" where
  "emptyInst slot =
     \<lparr>inSecretEnvs = [], inSlot = slot, inPID = 0, inPort = 0, inBinaryPath = '''', inContainerID = '''',
      inStartedAt = 0, inStatus = ''stopped'', inVersion = 0, inEnvPath = '''', inStartTicks = 0,
      inRestartCount = 0, inLastRestartAt = 0, inLastExitCode = 0, inLastExitReason = '''', inLastExitAt = 0,
      inReadyAt = 0\<rparr>"

definition hostPort :: "int \<Rightarrow> string" where
  "hostPort port = ''127.0.0.1:'' @ itoa port"

subsection \<open>Recognising a process\<close>

text \<open>\<open>filepath.Clean\<close> on a slash-separated path, and \<open>strings.EqualFold\<close> on ASCII letters.\<close>

fun cleanSegments :: "bool \<Rightarrow> string list \<Rightarrow> string list \<Rightarrow> string list" where
  "cleanSegments rooted stack [] = rev stack"
| "cleanSegments rooted stack (seg # segs) =
     (if seg = '''' \<or> seg = ''.'' then cleanSegments rooted stack segs
      else if seg = ''..'' then
        (case stack of
           [] \<Rightarrow> cleanSegments rooted (if rooted then [] else [''..'']) segs
         | prev # rest \<Rightarrow> if prev = ''..'' then cleanSegments rooted (''..'' # stack) segs
                        else cleanSegments rooted rest segs)
      else cleanSegments rooted (seg # stack) segs)"

fun joinSlash :: "string list \<Rightarrow> string" where
  "joinSlash [] = ''''"
| "joinSlash [s] = s"
| "joinSlash (s # ss) = s @ ''/'' @ joinSlash ss"

definition cleanPath :: "string \<Rightarrow> string" where
  "cleanPath p =
     (let rooted = hasPrefix ''/'' p;
          body = joinSlash (cleanSegments rooted [] (splitOn (CHR ''/'') p))
      in if rooted then ''/'' @ body else if body = '''' then ''.'' else body)"

definition sameExecutable :: "(string \<Rightarrow> string option) \<Rightarrow> string \<Rightarrow> string \<Rightarrow> bool" where
  "sameExecutable evalSymlinks exe want =
     (if exe = '''' \<or> want = '''' then False
      else
        let exe' = trimSuffix '' (deleted)'' exe;
            want' = trimSuffix '' (deleted)'' want;
            resolve = (\<lambda>p. case evalSymlinks p of Some real \<Rightarrow> real | None \<Rightarrow> p)
        in equalFold (cleanPath exe') (cleanPath want') \<or>
           equalFold (cleanPath (resolve exe')) (cleanPath (resolve want')))"

text \<open>An unreadable executable link shows as the empty path.\<close>

definition osPidAlive :: "os \<Rightarrow> int \<Rightarrow> bool" where
  "osPidAlive sys pid \<longleftrightarrow> pid > 0 \<and> osProcs sys pid \<noteq> None"

definition processExecutable :: "os \<Rightarrow> int \<Rightarrow> string" where
  "processExecutable sys pid = (case osProcs sys pid of None \<Rightarrow> '''' | Some p \<Rightarrow> prExe p)"

definition processTicks :: "os \<Rightarrow> int \<Rightarrow> nat option" where
  "processTicks sys pid =
     (if pid \<le> 0 then None
      else case osProcs sys pid of
             None \<Rightarrow> None
           | Some p \<Rightarrow> if prExe p = '''' then None else Some (prTicks p))"

datatype handle = NativeProc int | DockerProc string

definition findVerifiedProcess :: "(string \<Rightarrow> string option) \<Rightarrow> os \<Rightarrow> int \<Rightarrow> string \<Rightarrow> handle option" where
  "findVerifiedProcess lk sys pid expectBinary =
     (if pid \<le> 0 \<or> \<not> osPidAlive sys pid then None
      else if expectBinary \<noteq> '''' \<and> \<not> sameExecutable lk (processExecutable sys pid) expectBinary then None
      else Some (NativeProc pid))"

text \<open>\<open>docker inspect\<close> of one container: an error the caller cannot classify, no such container, or its state.\<close>

datatype inspection = InspectError | NoContainer | Inspected bool bool

definition dockerInspect :: "os \<Rightarrow> string \<Rightarrow> inspection" where
  "dockerInspect sys cid =
     (if \<not> osDockerUp sys then InspectError
      else case osContainers sys cid of
             None \<Rightarrow> NoContainer
           | Some c \<Rightarrow> Inspected (ctRunning c) (ctManaged c))"

definition dockerContainerAlive :: "os \<Rightarrow> string \<Rightarrow> bool" where
  "dockerContainerAlive sys cid =
     (if cid = '''' then False
      else case dockerInspect sys cid of
             InspectError \<Rightarrow> True
           | NoContainer \<Rightarrow> False
           | Inspected running managed \<Rightarrow> running \<and> managed)"

definition instanceAliveViaRuntime :: "(string \<Rightarrow> string option) \<Rightarrow> os \<Rightarrow> inst \<Rightarrow> bool" where
  "instanceAliveViaRuntime lk sys i =
     (if inContainerID i \<noteq> '''' then dockerContainerAlive sys (inContainerID i)
      else if inPID i \<le> 0 then False
      else if inStartTicks i \<noteq> 0 \<and> processTicks sys (inPID i) \<noteq> Some (inStartTicks i) then False
      else findVerifiedProcess lk sys (inPID i) (inBinaryPath i) \<noteq> None)"

text \<open>
  Workers are recognised by the identity of their process (\<open>internal/processex\<close> on Linux): the start time,
  where one is recorded, and the executable, whose recorded path alone is resolved.
\<close>

definition sameExe :: "(string \<Rightarrow> string option) \<Rightarrow> string \<Rightarrow> string \<Rightarrow> bool" where
  "sameExe evalSymlinks exe want =
     (if exe = '''' \<or> want = '''' then False
      else
        let exe' = trimSuffix '' (deleted)'' exe;
            want' = trimSuffix '' (deleted)'' want
        in if cleanPath exe' = cleanPath want' then True
           else case evalSymlinks want' of
                  Some resolved \<Rightarrow> cleanPath exe' = cleanPath resolved
                | None \<Rightarrow> False)"

record processIdentity =
  piPID :: int
  piStartTime :: nat
  piExePath :: string

definition processIdentityOf :: "os \<Rightarrow> int \<Rightarrow> processIdentity option" where
  "processIdentityOf sys pid =
     (if pid \<le> 0 then None
      else case osProcs sys pid of
             None \<Rightarrow> None
           | Some p \<Rightarrow> if prExe p = '''' then None
                       else Some \<lparr>piPID = pid, piStartTime = prTicks p, piExePath = prExe p\<rparr>)"

definition matchesIdentity :: "(string \<Rightarrow> string option) \<Rightarrow> os \<Rightarrow> processIdentity \<Rightarrow> bool" where
  "matchesIdentity lk sys want =
     (if piPID want \<le> 0 then False
      else case processIdentityOf sys (piPID want) of
             None \<Rightarrow> False
           | Some cur \<Rightarrow> if piStartTime want \<noteq> 0 \<and> piStartTime cur \<noteq> piStartTime want then False
                         else sameExe lk (piExePath cur) (piExePath want))"

definition WorkerInstanceAlive :: "(string \<Rightarrow> string option) \<Rightarrow> os \<Rightarrow> inst \<Rightarrow> bool" where
  "WorkerInstanceAlive lk sys i =
     (if inPID i \<le> 0 then False
      else matchesIdentity lk sys \<lparr>piPID = inPID i, piStartTime = inStartTicks i, piExePath = inBinaryPath i\<rparr>)"

subsection \<open>Stopping a process\<close>

text \<open>
  The ways a graceful stop can end: the process exits within the grace period; the wait ends without
  confirming the exit; the kill itself fails; the process exits after the kill; or the wait after the
  kill does not confirm it.  An unconfirmed process may be gone or not.
\<close>

datatype reaction = ExitsInGrace | WaitUnconfirmed bool | KillFails | ExitsOnKill | KillUnconfirmed bool

record shutdownReport =
  rpForceKilled :: bool
  rpExited :: bool

fun endProcess :: "handle \<Rightarrow> os \<Rightarrow> os" where
  "endProcess (NativeProc pid) sys = sys\<lparr>osProcs := (osProcs sys)(pid := None)\<rparr>"
| "endProcess (DockerProc cid) sys =
     sys\<lparr>osContainers := (osContainers sys)(cid := map_option (\<lambda>c. c\<lparr>ctRunning := False\<rparr>) (osContainers sys cid))\<rparr>"

definition GracefulStop :: "reaction \<Rightarrow> handle \<Rightarrow> os \<Rightarrow> shutdownReport \<times> os" where
  "GracefulStop rx h sys =
     (case rx of
        ExitsInGrace \<Rightarrow> (\<lparr>rpForceKilled = False, rpExited = True\<rparr>, endProcess h sys)
      | WaitUnconfirmed gone \<Rightarrow>
          (\<lparr>rpForceKilled = False, rpExited = False\<rparr>, if gone then endProcess h sys else sys)
      | KillFails \<Rightarrow> (\<lparr>rpForceKilled = False, rpExited = False\<rparr>, sys)
      | ExitsOnKill \<Rightarrow> (\<lparr>rpForceKilled = True, rpExited = True\<rparr>, endProcess h sys)
      | KillUnconfirmed gone \<Rightarrow>
          (\<lparr>rpForceKilled = True, rpExited = False\<rparr>, if gone then endProcess h sys else sys))"

definition nothingToStop :: shutdownReport where
  "nothingToStop = \<lparr>rpForceKilled = False, rpExited = True\<rparr>"

definition stopByPID :: "(string \<Rightarrow> string option) \<Rightarrow> reaction \<Rightarrow> int \<Rightarrow> string \<Rightarrow> os \<Rightarrow> shutdownReport \<times> os" where
  "stopByPID lk rx pid expectBinary sys =
     (case findVerifiedProcess lk sys pid expectBinary of
        None \<Rightarrow> (nothingToStop, sys)
      | Some h \<Rightarrow> GracefulStop rx h sys)"

definition stopByContainerID :: "reaction \<Rightarrow> string \<Rightarrow> os \<Rightarrow> shutdownReport \<times> os" where
  "stopByContainerID rx cid sys =
     (case dockerInspect sys cid of
        InspectError \<Rightarrow> (\<lparr>rpForceKilled = False, rpExited = False\<rparr>, sys)
      | NoContainer \<Rightarrow> (nothingToStop, sys)
      | Inspected running managed \<Rightarrow>
          if \<not> running \<or> \<not> managed then (nothingToStop, sys)
          else GracefulStop rx (DockerProc cid) sys)"

definition stopInstance :: "(string \<Rightarrow> string option) \<Rightarrow> reaction \<Rightarrow> inst \<Rightarrow> os \<Rightarrow> shutdownReport \<times> os" where
  "stopInstance lk rx i sys =
     (if inContainerID i \<noteq> '''' then stopByContainerID rx (inContainerID i) sys
      else if \<not> instanceAliveViaRuntime lk sys i then (nothingToStop, sys)
      else stopByPID lk rx (inPID i) (inBinaryPath i) sys)"

text \<open>A worker is stopped without touching its record; an error is returned exactly when no exit was confirmed.\<close>

definition GracefulStopWorker :: "(string \<Rightarrow> string option) \<Rightarrow> reaction \<Rightarrow> inst \<Rightarrow> os \<Rightarrow> shutdownReport \<times> os" where
  "GracefulStopWorker lk rx i sys =
     (if \<not> WorkerInstanceAlive lk sys i then (nothingToStop, sys)
      else GracefulStop rx (NativeProc (inPID i)) sys)"

section \<open>Identity\<close>

text \<open>The process an instance record names, and whether the record still identifies it.\<close>

definition handleOf :: "inst \<Rightarrow> handle" where
  "handleOf i = (if inContainerID i \<noteq> '''' then DockerProc (inContainerID i) else NativeProc (inPID i))"

fun running :: "os \<Rightarrow> handle \<Rightarrow> bool" where
  "running sys (NativeProc pid) = (osProcs sys pid \<noteq> None)"
| "running sys (DockerProc cid) = (case osContainers sys cid of None \<Rightarrow> False | Some c \<Rightarrow> ctRunning c)"

lemma stopInstance_frame:
  assumes "stopInstance lk rx i sys = (report, sys')"
  shows "sys' = sys \<or> sys' = endProcess (handleOf i) sys"
  using assms
  by (auto simp: stopInstance_def stopByContainerID_def stopByPID_def GracefulStop_def handleOf_def
      findVerifiedProcess_def split: option.splits inspection.splits reaction.splits if_splits)

lemma endProcess_other: "h \<noteq> g \<Longrightarrow> running (endProcess g sys) h = running sys h"
  by (cases g; cases h) auto

lemma stopInstance_native:
  assumes "stopInstance lk rx i sys = (report, sys')" and "inContainerID i = ''''"
  shows "(\<exists>p. osProcs sys (inPID i) = Some p \<and>
            (inBinaryPath i \<noteq> '''' \<longrightarrow> sameExecutable lk (prExe p) (inBinaryPath i)) \<and>
            (inStartTicks i \<noteq> 0 \<longrightarrow> prTicks p = inStartTicks i)) \<or> sys' = sys \<and> \<not> instanceAliveViaRuntime lk sys i"
  using assms
  by (auto simp: stopInstance_def stopByPID_def instanceAliveViaRuntime_def findVerifiedProcess_def
      osPidAlive_def processExecutable_def processTicks_def split: option.splits if_splits)

lemma stopInstance_docker:
  assumes "stopInstance lk rx i sys = (report, sys')" and "inContainerID i \<noteq> ''''"
  shows "sys' = sys \<or> (\<exists>c. osContainers sys (inContainerID i) = Some c \<and> ctRunning c \<and> ctManaged c)"
  using assms
  by (auto simp: stopInstance_def stopByContainerID_def dockerInspect_def
      split: option.splits inspection.splits if_splits)

lemma stopInstance_exited:
  assumes "stopInstance lk rx i sys = (report, sys')" and "rpExited report"
  shows "\<not> instanceAliveViaRuntime lk sys' i"
proof (cases "inContainerID i = ''''")
  case True
  then show ?thesis
    using assms
    by (auto simp: stopInstance_def stopByPID_def GracefulStop_def instanceAliveViaRuntime_def findVerifiedProcess_def
        osPidAlive_def split: option.splits if_splits reaction.splits)
next
  case False
  then show ?thesis
    using assms
    by (auto simp: stopInstance_def stopByContainerID_def GracefulStop_def instanceAliveViaRuntime_def
        dockerContainerAlive_def dockerInspect_def nothingToStop_def
        split: option.splits if_splits reaction.splits inspection.splits)
qed

text \<open>
  C24: A stale record never signals a stranger.  Stopping an instance changes at most the process or
  container its record names; a native process is touched only when it is alive, runs the recorded
  executable and, where the record has one, started at the recorded time, and a container only when
  it runs with the managed label.  A confirmed exit means that nothing the record identifies is
  running any more.
\<close>
theorem stopInstance_identity:
  assumes "stopInstance lk rx i sys = (report, sys')"
  shows "(\<forall>h. h \<noteq> handleOf i \<longrightarrow> running sys' h = running sys h) \<and>
         (sys' \<noteq> sys \<and> inContainerID i = '''' \<longrightarrow>
            (\<exists>p. osProcs sys (inPID i) = Some p \<and>
                 (inBinaryPath i \<noteq> '''' \<longrightarrow> sameExecutable lk (prExe p) (inBinaryPath i)) \<and>
                 (inStartTicks i \<noteq> 0 \<longrightarrow> prTicks p = inStartTicks i))) \<and>
         (sys' \<noteq> sys \<and> inContainerID i \<noteq> '''' \<longrightarrow>
            (\<exists>c. osContainers sys (inContainerID i) = Some c \<and> ctRunning c \<and> ctManaged c)) \<and>
         (rpExited report \<longrightarrow> \<not> instanceAliveViaRuntime lk sys' i)"
proof (intro conjI)
  show "\<forall>h. h \<noteq> handleOf i \<longrightarrow> running sys' h = running sys h"
    using stopInstance_frame [OF assms] endProcess_other by metis
  show "sys' \<noteq> sys \<and> inContainerID i = '''' \<longrightarrow>
          (\<exists>p. osProcs sys (inPID i) = Some p \<and>
               (inBinaryPath i \<noteq> '''' \<longrightarrow> sameExecutable lk (prExe p) (inBinaryPath i)) \<and>
               (inStartTicks i \<noteq> 0 \<longrightarrow> prTicks p = inStartTicks i))"
    using stopInstance_native [OF assms] by blast
  show "sys' \<noteq> sys \<and> inContainerID i \<noteq> '''' \<longrightarrow>
          (\<exists>c. osContainers sys (inContainerID i) = Some c \<and> ctRunning c \<and> ctManaged c)"
    using stopInstance_docker [OF assms] by blast
  show "rpExited report \<longrightarrow> \<not> instanceAliveViaRuntime lk sys' i"
    using stopInstance_exited [OF assms] by blast
qed

definition demoOs :: os where
  "demoOs = \<lparr>osProcs = [7 \<mapsto> \<lparr>prTicks = 40, prExe = ''/srv/app/v1'', prPort = 9001\<rparr>,
                          8 \<mapsto> \<lparr>prTicks = 90, prExe = ''/usr/bin/other'', prPort = 5432\<rparr>],
             osContainers = Map.empty, osDockerUp = True\<rparr>"

definition demoInst :: "int \<Rightarrow> nat \<Rightarrow> inst" where
  "demoInst pid ticks = (emptyInst ''blue'')\<lparr>inPID := pid, inPort := 9001, inBinaryPath := ''/srv/app/./v1'',
                           inStatus := ''running'', inStartTicks := ticks\<rparr>"

theorem stopInstance_identity_witness:
  "running demoOs (NativeProc 7) \<and>
   \<not> running (snd (stopInstance (\<lambda>_. None) ExitsOnKill (demoInst 7 40) demoOs)) (NativeProc 7) \<and>
   running (snd (stopInstance (\<lambda>_. None) ExitsOnKill (demoInst 7 40) demoOs)) (NativeProc 8) \<and>
   snd (stopInstance (\<lambda>_. None) ExitsOnKill (demoInst 8 0) demoOs) = demoOs"
proof -
  obtain report sys' where run: "stopInstance (\<lambda>_. None) ExitsOnKill (demoInst 7 40) demoOs = (report, sys')" by fastforce
  have "NativeProc 8 \<noteq> handleOf (demoInst 7 40)" by code_simp
  then have "running sys' (NativeProc 8) = running demoOs (NativeProc 8)"
    using stopInstance_identity [OF run] by blast
  moreover have "running demoOs (NativeProc 7)" "running demoOs (NativeProc 8)" by code_simp+
  moreover have "\<not> running (snd (stopInstance (\<lambda>_. None) ExitsOnKill (demoInst 7 40) demoOs)) (NativeProc 7)" by code_simp
  moreover have "\<not> instanceAliveViaRuntime (\<lambda>_. None) demoOs (demoInst 8 0)" "inContainerID (demoInst 8 0) = ''''" by code_simp+
  then have "snd (stopInstance (\<lambda>_. None) ExitsOnKill (demoInst 8 0) demoOs) = demoOs" by (simp add: stopInstance_def)
  ultimately show ?thesis using run by simp
qed

end
