(* ===== verification/Proxy.thy ===== *)
theory Proxy
  imports Errors GoStrings "HOL-Library.AList"
begin

text \<open>
  The per-application reverse proxy (\<open>internal/proxy/proxy.go\<close>): the backend set behind a public
  port, the liveness cache, the smooth weighted round-robin schedule and the per-backend request
  statistics.  A Go map that may be nil is an optional map: writing to a nil map panics, and an
  operation that would panic returns \<open>None\<close>.  The outcome of a TCP dial and the clock are
  arguments; 64-bit counters wrap.  The daemon that owns the proxies is in \<open>ProxyDaemon\<close>.
\<close>

section \<open>The program\<close>

subsection \<open>Targets and the state of one proxy\<close>

record target =
  tHost :: string
  tLabel :: string
  tWeight :: int

record backendCounters =
  bcRequests :: int
  bcErrors :: int
  bcBuckets :: "int list"

record livenessResult =
  lrOk :: bool
  lrAt :: int

record proxyState =
  psPrimary :: target
  psTargets :: "target list"

record proxy =
  pxPublicPort :: int
  pxAppName :: string
  pxAccessMode :: string
  pxState :: proxyState
  pxWrr :: "(string \<rightharpoonup> int) option"
  pxStats :: "(string \<times> backendCounters) list"
  pxLive :: "string \<rightharpoonup> livenessResult"

text \<open>Durations are nanoseconds, as \<open>time.Duration\<close> counts them.\<close>

definition millisecond :: int where
  "millisecond = 1000000"

definition LatencyBucketBounds :: "int list" where
  "LatencyBucketBounds =
     [5 * millisecond, 10 * millisecond, 25 * millisecond, 50 * millisecond, 100 * millisecond,
      250 * millisecond, 500 * millisecond, 1000 * millisecond, 2500 * millisecond,
      5000 * millisecond, 10000 * millisecond]"

definition livePassTTL :: int where
  "livePassTTL = 500 * millisecond"

definition liveFailTTL :: int where
  "liveFailTTL = 200 * millisecond"

text \<open>Signed 64-bit arithmetic.\<close>

definition wrap64 :: "int \<Rightarrow> int" where
  "wrap64 x = (x + 2 ^ 63) mod 2 ^ 64 - 2 ^ 63"

definition minInt64 :: int where
  "minInt64 = - (2 ^ 63)"

subsection \<open>Smooth weighted round-robin\<close>

definition effectiveWeight :: "target \<Rightarrow> int" where
  "effectiveWeight t = (if tWeight t \<le> 0 then 1 else if tWeight t > 100 then 100 else tWeight t)"

fun totalWeight :: "int \<Rightarrow> target list \<Rightarrow> int" where
  "totalWeight tot [] = tot"
| "totalWeight tot (t # ts) = totalWeight (wrap64 (tot + effectiveWeight t)) ts"

definition wrrGet :: "(string \<rightharpoonup> int) \<Rightarrow> string \<Rightarrow> int" where
  "wrrGet m h = (case m h of None \<Rightarrow> 0 | Some n \<Rightarrow> n)"

fun scoreLoop ::
    "target list \<Rightarrow> string \<Rightarrow> int \<Rightarrow> (string \<rightharpoonup> int) \<Rightarrow> string \<times> (string \<rightharpoonup> int)" where
  "scoreLoop [] best bestScore m = (best, m)"
| "scoreLoop (t # ts) best bestScore m =
     (let score = wrap64 (wrrGet m (tHost t) + effectiveWeight t);
          m' = m(tHost t \<mapsto> score)
      in if score > bestScore then scoreLoop ts (tHost t) score m'
         else scoreLoop ts best bestScore m')"

definition pickWeighted :: "target list \<Rightarrow> proxy \<Rightarrow> (string \<times> proxy) option" where
  "pickWeighted healthy p =
     (case pxWrr p of
        None \<Rightarrow> None
      | Some m \<Rightarrow>
          let tot = totalWeight 0 healthy;
              (best, m') = scoreLoop healthy '''' minInt64 m
          in Some (best, p\<lparr>pxWrr := Some (m'(best \<mapsto> wrap64 (wrrGet m' best - tot)))\<rparr>))"

subsection \<open>Liveness and the choice of a backend\<close>

definition hostLive :: "(string \<Rightarrow> bool) \<Rightarrow> int \<Rightarrow> string \<Rightarrow> proxy \<Rightarrow> bool \<times> proxy" where
  "hostLive dial now host p =
     (let res = pxLive p host;
          ok = (case res of None \<Rightarrow> False | Some r \<Rightarrow> lrOk r);
          ttl = (if ok then livePassTTL else liveFailTTL)
      in case res of
           Some r \<Rightarrow>
             if now - lrAt r < ttl then (ok, p)
             else (dial host, p\<lparr>pxLive := (pxLive p)(host \<mapsto> \<lparr>lrOk = dial host, lrAt = now\<rparr>)\<rparr>)
         | None \<Rightarrow> (dial host, p\<lparr>pxLive := (pxLive p)(host \<mapsto> \<lparr>lrOk = dial host, lrAt = now\<rparr>)\<rparr>))"

fun filterLive :: "(string \<Rightarrow> bool) \<Rightarrow> int \<Rightarrow> target list \<Rightarrow> proxy \<Rightarrow> target list \<times> proxy" where
  "filterLive dial now [] p = ([], p)"
| "filterLive dial now (t # ts) p =
     (let (live, p1) = hostLive dial now (tHost t) p;
          (rest, p2) = filterLive dial now ts p1
      in (if live then t # rest else rest, p2))"

definition pickHealthyHost :: "(string \<Rightarrow> bool) \<Rightarrow> int \<Rightarrow> proxyState \<Rightarrow> proxy \<Rightarrow> (string \<times> proxy) option" where
  "pickHealthyHost dial now st p =
     (if psTargets st = [] then Some (tHost (psPrimary st), p)
      else
        let (healthy, p') = filterLive dial now (psTargets st) p in
        case healthy of
          [] \<Rightarrow> Some (tHost (psPrimary st), p')
        | [t] \<Rightarrow> Some (tHost t, p')
        | _ \<Rightarrow> pickWeighted healthy p')"

definition singleJoiningSlash :: "string \<Rightarrow> string \<Rightarrow> string" where
  "singleJoiningSlash a b =
     (let aslash = hasSuffix ''/'' a; bslash = hasPrefix ''/'' b in
      if aslash \<and> bslash then a @ drop 1 b
      else if \<not> aslash \<and> \<not> bslash then a @ ''/'' @ b
      else a @ b)"

text \<open>
  The director of the reverse proxy: the backend of one request and the path it is sent with (the
  backend URL itself has no path).  The host is taken to be one that \<open>url.Parse\<close> accepts.
\<close>

definition Director :: "(string \<Rightarrow> bool) \<Rightarrow> int \<Rightarrow> string \<Rightarrow> proxy \<Rightarrow> ((string \<times> string) \<times> proxy) option" where
  "Director dial now path p =
     (let st = pxState p;
          chosen = (if length (psTargets st) > 1 then pickHealthyHost dial now st p
                    else Some (tHost (psPrimary st), p))
      in map_option (\<lambda>(host, p'). ((host, singleJoiningSlash '''' path), p')) chosen)"

subsection \<open>Construction and membership\<close>

definition NewProxy :: "string \<Rightarrow> int \<Rightarrow> target \<Rightarrow> proxy" where
  "NewProxy appName publicPort initial =
     \<lparr>pxPublicPort = publicPort, pxAppName = appName, pxAccessMode = '''',
      pxState = \<lparr>psPrimary = initial, psTargets = [initial]\<rparr>,
      pxWrr = None, pxStats = [], pxLive = Map.empty\<rparr>"

fun addlTargets :: "string set \<Rightarrow> target list \<Rightarrow> target list" where
  "addlTargets seen [] = []"
| "addlTargets seen (t # ts) =
     (if tHost t = '''' \<or> tHost t \<in> seen then addlTargets seen ts
      else t # addlTargets (insert (tHost t) seen) ts)"

definition SetTarget :: "target \<Rightarrow> target list \<Rightarrow> proxy \<Rightarrow> proxy" where
  "SetTarget prim addl p =
     p\<lparr>pxState := \<lparr>psPrimary = prim, psTargets = prim # addlTargets {tHost prim} addl\<rparr>,
       pxWrr := Some Map.empty\<rparr>"

subsection \<open>Request statistics\<close>

definition recordBackendRequest :: "string \<Rightarrow> int \<Rightarrow> bool \<Rightarrow> int \<Rightarrow> proxy \<Rightarrow> proxy" where
  "recordBackendRequest host status transportErr latency p =
     (if host = '''' then p
      else
        let c = (case map_of (pxStats p) host of
                   None \<Rightarrow> \<lparr>bcRequests = 0, bcErrors = 0, bcBuckets = map (\<lambda>_. 0) LatencyBucketBounds\<rparr>
                 | Some c \<Rightarrow> c);
            c' = \<lparr>bcRequests = bcRequests c + 1,
                  bcErrors = (if transportErr \<or> status \<ge> 500 then bcErrors c + 1 else bcErrors c),
                  bcBuckets = map2 (\<lambda>bound n. if latency \<le> bound then n + 1 else n)
                                LatencyBucketBounds (bcBuckets c)\<rparr>
        in p\<lparr>pxStats := AList.update host c' (pxStats p)\<rparr>)"

record backendStat =
  bsLabel :: string
  bsHost :: string
  bsRequests :: int
  bsErrors :: int
  bsBuckets :: "int list"

definition targetLabels :: "proxyState \<Rightarrow> string \<Rightarrow> string" where
  "targetLabels st =
     (let labels = fold (\<lambda>t f. f(tHost t := tLabel t)) (psTargets st) (\<lambda>_. '''') in
      if labels (tHost (psPrimary st)) = '''' \<and> tLabel (psPrimary st) \<noteq> ''''
      then labels(tHost (psPrimary st) := tLabel (psPrimary st)) else labels)"

definition Stats :: "proxy \<Rightarrow> backendStat list" where
  "Stats p =
     sort_key bsHost
       (map (\<lambda>(host, c). \<lparr>bsLabel = targetLabels (pxState p) host, bsHost = host,
                           bsRequests = bcRequests c, bsErrors = bcErrors c, bsBuckets = bcBuckets c\<rparr>)
          (pxStats p))"

section \<open>The schedule\<close>

text \<open>The backends a sequence of requests is sent to, with the healthy set unchanged in between.\<close>

fun pickMany :: "nat \<Rightarrow> target list \<Rightarrow> proxy \<Rightarrow> (string list \<times> proxy) option" where
  "pickMany 0 hs p = Some ([], p)"
| "pickMany (Suc k) hs p =
     (case pickMany k hs p of
        None \<Rightarrow> None
      | Some (picks, p1) \<Rightarrow>
          (case pickWeighted hs p1 of
             None \<Rightarrow> None
           | Some (h, p2) \<Rightarrow> Some (picks @ [h], p2)))"

definition weightSum :: "target list \<Rightarrow> int" where
  "weightSum hs = sum_list (map effectiveWeight hs)"

lemma wrap64_id: "- (2 ^ 63) \<le> x \<Longrightarrow> x < 2 ^ 63 \<Longrightarrow> wrap64 x = x"
  unfolding wrap64_def by simp

lemma effectiveWeight_range: "1 \<le> effectiveWeight t" "effectiveWeight t \<le> 100"
  by (simp_all add: effectiveWeight_def)

lemma effectiveWeight_pos [simp]: "0 < effectiveWeight t"
  using effectiveWeight_range(1) [of t] by linarith

lemma weightSum_bounds: "int (length hs) \<le> weightSum hs" "weightSum hs \<le> 100 * int (length hs)"
proof -
  have "int (length hs) \<le> weightSum hs \<and> weightSum hs \<le> 100 * int (length hs)"
  proof (induction hs)
    case (Cons t ts)
    then show ?case using effectiveWeight_range [of t] by (simp add: weightSum_def)
  qed (simp add: weightSum_def)
  then show "int (length hs) \<le> weightSum hs" "weightSum hs \<le> 100 * int (length hs)" by simp_all
qed

lemma weightSum_ge: "t \<in> set hs \<Longrightarrow> effectiveWeight t \<le> weightSum hs"
  unfolding weightSum_def
  by (rule member_le_sum_list) (auto simp: less_imp_le)

lemma totalWeight_eq:
  assumes "0 \<le> s" and "s + weightSum hs < 2 ^ 63"
  shows "totalWeight s hs = s + weightSum hs"
  using assms
proof (induction hs arbitrary: s)
  case (Cons t ts)
  have "0 \<le> weightSum ts" using weightSum_bounds(1) [of ts] by linarith
  with Cons.prems have range: "0 \<le> s + effectiveWeight t" "s + effectiveWeight t + weightSum ts < 2 ^ 63"
    using effectiveWeight_pos [of t] by (simp_all add: weightSum_def less_imp_le)
  with \<open>0 \<le> weightSum ts\<close> have "wrap64 (s + effectiveWeight t) = s + effectiveWeight t"
    by (intro wrap64_id) linarith+
  with Cons.IH [OF range] show ?case by (simp add: weightSum_def)
qed (simp add: weightSum_def)

text \<open>One pass of the loop adds every weight and returns a backend of maximal score.\<close>

lemma scoreLoop_spec:
  assumes "distinct (map tHost hs)"
    and "\<forall>t\<in>set hs. lo < wrrGet m (tHost t) + effectiveWeight t \<and>
                     wrrGet m (tHost t) + effectiveWeight t < 2 ^ 63"
    and "- (2 ^ 63) \<le> lo" and "lo \<le> bs"
    and "scoreLoop hs b bs m = (best, m')"
  shows "(\<forall>t\<in>set hs. wrrGet m' (tHost t) = wrrGet m (tHost t) + effectiveWeight t) \<and>
         (\<forall>h. h \<notin> tHost ` set hs \<longrightarrow> m' h = m h) \<and>
         ((best = b \<and> (\<forall>t\<in>set hs. wrrGet m (tHost t) + effectiveWeight t \<le> bs)) \<or>
          (\<exists>u\<in>set hs. best = tHost u \<and> bs < wrrGet m (tHost u) + effectiveWeight u \<and>
             (\<forall>t\<in>set hs. wrrGet m (tHost t) + effectiveWeight t \<le> wrrGet m (tHost u) + effectiveWeight u)))"
  using assms
proof (induction hs arbitrary: b bs m)
  case (Cons t ts)
  let ?score = "wrrGet m (tHost t) + effectiveWeight t"
  define m1 where "m1 = m(tHost t \<mapsto> ?score)"
  have score: "lo < ?score" "?score < 2 ^ 63" using Cons.prems(2) by simp_all
  then have wrap: "wrap64 ?score = ?score"
    using Cons.prems(3) by (intro wrap64_id) auto
  have fresh: "tHost t \<notin> tHost ` set ts" using Cons.prems(1) by simp
  have other: "wrrGet m1 (tHost u) = wrrGet m (tHost u)" if "u \<in> set ts" for u
  proof -
    have "tHost u \<noteq> tHost t" using fresh that by (metis image_eqI)
    then show ?thesis by (simp add: wrrGet_def m1_def)
  qed
  have same: "wrrGet m' (tHost t) = ?score" if "m' (tHost t) = m1 (tHost t)" for m'
    using that by (simp add: wrrGet_def m1_def)
  let ?b = "if bs < ?score then tHost t else b" and ?bs = "if bs < ?score then ?score else bs"
  have run: "scoreLoop ts ?b ?bs m1 = (best, m')"
    using Cons.prems(5) by (simp add: wrap Let_def m1_def split: if_splits)
  have prems: "distinct (map tHost ts)" "lo \<le> ?bs"
    "\<forall>u\<in>set ts. lo < wrrGet m1 (tHost u) + effectiveWeight u \<and>
               wrrGet m1 (tHost u) + effectiveWeight u < 2 ^ 63"
    using Cons.prems other by auto
  note IH = Cons.IH [OF prems(1) prems(3) Cons.prems(3) prems(2) run]
  have "wrrGet m' (tHost t) = ?score" using IH fresh by (intro same) blast
  moreover have "\<forall>u\<in>set ts. wrrGet m' (tHost u) = wrrGet m (tHost u) + effectiveWeight u"
    using IH other by simp
  moreover have "\<forall>h. h \<notin> tHost ` set (t # ts) \<longrightarrow> m' h = m h"
    using IH by (auto simp: m1_def)
  moreover have "(best = ?b \<and> (\<forall>u\<in>set ts. wrrGet m (tHost u) + effectiveWeight u \<le> ?bs)) \<or>
          (\<exists>v\<in>set ts. best = tHost v \<and> ?bs < wrrGet m (tHost v) + effectiveWeight v \<and>
             (\<forall>u\<in>set ts. wrrGet m (tHost u) + effectiveWeight u \<le> wrrGet m (tHost v) + effectiveWeight v))"
    using IH other by auto
  ultimately show ?case by (auto split: if_splits)
qed auto

text \<open>
  The invariant of the schedule after \<open>k\<close> requests of which \<open>n h\<close> went to \<open>h\<close>: the counter of a
  backend is its exact share minus what it was given, and no backend is a whole request ahead.
\<close>

definition wrrInv :: "target list \<Rightarrow> nat \<Rightarrow> (string \<Rightarrow> nat) \<Rightarrow> (string \<rightharpoonup> int) \<Rightarrow> bool" where
  "wrrInv hs k n m \<longleftrightarrow>
     (\<forall>t\<in>set hs. wrrGet m (tHost t) = int k * effectiveWeight t - weightSum hs * int (n (tHost t)) \<and>
                 - weightSum hs < wrrGet m (tHost t)) \<and>
     sum_list (map (\<lambda>t. int (n (tHost t))) hs) = int k"

lemma sum_list_bound:
  fixes xs :: "int list"
  assumes "0 \<le> b" and "\<forall>y\<in>set xs. - b < y" and "x \<in> set xs"
  shows "x \<le> sum_list xs + b * int (length xs)"
proof -
  have nonneg: "0 \<le> sum_list ys + b * int (length ys)" if "\<forall>y\<in>set ys. - b < y" for ys
    using that by (induction ys) (auto simp: algebra_simps)
  from assms(2,3) show ?thesis
  proof (induction xs)
    case (Cons y ys)
    show ?case
    proof (cases "x = y")
      case True
      with nonneg [of ys] Cons.prems(1) assms(1) show ?thesis by (simp add: algebra_simps)
    next
      case False
      with Cons show ?thesis by (auto simp: algebra_simps)
    qed
  qed simp
qed

lemma wrrInv_sum:
  assumes "wrrInv hs k n m"
  shows "sum_list (map (\<lambda>t. wrrGet m (tHost t)) hs) = 0"
proof -
  have "sum_list (map (\<lambda>t. wrrGet m (tHost t)) hs) =
        sum_list (map (\<lambda>t. int k * effectiveWeight t - weightSum hs * int (n (tHost t))) hs)"
    using assms by (intro arg_cong [where f = sum_list]) (auto simp: wrrInv_def)
  moreover have "sum_list (map (\<lambda>t. int k * effectiveWeight t - weightSum hs * int (n (tHost t))) hs)
        = int k * weightSum hs - weightSum hs * sum_list (map (\<lambda>t. int (n (tHost t))) hs)"
    by (simp add: sum_list_subtractf sum_list_const_mult weightSum_def)
  ultimately show ?thesis using assms by (simp add: wrrInv_def)
qed

lemma wrrInv_range:
  assumes inv: "wrrInv hs k n m" and t: "t \<in> set hs"
  shows "wrrGet m (tHost t) \<le> weightSum hs * int (length hs)"
proof -
  let ?xs = "map (\<lambda>t. wrrGet m (tHost t)) hs"
  have "wrrGet m (tHost t) \<le> sum_list ?xs + weightSum hs * int (length ?xs)"
    using inv t weightSum_bounds(1) [of hs]
    by (intro sum_list_bound) (auto simp: wrrInv_def)
  with wrrInv_sum [OF inv] show ?thesis by simp
qed

lemma wrrInv_positive:
  assumes inv: "wrrInv hs k n m" and "hs \<noteq> []"
  shows "\<exists>t\<in>set hs. 0 < wrrGet m (tHost t) + effectiveWeight t"
proof (rule ccontr)
  assume "\<not> ?thesis"
  then have "sum_list (map (\<lambda>t. wrrGet m (tHost t) + effectiveWeight t) hs) \<le> 0"
    by (intro sum_list_nonpos) (auto simp: not_less)
  then have "weightSum hs \<le> 0"
    using wrrInv_sum [OF inv] by (simp add: sum_list_addf weightSum_def)
  with weightSum_bounds(1) [of hs] assms(2) show False by (cases hs) auto
qed

definition smallSet :: "target list \<Rightarrow> bool" where
  "smallSet hs \<longleftrightarrow> length hs \<le> 2 ^ 20"

lemma smallSet_bounds:
  assumes "smallSet hs"
  shows "weightSum hs * int (length hs) + 100 < 2 ^ 63" "weightSum hs < 2 ^ 62"
proof -
  have len: "int (length hs) \<le> 2 ^ 20" using assms by (simp add: smallSet_def)
  then have sum: "weightSum hs \<le> 100 * 2 ^ 20" using weightSum_bounds(2) [of hs] by linarith
  then have "weightSum hs * int (length hs) \<le> (100 * 2 ^ 20) * 2 ^ 20"
    using len by (intro mult_mono) auto
  then show "weightSum hs * int (length hs) + 100 < 2 ^ 63" by simp
  show "weightSum hs < 2 ^ 62" using sum by simp
qed

lemma sum_list_fun_upd:
  fixes n :: "string \<Rightarrow> nat"
  assumes "distinct (map tHost hs)" and "u \<in> set hs"
  shows "sum_list (map (\<lambda>t. int ((n(tHost u := Suc (n (tHost u)))) (tHost t))) hs) =
         sum_list (map (\<lambda>t. int (n (tHost t))) hs) + 1"
  using assms
proof (induction hs)
  case (Cons t ts)
  show ?case
  proof (cases "t = u")
    case True
    with Cons.prems have "tHost v \<noteq> tHost u" if "v \<in> set ts" for v using that by (metis distinct.simps(2) image_eqI list.set_map list.simps(9))
    then have "sum_list (map (\<lambda>t. int ((n(tHost u := Suc (n (tHost u)))) (tHost t))) ts) =
               sum_list (map (\<lambda>t. int (n (tHost t))) ts)"
      by (intro arg_cong [where f = sum_list]) auto
    with True show ?thesis by simp
  next
    case False
    with Cons.prems have "u \<in> set ts" "tHost t \<noteq> tHost u" by auto
    with Cons show ?thesis by simp
  qed
qed simp

lemma pickWeighted_step:
  assumes inv: "wrrInv hs k n m" and wrr: "pxWrr p = Some m"
    and dist: "distinct (map tHost hs)" and ne: "hs \<noteq> []" and small: "smallSet hs"
  shows "\<exists>u\<in>set hs. \<exists>m'. pickWeighted hs p = Some (tHost u, p\<lparr>pxWrr := Some m'\<rparr>) \<and>
           wrrInv hs (Suc k) (n(tHost u := Suc (n (tHost u)))) m'"
proof -
  let ?T = "weightSum hs"
  note bounds = smallSet_bounds [OF small] weightSum_bounds(1) [of hs]
  obtain best m1 where run: "scoreLoop hs '''' minInt64 m = (best, m1)" by fastforce
  have range: "\<forall>t\<in>set hs. minInt64 < wrrGet m (tHost t) + effectiveWeight t \<and>
                     wrrGet m (tHost t) + effectiveWeight t < 2 ^ 63"
  proof
    fix t assume t: "t \<in> set hs"
    have "- ?T < wrrGet m (tHost t)" using inv t unfolding wrrInv_def by blast
    then show "minInt64 < wrrGet m (tHost t) + effectiveWeight t \<and> wrrGet m (tHost t) + effectiveWeight t < 2 ^ 63"
      using wrrInv_range [OF inv t] bounds effectiveWeight_range [of t] by (auto simp: minInt64_def)
  qed
  note spec = scoreLoop_spec [OF dist range _ order_refl run, simplified minInt64_def, simplified]
  obtain t0 where t0: "t0 \<in> set hs" "0 < wrrGet m (tHost t0) + effectiveWeight t0"
    using wrrInv_positive [OF inv ne] by blast
  obtain u where u: "u \<in> set hs" "best = tHost u"
    and top: "\<forall>t\<in>set hs. wrrGet m (tHost t) + effectiveWeight t \<le> wrrGet m (tHost u) + effectiveWeight u"
    using spec t0 by force
  have score: "wrrGet m1 (tHost t) = wrrGet m (tHost t) + effectiveWeight t" if "t \<in> set hs" for t
    using spec that by blast
  have pos: "0 < wrrGet m1 (tHost u)" using top t0 score u by force
  define m' where "m' = m1(tHost u \<mapsto> wrrGet m1 (tHost u) - ?T)"
  have "wrrGet m1 (tHost u) < 2 ^ 63" using range u score by simp
  then have wrap: "wrap64 (wrrGet m1 (tHost u) - ?T) = wrrGet m1 (tHost u) - ?T"
    using pos bounds by (intro wrap64_id) auto
  have total: "totalWeight 0 hs = ?T" using totalWeight_eq [of 0 hs] bounds by simp
  have pick: "pickWeighted hs p = Some (tHost u, p\<lparr>pxWrr := Some m'\<rparr>)"
    unfolding pickWeighted_def wrr by (simp add: run total u(2) wrap m'_def)
  have get: "wrrGet m' (tHost t) = wrrGet m (tHost t) + effectiveWeight t - (if tHost t = tHost u then ?T else 0)"
    if "t \<in> set hs" for t
  proof (cases "tHost t = tHost u")
    case True
    with dist that u(1) have "t = u" by (metis distinct_map inj_onD)
    then show ?thesis using score [OF that] by (simp add: m'_def wrrGet_def)
  next
    case False
    then show ?thesis using score [OF that] by (simp add: m'_def wrrGet_def)
  qed
  let ?n = "n(tHost u := Suc (n (tHost u)))"
  have "wrrGet m' (tHost t) = int (Suc k) * effectiveWeight t - ?T * int (?n (tHost t)) \<and> - ?T < wrrGet m' (tHost t)"
    if t: "t \<in> set hs" for t
  proof -
    have c: "wrrGet m (tHost t) = int k * effectiveWeight t - ?T * int (n (tHost t))" "- ?T < wrrGet m (tHost t)"
      using inv t unfolding wrrInv_def by blast+
    have "- ?T < wrrGet m' (tHost t)"
      using get [OF t] pos score [OF t] c(2) effectiveWeight_range(1) [of t] by (auto split: if_splits)
    with get [OF t] c(1) show ?thesis by (auto simp: algebra_simps)
  qed
  moreover have "sum_list (map (\<lambda>t. int (?n (tHost t))) hs) = int (Suc k)"
    using inv unfolding sum_list_fun_upd [OF dist u(1)] by (simp add: wrrInv_def)
  ultimately have "wrrInv hs (Suc k) ?n m'" unfolding wrrInv_def by blast
  with pick u(1) show ?thesis by blast
qed

lemma pickMany_inv:
  assumes "pxWrr p = Some Map.empty" "distinct (map tHost hs)" "hs \<noteq> []" "smallSet hs"
  shows "\<exists>picks m. pickMany k hs p = Some (picks, p\<lparr>pxWrr := Some m\<rparr>) \<and> length picks = k \<and>
           set picks \<subseteq> tHost ` set hs \<and> wrrInv hs k (count_list picks) m"
proof (induction k)
  case 0
  have "0 < weightSum hs" using weightSum_bounds(1) [of hs] assms(3) by (cases hs) auto
  then have "wrrInv hs 0 (\<lambda>_. 0) (\<lambda>_. None)"
    by (simp add: wrrInv_def wrrGet_def)
  moreover have "pickMany 0 hs p = Some ([], p\<lparr>pxWrr := Some Map.empty\<rparr>)" using assms(1) by simp
  ultimately show ?case by (intro exI [of _ "[]"] exI [of _ Map.empty]) auto
next
  case (Suc k)
  then obtain picks m where IH: "pickMany k hs p = Some (picks, p\<lparr>pxWrr := Some m\<rparr>)" "length picks = k"
    "set picks \<subseteq> tHost ` set hs" "wrrInv hs k (count_list picks) m" by blast
  obtain u m' where u: "u \<in> set hs"
    and step: "pickWeighted hs (p\<lparr>pxWrr := Some m\<rparr>) = Some (tHost u, p\<lparr>pxWrr := Some m'\<rparr>)"
    and inv: "wrrInv hs (Suc k) ((count_list picks)(tHost u := Suc (count_list picks (tHost u)))) m'"
    using pickWeighted_step [OF IH(4) _ assms(2-4), of "p\<lparr>pxWrr := Some m\<rparr>"] by auto
  have "count_list (picks @ [tHost u]) = (count_list picks)(tHost u := Suc (count_list picks (tHost u)))"
    by (rule ext) simp
  with inv have inv': "wrrInv hs (Suc k) (count_list (picks @ [tHost u])) m'" by (simp only:)
  show ?case
    by (rule exI [of _ "picks @ [tHost u]"], rule exI [of _ m'], intro conjI inv')
      (use IH u step in auto)
qed

lemma addlTargets_id:
  "distinct (map tHost ts) \<Longrightarrow> '''' \<notin> tHost ` set ts \<Longrightarrow> tHost ` set ts \<inter> seen = {} \<Longrightarrow> addlTargets seen ts = ts"
  by (induction seen ts rule: addlTargets.induct) auto

lemma addlTargets_props:
  "distinct (map tHost (addlTargets seen ts))" "set (addlTargets seen ts) \<subseteq> set ts"
  "tHost ` set (addlTargets seen ts) \<inter> seen = {}" "'''' \<notin> tHost ` set (addlTargets seen ts)"
  "length (addlTargets seen ts) \<le> length ts"
  by (induction seen ts rule: addlTargets.induct) (auto simp: le_Suc_eq)

lemma SetTarget_targets [simp]:
  "psTargets (pxState (SetTarget prim addl p)) = prim # addlTargets {tHost prim} addl"
  "psPrimary (pxState (SetTarget prim addl p)) = prim"
  "pxWrr (SetTarget prim addl p) = Some Map.empty"
  by (simp_all add: SetTarget_def)

lemma wrrInv_round:
  assumes inv: "wrrInv hs k n m" and round: "int k = int r * weightSum hs" and ne: "hs \<noteq> []"
  shows "\<forall>t\<in>set hs. int (n (tHost t)) = int r * effectiveWeight t"
proof -
  let ?d = "\<lambda>t. int r * effectiveWeight t - int (n (tHost t))"
  have T: "0 < weightSum hs" using weightSum_bounds(1) [of hs] ne by (cases hs) auto
  have "0 \<le> ?d t" if "t \<in> set hs" for t
  proof -
    have "- weightSum hs < int k * effectiveWeight t - weightSum hs * int (n (tHost t))"
      using inv that unfolding wrrInv_def by metis
    then have "weightSum hs * (- 1) < weightSum hs * ?d t" by (simp add: round algebra_simps)
    with T have "- 1 < ?d t" by (simp only: mult_less_cancel_left_pos)
    then show ?thesis by simp
  qed
  moreover have "sum_list (map ?d hs) = 0"
    using inv round by (simp add: sum_list_subtractf sum_list_const_mult weightSum_def wrrInv_def)
  ultimately have "\<forall>x\<in>set (map ?d hs). x = 0"
    by (subst (asm) sum_list_nonneg_eq_0_iff) auto
  then show ?thesis by auto
qed

text \<open>
  C8: The weighted schedule serves exact shares.  From the counters a membership change leaves, with
  the same backends healthy, any number of consecutive requests is scheduled without a panic, every
  one to an enrolled healthy backend; at no point is a backend a whole request ahead of its exact
  share; and after a whole number \<open>r\<close> of rounds each backend has served exactly \<open>r\<close> times its
  weight, so a 95/5 split is served as 95 and 5 of every 100 requests and no backend starves.
\<close>
theorem weighted_schedule_exact:
  assumes "smallSet (prim # rest)" and "hs = psTargets (pxState (SetTarget prim rest p))"
  shows "\<exists>picks q. pickMany k hs (SetTarget prim rest p) = Some (picks, q) \<and> length picks = k \<and>
           set picks \<subseteq> tHost ` set hs \<and>
           (\<forall>t\<in>set hs. weightSum hs * int (count_list picks (tHost t)) < int k * effectiveWeight t + weightSum hs) \<and>
           (\<forall>r. int k = int r * weightSum hs \<longrightarrow>
                (\<forall>t\<in>set hs. int (count_list picks (tHost t)) = int r * effectiveWeight t))"
proof -
  have hs: "hs = prim # addlTargets {tHost prim} rest" "hs \<noteq> []" using assms(2) by simp_all
  have dist: "distinct (map tHost hs)"
    using addlTargets_props(1,3) [of "{tHost prim}" rest] by (auto simp: hs(1))
  have small: "smallSet hs"
    using assms(1) addlTargets_props(5) [of "{tHost prim}" rest] by (simp add: hs(1) smallSet_def)
  obtain picks m where run: "pickMany k hs (SetTarget prim rest p) =
      Some (picks, (SetTarget prim rest p)\<lparr>pxWrr := Some m\<rparr>)" "length picks = k"
      "set picks \<subseteq> tHost ` set hs" and inv: "wrrInv hs k (count_list picks) m"
    using pickMany_inv [OF SetTarget_targets(3) dist hs(2) small] by blast
  have "weightSum hs * int (count_list picks (tHost t)) < int k * effectiveWeight t + weightSum hs"
    if "t \<in> set hs" for t
    using inv that unfolding wrrInv_def by force
  then show ?thesis using run wrrInv_round [OF inv _ hs(2)] by blast
qed

definition demoTargets :: "target list" where
  "demoTargets = [\<lparr>tHost = ''a'', tLabel = ''stable'', tWeight = 95\<rparr>, \<lparr>tHost = ''b'', tLabel = ''canary'', tWeight = 5\<rparr>]"

theorem weighted_schedule_exact_witness:
  "\<exists>picks q. pickMany 200 demoTargets (SetTarget (demoTargets ! 0) (tl demoTargets) (NewProxy ''app'' 8080 (demoTargets ! 0)))
       = Some (picks, q) \<and> count_list picks ''a'' = 190 \<and> count_list picks ''b'' = 10"
proof -
  let ?p = "NewProxy ''app'' 8080 (demoTargets ! 0)"
  have small: "smallSet (demoTargets ! 0 # tl demoTargets)" by (simp add: smallSet_def demoTargets_def)
  have hs: "demoTargets = psTargets (pxState (SetTarget (demoTargets ! 0) (tl demoTargets) ?p))" by code_simp
  have w: "int 200 = int 2 * weightSum demoTargets" by code_simp
  obtain picks q where run: "pickMany 200 demoTargets (SetTarget (demoTargets ! 0) (tl demoTargets) ?p) = Some (picks, q)"
      and rounds: "\<forall>r. int 200 = int r * weightSum demoTargets \<longrightarrow>
             (\<forall>t\<in>set demoTargets. int (count_list picks (tHost t)) = int r * effectiveWeight t)"
    using weighted_schedule_exact [OF small hs, of 200] by blast
  have "\<forall>t\<in>set demoTargets. int (count_list picks (tHost t)) = int 2 * effectiveWeight t"
    using rounds w by blast
  then have "count_list picks ''a'' = 190 \<and> count_list picks ''b'' = 10"
    by (simp add: demoTargets_def effectiveWeight_def)
  with run show ?thesis by blast
qed

section \<open>Routing\<close>

text \<open>
  What every proxy the daemon owns satisfies: the primary heads the backend set, no host occurs
  twice, and a set of several backends has an allocated schedule (a nil one would panic).
\<close>

definition proxyWf :: "proxy \<Rightarrow> bool" where
  "proxyWf p \<longleftrightarrow>
     (\<exists>rest. psTargets (pxState p) = psPrimary (pxState p) # rest) \<and>
     distinct (map tHost (psTargets (pxState p))) \<and>
     '''' \<notin> tHost ` set (tl (psTargets (pxState p))) \<and>
     (length (psTargets (pxState p)) > 1 \<longrightarrow> pxWrr p \<noteq> None)"

lemma NewProxy_wf: "proxyWf (NewProxy app port prim)"
  by (simp add: proxyWf_def NewProxy_def)

lemma SetTarget_wf: "proxyWf (SetTarget prim addl p)"
  using addlTargets_props(1,3,4) [of "{tHost prim}" addl] by (auto simp: proxyWf_def)

text \<open>The verdict a request made at \<open>now\<close> uses for a host, and how fresh it is.\<close>

definition verdict :: "(string \<Rightarrow> bool) \<Rightarrow> int \<Rightarrow> proxy \<Rightarrow> string \<Rightarrow> bool" where
  "verdict dial now p h = fst (hostLive dial now h p)"

lemma verdict_fresh:
  "verdict dial now p h \<Longrightarrow>
     dial h \<or> (\<exists>r. pxLive p h = Some r \<and> lrOk r \<and> now - lrAt r < livePassTTL)"
  by (auto simp: verdict_def hostLive_def Let_def split: option.splits if_splits)

lemma hostLive_frame:
  assumes "hostLive dial now h p = (live, p')"
  shows "pxState p' = pxState p" "pxWrr p' = pxWrr p" "g \<noteq> h \<Longrightarrow> pxLive p' g = pxLive p g"
  using assms by (auto simp: hostLive_def Let_def split: option.splits if_splits)

lemma filterLive_eq:
  assumes "distinct (map tHost ts)" and "filterLive dial now ts p = (healthy, p')"
  shows "healthy = filter (\<lambda>t. verdict dial now p (tHost t)) ts \<and> pxState p' = pxState p \<and> pxWrr p' = pxWrr p"
  using assms
proof (induction ts arbitrary: p healthy)
  case (Cons t ts)
  obtain live p1 where one: "hostLive dial now (tHost t) p = (live, p1)" by fastforce
  obtain rest p2 where more: "filterLive dial now ts p1 = (rest, p2)" by fastforce
  have IH: "rest = filter (\<lambda>u. verdict dial now p1 (tHost u)) ts" "pxState p2 = pxState p1" "pxWrr p2 = pxWrr p1"
    using Cons.IH [of p1 rest] Cons.prems more one by simp_all
  have "verdict dial now p1 (tHost u) = verdict dial now p (tHost u)" if "u \<in> set ts" for u
  proof -
    have "tHost u \<noteq> tHost t" using Cons.prems(1) that by (metis distinct.simps(2) image_eqI list.set_map list.simps(9))
    then show ?thesis using hostLive_frame(3) [OF one] by (simp add: verdict_def hostLive_def Let_def split: option.splits)
  qed
  then have "rest = filter (\<lambda>u. verdict dial now p (tHost u)) ts" using IH(1) by (metis (mono_tags, lifting) filter_cong)
  then show ?case
    using Cons.prems(2) one more IH(2,3) hostLive_frame(1,2) [OF one] by (auto simp: verdict_def)
qed simp

text \<open>The schedule counters are far from the ends of the 64-bit range.\<close>

definition countersInRange :: "proxy \<Rightarrow> bool" where
  "countersInRange p \<longleftrightarrow> (\<forall>m h. pxWrr p = Some m \<longrightarrow> \<bar>wrrGet m h\<bar> < 2 ^ 62)"

lemma pickWeighted_member:
  assumes "pxWrr p = Some m" and "countersInRange p" and "distinct (map tHost hs)" and "hs \<noteq> []"
  shows "\<exists>t\<in>set hs. \<exists>m'. pickWeighted hs p = Some (tHost t, p\<lparr>pxWrr := Some m'\<rparr>)"
proof -
  obtain best m1 where run: "scoreLoop hs '''' minInt64 m = (best, m1)" by fastforce
  have range: "\<forall>t\<in>set hs. minInt64 < wrrGet m (tHost t) + effectiveWeight t \<and>
                     wrrGet m (tHost t) + effectiveWeight t < 2 ^ 63"
  proof
    fix t :: target
    have "\<bar>wrrGet m (tHost t)\<bar> < 2 ^ 62" using assms(1,2) by (simp add: countersInRange_def)
    then show "minInt64 < wrrGet m (tHost t) + effectiveWeight t \<and> wrrGet m (tHost t) + effectiveWeight t < 2 ^ 63"
      using effectiveWeight_range [of t] by (auto simp: minInt64_def)
  qed
  have "best \<in> tHost ` set hs"
    using scoreLoop_spec [OF assms(3) range _ order_refl run] range assms(4)
    by (cases hs) (auto simp: minInt64_def)
  then show ?thesis using assms(1) run by (auto simp: pickWeighted_def)
qed

text \<open>
  Requests go to live backends.  A well-formed proxy serves every request without a panic, to a
  host of its backend set; as soon as one backend of several has a live verdict the chosen host has
  one, so a dead backend gets a request only when every backend looks dead; the backend set is
  unchanged and the proxy stays well-formed.
\<close>
theorem request_goes_to_live_backend:
  assumes "proxyWf p" and "countersInRange p"
  shows "\<exists>host route p'. Director dial now path p = Some ((host, route), p') \<and>
           host \<in> tHost ` set (psTargets (pxState p)) \<and>
           (length (psTargets (pxState p)) > 1 \<and>
              (\<exists>t\<in>set (psTargets (pxState p)). verdict dial now p (tHost t)) \<longrightarrow> verdict dial now p host) \<and>
           pxState p' = pxState p \<and> proxyWf p'"
proof (cases "length (psTargets (pxState p)) > 1")
  case False
  with assms(1) show ?thesis by (auto simp: Director_def proxyWf_def Let_def)
next
  case True
  let ?ts = "psTargets (pxState p)"
  from True assms(1) obtain m where m: "pxWrr p = Some m" by (auto simp: proxyWf_def)
  have dist: "distinct (map tHost ?ts)" and prim: "psPrimary (pxState p) \<in> set ?ts"
    using assms(1) by (auto simp: proxyWf_def)
  obtain healthy p1 where run: "filterLive dial now ?ts p = (healthy, p1)" by fastforce
  note h = filterLive_eq [OF dist run]
  have wf1: "proxyWf p1" and range1: "countersInRange p1"
    using assms h by (simp_all add: proxyWf_def countersInRange_def)
  have "\<exists>host p'. pickHealthyHost dial now (pxState p) p = Some (host, p') \<and> host \<in> tHost ` set ?ts \<and>
          ((\<exists>t\<in>set ?ts. verdict dial now p (tHost t)) \<longrightarrow> verdict dial now p host) \<and>
          pxState p' = pxState p \<and> proxyWf p'"
  proof (cases healthy)
    case Nil
    then have "\<not> (\<exists>t\<in>set ?ts. verdict dial now p (tHost t))" using h by (metis filter_empty_conv)
    moreover have "pickHealthyHost dial now (pxState p) p = Some (tHost (psPrimary (pxState p)), p1)"
      using True run Nil by (auto simp: pickHealthyHost_def)
    ultimately show ?thesis using prim wf1 h by blast
  next
    case (Cons t ts)
    show ?thesis
    proof (cases ts)
      case Nil
      have "t \<in> set healthy" using Cons by simp
      then have "t \<in> set ?ts \<and> verdict dial now p (tHost t)" using h by simp
      moreover have "pickHealthyHost dial now (pxState p) p = Some (tHost t, p1)"
        using True run Cons Nil by (auto simp: pickHealthyHost_def)
      ultimately show ?thesis using wf1 h by blast
    next
      case (Cons u us)
      have "distinct (map tHost healthy)" using h dist by (simp add: distinct_map_filter)
      then obtain v m' where v: "v \<in> set healthy"
        and pick: "pickWeighted healthy p1 = Some (tHost v, p1\<lparr>pxWrr := Some m'\<rparr>)"
        using pickWeighted_member [OF _ range1, of m healthy] m h \<open>healthy = t # ts\<close> by (metis list.distinct(1))
      have "v \<in> set ?ts \<and> verdict dial now p (tHost v)" using v h by simp
      moreover have "proxyWf (p1\<lparr>pxWrr := Some m'\<rparr>)" using wf1 by (simp add: proxyWf_def)
      moreover have "pickHealthyHost dial now (pxState p) p = Some (tHost v, p1\<lparr>pxWrr := Some m'\<rparr>)"
        using True run pick \<open>healthy = t # ts\<close> Cons by (auto simp: pickHealthyHost_def)
      moreover have "pxState (p1\<lparr>pxWrr := Some m'\<rparr>) = pxState p" using h by simp
      ultimately show ?thesis by blast
    qed
  qed
  then obtain host p' where "pickHealthyHost dial now (pxState p) p = Some (host, p')"
    and rest: "host \<in> tHost ` set ?ts" "(\<exists>t\<in>set ?ts. verdict dial now p (tHost t)) \<longrightarrow> verdict dial now p host"
      "pxState p' = pxState p" "proxyWf p'" by blast
  then have "Director dial now path p = Some ((host, singleJoiningSlash '''' path), p')"
    using True by (simp add: Director_def)
  with rest show ?thesis by blast
qed

theorem request_goes_to_live_backend_witness:
  "\<exists>route p'. Director (\<lambda>h. h = ''b'') 0 ''/'' (SetTarget (demoTargets ! 0) (tl demoTargets) (NewProxy ''app'' 8080 (demoTargets ! 0)))
       = Some ((''b'', route), p')"
proof -
  let ?p = "SetTarget (demoTargets ! 0) (tl demoTargets) (NewProxy ''app'' 8080 (demoTargets ! 0))"
  let ?dial = "\<lambda>h. h = ''b''"
  have wf: "proxyWf ?p" by (rule SetTarget_wf)
  have range: "countersInRange ?p" by (simp add: countersInRange_def wrrGet_def)
  have ts: "psTargets (pxState ?p) = demoTargets" by code_simp
  have live: "verdict ?dial 0 ?p ''a'' = False" "verdict ?dial 0 ?p ''b'' = True" by code_simp+
  obtain host route p' where run: "Director ?dial 0 ''/'' ?p = Some ((host, route), p')"
    and host: "host \<in> tHost ` set demoTargets"
    and alive: "length demoTargets > 1 \<and> (\<exists>t\<in>set demoTargets. verdict ?dial 0 ?p (tHost t)) \<longrightarrow> verdict ?dial 0 ?p host"
    using request_goes_to_live_backend [OF wf range, of ?dial 0 "''/''"] unfolding ts by blast
  have "verdict ?dial 0 ?p host" using alive live(2) by (simp add: demoTargets_def)
  with host live(1) have "host = ''b''" by (auto simp: demoTargets_def)
  with run show ?thesis by blast
qed

end
