(* ===== verification/ProxyDaemon.thy ===== *)
theory ProxyDaemon
  imports Proxy "HOL-Library.Multiset"
begin

text \<open>
  The proxy daemon (\<open>internal/proxy/control.go\<close>): one proxy per enrolled application, the state file
  it rewrites after every change and replays on start, the control requests it answers, and the
  client the deployment strategies call.  The map of proxies is an association list; whether a
  foreign process owns a port, the result of a dial and of the file write are given by an
  environment.  A control call may fail before the daemon saw it or after the daemon handled it.
\<close>

section \<open>The program\<close>

subsection \<open>The daemon\<close>

record persistedApp =
  paName :: string
  paPublicPort :: int
  paPrimary :: target
  paBackends :: "target list"
  paAccessLog :: string

datatype proxyStateFile = NoStateFile | CorruptStateFile | StateFile "persistedApp list"

record daemon =
  dmRunning :: bool
  dmProxies :: "(string \<times> proxy) list"
  dmFile :: proxyStateFile

record daemonEnv =
  dvPortFree :: "int \<Rightarrow> bool"
  dvDial :: "string \<Rightarrow> bool"
  dvPersist :: bool
  dvClose :: bool

definition startAppProxy :: "daemonEnv \<Rightarrow> proxy \<Rightarrow> daemon \<Rightarrow> (code, unit) result" where
  "startAppProxy env p d =
     (if dvPortFree env (pxPublicPort p) \<and>
         pxPublicPort p \<notin> set (map (pxPublicPort \<circ> snd) (dmProxies d))
      then Inr () else Inl CodePortUnavailable)"

definition snapshotPersist :: "daemon \<Rightarrow> persistedApp list" where
  "snapshotPersist d =
     sort_key paName
       (map (\<lambda>(name, p). \<lparr>paName = name, paPublicPort = pxPublicPort p,
                          paPrimary = psPrimary (pxState p), paBackends = psTargets (pxState p),
                          paAccessLog = pxAccessMode p\<rparr>)
          (dmProxies d))"

definition persistState :: "daemonEnv \<Rightarrow> daemon \<Rightarrow> daemon" where
  "persistState env d = (if dvPersist env then d\<lparr>dmFile := StateFile (snapshotPersist d)\<rparr> else d)"

definition newAppProxy :: "string \<Rightarrow> int \<Rightarrow> target \<Rightarrow> target list \<Rightarrow> string \<Rightarrow> proxy" where
  "newAppProxy appName publicPort prim backends accessMode =
     (let p = (NewProxy appName publicPort prim)\<lparr>pxAccessMode := accessMode\<rparr> in
      if backends \<noteq> [] then SetTarget prim backends p else p)"

definition EnrollApp ::
    "daemonEnv \<Rightarrow> string \<Rightarrow> int \<Rightarrow> target \<Rightarrow> target list \<Rightarrow> string \<Rightarrow> daemon \<Rightarrow> (code, unit) result \<times> daemon" where
  "EnrollApp env appName publicPort prim backends accessMode d =
     (if appName = '''' then (Inl CodeInvalidArgument, d)
      else if publicPort \<le> 0 then (Inl CodeInvalidArgument, d)
      else if tHost prim = '''' then (Inl CodeInvalidArgument, d)
      else
        let enrol = (let p = newAppProxy appName publicPort prim backends accessMode in
                     case startAppProxy env p d of
                       Inl e \<Rightarrow> (Inl e, d)
                     | Inr _ \<Rightarrow> (Inr (), persistState env (d\<lparr>dmProxies := AList.update appName p (dmProxies d)\<rparr>)))
        in case map_of (dmProxies d) appName of
             None \<Rightarrow> enrol
           | Some existing \<Rightarrow>
               if pxPublicPort existing = publicPort then
                 let p1 = SetTarget prim backends existing;
                     p2 = (if accessMode \<noteq> '''' then p1\<lparr>pxAccessMode := accessMode\<rparr> else p1)
                 in (Inr (), persistState env (d\<lparr>dmProxies := AList.update appName p2 (dmProxies d)\<rparr>))
               else enrol)"

definition SwitchApp ::
    "daemonEnv \<Rightarrow> string \<Rightarrow> target \<Rightarrow> target list \<Rightarrow> daemon \<Rightarrow> (code, unit) result \<times> daemon" where
  "SwitchApp env appName prim backends d =
     (case map_of (dmProxies d) appName of
        None \<Rightarrow> (Inl CodeInvalidArgument, d)
      | Some p \<Rightarrow>
          (Inr (), persistState env (d\<lparr>dmProxies := AList.update appName (SetTarget prim backends p) (dmProxies d)\<rparr>)))"

definition RemoveApp :: "daemonEnv \<Rightarrow> string \<Rightarrow> daemon \<Rightarrow> (code, unit) result \<times> daemon" where
  "RemoveApp env appName d =
     (case map_of (dmProxies d) appName of
        None \<Rightarrow> (Inr (), d)
      | Some p \<Rightarrow>
          let d1 = d\<lparr>dmProxies := AList.delete appName (dmProxies d)\<rparr> in
          if dvClose env then (Inr (), persistState env d1) else (Inl CodeUnknown, d1))"

subsection \<open>Restart\<close>

definition dialable :: "daemonEnv \<Rightarrow> string \<Rightarrow> bool" where
  "dialable env host \<longleftrightarrow> host \<noteq> '''' \<and> dvDial env host"

definition reconcileBackends :: "daemonEnv \<Rightarrow> target \<Rightarrow> target list \<Rightarrow> target \<times> target list" where
  "reconcileBackends env prim backends =
     (if backends = [] then (prim, backends)
      else
        let live = filter (\<lambda>b. dialable env (tHost b)) backends in
        if live = [] \<or> length live = length backends then (prim, backends)
        else (if dialable env (tHost prim) then prim else hd live, live))"

fun restoreLoop :: "daemonEnv \<Rightarrow> persistedApp list \<Rightarrow> daemon \<Rightarrow> string list \<times> daemon" where
  "restoreLoop env [] d = ([], d)"
| "restoreLoop env (app # apps) d =
     (if paName app = '''' \<or> paPublicPort app \<le> 0 \<or> tHost (paPrimary app) = '''' then restoreLoop env apps d
      else
        let (prim, backends) = reconcileBackends env (paPrimary app) (paBackends app);
            p = newAppProxy (paName app) (paPublicPort app) prim backends (paAccessLog app)
        in case startAppProxy env p d of
             Inl _ \<Rightarrow> (case restoreLoop env apps d of (lost, d') \<Rightarrow> (paName app # lost, d'))
           | Inr _ \<Rightarrow> restoreLoop env apps (d\<lparr>dmProxies := AList.update (paName app) p (dmProxies d)\<rparr>))"

definition restoreState :: "daemonEnv \<Rightarrow> daemon \<Rightarrow> daemon" where
  "restoreState env d =
     (case dmFile d of
        StateFile apps \<Rightarrow>
          (case restoreLoop env apps d of (lost, d') \<Rightarrow> if lost \<noteq> [] then persistState env d' else d')
      | _ \<Rightarrow> d)"

text \<open>A new daemon process finds only the file of its predecessor.\<close>

definition DaemonRun :: "daemonEnv \<Rightarrow> daemon \<Rightarrow> daemon" where
  "DaemonRun env d = restoreState env \<lparr>dmRunning = True, dmProxies = [], dmFile = dmFile d\<rparr>"

definition DaemonShutdown :: "daemon \<Rightarrow> daemon" where
  "DaemonShutdown d = d\<lparr>dmRunning := False, dmProxies := []\<rparr>"

subsection \<open>Control requests\<close>

record appStatus =
  asAppName :: string
  asPublicPort :: int
  asPrimary :: target
  asBackends :: "target list"

definition DaemonStatus :: "string \<Rightarrow> daemon \<Rightarrow> appStatus list" where
  "DaemonStatus appName d =
     map (\<lambda>(name, p). \<lparr>asAppName = name, asPublicPort = pxPublicPort p,
                        asPrimary = psPrimary (pxState p), asBackends = psTargets (pxState p)\<rparr>)
       (filter (\<lambda>(name, p). appName = '''' \<or> name = appName) (dmProxies d))"

definition DaemonStats :: "string \<Rightarrow> daemon \<Rightarrow> backendStat list" where
  "DaemonStats appName d =
     concat (map (\<lambda>(name, p). Stats p) (filter (\<lambda>(name, p). appName = '''' \<or> name = appName) (dmProxies d)))"

datatype op = OpSwitch | OpAdd | OpRemove | OpStatus | OpStats | OpPing | OpVersion | OpShutdown | OpOther string

record controlRequest =
  crOp :: op
  crAppName :: string
  crPublicPort :: int
  crPrimary :: "target option"
  crBackends :: "target list"
  crAccessLog :: string

record controlResponse =
  rsOK :: bool
  rsStatus :: "appStatus list"
  rsStats :: "backendStat list"
  rsVersion :: int

definition proxyProtoVersion :: int where
  "proxyProtoVersion = 3"

definition okResponse :: controlResponse where
  "okResponse = \<lparr>rsOK = True, rsStatus = [], rsStats = [], rsVersion = 0\<rparr>"

definition respond :: "(code, unit) result \<times> daemon \<Rightarrow> controlResponse \<times> daemon" where
  "respond r = (case r of (res, d) \<Rightarrow> (okResponse\<lparr>rsOK := isOk res\<rparr>, d))"

definition handleConn :: "daemonEnv \<Rightarrow> controlRequest \<Rightarrow> daemon \<Rightarrow> controlResponse \<times> daemon" where
  "handleConn env req d =
     (case crOp req of
        OpPing \<Rightarrow> (okResponse, d)
      | OpVersion \<Rightarrow> (okResponse\<lparr>rsVersion := proxyProtoVersion\<rparr>, d)
      | OpAdd \<Rightarrow>
          (case crPrimary req of
             None \<Rightarrow> (okResponse\<lparr>rsOK := False\<rparr>, d)
           | Some prim \<Rightarrow> respond (EnrollApp env (crAppName req) (crPublicPort req) prim (crBackends req) (crAccessLog req) d))
      | OpSwitch \<Rightarrow>
          (case crPrimary req of
             None \<Rightarrow> (okResponse\<lparr>rsOK := False\<rparr>, d)
           | Some prim \<Rightarrow> respond (SwitchApp env (crAppName req) prim (crBackends req) d))
      | OpRemove \<Rightarrow> respond (RemoveApp env (crAppName req) d)
      | OpStatus \<Rightarrow> (okResponse\<lparr>rsStatus := DaemonStatus (crAppName req) d\<rparr>, d)
      | OpStats \<Rightarrow> (okResponse\<lparr>rsStats := DaemonStats (crAppName req) d\<rparr>, d)
      | OpShutdown \<Rightarrow> (okResponse, DaemonShutdown d)
      | OpOther _ \<Rightarrow> (okResponse\<lparr>rsOK := False\<rparr>, d))"

subsection \<open>The client\<close>

datatype fault = NoFault | LostRequest | LostReply

definition Do :: "daemonEnv \<Rightarrow> fault \<Rightarrow> controlRequest \<Rightarrow> daemon \<Rightarrow> (code, controlResponse) result \<times> daemon" where
  "Do env flt req d =
     (if \<not> dmRunning d \<or> flt = LostRequest then (Inl CodeConnection, d)
      else case handleConn env req d of
             (resp, d') \<Rightarrow> (if flt = LostReply then Inl CodeConnection else Inr resp, d'))"

definition okOrProxyError :: "(code, controlResponse) result \<times> daemon \<Rightarrow> (code, controlResponse) result \<times> daemon" where
  "okOrProxyError r =
     (case r of (Inl e, d) \<Rightarrow> (Inl e, d)
      | (Inr resp, d) \<Rightarrow> (if rsOK resp then Inr resp else Inl CodeProxy, d))"

definition controlReq :: "op \<Rightarrow> string \<Rightarrow> controlRequest" where
  "controlReq k app = \<lparr>crOp = k, crAppName = app, crPublicPort = 0, crPrimary = None, crBackends = [], crAccessLog = ''''\<rparr>"

definition Client_Ping :: "daemonEnv \<Rightarrow> fault \<Rightarrow> daemon \<Rightarrow> (code, controlResponse) result \<times> daemon" where
  "Client_Ping env flt d = okOrProxyError (Do env flt (controlReq OpPing '''') d)"

definition Client_Add ::
    "daemonEnv \<Rightarrow> fault \<Rightarrow> string \<Rightarrow> string \<Rightarrow> int \<Rightarrow> target \<Rightarrow> target list \<Rightarrow> daemon
       \<Rightarrow> (code, controlResponse) result \<times> daemon" where
  "Client_Add env flt accessMode app port prim backends d =
     okOrProxyError (Do env flt
       ((controlReq OpAdd app)\<lparr>crPublicPort := port, crPrimary := Some prim, crBackends := backends,
                               crAccessLog := accessMode\<rparr>) d)"

definition Client_Switch ::
    "daemonEnv \<Rightarrow> fault \<Rightarrow> string \<Rightarrow> target \<Rightarrow> target list \<Rightarrow> daemon \<Rightarrow> (code, controlResponse) result \<times> daemon" where
  "Client_Switch env flt app prim backends d =
     okOrProxyError (Do env flt ((controlReq OpSwitch app)\<lparr>crPrimary := Some prim, crBackends := backends\<rparr>) d)"

definition Client_Remove :: "daemonEnv \<Rightarrow> fault \<Rightarrow> string \<Rightarrow> daemon \<Rightarrow> (code, controlResponse) result \<times> daemon" where
  "Client_Remove env flt app d = okOrProxyError (Do env flt (controlReq OpRemove app) d)"

definition Client_Status :: "daemonEnv \<Rightarrow> fault \<Rightarrow> string \<Rightarrow> daemon \<Rightarrow> (code, appStatus list) result \<times> daemon" where
  "Client_Status env flt app d =
     (case okOrProxyError (Do env flt (controlReq OpStatus app) d) of
        (Inl e, d') \<Rightarrow> (Inl e, d')
      | (Inr resp, d') \<Rightarrow> (Inr (rsStatus resp), d'))"

section \<open>The routing table\<close>

definition daemonWf :: "daemon \<Rightarrow> bool" where
  "daemonWf d \<longleftrightarrow>
     distinct (map fst (dmProxies d)) \<and>
     distinct (map (pxPublicPort \<circ> snd) (dmProxies d)) \<and>
     (\<forall>(name, p)\<in>set (dmProxies d). name \<noteq> '''' \<and> pxPublicPort p > 0 \<and> pxAppName p = name \<and> proxyWf p)"

text \<open>The backends an application's public port routes to, the primary first.\<close>

definition routeOf :: "string \<Rightarrow> daemon \<Rightarrow> target list option" where
  "routeOf app d = map_option (psTargets \<circ> pxState) (map_of (dmProxies d) app)"

lemma persistState_proxies [simp]:
  "dmProxies (persistState env d) = dmProxies d" "dmRunning (persistState env d) = dmRunning d"
  by (simp_all add: persistState_def)

lemma daemonWf_cong: "dmProxies d' = dmProxies d \<Longrightarrow> daemonWf d' = daemonWf d"
  by (simp add: daemonWf_def)

lemma daemonWf_persist [simp]: "daemonWf (persistState env d) = daemonWf d"
  by (rule daemonWf_cong) simp

lemma update_ports:
  assumes "distinct (map fst ps)" and "distinct (map (f \<circ> snd) ps)"
    and "\<And>k q. (k, q) \<in> set ps \<Longrightarrow> k \<noteq> app \<Longrightarrow> f q \<noteq> f p"
  shows "distinct (map (f \<circ> snd) (AList.update app p ps))"
  using assms
proof (induction ps)
  case (Cons kq ps)
  obtain k q where kq: "kq = (k, q)" by fastforce
  show ?case
  proof (cases "k = app")
    case True
    with Cons.prems kq show ?thesis by force
  next
    case False
    have "set (AList.update app p ps) \<subseteq> insert (app, p) (set ps)"
      by (induction ps) auto
    moreover have "f q \<noteq> f p" using Cons.prems(3) [of k q] kq False by simp
    ultimately have "f q \<notin> (f \<circ> snd) ` set (AList.update app p ps)" using Cons.prems(2) kq by auto
    moreover have "distinct (map (f \<circ> snd) (AList.update app p ps))"
      using Cons.prems by (intro Cons.IH) auto
    ultimately show ?thesis using False kq by (simp add: comp_def)
  qed
qed simp

lemma set_update: "set (AList.update k v ps) \<subseteq> insert (k, v) (set ps)"
  by (induction ps) auto

lemma set_delete: "set (AList.delete k ps) \<subseteq> set ps"
  by (auto simp: AList.delete_eq)

lemma daemonWf_update:
  assumes wf: "daemonWf d" and "app \<noteq> ''''" "pxPublicPort p > 0" "pxAppName p = app" "proxyWf p"
    and ports: "\<And>k q. (k, q) \<in> set (dmProxies d) \<Longrightarrow> k \<noteq> app \<Longrightarrow> pxPublicPort q \<noteq> pxPublicPort p"
    and d': "dmProxies d' = AList.update app p (dmProxies d)"
  shows "daemonWf d'"
proof -
  have "distinct (map (pxPublicPort \<circ> snd) (AList.update app p (dmProxies d)))"
    using wf ports by (intro update_ports) (auto simp: daemonWf_def)
  moreover have "\<forall>(name, q)\<in>set (AList.update app p (dmProxies d)).
      name \<noteq> '''' \<and> pxPublicPort q > 0 \<and> pxAppName q = name \<and> proxyWf q"
    using set_update [of app p "dmProxies d"] wf assms(2-5) by (fastforce simp: daemonWf_def)
  ultimately show ?thesis using wf unfolding daemonWf_def d' by (auto simp: distinct_update)
qed

lemma daemonWf_member: "daemonWf d \<Longrightarrow> map_of (dmProxies d) app = Some p \<Longrightarrow>
    (app, p) \<in> set (dmProxies d) \<and> app \<noteq> '''' \<and> pxPublicPort p > 0 \<and> pxAppName p = app \<and> proxyWf p"
  by (auto simp: daemonWf_def dest: map_of_SomeD)

lemma daemonWf_ports:
  assumes "daemonWf d" "(k, q) \<in> set (dmProxies d)" "(app, p) \<in> set (dmProxies d)" "k \<noteq> app"
  shows "pxPublicPort q \<noteq> pxPublicPort p"
proof
  assume "pxPublicPort q = pxPublicPort p"
  moreover have "inj_on (pxPublicPort \<circ> snd) (set (dmProxies d))"
    using assms(1) by (simp add: daemonWf_def distinct_map)
  ultimately have "(k, q) = (app, p)" using assms(2,3) by (metis comp_apply inj_onD snd_conv)
  with assms(4) show False by simp
qed

lemma SetTarget_fields [simp]:
  "pxPublicPort (SetTarget prim bs p) = pxPublicPort p" "pxAppName (SetTarget prim bs p) = pxAppName p"
  "pxAccessMode (SetTarget prim bs p) = pxAccessMode p"
  by (simp_all add: SetTarget_def)

lemma proxyWf_access [simp]: "proxyWf (p\<lparr>pxAccessMode := a\<rparr>) = proxyWf p"
  by (simp add: proxyWf_def)

lemma newAppProxy_fields [simp]:
  "pxPublicPort (newAppProxy app port prim bs acc) = port" "pxAppName (newAppProxy app port prim bs acc) = app"
  "pxAccessMode (newAppProxy app port prim bs acc) = acc" "proxyWf (newAppProxy app port prim bs acc)"
  by (simp_all add: newAppProxy_def NewProxy_def Let_def SetTarget_wf) (simp add: proxyWf_def)

lemma startAppProxy_free:
  "startAppProxy env p d = Inr () \<longleftrightarrow>
     dvPortFree env (pxPublicPort p) \<and> (\<forall>(k, q)\<in>set (dmProxies d). pxPublicPort q \<noteq> pxPublicPort p)"
  by (auto simp: startAppProxy_def image_iff) force+

lemma daemonWf_fresh:
  assumes wf: "daemonWf d" and "app \<noteq> ''''" "pxPublicPort p > 0" "pxAppName p = app" "proxyWf p"
    and "startAppProxy env p d = Inr ()"
  shows "daemonWf (d\<lparr>dmProxies := AList.update app p (dmProxies d)\<rparr>)"
proof (rule daemonWf_update [OF wf assms(2-5)])
  fix k q assume "(k, q) \<in> set (dmProxies d)"
  with assms(6) show "pxPublicPort q \<noteq> pxPublicPort p" by (auto simp: startAppProxy_free)
qed simp

lemma daemonWf_replace:
  assumes wf: "daemonWf d" and p: "map_of (dmProxies d) app = Some p"
    and "pxPublicPort q = pxPublicPort p" "pxAppName q = app" "proxyWf q"
  shows "daemonWf (d\<lparr>dmProxies := AList.update app q (dmProxies d)\<rparr>)"
proof (rule daemonWf_update [OF wf])
  fix k u assume "(k, u) \<in> set (dmProxies d)" "k \<noteq> app"
  with daemonWf_ports [OF wf] daemonWf_member [OF wf p] assms(3)
  show "pxPublicPort u \<noteq> pxPublicPort q" by metis
qed (use daemonWf_member [OF wf p] assms(3-5) in simp_all)

lemma EnrollApp_wf:
  assumes wf: "daemonWf d"
  shows "daemonWf (snd (EnrollApp env app port prim bs acc d))"
proof (cases "app = '''' \<or> port \<le> 0 \<or> tHost prim = ''''")
  case True
  with wf show ?thesis by (auto simp: EnrollApp_def)
next
  case False
  let ?p = "newAppProxy app port prim bs acc"
  have fresh: "daemonWf (snd (case startAppProxy env ?p d of Inl e \<Rightarrow> (Inl e, d)
      | Inr _ \<Rightarrow> (Inr (), persistState env (d\<lparr>dmProxies := AList.update app ?p (dmProxies d)\<rparr>))))"
    using wf False daemonWf_fresh [OF wf, of app ?p env]
    by (auto split: sum.split)
  have swap: "daemonWf (persistState env (d\<lparr>dmProxies := AList.update app q (dmProxies d)\<rparr>))"
    if "map_of (dmProxies d) app = Some p" "q = SetTarget prim bs p \<or> q = (SetTarget prim bs p)\<lparr>pxAccessMode := acc\<rparr>" for p q
    unfolding daemonWf_persist
    by (rule daemonWf_replace [OF wf that(1)]) (use that daemonWf_member [OF wf that(1)] in \<open>auto simp: SetTarget_wf\<close>)
  show ?thesis
    using False fresh swap by (auto simp: EnrollApp_def Let_def split: option.split)
qed

lemma SwitchApp_wf:
  assumes wf: "daemonWf d"
  shows "daemonWf (snd (SwitchApp env app prim bs d))"
proof (cases "map_of (dmProxies d) app")
  case (Some p)
  have "daemonWf (d\<lparr>dmProxies := AList.update app (SetTarget prim bs p) (dmProxies d)\<rparr>)"
    by (rule daemonWf_replace [OF wf Some]) (use daemonWf_member [OF wf Some] in \<open>auto simp: SetTarget_wf\<close>)
  with Some show ?thesis by (simp add: SwitchApp_def)
qed (simp add: SwitchApp_def wf)

lemma daemonWf_delete:
  assumes wf: "daemonWf d" and d': "dmProxies d' = AList.delete app (dmProxies d)"
  shows "daemonWf d'"
  using wf set_delete [of app "dmProxies d"] unfolding daemonWf_def d'
  by (auto simp: AList.distinct_delete AList.delete_eq distinct_map_filter)

lemma RemoveApp_wf:
  assumes wf: "daemonWf d"
  shows "daemonWf (snd (RemoveApp env app d))"
  using wf daemonWf_delete [OF wf, of "d\<lparr>dmProxies := AList.delete app (dmProxies d)\<rparr>" app]
  by (auto simp: RemoveApp_def Let_def split: option.split)

lemma DaemonShutdown_wf: "daemonWf (DaemonShutdown d)"
  by (simp add: daemonWf_def DaemonShutdown_def)

lemma handleConn_wf:
  assumes "daemonWf d"
  shows "daemonWf (snd (handleConn env req d))"
  using EnrollApp_wf [OF assms] SwitchApp_wf [OF assms] RemoveApp_wf [OF assms] DaemonShutdown_wf assms
  by (auto simp: handleConn_def respond_def split_beta split: op.split option.split)

lemma restoreLoop_wf:
  "daemonWf d \<Longrightarrow> daemonWf (snd (restoreLoop env apps d))"
proof (induction apps arbitrary: d)
  case (Cons app apps)
  obtain prim bs where rec: "reconcileBackends env (paPrimary app) (paBackends app) = (prim, bs)" by fastforce
  let ?p = "newAppProxy (paName app) (paPublicPort app) prim bs (paAccessLog app)"
  show ?case
  proof (cases "paName app = '''' \<or> paPublicPort app \<le> 0 \<or> tHost (paPrimary app) = ''''")
    case True
    with Cons show ?thesis by auto
  next
    case False
    have "daemonWf (d\<lparr>dmProxies := AList.update (paName app) ?p (dmProxies d)\<rparr>)"
      if "startAppProxy env ?p d = Inr ()"
      using daemonWf_fresh [OF Cons.prems _ _ _ _ that, of "paName app"] False by simp
    with False Cons show ?thesis
      by (auto simp: rec Let_def split_beta split: sum.split)
  qed
qed simp

lemma DaemonRun_wf: "daemonWf (DaemonRun env d)"
proof -
  let ?d = "\<lparr>dmRunning = True, dmProxies = [], dmFile = dmFile d\<rparr>"
  have empty: "daemonWf ?d" by (simp add: daemonWf_def)
  show ?thesis
    using empty restoreLoop_wf [OF empty, of env]
    by (auto simp: DaemonRun_def restoreState_def split_beta
        split: proxyStateFile.split)
qed

text \<open>A history of the daemon: control requests it answers, and restarts of its process.\<close>

datatype daemonEvent = Control controlRequest | Restart

fun daemonHistory :: "(daemonEnv \<times> daemonEvent) list \<Rightarrow> daemon \<Rightarrow> daemon" where
  "daemonHistory [] d = d"
| "daemonHistory ((env, Control req) # es) d = daemonHistory es (snd (handleConn env req d))"
| "daemonHistory ((env, Restart) # es) d = daemonHistory es (DaemonRun env d)"

text \<open>
  C23: The routing table stays well-formed.  Whatever control requests a daemon answers and however
  often its process restarts, with whatever file it finds, no two applications share a name or a
  public port, and every proxy has its primary at the head of a backend set without duplicate hosts
  and an allocated schedule whenever the set has several members.
\<close>
theorem daemon_routing_wf:
  "daemonWf (daemonHistory es (DaemonRun env d))"
proof -
  have "daemonWf (daemonHistory es d')" if "daemonWf d'" for d'
    using that by (induction es d' rule: daemonHistory.induct) (auto intro: handleConn_wf DaemonRun_wf)
  then show ?thesis using DaemonRun_wf by blast
qed

section \<open>Restart\<close>

text \<open>The proxy a restart builds from a file entry, and the route it serves.\<close>

definition restoredProxy :: "daemonEnv \<Rightarrow> persistedApp \<Rightarrow> proxy" where
  "restoredProxy env app =
     (let (prim, bs) = reconcileBackends env (paPrimary app) (paBackends app)
      in newAppProxy (paName app) (paPublicPort app) prim bs (paAccessLog app))"

definition persistedWf :: "persistedApp \<Rightarrow> bool" where
  "persistedWf app \<longleftrightarrow> paName app \<noteq> '''' \<and> paPublicPort app > 0 \<and> tHost (paPrimary app) \<noteq> ''''"

lemma restoredProxy_port [simp]: "pxPublicPort (restoredProxy env app) = paPublicPort app"
  by (simp add: restoredProxy_def split_beta)

lemma restoreLoop_all:
  assumes "\<forall>app\<in>set apps. persistedWf app \<and> dvPortFree env (paPublicPort app)"
    and "distinct (map paPublicPort apps)"
    and "\<forall>app\<in>set apps. \<forall>(k, q)\<in>set (dmProxies d). pxPublicPort q \<noteq> paPublicPort app"
    and "distinct (map paName apps)"
  shows "\<exists>d'. restoreLoop env apps d = ([], d') \<and> dmRunning d' = dmRunning d \<and> dmFile d' = dmFile d \<and>
           map_of (dmProxies d') = map_of (dmProxies d) ++ map_of (map (\<lambda>app. (paName app, restoredProxy env app)) apps)"
  using assms
proof (induction apps arbitrary: d)
  case (Cons app apps)
  let ?p = "restoredProxy env app"
  let ?d = "d\<lparr>dmProxies := AList.update (paName app) ?p (dmProxies d)\<rparr>"
  obtain prim bs where rec: "reconcileBackends env (paPrimary app) (paBackends app) = (prim, bs)" by fastforce
  have start: "startAppProxy env ?p d = Inr ()"
    using Cons.prems(1,3) by (auto simp: startAppProxy_free)
  have step: "restoreLoop env (app # apps) d = restoreLoop env apps ?d"
    using Cons.prems(1) start by (auto simp: persistedWf_def rec restoredProxy_def)
  have "\<forall>a\<in>set apps. \<forall>(k, q)\<in>set (dmProxies ?d). pxPublicPort q \<noteq> paPublicPort a"
  proof (intro ballI, clarify)
    fix a k q assume a: "a \<in> set apps" "(k, q) \<in> set (dmProxies ?d)" "pxPublicPort q = paPublicPort a"
    have "paPublicPort a \<noteq> paPublicPort app" using Cons.prems(2) a(1) by (auto dest: sym intro: rev_image_eqI)
    moreover have "(k, q) = (paName app, ?p) \<or> (k, q) \<in> set (dmProxies d)"
      using a(2) set_update [of "paName app" ?p "dmProxies d"] by auto
    ultimately show False using a(1,3) Cons.prems(3) by auto
  qed
  then obtain d' where IH: "restoreLoop env apps ?d = ([], d')" "dmRunning d' = dmRunning d" "dmFile d' = dmFile d"
    "map_of (dmProxies d') = map_of (dmProxies ?d) ++ map_of (map (\<lambda>app. (paName app, restoredProxy env app)) apps)"
    using Cons.IH [of ?d] Cons.prems by auto
  have "paName app \<notin> paName ` set apps" using Cons.prems(4) by simp
  then have "map_of (map (\<lambda>app. (paName app, restoredProxy env app)) apps) (paName app) = None"
    by (auto simp: map_of_eq_None_iff)
  then have "map_of (dmProxies d') = map_of (dmProxies d) ++ map_of (map (\<lambda>app. (paName app, restoredProxy env app)) (app # apps))"
    unfolding IH(4) by (auto simp: AList.update_conv' map_add_def fun_eq_iff split: option.split)
  with IH(1-3) step show ?case by metis
qed simp

lemma filter_full: "length (filter P xs) = length xs \<Longrightarrow> filter P xs = xs"
  by (metis filter_True length_filter_less less_irrefl)

text \<open>The route a restart is expected to serve: the dialable backends, or all when none is.\<close>

definition liveRoute :: "daemonEnv \<Rightarrow> target list \<Rightarrow> target list" where
  "liveRoute env ts =
     (let live = filter (\<lambda>b. dvDial env (tHost b)) ts in if live = [] then ts else live)"

lemma restored_route:
  assumes wf: "proxyWf p" and ne: "tHost (psPrimary (pxState p)) \<noteq> ''''"
    and app: "paPrimary app = psPrimary (pxState p)" "paBackends app = psTargets (pxState p)"
  shows "psTargets (pxState (restoredProxy env app)) = liveRoute env (psTargets (pxState p))"
    and "psPrimary (pxState (restoredProxy env app)) = hd (liveRoute env (psTargets (pxState p)))"
proof -
  obtain rest where ts: "psTargets (pxState p) = psPrimary (pxState p) # rest" using wf by (auto simp: proxyWf_def)
  let ?prim = "psPrimary (pxState p)"
  have dist: "distinct (map tHost (?prim # rest))" and nonempty: "'''' \<notin> tHost ` set (?prim # rest)"
    using wf ne unfolding proxyWf_def ts by auto
  have set_target: "prim # addlTargets {tHost prim} (prim # us) = prim # us"
    if "distinct (map tHost (prim # us))" "'''' \<notin> tHost ` set (prim # us)" for prim us
    using that by (simp add: addlTargets_id)
  have route: "psTargets (pxState (newAppProxy n pt prim (prim # us) acc)) = prim # us \<and>
      psPrimary (pxState (newAppProxy n pt prim (prim # us) acc)) = prim"
    if "distinct (map tHost (prim # us))" "'''' \<notin> tHost ` set (prim # us)" for n pt prim us acc
    using set_target [OF that] by (simp add: newAppProxy_def)
  let ?live = "filter (\<lambda>b. dvDial env (tHost b)) (?prim # rest)"
  have live: "filter (\<lambda>b. dialable env (tHost b)) (?prim # rest) = ?live"
    using nonempty by (intro filter_cong) (auto simp: dialable_def image_iff)
  have sub: "distinct (map tHost ?live)" "'''' \<notin> tHost ` set ?live"
    using dist nonempty by (auto simp: distinct_map_filter)
  have "reconcileBackends env ?prim (?prim # rest) = (hd (liveRoute env (?prim # rest)), liveRoute env (?prim # rest))"
  proof (cases "?live = [] \<or> length ?live = length (?prim # rest)")
    case True
    then have "?live = [] \<or> ?live = ?prim # rest" using filter_full by metis
    then have "liveRoute env (?prim # rest) = ?prim # rest"
      unfolding liveRoute_def Let_def by (metis (no_types, lifting))
    with True live show ?thesis by (simp add: reconcileBackends_def Let_def)
  next
    case False
    then have "liveRoute env (?prim # rest) = ?live" unfolding liveRoute_def Let_def by simp
    moreover have "dialable env (tHost ?prim) \<longleftrightarrow> dvDial env (tHost ?prim)"
      using ne by (simp add: dialable_def)
    moreover have "dvDial env (tHost ?prim) \<Longrightarrow> hd ?live = ?prim" by simp
    ultimately show ?thesis
      unfolding reconcileBackends_def Let_def live using False by auto
  qed
  moreover obtain u us where "liveRoute env (?prim # rest) = u # us" "distinct (map tHost (u # us))" "'''' \<notin> tHost ` set (u # us)"
    using sub dist nonempty unfolding liveRoute_def Let_def by (metis list.exhaust list.distinct(1))
  ultimately show "psTargets (pxState (restoredProxy env app)) = liveRoute env (psTargets (pxState p))"
    "psPrimary (pxState (restoredProxy env app)) = hd (liveRoute env (psTargets (pxState p)))"
    using route by (simp_all add: restoredProxy_def app ts)
qed

definition persistedOf :: "string \<times> proxy \<Rightarrow> persistedApp" where
  "persistedOf np =
     \<lparr>paName = fst np, paPublicPort = pxPublicPort (snd np), paPrimary = psPrimary (pxState (snd np)),
      paBackends = psTargets (pxState (snd np)), paAccessLog = pxAccessMode (snd np)\<rparr>"

lemma snapshotPersist_eq: "snapshotPersist d = sort_key paName (map persistedOf (dmProxies d))"
  by (auto simp: snapshotPersist_def persistedOf_def intro!: arg_cong [where f = "sort_key paName"])

lemma distinct_sort_key_map: "distinct (map f (sort_key k xs)) = distinct (map f xs)"
  by (rule mset_eq_imp_distinct_iff) simp

lemma map_of_perm:
  assumes "mset xs = mset ys" and "distinct (map fst xs)"
  shows "map_of xs = map_of ys"
proof -
  have "set xs = set ys" using assms(1) by (rule mset_eq_setD)
  moreover have "distinct (map fst ys)" using assms mset_eq_imp_distinct_iff [of "map fst xs" "map fst ys"] by simp
  ultimately show ?thesis using assms(2) by (metis map_of_inject_set)
qed

text \<open>Every host of the table is known by an address.\<close>

definition addressed :: "daemon \<Rightarrow> bool" where
  "addressed d \<longleftrightarrow> (\<forall>(name, p)\<in>set (dmProxies d). tHost (psPrimary (pxState p)) \<noteq> '''')"

lemma restart_table:
  assumes wf: "daemonWf d" and addr: "addressed d" and saved: "dmFile d = StateFile (snapshotPersist d)"
    and free: "\<forall>(name, p)\<in>set (dmProxies d). dvPortFree env (pxPublicPort p)"
  shows "map_of (dmProxies (DaemonRun env d)) app =
           map_option (\<lambda>p. restoredProxy env (persistedOf (app, p))) (map_of (dmProxies d) app)"
proof -
  let ?apps = "snapshotPersist d" and ?d = "\<lparr>dmRunning = True, dmProxies = [], dmFile = dmFile d\<rparr>"
  have mem: "\<exists>np\<in>set (dmProxies d). a = persistedOf np" if "a \<in> set ?apps" for a
    using that by (auto simp: snapshotPersist_eq)
  have "\<forall>a\<in>set ?apps. persistedWf a \<and> dvPortFree env (paPublicPort a)"
  proof
    fix a assume "a \<in> set ?apps"
    then obtain name p where np: "(name, p) \<in> set (dmProxies d)" "a = persistedOf (name, p)"
      using mem by (metis surj_pair)
    have "name \<noteq> '''' \<and> pxPublicPort p > 0" using wf np(1) by (auto simp: daemonWf_def)
    moreover have "tHost (psPrimary (pxState p)) \<noteq> ''''" using addr np(1) by (auto simp: addressed_def)
    moreover have "dvPortFree env (pxPublicPort p)" using free np(1) by auto
    ultimately show "persistedWf a \<and> dvPortFree env (paPublicPort a)"
      by (simp add: np(2) persistedWf_def persistedOf_def)
  qed
  moreover have "distinct (map paPublicPort ?apps)" "distinct (map paName ?apps)"
    using wf by (simp_all add: snapshotPersist_eq distinct_sort_key_map comp_def persistedOf_def daemonWf_def)
  ultimately obtain d' where run: "restoreLoop env ?apps ?d = ([], d')"
    and table: "map_of (dmProxies d') = map_of (map (\<lambda>a. (paName a, restoredProxy env a)) ?apps)"
    using restoreLoop_all [of ?apps env ?d] by auto
  let ?f = "\<lambda>np. (fst np, restoredProxy env (persistedOf np))"
  have "mset (map (\<lambda>a. (paName a, restoredProxy env a)) ?apps) = mset (map ?f (dmProxies d))"
    by (simp add: snapshotPersist_eq multiset.map_comp comp_def persistedOf_def)
  moreover have "distinct (map fst (map (\<lambda>a. (paName a, restoredProxy env a)) ?apps))"
    using \<open>distinct (map paName ?apps)\<close> by (simp add: comp_def)
  ultimately have "map_of (dmProxies d') = map_of (map ?f (dmProxies d))"
    unfolding table by (rule map_of_perm)
  moreover have "map_of (map ?f ps) app = map_option (\<lambda>p. restoredProxy env (persistedOf (app, p))) (map_of ps app)" for ps
    by (induction ps) auto
  ultimately show ?thesis
    using run by (simp add: DaemonRun_def restoreState_def saved)
qed

text \<open>
  A restarted daemon serves the routes of its predecessor.  When the last change reached the
  state file and no other process took a public port, the new process has exactly the applications
  of the old one, on the same public ports and with the same access-log mode; each routes to the
  backends that still accept connections, in the same order with the first one as primary, and to
  the unchanged set when none does.
\<close>
theorem restart_restores_routes:
  assumes "daemonWf d" and "addressed d" and "dmFile d = StateFile (snapshotPersist d)"
    and "\<forall>(name, p)\<in>set (dmProxies d). dvPortFree env (pxPublicPort p)"
  shows "routeOf app (DaemonRun env d) = map_option (liveRoute env) (routeOf app d) \<and>
         map_option (\<lambda>p. (pxPublicPort p, pxAccessMode p)) (map_of (dmProxies (DaemonRun env d)) app) =
           map_option (\<lambda>p. (pxPublicPort p, pxAccessMode p)) (map_of (dmProxies d) app) \<and>
         (\<forall>q. map_of (dmProxies (DaemonRun env d)) app = Some q \<longrightarrow>
              psPrimary (pxState q) = hd (psTargets (pxState q)))"
proof (cases "map_of (dmProxies d) app")
  case None
  then show ?thesis using restart_table [OF assms, of app] by (simp add: routeOf_def)
next
  case (Some p)
  let ?q = "restoredProxy env (persistedOf (app, p))"
  have "proxyWf p" "tHost (psPrimary (pxState p)) \<noteq> ''''"
    using daemonWf_member [OF assms(1) Some] assms(2) by (auto simp: addressed_def)
  note route = restored_route [OF this, of "persistedOf (app, p)" env]
  have "pxPublicPort ?q = pxPublicPort p" "pxAccessMode ?q = pxAccessMode p"
    by (simp_all add: restoredProxy_def persistedOf_def split_beta)
  then show ?thesis
    using restart_table [OF assms, of app] Some route by (simp add: routeOf_def persistedOf_def)
qed

definition demoDaemonEnv :: daemonEnv where
  "demoDaemonEnv = \<lparr>dvPortFree = (\<lambda>_. True), dvDial = (\<lambda>h. h = ''b''), dvPersist = True, dvClose = True\<rparr>"

definition demoDaemon :: daemon where
  "demoDaemon = snd (EnrollApp demoDaemonEnv ''app'' 8080 (demoTargets ! 0) (tl demoTargets) ''''
                       \<lparr>dmRunning = True, dmProxies = [], dmFile = NoStateFile\<rparr>)"

theorem restart_restores_routes_witness:
  "routeOf ''app'' demoDaemon = Some demoTargets \<and>
   routeOf ''app'' (DaemonRun demoDaemonEnv demoDaemon) = Some [demoTargets ! 1]"
proof -
  have wf: "daemonWf demoDaemon"
    unfolding demoDaemon_def by (rule EnrollApp_wf) (simp add: daemonWf_def)
  have addr: "addressed demoDaemon" by code_simp
  have saved: "dmFile demoDaemon = StateFile (snapshotPersist demoDaemon)" by code_simp
  have free: "\<forall>(name, p)\<in>set (dmProxies demoDaemon). dvPortFree demoDaemonEnv (pxPublicPort p)" by code_simp
  have old: "routeOf ''app'' demoDaemon = Some demoTargets" by code_simp
  have "liveRoute demoDaemonEnv demoTargets = [demoTargets ! 1]" by code_simp
  with restart_restores_routes [OF wf addr saved free, of "''app''"] old show ?thesis by simp
qed

end
