(* ===== verification/DeployState.thy ===== *)
theory DeployState
  imports Instances ProxyDaemon Versions "HOL-Library.State_Monad"
begin

text \<open>
  The deployment record of an application (\<open>internal/deploy/state.go\<close>) and the world the deployment
  strategies act on: processes, the proxy daemon, the record on disk and the version index.  The slot
  and replica maps are association lists, in whatever order Go iterates over them; a nil map is the
  empty list.  Fields no strategy reads (the telemetry id and the mirrored lock) are left out.  Every external call takes one step of the world, which counts it, asks the
  environment of that step for the outcome and appends what an observer sees to a trace.
\<close>

section \<open>The record\<close>

definition SlotBlue :: string where
  "SlotBlue = ''blue''"

definition SlotGreen :: string where
  "SlotGreen = ''green''"

definition ModeBlueGreen :: string where
  "ModeBlueGreen = ''blue-green''"

definition ModeRolling :: string where
  "ModeRolling = ''rolling''"

definition ModeWorker :: string where
  "ModeWorker = ''worker''"

record healthSummary =
  hsTier :: nat
  hsHealthyAt :: int

record canaryState =
  csVersion :: int
  csStrategy :: string
  csSlot :: string
  csStep :: nat
  csSteps :: nat
  csTrafficPercent :: int
  csStatus :: string

definition CanaryRunning :: string where
  "CanaryRunning = ''running''"

text \<open>The journal of a worker rollout; \<open>ReplacedFrom\<close> is a map whose keys are sorted before use.\<close>

record workerRollout =
  wrVersion :: int
  wrStrategy :: string
  wrStatus :: string
  wrReason :: string
  wrReplacedFrom :: "(string \<times> int) list"
  wrStartedAt :: int
  wrUpdatedAt :: int

definition WorkerRolloutRunning :: string where
  "WorkerRolloutRunning = ''running''"

definition WorkerRolloutDone :: string where
  "WorkerRolloutDone = ''done''"

definition WorkerRolloutReverting :: string where
  "WorkerRolloutReverting = ''reverting''"

definition WorkerRolloutRecoveryRequired :: string where
  "WorkerRolloutRecoveryRequired = ''recovery_required''"

record rollbackRecord =
  rrFromVersion :: int
  rrToVersion :: int
  rrAt :: int

record deployState =
  dsAppName :: string
  dsAppID :: string
  dsMode :: string
  dsRuntime :: string
  dsNetwork :: string
  dsPublicPort :: int
  dsActiveSlot :: string
  dsSlots :: "(string \<times> inst) list"
  dsReplicas :: "(string \<times> inst) list"
  dsHealth :: "healthSummary option"
  dsActiveVersion :: int
  dsSecretCleanupPending :: bool
  dsSecretTxnID :: string
  dsRetiring :: "inst list"
  dsSecretPreparing :: bool
  dsLastRollback :: "rollbackRecord option"
  dsCanary :: "canaryState option"
  dsWorkerRollout :: "workerRollout option"
  dsUpdatedAt :: int

definition InactiveSlot :: "deployState \<Rightarrow> string" where
  "InactiveSlot s = (if dsActiveSlot s = SlotBlue then SlotGreen else SlotBlue)"

definition ActiveInstance :: "deployState \<Rightarrow> inst option" where
  "ActiveInstance s =
     (if dsMode s = ModeBlueGreen then
        if dsActiveSlot s = '''' then None else map_of (dsSlots s) (dsActiveSlot s)
      else None)"

record modeSnapshot =
  msMode :: string
  msActiveSlot :: string
  msSlots :: "(string \<times> inst) list"
  msReplicas :: "(string \<times> inst) list"

definition captureMode :: "deployState \<Rightarrow> modeSnapshot" where
  "captureMode s = \<lparr>msMode = dsMode s, msActiveSlot = dsActiveSlot s, msSlots = dsSlots s, msReplicas = dsReplicas s\<rparr>"

definition restoreMode :: "modeSnapshot \<Rightarrow> deployState \<Rightarrow> deployState" where
  "restoreMode m s =
     s\<lparr>dsMode := msMode m, dsActiveSlot := msActiveSlot m, dsSlots := msSlots m, dsReplicas := msReplicas m\<rparr>"

definition hasProcess :: "inst \<Rightarrow> bool" where
  "hasProcess i \<longleftrightarrow> inPID i > 0 \<or> inContainerID i \<noteq> ''''"

definition freshSlots :: "(string \<times> inst) list" where
  "freshSlots = [(SlotBlue, emptyInst SlotBlue), (SlotGreen, emptyInst SlotGreen)]"

section \<open>The file\<close>

datatype deployFile = NoDeployFile | UnreadableDeployFile | CorruptDeployFile | DeployFile deployState

text \<open>A write may fail before the rename, or after it when the directory cannot be synchronised.\<close>

datatype storeOutcome = StoreFine | StoreFails code | StoreUnsynced

definition Store :: "storeOutcome \<Rightarrow> int \<Rightarrow> deployState \<Rightarrow> deployFile \<Rightarrow> (code, unit) result \<times> deployState \<times> deployFile" where
  "Store out now s f =
     (if dsAppName s = '''' then (Inl CodeInvalidArgument, s, f)
      else if dsSecretPreparing s then (Inr (), s, f)
      else
        let s1 = (if dsSecretTxnID s = '''' then s\<lparr>dsSecretCleanupPending := False\<rparr> else s) in
        case ValidateAppName (dsAppName s) of
          Inl e \<Rightarrow> (Inl e, s1, f)
        | Inr _ \<Rightarrow>
            let s2 = s1\<lparr>dsUpdatedAt := now\<rparr> in
            case out of
              StoreFails e \<Rightarrow> (Inl e, s2, f)
            | StoreUnsynced \<Rightarrow> (Inl CodeUnknown, s2, DeployFile s2)
            | StoreFine \<Rightarrow> (Inr (), s2, DeployFile s2))"

datatype loadError = NotExist | LoadFailed code

definition LoadState :: "string \<Rightarrow> deployFile \<Rightarrow> (loadError, deployState) result" where
  "LoadState appName f =
     (case ValidateAppName appName of
        Inl e \<Rightarrow> Inl (LoadFailed e)
      | Inr _ \<Rightarrow>
          (case f of
             NoDeployFile \<Rightarrow> Inl NotExist
           | UnreadableDeployFile \<Rightarrow> Inl (LoadFailed CodeUnknown)
           | CorruptDeployFile \<Rightarrow> Inl (LoadFailed CodeConfiguration)
           | DeployFile s \<Rightarrow>
               if dsAppName s \<noteq> appName \<or>
                  (dsMode s \<noteq> '''' \<and> dsMode s \<noteq> ''classic'' \<and> dsMode s \<noteq> ModeBlueGreen \<and>
                   dsMode s \<noteq> ModeRolling \<and> dsMode s \<noteq> ModeWorker)
               then Inl (LoadFailed CodeConfiguration) else Inr s))"

definition initState :: "string \<Rightarrow> string \<Rightarrow> int \<Rightarrow> deployState" where
  "initState appName mode publicPort =
     \<lparr>dsAppName = appName, dsAppID = '''', dsMode = mode, dsRuntime = '''', dsNetwork = '''',
      dsPublicPort = publicPort, dsActiveSlot = '''',
      dsSlots = (if mode = ModeBlueGreen then freshSlots else []), dsReplicas = [],
      dsHealth = None, dsActiveVersion = 0, dsSecretCleanupPending = False, dsSecretTxnID = '''',
      dsRetiring = [], dsSecretPreparing = False,
      dsLastRollback = None, dsCanary = None, dsWorkerRollout = None, dsUpdatedAt = 0\<rparr>"

definition LoadOrInit :: "string \<Rightarrow> string \<Rightarrow> int \<Rightarrow> deployFile \<Rightarrow> (code, deployState) result" where
  "LoadOrInit appName mode publicPort f =
     (case LoadState appName f of
        Inr s \<Rightarrow> Inr s
      | Inl (LoadFailed e) \<Rightarrow> Inl e
      | Inl NotExist \<Rightarrow> Inr (initState appName mode publicPort))"

definition LoadZeroDowntime :: "string \<Rightarrow> deployFile \<Rightarrow> (code, deployState option) result" where
  "LoadZeroDowntime appName f =
     (case LoadState appName f of
        Inl NotExist \<Rightarrow> Inr None
      | Inl (LoadFailed e) \<Rightarrow> Inl e
      | Inr s \<Rightarrow> if dsMode s \<noteq> ModeBlueGreen \<and> dsMode s \<noteq> ModeRolling then Inr None else Inr (Some s))"

text \<open>The in-memory part of a strategy migration: the record of the new strategy and the retired instances.\<close>

definition migrated :: "string \<Rightarrow> deployState \<Rightarrow> inst list \<times> deployState" where
  "migrated mode s =
     (filter hasProcess (map snd (dsSlots s)) @ filter hasProcess (map snd (dsReplicas s)),
      s\<lparr>dsSlots := (if mode = ModeBlueGreen then freshSlots else []), dsReplicas := [],
        dsActiveSlot := '''', dsMode := mode\<rparr>)"

section \<open>The world of a deployment\<close>

text \<open>\<open>wSpawns\<close> lists the worker processes started so far, by replica and process id.\<close>

record 'r world =
  wOs :: os
  wDaemon :: daemon
  wFile :: deployFile
  wVersions :: "'r appStore"
  wForeign :: "int \<Rightarrow> bool"
  wClock :: nat
  wTrace :: "(os \<times> daemon) list"
  wSpawns :: "(string \<times> int) list"

text \<open>What the environment answers at each step.\<close>

record deployEnv =
  evStore :: "nat \<Rightarrow> storeOutcome"
  evNow :: "nat \<Rightarrow> int"
  evReact :: "nat \<Rightarrow> reaction"
  evFault :: "op \<Rightarrow> nat \<Rightarrow> fault"
  evPersist :: "nat \<Rightarrow> bool"
  evClose :: "nat \<Rightarrow> bool"
  evLinks :: "string \<Rightarrow> string option"
  evVio :: "nat \<Rightarrow> vio"
  evRemove :: "nat \<Rightarrow> bool"
  evAccessMode :: "string \<Rightarrow> string"

definition act :: "(nat \<Rightarrow> 'r world \<Rightarrow> 'a \<times> 'r world) \<Rightarrow> ('r world, 'a) state" where
  "act f =
     State (\<lambda>w. case f (wClock w) w of
                  (a, w') \<Rightarrow> (a, w'\<lparr>wClock := Suc (wClock w), wTrace := wTrace w @ [(wOs w', wDaemon w')]\<rparr>))"

definition look :: "('r world \<Rightarrow> 'a) \<Rightarrow> ('r world, 'a) state" where
  "look f = State (\<lambda>w. (f w, w))"

definition storeW :: "deployEnv \<Rightarrow> deployState \<Rightarrow> ('r world, (code, unit) result \<times> deployState) state" where
  "storeW env s =
     act (\<lambda>n w. case Store (evStore env n) (evNow env n) s (wFile w) of
                  (r, s', f') \<Rightarrow> ((r, s'), w\<lparr>wFile := f'\<rparr>))"

definition MigrateTo :: "deployEnv \<Rightarrow> string \<Rightarrow> deployState \<Rightarrow> ('r world, (code, inst list) result \<times> deployState) state" where
  "MigrateTo env mode s =
     (if dsMode s = mode then State_Monad.return (Inr [], s)
      else do {
        let (retired, s1) = migrated mode s;
        (r, s2) \<leftarrow> storeW env s1;
        case r of
          Inl e \<Rightarrow> State_Monad.return (Inl e, s2)
        | Inr _ \<Rightarrow> State_Monad.return (Inr retired, s2)
      })"

definition RemoveState :: "deployEnv \<Rightarrow> string \<Rightarrow> ('r world, unit) state" where
  "RemoveState env appName =
     act (\<lambda>n w. ((), if isOk (ValidateAppName appName) \<and> evRemove env n then w\<lparr>wFile := NoDeployFile\<rparr> else w))"

definition stopW :: "deployEnv \<Rightarrow> inst \<Rightarrow> ('r world, shutdownReport) state" where
  "stopW env i =
     act (\<lambda>n w. case stopInstance (evLinks env) (evReact env n) i (wOs w) of
                  (report, sys) \<Rightarrow> (report, w\<lparr>wOs := sys\<rparr>))"

definition stopWorkerW :: "deployEnv \<Rightarrow> inst \<Rightarrow> ('r world, shutdownReport) state" where
  "stopWorkerW env i =
     act (\<lambda>n w. case GracefulStopWorker (evLinks env) (evReact env n) i (wOs w) of
                  (report, sys) \<Rightarrow> (report, w\<lparr>wOs := sys\<rparr>))"

definition killW :: "deployEnv \<Rightarrow> handle \<Rightarrow> ('r world, unit) state" where
  "killW env h =
     act (\<lambda>n w. case GracefulStop (evReact env n) h (wOs w) of (report, sys) \<Rightarrow> ((), w\<lparr>wOs := sys\<rparr>))"

subsection \<open>Proxy calls\<close>

text \<open>The daemon as a call at step \<open>n\<close> finds it: a port is free unless a foreign process owns it.\<close>

definition daemonEnvAt :: "deployEnv \<Rightarrow> nat \<Rightarrow> 'r world \<Rightarrow> daemonEnv" where
  "daemonEnvAt env n w =
     \<lparr>dvPortFree = (\<lambda>p. \<not> wForeign w p), dvDial = (\<lambda>_. True), dvPersist = evPersist env n, dvClose = evClose env n\<rparr>"

definition callW ::
    "deployEnv \<Rightarrow> op \<Rightarrow> (daemonEnv \<Rightarrow> fault \<Rightarrow> daemon \<Rightarrow> (code, 'a) result \<times> daemon) \<Rightarrow> ('r world, (code, 'a) result) state" where
  "callW env k call =
     act (\<lambda>n w. case call (daemonEnvAt env n w) (evFault env k n) (wDaemon w) of
                  (r, d) \<Rightarrow> (r, w\<lparr>wDaemon := d\<rparr>))"

definition proxyPing :: "deployEnv \<Rightarrow> ('r world, bool) state" where
  "proxyPing env = do { r \<leftarrow> callW env OpPing Client_Ping; State_Monad.return (isOk r) }"

definition proxyAdd :: "deployEnv \<Rightarrow> string \<Rightarrow> int \<Rightarrow> target \<Rightarrow> target list \<Rightarrow> ('r world, (code, controlResponse) result) state" where
  "proxyAdd env app port prim backends = callW env OpAdd (\<lambda>dv flt. Client_Add dv flt (evAccessMode env app) app port prim backends)"

definition proxySwitch :: "deployEnv \<Rightarrow> string \<Rightarrow> target \<Rightarrow> target list \<Rightarrow> ('r world, (code, controlResponse) result) state" where
  "proxySwitch env app prim backends = callW env OpSwitch (\<lambda>dv flt. Client_Switch dv flt app prim backends)"

definition proxyRemove :: "deployEnv \<Rightarrow> string \<Rightarrow> ('r world, (code, controlResponse) result) state" where
  "proxyRemove env app = callW env OpRemove (\<lambda>dv flt. Client_Remove dv flt app)"

definition proxyEnrolled :: "deployEnv \<Rightarrow> string \<Rightarrow> ('r world, bool) state" where
  "proxyEnrolled env app =
     do { r \<leftarrow> callW env OpStatus (\<lambda>dv flt. Client_Status dv flt app);
          State_Monad.return (case r of Inl _ \<Rightarrow> False | Inr st \<Rightarrow> st \<noteq> []) }"

subsection \<open>Retired and stale instances\<close>

definition stoppedInst :: "inst \<Rightarrow> inst" where
  "stoppedInst i = i\<lparr>inStatus := ''stopped'', inPID := 0\<rparr>"

fun stopRetiredInstances :: "deployEnv \<Rightarrow> inst list \<Rightarrow> ('r world, (code, unit) result) state" where
  "stopRetiredInstances env [] = State_Monad.return (Inr ())"
| "stopRetiredInstances env (i # is) =
     (if \<not> hasProcess i then stopRetiredInstances env is
      else do {
        report \<leftarrow> stopW env i;
        if rpExited report then stopRetiredInstances env is
        else State_Monad.return (Inl CodeProcessFailed)
      })"

text \<open>
  The loop over the slots: it returns the error, if any, and the slots with the reclaimed entries
  updated in place.
\<close>

fun recoverSlots ::
    "deployEnv \<Rightarrow> string \<Rightarrow> (string \<times> inst) list \<Rightarrow> (string \<times> inst) list
       \<Rightarrow> ('r world, (code, unit) result \<times> (string \<times> inst) list) state" where
  "recoverSlots env active before [] = State_Monad.return (Inr (), before)"
| "recoverSlots env active before ((name, i) # rest) =
     (if name = active \<or> \<not> hasProcess i then recoverSlots env active (before @ [(name, i)]) rest
      else do {
        alive \<leftarrow> look (\<lambda>w. instanceAliveViaRuntime (evLinks env) (wOs w) i);
        if inContainerID i = '''' \<and> \<not> alive then
          recoverSlots env active
            (before @ [(name, if inStatus i = ''running'' \<or> inStatus i = ''starting'' then stoppedInst i else i)]) rest
        else do {
          report \<leftarrow> stopW env i;
          if rpExited report then recoverSlots env active (before @ [(name, stoppedInst i)]) rest
          else State_Monad.return (Inl CodeProcessFailed, before @ (name, i) # rest)
        }
      })"

definition recoverStaleSlots :: "deployEnv \<Rightarrow> deployState \<Rightarrow> ('r world, (code, unit) result \<times> deployState) state" where
  "recoverStaleSlots env s = do {
     (r, slots) \<leftarrow> recoverSlots env (dsActiveSlot s) [] (dsSlots s);
     State_Monad.return (r, s\<lparr>dsSlots := slots\<rparr>)
   }"

subsection \<open>Secret bookkeeping\<close>

definition Stamp :: "string option \<Rightarrow> inst list \<Rightarrow> deployState \<Rightarrow> deployState" where
  "Stamp txn retired s =
     (let s1 = s\<lparr>dsSecretPreparing := False, dsSecretTxnID := '''', dsSecretCleanupPending := False\<rparr> in
      case txn of
        None \<Rightarrow> s1
      | Some i \<Rightarrow> s1\<lparr>dsSecretTxnID := i, dsSecretCleanupPending := (i \<noteq> ''''),
                      dsRetiring := dsRetiring s @ filter hasProcess retired\<rparr>)"

text \<open>\<open>retireFailedCandidate\<close> for the candidate of a slot; on a failed write the record is put back.\<close>

definition retireFailedCandidate ::
    "deployEnv \<Rightarrow> string \<Rightarrow> deployState \<Rightarrow> ('r world, (code, unit) result \<times> deployState) state" where
  "retireFailedCandidate env slot s =
     (case map_of (dsSlots s) slot of
        None \<Rightarrow> State_Monad.return (Inr (), s)
      | Some cand \<Rightarrow> do {
          let s1 = s\<lparr>dsRetiring := dsRetiring s @ [cand],
                     dsSlots := AList.update slot (cand\<lparr>inPID := 0, inContainerID := '''', inStatus := ''failed''\<rparr>) (dsSlots s),
                     dsSecretPreparing := False\<rparr>;
          (r, s2) \<leftarrow> storeW env s1;
          case r of
            Inr _ \<Rightarrow> State_Monad.return (Inr (), s2)
          | Inl e \<Rightarrow> State_Monad.return (Inl e, s2\<lparr>dsRetiring := dsRetiring s, dsSlots := AList.update slot cand (dsSlots s2)\<rparr>)
        })"

section \<open>Reasoning about deployments\<close>

subsection \<open>Triples\<close>

definition triple :: "('w \<Rightarrow> bool) \<Rightarrow> ('w, 'a) state \<Rightarrow> ('a \<Rightarrow> 'w \<Rightarrow> bool) \<Rightarrow> bool" where
  "triple P m Q \<longleftrightarrow> (\<forall>w. P w \<longrightarrow> (case run_state m w of (a, w') \<Rightarrow> Q a w'))"

lemma triple_return: "(\<And>w. P w \<Longrightarrow> Q a w) \<Longrightarrow> triple P (State_Monad.return a) Q"
  by (simp add: triple_def)

lemma triple_bind:
  assumes "triple P m R" and "\<And>a. triple (R a) (f a) Q"
  shows "triple P (State_Monad.bind m f) Q"
  using assms by (fastforce simp: triple_def split: prod.splits)

lemma triple_look: "(\<And>a. triple (\<lambda>w. P w \<and> a = f w) (k a) Q) \<Longrightarrow> triple P (State_Monad.bind (look f) k) Q"
  by (auto simp: triple_def look_def)

lemma triple_weaken: "triple P m Q \<Longrightarrow> (\<And>w. P' w \<Longrightarrow> P w) \<Longrightarrow> (\<And>a w. Q a w \<Longrightarrow> Q' a w) \<Longrightarrow> triple P' m Q'"
  by (fastforce simp: triple_def split: prod.splits)

lemma triple_pre: "triple P m Q \<Longrightarrow> (\<And>w. P' w \<Longrightarrow> P w) \<Longrightarrow> triple P' m Q"
  by (auto simp: triple_def)

lemma triple_post: "triple P m Q \<Longrightarrow> (\<And>a w. Q a w \<Longrightarrow> Q' a w) \<Longrightarrow> triple P m Q'"
  by (fastforce simp: triple_def split: prod.splits)

lemma triple_fact: "(F \<Longrightarrow> triple P m Q) \<Longrightarrow> triple (\<lambda>w. P w \<and> F) m Q"
  by (auto simp: triple_def)

lemma triple_if: "(b \<Longrightarrow> triple P m Q) \<Longrightarrow> (\<not> b \<Longrightarrow> triple P n Q) \<Longrightarrow> triple P (if b then m else n) Q"
  by simp

lemma triple_sum:
  "(\<And>e. r = Inl e \<Longrightarrow> triple P (f e) Q) \<Longrightarrow> (\<And>x. r = Inr x \<Longrightarrow> triple P (g x) Q) \<Longrightarrow>
   triple P (case r of Inl e \<Rightarrow> f e | Inr x \<Rightarrow> g x) Q"
  by (cases r) auto

lemma triple_option:
  "(r = None \<Longrightarrow> triple P m Q) \<Longrightarrow> (\<And>x. r = Some x \<Longrightarrow> triple P (g x) Q) \<Longrightarrow>
   triple P (case r of None \<Rightarrow> m | Some x \<Rightarrow> g x) Q"
  by (cases r) auto

lemma triple_pair: "(\<And>x y. r = (x, y) \<Longrightarrow> triple P (f x y) Q) \<Longrightarrow> triple P (case r of (x, y) \<Rightarrow> f x y) Q"
  by (cases r) auto

lemma triple_drop: "triple P m Q \<Longrightarrow> triple (\<lambda>w. P w \<and> F w) m Q"
  by (auto simp: triple_def)

lemmas triple_splits = triple_if triple_sum triple_option triple_pair

lemma triple_conj: "triple P m Q \<Longrightarrow> triple P' m Q' \<Longrightarrow> triple (\<lambda>w. P w \<and> P' w) m (\<lambda>a w. Q a w \<and> Q' a w)"
  by (fastforce simp: triple_def split: prod.splits)

lemma triple_act:
  assumes "\<And>w a w'. P w \<Longrightarrow> f (wClock w) w = (a, w') \<Longrightarrow>
     Q a (w'\<lparr>wClock := Suc (wClock w), wTrace := wTrace w @ [(wOs w', wDaemon w')]\<rparr>)"
  shows "triple P (act f) Q"
  unfolding triple_def act_def
proof (intro allI impI)
  fix w assume "P w"
  obtain a w' where f: "f (wClock w) w = (a, w')" by fastforce
  show "case run_state (State (\<lambda>w. case f (wClock w) w of (a, w') \<Rightarrow>
      (a, w'\<lparr>wClock := Suc (wClock w), wTrace := wTrace w @ [(wOs w', wDaemon w')]\<rparr>))) w of (a, w') \<Rightarrow> Q a w'"
    using assms [OF \<open>P w\<close> f] f by simp
qed

lemma triple_false: "triple (\<lambda>w. False) m Q"
  by (simp add: triple_def)

subsection \<open>Availability\<close>

text \<open>A running process or container answers on its port.\<close>

fun listensOn :: "os \<Rightarrow> handle \<Rightarrow> int \<Rightarrow> bool" where
  "listensOn sys (NativeProc pid) port = (\<exists>p. osProcs sys pid = Some p \<and> prPort p = port)"
| "listensOn sys (DockerProc cid) port = (\<exists>c. osContainers sys cid = Some c \<and> ctRunning c \<and> ctPort c = port)"

definition upBy :: "os \<Rightarrow> handle \<Rightarrow> string \<Rightarrow> bool" where
  "upBy sys h host \<longleftrightarrow> (\<exists>port. host = hostPort port \<and> listensOn sys h port)"

lemma upBy_endProcess: "upBy sys h host \<Longrightarrow> g \<noteq> h \<Longrightarrow> upBy (endProcess g sys) h host"
  unfolding upBy_def by (cases g; cases h) auto

lemma upBy_running: "upBy sys h host \<Longrightarrow> running sys h"
  unfolding upBy_def by (cases h) auto

text \<open>An application is available when its public port routes, and only to processes that listen.\<close>

definition available :: "string \<Rightarrow> os \<times> daemon \<Rightarrow> bool" where
  "available app snap \<longleftrightarrow>
     (\<exists>ts. routeOf app (snd snap) = Some ts \<and> ts \<noteq> [] \<and> (\<forall>t\<in>set ts. \<exists>h. upBy (fst snap) h (tHost t)))"

definition alwaysUp :: "string \<Rightarrow> 'r world \<Rightarrow> bool" where
  "alwaysUp app w \<longleftrightarrow> (\<forall>snap\<in>set (wTrace w). available app snap)"

text \<open>Storing a record changes only its time stamp and its clean-up flag.\<close>

definition sameRecord :: "deployState \<Rightarrow> deployState \<Rightarrow> bool" where
  "sameRecord s s' \<longleftrightarrow>
     dsSlots s' = dsSlots s \<and> dsReplicas s' = dsReplicas s \<and> dsActiveSlot s' = dsActiveSlot s \<and>
     dsMode s' = dsMode s \<and> dsActiveVersion s' = dsActiveVersion s \<and> dsSecretPreparing s' = dsSecretPreparing s \<and>
     dsCanary s' = dsCanary s \<and> dsWorkerRollout s' = dsWorkerRollout s"

lemma Store_file: "Store out now s f = (Inr u, s', f') \<Longrightarrow> \<not> dsSecretPreparing s \<Longrightarrow> f' = DeployFile s'"
  by (auto simp: Store_def Let_def split: if_splits sum.splits storeOutcome.splits)

lemma storeW_file:
  "triple (\<lambda>_. True) (storeW env s)
     (\<lambda>(r, s') w. isOk r \<and> \<not> dsSecretPreparing s \<longrightarrow> wFile w = DeployFile s')"
  unfolding storeW_def
  by (rule triple_act) (auto simp: isOk_iff split: prod.splits dest: Store_file)

text \<open>
  The interface a strategy proof relies on: a property of the processes and the daemon that entails
  availability.  Steps that touch neither keep it, with the trace available throughout.
\<close>

locale serving =
  fixes app :: string and I :: "os \<Rightarrow> daemon \<Rightarrow> bool"
  assumes serves: "I sys d \<Longrightarrow> available app (sys, d)"
begin

definition inv :: "'r world \<Rightarrow> bool" where
  "inv w \<longleftrightarrow> alwaysUp app w \<and> I (wOs w) (wDaemon w)"

lemma act_frame:
  assumes "\<And>n w a w'. f n w = (a, w') \<Longrightarrow> wOs w' = wOs w \<and> wDaemon w' = wDaemon w \<and> Q a"
  shows "triple inv (act f) (\<lambda>a w. inv w \<and> Q a)"
proof (rule triple_act)
  fix w :: "'a world" and a w'
  assume inv: "inv w" and f: "f (wClock w) w = (a, w')"
  from assms [OF f] have eq: "wOs w' = wOs w" "wDaemon w' = wDaemon w" "Q a" by simp_all
  have "available app (wOs w, wDaemon w)" using inv serves by (simp add: inv_def)
  with inv eq show "inv (w'\<lparr>wClock := Suc (wClock w), wTrace := wTrace w @ [(wOs w', wDaemon w')]\<rparr>) \<and> Q a"
    by (simp add: inv_def alwaysUp_def)
qed

lemma storeW_inv: "triple inv (storeW env s) (\<lambda>(r, s') w. inv w \<and> sameRecord s s')"
  unfolding storeW_def
  by (rule triple_post [OF act_frame [where Q = "\<lambda>(r, s'). sameRecord s s'"]])
    (auto simp: sameRecord_def Store_def Let_def split: prod.splits if_splits sum.splits storeOutcome.splits)

lemma RemoveState_inv: "triple inv (RemoveState env a) (\<lambda>_. inv)"
  unfolding RemoveState_def
  by (rule triple_post [OF act_frame [where Q = "\<lambda>_. True"]]) auto

end

subsection \<open>Routes\<close>

text \<open>
  The application routes to the targets \<open>ts\<close>, and each of the processes \<open>ups\<close> listens on the address
  beside it; there is one behind every target.  A blue-green application has a single target.
\<close>

definition routes :: "string \<Rightarrow> target list \<Rightarrow> (handle \<times> string) set \<Rightarrow> os \<Rightarrow> daemon \<Rightarrow> bool" where
  "routes app ts ups sys d \<longleftrightarrow>
     dmRunning d \<and> routeOf app d = Some ts \<and> ts \<noteq> [] \<and> (\<forall>t\<in>set ts. \<exists>h. (h, tHost t) \<in> ups) \<and>
     (\<forall>(h, host)\<in>ups. upBy sys h host)"

interpretation rt: serving app "routes app ts ups" for app ts ups
proof unfold_locales
  show "available app (sys, d)" if "routes app ts ups sys d" for sys d
    using that unfolding routes_def available_def by fastforce
qed

abbreviation onRoutes :: "string \<Rightarrow> target list \<Rightarrow> (handle \<times> string) set \<Rightarrow> 'r world \<Rightarrow> bool" where
  "onRoutes app ts ups \<equiv> serving.inv app (routes app ts ups)"

abbreviation routed :: "string \<Rightarrow> target \<Rightarrow> (handle \<times> string) set \<Rightarrow> os \<Rightarrow> daemon \<Rightarrow> bool" where
  "routed app R ups \<equiv> routes app [R] ups"

abbreviation onRoute :: "string \<Rightarrow> target \<Rightarrow> (handle \<times> string) set \<Rightarrow> 'r world \<Rightarrow> bool" where
  "onRoute app R ups \<equiv> onRoutes app [R] ups"

lemma routed_def:
  "routed app R ups sys d \<longleftrightarrow>
     dmRunning d \<and> routeOf app d = Some [R] \<and> (\<exists>h. (h, tHost R) \<in> ups) \<and> (\<forall>(h, host)\<in>ups. upBy sys h host)"
  by (simp add: routes_def)

lemma onRoutes_iff: "onRoutes app ts ups w \<longleftrightarrow> alwaysUp app w \<and> routes app ts ups (wOs w) (wDaemon w)"
  by (simp add: rt.inv_def)

lemmas onRoute_iff = onRoutes_iff

lemma onRoutes_sub:
  "onRoutes app ts ups w \<Longrightarrow> ups' \<subseteq> ups \<Longrightarrow> \<forall>t\<in>set ts. \<exists>h. (h, tHost t) \<in> ups' \<Longrightarrow> onRoutes app ts ups' w"
  by (auto simp: onRoutes_iff routes_def)

lemma onRoute_sub:
  "onRoute app R ups w \<Longrightarrow> ups' \<subseteq> ups \<Longrightarrow> (h, tHost R) \<in> ups' \<Longrightarrow> onRoute app R ups' w"
  by (auto simp: onRoute_iff routed_def)

text \<open>A step that establishes a route leaves the trace available.\<close>

lemma act_routes:
  assumes "\<And>n w a w'. f n w = (a, w') \<Longrightarrow> routes app ts ups (wOs w) (wDaemon w) \<Longrightarrow>
     routes app (ts' a) (ups' a) (wOs w') (wDaemon w') \<and> Q a"
  shows "triple (onRoutes app ts ups) (act f) (\<lambda>a w. onRoutes app (ts' a) (ups' a) w \<and> Q a)"
proof (rule triple_act)
  fix w :: "'a world" and a w'
  assume inv: "onRoutes app ts ups w" and f: "f (wClock w) w = (a, w')"
  from assms [OF f] inv have new: "routes app (ts' a) (ups' a) (wOs w') (wDaemon w')" "Q a" by (simp_all add: onRoutes_iff)
  with inv rt.serves [OF new(1)]
  show "onRoutes app (ts' a) (ups' a) (w'\<lparr>wClock := Suc (wClock w), wTrace := wTrace w @ [(wOs w', wDaemon w')]\<rparr>) \<and> Q a"
    by (simp add: onRoutes_iff alwaysUp_def)
qed

lemma routed_stop:
  assumes "routes app ts ups sys d" and "g \<notin> fst ` ups"
  shows "routes app ts ups (endProcess g sys) d"
  using assms by (auto simp: routes_def image_iff intro!: upBy_endProcess)

lemma GracefulStop_frame: "GracefulStop rx h sys = (report, sys') \<Longrightarrow> sys' = sys \<or> sys' = endProcess h sys"
  by (auto simp: GracefulStop_def split: reaction.splits if_splits)

lemma killW_route:
  assumes "g \<notin> fst ` ups"
  shows "triple (onRoutes app ts ups) (killW env g) (\<lambda>_. onRoutes app ts ups)"
  unfolding killW_def
  by (rule triple_post [OF act_routes [where ts' = "\<lambda>_. ts" and ups' = "\<lambda>_. ups" and Q = "\<lambda>_. True"]])
    (auto split: prod.splits dest!: GracefulStop_frame intro: routed_stop [OF _ assms])

lemma stopW_route:
  assumes "handleOf i \<notin> fst ` ups"
  shows "triple (onRoutes app ts ups) (stopW env i) (\<lambda>_. onRoutes app ts ups)"
  unfolding stopW_def
  by (rule triple_post [OF act_routes [where ts' = "\<lambda>_. ts" and ups' = "\<lambda>_. ups" and Q = "\<lambda>_. True"]])
    (auto split: prod.splits dest!: stopInstance_frame intro: routed_stop [OF _ assms])

lemma routeOf_SwitchApp:
  assumes "routeOf app d = Some ts" and "SwitchApp dv app prim bs d = (r, d')"
  shows "r = Inr () \<and> routeOf app d' = Some (prim # addlTargets {tHost prim} bs) \<and> dmRunning d' = dmRunning d"
  using assms by (auto simp: SwitchApp_def routeOf_def AList.update_conv')

lemma Client_Switch_cases:
  assumes "Client_Switch dv flt app prim bs d = (r, d')" and "dmRunning d" and "routeOf app d = Some ts" and "flt \<noteq> LostReply"
  shows "(\<not> isOk r \<and> d' = d) \<or> (isOk r \<and> routeOf app d' = Some (prim # addlTargets {tHost prim} bs) \<and> dmRunning d')"
proof (cases flt)
  case NoFault
  obtain r' d2 where sw: "SwitchApp dv app prim bs d = (r', d2)" by fastforce
  note sw' = routeOf_SwitchApp [OF assms(3) sw]
  with NoFault sw assms(1,2) show ?thesis
    by (auto simp: Client_Switch_def okOrProxyError_def Do_def handleConn_def controlReq_def respond_def okResponse_def)
next
  case LostRequest
  with assms(1) show ?thesis by (auto simp: Client_Switch_def okOrProxyError_def Do_def)
qed (use assms(4) in simp)

text \<open>A switch to targets that all have a process behind them.\<close>

lemma proxySwitch_routes:
  assumes "\<forall>t\<in>set (prim # bs). \<exists>h. (h, tHost t) \<in> ups" and "\<And>n. evFault env OpSwitch n \<noteq> LostReply"
  shows "triple (onRoutes app ts ups) (proxySwitch env app prim bs)
           (\<lambda>r. onRoutes app (if isOk r then prim # addlTargets {tHost prim} bs else ts) ups)"
  unfolding proxySwitch_def callW_def
proof (rule triple_post [OF act_routes [where ts' = "\<lambda>r. if isOk r then prim # addlTargets {tHost prim} bs else ts"
          and ups' = "\<lambda>_. ups" and Q = "\<lambda>_. True"]], goal_cases)
  case (1 n w a w')
  obtain r d where call: "Client_Switch (daemonEnvAt env n w) (evFault env OpSwitch n) app prim bs (wDaemon w) = (r, d)" by fastforce
  have "dmRunning (wDaemon w)" "routeOf app (wDaemon w) = Some ts" using 1(2) by (auto simp: routes_def)
  from Client_Switch_cases [OF call this assms(2)] 1 call assms(1) addlTargets_props(2) [of "{tHost prim}" bs] show ?case
    by (auto simp: routes_def)
qed simp

lemma proxySwitch_route:
  assumes "(h, tHost prim) \<in> ups" and "\<And>n. evFault env OpSwitch n \<noteq> LostReply"
  shows "triple (onRoute app R ups) (proxySwitch env app prim [])
           (\<lambda>r. onRoute app (if isOk r then prim else R) ups)"
  using proxySwitch_routes [of prim "[]" ups env app "[R]"] assms
  by (auto simp: if_distrib [of "\<lambda>t. [t]"] cong: if_cong)

lemma proxyPing_route: "triple (onRoutes app ts ups) (proxyPing env) (\<lambda>_. onRoutes app ts ups)"
  unfolding proxyPing_def callW_def
  by (rule triple_bind [OF act_routes [where ts' = "\<lambda>_. ts" and ups' = "\<lambda>_. ups" and Q = "\<lambda>_. True"] triple_return])
    (auto simp: Client_Ping_def okOrProxyError_def Do_def handleConn_def controlReq_def split: prod.splits sum.splits if_splits)

lemma DaemonStatus_enrolled: "routeOf app d = Some ts \<Longrightarrow> DaemonStatus app d \<noteq> []"
  by (auto simp: routeOf_def DaemonStatus_def filter_empty_conv dest!: map_of_SomeD)

lemma proxyEnrolled_route:
  assumes "\<And>n. evFault env OpStatus n = NoFault"
  shows "triple (onRoutes app ts ups) (proxyEnrolled env app) (\<lambda>b w. onRoutes app ts ups w \<and> b)"
  unfolding proxyEnrolled_def callW_def
proof (rule triple_bind [OF act_routes [where ts' = "\<lambda>_. ts" and ups' = "\<lambda>_. ups" and
      Q = "\<lambda>r. case r of Inl _ \<Rightarrow> False | Inr st \<Rightarrow> st \<noteq> []"]], goal_cases)
  case (1 n w a w')
  then have "dmRunning (wDaemon w)" "routeOf app (wDaemon w) = Some ts" by (auto simp: routes_def)
  with 1 assms DaemonStatus_enrolled [of app "wDaemon w"] show ?case
    by (auto simp: Client_Status_def okOrProxyError_def Do_def handleConn_def controlReq_def okResponse_def)
qed (rule triple_return, simp)

lemma storeW_route: "triple (onRoutes app ts ups) (storeW env s)
    (\<lambda>(r, s') w. onRoutes app ts ups w \<and> sameRecord s s' \<and> (isOk r \<and> \<not> dsSecretPreparing s \<longrightarrow> wFile w = DeployFile s'))"
  using triple_conj [OF rt.storeW_inv [of app ts ups env s] storeW_file [of env s]]
  by (rule triple_weaken) (auto split: prod.splits)

lemma stopRetiredInstances_route:
  assumes "\<forall>i\<in>set is. hasProcess i \<longrightarrow> handleOf i \<notin> fst ` ups"
  shows "triple (onRoutes app ts ups) (stopRetiredInstances env is) (\<lambda>_. onRoutes app ts ups)"
  using assms
proof (induction "is")
  case Nil
  then show ?case by (auto intro: triple_return)
next
  case (Cons i "is")
  note IH = Cons.IH
  show ?case
  proof (cases "hasProcess i")
    case True
    with Cons.prems have "handleOf i \<notin> fst ` ups" by simp
    with IH True Cons.prems show ?thesis
      by (auto intro!: triple_bind [OF stopW_route] triple_return)
  qed (use IH Cons.prems in simp)
qed

lemma recoverSlots_route:
  assumes "\<forall>(name, i)\<in>set slots. name \<noteq> active \<and> hasProcess i \<longrightarrow> handleOf i \<notin> fst ` ups"
  shows "triple (onRoutes app ts ups) (recoverSlots env active before slots)
           (\<lambda>(r, slots') w. onRoutes app ts ups w \<and> map_of slots' active = map_of (before @ slots) active)"
  using assms
proof (induction slots arbitrary: before)
  case Nil
  then show ?case by (auto intro: triple_return)
next
  case (Cons ni rest)
  obtain name i where ni: "ni = (name, i)" by fastforce
  have rest: "\<forall>(name, i)\<in>set rest. name \<noteq> active \<and> hasProcess i \<longrightarrow> handleOf i \<notin> fst ` ups"
    using Cons.prems by simp
  have IH: "triple (onRoutes app ts ups :: 'a world \<Rightarrow> bool) (recoverSlots env active (before @ [(name, j)]) rest)
      (\<lambda>(r, slots') w. onRoutes app ts ups w \<and> map_of slots' active = map_of (before @ ni # rest) active)"
    if "name = active \<Longrightarrow> j = i" for j
    by (rule triple_post [OF Cons.IH [OF rest, of "before @ [(name, j)]"]])
      (use that in \<open>auto simp: ni map_add_def split: option.splits prod.splits if_splits\<close>)
  show ?case
  proof (cases "name = active \<or> \<not> hasProcess i")
    case True
    then show ?thesis using IH [of i] by (simp add: ni)
  next
    case False
    then have other: "handleOf i \<notin> fst ` ups" "name \<noteq> active" using Cons.prems by (auto simp: ni)

    let ?Q = "\<lambda>(r, slots') w :: 'a world. onRoutes app ts ups w \<and> map_of slots' active = map_of (before @ ni # rest) active"
    let ?stop = "State_Monad.bind (stopW env i) (\<lambda>report.
        if rpExited report then recoverSlots env active (before @ [(name, stoppedInst i)]) rest
        else State_Monad.return (Inl CodeProcessFailed, before @ (name, i) # rest))"
    have stop: "triple (onRoutes app ts ups) ?stop ?Q"
    proof (rule triple_bind [OF stopW_route [OF other(1)]])
      fix report
      have "triple (onRoutes app ts ups) (State_Monad.return (Inl CodeProcessFailed, before @ (name, i) # rest)) ?Q"
        by (rule triple_return) (simp add: ni)
      then show "triple (onRoutes app ts ups)
          (if rpExited report then recoverSlots env active (before @ [(name, stoppedInst i)]) rest
           else State_Monad.return (Inl CodeProcessFailed, before @ (name, i) # rest)) ?Q"
        using other(2) by (intro triple_if IH) simp_all
    qed
    have gone: "triple (onRoutes app ts ups) (recoverSlots env active (before @ [(name,
        if inStatus i = ''running'' \<or> inStatus i = ''starting'' then stoppedInst i else i)]) rest) ?Q"
      using other(2) by (intro IH) simp
    have "triple (onRoutes app ts ups) (State_Monad.bind (look (\<lambda>w. instanceAliveViaRuntime (evLinks env) (wOs w) i))
        (\<lambda>alive. if inContainerID i = '''' \<and> \<not> alive then recoverSlots env active (before @ [(name,
            if inStatus i = ''running'' \<or> inStatus i = ''starting'' then stoppedInst i else i)]) rest else ?stop)) ?Q"
      by (intro triple_look triple_drop triple_if stop gone)
    then show ?thesis using False unfolding ni recoverSlots.simps by simp
  qed
qed

lemma act_frame_route:
  "(\<And>n w a w'. f n w = (a, w') \<Longrightarrow> wOs w' = wOs w \<and> wDaemon w' = wDaemon w) \<Longrightarrow>
     triple (onRoutes app ts ups) (act f) (\<lambda>_. onRoutes app ts ups)"
  by (rule triple_post [OF rt.act_frame [where Q = "\<lambda>_. True"]]) auto

end
