(* ===== verification/DeployHealth.thy ===== *)
theory DeployHealth
  imports Errors GoStrings
begin

text \<open>
  The tiered health check of a deployment (\<open>internal/health/tiered.go\<close> and the tier configuration of
  \<open>types.go\<close>): how the tier is selected, what one probe of each tier accepts, and the loop that waits
  for consecutive successes.  One turn of the loop sees a \<open>poll\<close>: the arm of the select statement, the
  clock, the liveness of the process and what a probe would answer.  \<open>time.ParseDuration\<close> and
  \<open>url.Parse\<close> are arguments.  The loop carries fuel; \<open>None\<close> means that it ran out.
\<close>

section \<open>The program\<close>

subsection \<open>Configuration\<close>

record deployTierConfig =
  tcMode :: string
  tcPath :: string
  tcInterval :: string
  tcRetries :: int
  tcTimeout :: string

definition TierModeAuto :: string where
  "TierModeAuto = ''auto''"

definition TierModeHTTP :: string where
  "TierModeHTTP = ''http''"

definition TierModeTCPOnly :: string where
  "TierModeTCPOnly = ''tcp-only''"

definition TierModeNone :: string where
  "TierModeNone = ''none''"

record healthCheckConfig =
  hkName :: string
  hkURL :: string

record appHealthConfig =
  ahEndpoints :: "(string \<times> healthCheckConfig) list"
  ahDeployTier :: "deployTierConfig option"

text \<open>The parts of a parsed URL the code reads: its path and its host name.\<close>

definition deriveTier ::
    "(string \<Rightarrow> (string \<times> string) option) \<Rightarrow> healthCheckConfig \<Rightarrow> deployTierConfig option" where
  "deriveTier parseURL ep =
     (case parseURL (hkURL ep) of
        None \<Rightarrow> None
      | Some (path, host) \<Rightarrow>
          if path = '''' \<or> path = ''/'' then None
          else if host \<noteq> ''localhost'' \<and> host \<noteq> ''127.0.0.1'' \<and> host \<noteq> ''::1'' then None
          else Some \<lparr>tcMode = TierModeAuto, tcPath = path, tcInterval = '''', tcRetries = 0, tcTimeout = ''''\<rparr>)"

definition sortedEndpointNames :: "(string \<times> healthCheckConfig) list \<Rightarrow> string list" where
  "sortedEndpointNames m = sort (map fst m)"

fun firstDerived ::
    "(string \<Rightarrow> (string \<times> string) option) \<Rightarrow> (string \<times> healthCheckConfig) list \<Rightarrow> string list
       \<Rightarrow> deployTierConfig option" where
  "firstDerived parseURL m [] = None"
| "firstDerived parseURL m (name # names) =
     (case Option.bind (map_of m name) (deriveTier parseURL) of
        Some cfg \<Rightarrow> Some cfg
      | None \<Rightarrow> firstDerived parseURL m names)"

definition EffectiveDeployTier ::
    "(string \<Rightarrow> (string \<times> string) option) \<Rightarrow> appHealthConfig option \<Rightarrow> deployTierConfig option" where
  "EffectiveDeployTier parseURL c =
     (case c of
        None \<Rightarrow> None
      | Some cfg \<Rightarrow>
          (case ahDeployTier cfg of
             Some t \<Rightarrow> Some t
           | None \<Rightarrow>
               (case Option.bind (map_of (ahEndpoints cfg) ''default'') (deriveTier parseURL) of
                  Some t \<Rightarrow> Some t
                | None \<Rightarrow> firstDerived parseURL (ahEndpoints cfg) (sortedEndpointNames (ahEndpoints cfg)))))"

subsection \<open>Tiers and probes\<close>

datatype tier = TierUnknown | Tier1HTTPPath | Tier2HTTPAny | Tier3TCP | Tier3None

definition SelectTier :: "deployTierConfig option \<Rightarrow> bool \<Rightarrow> tier" where
  "SelectTier cfg rootAnswers =
     (let mode = (case cfg of Some c \<Rightarrow> if tcMode c \<noteq> '''' then tcMode c else TierModeAuto
                  | None \<Rightarrow> TierModeAuto);
          path = (case cfg of Some c \<Rightarrow> tcPath c | None \<Rightarrow> '''')
      in if mode = TierModeNone then Tier3None
         else if mode = TierModeTCPOnly then Tier3TCP
         else if path \<noteq> '''' then Tier1HTTPPath
         else if mode = TierModeHTTP then Tier2HTTPAny
         else if \<not> rootAnswers then Tier3TCP
         else Tier2HTTPAny)"

definition second :: int where
  "second = 1000000000"

definition DefaultTierInterval :: int where
  "DefaultTierInterval = 1 * second"

definition DefaultTierRetries :: int where
  "DefaultTierRetries = 5"

definition DefaultTierTimeout :: int where
  "DefaultTierTimeout = 30 * second"

definition positiveOr :: "int \<Rightarrow> int option \<Rightarrow> int" where
  "positiveOr dflt d = (case d of Some x \<Rightarrow> if x > 0 then x else dflt | None \<Rightarrow> dflt)"

definition resolvedConfig :: "(string \<Rightarrow> int option) \<Rightarrow> deployTierConfig option \<Rightarrow> int \<times> int \<times> int" where
  "resolvedConfig parseDuration cfg =
     (case cfg of
        None \<Rightarrow> (DefaultTierInterval, DefaultTierRetries, DefaultTierTimeout)
      | Some c \<Rightarrow>
          (positiveOr DefaultTierInterval (parseDuration (tcInterval c)),
           if tcRetries c > 0 then tcRetries c else DefaultTierRetries,
           positiveOr DefaultTierTimeout (parseDuration (tcTimeout c))))"

datatype waitArm = ArmDone code | ArmDeadline | ArmTick

record poll =
  poArm :: waitArm
  poNow :: int
  poAlive :: bool
  poHttp :: "string \<Rightarrow> int option"
  poDial :: bool

definition Check :: "tier \<Rightarrow> deployTierConfig option \<Rightarrow> poll \<Rightarrow> bool" where
  "Check t cfg po =
     (case t of
        Tier1HTTPPath \<Rightarrow>
          let path = (case cfg of Some c \<Rightarrow> if tcPath c \<noteq> '''' then tcPath c else ''/'' | None \<Rightarrow> ''/'') in
          (case poHttp po path of None \<Rightarrow> False | Some status \<Rightarrow> 200 \<le> status \<and> status < 300)
      | Tier2HTTPAny \<Rightarrow> poHttp po ''/'' \<noteq> None
      | Tier3TCP \<Rightarrow> poDial po
      | Tier3None \<Rightarrow> poAlive po
      | TierUnknown \<Rightarrow> False)"

subsection \<open>Waiting\<close>

text \<open>\<open>Inl e\<close> is the error of the wait, \<open>Inr ()\<close> means healthy.\<close>

fun waitLoop ::
    "nat \<Rightarrow> tier \<Rightarrow> deployTierConfig option \<Rightarrow> int \<Rightarrow> int \<Rightarrow> int \<Rightarrow> (nat \<Rightarrow> poll) \<Rightarrow> nat \<Rightarrow> int
       \<Rightarrow> (code, unit) result option" where
  "waitLoop 0 t cfg retries deadline pid polls i consecutive = None"
| "waitLoop (Suc fuel) t cfg retries deadline pid polls i consecutive =
     (let po = polls i in
      case (if i = 0 then ArmTick else poArm po) of
        ArmDone e \<Rightarrow> Some (Inl e)
      | ArmDeadline \<Rightarrow> Some (Inl CodeHealthCheckFailed)
      | ArmTick \<Rightarrow>
          if poNow po > deadline then Some (Inl CodeHealthCheckFailed)
          else if pid > 0 \<and> \<not> poAlive po then Some (Inl CodeHealthCheckFailed)
          else if Check t cfg po then
            if consecutive + 1 \<ge> retries then Some (Inr ())
            else waitLoop fuel t cfg retries deadline pid polls (Suc i) (consecutive + 1)
          else waitLoop fuel t cfg retries deadline pid polls (Suc i) 0)"

definition waitDeadline :: "int \<Rightarrow> int \<Rightarrow> int option \<Rightarrow> int" where
  "waitDeadline start timeout ctxDeadline =
     (case ctxDeadline of Some dl \<Rightarrow> if dl < start + timeout then dl else start + timeout
      | None \<Rightarrow> start + timeout)"

definition WaitForHealthy ::
    "nat \<Rightarrow> (string \<Rightarrow> int option) \<Rightarrow> tier \<Rightarrow> deployTierConfig option \<Rightarrow> int \<Rightarrow> int option \<Rightarrow> int
       \<Rightarrow> (nat \<Rightarrow> poll) \<Rightarrow> (code, unit) result option" where
  "WaitForHealthy fuel parseDuration t cfg pid ctxDeadline start polls =
     (let (interval, retries, timeout) = resolvedConfig parseDuration cfg in
      waitLoop fuel t cfg retries (waitDeadline start timeout ctxDeadline) pid polls 0 0)"

section \<open>The wait ends\<close>

lemma resolvedConfig_pos:
  "resolvedConfig pd cfg = (interval, retries, timeout) \<Longrightarrow> 0 < interval \<and> 0 < retries \<and> 0 < timeout"
  by (auto simp: resolvedConfig_def positiveOr_def DefaultTierInterval_def DefaultTierRetries_def
      DefaultTierTimeout_def second_def split: option.splits if_splits)

lemma waitLoop_ends:
  assumes ticks: "\<And>k. start + int k * interval \<le> poNow (polls k)" and "0 < interval"
    and fuel: "deadline < start + int (i + fuel) * interval - interval" and "0 < fuel"
  shows "\<exists>r. waitLoop fuel t cfg retries deadline pid polls i c = Some r"
  using fuel \<open>0 < fuel\<close>
proof (induction fuel arbitrary: i c)
  case (Suc fuel)
  show ?case
  proof (cases "poNow (polls i) > deadline")
    case True
    then show ?thesis by (auto simp: Let_def split: waitArm.split)
  next
    case False
    then have "start + int i * interval \<le> deadline" using ticks [of i] by linarith
    with Suc.prems(1) have "int i * interval < int (i + Suc fuel) * interval - interval" by linarith
    then have "0 < int fuel * interval" by (simp add: algebra_simps)
    then have pos: "0 < fuel" using assms(2) by (simp add: zero_less_mult_iff)
    have "deadline < start + int (Suc i + fuel) * interval - interval" using Suc.prems(1) by simp
    from Suc.IH [OF this pos] show ?thesis by (auto simp: Let_def split: waitArm.split)
  qed
qed simp

text \<open>
  C31: The health wait always ends.  A ticker never fires its \<open>k\<close>-th tick before \<open>k\<close> intervals have
  passed; whatever the probes answer, the wait of a deployment then returns a verdict after at most
  \<open>timeout / interval + 2\<close> turns of its loop, whatever the configuration says (an interval, a number
  of retries or a timeout that is missing, unparsable or not positive falls back to its default).
\<close>
theorem WaitForHealthy_terminates:
  assumes "resolvedConfig parseDuration cfg = (interval, retries, timeout)"
    and "\<And>k. start + int k * interval \<le> poNow (polls k)"
    and "fuel \<ge> nat (timeout div interval) + 2"
  shows "\<exists>r. WaitForHealthy fuel parseDuration t cfg pid ctxDeadline start polls = Some r"
proof -
  have pos: "0 < interval" "0 < timeout" using resolvedConfig_pos [OF assms(1)] by auto
  let ?d = "waitDeadline start timeout ctxDeadline"
  have "?d \<le> start + timeout" by (auto simp: waitDeadline_def split: option.split)
  also have "timeout < (timeout div interval + 1) * interval"
    using pos by (metis add.commute add_strict_left_mono div_mult_mod_eq distrib_right mult_1 pos_mod_bound)
  also have "(timeout div interval + 1) * interval \<le> (int fuel - 1) * interval"
    using assms(3) pos by (intro mult_right_mono) auto
  finally have "?d < start + int (0 + fuel) * interval - interval" by (simp add: algebra_simps)
  with waitLoop_ends [OF assms(2) pos(1) this] assms(3) show ?thesis
    by (simp add: WaitForHealthy_def assms(1))
qed

section \<open>Healthy means repeatedly answering\<close>

lemma waitLoop_healthy:
  assumes "waitLoop fuel t cfg retries deadline pid polls i c = Some (Inr ())"
    and "0 \<le> c" and "c \<le> int i"
    and "\<forall>j. int i - c \<le> int j \<and> j < i \<longrightarrow>
           Check t cfg (polls j) \<and> poNow (polls j) \<le> deadline \<and> (pid > 0 \<longrightarrow> poAlive (polls j))"
  shows "\<exists>k. retries \<le> int k + 1 \<and>
           (\<forall>j. int k + 1 - retries \<le> int j \<and> j \<le> k \<longrightarrow>
              Check t cfg (polls j) \<and> poNow (polls j) \<le> deadline \<and> (pid > 0 \<longrightarrow> poAlive (polls j)))"
  using assms
proof (induction fuel arbitrary: i c)
  case (Suc fuel)
  let ?ok = "\<lambda>j. Check t cfg (polls j) \<and> poNow (polls j) \<le> deadline \<and> (pid > 0 \<longrightarrow> poAlive (polls j))"
  let ?rec = "\<lambda>c. waitLoop fuel t cfg retries deadline pid polls (Suc i) c"
  consider (healthy) "retries \<le> c + 1" "?ok i"
    | (more) "?rec (c + 1) = Some (Inr ())" "?ok i" | (reset) "?rec 0 = Some (Inr ())"
    using Suc.prems(1) by (auto simp: Let_def split: waitArm.splits if_splits)
  then show ?case
  proof cases
    case healthy
    have "?ok j" if "int i + 1 - retries \<le> int j" "j \<le> i" for j
      using that healthy Suc.prems(4) by (cases "j = i") auto
    moreover have "retries \<le> int i + 1" using healthy(1) Suc.prems(3) by linarith
    ultimately show ?thesis by blast
  next
    case more
    have "?ok j" if "int (Suc i) - (c + 1) \<le> int j" "j < Suc i" for j
      using that more(2) Suc.prems(4) by (cases "j = i") auto
    then show ?thesis using Suc.IH [OF more(1)] Suc.prems(2,3) by auto
  next
    case reset
    have "\<not> (int (Suc i) - 0 \<le> int j \<and> j < Suc i)" for j by linarith
    then show ?thesis by (intro Suc.IH [OF reset] allI impI) (simp, simp, blast)
  qed
qed simp

text \<open>
  C32: Healthy means repeatedly answering.  When the wait reports a healthy instance, the last
  \<open>retries\<close> consecutive probes before the verdict all passed the check of the selected tier, none of
  them after the deadline, and with a known process id the process was alive at each of them; with
  an explicit health path each answered a status of the 200 range on that path.
\<close>
theorem WaitForHealthy_sound:
  assumes "resolvedConfig parseDuration cfg = (interval, retries, timeout)"
    and "WaitForHealthy fuel parseDuration t cfg pid ctxDeadline start polls = Some (Inr ())"
  shows "\<exists>k. retries \<le> int k + 1 \<and>
           (\<forall>j. int k + 1 - retries \<le> int j \<and> j \<le> k \<longrightarrow>
              Check t cfg (polls j) \<and> poNow (polls j) \<le> start + timeout \<and> (pid > 0 \<longrightarrow> poAlive (polls j)) \<and>
              (\<forall>c. t = Tier1HTTPPath \<and> cfg = Some c \<and> tcPath c \<noteq> '''' \<longrightarrow>
                   (\<exists>status. poHttp (polls j) (tcPath c) = Some status \<and> 200 \<le> status \<and> status < 300)))"
proof -
  let ?d = "waitDeadline start timeout ctxDeadline"
  have le: "?d \<le> start + timeout" by (auto simp: waitDeadline_def split: option.split)
  have "waitLoop fuel t cfg retries ?d pid polls 0 0 = Some (Inr ())"
    using assms(2) by (simp add: WaitForHealthy_def assms(1))
  then obtain k where k: "retries \<le> int k + 1"
    and ok: "\<forall>j. int k + 1 - retries \<le> int j \<and> j \<le> k \<longrightarrow>
              Check t cfg (polls j) \<and> poNow (polls j) \<le> ?d \<and> (pid > 0 \<longrightarrow> poAlive (polls j))"
    using waitLoop_healthy [of fuel t cfg retries ?d pid polls 0 0] by auto
  have "\<exists>status. poHttp po (tcPath c) = Some status \<and> 200 \<le> status \<and> status < 300"
    if "Check t cfg po" "t = Tier1HTTPPath" "cfg = Some c" "tcPath c \<noteq> ''''" for po c
    using that by (auto simp: Check_def split: option.splits)
  with k ok le show ?thesis by (intro exI [of _ k]) fastforce
qed

definition demoPolls :: "nat \<Rightarrow> poll" where
  "demoPolls k = \<lparr>poArm = ArmTick, poNow = int k * second, poAlive = True,
                   poHttp = (\<lambda>p. if p = ''/health'' \<and> k \<ge> 2 then Some 204 else None), poDial = True\<rparr>"

definition demoTier :: deployTierConfig where
  "demoTier = \<lparr>tcMode = TierModeAuto, tcPath = ''/health'', tcInterval = '''', tcRetries = 0, tcTimeout = ''''\<rparr>"

theorem WaitForHealthy_terminates_witness:
  "resolvedConfig (\<lambda>_. None) (Some demoTier) = (second, 5, 30 * second) \<and>
   (\<exists>r. WaitForHealthy 32 (\<lambda>_. None) Tier1HTTPPath (Some demoTier) 7 None 0 demoPolls = Some r)"
proof -
  have cfg: "resolvedConfig (\<lambda>_. None) (Some demoTier) = (second, 5, 30 * second)" by code_simp
  have ticks: "\<And>k. 0 + int k * second \<le> poNow (demoPolls k)" by (simp add: demoPolls_def)
  have fuel: "32 \<ge> nat (30 * second div second) + 2" by (simp add: second_def)
  show ?thesis using cfg WaitForHealthy_terminates [OF cfg ticks fuel] by blast
qed

theorem WaitForHealthy_sound_witness:
  "WaitForHealthy 32 (\<lambda>_. None) Tier1HTTPPath (Some demoTier) 7 None 0 demoPolls = Some (Inr ()) \<and>
   (\<exists>k. 5 \<le> int k + 1 \<and> (\<forall>j. int k + 1 - 5 \<le> int j \<and> j \<le> k \<longrightarrow> Check Tier1HTTPPath (Some demoTier) (demoPolls j)))"
proof -
  have cfg: "resolvedConfig (\<lambda>_. None) (Some demoTier) = (second, 5, 30 * second)" by code_simp
  have run: "WaitForHealthy 32 (\<lambda>_. None) Tier1HTTPPath (Some demoTier) 7 None 0 demoPolls = Some (Inr ())" by code_simp
  show ?thesis using run WaitForHealthy_sound [OF cfg run] by blast
qed

end
