(* ===== verification/BlueGreen.thy ===== *)
theory BlueGreen
  imports DeployState DeployHealth
begin

text \<open>
  Blue-green deployments (\<open>internal/deploy/bluegreen.go\<close>, with the port hand-off of \<open>lifecycle.go\<close>).
  The functions the struct carries (build source, launcher, overlay, hand-off) are arguments; the
  health wait is the one of \<open>DeployHealth\<close>.  A deployment is one computation of the state monad over
  the world; it is cut at its numbered steps, and every early return of the code is a branch.  The
  third component of a result tells whether the deferred hook sees the traffic as switched.
\<close>

section \<open>The program\<close>

record launched =
  lnHandle :: handle
  lnPID :: int
  lnTicks :: nat
  lnPort :: int
  lnContainerID :: string

record 'r blueGreen =
  bgAppName :: string
  bgAppID :: string
  bgPublicPort :: int
  bgHasSource :: bool
  bgBuild :: "'r appStore \<Rightarrow> (code, string \<times> string \<times> int) result \<times> 'r appStore"
  bgOverlay :: "string \<Rightarrow> (code, string list) result"
  bgSecretEnvs :: "string list \<Rightarrow> string list"
  bgLauncher :: "nat \<Rightarrow> string \<Rightarrow> string list \<Rightarrow> os \<Rightarrow> (code, launched) result \<times> os"
  bgProxyClient :: bool
  bgHealthCfg :: "deployTierConfig option"
  bgRuntime :: string
  bgNetwork :: string
  bgSecrets :: "string option"
  bgPortHandoff :: "(nat \<Rightarrow> (code, unit) result \<times> bool) option"
  bgParseDuration :: "string \<Rightarrow> int option"
  bgRootAnswers :: "nat \<Rightarrow> bool"
  bgPolls :: "nat \<Rightarrow> nat \<Rightarrow> poll"
  bgCrashed :: "nat \<Rightarrow> bool"
  bgOom :: "nat \<Rightarrow> bool"

datatype deployResult = Deployed | DeployFailed code | DeployPanic

type_synonym outcome3 = "deployResult \<times> bool \<times> deployState"

text \<open>\<open>bg.storeState\<close>: a failed write is only logged.\<close>

definition storeState :: "deployEnv \<Rightarrow> deployState \<Rightarrow> ('r world, deployState) state" where
  "storeState env s = do { (r, s') \<leftarrow> storeW env s; State_Monad.return s' }"

definition setSlot :: "string \<Rightarrow> inst \<Rightarrow> deployState \<Rightarrow> deployState" where
  "setSlot slot i s = s\<lparr>dsSlots := AList.update slot i (dsSlots s)\<rparr>"

definition markFailed :: "bool \<Rightarrow> string \<Rightarrow> deployState \<Rightarrow> deployState" where
  "markFailed clearPID slot s =
     (case map_of (dsSlots s) slot of
        None \<Rightarrow> s
      | Some i \<Rightarrow> setSlot slot (if clearPID then i\<lparr>inStatus := ''failed'', inPID := 0\<rparr> else i\<lparr>inStatus := ''failed''\<rparr>) s)"

text \<open>An abort before the switch: stop the candidate, mark its slot, store and fail.\<close>

definition abort ::
    "deployEnv \<Rightarrow> bool \<Rightarrow> string \<Rightarrow> handle \<Rightarrow> code \<Rightarrow> deployState \<Rightarrow> ('r world, outcome3) state" where
  "abort env clearPID slot h e s = do {
     killW env h;
     s' \<leftarrow> storeState env (markFailed clearPID slot s);
     State_Monad.return (DeployFailed e, False, s')
   }"

definition portAvailable :: "int \<Rightarrow> 'r world \<Rightarrow> bool" where
  "portAvailable port w \<longleftrightarrow>
     \<not> wForeign w port \<and> port \<notin> set (map (pxPublicPort \<circ> snd) (dmProxies (wDaemon w)))"

definition handOffPublicPort :: "'r blueGreen \<Rightarrow> ('r world, (code, unit) result) state" where
  "handOffPublicPort bg =
     (case bgPortHandoff bg of
        None \<Rightarrow> State_Monad.return (Inr ())
      | Some handoff \<Rightarrow>
          if bgPublicPort bg \<le> 0 then State_Monad.return (Inr ())
          else do {
            free \<leftarrow> look (portAvailable (bgPublicPort bg));
            if free then State_Monad.return (Inr ())
            else do {
              r \<leftarrow> act (\<lambda>n w. case handoff n of
                     (r, gone) \<Rightarrow> (r, if gone then w\<lparr>wForeign := (wForeign w)(bgPublicPort bg := False)\<rparr> else w));
              case r of
                Inl e \<Rightarrow> State_Monad.return (Inl CodeProxy)
              | Inr _ \<Rightarrow> do {
                  released \<leftarrow> look (portAvailable (bgPublicPort bg));
                  State_Monad.return (if released then Inr () else Inl CodePortUnavailable)
                }
            }
          })"

subsection \<open>Starting and checking the candidate\<close>

text \<open>Select the tier and wait; a candidate that fails may have crashed on its own.\<close>

definition healthFuel :: "(string \<Rightarrow> int option) \<Rightarrow> deployTierConfig option \<Rightarrow> nat" where
  "healthFuel pd cfg = (case resolvedConfig pd cfg of (interval, _, timeout) \<Rightarrow> nat (timeout div interval) + 2)"

fun tierNumber :: "tier \<Rightarrow> nat" where
  "tierNumber TierUnknown = 0"
| "tierNumber Tier1HTTPPath = 1"
| "tierNumber Tier2HTTPAny = 2"
| "tierNumber Tier3TCP = 3"
| "tierNumber Tier3None = 4"

definition awaitHealthy :: "'r blueGreen \<Rightarrow> launched \<Rightarrow> ('r world, bool \<times> tier) state" where
  "awaitHealthy bg ln =
     act (\<lambda>n w.
       let t = SelectTier (bgHealthCfg bg) (bgRootAnswers bg n);
           r = WaitForHealthy (healthFuel (bgParseDuration bg) (bgHealthCfg bg)) (bgParseDuration bg) t
                 (bgHealthCfg bg) (lnPID ln) None (poNow (bgPolls bg n 0)) (bgPolls bg n)
       in if r = Some (Inr ()) then ((True, t), w)
          else ((False, t), if bgCrashed bg n then w\<lparr>wOs := endProcess (lnHandle ln) (wOs w)\<rparr> else w))"

definition candidateOf :: "'r blueGreen \<Rightarrow> string \<Rightarrow> string \<Rightarrow> string \<Rightarrow> int \<Rightarrow> string list \<Rightarrow> int \<Rightarrow> launched \<Rightarrow> inst" where
  "candidateOf bg slot binaryPath envPath targetVer overlay now ln =
     \<lparr>inSecretEnvs = bgSecretEnvs bg overlay, inSlot = slot, inPID = lnPID ln, inPort = lnPort ln,
      inBinaryPath = binaryPath, inContainerID = lnContainerID ln, inStartedAt = now,
      inStatus = ''starting'', inVersion = targetVer, inEnvPath = envPath, inStartTicks = lnTicks ln,
      inRestartCount = 0, inLastRestartAt = 0, inLastExitCode = 0, inLastExitReason = '''', inLastExitAt = 0,
      inReadyAt = 0\<rparr>"

definition markHealthy :: "string \<Rightarrow> tier \<Rightarrow> int \<Rightarrow> deployState \<Rightarrow> deployState" where
  "markHealthy slot t now s =
     (case map_of (dsSlots s) slot of
        None \<Rightarrow> s
      | Some i \<Rightarrow> (setSlot slot (i\<lparr>inStatus := ''running''\<rparr>) s)\<lparr>dsHealth := Some \<lparr>hsTier = tierNumber t, hsHealthyAt = now\<rparr>\<rparr>)"

subsection \<open>After the switch\<close>

text \<open>The state could not be stored after the switch.\<close>

definition restored :: "string \<Rightarrow> int \<Rightarrow> string \<Rightarrow> deployState \<Rightarrow> deployState" where
  "restored oldActive oldVersion oldStamp s =
     s\<lparr>dsActiveSlot := oldActive, dsActiveVersion := oldVersion, dsSecretTxnID := oldStamp\<rparr>"

definition undoSwitch ::
    "deployEnv \<Rightarrow> string \<Rightarrow> handle \<Rightarrow> code \<Rightarrow> deployState \<Rightarrow> ('r world, outcome3) state" where
  "undoSwitch env slot h e s = do {
     (r, s') \<leftarrow> retireFailedCandidate env slot s;
     case r of
       Inl e' \<Rightarrow> State_Monad.return (DeployFailed e', False, s')
     | Inr _ \<Rightarrow> do { killW env h; State_Monad.return (DeployFailed e, False, s') }
   }"

definition targetOf :: "string \<Rightarrow> int \<Rightarrow> target" where
  "targetOf label port = \<lparr>tHost = hostPort port, tLabel = label, tWeight = 0\<rparr>"

definition compensatePersist ::
    "'r blueGreen \<Rightarrow> deployEnv \<Rightarrow> string \<Rightarrow> handle \<Rightarrow> string \<Rightarrow> int \<Rightarrow> string \<Rightarrow> deployState \<Rightarrow> ('r world, outcome3) state" where
  "compensatePersist bg env slot h oldActive oldVersion oldStamp s =
     (if oldActive \<noteq> '''' \<and> bgProxyClient bg then
        (case map_of (dsSlots s) oldActive of
           None \<Rightarrow> State_Monad.return (DeployFailed CodeFilesystem, True, s)
         | Some old \<Rightarrow>
             if inPort old > 0 then do {
               r \<leftarrow> proxySwitch env (bgAppName bg) (targetOf oldActive (inPort old)) [];
               case r of
                 Inl e \<Rightarrow> State_Monad.return (DeployFailed CodeProxy, True, s)
               | Inr _ \<Rightarrow> undoSwitch env slot h CodeFilesystem (restored oldActive oldVersion oldStamp s)
             }
             else State_Monad.return (DeployFailed CodeFilesystem, True, s))
      else if oldActive = '''' \<and> bgProxyClient bg then do {
        r \<leftarrow> proxyRemove env (bgAppName bg);
        case r of
          Inl e \<Rightarrow> State_Monad.return (DeployFailed CodeFilesystem, True, s)
        | Inr _ \<Rightarrow> undoSwitch env slot h CodeFilesystem (restored '''' oldVersion oldStamp s)
      }
      else State_Monad.return (DeployFailed CodeFilesystem, True, s))"

text \<open>The target could not be promoted: \<open>compErr\<close> of the code is the outcome of the proxy call, if one is made.\<close>

definition compensatePromote ::
    "'r blueGreen \<Rightarrow> deployEnv \<Rightarrow> string \<Rightarrow> handle \<Rightarrow> int \<Rightarrow> string \<Rightarrow> int \<Rightarrow> string \<Rightarrow> code \<Rightarrow> deployState
       \<Rightarrow> ('r world, outcome3) state" where
  "compensatePromote bg env slot h targetVer oldActive oldVersion oldStamp e s = do {
     let s1 = s\<lparr>dsActiveSlot := oldActive, dsActiveVersion := oldVersion\<rparr>;
     ok \<leftarrow> (if oldActive \<noteq> '''' \<and> bgProxyClient bg then
              (case map_of (dsSlots s) oldActive of
                 None \<Rightarrow> State_Monad.return True
               | Some old \<Rightarrow>
                   if inPort old > 0 then do {
                     r \<leftarrow> proxySwitch env (bgAppName bg) (targetOf oldActive (inPort old)) [];
                     State_Monad.return (isOk r)
                   } else State_Monad.return True)
            else if oldActive = '''' \<and> bgProxyClient bg then do {
              r \<leftarrow> proxyRemove env (bgAppName bg);
              State_Monad.return (isOk r)
            }
            else State_Monad.return True);
     if ok then do {
       (r, s2) \<leftarrow> retireFailedCandidate env slot (s1\<lparr>dsSecretTxnID := oldStamp\<rparr>);
       case r of
         Inl _ \<Rightarrow> State_Monad.return (DeployFailed CodeFilesystem, False, s2)
       | Inr _ \<Rightarrow> do { killW env h; State_Monad.return (DeployFailed e, False, s2) }
     }
     else do {
       s2 \<leftarrow> storeState env (s1\<lparr>dsActiveSlot := slot, dsActiveVersion := targetVer\<rparr>);
       State_Monad.return (DeployFailed CodeProxy, True, s2)
     }
   }"

text \<open>
  Drain the retired instances and the previous slot, and store the final record.  With secrets the
  retired instances of a migration are also entries of the record (the same objects), which the stop
  marks there.
\<close>

definition retiredStopped :: "'r blueGreen \<Rightarrow> inst list \<Rightarrow> string \<Rightarrow> deployState \<Rightarrow> deployState" where
  "retiredStopped bg legacy oldActive s =
     (if bgSecrets bg = None then s
      else
        let k = (case map_of (dsSlots s) oldActive of None \<Rightarrow> 0 | Some _ \<Rightarrow> 1);
            n = length (dsRetiring s) - length legacy - k
        in s\<lparr>dsRetiring := take n (dsRetiring s) @ map stoppedInst legacy @ drop (n + length legacy) (dsRetiring s)\<rparr>)"

definition drainOld ::
    "'r blueGreen \<Rightarrow> deployEnv \<Rightarrow> inst list \<Rightarrow> string \<Rightarrow> deployState \<Rightarrow> ('r world, outcome3) state" where
  "drainOld bg env legacy oldActive s0 = do {
     r \<leftarrow> stopRetiredInstances env legacy;
     case r of
       Inl e \<Rightarrow> State_Monad.return (DeployFailed e, True, s0)
     | Inr _ \<Rightarrow> do {
         let s = retiredStopped bg legacy oldActive s0;
         (ok, s1) \<leftarrow>
           (if oldActive = '''' then State_Monad.return (True, s)
            else case map_of (dsSlots s) oldActive of
              None \<Rightarrow> State_Monad.return (True, s)
            | Some old \<Rightarrow>
                if \<not> hasProcess old then State_Monad.return (True, s)
                else do {
                  report \<leftarrow> stopW env old;
                  State_Monad.return
                    (if rpExited report
                     then (True, setSlot oldActive (old\<lparr>inStatus := ''stopped'', inPID := 0, inContainerID := ''''\<rparr>) s)
                     else (False, s))
                });
         if \<not> ok then State_Monad.return (DeployFailed CodeProcessFailed, True, s1)
         else do {
           (p, s2) \<leftarrow> storeW env s1;
           State_Monad.return (case p of Inl _ \<Rightarrow> (DeployFailed CodeFilesystem, True, s2) | Inr _ \<Rightarrow> (Deployed, True, s2))
         }
       }
   }"

definition promoteW :: "deployEnv \<Rightarrow> string \<Rightarrow> int \<Rightarrow> ('r world, (code, unit) result) state" where
  "promoteW env app ver =
     act (\<lambda>n w. case PromoteVersion (evVio env n) app ver ModeBlueGreen (wVersions w) of
                  (r, v) \<Rightarrow> (r, w\<lparr>wVersions := v\<rparr>))"

text \<open>
  The record of the switched traffic.  When there is no previous slot the code appends a nil entry to
  the retiring instances, which every reader skips; it is left out here.
\<close>

definition committed :: "'r blueGreen \<Rightarrow> string \<Rightarrow> int \<Rightarrow> inst list \<Rightarrow> string \<Rightarrow> deployState \<Rightarrow> deployState" where
  "committed bg slot targetVer legacy oldActive s =
     (let s1 = Stamp (bgSecrets bg) [] (s\<lparr>dsActiveSlot := slot, dsActiveVersion := targetVer\<rparr>) in
      if bgSecrets bg = None then s1
      else s1\<lparr>dsRetiring := dsRetiring s1 @ legacy @
               (case map_of (dsSlots s) oldActive of None \<Rightarrow> [] | Some old \<Rightarrow> [old])\<rparr>)"

definition commitSwitch ::
    "'r blueGreen \<Rightarrow> deployEnv \<Rightarrow> string \<Rightarrow> handle \<Rightarrow> int \<Rightarrow> inst list \<Rightarrow> string \<Rightarrow> deployState \<Rightarrow> ('r world, outcome3) state" where
  "commitSwitch bg env slot h targetVer legacy oldActive s = do {
     let oldVersion = dsActiveVersion s;
     let oldStamp = dsSecretTxnID s;
     (r, s1) \<leftarrow> storeW env (committed bg slot targetVer legacy oldActive s);
     case r of
       Inl _ \<Rightarrow> compensatePersist bg env slot h oldActive oldVersion oldStamp s1
     | Inr _ \<Rightarrow>
         if targetVer > 0 then do {
           p \<leftarrow> promoteW env (bgAppName bg) targetVer;
           case p of
             Inl e \<Rightarrow> compensatePromote bg env slot h targetVer oldActive oldVersion oldStamp e s1
           | Inr _ \<Rightarrow> drainOld bg env legacy oldActive s1
         }
         else drainOld bg env legacy oldActive s1
   }"

subsection \<open>The deployment\<close>

text \<open>Step 7: enrol the application, or switch it.\<close>

definition switchTraffic ::
    "'r blueGreen \<Rightarrow> deployEnv \<Rightarrow> bool \<Rightarrow> bool \<Rightarrow> string \<Rightarrow> launched \<Rightarrow> int \<Rightarrow> inst list \<Rightarrow> string \<Rightarrow> deployState
       \<Rightarrow> ('r world, outcome3) state" where
  "switchTraffic bg env proxyOK enrolled slot ln targetVer legacy active s =
     (let h = lnHandle ln; prim = targetOf slot (lnPort ln) in
      if active = '''' \<or> \<not> enrolled then
        if \<not> bgProxyClient bg then abort env True slot h CodeProxy s
        else if \<not> proxyOK then abort env True slot h CodeConnection s
        else do {
          handed \<leftarrow> (if enrolled then State_Monad.return (Inr ()) else handOffPublicPort bg);
          case handed of
            Inl e \<Rightarrow> abort env True slot h e s
          | Inr _ \<Rightarrow> do {
              r \<leftarrow> proxyAdd env (bgAppName bg) (bgPublicPort bg) prim [];
              case r of
                Inl e \<Rightarrow> abort env False slot h CodeProxy s
              | Inr _ \<Rightarrow> commitSwitch bg env slot h targetVer legacy '''' s
            }
        }
      else if \<not> bgProxyClient bg then abort env True slot h CodeProxy s
      else do {
        r \<leftarrow> proxySwitch env (bgAppName bg) prim [];
        case r of
          Inl e \<Rightarrow> abort env False slot h CodeProxy s
        | Inr _ \<Rightarrow> commitSwitch bg env slot h targetVer legacy active s
      })"

text \<open>Steps 3 to 6: build, launch, record and check the candidate.\<close>

definition launchCandidate ::
    "'r blueGreen \<Rightarrow> deployEnv \<Rightarrow> bool \<Rightarrow> bool \<Rightarrow> string \<Rightarrow> string \<Rightarrow> inst list \<Rightarrow> deployState \<Rightarrow> ('r world, outcome3) state" where
  "launchCandidate bg env proxyOK enrolled slot active legacy s = do {
     built \<leftarrow> act (\<lambda>n w. case bgBuild bg (wVersions w) of (r, v) \<Rightarrow> (r, w\<lparr>wVersions := v\<rparr>));
     case built of
       Inl e \<Rightarrow> State_Monad.return (DeployFailed CodeBuildFailed, False, s)
     | Inr (binaryPath, envPath, targetVer) \<Rightarrow>
         (case bgOverlay bg envPath of
            Inl e \<Rightarrow> State_Monad.return (DeployFailed e, False, s)
          | Inr overlay \<Rightarrow> do {
              started \<leftarrow> act (\<lambda>n w. case bgLauncher bg n binaryPath overlay (wOs w) of (r, sys) \<Rightarrow> (r, w\<lparr>wOs := sys\<rparr>));
              case started of
                Inl e \<Rightarrow> State_Monad.return (DeployFailed CodeInstanceStartFailed, False, s)
              | Inr ln \<Rightarrow> do {
                  n \<leftarrow> look wClock;
                  s1 \<leftarrow> storeState env (setSlot slot (candidateOf bg slot binaryPath envPath targetVer overlay (evNow env n) ln) s);
                  (healthy, t) \<leftarrow> awaitHealthy bg ln;
                  if \<not> healthy then do {
                    n' \<leftarrow> look wClock;
                    abort env True slot (lnHandle ln) (if bgOom bg n' then CodeResourceOOM else CodeHealthCheckFailed) s1
                  }
                  else do {
                    n' \<leftarrow> look wClock;
                    switchTraffic bg env proxyOK enrolled slot ln targetVer legacy active (markHealthy slot t (evNow env n') s1)
                  }
                }
            })
   }"

text \<open>Steps 1b and 2: recover leftovers, make sure the slot has a record, look at the proxy.\<close>

definition deploySlot :: "'r blueGreen \<Rightarrow> deployEnv \<Rightarrow> inst list \<Rightarrow> deployState \<Rightarrow> ('r world, outcome3) state" where
  "deploySlot bg env legacy s = do {
     let slot = InactiveSlot s;
     (r, s1) \<leftarrow> recoverStaleSlots env s;
     case r of
       Inl e \<Rightarrow> State_Monad.return (DeployFailed e, False, s1)
     | Inr _ \<Rightarrow>
         if map_of (dsSlots s1) slot = None \<and> dsSlots s1 = [] then State_Monad.return (DeployPanic, False, s1)
         else do {
           let s2 = (if map_of (dsSlots s1) slot = None then setSlot slot (emptyInst slot) s1 else s1);
           s3 \<leftarrow> storeState env s2;
           proxyOK \<leftarrow> (if bgProxyClient bg then proxyPing env else State_Monad.return False);
           enrolled \<leftarrow> (if bgProxyClient bg then proxyEnrolled env (bgAppName bg) else State_Monad.return False);
           launchCandidate bg env proxyOK enrolled slot (dsActiveSlot s) legacy s3
         }
   }"

text \<open>The deferred hook: a failed deployment whose traffic was not switched undoes the migration.\<close>

definition undoMigration :: "'r blueGreen \<Rightarrow> deployEnv \<Rightarrow> modeSnapshot \<Rightarrow> outcome3 \<Rightarrow> ('r world, deployResult) state" where
  "undoMigration bg env pre out =
     (case out of (res, switched, s) \<Rightarrow>
        if (case res of DeployFailed _ \<Rightarrow> \<not> switched | _ \<Rightarrow> False) then
          if msMode pre \<noteq> '''' \<and> msMode pre \<noteq> ModeBlueGreen then do {
            s' \<leftarrow> storeState env (restoreMode pre s);
            State_Monad.return res
          }
          else if msMode pre = '''' then do { RemoveState env (bgAppName bg); State_Monad.return res }
          else State_Monad.return res
        else State_Monad.return res)"

definition withRuntime :: "'r blueGreen \<Rightarrow> deployState \<Rightarrow> deployState" where
  "withRuntime bg s =
     (let s1 = s\<lparr>dsAppID := bgAppID bg, dsSecretPreparing := (bgSecrets bg \<noteq> None)\<rparr>;
          s2 = (if bgRuntime bg \<noteq> '''' then s1\<lparr>dsRuntime := bgRuntime bg\<rparr> else s1)
      in if bgNetwork bg \<noteq> '''' then s2\<lparr>dsNetwork := bgNetwork bg\<rparr> else s2)"

definition BlueGreen_Deploy :: "'r blueGreen \<Rightarrow> deployEnv \<Rightarrow> ('r world, deployResult) state" where
  "BlueGreen_Deploy bg env =
     (if \<not> bgHasSource bg then State_Monad.return (DeployFailed CodeInvalidArgument)
      else do {
        loaded \<leftarrow> look (\<lambda>w. LoadOrInit (bgAppName bg) ModeBlueGreen (bgPublicPort bg) (wFile w));
        case loaded of
          Inl e \<Rightarrow> State_Monad.return (DeployFailed CodeConfiguration)
        | Inr st \<Rightarrow> do {
            let s = withRuntime bg st;
            let pre = captureMode s;
            (m, s1) \<leftarrow> MigrateTo env ModeBlueGreen s;
            case m of
              Inl e \<Rightarrow> State_Monad.return (DeployFailed CodeFilesystem)
            | Inr legacy \<Rightarrow> do {
                out \<leftarrow> deploySlot bg env legacy s1;
                undoMigration bg env pre out
              }
          }
      })"

section \<open>Zero downtime\<close>

text \<open>
  Where a deployment of an application that was serving from \<open>tOld\<close> may end: on the candidate of the
  deployed slot when the hook sees the traffic as switched, and on the old target otherwise.  A
  reported success also means that the stored record names the new slot and its running instance.
\<close>

definition settled :: "string \<Rightarrow> string \<Rightarrow> target \<Rightarrow> handle \<Rightarrow> outcome3 \<Rightarrow> 'r world \<Rightarrow> bool" where
  "settled app slot tOld hOld out w \<longleftrightarrow>
     (case out of (res, switched, s) \<Rightarrow>
        if switched then
          (\<exists>h port. onRoute app (targetOf slot port) {(h, hostPort port)} w \<and>
             (res = Deployed \<longrightarrow>
                wFile w = DeployFile s \<and> dsActiveSlot s = slot \<and>
                (\<exists>i. map_of (dsSlots s) slot = Some i \<and> inPort i = port \<and> inStatus i = ''running'')))
        else onRoute app tOld {(hOld, tHost tOld)} w \<and> res \<noteq> Deployed)"

text \<open>The record between the health check and the drain: both slots have their instance.\<close>

definition bothSlots :: "string \<Rightarrow> string \<Rightarrow> inst \<Rightarrow> int \<Rightarrow> deployState \<Rightarrow> bool" where
  "bothSlots slot active old port s \<longleftrightarrow>
     slot \<noteq> active \<and> active \<noteq> '''' \<and> inPort old > 0 \<and> map_of (dsSlots s) active = Some old \<and>
     (\<exists>i. map_of (dsSlots s) slot = Some i \<and> inPort i = port \<and> inStatus i = ''running'')"

lemma bothSlots_cong: "dsSlots s' = dsSlots s \<Longrightarrow> bothSlots slot active old port s' = bothSlots slot active old port s"
  by (simp add: bothSlots_def)

lemma targetOf_host [simp]: "tHost (targetOf l port) = hostPort port"
  by (simp add: targetOf_def)

definition pairUp :: "handle \<Rightarrow> target \<Rightarrow> handle \<Rightarrow> int \<Rightarrow> (handle \<times> string) set" where
  "pairUp hOld tOld h port = {(hOld, tHost tOld), (h, hostPort port)}"

lemma pairUp_old: "onRoute app tOld (pairUp hOld tOld h port) w \<Longrightarrow> onRoute app tOld {(hOld, tHost tOld)} w"
  by (rule onRoute_sub) (auto simp: pairUp_def)

lemma pairUp_new:
  "onRoute app (targetOf slot port) (pairUp hOld tOld h port) w \<Longrightarrow> onRoute app (targetOf slot port) {(h, hostPort port)} w"
  by (rule onRoute_sub) (auto simp: pairUp_def)

lemma settled_switched:
  "onRoute app (targetOf slot port) (pairUp hOld tOld h port) w \<Longrightarrow> res \<noteq> Deployed \<Longrightarrow>
     settled app slot tOld hOld (res, True, s) w"
  using pairUp_new by (fastforce simp: settled_def)

lemma settled_new:
  "onRoute app (targetOf slot port) {(h, hostPort port)} w \<Longrightarrow>
     (res = Deployed \<Longrightarrow> wFile w = DeployFile s \<and> dsActiveSlot s = slot \<and> map_of (dsSlots s) slot = Some i \<and>
        inPort i = port \<and> inStatus i = ''running'') \<Longrightarrow> settled app slot tOld hOld (res, True, s) w"
  unfolding settled_def by auto

lemma storeState_route:
  "triple (onRoute app R ups) (storeState env s) (\<lambda>s' w. onRoute app R ups w \<and> sameRecord s s')"
  unfolding storeState_def
  by (rule triple_bind [OF storeW_route]) (auto intro!: triple_pair triple_return split: prod.splits)

lemma abort_settled:
  assumes "h \<noteq> hOld"
  shows "triple (onRoute app tOld {(hOld, tHost tOld)}) (abort env c slot h e s) (settled app sl tOld hOld)"
  unfolding abort_def
proof (rule triple_bind [OF killW_route])
  fix a :: unit
  show "triple (onRoute app tOld {(hOld, tHost tOld)})
     (State_Monad.bind (storeState env (markFailed c slot s)) (\<lambda>s'. State_Monad.return (DeployFailed e, False, s')))
     (settled app sl tOld hOld)"
    by (rule triple_bind [OF storeState_route]) (auto intro!: triple_return simp: settled_def)
qed (use assms in auto)

lemma retireFailedCandidate_route:
  "triple (onRoute app R ups) (retireFailedCandidate env slot s) (\<lambda>_. onRoute app R ups)"
  unfolding retireFailedCandidate_def Let_def
  by (intro triple_option triple_return triple_bind [OF storeW_route] triple_pair triple_sum) auto

lemma undoSwitch_settled:
  assumes "h \<noteq> hOld"
  shows "triple (onRoute app tOld (pairUp hOld tOld h port)) (undoSwitch env slot h e s) (settled app sl tOld hOld)"
  unfolding undoSwitch_def
proof (rule triple_pre [OF triple_bind [OF retireFailedCandidate_route [where ups = "{(hOld, tHost tOld)}"]] pairUp_old])
  have kill: "triple (onRoute app tOld {(hOld, tHost tOld)})
      (State_Monad.bind (killW env h) (\<lambda>_. State_Monad.return (DeployFailed e, False, s'))) (settled app sl tOld hOld)" for s'
    using assms by (intro triple_bind [OF killW_route] triple_return) (auto simp: settled_def)
  show "triple (onRoute app tOld {(hOld, tHost tOld)})
      (case a of (r, s') \<Rightarrow> case r of Inl e' \<Rightarrow> State_Monad.return (DeployFailed e', False, s')
        | Inr _ \<Rightarrow> State_Monad.bind (killW env h) (\<lambda>_. State_Monad.return (DeployFailed e, False, s')))
      (settled app sl tOld hOld)" for a
    by (intro triple_pair triple_sum kill triple_return) (simp add: settled_def)
qed

lemma compensatePersist_settled:
  assumes "h \<noteq> hOld" and "bothSlots slot active old port s" and "tOld = targetOf active (inPort old)"
    and "bgProxyClient bg" and "\<And>n. evFault env OpSwitch n \<noteq> LostReply"
  shows "triple (onRoute (bgAppName bg) (targetOf slot port) (pairUp hOld tOld h port))
           (compensatePersist bg env slot h active v st s) (settled (bgAppName bg) slot tOld hOld)"
proof -
  let ?app = "bgAppName bg" and ?ups = "pairUp hOld tOld h port"
  have old: "active \<noteq> ''''" "map_of (dsSlots s) active = Some old" "inPort old > 0" using assms(2) by (auto simp: bothSlots_def)
  have "triple (onRoute ?app (targetOf slot port) ?ups)
     (State_Monad.bind (proxySwitch env ?app tOld [])
        (\<lambda>r. case r of Inl e \<Rightarrow> State_Monad.return (DeployFailed CodeProxy, True, s)
           | Inr x \<Rightarrow> undoSwitch env slot h CodeFilesystem (restored active v st s)))
     (settled ?app slot tOld hOld)"
  proof (rule triple_bind [OF proxySwitch_route [OF _ assms(5)]])
    show "(hOld, tHost tOld) \<in> ?ups" by (simp add: pairUp_def)
    show "triple (onRoute ?app (if isOk a then tOld else targetOf slot port) ?ups)
        (case a of Inl e \<Rightarrow> State_Monad.return (DeployFailed CodeProxy, True, s)
           | Inr x \<Rightarrow> undoSwitch env slot h CodeFilesystem (restored active v st s)) (settled ?app slot tOld hOld)" for a
      using undoSwitch_settled [OF assms(1)]
      by (cases a) (auto intro!: triple_return intro: settled_switched)
  qed
  then show ?thesis using old assms(3,4) by (simp add: compensatePersist_def)
qed

lemma compensatePromote_settled:
  assumes "h \<noteq> hOld" and "bothSlots slot active old port s" and "tOld = targetOf active (inPort old)"
    and "bgProxyClient bg" and "\<And>n. evFault env OpSwitch n \<noteq> LostReply"
  shows "triple (onRoute (bgAppName bg) (targetOf slot port) (pairUp hOld tOld h port))
           (compensatePromote bg env slot h ver active v st e s) (settled (bgAppName bg) slot tOld hOld)"
proof -
  let ?app = "bgAppName bg" and ?ups = "pairUp hOld tOld h port" and ?one = "{(hOld, tHost tOld)}"
  have old: "active \<noteq> ''''" "map_of (dsSlots s) active = Some old" "inPort old > 0" using assms(2) by (auto simp: bothSlots_def)
  have kill: "triple (onRoute ?app tOld ?one :: 'a world \<Rightarrow> bool)
      (State_Monad.bind (killW env h) (\<lambda>_. State_Monad.return (DeployFailed e, False, s'))) (settled ?app slot tOld hOld)" for s'
    using assms(1) by (intro triple_bind [OF killW_route] triple_return) (auto simp: settled_def)
  have undone: "triple (onRoute ?app tOld ?ups :: 'a world \<Rightarrow> bool)
      (State_Monad.bind (retireFailedCandidate env slot s') (\<lambda>(r, s2). case r of
          Inl _ \<Rightarrow> State_Monad.return (DeployFailed CodeFilesystem, False, s2)
        | Inr _ \<Rightarrow> State_Monad.bind (killW env h) (\<lambda>_. State_Monad.return (DeployFailed e, False, s2))))
      (settled ?app slot tOld hOld)" for s'
    by (rule triple_pre [OF triple_bind [OF retireFailedCandidate_route [where ups = ?one]] pairUp_old])
      (intro triple_pair triple_sum, (rule triple_return, simp add: settled_def), rule kill)
  have stuck: "triple (onRoute ?app (targetOf slot port) ?ups :: 'a world \<Rightarrow> bool)
      (State_Monad.bind (storeState env s') (\<lambda>s2. State_Monad.return (DeployFailed CodeProxy, True, s2)))
      (settled ?app slot tOld hOld)" for s'
    by (rule triple_bind [OF storeState_route]) (auto intro!: triple_return intro: settled_switched)
  have "compensatePromote bg env slot h ver active v st e s =
      State_Monad.bind (proxySwitch env ?app tOld []) (\<lambda>x. if isOk x
        then State_Monad.bind (retireFailedCandidate env slot (s\<lparr>dsActiveSlot := active, dsActiveVersion := v, dsSecretTxnID := st\<rparr>))
          (\<lambda>(r, s2). case r of
              Inl _ \<Rightarrow> State_Monad.return (DeployFailed CodeFilesystem, False, s2)
            | Inr _ \<Rightarrow> State_Monad.bind (killW env h) (\<lambda>_. State_Monad.return (DeployFailed e, False, s2)))
        else State_Monad.bind (storeState env (s\<lparr>dsActiveSlot := active, dsActiveVersion := v, dsActiveSlot := slot, dsActiveVersion := ver\<rparr>))
          (\<lambda>s2. State_Monad.return (DeployFailed CodeProxy, True, s2)))"
    unfolding compensatePromote_def Let_def using old assms(3,4) by simp
  moreover have "(hOld, tHost tOld) \<in> ?ups" by (simp add: pairUp_def)
  ultimately show ?thesis
    using undone stuck
    by (auto intro!: triple_bind [OF proxySwitch_route [where h = hOld, OF _ assms(5)]])
qed

lemma retiredStopped_none [simp]: "retiredStopped bg [] active s = s"
  by (simp add: retiredStopped_def)

lemma drainOld_settled:
  assumes "bothSlots slot active old port s" and "handleOf old \<noteq> h"
    and "dsActiveSlot s = slot" and "\<not> dsSecretPreparing s"
  shows "triple (onRoute app (targetOf slot port) {(h, hostPort port)}) (drainOld bg env [] active s)
           (settled app slot tOld hOld)"
proof -
  let ?on = "onRoute app (targetOf slot port) {(h, hostPort port)} :: 'a world \<Rightarrow> bool"
  let ?s = "setSlot active (old\<lparr>inStatus := ''stopped'', inPID := 0, inContainerID := ''''\<rparr>) s"
  have old: "active \<noteq> ''''" "map_of (dsSlots s) active = Some old" "slot \<noteq> active" using assms(1) by (auto simp: bothSlots_def)
  obtain i where i: "map_of (dsSlots s) slot = Some i" "inPort i = port" "inStatus i = ''running''"
    using assms(1) by (auto simp: bothSlots_def)
  define good where "good = (\<lambda>s' :: deployState. dsActiveSlot s' = slot \<and> \<not> dsSecretPreparing s' \<and> map_of (dsSlots s') slot = Some i)"
  have good: "good s" "good ?s"
    using assms(3,4) i(1) old(3) by (auto simp: good_def setSlot_def AList.update_conv')
  have fin: "triple ?on (State_Monad.bind (storeW env s') (\<lambda>(p, s2). State_Monad.return
        (case p of Inl _ \<Rightarrow> (DeployFailed CodeFilesystem, True, s2) | Inr _ \<Rightarrow> (Deployed, True, s2))))
      (settled app slot tOld hOld)" if "good s'" for s'
  proof (rule triple_bind [OF storeW_route])
    fix a :: "(code, unit) result \<times> deployState"
    obtain p s2 where a: "a = (p, s2)" by fastforce
    show "triple (case a of (r, s'') \<Rightarrow> \<lambda>w. onRoute app (targetOf slot port) {(h, hostPort port)} w \<and> sameRecord s' s'' \<and>
              (isOk r \<and> \<not> dsSecretPreparing s' \<longrightarrow> wFile w = DeployFile s''))
        (case a of (p, s2) \<Rightarrow> State_Monad.return
           (case p of Inl _ \<Rightarrow> (DeployFailed CodeFilesystem, True, s2) | Inr _ \<Rightarrow> (Deployed, True, s2)))
        (settled app slot tOld hOld)"
      using that i(2,3) unfolding a
      by (auto intro!: triple_return settled_new [where i = i] simp: good_def sameRecord_def split: sum.splits)
  qed
  have stuck: "triple ?on (State_Monad.return (DeployFailed CodeProcessFailed, True, s)) (settled app slot tOld hOld)"
    by (rule triple_return) (auto simp: settled_def)
  show ?thesis
  proof (cases "hasProcess old")
    case False
    then have "drainOld bg env [] active s = State_Monad.bind (storeW env s) (\<lambda>(p, s2). State_Monad.return
        (case p of Inl _ \<Rightarrow> (DeployFailed CodeFilesystem, True, s2) | Inr _ \<Rightarrow> (Deployed, True, s2)))"
      using old by (simp add: drainOld_def)
    with fin [OF good(1)] show ?thesis by simp
  next
    case True
    have "drainOld bg env [] active s = State_Monad.bind (stopW env old) (\<lambda>report.
        if rpExited report then State_Monad.bind (storeW env ?s) (\<lambda>(p, s2). State_Monad.return
            (case p of Inl _ \<Rightarrow> (DeployFailed CodeFilesystem, True, s2) | Inr _ \<Rightarrow> (Deployed, True, s2)))
        else State_Monad.return (DeployFailed CodeProcessFailed, True, s))"
      using old True by (auto simp: drainOld_def intro!: arg_cong2 [where f = State_Monad.bind])
    moreover have "handleOf old \<notin> fst ` {(h, hostPort port)}" using assms(2) by simp
    ultimately show ?thesis
      using fin [OF good(2)] stuck by (simp add: triple_bind [OF stopW_route] triple_if)
  qed
qed

lemma committed_slots [simp]:
  "dsSlots (committed bg slot v legacy a s) = dsSlots s" "dsActiveSlot (committed bg slot v legacy a s) = slot"
  "\<not> dsSecretPreparing (committed bg slot v legacy a s)"
  by (auto simp: committed_def Stamp_def Let_def split: option.split)

lemma promoteW_route: "triple (onRoute app R ups) (promoteW env a v) (\<lambda>_. onRoute app R ups)"
  unfolding promoteW_def
  by (rule act_frame_route) (auto split: prod.splits)

lemma commitSwitch_settled:
  assumes "h \<noteq> hOld" and slots: "bothSlots slot active old port s" and "tOld = targetOf active (inPort old)"
    and "handleOf old = hOld" and "bgProxyClient bg" and "\<And>n. evFault env OpSwitch n \<noteq> LostReply"
  shows "triple (onRoute (bgAppName bg) (targetOf slot port) (pairUp hOld tOld h port))
           (commitSwitch bg env slot h ver [] active s) (settled (bgAppName bg) slot tOld hOld)"
  unfolding commitSwitch_def Let_def
proof (rule triple_bind [OF storeW_route])
  let ?app = "bgAppName bg" and ?ups = "pairUp hOld tOld h port"
  let ?s = "committed bg slot ver [] active s"
  fix a :: "(code, unit) result \<times> deployState"
  obtain r s1 where a: "a = (r, s1)" by fastforce
  show "triple (case a of (r, s') \<Rightarrow> \<lambda>w. onRoute ?app (targetOf slot port) ?ups w \<and> sameRecord ?s s' \<and>
            (isOk r \<and> \<not> dsSecretPreparing ?s \<longrightarrow> wFile w = DeployFile s'))
     (case a of (r, s1) \<Rightarrow> case r of
        Inl _ \<Rightarrow> compensatePersist bg env slot h active (dsActiveVersion s) (dsSecretTxnID s) s1
      | Inr _ \<Rightarrow> if ver > 0 then State_Monad.bind (promoteW env ?app ver) (\<lambda>p. case p of
            Inl e \<Rightarrow> compensatePromote bg env slot h ver active (dsActiveVersion s) (dsSecretTxnID s) e s1
          | Inr _ \<Rightarrow> drainOld bg env [] active s1) else drainOld bg env [] active s1)
     (settled ?app slot tOld hOld)"
  proof (cases "sameRecord ?s s1")
    case False
    then show ?thesis by (auto simp: a triple_def)
  next
    case True
    then have s1: "bothSlots slot active old port s1" "dsActiveSlot s1 = slot" "\<not> dsSecretPreparing s1"
      using slots bothSlots_cong [of s1 s] by (auto simp: sameRecord_def)
    have old: "handleOf old \<noteq> h" using assms(1,4) by simp
    note comp = compensatePersist_settled [OF assms(1) s1(1) assms(3,5,6)]
      compensatePromote_settled [OF assms(1) s1(1) assms(3,5,6)]
    have drain: "triple (onRoute ?app (targetOf slot port) ?ups) (drainOld bg env [] active s1) (settled ?app slot tOld hOld)"
      by (rule triple_pre [OF drainOld_settled [OF s1(1) old s1(2,3)] pairUp_new])
    have "triple (onRoute ?app (targetOf slot port) ?ups) (State_Monad.bind (promoteW env ?app ver) (\<lambda>p. case p of
            Inl e \<Rightarrow> compensatePromote bg env slot h ver active (dsActiveVersion s) (dsSecretTxnID s) e s1
          | Inr _ \<Rightarrow> drainOld bg env [] active s1)) (settled ?app slot tOld hOld)"
      by (rule triple_bind [OF promoteW_route]) (intro triple_sum drain comp)
    then show ?thesis
      unfolding a prod.case by (intro triple_drop triple_sum triple_if drain comp)
  qed
qed

lemma switchTraffic_settled:
  assumes "lnHandle ln \<noteq> hOld" and slots: "bothSlots slot active old (lnPort ln) s" and "tOld = targetOf active (inPort old)"
    and "handleOf old = hOld" and "\<And>n. evFault env OpSwitch n \<noteq> LostReply" and enrolled: "bgProxyClient bg \<Longrightarrow> enrolled"
  shows "triple (onRoute (bgAppName bg) tOld (pairUp hOld tOld (lnHandle ln) (lnPort ln)))
           (switchTraffic bg env ok enrolled slot ln ver [] active s) (settled (bgAppName bg) slot tOld hOld)"
proof -
  let ?app = "bgAppName bg" and ?h = "lnHandle ln" and ?port = "lnPort ln"
  let ?ups = "pairUp hOld tOld ?h ?port" and ?prim = "targetOf slot (lnPort ln)"
  have stop: "triple (onRoute ?app tOld ?ups :: 'a world \<Rightarrow> bool) (abort env c slot ?h e s) (settled ?app slot tOld hOld)" for c e
    by (rule triple_pre [OF abort_settled [OF assms(1)] pairUp_old])
  show ?thesis
  proof (cases "bgProxyClient bg")
    case False
    with stop show ?thesis by (simp add: switchTraffic_def Let_def)
  next
    case True
    have "active \<noteq> ''''" using slots by (simp add: bothSlots_def)
    then have eq: "switchTraffic bg env ok enrolled slot ln ver [] active s =
        State_Monad.bind (proxySwitch env ?app ?prim []) (\<lambda>r. case r of
            Inl e \<Rightarrow> abort env False slot ?h CodeProxy s
          | Inr _ \<Rightarrow> commitSwitch bg env slot ?h ver [] active s)"
      using True enrolled [OF True] by (simp add: switchTraffic_def Let_def)
    have "(?h, tHost ?prim) \<in> ?ups" by (simp add: pairUp_def)
    note switch = proxySwitch_route [OF this assms(5)]
    show ?thesis
      unfolding eq
    proof (rule triple_bind [OF switch])
      fix r :: "(code, controlResponse) result"
      show "triple (onRoute ?app (if isOk r then ?prim else tOld) ?ups)
          (case r of Inl e \<Rightarrow> abort env False slot ?h CodeProxy s
             | Inr _ \<Rightarrow> commitSwitch bg env slot ?h ver [] active s) (settled ?app slot tOld hOld)"
        using stop commitSwitch_settled [OF assms(1) slots assms(3,4) True assms(5)] by (cases r) simp_all
    qed
  qed
qed

text \<open>
  What a launcher promises: it disturbs no running process, and what it starts was not running before
  and listens on the port it reports.
\<close>

definition launchContract :: "(nat \<Rightarrow> string \<Rightarrow> string list \<Rightarrow> os \<Rightarrow> (code, launched) result \<times> os) \<Rightarrow> bool" where
  "launchContract launch \<longleftrightarrow>
     (\<forall>n b ov sys r sys'. launch n b ov sys = (r, sys') \<longrightarrow>
        (\<forall>h port. listensOn sys h port \<longrightarrow> listensOn sys' h port) \<and>
        (\<forall>ln. r = Inr ln \<longrightarrow> \<not> running sys (lnHandle ln) \<and> listensOn sys' (lnHandle ln) (lnPort ln)))"

lemma launch_route:
  assumes "launchContract launch"
  shows "triple (onRoute app tOld {(hOld, tHost tOld)})
     (act (\<lambda>n w. case launch n b ov (wOs w) of (r, sys) \<Rightarrow> (r, w\<lparr>wOs := sys\<rparr>)))
     (\<lambda>r w. onRoute app tOld (case r of Inl _ \<Rightarrow> {(hOld, tHost tOld)} | Inr ln \<Rightarrow> pairUp hOld tOld (lnHandle ln) (lnPort ln)) w \<and>
            (\<forall>ln. r = Inr ln \<longrightarrow> lnHandle ln \<noteq> hOld))"
proof (rule act_routes, goal_cases)
  case (1 n w a w')
  obtain r sys where run: "launch n b ov (wOs w) = (r, sys)" by fastforce
  with 1(1) have w': "a = r" "w' = w\<lparr>wOs := sys\<rparr>" by auto
  have keep: "upBy sys h host" if "upBy (wOs w) h host" for h host
    using assms run that unfolding launchContract_def upBy_def by blast
  have new: "\<not> running (wOs w) (lnHandle ln)" "upBy sys (lnHandle ln) (hostPort (lnPort ln))" if "r = Inr ln" for ln
    using assms run that unfolding launchContract_def upBy_def by blast+
  have old: "upBy (wOs w) hOld (tHost tOld)" using 1(2) by (simp add: routed_def)
  have "lnHandle ln \<noteq> hOld" if "r = Inr ln" for ln
    using new(1) [OF that] upBy_running [OF old] by auto
  with 1(2) keep [OF old] new(2) show ?case
    by (auto simp: routed_def w' pairUp_def split: sum.splits)
qed

lemma awaitHealthy_route:
  assumes "lnHandle ln \<noteq> hOld"
  shows "triple (onRoute app tOld (pairUp hOld tOld (lnHandle ln) (lnPort ln))) (awaitHealthy bg ln)
     (\<lambda>r w. onRoute app tOld (if fst r then pairUp hOld tOld (lnHandle ln) (lnPort ln) else {(hOld, tHost tOld)}) w)"
  unfolding awaitHealthy_def
proof (rule triple_post [OF act_routes [where ts' = "\<lambda>_. [tOld]" and Q = "\<lambda>_. True" and
      ups' = "\<lambda>r. if fst r then pairUp hOld tOld (lnHandle ln) (lnPort ln) else {(hOld, tHost tOld)}"]], goal_cases)
  case (1 n w a w')
  then have both: "routed app tOld (pairUp hOld tOld (lnHandle ln) (lnPort ln)) (wOs w) (wDaemon w)" by simp
  then have one: "routed app tOld {(hOld, tHost tOld)} (wOs w) (wDaemon w)" by (auto simp: routed_def pairUp_def)
  have "routed app tOld {(hOld, tHost tOld)} (endProcess (lnHandle ln) (wOs w)) (wDaemon w)"
    by (rule routed_stop [OF one]) (use assms in simp)
  with both one 1(1) show ?case by (auto simp: Let_def split: if_splits)
qed simp

lemma markHealthy_slots:
  assumes "slot \<noteq> active" "active \<noteq> ''''" "inPort old > 0" "map_of (dsSlots s) active = Some old"
    and "map_of (dsSlots s) slot = Some i" "inPort i = port"
  shows "bothSlots slot active old port (markHealthy slot t now s)"
  using assms by (auto simp: bothSlots_def markHealthy_def setSlot_def AList.update_conv')

lemma checked_settled:
  assumes hand: "lnHandle ln \<noteq> hOld" and sl: "slot \<noteq> active" "active \<noteq> ''''" "inPort old > 0"
    and slots: "map_of (dsSlots s) active = Some old" "map_of (dsSlots s) slot = Some i" "inPort i = lnPort ln"
    and old: "tOld = targetOf active (inPort old)" "handleOf old = hOld"
    and flt: "\<And>n. evFault env OpSwitch n \<noteq> LostReply" and enrolled: "bgProxyClient bg \<Longrightarrow> enrolled"
  shows "triple (onRoute (bgAppName bg) tOld (pairUp hOld tOld (lnHandle ln) (lnPort ln)))
     (State_Monad.bind (awaitHealthy bg ln) (\<lambda>(healthy, t).
        if \<not> healthy then State_Monad.bind (look wClock) (\<lambda>n'.
             abort env True slot (lnHandle ln) (if bgOom bg n' then CodeResourceOOM else CodeHealthCheckFailed) s)
        else State_Monad.bind (look wClock) (\<lambda>n'.
             switchTraffic bg env ok enrolled slot ln ver [] active (markHealthy slot t (evNow env n') s))))
     (settled (bgAppName bg) slot tOld hOld)"
proof (rule triple_bind [OF awaitHealthy_route [OF hand]])
  fix a :: "bool \<times> tier"
  obtain healthy t where a: "a = (healthy, t)" by fastforce
  note both = markHealthy_slots [OF sl slots]
  show "triple (onRoute (bgAppName bg) tOld (if fst a then pairUp hOld tOld (lnHandle ln) (lnPort ln) else {(hOld, tHost tOld)}))
     (case a of (healthy, t) \<Rightarrow>
        if \<not> healthy then State_Monad.bind (look wClock) (\<lambda>n'.
             abort env True slot (lnHandle ln) (if bgOom bg n' then CodeResourceOOM else CodeHealthCheckFailed) s)
        else State_Monad.bind (look wClock) (\<lambda>n'.
             switchTraffic bg env ok enrolled slot ln ver [] active (markHealthy slot t (evNow env n') s)))
     (settled (bgAppName bg) slot tOld hOld)"
    unfolding a prod.case fst_conv
    using abort_settled [OF hand] switchTraffic_settled [OF hand both old flt enrolled]
    by (cases healthy) (auto intro!: triple_look triple_drop)
qed

lemma launchCandidate_settled:
  assumes launch: "launchContract (bgLauncher bg)" and sl: "slot \<noteq> active" "active \<noteq> ''''" "inPort old > 0"
    and slots: "map_of (dsSlots s) active = Some old"
    and old: "tOld = targetOf active (inPort old)" "handleOf old = hOld"
    and flt: "\<And>n. evFault env OpSwitch n \<noteq> LostReply" and enrolled: "bgProxyClient bg \<Longrightarrow> enrolled"
  shows "triple (onRoute (bgAppName bg) tOld {(hOld, tHost tOld)})
           (launchCandidate bg env ok enrolled slot active [] s) (settled (bgAppName bg) slot tOld hOld)"
proof -
  let ?app = "bgAppName bg"
  let ?on = "onRoute ?app tOld {(hOld, tHost tOld)} :: 'a world \<Rightarrow> bool"
  have fail: "triple ?on (State_Monad.return (DeployFailed e, False, s)) (settled ?app slot tOld hOld)" for e
    by (rule triple_return) (simp add: settled_def)
  have started: "triple (\<lambda>w. onRoute ?app tOld (case r of Inl _ \<Rightarrow> {(hOld, tHost tOld)} | Inr ln \<Rightarrow> pairUp hOld tOld (lnHandle ln) (lnPort ln)) w \<and>
        (\<forall>ln. r = Inr ln \<longrightarrow> lnHandle ln \<noteq> hOld))
      (case r of Inl e \<Rightarrow> State_Monad.return (DeployFailed CodeInstanceStartFailed, False, s)
       | Inr ln \<Rightarrow> State_Monad.bind (look wClock) (\<lambda>n.
          State_Monad.bind (storeState env (setSlot slot (candidateOf bg slot bin ep ver ov (evNow env n) ln) s)) (\<lambda>s1.
            State_Monad.bind (awaitHealthy bg ln) (\<lambda>(healthy, t).
              if \<not> healthy then State_Monad.bind (look wClock) (\<lambda>n'.
                   abort env True slot (lnHandle ln) (if bgOom bg n' then CodeResourceOOM else CodeHealthCheckFailed) s1)
              else State_Monad.bind (look wClock) (\<lambda>n'.
                   switchTraffic bg env ok enrolled slot ln ver [] active (markHealthy slot t (evNow env n') s1))))))
      (settled ?app slot tOld hOld)" for r bin ep ver ov
  proof (cases r)
    case (Inl e)
    with fail show ?thesis by (auto intro: triple_drop)
  next
    case (Inr ln)
    show ?thesis
      unfolding Inr sum.case
    proof (rule triple_fact, rule triple_look, rule triple_drop, rule triple_bind [OF storeState_route], rule triple_fact)
      fix n s1
      let ?cand = "candidateOf bg slot bin ep ver ov (evNow env n) ln"
      assume hand: "\<forall>ln'. Inr ln = Inr ln' \<longrightarrow> lnHandle ln' \<noteq> hOld" and same: "sameRecord (setSlot slot ?cand s) s1"
      have "map_of (dsSlots s1) active = Some old" "map_of (dsSlots s1) slot = Some ?cand"
        using same sl(1) slots by (auto simp: sameRecord_def setSlot_def AList.update_conv')
      moreover have "lnHandle ln \<noteq> hOld" "inPort ?cand = lnPort ln" using hand by (simp_all add: candidateOf_def)
      ultimately show "triple (onRoute ?app tOld (pairUp hOld tOld (lnHandle ln) (lnPort ln)))
        (State_Monad.bind (awaitHealthy bg ln) (\<lambda>(healthy, t).
              if \<not> healthy then State_Monad.bind (look wClock) (\<lambda>n'.
                   abort env True slot (lnHandle ln) (if bgOom bg n' then CodeResourceOOM else CodeHealthCheckFailed) s1)
              else State_Monad.bind (look wClock) (\<lambda>n'.
                   switchTraffic bg env ok enrolled slot ln ver [] active (markHealthy slot t (evNow env n') s1))))
        (settled ?app slot tOld hOld)"
        using sl old flt enrolled by (intro checked_settled) auto
    qed
  qed
  show ?thesis
    unfolding launchCandidate_def
    by (rule triple_bind [OF act_frame_route])
      (auto split: prod.splits intro!: triple_splits fail triple_bind [OF launch_route [OF launch]] started)
qed

lemma InactiveSlot_neq: "InactiveSlot s \<noteq> dsActiveSlot s"
  by (auto simp: InactiveSlot_def SlotBlue_def SlotGreen_def)

lemma deploySlot_settled:
  assumes launch: "launchContract (bgLauncher bg)"
    and active: "dsActiveSlot s = active" "active \<noteq> ''''" "inPort old > 0" "map_of (dsSlots s) active = Some old"
    and others: "\<forall>(name, i)\<in>set (dsSlots s). name \<noteq> active \<and> hasProcess i \<longrightarrow> handleOf i \<noteq> hOld"
    and old: "tOld = targetOf active (inPort old)" "handleOf old = hOld"
    and flt: "\<And>n. evFault env OpSwitch n \<noteq> LostReply" "\<And>n. evFault env OpStatus n = NoFault"
  shows "triple (onRoute (bgAppName bg) tOld {(hOld, tHost tOld)}) (deploySlot bg env [] s)
           (settled (bgAppName bg) (InactiveSlot s) tOld hOld)"
proof -
  let ?app = "bgAppName bg" and ?slot = "InactiveSlot s" and ?one = "{(hOld, tHost tOld)}"
  let ?on = "onRoute ?app tOld ?one :: 'a world \<Rightarrow> bool"
  let ?Q = "settled ?app ?slot tOld hOld :: outcome3 \<Rightarrow> 'a world \<Rightarrow> bool"
  have sl: "?slot \<noteq> active" using InactiveSlot_neq [of s] active(1) by simp
  have fail: "triple ?on (State_Monad.return (res, False, s')) ?Q" if "res \<noteq> Deployed" for res s'
    by (rule triple_return) (use that in \<open>simp add: settled_def\<close>)
  have launched: "triple (\<lambda>w. ?on w \<and> (bgProxyClient bg \<longrightarrow> enrolled))
      (launchCandidate bg env ok enrolled ?slot active [] s3) ?Q" if "map_of (dsSlots s3) active = Some old" for ok enrolled s3
    using that sl active(2,3) old flt(1) launch by (intro triple_fact launchCandidate_settled) auto
  have ping: "triple ?on (if bgProxyClient bg then proxyPing env else State_Monad.return False) (\<lambda>_. ?on)"
    by (intro triple_if proxyPing_route triple_return)
  have status: "triple ?on (if bgProxyClient bg then proxyEnrolled env ?app else State_Monad.return False)
      (\<lambda>enrolled w. ?on w \<and> (bgProxyClient bg \<longrightarrow> enrolled))"
    by (intro triple_if triple_post [OF proxyEnrolled_route [OF flt(2)]] triple_return) auto
  have checked: "triple ?on (State_Monad.bind (storeState env s2) (\<lambda>s3.
      State_Monad.bind (if bgProxyClient bg then proxyPing env else State_Monad.return False) (\<lambda>proxyOK.
        State_Monad.bind (if bgProxyClient bg then proxyEnrolled env ?app else State_Monad.return False) (\<lambda>enrolled.
          launchCandidate bg env proxyOK enrolled ?slot active [] s3)))) ?Q" if "map_of (dsSlots s2) active = Some old" for s2
    by (rule triple_bind [OF storeState_route], rule triple_fact, rule triple_bind [OF ping], rule triple_bind [OF status],
        rule launched) (use that in \<open>simp add: sameRecord_def\<close>)
  have recover: "triple ?on (recoverStaleSlots env s) (\<lambda>(r, s1) w. ?on w \<and> map_of (dsSlots s1) active = Some old)"
    unfolding recoverStaleSlots_def active(1)
    by (rule triple_bind [OF recoverSlots_route])
      (use others active(4) in \<open>auto intro!: triple_pair triple_return split: prod.splits\<close>)
  show ?thesis
    unfolding deploySlot_def Let_def active(1)
  proof (rule triple_bind [OF recover])
    fix a :: "(code, unit) result \<times> deployState"
    obtain r s1 where a: "a = (r, s1)" by fastforce
    let ?s2 = "if map_of (dsSlots s1) ?slot = None then setSlot ?slot (emptyInst ?slot) s1 else s1"
    have s2: "map_of (dsSlots ?s2) active = Some old" if "map_of (dsSlots s1) active = Some old"
      using that sl by (simp add: setSlot_def AList.update_conv')
    show "triple (case a of (r, s1) \<Rightarrow> \<lambda>w. ?on w \<and> map_of (dsSlots s1) active = Some old)
       (case a of (r, s1) \<Rightarrow> case r of Inl e \<Rightarrow> State_Monad.return (DeployFailed e, False, s1)
          | Inr _ \<Rightarrow> if map_of (dsSlots s1) ?slot = None \<and> dsSlots s1 = [] then State_Monad.return (DeployPanic, False, s1)
              else State_Monad.bind (storeState env (if map_of (dsSlots s1) ?slot = None then setSlot ?slot (emptyInst ?slot) s1 else s1)) (\<lambda>s3.
                 State_Monad.bind (if bgProxyClient bg then proxyPing env else State_Monad.return False) (\<lambda>proxyOK.
                   State_Monad.bind (if bgProxyClient bg then proxyEnrolled env ?app else State_Monad.return False) (\<lambda>enrolled.
                     launchCandidate bg env proxyOK enrolled ?slot active [] s3)))) ?Q"
      unfolding a prod.case by (intro triple_fact triple_sum triple_if fail checked s2) auto
  qed
qed

text \<open>An application that is served by its blue-green slot, with a record that says so.\<close>

definition establishedBlueGreen :: "'r blueGreen \<Rightarrow> deployState \<Rightarrow> inst \<Rightarrow> 'r world \<Rightarrow> bool" where
  "establishedBlueGreen bg st old w \<longleftrightarrow>
     wFile w = DeployFile st \<and> dsAppName st = bgAppName bg \<and> isOk (ValidateAppName (bgAppName bg)) \<and>
     dsMode st = ModeBlueGreen \<and> dsActiveSlot st \<noteq> '''' \<and>
     map_of (dsSlots st) (dsActiveSlot st) = Some old \<and> inPort old > 0 \<and>
     (\<forall>(name, i)\<in>set (dsSlots st). name \<noteq> dsActiveSlot st \<and> hasProcess i \<longrightarrow> handleOf i \<noteq> handleOf old) \<and>
     dmRunning (wDaemon w) \<and>
     routeOf (bgAppName bg) (wDaemon w) = Some [targetOf (dsActiveSlot st) (inPort old)] \<and>
     listensOn (wOs w) (handleOf old) (inPort old) \<and> alwaysUp (bgAppName bg) w"

lemma undoMigration_same:
  "msMode pre = ModeBlueGreen \<Longrightarrow> undoMigration bg env pre out = State_Monad.return (fst out)"
  by (cases out) (simp add: undoMigration_def ModeBlueGreen_def)

lemma BlueGreen_Deploy_settled:
  assumes est: "establishedBlueGreen bg st old w" and launch: "launchContract (bgLauncher bg)"
    and flt: "\<And>n. evFault env OpSwitch n \<noteq> LostReply" "\<And>n. evFault env OpStatus n = NoFault"
    and run: "run_state (BlueGreen_Deploy bg env) w = (res, w')"
  shows "res = DeployFailed CodeInvalidArgument \<and> w' = w \<or>
    (\<exists>sw s. settled (bgAppName bg) (InactiveSlot st) (targetOf (dsActiveSlot st) (inPort old)) (handleOf old) (res, sw, s) w')"
proof (cases "bgHasSource bg")
  case False
  then show ?thesis using run by (simp add: BlueGreen_Deploy_def)
next
  case True
  let ?tOld = "targetOf (dsActiveSlot st) (inPort old)" and ?s = "withRuntime bg st"
  let ?Q = "settled (bgAppName bg) (InactiveSlot st) ?tOld (handleOf old)"
  have fields: "dsActiveSlot ?s = dsActiveSlot st" "dsSlots ?s = dsSlots st" "dsMode ?s = ModeBlueGreen" "InactiveSlot ?s = InactiveSlot st"
    using est by (auto simp: withRuntime_def Let_def InactiveSlot_def establishedBlueGreen_def)
  have load: "LoadOrInit (bgAppName bg) ModeBlueGreen (bgPublicPort bg) (wFile w) = Inr st"
    using est by (auto simp: LoadOrInit_def LoadState_def establishedBlueGreen_def isOk_iff)
  have on: "onRoute (bgAppName bg) ?tOld {(handleOf old, tHost ?tOld)} w"
    using est by (auto simp: onRoute_iff routed_def upBy_def establishedBlueGreen_def)
  obtain out w1 where slot: "run_state (deploySlot bg env [] ?s) w = (out, w1)" by fastforce
  have facts: "dsActiveSlot st \<noteq> ''''" "inPort old > 0" "map_of (dsSlots ?s) (dsActiveSlot st) = Some old"
    "\<forall>(name, i)\<in>set (dsSlots ?s). name \<noteq> dsActiveSlot st \<and> hasProcess i \<longrightarrow> handleOf i \<noteq> handleOf old"
    using est unfolding fields establishedBlueGreen_def by simp_all
  have "?Q out w1"
    using deploySlot_settled [OF launch fields(1) facts refl refl flt] on slot
    unfolding triple_def fields by fastforce
  moreover have "res = fst out \<and> w' = w1"
    using run slot True load fields(3)
    by (auto simp: BlueGreen_Deploy_def look_def MigrateTo_def undoMigration_same captureMode_def Let_def)
  ultimately show ?thesis by (metis prod.collapse)
qed


section \<open>Concrete deployments\<close>

definition demoLaunch :: "nat \<Rightarrow> string \<Rightarrow> string list \<Rightarrow> os \<Rightarrow> (code, launched) result \<times> os" where
  "demoLaunch n b ov sys =
     (if osProcs sys 99 \<noteq> None then (Inl CodeProcessFailed, sys)
      else (Inr \<lparr>lnHandle = NativeProc 99, lnPID = 99, lnTicks = 5, lnPort = 9002, lnContainerID = ''''\<rparr>,
            sys\<lparr>osProcs := (osProcs sys)(99 \<mapsto> \<lparr>prTicks = 5, prExe = b, prPort = 9002\<rparr>)\<rparr>))"

definition okPolls :: "nat \<Rightarrow> nat \<Rightarrow> poll" where
  "okPolls n k = \<lparr>poArm = ArmTick, poNow = int k * second, poAlive = True, poHttp = (\<lambda>_. Some 200), poDial = True\<rparr>"

definition demoBG :: "unit blueGreen" where
  "demoBG =
     \<lparr>bgAppName = ''web'', bgAppID = ''7'', bgPublicPort = 8080, bgHasSource = True,
      bgBuild = (\<lambda>v. (Inr (''/srv/web/v3'', '''', 3), v)), bgOverlay = (\<lambda>_. Inr []), bgSecretEnvs = (\<lambda>_. []),
      bgLauncher = demoLaunch, bgProxyClient = True, bgHealthCfg = None, bgRuntime = '''', bgNetwork = '''',
      bgSecrets = None, bgPortHandoff = None, bgParseDuration = (\<lambda>_. None), bgRootAnswers = (\<lambda>_. True),
      bgPolls = okPolls, bgCrashed = (\<lambda>_. False), bgOom = (\<lambda>_. False)\<rparr>"

definition calmEnv :: deployEnv where
  "calmEnv =
     \<lparr>evStore = (\<lambda>_. StoreFine), evNow = (\<lambda>n. int n), evReact = (\<lambda>_. ExitsInGrace), evFault = (\<lambda>_ _. NoFault),
      evPersist = (\<lambda>_. True), evClose = (\<lambda>_. True), evLinks = (\<lambda>_. None), evVio = (\<lambda>_. quietVio),
      evRemove = (\<lambda>_. True), evAccessMode = (\<lambda>_. '''')\<rparr>"

definition demoOld :: inst where
  "demoOld = (emptyInst SlotBlue)\<lparr>inPID := 7, inPort := 9001, inBinaryPath := ''/srv/web/v2'', inStatus := ''running'',
                                  inVersion := 2, inStartTicks := 40\<rparr>"

definition demoState :: deployState where
  "demoState = (initState ''web'' ModeBlueGreen 8080)\<lparr>dsActiveSlot := SlotBlue, dsActiveVersion := 2,
                 dsSlots := [(SlotBlue, demoOld), (SlotGreen, emptyInst SlotGreen)]\<rparr>"

definition demoWorld :: "unit world" where
  "demoWorld =
     \<lparr>wOs = \<lparr>osProcs = [7 \<mapsto> \<lparr>prTicks = 40, prExe = ''/srv/web/v2'', prPort = 9001\<rparr>], osContainers = Map.empty, osDockerUp = True\<rparr>,
      wDaemon = \<lparr>dmRunning = True, dmProxies = [(''web'', NewProxy ''web'' 8080 (targetOf SlotBlue 9001))], dmFile = NoStateFile\<rparr>,
      wFile = DeployFile demoState, wVersions = demoApp, wForeign = (\<lambda>_. False), wClock = 0, wTrace = [], wSpawns = []\<rparr>"

lemma demoLaunch_contract: "launchContract demoLaunch"
  unfolding launchContract_def
proof (intro allI impI)
  fix n b ov sys r sys'
  assume run: "demoLaunch n b ov sys = (r, sys')"
  have "listensOn sys' h port" if "listensOn sys h port" for h port
    using run that by (cases h) (auto simp: demoLaunch_def split: if_splits)
  moreover have "\<not> running sys (lnHandle ln) \<and> listensOn sys' (lnHandle ln) (lnPort ln)" if "r = Inr ln" for ln
    using run that by (auto simp: demoLaunch_def split: if_splits)
  ultimately show "(\<forall>h port. listensOn sys h port \<longrightarrow> listensOn sys' h port) \<and>
      (\<forall>ln. r = Inr ln \<longrightarrow> \<not> running sys (lnHandle ln) \<and> listensOn sys' (lnHandle ln) (lnPort ln))" by blast
qed


lemma demoWorld_established: "establishedBlueGreen demoBG demoState demoOld demoWorld"
proof -
  have "isOk (ValidateAppName (bgAppName demoBG))" by code_simp
  moreover have "routeOf (bgAppName demoBG) (wDaemon demoWorld) = Some [targetOf (dsActiveSlot demoState) (inPort demoOld)]"
    by (simp add: routeOf_def demoWorld_def demoBG_def NewProxy_def demoState_def demoOld_def initState_def emptyInst_def)
  moreover have "listensOn (wOs demoWorld) (handleOf demoOld) (inPort demoOld)"
    by (simp add: demoWorld_def demoOld_def handleOf_def emptyInst_def)
  moreover have fields: "dsActiveSlot demoState = SlotBlue" "dsSlots demoState = [(SlotBlue, demoOld), (SlotGreen, emptyInst SlotGreen)]"
      "dsAppName demoState = bgAppName demoBG" "dsMode demoState = ModeBlueGreen" "inPort demoOld = 9001"
    by (simp_all add: demoState_def initState_def demoOld_def demoBG_def emptyInst_def)
  moreover have "wFile demoWorld = DeployFile demoState" "dmRunning (wDaemon demoWorld)" "alwaysUp app demoWorld" for app
    by (simp_all add: demoWorld_def alwaysUp_def)
  ultimately show ?thesis
    by (simp add: establishedBlueGreen_def SlotGreen_def SlotBlue_def hasProcess_def emptyInst_def)
qed


end
