(* ===== verification/Lifecycle.thy ===== *)
theory Lifecycle
  imports BlueGreen
begin

text \<open>
  Operations on an existing deployment record (\<open>internal/deploy/lifecycle.go\<close>, with the retirement
  queue of \<open>secrets_txn.go\<close>): deriving the life-cycle status from the processes, repairing the record,
  tearing a deployment down, starting it again and restoring its proxy route.  Nil entries of the slot
  and replica maps are left out.
\<close>

section \<open>The program\<close>

subsection \<open>Keys in order\<close>

text \<open>
  \<open>sort.Slice\<close> on a short slice: each element moves left while it is less than its neighbour.  Longer
  slices are sorted differently, with the same result when the comparison is a strict total order, as
  it is on replica indices.
\<close>

fun insertFromRight :: "('a \<Rightarrow> 'a \<Rightarrow> bool) \<Rightarrow> 'a \<Rightarrow> 'a list \<Rightarrow> 'a list" where
  "insertFromRight lt x [] = [x]"
| "insertFromRight lt x (y # ys) = (if lt x y then y # insertFromRight lt x ys else x # y # ys)"

definition sortSlice :: "('a \<Rightarrow> 'a \<Rightarrow> bool) \<Rightarrow> 'a list \<Rightarrow> 'a list" where
  "sortSlice lt xs = rev (fold (insertFromRight lt) xs [])"

definition replicaKeyLess :: "string \<Rightarrow> string \<Rightarrow> bool" where
  "replicaKeyLess s t = (case (atoi s, atoi t) of (Some a, Some b) \<Rightarrow> a < b | _ \<Rightarrow> s < t)"

definition sortedReplicaKeys :: "(string \<times> inst) list \<Rightarrow> string list" where
  "sortedReplicaKeys m = sortSlice replicaKeyLess (map fst m)"

definition inOrder :: "(string \<times> inst) list \<Rightarrow> (string \<times> inst) list" where
  "inOrder m = List.map_filter (\<lambda>k. map_option (Pair k) (map_of m k)) (sortedReplicaKeys m)"

subsection \<open>Status\<close>

definition InstanceAlive :: "(string \<Rightarrow> string option) \<Rightarrow> os \<Rightarrow> inst \<Rightarrow> bool" where
  "InstanceAlive lk sys i = instanceAliveViaRuntime lk sys i"

definition ServingInstance :: "(string \<Rightarrow> string option) \<Rightarrow> os \<Rightarrow> deployState \<Rightarrow> inst option" where
  "ServingInstance lk sys s =
     (if dsMode s = ModeBlueGreen then ActiveInstance s
      else if dsMode s = ''classic'' then map_of (dsSlots s) ''classic''
      else if dsMode s = ModeRolling \<or> dsMode s = ModeWorker then
        find (InstanceAlive lk sys) (map snd (inOrder (dsReplicas s)))
      else None)"

definition instancesServing :: "deployState \<Rightarrow> inst list" where
  "instancesServing s =
     (if dsMode s = ModeBlueGreen then
        (case ActiveInstance s of None \<Rightarrow> [] | Some i \<Rightarrow> if hasProcess i then [i] else [])
      else if dsMode s = ModeRolling then filter hasProcess (map snd (inOrder (dsReplicas s)))
      else if dsMode s = ModeWorker then map snd (inOrder (dsReplicas s))
      else [])"

record lifecycleDecision =
  ldStatus :: string
  ldAlive :: nat
  ldDesired :: nat
  ldPID :: int
  ldStartTicks :: nat
  ldStartedAt :: int
  ldPublicPort :: int

fun countAlive :: "(string \<Rightarrow> string option) \<Rightarrow> os \<Rightarrow> inst list \<Rightarrow> lifecycleDecision \<Rightarrow> lifecycleDecision" where
  "countAlive lk sys [] d = d"
| "countAlive lk sys (i # is) d =
     (if \<not> InstanceAlive lk sys i then countAlive lk sys is d
      else
        let d1 = (if ldPID d = 0
                  then d\<lparr>ldPID := inPID i, ldStartTicks := inStartTicks i, ldStartedAt := inStartedAt i\<rparr> else d)
        in countAlive lk sys is (d1\<lparr>ldAlive := ldAlive d1 + 1\<rparr>))"

definition DecideLifecycle :: "(string \<Rightarrow> string option) \<Rightarrow> os \<Rightarrow> deployState \<Rightarrow> lifecycleDecision" where
  "DecideLifecycle lk sys s =
     (let serving = instancesServing s;
          d = countAlive lk sys serving
                \<lparr>ldStatus = '''', ldAlive = 0, ldDesired = length serving, ldPID = 0, ldStartTicks = 0,
                 ldStartedAt = 0, ldPublicPort = dsPublicPort s\<rparr>
      in d\<lparr>ldStatus := (if ldDesired d = 0 \<or> ldAlive d = 0 then ''stopped''
                        else if ldAlive d < ldDesired d then ''degraded''
                        else ''running'')\<rparr>)"

subsection \<open>Repairing the record\<close>

definition fixInst :: "(string \<Rightarrow> string option) \<Rightarrow> os \<Rightarrow> inst \<Rightarrow> inst" where
  "fixInst lk sys i =
     (let alive = InstanceAlive lk sys i in
      if \<not> alive \<and> inPID i > 0 then i\<lparr>inPID := 0, inStatus := ''stopped''\<rparr>
      else if alive \<and> inStatus i \<noteq> ''running'' then i\<lparr>inStatus := ''running''\<rparr>
      else i)"

definition needsFix :: "(string \<Rightarrow> string option) \<Rightarrow> os \<Rightarrow> inst \<Rightarrow> bool" where
  "needsFix lk sys i =
     (let alive = InstanceAlive lk sys i in (\<not> alive \<and> inPID i > 0) \<or> (alive \<and> inStatus i \<noteq> ''running''))"

definition managed :: "deployState \<Rightarrow> (string \<times> inst) list" where
  "managed s = (if dsMode s = ModeBlueGreen then dsSlots s else dsReplicas s)"

definition withManaged :: "(string \<times> inst) list \<Rightarrow> deployState \<Rightarrow> deployState" where
  "withManaged m s = (if dsMode s = ModeBlueGreen then s\<lparr>dsSlots := m\<rparr> else s\<lparr>dsReplicas := m\<rparr>)"

definition Reconcile :: "deployEnv \<Rightarrow> deployState \<Rightarrow> ('r world, (code, unit) result \<times> lifecycleDecision \<times> deployState) state" where
  "Reconcile env s = do {
     sys \<leftarrow> look wOs;
     let d = DecideLifecycle (evLinks env) sys s;
     let s1 = withManaged (map (\<lambda>(k, i). (k, fixInst (evLinks env) sys i)) (managed s)) s;
     if \<not> list_ex (\<lambda>(k, i). needsFix (evLinks env) sys i) (managed s) then State_Monad.return (Inr (), d, s)
     else do {
       (r, s2) \<leftarrow> storeW env s1;
       State_Monad.return (case r of Inl _ \<Rightarrow> Inl CodeFilesystem | Inr _ \<Rightarrow> Inr (), d, s2)
     }
   }"

definition reapInst :: "os \<Rightarrow> inst \<Rightarrow> inst" where
  "reapInst sys i =
     (if inContainerID i \<noteq> '''' then (if \<not> dockerContainerAlive sys (inContainerID i) then stoppedInst i else i)
      else if inPID i \<le> 0 then i
      else if \<not> osPidAlive sys (inPID i) then stoppedInst i
      else i)"

definition ReapStaleInstances :: "os \<Rightarrow> deployState \<Rightarrow> deployState" where
  "ReapStaleInstances sys s =
     s\<lparr>dsSlots := map (\<lambda>(k, i). (k, reapInst sys i)) (dsSlots s),
       dsReplicas := map (\<lambda>(k, i). (k, reapInst sys i)) (dsReplicas s)\<rparr>"

subsection \<open>Teardown\<close>

text \<open>The loop over one map: the report of a stop is only logged.\<close>

fun stopAll :: "deployEnv \<Rightarrow> (string \<times> inst) list \<Rightarrow> ('r world, (string \<times> inst) list) state" where
  "stopAll env [] = State_Monad.return []"
| "stopAll env ((k, i) # rest) =
     (if \<not> hasProcess i then do { rest' \<leftarrow> stopAll env rest; State_Monad.return ((k, i) # rest') }
      else do {
        alive \<leftarrow> look (\<lambda>w. InstanceAlive (evLinks env) (wOs w) i);
        report \<leftarrow> (if alive then stopW env i else State_Monad.return nothingToStop);
        rest' \<leftarrow> stopAll env rest;
        State_Monad.return ((k, stoppedInst i) # rest')
      })"

definition TeardownDeployment :: "deployEnv \<Rightarrow> deployState \<Rightarrow> ('r world, (code, unit) result \<times> deployState) state" where
  "TeardownDeployment env s =
     (if dsAppName s = '''' then State_Monad.return (Inl CodeInvalidArgument, s)
      else do {
        slots \<leftarrow> stopAll env (dsSlots s);
        reps \<leftarrow> stopAll env (dsReplicas s);
        (r, s') \<leftarrow> storeW env (s\<lparr>dsSlots := slots, dsReplicas := reps\<rparr>);
        State_Monad.return (case r of Inl _ \<Rightarrow> Inl CodeFilesystem | Inr _ \<Rightarrow> Inr (), s')
      })"

subsection \<open>Start\<close>

record startOptions =
  soLauncher :: "nat \<Rightarrow> string \<Rightarrow> string list \<Rightarrow> os \<Rightarrow> (code, launched) result \<times> os"
  soStat :: "string \<Rightarrow> bool"
  soOverlay :: "string \<Rightarrow> (code, string list) result"
  soSecretEnvs :: "string list \<Rightarrow> string list"
  soListens :: "nat \<Rightarrow> bool"

definition RuntimeDocker :: string where
  "RuntimeDocker = ''docker''"

text \<open>The keys, within the map of the mode, of the instances to start.\<close>

definition toStart :: "deployState \<Rightarrow> (code, string list) result" where
  "toStart s =
     (if dsMode s = ModeBlueGreen then
        (case ActiveInstance s of
           None \<Rightarrow> Inl CodeNotFound
         | Some i \<Rightarrow> if inBinaryPath i = '''' then Inl CodeNotFound else Inr [dsActiveSlot s])
      else if dsMode s = ModeRolling then
        (if dsReplicas s = [] then Inl CodeNotFound
         else
           let keys = map fst (filter (\<lambda>(k, i). inBinaryPath i \<noteq> '''') (inOrder (dsReplicas s))) in
           if keys = [] then Inl CodeNotFound else Inr keys)
      else Inl CodeInvalidArgument)"

definition startRuntime :: "deployState \<Rightarrow> string list \<Rightarrow> string" where
  "startRuntime s keys =
     (case keys of
        [] \<Rightarrow> dsRuntime s
      | k # _ \<Rightarrow>
          (case map_of (managed s) k of
             None \<Rightarrow> dsRuntime s
           | Some i \<Rightarrow> if dsRuntime s = '''' \<and> inContainerID i \<noteq> '''' then RuntimeDocker else dsRuntime s))"

definition startedInst :: "startOptions \<Rightarrow> string list \<Rightarrow> int \<Rightarrow> launched \<Rightarrow> inst \<Rightarrow> inst" where
  "startedInst opt overlay now ln i =
     i\<lparr>inSecretEnvs := soSecretEnvs opt overlay, inPID := lnPID ln, inStartTicks := lnTicks ln,
       inContainerID := lnContainerID ln, inPort := lnPort ln, inStatus := ''running'', inStartedAt := now\<rparr>"

definition withStarted :: "string \<Rightarrow> inst \<Rightarrow> deployState \<Rightarrow> deployState" where
  "withStarted k i s =
     (withManaged (AList.update k i (managed s)) s)\<lparr>dsSecretTxnID := '''', dsSecretCleanupPending := False\<rparr>"

fun startLoop ::
    "deployEnv \<Rightarrow> startOptions \<Rightarrow> bool \<Rightarrow> string list \<Rightarrow> deployState \<Rightarrow> ('r world, (code, unit) result \<times> deployState) state" where
  "startLoop env opt docker [] s = State_Monad.return (Inr (), s)"
| "startLoop env opt docker (k # ks) s =
     (case map_of (managed s) k of
        None \<Rightarrow> startLoop env opt docker ks s
      | Some i \<Rightarrow> do {
          alive \<leftarrow> look (\<lambda>w. InstanceAlive (evLinks env) (wOs w) i);
          if alive then startLoop env opt docker ks s
          else if \<not> docker \<and> \<not> soStat opt (inBinaryPath i) then State_Monad.return (Inl CodeNotFound, s)
          else
            case soOverlay opt (inEnvPath i) of
              Inl e \<Rightarrow> State_Monad.return (Inl e, s)
            | Inr overlay \<Rightarrow> do {
                started \<leftarrow> act (\<lambda>n w. case soLauncher opt n (inBinaryPath i) overlay (wOs w) of (r, sys) \<Rightarrow> (r, w\<lparr>wOs := sys\<rparr>));
                case started of
                  Inl e \<Rightarrow> State_Monad.return (Inl CodeInstanceStartFailed, s)
                | Inr ln \<Rightarrow> do {
                    n \<leftarrow> look wClock;
                    if \<not> soListens opt n then do {
                      killW env (lnHandle ln);
                      State_Monad.return (Inl CodePortUnavailable, s)
                    }
                    else do {
                      (r, s1) \<leftarrow> storeW env (withStarted k (startedInst opt overlay (evNow env n) ln i) s);
                      case r of
                        Inl e \<Rightarrow> do { killW env (lnHandle ln); State_Monad.return (Inl CodeFilesystem, s1) }
                      | Inr _ \<Rightarrow> startLoop env opt docker ks s1
                    }
                  }
              }
        })"

definition StartDeployment ::
    "deployEnv \<Rightarrow> startOptions \<Rightarrow> deployState \<Rightarrow> ('r world, (code, unit) result \<times> deployState) state" where
  "StartDeployment env opt s =
     (if dsAppName s = '''' then State_Monad.return (Inl CodeInvalidArgument, s)
      else case toStart s of
        Inl e \<Rightarrow> State_Monad.return (Inl e, s)
      | Inr keys \<Rightarrow> startLoop env opt (startRuntime s keys = RuntimeDocker) keys s)"

text \<open>The targets a restored route gets.\<close>

definition replicaTarget :: "string \<times> inst \<Rightarrow> target" where
  "replicaTarget ki = targetOf (''replica-'' @ fst ki) (inPort (snd ki))"

definition restoreTargets :: "deployState \<Rightarrow> (code, target \<times> target list) result" where
  "restoreTargets s =
     (if dsMode s = ModeBlueGreen then
        (case ActiveInstance s of
           None \<Rightarrow> Inl CodeNotFound
         | Some i \<Rightarrow> if \<not> hasProcess i then Inl CodeNotFound else Inr (targetOf (inSlot i) (inPort i), []))
      else if dsMode s = ModeRolling then
        (case map replicaTarget (filter (\<lambda>(k, i). hasProcess i) (inOrder (dsReplicas s))) of
           [] \<Rightarrow> Inl CodeNotFound
         | t # ts \<Rightarrow> Inr (t, ts))
      else Inl CodeInvalidArgument)"

definition RestoreProxyRoute :: "deployEnv \<Rightarrow> bool \<Rightarrow> deployState \<Rightarrow> ('r world, (code, unit) result) state" where
  "RestoreProxyRoute env hasClient s =
     (if \<not> hasClient then State_Monad.return (Inl CodeProxy)
      else case restoreTargets s of
        Inl e \<Rightarrow> State_Monad.return (Inl e)
      | Inr (prim, bs) \<Rightarrow> do {
          enrolled \<leftarrow> proxyEnrolled env (dsAppName s);
          r \<leftarrow> (if enrolled then proxySwitch env (dsAppName s) prim bs
               else proxyAdd env (dsAppName s) (dsPublicPort s) prim bs);
          State_Monad.return (case r of Inl _ \<Rightarrow> Inl CodeProxy | Inr _ \<Rightarrow> Inr ())
        })"

subsection \<open>The retirement queue\<close>

text \<open>Instances still serving, and the candidate of a running canary, are spared.\<close>

definition sameInstance :: "inst \<Rightarrow> inst \<Rightarrow> bool" where
  "sameInstance retired i \<longleftrightarrow>
     (inContainerID retired \<noteq> '''' \<and> inContainerID retired = inContainerID i) \<or>
     (inContainerID retired = '''' \<and> inPID retired = inPID i)"

definition servingInstances :: "deployState \<Rightarrow> inst list" where
  "servingInstances s =
     (if dsMode s = ModeBlueGreen then
        (case dsCanary s of
           None \<Rightarrow> List.map_filter id [ActiveInstance s]
         | Some c \<Rightarrow>
             if csStatus c = CanaryRunning then
               (if csSlot c = dsActiveSlot s then [] else List.map_filter id [ActiveInstance s]) @
               List.map_filter id [map_of (dsSlots s) (csSlot c)]
             else List.map_filter id [ActiveInstance s])
      else map snd (dsReplicas s))"

fun drainLoop :: "deployEnv \<Rightarrow> bool \<Rightarrow> inst list \<Rightarrow> inst list \<Rightarrow> ('r world, (code, unit) result) state" where
  "drainLoop env worker live [] = State_Monad.return (Inr ())"
| "drainLoop env worker live (i # is) =
     (if list_ex (sameInstance i) live then drainLoop env worker live is
      else do {
        report \<leftarrow> (if worker then stopWorkerW env i else stopW env i);
        if \<not> rpExited report then State_Monad.return (Inl CodeProcessFailed) else drainLoop env worker live is
      })"

definition drainSecretRetirements :: "deployEnv \<Rightarrow> deployState \<Rightarrow> ('r world, (code, unit) result \<times> deployState) state" where
  "drainSecretRetirements env s = do {
     sys \<leftarrow> look wOs;
     if dsRetiring s = [] \<or>
        (dsMode s = ModeBlueGreen \<and> (case ActiveInstance s of None \<Rightarrow> True | Some i \<Rightarrow> \<not> InstanceAlive (evLinks env) sys i))
     then State_Monad.return (Inr (), s)
     else do {
       r \<leftarrow> drainLoop env (dsMode s = ModeWorker) (servingInstances s) (dsRetiring s);
       case r of
         Inl e \<Rightarrow> State_Monad.return (Inl e, s)
       | Inr _ \<Rightarrow> storeW env (s\<lparr>dsRetiring := []\<rparr>)
     }
   }"

section \<open>Reconciliation tells the truth\<close>

lemma InstanceAlive_status [simp]: "InstanceAlive lk sys (i\<lparr>inStatus := st\<rparr>) = InstanceAlive lk sys i"
  by (simp add: InstanceAlive_def instanceAliveViaRuntime_def)

lemma InstanceAlive_noPID: "\<not> InstanceAlive lk sys i \<Longrightarrow> \<not> InstanceAlive lk sys (i\<lparr>inPID := 0, inStatus := st\<rparr>)"
  by (auto simp: InstanceAlive_def instanceAliveViaRuntime_def split: if_splits)

lemma fixInst_clean: "\<not> needsFix lk sys (fixInst lk sys i)"
  using InstanceAlive_noPID [of lk sys i "''stopped''"]
  by (auto simp: needsFix_def fixInst_def Let_def)

lemma fixInst_id: "\<not> needsFix lk sys i \<Longrightarrow> fixInst lk sys i = i"
  by (auto simp: needsFix_def fixInst_def Let_def)

lemma managed_withManaged [simp]: "managed (withManaged m s) = m"
  by (simp add: managed_def withManaged_def)

lemma managed_cong: "sameRecord s s' \<Longrightarrow> managed s' = managed s"
  by (simp add: managed_def sameRecord_def)

lemma Store_same: "Store out now s f = (r, s', f') \<Longrightarrow> sameRecord s s'"
  by (auto simp: sameRecord_def Store_def Let_def split: if_splits sum.splits storeOutcome.splits)

lemma run_storeW:
  "run_state (storeW env s) w = ((r, s'), w') \<Longrightarrow>
     sameRecord s s' \<and> wOs w' = wOs w \<and> wDaemon w' = wDaemon w \<and> (isOk r \<and> \<not> dsSecretPreparing s \<longrightarrow> wFile w' = DeployFile s')"
  by (auto simp: storeW_def act_def isOk_iff split: prod.splits dest: Store_same Store_file)

lemma run_storeW_fine:
  "run_state (storeW env s) w = ((r, s'), w') \<Longrightarrow> evStore env (wClock w) = StoreFine \<Longrightarrow> dsAppName s \<noteq> '''' \<Longrightarrow>
     isOk (ValidateAppName (dsAppName s)) \<Longrightarrow> r = Inr ()"
  by (auto simp: storeW_def act_def Store_def Let_def isOk_iff split: prod.splits if_splits)

lemma Reconcile_run:
  fixes env s w defines "lk \<equiv> evLinks env" and "sys \<equiv> wOs w"
  assumes "run_state (Reconcile env s) w = ((r, d, s'), w')"
  shows "d = DecideLifecycle lk sys s \<and> managed s' = map (\<lambda>(k, i). (k, fixInst lk sys i)) (managed s) \<and> dsMode s' = dsMode s \<and>
         wOs w' = sys \<and> wDaemon w' = wDaemon w \<and>
         (\<not> list_ex (\<lambda>(k, i). needsFix lk sys i) (managed s) \<longrightarrow> r = Inr () \<and> s' = s \<and> w' = w) \<and>
         (isOk r \<and> w' \<noteq> w \<and> \<not> dsSecretPreparing s \<longrightarrow> wFile w' = DeployFile s') \<and>
         (evStore env (wClock w) = StoreFine \<and> isOk (ValidateAppName (dsAppName s)) \<and> dsAppName s \<noteq> '''' \<longrightarrow> r = Inr ())"
proof -
  let ?m = "map (\<lambda>(k, i). (k, fixInst lk sys i)) (managed s)"
  note env = lk_def sys_def
  show ?thesis
  proof (cases "list_ex (\<lambda>(k, i). needsFix lk sys i) (managed s)")
    case True
    obtain r1 s1 w1 where st: "run_state (storeW env (withManaged ?m s)) w = ((r1, s1), w1)" by (metis prod.exhaust)
    with assms(3) True have eq: "s' = s1" "w' = w1" "isOk r = isOk r1" "d = DecideLifecycle lk sys s" "r1 = Inr () \<longrightarrow> r = Inr ()"
      by (auto simp: Reconcile_def look_def Let_def env split: sum.splits)
    have keep: "dsSecretPreparing (withManaged ?m s) = dsSecretPreparing s" "dsMode (withManaged ?m s) = dsMode s"
      "dsAppName (withManaged ?m s) = dsAppName s" by (simp_all add: withManaged_def)
    have rec: "sameRecord (withManaged ?m s) s1 \<and> wOs w1 = wOs w \<and> wDaemon w1 = wDaemon w \<and>
        (isOk r1 \<and> \<not> dsSecretPreparing s \<longrightarrow> wFile w1 = DeployFile s1)"
      using run_storeW [OF st] keep by simp
    then have "managed s1 = ?m" "dsMode s1 = dsMode s"
      using managed_cong [of "withManaged ?m s" s1] keep by (simp_all add: sameRecord_def)
    with eq rec True run_storeW_fine [OF st] keep show ?thesis by (simp add: env)
  next
    case False
    then have "\<forall>ki\<in>set (managed s). (\<lambda>(k, i). (k, fixInst lk sys i)) ki = ki" by (auto simp: list_ex_iff fixInst_id)
    then have "?m = managed s" by (simp add: map_idI)
    with False assms(3) show ?thesis by (auto simp: Reconcile_def look_def Let_def env)
  qed
qed

text \<open>
  C30: Reconciliation makes the record tell the truth.  Whatever the write does, in the resulting record
  every process id belongs to a live, verified instance and every live instance is marked running, for
  the same keys as before; a record that needs no repair is neither changed nor written; a second
  reconciliation finds nothing to repair; and a successful repair is what the file holds.
\<close>
theorem Reconcile_truthful:
  assumes "run_state (Reconcile env s) w = ((r, d, s'), w')"
  shows "(\<forall>(k, i)\<in>set (managed s'). (inPID i > 0 \<longrightarrow> InstanceAlive (evLinks env) (wOs w') i) \<and>
            (InstanceAlive (evLinks env) (wOs w') i \<longrightarrow> inStatus i = ''running'')) \<and>
         map fst (managed s') = map fst (managed s) \<and> wOs w' = wOs w \<and> wDaemon w' = wDaemon w \<and>
         (\<not> list_ex (\<lambda>(k, i). needsFix (evLinks env) (wOs w) i) (managed s) \<longrightarrow> r = Inr () \<and> s' = s \<and> w' = w) \<and>
         (isOk r \<and> w' \<noteq> w \<and> \<not> dsSecretPreparing s \<longrightarrow> wFile w' = DeployFile s') \<and>
         run_state (Reconcile env s') w' = ((Inr (), DecideLifecycle (evLinks env) (wOs w') s', s'), w')"
proof -
  note run = Reconcile_run [OF assms]
  have true: "\<forall>(k, i)\<in>set (managed s'). \<not> needsFix (evLinks env) (wOs w') i"
    using run by (auto simp: fixInst_clean)
  then have "run_state (Reconcile env s') w' = ((Inr (), DecideLifecycle (evLinks env) (wOs w') s', s'), w')"
    by (auto simp: Reconcile_def look_def Let_def list_ex_iff)
  moreover have "map fst (managed s') = map fst (managed s)" using run by (simp add: case_prod_beta comp_def)
  ultimately show ?thesis using run true by (auto simp: needsFix_def Let_def)
qed

lemma sameExecutable_refl: "exe \<noteq> '''' \<Longrightarrow> sameExecutable lk exe exe"
  by (simp add: sameExecutable_def Let_def equalFold_def)

definition halfDead :: deployState where
  "halfDead = (initState ''web'' ModeRolling 8080)\<lparr>dsReplicas :=
     [(''0'', demoOld\<lparr>inSlot := ''0''\<rparr>), (''1'', demoOld\<lparr>inSlot := ''1'', inPID := 9, inPort := 9009\<rparr>)]\<rparr>"

lemma demo_alive:
  "InstanceAlive lk (wOs demoWorld) (demoOld\<lparr>inSlot := k\<rparr>)"
  "\<not> InstanceAlive lk (wOs demoWorld) (demoOld\<lparr>inSlot := k, inPID := 9, inPort := p\<rparr>)"
  using sameExecutable_refl [of "''/srv/web/v2''" lk]
  by (simp_all add: InstanceAlive_def instanceAliveViaRuntime_def demoOld_def emptyInst_def demoWorld_def
      findVerifiedProcess_def processTicks_def osPidAlive_def processExecutable_def)

lemma halfDead_order: "sortedReplicaKeys (dsReplicas halfDead) = [''0'', ''1'']"
  by (simp add: halfDead_def) code_simp

theorem Reconcile_truthful_witness:
  "\<exists>r d s' w'. run_state (Reconcile calmEnv halfDead) demoWorld = ((r, d, s'), w') \<and>
     (\<forall>(k, i)\<in>set (managed s'). inPID i > 0 \<longrightarrow> InstanceAlive (evLinks calmEnv) (wOs w') i) \<and> map fst (managed s') = [''0'', ''1'']"
proof -
  obtain r d s' w' where run: "run_state (Reconcile calmEnv halfDead) demoWorld = ((r, d, s'), w')" by (metis prod.exhaust)
  have "map fst (managed halfDead) = [''0'', ''1'']"
    by (simp add: managed_def halfDead_def initState_def ModeRolling_def ModeBlueGreen_def)
  then show ?thesis using run Reconcile_truthful [OF run] by fastforce
qed

text \<open>
  A dead replica degrades a rolling application only until the record is repaired: the repair clears
  its process id, after which it no longer counts as an instance that should serve.
\<close>

lemma reconcile_hides_dead_replica:
  "\<exists>d s' w'. run_state (Reconcile calmEnv halfDead) demoWorld = ((Inr (), d, s'), w') \<and> ldStatus d = ''degraded'' \<and>
     ldStatus (DecideLifecycle (evLinks calmEnv) (wOs w') s') = ''running''"
proof -
  let ?lk = "evLinks calmEnv" and ?sys = "wOs demoWorld"
  let ?m = "[(''0'', demoOld\<lparr>inSlot := ''0''\<rparr>), (''1'', demoOld\<lparr>inSlot := ''1'', inPID := 9, inPort := 9009\<rparr>)]"
  let ?m' = "[(''0'', demoOld\<lparr>inSlot := ''0''\<rparr>), (''1'', demoOld\<lparr>inSlot := ''1'', inPID := 0, inPort := 9009, inStatus := ''stopped''\<rparr>)]"
  have mode: "dsMode halfDead = ModeRolling" "dsReplicas halfDead = ?m" by (simp_all add: halfDead_def initState_def)
  have pid: "inPID (demoOld\<lparr>inSlot := k\<rparr>) = 7" "inStatus (demoOld\<lparr>inSlot := k\<rparr>) = ''running''" for k by (simp_all add: demoOld_def)
  have fixed: "map (\<lambda>(k, i). (k, fixInst ?lk ?sys i)) ?m = ?m'"
    by (simp add: fixInst_def demo_alive pid Let_def)
  obtain r d s' w' where run: "run_state (Reconcile calmEnv halfDead) demoWorld = ((r, d, s'), w')" by (metis prod.exhaust)
  have man: "managed halfDead = ?m" and name: "dsAppName halfDead = ''web''" using mode
    by (simp_all add: managed_def ModeRolling_def ModeBlueGreen_def halfDead_def initState_def)
  have valid: "isOk (ValidateAppName ''web'')" by code_simp
  have st: "evStore calmEnv n = StoreFine" for n by (simp add: calmEnv_def)
  from Reconcile_run [OF run] have res: "r = Inr ()" "d = DecideLifecycle ?lk ?sys halfDead" "managed s' = ?m'" "dsMode s' = ModeRolling"
      "wOs w' = ?sys"
    using man fixed mode valid by (simp_all add: name st)
  then have reps: "dsReplicas s' = ?m'" by (simp add: managed_def ModeRolling_def ModeBlueGreen_def)
  have ord: "sortedReplicaKeys ?m = [''0'', ''1'']" "sortedReplicaKeys ?m' = [''0'', ''1'']"
    using halfDead_order mode by (simp_all add: sortedReplicaKeys_def)
  have serving: "instancesServing halfDead = map snd ?m" "instancesServing s' = [demoOld\<lparr>inSlot := ''0''\<rparr>]"
    using mode res(4) reps ord
    by (simp_all add: instancesServing_def inOrder_def ModeRolling_def ModeBlueGreen_def List.map_filter_def hasProcess_def demoOld_def emptyInst_def)
  have "ldStatus d = ''degraded''" "ldStatus (DecideLifecycle ?lk ?sys s') = ''running''"
    using serving by (simp_all add: res(2) DecideLifecycle_def Let_def demo_alive)
  with run res show ?thesis by auto
qed

section \<open>Teardown forgets what it could not stop\<close>

lemma teardown_forgets_survivor:
  "\<exists>s' w'. run_state (TeardownDeployment (calmEnv\<lparr>evReact := \<lambda>_. KillFails\<rparr>) demoState) demoWorld = ((Inr (), s'), w') \<and>
     (\<forall>(k, i)\<in>set (dsSlots s'). inPID i = 0 \<and> inStatus i = ''stopped'') \<and> running (wOs w') (NativeProc 7)"
proof -
  let ?env = "calmEnv\<lparr>evReact := \<lambda>_. KillFails\<rparr>"
  have slots: "dsSlots demoState = [(SlotBlue, demoOld), (SlotGreen, emptyInst SlotGreen)]" "dsReplicas demoState = []"
    by (simp_all add: demoState_def initState_def)
  have has: "hasProcess demoOld" "\<not> hasProcess (emptyInst SlotGreen)" by (simp_all add: hasProcess_def demoOld_def emptyInst_def)
  have alive: "InstanceAlive lk (wOs demoWorld) demoOld" for lk
    using demo_alive(1) [of lk "inSlot demoOld"] by simp
  have stop: "stopInstance lk KillFails demoOld (wOs demoWorld) = (\<lparr>rpForceKilled = False, rpExited = False\<rparr>, wOs demoWorld)" for lk
    using alive [of lk] by (auto simp: stopInstance_def InstanceAlive_def stopByPID_def GracefulStop_def demoOld_def emptyInst_def
        instanceAliveViaRuntime_def split: option.split)
  obtain sl w1 where loop: "run_state (stopAll ?env (dsSlots demoState)) demoWorld = (sl, w1)" by fastforce
  then have sl: "sl = [(SlotBlue, stoppedInst demoOld), (SlotGreen, emptyInst SlotGreen)]" "wOs w1 = wOs demoWorld"
    by (auto simp: slots has alive stop look_def stopW_def act_def calmEnv_def)
  obtain r s' w' where st: "run_state (storeW ?env (demoState\<lparr>dsSlots := sl, dsReplicas := []\<rparr>)) w1 = ((r, s'), w')"
    by (metis prod.exhaust)
  have valid: "isOk (ValidateAppName ''web'')" by code_simp
  have "r = Inr ()" by (rule run_storeW_fine [OF st]) (simp_all add: calmEnv_def demoState_def initState_def valid)
  moreover have "dsSlots s' = sl" "wOs w' = wOs demoWorld" using run_storeW [OF st] sl(2) by (simp_all add: sameRecord_def)
  moreover have "run_state (TeardownDeployment ?env demoState) demoWorld = ((case r of Inl _ \<Rightarrow> Inl CodeFilesystem | Inr _ \<Rightarrow> Inr (), s'), w')"
    using loop st by (simp add: TeardownDeployment_def slots demoState_def initState_def)
  ultimately show ?thesis
    using sl(1) by (auto simp: stoppedInst_def emptyInst_def demoWorld_def)
qed

section \<open>A restarted deployment serves\<close>

definition upInst :: "os \<Rightarrow> inst \<Rightarrow> bool" where
  "upInst sys i \<longleftrightarrow> upBy sys (handleOf i) (hostPort (inPort i))"

text \<open>A launch gives the record the identity of the process, and never makes a stale record look alive.\<close>

definition identifies :: "(nat \<Rightarrow> string \<Rightarrow> string list \<Rightarrow> os \<Rightarrow> (code, launched) result \<times> os) \<Rightarrow> bool" where
  "identifies launch \<longleftrightarrow>
     (\<forall>n b ov sys ln sys'. launch n b ov sys = (Inr ln, sys') \<longrightarrow>
        lnHandle ln = (if lnContainerID ln \<noteq> '''' then DockerProc (lnContainerID ln) else NativeProc (lnPID ln)))"

definition neverRevives ::
    "(string \<Rightarrow> string option) \<Rightarrow> inst set \<Rightarrow> (nat \<Rightarrow> string \<Rightarrow> string list \<Rightarrow> os \<Rightarrow> (code, launched) result \<times> os) \<Rightarrow> bool" where
  "neverRevives lk stale launch \<longleftrightarrow>
     (\<forall>n b ov sys r sys'. launch n b ov sys = (r, sys') \<longrightarrow>
        (\<forall>i\<in>stale. InstanceAlive lk sys' i \<longrightarrow> InstanceAlive lk sys i))"

definition startInv :: "(string \<Rightarrow> string option) \<Rightarrow> inst set \<Rightarrow> (string \<times> inst) list \<Rightarrow> os \<Rightarrow> bool" where
  "startInv lk stale m sys \<longleftrightarrow>
     (\<forall>(k, i)\<in>set m. upInst sys i \<or> (i \<in> stale \<and> \<not> InstanceAlive lk sys i))"

text \<open>What a start keeps of the record: the keys, their order, and the binaries.\<close>

definition sameShape :: "deployState \<Rightarrow> deployState \<Rightarrow> bool" where
  "sameShape s s' \<longleftrightarrow>
     dsMode s' = dsMode s \<and> dsAppName s' = dsAppName s \<and> dsActiveSlot s' = dsActiveSlot s \<and>
     map (\<lambda>(k, i). (k, inBinaryPath i)) (managed s') = map (\<lambda>(k, i). (k, inBinaryPath i)) (managed s)"

lemma sameShape_refl [simp]: "sameShape s s"
  by (simp add: sameShape_def)

lemma sameShape_trans: "sameShape s s' \<Longrightarrow> sameShape s' s'' \<Longrightarrow> sameShape s s''"
  by (simp add: sameShape_def)

lemma withManaged_fields [simp]:
  "dsMode (withManaged m s) = dsMode s" "dsAppName (withManaged m s) = dsAppName s"
  "dsActiveSlot (withManaged m s) = dsActiveSlot s" "dsSecretPreparing (withManaged m s) = dsSecretPreparing s"
  by (simp_all add: withManaged_def)

lemma withStarted_managed: "managed (withStarted k i s) = AList.update k i (managed s)"
  by (simp add: withStarted_def withManaged_def managed_def)

lemma update_shape:
  "map_of m k = Some i \<Longrightarrow> f (k, j) = f (k, i) \<Longrightarrow> distinct (map fst m) \<Longrightarrow>
     map f (AList.update k j m) = map f m"
  by (induction m) auto



lemma Store_app: "Store out now s f = (r, s', f') \<Longrightarrow> dsAppName s' = dsAppName s"
  by (auto simp: Store_def Let_def split: if_splits sum.splits storeOutcome.splits)

lemma run_storeW_app: "run_state (storeW env s) w = ((r, s'), w') \<Longrightarrow> dsAppName s' = dsAppName s"
  by (auto simp: storeW_def act_def split: prod.splits dest: Store_app)

lemma upInst_mono: "upInst sys i \<Longrightarrow> (\<And>h port. listensOn sys h port \<Longrightarrow> listensOn sys' h port) \<Longrightarrow> upInst sys' i"
  by (auto simp: upInst_def upBy_def)

lemma startLoop_launches:
  assumes run: "run_state (startLoop env opt docker (k # ks) s) w = ((Inr (), s'), w')"
    and i: "map_of (managed s) k = Some i" and dead: "\<not> InstanceAlive (evLinks env) (wOs w) i"
  obtains n overlay ln now s1 w1 where
    "soLauncher opt n (inBinaryPath i) overlay (wOs w) = (Inr ln, wOs w1)" "wDaemon w1 = wDaemon w"
    "sameRecord (withStarted k (startedInst opt overlay now ln i) s) s1" "dsAppName s1 = dsAppName s"
    "run_state (startLoop env opt docker ks s1) w1 = ((Inr (), s'), w')"
proof -
  from run i dead obtain overlay where ov: "soOverlay opt (inEnvPath i) = Inr overlay"
    by (auto simp: look_def split: sum.splits if_splits)
  obtain r sys where launch: "soLauncher opt (wClock w) (inBinaryPath i) overlay (wOs w) = (r, sys)" by fastforce
  let ?w = "w\<lparr>wOs := sys, wClock := Suc (wClock w), wTrace := wTrace w @ [(sys, wDaemon w)]\<rparr>"
  from run i dead ov launch obtain ln where ln: "r = Inr ln"
    by (cases r) (auto simp: look_def act_def split: if_splits)
  let ?s = "withStarted k (startedInst opt overlay (evNow env (Suc (wClock w))) ln i) s"
  obtain r1 s1 w1 where st: "run_state (storeW env ?s) ?w = ((r1, s1), w1)" by (metis prod.exhaust)
  from run i dead ov launch ln st have "run_state (startLoop env opt docker ks s1) w1 = ((Inr (), s'), w')"
    by (cases r1) (auto simp: look_def act_def split: if_splits prod.splits)
  moreover have "sameRecord ?s s1" "wOs w1 = sys" "wDaemon w1 = wDaemon w" using run_storeW [OF st] by simp_all
  moreover have "dsAppName s1 = dsAppName s" using run_storeW_app [OF st] by (simp add: withStarted_def)
  ultimately show thesis using that [of "wClock w" overlay ln w1 "evNow env (Suc (wClock w))" s1] launch ln by simp
qed

definition upAt :: "deployState \<Rightarrow> os \<Rightarrow> string \<Rightarrow> bool" where
  "upAt s sys k \<longleftrightarrow> (\<exists>i. map_of (managed s) k = Some i \<and> upInst sys i)"

text \<open>
  One successful start loop: every recorded key it was given ends on an instance that listens, and what
  listened before still does.
\<close>

lemma startLoop_up:
  assumes launch: "launchContract (soLauncher opt)" "identifies (soLauncher opt)" "neverRevives (evLinks env) stale (soLauncher opt)"
  shows "run_state (startLoop env opt docker ks s) w = ((Inr (), s'), w') \<Longrightarrow> startInv (evLinks env) stale (managed s) (wOs w) \<Longrightarrow>
     distinct (map fst (managed s)) \<Longrightarrow>
     sameShape s s' \<and> wDaemon w' = wDaemon w \<and> (\<forall>k. upAt s (wOs w) k \<longrightarrow> upAt s' (wOs w') k) \<and>
     (\<forall>k\<in>set ks. map_of (managed s) k \<noteq> None \<longrightarrow> upAt s' (wOs w') k)"
proof (induction ks arbitrary: s w)
  case Nil
  then show ?case by simp
next
  case (Cons k ks)
  note IH = Cons.IH and run = Cons.prems(1) and inv = Cons.prems(2) and dis = Cons.prems(3)
  show ?case
  proof (cases "map_of (managed s) k")
    case None
    with run have "run_state (startLoop env opt docker ks s) w = ((Inr (), s'), w')" by simp
    from IH [OF this inv dis] None show ?thesis by auto
  next
    case (Some i)
    show ?thesis
    proof (cases "InstanceAlive (evLinks env) (wOs w) i")
      case True
      with run Some have "run_state (startLoop env opt docker ks s) w = ((Inr (), s'), w')" by (simp add: look_def)
      note rest = IH [OF this inv dis]
      have "upInst (wOs w) i" using inv True map_of_SomeD [OF Some] unfolding startInv_def by fast
      with Some have "upAt s (wOs w) k" by (simp add: upAt_def)
      with rest show ?thesis by auto
    next
      case False
      obtain n overlay ln now s1 w1 where step:
        "soLauncher opt n (inBinaryPath i) overlay (wOs w) = (Inr ln, wOs w1)" "wDaemon w1 = wDaemon w"
        "sameRecord (withStarted k (startedInst opt overlay now ln i) s) s1" "dsAppName s1 = dsAppName s"
        "run_state (startLoop env opt docker ks s1) w1 = ((Inr (), s'), w')" by (rule startLoop_launches [OF run Some False])
      let ?j = "startedInst opt overlay now ln i"
      have "lnHandle ln = (if lnContainerID ln \<noteq> '''' then DockerProc (lnContainerID ln) else NativeProc (lnPID ln))"
        using launch(2) step(1) unfolding identifies_def by blast
      then have j: "handleOf ?j = lnHandle ln" "inPort ?j = lnPort ln" "inBinaryPath ?j = inBinaryPath i"
        by (simp_all add: handleOf_def startedInst_def)
      have listens: "listensOn (wOs w1) h port" if "listensOn (wOs w) h port" for h port
        using that launch(1) step(1) unfolding launchContract_def by blast
      have up: "upInst (wOs w1) ?j"
        using launch(1) step(1) j unfolding launchContract_def upInst_def upBy_def by auto
      have man: "managed s1 = AList.update k ?j (managed s)"
        using managed_cong [OF step(3)] by (simp add: withStarted_managed)
      have shape: "sameShape s s1"
        using step(3,4) man update_shape [OF Some, where f = "\<lambda>(k, i). (k, inBinaryPath i)" and j = ?j] dis j(3)
        by (simp add: sameShape_def sameRecord_def withStarted_def)
      have stale: "startInv (evLinks env) stale (managed s1) (wOs w1)"
        unfolding startInv_def
      proof clarify
        fix k' i' assume mem: "(k', i') \<in> set (managed s1)" and no: "\<not> (i' \<in> stale \<and> \<not> InstanceAlive (evLinks env) (wOs w1) i')"
        from mem have "(k', i') = (k, ?j) \<or> (k', i') \<in> set (managed s)"
          using ProxyDaemon.set_update [where k = k and v = ?j and ps = "managed s"] by (auto simp: man)
        then show "upInst (wOs w1) i'"
        proof
          assume "(k', i') = (k, ?j)"
          with up show ?thesis by simp
        next
          assume "(k', i') \<in> set (managed s)"
          with inv have old: "upInst (wOs w) i' \<or> (i' \<in> stale \<and> \<not> InstanceAlive (evLinks env) (wOs w) i')"
            unfolding startInv_def by blast
          have "\<not> InstanceAlive (evLinks env) (wOs w1) i'" if "i' \<in> stale" "\<not> InstanceAlive (evLinks env) (wOs w) i'"
            using that launch(3) step(1) unfolding neverRevives_def by blast
          with old no upInst_mono [OF _ listens] show ?thesis by blast
        qed
      qed
      have "distinct (map fst (managed s1))" using dis by (simp add: man distinct_update)
      note rest = IH [OF step(5) stale this]
      have here: "upAt s1 (wOs w1) k" using up by (simp add: upAt_def man AList.update_conv')
      have keep: "upAt s1 (wOs w1) k'" if "upAt s (wOs w) k'" for k'
        using that here upInst_mono [OF _ listens] by (cases "k' = k") (auto simp: upAt_def man AList.update_conv')
      have "map_of (managed s1) k' \<noteq> None" if "map_of (managed s) k' \<noteq> None" for k'
        using that by (simp add: man AList.update_conv')
      with rest here keep sameShape_trans [OF shape] step(2) show ?thesis by simp
    qed
  qed
qed

lemma set_insertFromRight: "set (insertFromRight lt x xs) = insert x (set xs)"
  by (induction xs) auto

lemma set_sortSlice [simp]: "set (sortSlice lt xs) = set xs"
proof -
  have "set (fold (insertFromRight lt) xs acc) = set xs \<union> set acc" for acc
    by (induction xs arbitrary: acc) (auto simp: set_insertFromRight)
  then show ?thesis by (simp add: sortSlice_def)
qed

lemma set_inOrder: "(k, i) \<in> set (inOrder m) \<longleftrightarrow> map_of m k = Some i"
proof -
  have "set (List.map_filter f xs) = {y. \<exists>x\<in>set xs. f x = Some y}" for f :: "string \<Rightarrow> (string \<times> inst) option" and xs
    by (induction xs) (auto simp: List.map_filter_simps split: option.splits)
  moreover have "k \<in> fst ` set m" if "map_of m k = Some i"
    using map_of_SomeD [OF that] by (metis fst_conv imageI)
  ultimately show ?thesis
    by (auto simp: inOrder_def sortedReplicaKeys_def)
qed

lemma managed_mode:
  "dsMode s = ModeBlueGreen \<Longrightarrow> managed s = dsSlots s" "dsMode s = ModeRolling \<Longrightarrow> managed s = dsReplicas s"
  by (auto simp: managed_def ModeBlueGreen_def ModeRolling_def)

lemma toStart_keys:
  assumes "toStart s = Inr keys" and "map_of (managed s) k = Some i" and "inBinaryPath i \<noteq> ''''"
    and "dsMode s = ModeBlueGreen \<Longrightarrow> k = dsActiveSlot s"
  shows "k \<in> set keys"
  using assms
  by (auto simp: toStart_def managed_mode set_inOrder Let_def image_iff split: if_splits option.splits)

lemma restoreTargets_hosts:
  assumes "restoreTargets s = Inr (p, bs)" and "t \<in> set (p # bs)"
  obtains k i where "map_of (managed s) k = Some i" "tHost t = hostPort (inPort i)"
    "dsMode s = ModeBlueGreen \<longrightarrow> k = dsActiveSlot s" "dsMode s = ModeBlueGreen \<or> dsMode s = ModeRolling"
proof (cases "dsMode s = ModeBlueGreen")
  case True
  with assms show thesis
    by (auto simp: restoreTargets_def ActiveInstance_def managed_mode intro: that split: option.splits if_splits)
next
  case False
  with assms(1) have roll: "dsMode s = ModeRolling"
    "p # bs = map replicaTarget (filter (\<lambda>(k, i). hasProcess i) (inOrder (dsReplicas s)))"
    by (auto simp: restoreTargets_def split: if_splits list.splits)
  from assms(2) obtain k i where "(k, i) \<in> set (inOrder (dsReplicas s))" "t = replicaTarget (k, i)"
    unfolding roll(2) by auto
  with False roll(1) show thesis by (intro that) (auto simp: set_inOrder managed_mode replicaTarget_def)
qed

text \<open>A successful switch or enrolment routes exactly to the targets of the request.\<close>

lemma Client_Switch_ok:
  "Client_Switch dv flt app prim bs d = (Inr x, d') \<Longrightarrow> routeOf app d' = Some (prim # addlTargets {tHost prim} bs)"
  by (cases flt)
    (auto simp: Client_Switch_def okOrProxyError_def Do_def handleConn_def controlReq_def respond_def okResponse_def
      SwitchApp_def routeOf_def AList.update_conv' split: if_splits sum.splits option.splits prod.splits)

lemma Client_Add_ok:
  "Client_Add dv flt mode app port prim bs d = (Inr x, d') \<Longrightarrow> routeOf app d' = Some (prim # addlTargets {tHost prim} bs)"
  by (cases flt)
    (auto simp: Client_Add_def okOrProxyError_def Do_def handleConn_def controlReq_def respond_def okResponse_def
      EnrollApp_def routeOf_def newAppProxy_def NewProxy_def AList.update_conv' Let_def
      split: if_splits sum.splits option.splits prod.splits)

lemma run_callW:
  "run_state (callW env k call) w = (r, w') \<Longrightarrow>
     wOs w' = wOs w \<and> call (daemonEnvAt env (wClock w) w) (evFault env k (wClock w)) (wDaemon w) = (r, wDaemon w')"
  by (auto simp: callW_def act_def split: prod.splits)

lemma RestoreProxyRoute_ok:
  assumes "run_state (RestoreProxyRoute env hc s) w = (Inr u, w')"
  obtains p bs where "restoreTargets s = Inr (p, bs)" "routeOf (dsAppName s) (wDaemon w') = Some (p # addlTargets {tHost p} bs)"
    "wOs w' = wOs w"
proof -
  from assms obtain p bs where t: "restoreTargets s = Inr (p, bs)"
    by (auto simp: RestoreProxyRoute_def split: if_splits sum.splits)
  let ?app = "dsAppName s"
  obtain b w1 where en: "run_state (proxyEnrolled env ?app) w = (b, w1)" by fastforce
  obtain r w2 where call: "run_state (if b then proxySwitch env ?app p bs else proxyAdd env ?app (dsPublicPort s) p bs) w1 = (r, w2)"
    by fastforce
  from assms t en call have r: "isOk r" "w' = w2"
    by (auto simp: RestoreProxyRoute_def split: if_splits sum.splits)
  then obtain x where x: "r = Inr x" by (auto simp: isOk_iff)
  have "routeOf ?app (wDaemon w2) = Some (p # addlTargets {tHost p} bs) \<and> wOs w2 = wOs w1"
    using call x
    by (auto simp: proxySwitch_def proxyAdd_def dest!: run_callW Client_Switch_ok Client_Add_ok split: if_splits)
  moreover have "wOs w1 = wOs w"
    using en by (auto simp: proxyEnrolled_def dest!: run_callW split: prod.splits)
  ultimately show thesis using that t r(2) by simp
qed


definition rebootWorld :: "unit world" where
  "rebootWorld = demoWorld\<lparr>wOs := \<lparr>osProcs = Map.empty, osContainers = Map.empty, osDockerUp = True\<rparr>\<rparr>"

definition demoStart :: startOptions where
  "demoStart = \<lparr>soLauncher = demoLaunch, soStat = (\<lambda>_. True), soOverlay = (\<lambda>_. Inr []), soSecretEnvs = (\<lambda>_. []), soListens = (\<lambda>_. True)\<rparr>"

lemma demoLaunch_identifies: "identifies demoLaunch"
  by (auto simp: identifies_def demoLaunch_def split: if_splits)

lemma demoLaunch_neverRevives:
  "(\<And>i. i \<in> stale \<Longrightarrow> inContainerID i = '''' \<and> inPID i \<noteq> 99) \<Longrightarrow> neverRevives lk stale demoLaunch"
  by (auto simp: neverRevives_def demoLaunch_def InstanceAlive_def instanceAliveViaRuntime_def findVerifiedProcess_def
      processTicks_def osPidAlive_def processExecutable_def split: if_splits)

lemma demo_start:
  "\<exists>s1 w1. run_state (StartDeployment calmEnv demoStart demoState) rebootWorld = ((Inr (), s1), w1) \<and>
     wDaemon w1 = wDaemon demoWorld \<and> sameShape demoState s1 \<and>
     (\<exists>i. map_of (dsSlots s1) SlotBlue = Some i \<and> hasProcess i)"
proof -
  have man: "managed demoState = [(SlotBlue, demoOld), (SlotGreen, emptyInst SlotGreen)]"
    by (simp add: managed_def demoState_def initState_def)
  have keys: "toStart demoState = Inr [SlotBlue]"
    by (simp add: toStart_def demoState_def initState_def ActiveInstance_def demoOld_def SlotBlue_def)
  have dead: "\<not> InstanceAlive lk (wOs rebootWorld) demoOld" for lk
    by (simp add: InstanceAlive_def instanceAliveViaRuntime_def demoOld_def emptyInst_def rebootWorld_def processTicks_def)
  let ?ln = "\<lparr>lnHandle = NativeProc 99, lnPID = 99, lnTicks = 5, lnPort = 9002, lnContainerID = ''''\<rparr>"
  obtain sys where launch: "demoLaunch n (inBinaryPath demoOld) [] (wOs rebootWorld) = (Inr ?ln, sys)" for n
    by (simp add: demoLaunch_def rebootWorld_def)
  let ?w = "rebootWorld\<lparr>wOs := sys, wClock := 1, wTrace := [(sys, wDaemon rebootWorld)]\<rparr>"
  let ?s = "withStarted SlotBlue (startedInst demoStart [] (evNow calmEnv 1) ?ln demoOld) demoState"
  obtain r s1 w1 where st: "run_state (storeW calmEnv ?s) ?w = ((r, s1), w1)" by (metis prod.exhaust)
  have valid: "isOk (ValidateAppName ''web'')" by code_simp
  have r: "r = Inr ()"
    by (rule run_storeW_fine [OF st]) (simp_all add: calmEnv_def withStarted_def demoState_def initState_def valid)
  have opt: "soLauncher demoStart = demoLaunch" "soStat demoStart p" "soOverlay demoStart e = Inr []" "soListens demoStart n"
    for p e n by (simp_all add: demoStart_def)
  have name: "dsAppName demoState = ''web''" by (simp add: demoState_def initState_def)
  have clock: "wClock rebootWorld = 0" "wTrace rebootWorld = []" by (simp_all add: rebootWorld_def demoWorld_def)
  have "run_state (startLoop calmEnv demoStart docker [SlotBlue] demoState) rebootWorld = ((Inr (), s1), w1)" for docker
    using st r launch dead by (simp add: man opt clock look_def act_def)
  then have "run_state (StartDeployment calmEnv demoStart demoState) rebootWorld = ((Inr (), s1), w1)"
    by (simp add: StartDeployment_def keys name)
  moreover have "sameRecord ?s s1" "wDaemon w1 = wDaemon demoWorld" using run_storeW [OF st] by (simp_all add: rebootWorld_def)
  moreover have "map_of (dsSlots ?s) SlotBlue = Some (startedInst demoStart [] (evNow calmEnv 1) ?ln demoOld)"
    by (simp add: withStarted_def withManaged_def managed_def demoState_def initState_def AList.update_conv')
  moreover have "hasProcess (startedInst demoStart [] (evNow calmEnv 1) ?ln demoOld)" by (simp add: hasProcess_def startedInst_def)
  moreover have "sameShape demoState s1"
    using managed_cong [OF \<open>sameRecord ?s s1\<close>] \<open>sameRecord ?s s1\<close> run_storeW_app [OF st] man
    by (auto simp: sameShape_def sameRecord_def withStarted_managed startedInst_def) (simp_all add: withStarted_def)
  ultimately show ?thesis unfolding sameRecord_def by auto
qed

lemma demo_restore:
  assumes "wDaemon w = wDaemon demoWorld" and "sameShape demoState s" and "map_of (dsSlots s) SlotBlue = Some i" and "hasProcess i"
  shows "\<exists>w2. run_state (RestoreProxyRoute calmEnv True s) w = (Inr (), w2)"
proof -
  have t: "restoreTargets s = Inr (targetOf (inSlot i) (inPort i), [])" and name: "dsAppName s = ''web''"
    using assms(2-4) by (auto simp: restoreTargets_def ActiveInstance_def sameShape_def demoState_def initState_def SlotBlue_def)
  obtain p where d: "dmRunning (wDaemon w)" "map_of (dmProxies (wDaemon w)) ''web'' = Some p"
    using assms(1) by (simp add: demoWorld_def)
  have calm: "evFault calmEnv k n = NoFault" for k n by (simp add: calmEnv_def)
  have listed: "DaemonStatus ''web'' (wDaemon w) \<noteq> []"
    by (rule DaemonStatus_enrolled) (simp add: routeOf_def d(2))
  obtain w1 where en: "run_state (proxyEnrolled calmEnv ''web'') w = (True, w1)" "wDaemon w1 = wDaemon w"
    using d(1) listed
    by (simp add: proxyEnrolled_def callW_def act_def calm Client_Status_def okOrProxyError_def Do_def handleConn_def
        controlReq_def okResponse_def)
  obtain x w2 where "run_state (proxySwitch calmEnv ''web'' (targetOf (inSlot i) (inPort i)) []) w1 = (Inr x, w2)"
    using d by (simp add: proxySwitch_def callW_def act_def calm en(2) Client_Switch_def okOrProxyError_def Do_def handleConn_def
        controlReq_def respond_def okResponse_def SwitchApp_def)
  with en(1) show ?thesis by (simp add: RestoreProxyRoute_def t name)
qed


end
