(* ===== verification/Rolling.thy ===== *)
theory Rolling
  imports Lifecycle
begin

text \<open>
  Rolling deployments (\<open>internal/deploy/rolling.go\<close>): the replicas are replaced one at a time, each by
  a candidate that is started beside it, checked, put into the membership of the proxy, recorded, and
  only then drained.  The struct has the fields of the blue-green one, so its record extends that one.
  Replica maps are association lists; keys are indices, which \<open>strconv.Atoi\<close> reads back.
\<close>

section \<open>The program\<close>

record 'r rolling = "'r blueGreen" +
  rlReplicas :: int
  rlAtomicSecretRecovery :: bool
  rlCancelled :: "nat \<Rightarrow> bool"

subsection \<open>Replica sets\<close>

definition replicaNumber :: "string \<Rightarrow> int" where
  "replicaNumber k = (case atoi k of Some n \<Rightarrow> n | None \<Rightarrow> 0)"

definition replicaIndices :: "(string \<times> inst) list \<Rightarrow> string list" where
  "replicaIndices m = sortSlice (\<lambda>s t. replicaNumber s < replicaNumber t) (map fst m)"

definition ensureReplicaMap :: "(string \<times> inst) list \<Rightarrow> nat \<Rightarrow> (string \<times> inst) list" where
  "ensureReplicaMap existing n =
     map (\<lambda>i. let key = utoa i in (key, case map_of existing key of Some inst \<Rightarrow> inst | None \<Rightarrow> emptyInst key)) [0..<n]"

definition surplusKey :: "int \<Rightarrow> string \<Rightarrow> bool" where
  "surplusKey n k = (case atoi k of None \<Rightarrow> True | Some idx \<Rightarrow> idx \<ge> n)"

text \<open>The instances beyond the desired count, and what is left of the map.\<close>

definition applyReplicaSet :: "(string \<times> inst) list \<Rightarrow> int \<Rightarrow> inst list \<times> (string \<times> inst) list" where
  "applyReplicaSet existing n =
     (sortSlice (\<lambda>i j. inSlot i < inSlot j) (filter hasProcess (map snd (filter (\<lambda>(k, i). surplusKey n k) existing))),
      filter (\<lambda>(k, i). \<not> surplusKey n k) existing)"

definition servable :: "inst \<Rightarrow> bool" where
  "servable i \<longleftrightarrow> inStatus i = ''running'' \<and> inPort i \<noteq> 0"

definition noTarget :: target where
  "noTarget = \<lparr>tHost = ''127.0.0.1:0'', tLabel = ''none'', tWeight = 0\<rparr>"

fun serveLoop :: "(string \<times> inst) list \<Rightarrow> string list \<Rightarrow> target list" where
  "serveLoop m [] = []"
| "serveLoop m (k # ks) =
     (case map_of m k of
        None \<Rightarrow> serveLoop m ks
      | Some i \<Rightarrow> if servable i then replicaTarget (k, i) # serveLoop m ks else serveLoop m ks)"

definition healthyTargets :: "(string \<times> inst) list \<Rightarrow> target \<times> target list" where
  "healthyTargets m =
     (case serveLoop m (replicaIndices m) of [] \<Rightarrow> (noTarget, []) | t # ts \<Rightarrow> (t, ts))"

definition membershipAfterReplace :: "(string \<times> inst) list \<Rightarrow> string \<Rightarrow> int \<Rightarrow> target \<times> target list" where
  "membershipAfterReplace m key newPort =
     healthyTargets (map (\<lambda>(k, i). (k, if k = key then (emptyInst key)\<lparr>inStatus := ''running'', inPort := newPort\<rparr> else i)) m)"

definition restoreReplica :: "string \<Rightarrow> inst option \<Rightarrow> deployState \<Rightarrow> deployState" where
  "restoreReplica key old s =
     s\<lparr>dsReplicas := AList.update key (case old of None \<Rightarrow> emptyInst key | Some i \<Rightarrow> i) (dsReplicas s)\<rparr>"

definition setReplica :: "string \<Rightarrow> inst \<Rightarrow> deployState \<Rightarrow> deployState" where
  "setReplica key i s = s\<lparr>dsReplicas := AList.update key i (dsReplicas s)\<rparr>"

subsection \<open>Replacing one replica\<close>

definition awaitReplica :: "'r rolling \<Rightarrow> tier \<Rightarrow> launched \<Rightarrow> ('r world, bool) state" where
  "awaitReplica r t ln =
     act (\<lambda>n w.
       if WaitForHealthy (healthFuel (bgParseDuration r) (bgHealthCfg r)) (bgParseDuration r) t (bgHealthCfg r)
            (lnPID ln) None (poNow (bgPolls r n 0)) (bgPolls r n) = Some (Inr ())
       then (True, w)
       else (False, if bgCrashed r n then w\<lparr>wOs := endProcess (lnHandle ln) (wOs w)\<rparr> else w))"

text \<open>An abort before the membership changed: the candidate is stopped, the old record restored and stored.\<close>

definition failReplaced ::
    "deployEnv \<Rightarrow> string \<Rightarrow> inst option \<Rightarrow> handle \<Rightarrow> code \<Rightarrow> bool \<Rightarrow> deployState
       \<Rightarrow> ('r world, (code, unit) result \<times> deployState \<times> bool) state" where
  "failReplaced env key old h e enrolled s = do {
     killW env h;
     (p, s') \<leftarrow> storeW env (restoreReplica key old s);
     State_Monad.return (case p of Inl _ \<Rightarrow> Inl CodeFilesystem | Inr _ \<Rightarrow> Inl e, s', enrolled)
   }"

definition rollingHandOff :: "'r rolling \<Rightarrow> ('r world, (code, unit) result) state" where
  "rollingHandOff r =
     (case bgPortHandoff r of
        None \<Rightarrow> State_Monad.return (Inr ())
      | Some handoff \<Rightarrow> do {
          free \<leftarrow> look (portAvailable (bgPublicPort r));
          if bgPublicPort r \<le> 0 \<or> free then State_Monad.return (Inr ())
          else do {
            x \<leftarrow> act (\<lambda>n w. case handoff n of
                   (x, gone) \<Rightarrow> (x, if gone then w\<lparr>wForeign := (wForeign w)(bgPublicPort r := False)\<rparr> else w));
            case x of
              Inl e \<Rightarrow> State_Monad.return (Inl CodeProxy)
            | Inr _ \<Rightarrow> do {
                released \<leftarrow> look (portAvailable (bgPublicPort r));
                State_Monad.return (if released then Inr () else Inl CodePortUnavailable)
              }
          }
        })"

text \<open>The proxy routes to the candidate, but the record could not be stored.\<close>

definition compensateReplica ::
    "'r rolling \<Rightarrow> deployEnv \<Rightarrow> string \<Rightarrow> inst option \<Rightarrow> inst \<Rightarrow> handle \<Rightarrow> bool \<Rightarrow> string \<Rightarrow> deployState
       \<Rightarrow> ('r world, (code, unit) result \<times> deployState \<times> bool) state" where
  "compensateReplica r env key old cand h wasEnrolled previousStamp s = do {
     let s1 = restoreReplica key old s;
     comp \<leftarrow> (if wasEnrolled then
               (case healthyTargets (dsReplicas s1) of (prim, bs) \<Rightarrow> proxySwitch env (bgAppName r) prim bs)
             else proxyRemove env (bgAppName r));
     let enrolled = (wasEnrolled \<or> \<not> isOk comp);
     if \<not> isOk comp then do {
       (p, s2) \<leftarrow> storeW env (setReplica key cand s1);
       State_Monad.return (Inl CodeProxy, s2, enrolled)
     }
     else do {
       let s2 = s1\<lparr>dsSecretTxnID := previousStamp\<rparr>;
       let s3 = (if bgSecrets r \<noteq> None then s2\<lparr>dsRetiring := dsRetiring s2 @ [cand]\<rparr> else s2);
       (p, s4) \<leftarrow> storeW env s3;
       case p of
         Inl _ \<Rightarrow> State_Monad.return (Inl CodeFilesystem, s4, enrolled)
       | Inr _ \<Rightarrow> do { killW env h; State_Monad.return (Inl CodeFilesystem, s4, enrolled) }
     }
   }"

definition recordReplica ::
    "'r rolling \<Rightarrow> deployEnv \<Rightarrow> string \<Rightarrow> inst option \<Rightarrow> inst \<Rightarrow> handle \<Rightarrow> bool \<Rightarrow> deployState
       \<Rightarrow> ('r world, (code, unit) result \<times> deployState \<times> bool) state" where
  "recordReplica r env key old cand h wasEnrolled s = do {
     (p, s1) \<leftarrow> storeW env (Stamp (bgSecrets r) (case old of None \<Rightarrow> [] | Some i \<Rightarrow> [i]) (setReplica key cand s));
     case p of
       Inl _ \<Rightarrow> compensateReplica r env key old cand h wasEnrolled (dsSecretTxnID s) s1
     | Inr _ \<Rightarrow>
         (case old of
            None \<Rightarrow> State_Monad.return (Inr (), s1, True)
          | Some i \<Rightarrow>
              if hasProcess i \<and> bgSecrets r = None then do {
                report \<leftarrow> stopW env i;
                State_Monad.return (Inr (), s1, True)
              }
              else State_Monad.return (Inr (), s1, True))
   }"

definition joinRotation ::
    "'r rolling \<Rightarrow> deployEnv \<Rightarrow> string \<Rightarrow> inst option \<Rightarrow> inst \<Rightarrow> launched \<Rightarrow> bool \<Rightarrow> deployState
       \<Rightarrow> ('r world, (code, unit) result \<times> deployState \<times> bool) state" where
  "joinRotation r env key old cand ln enrolled s =
     (let h = lnHandle ln; (prim, bs) = membershipAfterReplace (dsReplicas s) key (lnPort ln) in
      if \<not> bgProxyClient r then failReplaced env key old h CodeProxy enrolled s
      else if \<not> enrolled then do {
        handed \<leftarrow> rollingHandOff r;
        case handed of
          Inl e \<Rightarrow> failReplaced env key old h e enrolled s
        | Inr _ \<Rightarrow> do {
            x \<leftarrow> proxyAdd env (bgAppName r) (bgPublicPort r) prim bs;
            case x of
              Inl e \<Rightarrow> failReplaced env key old h CodeProxy enrolled s
            | Inr _ \<Rightarrow> recordReplica r env key old cand h False s
          }
      }
      else do {
        x \<leftarrow> proxySwitch env (bgAppName r) prim bs;
        case x of
          Inl e \<Rightarrow> failReplaced env key old h CodeProxy enrolled s
        | Inr _ \<Rightarrow> recordReplica r env key old cand h True s
      })"

definition replicaOf :: "'r rolling \<Rightarrow> string \<Rightarrow> string \<Rightarrow> string \<Rightarrow> int \<Rightarrow> string list \<Rightarrow> int \<Rightarrow> launched \<Rightarrow> inst" where
  "replicaOf r key binaryPath envPath targetVer overlay now ln =
     \<lparr>inSecretEnvs = bgSecretEnvs r overlay, inSlot = key, inPID = lnPID ln, inPort = lnPort ln,
      inBinaryPath = binaryPath, inContainerID = lnContainerID ln, inStartedAt = now,
      inStatus = ''running'', inVersion = targetVer, inEnvPath = envPath, inStartTicks = lnTicks ln,
      inRestartCount = 0, inLastRestartAt = 0, inLastExitCode = 0, inLastExitReason = '''', inLastExitAt = 0,
      inReadyAt = 0\<rparr>"

definition markReplacing :: "string \<Rightarrow> deployState \<Rightarrow> deployState" where
  "markReplacing key s =
     (case map_of (dsReplicas s) key of
        None \<Rightarrow> s
      | Some i \<Rightarrow> setReplica key (i\<lparr>inStatus := ''replacing''\<rparr>) s)"

text \<open>The artifact of a deployment: binary, environment snapshot, overlay and version.\<close>

record artifact =
  arBinary :: string
  arEnv :: string
  arOverlay :: "string list"
  arVersion :: int

definition rollOne ::
    "'r rolling \<Rightarrow> deployEnv \<Rightarrow> artifact \<Rightarrow> tier \<Rightarrow> string \<Rightarrow> bool \<Rightarrow> deployState
       \<Rightarrow> ('r world, (code, unit) result \<times> deployState \<times> bool) state" where
  "rollOne r env a t key enrolled s = do {
     let old = map_of (dsReplicas s) key;
     let s0 = (if old = None then setReplica key (emptyInst key) s else s);
     started \<leftarrow> act (\<lambda>n w. case bgLauncher r n (arBinary a) (arOverlay a) (wOs w) of (x, sys) \<Rightarrow> (x, w\<lparr>wOs := sys\<rparr>));
     case started of
       Inl e \<Rightarrow> State_Monad.return (Inl CodeInstanceStartFailed, s0, enrolled)
     | Inr ln \<Rightarrow> do {
         (p, s1) \<leftarrow> (if (case old of None \<Rightarrow> False | Some i \<Rightarrow> inPID i > 0) then storeW env (markReplacing key s0)
                    else State_Monad.return (Inr (), s0));
         case p of
           Inl _ \<Rightarrow> do {
             killW env (lnHandle ln);
             State_Monad.return (Inl CodeFilesystem, restoreReplica key old s1, enrolled)
           }
         | Inr _ \<Rightarrow> do {
             healthy \<leftarrow> awaitReplica r t ln;
             n \<leftarrow> look wClock;
             if \<not> healthy then
               failReplaced env key old (lnHandle ln) (if bgOom r n then CodeResourceOOM else CodeHealthCheckFailed) enrolled s1
             else
               let cand = replicaOf r key (arBinary a) (arEnv a) (arVersion a) (arOverlay a) (evNow env n) ln in
               if rlAtomicSecretRecovery r then
                 State_Monad.return (Inr (),
                   (setReplica key cand s1)\<lparr>dsRetiring := dsRetiring s1 @ (case old of None \<Rightarrow> [] | Some i \<Rightarrow> [i])\<rparr>, enrolled)
               else joinRotation r env key old cand ln enrolled s1
           }
       }
   }"

subsection \<open>The deployment\<close>

definition rollingUndo :: "'r rolling \<Rightarrow> deployEnv \<Rightarrow> modeSnapshot \<Rightarrow> deployState \<Rightarrow> ('r world, deployState) state" where
  "rollingUndo r env pre s =
     (if msMode pre = '''' then do { RemoveState env (bgAppName r); State_Monad.return s }
      else if msMode pre = ModeRolling then State_Monad.return s
      else do { (p, s') \<leftarrow> storeW env (restoreMode pre s); State_Monad.return s' })"

text \<open>\<open>wrapDeployStep\<close>: an error without a code becomes a failed deployment.\<close>

definition stepCode :: "code \<Rightarrow> code" where
  "stepCode e = (if e = CodeUnknown then CodeDeployFailed else e)"

fun rollAll ::
    "'r rolling \<Rightarrow> deployEnv \<Rightarrow> artifact \<Rightarrow> tier \<Rightarrow> modeSnapshot \<Rightarrow> inst list \<Rightarrow> bool \<Rightarrow> bool \<Rightarrow> string list \<Rightarrow> deployState
       \<Rightarrow> ('r world, deployResult \<times> deployState) state" where
  "rollAll r env a t pre legacy progressed enrolled [] s = State_Monad.return (Deployed, s)"
| "rollAll r env a t pre legacy progressed enrolled (key # keys) s = do {
     n \<leftarrow> look wClock;
     if rlCancelled r n then do {
       s' \<leftarrow> (if progressed then State_Monad.return s else rollingUndo r env pre s);
       State_Monad.return (DeployFailed CodeDeployFailed, s')
     }
     else do {
       (x, s1, enrolled') \<leftarrow> rollOne r env a t key enrolled s;
       case x of
         Inl e \<Rightarrow>
           if \<not> progressed then do {
             s' \<leftarrow> rollingUndo r env pre s1;
             State_Monad.return (DeployFailed (stepCode e), s')
           }
           else do {
             (p, s') \<leftarrow> storeW env (s1\<lparr>dsActiveVersion := 0, dsSecretPreparing := rlAtomicSecretRecovery r\<rparr>);
             State_Monad.return (DeployFailed (case p of Inl _ \<Rightarrow> CodeFilesystem | Inr _ \<Rightarrow> stepCode e), s')
           }
       | Inr _ \<Rightarrow> do {
           drained \<leftarrow> (if \<not> progressed \<and> bgSecrets r = None then stopRetiredInstances env legacy
                      else State_Monad.return (Inr ()));
           case drained of
             Inl e \<Rightarrow> State_Monad.return (DeployFailed e, s1)
           | Inr _ \<Rightarrow> rollAll r env a t pre legacy True enrolled' keys s1
         }
     }
   }"

definition rollingPromote :: "'r rolling \<Rightarrow> deployEnv \<Rightarrow> int \<Rightarrow> ('r world, (code, unit) result) state" where
  "rollingPromote r env ver =
     (if ver > 0 then
        act (\<lambda>n w. case PromoteVersion (evVio env n) (bgAppName r) ver ModeRolling (wVersions w) of
                     (x, v) \<Rightarrow> (x, w\<lparr>wVersions := v\<rparr>))
      else State_Monad.return (Inr ()))"

definition completed :: "tier \<Rightarrow> int \<Rightarrow> int \<Rightarrow> deployState \<Rightarrow> deployState" where
  "completed t now ver s = s\<lparr>dsHealth := Some \<lparr>hsTier = tierNumber t, hsHealthyAt = now\<rparr>, dsActiveVersion := ver\<rparr>"

text \<open>After the last replica: retire the surplus, store the completed record, promote the version.\<close>

definition finishRolling ::
    "'r rolling \<Rightarrow> deployEnv \<Rightarrow> tier \<Rightarrow> int \<Rightarrow> inst list \<Rightarrow> deployState \<Rightarrow> ('r world, deployResult \<times> deployState) state" where
  "finishRolling r env t ver surplus s = do {
     stopped \<leftarrow> (if bgSecrets r = None then stopRetiredInstances env surplus else State_Monad.return (Inr ()));
     case stopped of
       Inl e \<Rightarrow> State_Monad.return (DeployFailed e, s)
     | Inr _ \<Rightarrow> do {
         n \<leftarrow> look wClock;
         let s1 = completed t (evNow env n) ver s;
         routed \<leftarrow> (if rlAtomicSecretRecovery r then RestoreProxyRoute env (bgProxyClient r) s1
                   else State_Monad.return (Inr ()));
         case routed of
           Inl e \<Rightarrow> State_Monad.return (DeployFailed e, s1)
         | Inr _ \<Rightarrow> do {
             (p, s2) \<leftarrow> storeW env (if rlAtomicSecretRecovery r then Stamp (bgSecrets r) [] s1 else s1);
             case p of
               Inl _ \<Rightarrow> State_Monad.return (DeployFailed CodeFilesystem, s2)
             | Inr _ \<Rightarrow> do {
                 promoted \<leftarrow> rollingPromote r env ver;
                 case promoted of
                   Inl e \<Rightarrow> State_Monad.return (DeployFailed e, s2)
                 | Inr _ \<Rightarrow>
                     if bgSecrets r = None then State_Monad.return (Deployed, s2)
                     else do {
                       (d, s3) \<leftarrow> drainSecretRetirements env s2;
                       State_Monad.return (case d of Inl e \<Rightarrow> DeployFailed e | Inr _ \<Rightarrow> Deployed, s3)
                     }
               }
           }
       }
   }"

text \<open>Reap stale records, set the surplus apart, size the map, and look at the proxy.\<close>

definition desiredReplicas :: "'r rolling \<Rightarrow> int" where
  "desiredReplicas r = (if rlReplicas r < 1 then 1 else rlReplicas r)"

definition prepareReplicas :: "'r rolling \<Rightarrow> inst list \<Rightarrow> os \<Rightarrow> deployState \<Rightarrow> inst list \<times> deployState" where
  "prepareReplicas r legacy sys s =
     (let s1 = ReapStaleInstances sys s;
          (surplus, kept) = applyReplicaSet (dsReplicas s1) (desiredReplicas r);
          s2 = (if bgSecrets r \<noteq> None then s1\<lparr>dsRetiring := dsRetiring s1 @ legacy @ surplus\<rparr> else s1)
      in (surplus, s2\<lparr>dsReplicas := ensureReplicaMap kept (nat (desiredReplicas r))\<rparr>))"

definition rollingBody :: "'r rolling \<Rightarrow> deployEnv \<Rightarrow> deployState \<Rightarrow> ('r world, deployResult \<times> deployState) state" where
  "rollingBody r env s = do {
     let pre = captureMode s;
     (m, s1) \<leftarrow> MigrateTo env ModeRolling s;
     case m of
       Inl e \<Rightarrow> State_Monad.return (DeployFailed CodeFilesystem, s1)
     | Inr legacy \<Rightarrow> do {
         sys \<leftarrow> look wOs;
         let (surplus, s2) = prepareReplicas r legacy sys s1;
         enrolled \<leftarrow> (if bgProxyClient r then proxyEnrolled env (bgAppName r) else State_Monad.return False);
         built \<leftarrow> act (\<lambda>n w. case bgBuild r (wVersions w) of (x, v) \<Rightarrow> (x, w\<lparr>wVersions := v\<rparr>));
         case built of
           Inl e \<Rightarrow> do {
             s3 \<leftarrow> (if legacy \<noteq> [] then rollingUndo r env pre s2 else State_Monad.return s2);
             State_Monad.return (DeployFailed CodeBuildFailed, s3)
           }
         | Inr (binaryPath, envPath, ver) \<Rightarrow>
             (case bgOverlay r envPath of
                Inl e \<Rightarrow> do {
                  s3 \<leftarrow> (if legacy \<noteq> [] then rollingUndo r env pre s2 else State_Monad.return s2);
                  State_Monad.return (DeployFailed e, s3)
                }
              | Inr overlay \<Rightarrow> do {
                  n \<leftarrow> look wClock;
                  let t = SelectTier (bgHealthCfg r) (bgRootAnswers r n);
                  let a = \<lparr>arBinary = binaryPath, arEnv = envPath, arOverlay = overlay, arVersion = ver\<rparr>;
                  (res, s3) \<leftarrow> rollAll r env a t pre legacy False enrolled (replicaIndices (dsReplicas s2)) s2;
                  case res of
                    Deployed \<Rightarrow> finishRolling r env t ver surplus s3
                  | _ \<Rightarrow> State_Monad.return (res, s3)
                })
       }
   }"

text \<open>A failed deployment with accepted secrets goes back to the previous fleet; its error stays the same.\<close>

definition restoreSecretFleet :: "'r rolling \<Rightarrow> deployEnv \<Rightarrow> deployState \<Rightarrow> deployState \<Rightarrow> ('r world, unit) state" where
  "restoreSecretFleet r env current previous = do {
     sys \<leftarrow> look wOs;
     if list_ex (\<lambda>i. \<not> InstanceAlive (evLinks env) sys i) (instancesServing previous) then State_Monad.return ()
     else do {
       ok \<leftarrow> (if instancesServing previous = [] then
                (if \<not> bgProxyClient r then State_Monad.return False
                 else do { x \<leftarrow> proxyRemove env (bgAppName r); State_Monad.return (isOk x) })
              else do { x \<leftarrow> RestoreProxyRoute env (bgProxyClient r) previous; State_Monad.return (isOk x) });
       if \<not> ok then State_Monad.return ()
       else do {
         (p, previous') \<leftarrow> storeW env
           (previous\<lparr>dsRetiring := dsRetiring previous @ map snd (dsReplicas current), dsSecretPreparing := False\<rparr>);
         case p of
           Inl _ \<Rightarrow> State_Monad.return ()
         | Inr _ \<Rightarrow> do { x \<leftarrow> drainSecretRetirements env previous'; State_Monad.return () }
       }
     }
   }"

definition Rolling_Deploy :: "'r rolling \<Rightarrow> deployEnv \<Rightarrow> ('r world, deployResult) state" where
  "Rolling_Deploy r env =
     (if \<not> bgHasSource r then State_Monad.return (DeployFailed CodeInvalidArgument)
      else do {
        loaded \<leftarrow> look (\<lambda>w. LoadOrInit (bgAppName r) ModeRolling (bgPublicPort r) (wFile w));
        case loaded of
          Inl e \<Rightarrow> State_Monad.return (DeployFailed CodeConfiguration)
        | Inr st \<Rightarrow> do {
            (res, s) \<leftarrow> rollingBody r env (withRuntime (blueGreen.truncate r) st);
            case bgSecrets r of
              None \<Rightarrow> State_Monad.return res
            | Some txn \<Rightarrow>
                if res \<noteq> Deployed \<and> (rlAtomicSecretRecovery r \<or> dsSecretTxnID s = txn) then do {
                  restoreSecretFleet r env s (st\<lparr>dsAppID := bgAppID r\<rparr>);
                  State_Monad.return res
                }
                else State_Monad.return res
          }
      })"

section \<open>No downtime while rolling\<close>

subsection \<open>The fleet and its route\<close>

text \<open>The addresses behind the servable replicas, and the route to exactly these.\<close>

definition fleet :: "(string \<times> inst) list \<Rightarrow> (handle \<times> string) set" where
  "fleet m = {(handleOf i, hostPort (inPort i)) | k i. (k, i) \<in> set m \<and> servable i}"

definition routeFor :: "(string \<times> inst) list \<Rightarrow> target list" where
  "routeFor m = (case healthyTargets m of (p, bs) \<Rightarrow> p # addlTargets {tHost p} bs)"

text \<open>What of a replica map the membership depends on.\<close>

definition addresses :: "(string \<times> inst) list \<Rightarrow> (string \<times> bool \<times> int) list" where
  "addresses m = map (\<lambda>(k, i). (k, servable i, inPort i)) m"

lemma serveLoop_cong: "addresses m = addresses m' \<Longrightarrow> serveLoop m ks = serveLoop m' ks"
proof (induction ks)
  case (Cons k ks)
  have "map_option (\<lambda>i. (servable i, inPort i)) (map_of m k) = map_of (addresses m) k" for m
    by (simp add: addresses_def map_of_map)
  with Cons.prems have "map_option (\<lambda>i. (servable i, inPort i)) (map_of m k) = map_option (\<lambda>i. (servable i, inPort i)) (map_of m' k)"
    by simp
  with Cons show ?case by (cases "map_of m k"; cases "map_of m' k") (auto simp: replicaTarget_def)
qed simp

lemma healthyTargets_cong:
  assumes "addresses m = addresses m'"
  shows "healthyTargets m = healthyTargets m'"
proof -
  have "map fst m = map fst (addresses m)" for m by (simp add: addresses_def case_prod_beta comp_def)
  with assms have "replicaIndices m = replicaIndices m'" unfolding replicaIndices_def by metis
  with serveLoop_cong [OF assms] show ?thesis by (simp add: healthyTargets_def)
qed

lemma update_as_map:
  "distinct (map fst m) \<Longrightarrow> map_of m key = Some i \<Longrightarrow> AList.update key x m = map (\<lambda>(k, i). (k, if k = key then x else i)) m"
proof (induction m)
  case (Cons ki m)
  obtain k' i' where ki: "ki = (k', i')" by fastforce
  show ?case
  proof (cases "k' = key")
    case True
    with Cons.prems(1) have "\<forall>x'\<in>set m. fst x' \<noteq> key" by (auto simp: ki)
    then have "map (\<lambda>(k, i). (k, if k = key then x else i)) m = m" by (intro map_idI) auto
    with True show ?thesis by (simp add: ki)
  qed (use Cons in \<open>simp add: ki\<close>)
qed simp

lemma membership_update:
  assumes m: "distinct (map fst m)" "map_of m key = Some i" and c: "servable c" "inPort c = port" "port \<noteq> 0"
  shows "membershipAfterReplace (AList.update key j m) key port = healthyTargets (AList.update key c m)"
proof -
  let ?v = "(emptyInst key)\<lparr>inStatus := ''running'', inPort := port\<rparr>"
  have same: "(servable (if k = key then ?v else if k = key then j else i), inPort (if k = key then ?v else if k = key then j else i)) =
      (servable (if k = key then c else i), inPort (if k = key then c else i))" for k i
    using c by (simp add: servable_def)
  then have "addresses (map (\<lambda>(k, i). (k, if k = key then ?v else i)) (AList.update key j m)) = addresses (AList.update key c m)"
    by (auto simp: update_as_map [OF m] addresses_def)
  from healthyTargets_cong [OF this] show ?thesis by (simp add: membershipAfterReplace_def)
qed

lemma serveLoop_targets:
  "t \<in> set (serveLoop m ks) \<Longrightarrow> \<exists>k i. map_of m k = Some i \<and> servable i \<and> t = replicaTarget (k, i)"
  by (induction ks) (auto split: option.splits if_splits)

lemma serveLoop_none: "serveLoop m ks = [] \<Longrightarrow> k \<in> set ks \<Longrightarrow> map_of m k = Some i \<Longrightarrow> \<not> servable i"
  by (induction ks) (auto split: option.splits if_splits)

lemma set_replicaIndices [simp]: "set (replicaIndices m) = fst ` set m"
  by (simp add: replicaIndices_def)

text \<open>Unless no replica is servable, every target of the membership is one of the fleet.\<close>

lemma healthyTargets_hosts:
  assumes "healthyTargets m = (p, bs)" and "t \<in> set (p # bs)" and "(k, i) \<in> set m" and "servable i" and "distinct (map fst m)"
  shows "\<exists>h. (h, tHost t) \<in> fleet m"
proof -
  have "map_of m k = Some i" using assms(3,5) by simp
  moreover have "k \<in> set (replicaIndices m)" using assms(3) by force
  ultimately have "serveLoop m (replicaIndices m) \<noteq> []" using serveLoop_none assms(4) by metis
  then have "set (p # bs) = set (serveLoop m (replicaIndices m))"
    using assms(1) by (auto simp: healthyTargets_def split: list.splits)
  with assms(2) serveLoop_targets obtain k' i' where "map_of m k' = Some i'" "servable i'" "t = replicaTarget (k', i')" by metis
  then show ?thesis by (auto simp: fleet_def replicaTarget_def dest: map_of_SomeD)
qed

subsection \<open>Steps of one replacement\<close>

text \<open>The application is served somehow: this is all an aborted deployment has to leave behind.\<close>

definition servedOn :: "string \<Rightarrow> 'r world \<Rightarrow> bool" where
  "servedOn app w \<longleftrightarrow> (\<exists>ts ups. onRoutes app ts ups w)"

lemma servedOnI: "onRoutes app ts ups w \<Longrightarrow> servedOn app w"
  unfolding servedOn_def by blast

lemma triple_onRoutes:
  assumes "(\<forall>t\<in>set ts. \<exists>h. (h, tHost t) \<in> ups) \<Longrightarrow> triple (onRoutes app ts ups) m Q"
  shows "triple (onRoutes app ts ups) m Q"
proof (cases "\<forall>t\<in>set ts. \<exists>h. (h, tHost t) \<in> ups")
  case False
  then have "\<not> onRoutes app ts ups w" for w :: "'a world" by (auto simp: onRoutes_iff routes_def)
  then show ?thesis by (simp add: triple_def)
qed (rule assms)

lemma triple_ex:
  assumes "\<And>x. triple (P x) m Q"
  shows "triple (\<lambda>w. \<exists>x. P x w) m Q"
  unfolding triple_def
proof (intro allI impI)
  fix w assume "\<exists>x. P x w"
  then obtain x where "P x w" by blast
  then show "case run_state m w of (a, w') \<Rightarrow> Q a w'" by (rule mp [OF spec [OF assms [of x, unfolded triple_def]]])
qed

lemma triple_served:
  assumes "\<And>ts ups. triple (onRoutes app ts ups) m (\<lambda>a. onRoutes app ts ups)"
  shows "triple (servedOn app) m (\<lambda>a. servedOn app)"
  unfolding servedOn_def
  by (intro triple_ex triple_post [OF assms]) blast

definition rollingLauncher :: "(nat \<Rightarrow> string \<Rightarrow> string list \<Rightarrow> os \<Rightarrow> (code, launched) result \<times> os) \<Rightarrow> bool" where
  "rollingLauncher launch \<longleftrightarrow> launchContract launch \<and> identifies launch \<and>
     (\<forall>n b ov sys ln sys'. launch n b ov sys = (Inr ln, sys') \<longrightarrow> lnPort ln \<noteq> 0)"

definition withCandidate :: "launched \<Rightarrow> (handle \<times> string) set \<Rightarrow> (handle \<times> string) set" where
  "withCandidate ln ups = insert (lnHandle ln, hostPort (lnPort ln)) ups"

definition goodLaunch :: "(handle \<times> string) set \<Rightarrow> launched \<Rightarrow> bool" where
  "goodLaunch ups ln \<longleftrightarrow> lnHandle ln \<notin> fst ` ups \<and> lnPort ln \<noteq> 0 \<and>
     lnHandle ln = (if lnContainerID ln \<noteq> '''' then DockerProc (lnContainerID ln) else NativeProc (lnPID ln))"

lemma goodLaunch_fresh: "goodLaunch ups ln \<Longrightarrow> lnHandle ln \<notin> fst ` ups"
  unfolding goodLaunch_def by (rule conjunct1)

lemma launch_routes:
  assumes "rollingLauncher launch"
  shows "triple (onRoutes app ts ups)
     (act (\<lambda>n w. case launch n b ov (wOs w) of (r, sys) \<Rightarrow> (r, w\<lparr>wOs := sys\<rparr>)))
     (\<lambda>r w. onRoutes app ts (case r of Inl _ \<Rightarrow> ups | Inr ln \<Rightarrow> withCandidate ln ups) w \<and> (\<forall>ln. r = Inr ln \<longrightarrow> goodLaunch ups ln))"
proof (rule act_routes, goal_cases)
  case (1 n w a w')
  obtain sys where l: "launch n b ov (wOs w) = (a, sys)" and w': "w' = w\<lparr>wOs := sys\<rparr>" using 1(1) by (auto split: prod.splits)
  have listens: "listensOn sys h port" if "listensOn (wOs w) h port" for h port
    using that assms l unfolding rollingLauncher_def launchContract_def by blast
  have up: "upBy sys h host" if "(h, host) \<in> ups" for h host
    using 1(2) that listens by (fastforce simp: routes_def upBy_def)
  have new: "upBy sys (lnHandle ln) (hostPort (lnPort ln)) \<and> goodLaunch ups ln" if "a = Inr ln" for ln
  proof -
    note l' = l [unfolded that]
    have c: "\<not> running (wOs w) (lnHandle ln)" "listensOn sys (lnHandle ln) (lnPort ln)"
      using assms l' unfolding rollingLauncher_def launchContract_def by blast+
    have p: "lnPort ln \<noteq> 0" using assms l' unfolding rollingLauncher_def by blast
    have i: "lnHandle ln = (if lnContainerID ln \<noteq> '''' then DockerProc (lnContainerID ln) else NativeProc (lnPID ln))"
      using assms l' unfolding rollingLauncher_def identifies_def by blast
    have "lnHandle ln \<notin> fst ` ups"
      using 1(2) c(1) upBy_running by (fastforce simp: routes_def)
    then have "goodLaunch ups ln" using p i unfolding goodLaunch_def by blast
    with c(2) show ?thesis unfolding upBy_def by blast
  qed
  show ?case
    using 1(2) up new by (auto simp: routes_def w' withCandidate_def split: sum.splits)
qed

lemma awaitReplica_routes:
  assumes "goodLaunch ups ln" and hosts: "\<forall>t\<in>set ts. \<exists>h. (h, tHost t) \<in> ups"
  shows "triple (onRoutes app ts (withCandidate ln ups)) (awaitReplica r t ln)
     (\<lambda>ok. onRoutes app ts (if ok then withCandidate ln ups else ups))"
  unfolding awaitReplica_def
proof (rule triple_post [OF act_routes [where ts' = "\<lambda>_. ts" and Q = "\<lambda>_. True" and
        ups' = "\<lambda>ok. if ok then withCandidate ln ups else ups"]], goal_cases)
  case (1 n w a w')
  have one: "routes app ts ups (wOs w) (wDaemon w)" using 1(2) hosts by (auto simp: routes_def withCandidate_def)
  have "routes app ts ups (endProcess (lnHandle ln) (wOs w)) (wDaemon w)"
    by (rule routed_stop [OF one]) (use goodLaunch_fresh [OF assms(1)] in simp)
  with 1 one show ?case by (auto split: if_splits)
qed simp

lemma withCandidate_drop:
  "onRoutes app ts (withCandidate ln ups) w \<Longrightarrow> \<forall>t\<in>set ts. \<exists>h. (h, tHost t) \<in> ups \<Longrightarrow> onRoutes app ts ups w"
  by (rule onRoutes_sub) (auto simp: withCandidate_def)

text \<open>An abort before the membership changed leaves the route as it was.\<close>

lemma failReplaced_served:
  assumes "goodLaunch ups ln"
  shows "triple (onRoutes app ts ups) (failReplaced env key old (lnHandle ln) e en s)
     (\<lambda>(x, s', en') w. servedOn app w \<and> \<not> isOk x)"
  unfolding failReplaced_def
proof (rule triple_bind [OF killW_route])
  show "lnHandle ln \<notin> fst ` ups" by (rule goodLaunch_fresh [OF assms])
  fix u
  show "triple (onRoutes app ts ups) (State_Monad.bind (storeW env (restoreReplica key old s)) (\<lambda>(p, s').
      State_Monad.return (case p of Inl _ \<Rightarrow> Inl CodeFilesystem | Inr _ \<Rightarrow> Inl e, s', en))) (\<lambda>(x, s', en') w. servedOn app w \<and> \<not> isOk x)"
    by (rule triple_bind [OF storeW_route], rule triple_pair)
      (auto intro!: triple_return intro: servedOnI split: sum.splits)
qed

subsection \<open>Replacing one replica\<close>

text \<open>
  A replica map during the roll-out: every entry serves or has no process, no two serving entries and
  none of the retained processes \<open>S\<close> share a process, and something serves.
\<close>

definition wfFleet :: "(handle \<times> string) set \<Rightarrow> (string \<times> inst) list \<Rightarrow> bool" where
  "wfFleet S m \<longleftrightarrow>
     distinct (map fst m) \<and>
     (\<forall>k i. (k, i) \<in> set m \<longrightarrow> servable i \<or> \<not> hasProcess i) \<and>
     (\<forall>k i k' i'. (k, i) \<in> set m \<and> (k', i') \<in> set m \<and> servable i \<and> servable i' \<and> handleOf i = handleOf i' \<longrightarrow> k = k') \<and>
     (\<forall>k i. (k, i) \<in> set m \<and> servable i \<longrightarrow> handleOf i \<notin> fst ` S) \<and>
     (\<exists>k i. (k, i) \<in> set m \<and> servable i)"

lemma wfFleet_targets:
  "wfFleet S m \<Longrightarrow> healthyTargets m = (p, bs) \<Longrightarrow> \<forall>t\<in>set (p # bs). \<exists>h. (h, tHost t) \<in> fleet m"
  unfolding wfFleet_def by (metis healthyTargets_hosts)

lemma wfFleet_route: "wfFleet S m \<Longrightarrow> \<forall>t\<in>set (routeFor m). \<exists>h. (h, tHost t) \<in> fleet m"
proof
  fix t assume wf: "wfFleet S m" and t: "t \<in> set (routeFor m)"
  obtain p bs where h: "healthyTargets m = (p, bs)" by fastforce
  from t have "t \<in> set (p # bs)"
    using addlTargets_props(2) [of "{tHost p}" bs] by (auto simp: routeFor_def h)
  with wfFleet_targets [OF wf h] show "\<exists>h. (h, tHost t) \<in> fleet m" by blast
qed

lemma fleet_mem: "(k, i) \<in> set m \<Longrightarrow> servable i \<Longrightarrow> (handleOf i, hostPort (inPort i)) \<in> fleet m"
  by (auto simp: fleet_def)

lemma update_keys: "fst ` set (AList.update key c m) = insert key (fst ` set m)"
  by (induction m) auto

lemma update_entries:
  assumes "(k, i) \<in> set (AList.update key c m)" and d: "distinct (map fst m)"
  shows "(k = key \<and> i = c) \<or> (k \<noteq> key \<and> (k, i) \<in> set m)"
proof -
  have "map_of (AList.update key c m) k = Some i"
    using assms(1) distinct_update [OF d] by (metis map_of_is_SomeI)
  then have "((map_of m)(key \<mapsto> c)) k = Some i" by (simp add: update_conv')
  then show ?thesis by (auto split: if_splits dest: map_of_SomeD)
qed

lemma update_member: "(key, c) \<in> set (AList.update key c m)"
  by (induction m) auto

lemma wfFleet_entry:
  "wfFleet S m \<Longrightarrow> (k, i) \<in> set m \<Longrightarrow> servable i \<Longrightarrow> (k', i') \<in> set m \<Longrightarrow> servable i' \<Longrightarrow>
     handleOf i = handleOf i' \<Longrightarrow> k = k'"
  unfolding wfFleet_def by blast

lemma wfFleet_replace:
  assumes wf: "wfFleet S m" and c: "servable c" "handleOf c \<notin> fst ` (fleet m \<union> S)"
  shows "wfFleet S (AList.update key c m)"
proof -
  have d: "distinct (map fst m)" using wf by (simp add: wfFleet_def)
  have fresh: "handleOf i \<noteq> handleOf c" if "(k, i) \<in> set m" "servable i" for k i
  proof
    assume "handleOf i = handleOf c"
    then have "handleOf c \<in> fst ` fleet m" using fleet_mem [OF that] by (metis fst_conv imageI)
    with c(2) show False by auto
  qed
  have A: "servable i \<or> \<not> hasProcess i" if "(k, i) \<in> set (AList.update key c m)" for k i
    using update_entries [OF that d]
  proof (elim disjE conjE)
    assume "(k, i) \<in> set m"
    with wf show ?thesis unfolding wfFleet_def by blast
  qed (simp add: c(1))
  have B: "k = k'" if e: "(k, i) \<in> set (AList.update key c m)" "servable i"
      "(k', i') \<in> set (AList.update key c m)" "servable i'" "handleOf i = handleOf i'" for k i k' i'
    using update_entries [OF e(1) d]
  proof (elim disjE conjE)
    assume 1: "k = key" "i = c"
    show ?thesis using update_entries [OF e(3) d]
    proof (elim disjE conjE)
      assume "k' \<noteq> key" "(k', i') \<in> set m"
      with fresh [of k' i'] e(4,5) 1 show ?thesis by simp
    qed (simp add: 1)
  next
    assume 1: "k \<noteq> key" "(k, i) \<in> set m"
    show ?thesis using update_entries [OF e(3) d]
    proof (elim disjE conjE)
      assume "k' = key" "i' = c"
      with fresh [OF 1(2) e(2)] e(5) show ?thesis by simp
    next
      assume "k' \<noteq> key" "(k', i') \<in> set m"
      then show ?thesis using wfFleet_entry [OF wf 1(2) e(2)] e(4,5) by blast
    qed
  qed
  have C: "handleOf i \<notin> fst ` S" if "(k, i) \<in> set (AList.update key c m)" "servable i" for k i
    using update_entries [OF that(1) d]
  proof
    assume "k = key \<and> i = c" with c(2) show ?thesis by auto
  next
    assume "k \<noteq> key \<and> (k, i) \<in> set m" with that(2) wf show ?thesis unfolding wfFleet_def by blast
  qed
  have D: "\<exists>k i. (k, i) \<in> set (AList.update key c m) \<and> servable i"
    by (intro exI conjI, rule update_member, rule c(1))
  show ?thesis
    unfolding wfFleet_def
    by (intro conjI allI impI distinct_update [OF d] D; (elim conjE)?) (erule A | erule (4) B | erule (1) C)+
qed

lemma fleet_replace:
  assumes "distinct (map fst m)"
  shows "fleet (AList.update key c m) \<subseteq> insert (handleOf c, hostPort (inPort c)) (fleet m)"
proof
  fix h assume "h \<in> fleet (AList.update key c m)"
  then obtain k i where h: "(k, i) \<in> set (AList.update key c m)" "servable i" "h = (handleOf i, hostPort (inPort i))"
    by (auto simp: fleet_def)
  from update_entries [OF h(1) assms] h(2,3) show "h \<in> insert (handleOf c, hostPort (inPort c)) (fleet m)"
    by (auto simp: fleet_def)
qed

lemma old_retired:
  assumes wf: "wfFleet S m" and old: "map_of m key = Some old" "hasProcess old"
    and c: "handleOf c \<notin> fst ` (fleet m \<union> S)"
  shows "handleOf old \<notin> fst ` (fleet (AList.update key c m) \<union> S)"
proof -
  have mem: "(key, old) \<in> set m" using old(1) by (rule map_of_SomeD)
  with wf old(2) have s: "servable old" and d: "distinct (map fst m)" unfolding wfFleet_def by blast+
  have S: "handleOf old \<notin> fst ` S" using wf mem s unfolding wfFleet_def by blast
  have ne: "handleOf i \<noteq> handleOf old" if i: "(k, i) \<in> set (AList.update key c m)" "servable i" for k i
    using update_entries [OF i(1) d]
  proof
    assume "k = key \<and> i = c"
    moreover have "handleOf old \<in> fst ` fleet m" using fleet_mem [OF mem s] by (metis fst_conv imageI)
    ultimately show ?thesis using c by (metis UnI1 image_Un)
  next
    assume "k \<noteq> key \<and> (k, i) \<in> set m"
    with wfFleet_entry [OF wf, of k i key old] mem s i(2) show ?thesis by blast
  qed
  have "handleOf old \<notin> fst ` fleet (AList.update key c m)"
  proof
    assume "handleOf old \<in> fst ` fleet (AList.update key c m)"
    then obtain k i where "(k, i) \<in> set (AList.update key c m)" "servable i" "handleOf old = handleOf i"
      by (auto simp: fleet_def)
    with ne [of k i] show False by simp
  qed
  with S show ?thesis by auto
qed

text \<open>Steps of a deployment that end in an error: the application must be served.\<close>

definition servedErr :: "string \<Rightarrow> (code, unit) result \<times> deployState \<times> bool \<Rightarrow> 'r world \<Rightarrow> bool" where
  "servedErr app = (\<lambda>(x, s', en') w. servedOn app w \<and> \<not> isOk x)"

lemma served_end: "triple (onRoutes app ts ups) (State_Monad.return (Inl e, s, en)) (servedErr app)"
  by (rule triple_return) (auto simp: servedErr_def intro: servedOnI)

lemma storeW_step:
  assumes "\<And>p s'. sameRecord s s' \<Longrightarrow> triple (onRoutes app ts ups) (f (p, s')) Q"
  shows "triple (onRoutes app ts ups) (State_Monad.bind (storeW env s) f) Q"
proof (rule triple_bind [OF storeW_route], goal_cases)
  case (1 a)
  then show ?case using assms [of "snd a" "fst a"] by (cases a) (auto simp: triple_def)
qed

lemma killW_step:
  "g \<notin> fst ` ups \<Longrightarrow> triple (onRoutes app ts ups) (f ()) Q \<Longrightarrow> triple (onRoutes app ts ups) (State_Monad.bind (killW env g) f) Q"
  by (rule triple_bind [OF killW_route]) simp_all

lemma switch_step:
  assumes "\<forall>t\<in>set (p # bs). \<exists>h. (h, tHost t) \<in> ups" and "\<And>n. evFault env OpSwitch n \<noteq> LostReply"
    and "\<And>r. isOk r \<Longrightarrow> triple (onRoutes app (p # addlTargets {tHost p} bs) ups) (f r) Q"
    and "\<And>r. \<not> isOk r \<Longrightarrow> triple (onRoutes app ts ups) (f r) Q"
  shows "triple (onRoutes app ts ups) (State_Monad.bind (proxySwitch env app p bs) f) Q"
  by (rule triple_bind [OF proxySwitch_routes [OF assms(1,2)]]) (use assms(3,4) in auto)

lemma restored_map:
  "dsReplicas s = AList.update key j m \<Longrightarrow> map_of m key = Some old \<Longrightarrow> dsReplicas (restoreReplica key (Some old) s) = m"
  by (simp add: restoreReplica_def update_triv)

lemma compensateReplica_served:
  assumes c: "goodLaunch (fleet m \<union> S) ln" and wf: "wfFleet S m" and s: "dsReplicas s = AList.update key j m"
    and old: "map_of m key = Some old" and none: "bgSecrets r = None"
    and flt: "\<And>n. evFault env OpSwitch n \<noteq> LostReply"
  shows "triple (onRoutes (bgAppName r) ts (withCandidate ln (fleet m \<union> S)))
     (compensateReplica r env key (Some old) cand (lnHandle ln) True stamp s) (servedErr (bgAppName r))"
proof -
  obtain p bs where h: "healthyTargets m = (p, bs)" by fastforce
  have hosts: "\<forall>t\<in>set (p # bs). \<exists>h. (h, tHost t) \<in> fleet m \<union> S" using wfFleet_targets [OF wf h] by blast
  then have hosts': "\<forall>t\<in>set (p # bs). \<exists>h. (h, tHost t) \<in> withCandidate ln (fleet m \<union> S)"
    unfolding withCandidate_def by blast
  have undo: "triple (onRoutes app (p # addlTargets {tHost p} bs) (withCandidate ln (fleet m \<union> S))) k Q"
    if "triple (onRoutes app (p # addlTargets {tHost p} bs) (fleet m \<union> S)) k Q"
    for app :: string and k and Q :: "'b \<Rightarrow> 'a world \<Rightarrow> bool"
    by (rule triple_pre [OF that], erule withCandidate_drop)
      (use hosts addlTargets_props(2) [of "{tHost p}" bs] in auto)
  show ?thesis
    unfolding compensateReplica_def Let_def restored_map [OF s old] none h
    by (auto intro!: switch_step [OF hosts' flt] storeW_step served_end triple_sum undo killW_step goodLaunch_fresh [OF c])
qed

text \<open>What a candidate looks like once it is recorded, and what a step over one replica achieves.\<close>

definition recordsLaunch :: "launched \<Rightarrow> inst \<Rightarrow> bool" where
  "recordsLaunch ln c \<longleftrightarrow> servable c \<and> handleOf c = lnHandle ln \<and> inPort c = lnPort ln"

definition rolled ::
    "string \<Rightarrow> (handle \<times> string) set \<Rightarrow> (string \<times> inst) list \<Rightarrow> string \<Rightarrow> (code, unit) result \<times> deployState \<times> bool \<Rightarrow> 'r world \<Rightarrow> bool" where
  "rolled app S m' mode = (\<lambda>(x, s', en') w.
     if isOk x then onRoutes app (routeFor m') (fleet m' \<union> S) w \<and> dsReplicas s' = m' \<and> en' \<and>
                    \<not> dsSecretPreparing s' \<and> dsMode s' = mode
     else servedOn app w)"

lemma rolled_err: "triple P m (servedErr app) \<Longrightarrow> triple P m (rolled app S m' mode)"
  by (erule triple_post) (auto simp: servedErr_def rolled_def)

lemma rolled_end:
  assumes wf: "wfFleet S m'" and sub: "fleet m' \<union> S \<subseteq> ups"
    and s: "dsReplicas s = m'" "\<not> dsSecretPreparing s" "dsMode s = mode"
  shows "triple (onRoutes app (routeFor m') ups) (State_Monad.return (Inr (), s, True)) (rolled app S m' mode)"
proof (rule triple_return)
  fix w :: "'a world" assume "onRoutes app (routeFor m') ups w"
  then have "onRoutes app (routeFor m') (fleet m' \<union> S) w"
    by (rule onRoutes_sub [OF _ sub]) (use wfFleet_route [OF wf] in blast)
  with s show "rolled app S m' mode (Inr (), s, True) w" by (simp add: rolled_def)
qed

lemma recordReplica_rolled:
  assumes c: "goodLaunch (fleet m \<union> S) ln" "recordsLaunch ln c" and wf: "wfFleet S m" and s: "dsReplicas s = AList.update key j m"
    and old: "map_of m key = Some old" and none: "bgSecrets r = None"
    and flt: "\<And>n. evFault env OpSwitch n \<noteq> LostReply"
  defines "m' \<equiv> AList.update key c m"
  shows "triple (onRoutes (bgAppName r) (routeFor m') (withCandidate ln (fleet m \<union> S)))
     (recordReplica r env key (Some old) c (lnHandle ln) True s) (rolled (bgAppName r) S m' (dsMode s))"
proof -
  have fresh: "servable c" "handleOf c \<notin> fst ` (fleet m \<union> S)"
    using c goodLaunch_fresh [OF c(1)] by (simp_all add: recordsLaunch_def)
  have d: "distinct (map fst m)" using wf by (simp add: wfFleet_def)
  note wf' = wfFleet_replace [OF wf fresh, of key, folded m'_def]
  have sub: "fleet m' \<union> S \<subseteq> withCandidate ln (fleet m \<union> S)"
    using fleet_replace [OF d, of key c] c(2) unfolding m'_def withCandidate_def recordsLaunch_def by auto
  have m': "AList.update key c (AList.update key j m) = m'" by (simp add: m'_def)
  have retired: "handleOf old \<notin> fst ` (fleet m' \<union> S)" if "hasProcess old"
    using old_retired [OF wf old that fresh(2)] unfolding m'_def .
  let ?s = "Stamp None [old] (setReplica key c s)"
  have st: "dsReplicas ?s = m'" "\<not> dsSecretPreparing ?s" "dsMode ?s = dsMode s"
    using m' s by (simp_all add: Stamp_def setReplica_def)
  show ?thesis
    unfolding recordReplica_def none option.case Let_def
  proof (rule storeW_step, unfold split_conv, rule triple_sum, goal_cases)
    case (1 p s' e)
    then have "dsReplicas s' = AList.update key c m" using st by (simp add: sameRecord_def m'_def)
    then show ?case by (intro rolled_err compensateReplica_served [OF c(1) wf _ old none flt])
  next
    case (2 p s' u)
    with st have s': "dsReplicas s' = m'" "\<not> dsSecretPreparing s'" "dsMode s' = dsMode s" by (simp_all add: sameRecord_def)
    have stop: "triple (onRoutes (bgAppName r) (routeFor m') (withCandidate ln (fleet m \<union> S)))
        (State_Monad.bind (stopW env old) (\<lambda>report. State_Monad.return (Inr (), s', True))) (rolled (bgAppName r) S m' (dsMode s))"
      if "hasProcess old"
      by (rule triple_bind [OF triple_pre [OF stopW_route [OF retired [OF that]]]], erule onRoutes_sub [OF _ sub])
        (use wfFleet_route [OF wf'] in blast, intro rolled_end wf' order_refl s')
    show ?case
      by (intro triple_if stop rolled_end wf' sub s') simp
  qed
qed

lemma failReplaced_err:
  assumes c: "goodLaunch ups ln" and hosts: "\<forall>t\<in>set ts. \<exists>h. (h, tHost t) \<in> ups"
  shows "triple (onRoutes app ts (withCandidate ln ups)) (failReplaced env key old (lnHandle ln) e en s) (servedErr app)"
  unfolding servedErr_def
  by (rule triple_pre [OF failReplaced_served [OF c]], erule withCandidate_drop, rule hosts)

lemma joinRotation_rolled:
  assumes c: "goodLaunch (fleet m \<union> S) ln" "recordsLaunch ln c" and wf: "wfFleet S m" and s: "dsReplicas s = AList.update key j m"
    and old: "map_of m key = Some old" and none: "bgSecrets r = None"
    and flt: "\<And>n. evFault env OpSwitch n \<noteq> LostReply"
    and hosts: "\<forall>t\<in>set ts. \<exists>h. (h, tHost t) \<in> fleet m \<union> S"
  shows "triple (onRoutes (bgAppName r) ts (withCandidate ln (fleet m \<union> S)))
     (joinRotation r env key (Some old) c ln True s) (rolled (bgAppName r) S (AList.update key c m) (dsMode s))"
proof -
  let ?m' = "AList.update key c m"
  have fresh: "servable c" "handleOf c \<notin> fst ` (fleet m \<union> S)" "inPort c = lnPort ln" "lnPort ln \<noteq> 0"
    using c goodLaunch_fresh [OF c(1)] by (auto simp: recordsLaunch_def goodLaunch_def)
  have d: "distinct (map fst m)" using wf by (simp add: wfFleet_def)
  obtain p bs where h: "healthyTargets ?m' = (p, bs)" by fastforce
  have mem: "membershipAfterReplace (dsReplicas s) key (lnPort ln) = (p, bs)"
    unfolding s membership_update [OF d old fresh(1,3,4)] by (rule h)
  have route: "p # addlTargets {tHost p} bs = routeFor ?m'" by (simp add: routeFor_def h)
  have sub: "fleet ?m' \<subseteq> withCandidate ln (fleet m \<union> S)"
    using fleet_replace [OF d, of key c] c(2) unfolding withCandidate_def recordsLaunch_def by auto
  have hosts': "\<forall>t\<in>set (p # bs). \<exists>h. (h, tHost t) \<in> withCandidate ln (fleet m \<union> S)"
    using wfFleet_targets [OF wfFleet_replace [OF wf fresh(1,2)] h] sub by blast
  show ?thesis
    unfolding joinRotation_def Let_def mem split_conv
    by (auto intro!: rolled_err [OF failReplaced_err [OF c(1) hosts]] switch_step [OF hosts' flt] triple_sum
          recordReplica_rolled [OF c wf s old none flt, unfolded route [symmetric]])
qed

lemma triple_bind_pair:
  assumes "triple P m (\<lambda>(x, y). R x y)" and "\<And>x y. triple (R x y) (f x y) Q"
  shows "triple P (State_Monad.bind m (\<lambda>(x, y). f x y)) Q"
  by (rule triple_bind [OF assms(1)]) (use assms(2) in \<open>auto split: prod.split\<close>)

text \<open>One turn of the loop: the replica runs the target version, and the route is the one of the new map.\<close>

definition turned ::
    "string \<Rightarrow> (handle \<times> string) set \<Rightarrow> int \<Rightarrow> string \<Rightarrow> deployState \<Rightarrow> (code, unit) result \<times> deployState \<times> bool \<Rightarrow> 'r world \<Rightarrow> bool" where
  "turned app S ver key s = (\<lambda>(x, s', en') w.
     if isOk x then
       onRoutes app (routeFor (dsReplicas s')) (fleet (dsReplicas s') \<union> S) w \<and> wfFleet S (dsReplicas s') \<and> en' \<and>
       \<not> dsSecretPreparing s' \<and> dsMode s' = dsMode s \<and>
       (\<exists>c. servable c \<and> inVersion c = ver \<and> dsReplicas s' = AList.update key c (dsReplicas s))
     else servedOn app w)"

lemma turned_err: "triple P m (servedErr app) \<Longrightarrow> triple P m (turned app S ver key s)"
  by (erule triple_post) (auto simp: servedErr_def turned_def)

lemma replicaOf_record:
  "goodLaunch ups ln \<Longrightarrow> recordsLaunch ln (replicaOf r key b e v ov now ln) \<and> inVersion (replicaOf r key b e v ov now ln) = v"
  by (auto simp: recordsLaunch_def replicaOf_def servable_def handleOf_def goodLaunch_def)

lemma joinRotation_turned:
  assumes "goodLaunch (fleet m \<union> S) ln" "recordsLaunch ln c" "inVersion c = ver" and wf: "wfFleet S m" and "dsReplicas s1 = AList.update key j m"
    and "map_of m key = Some old" and "bgSecrets r = None" and "\<And>n. evFault env OpSwitch n \<noteq> LostReply"
    and "\<forall>t\<in>set ts. \<exists>h. (h, tHost t) \<in> fleet m \<union> S" and s: "dsReplicas s = m" "dsMode s1 = dsMode s"
  shows "triple (onRoutes (bgAppName r) ts (withCandidate ln (fleet m \<union> S)))
     (joinRotation r env key (Some old) c ln True s1) (turned (bgAppName r) S ver key s)"
proof -
  have c: "servable c" "handleOf c \<notin> fst ` (fleet m \<union> S)"
    using assms(1,2) goodLaunch_fresh [OF assms(1)] by (simp_all add: recordsLaunch_def)
  have "turned (bgAppName r) S ver key s a w"
    if "rolled (bgAppName r) S (AList.update key c m) (dsMode s1) a w" for a and w :: "'a world"
    using that wfFleet_replace [OF wf c, of key] c(1) assms(3) s by (auto simp: rolled_def turned_def split: if_splits)
  then show ?thesis by (rule triple_post [OF joinRotation_rolled [OF assms(1,2) wf assms(5-9)]])
qed

lemma markStep_routes:
  assumes old: "map_of (dsReplicas s) key = Some old"
  shows "triple (onRoutes app ts ups) (if b then storeW env (markReplacing key s) else State_Monad.return (Inr (), s))
     (\<lambda>(p, s1) w. onRoutes app ts ups w \<and> (\<exists>j. dsReplicas s1 = AList.update key j (dsReplicas s)) \<and> dsMode s1 = dsMode s)"
proof (rule triple_if)
  show "triple (onRoutes app ts ups) (storeW env (markReplacing key s))
     (\<lambda>(p, s1) w. onRoutes app ts ups w \<and> (\<exists>j. dsReplicas s1 = AList.update key j (dsReplicas s)) \<and> dsMode s1 = dsMode s)"
    by (rule triple_post [OF storeW_route])
      (auto simp: sameRecord_def markReplacing_def setReplica_def old)
next
  have "\<exists>j. dsReplicas s = AList.update key j (dsReplicas s)" using update_triv [OF old] by metis
  then show "triple (onRoutes app ts ups) (State_Monad.return (Inr (), s))
     (\<lambda>(p, s1) w. onRoutes app ts ups w \<and> (\<exists>j. dsReplicas s1 = AList.update key j (dsReplicas s)) \<and> dsMode s1 = dsMode s)"
    by (intro triple_return) simp
qed

lemma rollOne_turned:
  assumes wf: "wfFleet S (dsReplicas s)" and old: "map_of (dsReplicas s) key = Some old" and none: "bgSecrets r = None"
    and plain: "\<not> rlAtomicSecretRecovery r" and launch: "rollingLauncher (bgLauncher r)"
    and flt: "\<And>n. evFault env OpSwitch n \<noteq> LostReply"
  shows "triple (onRoutes (bgAppName r) ts (fleet (dsReplicas s) \<union> S)) (rollOne r env a t key True s)
     (turned (bgAppName r) S (arVersion a) key s)"
proof (rule triple_onRoutes)
  let ?ups = "fleet (dsReplicas s) \<union> S" and ?app = "bgAppName r"
  assume hosts: "\<forall>t\<in>set ts. \<exists>h. (h, tHost t) \<in> ?ups"
  have failed: "triple (onRoutes ?app ts ?ups) (failReplaced env key (Some old) (lnHandle ln) e True s1) (turned ?app S (arVersion a) key s)"
    if "goodLaunch ?ups ln" for e s1 ln
    by (rule turned_err) (unfold servedErr_def, rule failReplaced_served [OF that])
  have checked: "triple (onRoutes ?app ts (withCandidate ln ?ups))
      (State_Monad.bind (awaitReplica r t ln) (\<lambda>healthy. State_Monad.bind (look wClock) (\<lambda>n.
         if \<not> healthy then failReplaced env key (Some old) (lnHandle ln) (f n) True s1
         else joinRotation r env key (Some old) (replicaOf r key (arBinary a) (arEnv a) (arVersion a) (arOverlay a) (evNow env n) ln) ln True s1)))
      (turned ?app S (arVersion a) key s)"
    if ln: "goodLaunch ?ups ln" and s1: "\<exists>j. dsReplicas s1 = AList.update key j (dsReplicas s)" "dsMode s1 = dsMode s" for ln s1 f
  proof (rule triple_bind [OF awaitReplica_routes [OF ln hosts]], rule triple_look, rule triple_drop, rule triple_if, goal_cases)
    case (1 ok n)
    then show ?case using failed [OF ln] by simp
  next
    case (2 ok n)
    obtain j where j: "dsReplicas s1 = AList.update key j (dsReplicas s)" using s1(1) ..
    from 2 show ?case
      using joinRotation_turned [OF ln conjunct1 [OF replicaOf_record [OF ln]] conjunct2 [OF replicaOf_record [OF ln]]
          wf j old none flt hosts refl s1(2)] by simp
  qed
  have marked: "triple (onRoutes ?app ts (withCandidate ln ?ups))
      (State_Monad.bind (if b then storeW env (markReplacing key s) else State_Monad.return (Inr (), s)) (\<lambda>(p, s1).
         case p of Inl _ \<Rightarrow> State_Monad.bind (killW env (lnHandle ln)) (\<lambda>_. State_Monad.return (Inl CodeFilesystem, restoreReplica key (Some old) s1, True))
         | Inr _ \<Rightarrow> k s1)) (turned ?app S (arVersion a) key s)"
    if ln: "goodLaunch ?ups ln" and k: "\<And>s1. \<exists>j. dsReplicas s1 = AList.update key j (dsReplicas s) \<Longrightarrow> dsMode s1 = dsMode s \<Longrightarrow>
       triple (onRoutes ?app ts (withCandidate ln ?ups)) (k s1) (turned ?app S (arVersion a) key s)" for ln b k
  proof (rule triple_bind_pair [OF markStep_routes [OF old]], rule triple_fact, rule triple_sum, goal_cases)
    case (1 p s1 e)
    show ?case
      by (rule turned_err, rule triple_pre [OF killW_step [OF goodLaunch_fresh [OF ln] served_end]], erule withCandidate_drop, rule hosts)
  next
    case (2 p s1 u)
    then show ?case by (intro k) simp_all
  qed
  have plainF: "rlAtomicSecretRecovery r = False" "(Some old = None) = False" using plain by simp_all
  show "triple (onRoutes ?app ts ?ups) (rollOne r env a t key True s) (turned ?app S (arVersion a) key s)"
    unfolding rollOne_def old Let_def plainF if_False
  proof (rule triple_bind [OF launch_routes [OF launch]], rule triple_sum, goal_cases)
    case (1 x e)
    then show ?case by (auto intro!: triple_return servedOnI simp: turned_def)
  next
    case (2 x ln)
    show ?case
      unfolding 2 sum.case
    proof (rule triple_fact, goal_cases)
      case 1
      then have ln: "goodLaunch ?ups ln" by simp
      show ?case by (rule marked [OF ln checked [OF ln]])
    qed
  qed
qed

subsection \<open>The loop over the replicas\<close>

definition onVersion :: "int \<Rightarrow> (string \<times> inst) list \<Rightarrow> string \<Rightarrow> bool" where
  "onVersion ver m k \<longleftrightarrow> (\<exists>c. map_of m k = Some c \<and> servable c \<and> inVersion c = ver)"

lemma onVersion_update:
  "servable c \<Longrightarrow> inVersion c = ver \<Longrightarrow> onVersion ver (AList.update key c m) k \<longleftrightarrow> k = key \<or> onVersion ver m k"
  by (auto simp: onVersion_def AList.update_conv')

definition rolledAll ::
    "string \<Rightarrow> (handle \<times> string) set \<Rightarrow> int \<Rightarrow> string list \<Rightarrow> deployState \<Rightarrow> deployResult \<times> deployState \<Rightarrow> 'r world \<Rightarrow> bool" where
  "rolledAll app S ver keys s = (\<lambda>(res, s') w.
     if res = Deployed then
       onRoutes app (routeFor (dsReplicas s')) (fleet (dsReplicas s') \<union> S) w \<and> wfFleet S (dsReplicas s') \<and>
       \<not> dsSecretPreparing s' \<and> dsMode s' = dsMode s \<and> fst ` set (dsReplicas s') = fst ` set (dsReplicas s) \<and>
       (\<forall>k. k \<in> set keys \<or> onVersion ver (dsReplicas s) k \<longrightarrow> onVersion ver (dsReplicas s') k)
     else servedOn app w)"

lemma storeW_served: "triple (servedOn app) (storeW env s) (\<lambda>_. servedOn app)"
  by (rule triple_served, rule triple_post [OF storeW_route]) (auto split: prod.splits)

lemma rolledAll_err: "e \<noteq> Deployed \<Longrightarrow> triple (servedOn app) (State_Monad.return (e, s')) (rolledAll app S ver keys s)"
  by (rule triple_return) (simp add: rolledAll_def)

lemma rollAll_rolled:
  assumes none: "bgSecrets r = None" and plain: "\<not> rlAtomicSecretRecovery r" and launch: "rollingLauncher (bgLauncher r)"
    and flt: "\<And>n. evFault env OpSwitch n \<noteq> LostReply" and pre: "msMode pre = ModeRolling"
  shows "wfFleet S (dsReplicas s) \<Longrightarrow> \<not> dsSecretPreparing s \<Longrightarrow> set keys \<subseteq> fst ` set (dsReplicas s) \<Longrightarrow>
     keys = [] \<longrightarrow> ts = routeFor (dsReplicas s) \<Longrightarrow>
     triple (onRoutes (bgAppName r) ts (fleet (dsReplicas s) \<union> S)) (rollAll r env a t pre [] progressed True keys s)
       (rolledAll (bgAppName r) S (arVersion a) keys s)"
proof (induction keys arbitrary: s ts progressed)
  case Nil
  then show ?case by (auto intro!: triple_return simp: rolledAll_def)
next
  case (Cons key keys)
  let ?app = "bgAppName r" and ?ups = "fleet (dsReplicas s) \<union> S"
  have undo: "rollingUndo r env pre s' = State_Monad.return s'" for s'
    using pre by (simp add: rollingUndo_def ModeRolling_def)
  obtain old where old: "map_of (dsReplicas s) key = Some old"
    using Cons.prems(3) by (metis domD dom_map_of_conv_image_fst insert_subset list.set(2))
  let ?Q = "rolledAll ?app S (arVersion a) (key # keys) s :: deployResult \<times> deployState \<Rightarrow> 'a world \<Rightarrow> bool"
  have step: "triple (turned ?app S (arVersion a) key s (x, s1, en)) (case x of
       Inl e \<Rightarrow> if \<not> progressed then State_Monad.return (DeployFailed (stepCode e), s1)
                else State_Monad.bind (storeW env (s1\<lparr>dsActiveVersion := 0, dsSecretPreparing := rlAtomicSecretRecovery r\<rparr>)) (\<lambda>(p, s').
                       State_Monad.return (DeployFailed (case p of Inl _ \<Rightarrow> CodeFilesystem | Inr _ \<Rightarrow> stepCode e), s'))
     | Inr _ \<Rightarrow> rollAll r env a t pre [] True en keys s1) ?Q" for x s1 en
  proof (cases x)
    case (Inl e)
    then have eq: "turned ?app S (arVersion a) key s (x, s1, en) = (servedOn ?app :: 'a world \<Rightarrow> bool)"
      by (auto simp: turned_def fun_eq_iff)
    have "triple (servedOn ?app) (State_Monad.bind (storeW env s2) (\<lambda>(p, s').
        State_Monad.return (DeployFailed (case p of Inl _ \<Rightarrow> CodeFilesystem | Inr _ \<Rightarrow> stepCode e), s'))) ?Q" for s2
      by (rule triple_bind [OF storeW_served]) (auto intro!: rolledAll_err)
    then show ?thesis unfolding eq unfolding Inl sum.case by (intro triple_if rolledAll_err) simp_all
  next
    case (Inr u)
    show ?thesis
    proof (cases "wfFleet S (dsReplicas s1) \<and> en \<and> \<not> dsSecretPreparing s1 \<and> dsMode s1 = dsMode s \<and>
        (\<exists>c. servable c \<and> inVersion c = arVersion a \<and> dsReplicas s1 = AList.update key c (dsReplicas s))")
      case False
      then have "turned ?app S (arVersion a) key s (x, s1, en) = (\<lambda>w :: 'a world. False)"
        by (simp add: turned_def Inr fun_eq_iff)
      then show ?thesis by (simp add: triple_false)
    next
      case True
      then obtain c where c: "servable c" "inVersion c = arVersion a" "dsReplicas s1 = AList.update key c (dsReplicas s)" by blast
      have keys: "fst ` set (dsReplicas s1) = fst ` set (dsReplicas s)"
        using map_of_SomeD [OF old] by (force simp: c(3) update_keys)
      have IH: "triple (onRoutes ?app (routeFor (dsReplicas s1)) (fleet (dsReplicas s1) \<union> S))
          (rollAll r env a t pre [] True True keys s1) (rolledAll ?app S (arVersion a) keys s1)"
        by (rule Cons.IH) (use True keys Cons.prems(3) in auto)
      have "rolledAll ?app S (arVersion a) (key # keys) s b w"
        if "rolledAll ?app S (arVersion a) keys s1 b w" for b and w :: "'a world"
        using that True keys onVersion_update [OF c(1,2), of key "dsReplicas s", folded c(3)]
        by (auto simp: rolledAll_def split: if_splits)
      from triple_weaken [OF IH _ this] True show ?thesis by (simp add: turned_def Inr)
    qed
  qed
  have eq: "rollAll r env a t pre [] progressed True (key # keys) s =
      State_Monad.bind (look wClock) (\<lambda>n. if rlCancelled r n then State_Monad.return (DeployFailed CodeDeployFailed, s)
        else State_Monad.bind (rollOne r env a t key True s) (\<lambda>(x, s1, en). case x of
       Inl e \<Rightarrow> if \<not> progressed then State_Monad.return (DeployFailed (stepCode e), s1)
                else State_Monad.bind (storeW env (s1\<lparr>dsActiveVersion := 0, dsSecretPreparing := rlAtomicSecretRecovery r\<rparr>)) (\<lambda>(p, s').
                       State_Monad.return (DeployFailed (case p of Inl _ \<Rightarrow> CodeFilesystem | Inr _ \<Rightarrow> stepCode e), s'))
     | Inr _ \<Rightarrow> rollAll r env a t pre [] True en keys s1))"
    by (simp add: undo cong: if_cong sum.case_cong)
  show ?case
    unfolding eq
  proof (rule triple_look, rule triple_drop, rule triple_if, goal_cases)
    case 1
    show ?case by (rule triple_pre [OF rolledAll_err]) (auto intro: servedOnI)
  next
    case 2
    show ?case
      by (rule triple_bind [OF rollOne_turned [OF Cons.prems(1) old none plain launch flt]]) (use step in \<open>auto split: prod.split\<close>)
  qed
qed

subsection \<open>The whole deployment\<close>

definition finishedRolling :: "string \<Rightarrow> int \<Rightarrow> deployState \<Rightarrow> deployResult \<times> deployState \<Rightarrow> 'r world \<Rightarrow> bool" where
  "finishedRolling app ver s = (\<lambda>(res, s') w.
     onRoutes app (routeFor (dsReplicas s)) (fleet (dsReplicas s)) w \<and>
     (res = Deployed \<longrightarrow> wFile w = DeployFile s' \<and> dsReplicas s' = dsReplicas s \<and> dsActiveVersion s' = ver \<and> dsMode s' = dsMode s))"

lemma rollingPromote_route:
  "triple (\<lambda>w. onRoutes app ts ups w \<and> wFile w = F) (rollingPromote r env ver) (\<lambda>_ w. onRoutes app ts ups w \<and> wFile w = F)"
proof (rule triple_conj)
  show "triple (onRoutes app ts ups) (rollingPromote r env ver) (\<lambda>_. onRoutes app ts ups)"
    unfolding rollingPromote_def by (intro triple_if triple_return act_frame_route) (auto split: prod.splits)
  show "triple (\<lambda>w. wFile w = F) (rollingPromote r env ver) (\<lambda>_ w. wFile w = F)"
    unfolding rollingPromote_def by (intro triple_if triple_return triple_act) (auto split: prod.splits)
qed

lemma surplus_retired:
  assumes "wfFleet S m" and "hasProcess i \<longrightarrow> handleOf i \<in> fst ` S"
  shows "hasProcess i \<longrightarrow> handleOf i \<notin> fst ` fleet m"
proof (intro impI notI)
  assume p: "hasProcess i" and "handleOf i \<in> fst ` fleet m"
  then obtain k j where "(k, j) \<in> set m" "servable j" "handleOf j = handleOf i" by (auto simp: fleet_def)
  with assms p show False unfolding wfFleet_def by metis
qed

lemma finishRolling_finished:
  assumes wf: "wfFleet S (dsReplicas s)" and prep: "\<not> dsSecretPreparing s" and none: "bgSecrets r = None"
    and plain: "\<not> rlAtomicSecretRecovery r" and surplus: "\<forall>i\<in>set surplus. hasProcess i \<longrightarrow> handleOf i \<in> fst ` S"
  shows "triple (onRoutes app (routeFor (dsReplicas s)) (fleet (dsReplicas s) \<union> S)) (finishRolling r env t ver surplus s)
     (finishedRolling app ver s)"
proof -
  let ?R = "routeFor (dsReplicas s)" and ?U = "fleet (dsReplicas s)"
  have fail: "triple (onRoutes app ?R ?U) (State_Monad.return (DeployFailed e, s')) (finishedRolling app ver s)" for e s'
    by (rule triple_return) (simp add: finishedRolling_def)
  have tail: "triple (\<lambda>w. onRoutes app ?R ?U w \<and> wFile w = DeployFile s2)
      (State_Monad.bind (rollingPromote r env ver) (\<lambda>x. case x of Inl e \<Rightarrow> State_Monad.return (DeployFailed e, s2)
         | Inr _ \<Rightarrow> State_Monad.return (Deployed, s2))) (finishedRolling app ver s)"
    if "dsReplicas s2 = dsReplicas s" "dsActiveVersion s2 = ver" "dsMode s2 = dsMode s" for s2
    by (rule triple_bind [OF rollingPromote_route], rule triple_sum)
      (use that in \<open>auto intro!: triple_return simp: finishedRolling_def\<close>)
  have stored: "triple (onRoutes app ?R ?U) (State_Monad.bind (storeW env (completed t now ver s)) (\<lambda>(p, s2).
      case p of Inl _ \<Rightarrow> State_Monad.return (DeployFailed CodeFilesystem, s2)
      | Inr _ \<Rightarrow> State_Monad.bind (rollingPromote r env ver) (\<lambda>x. case x of Inl e \<Rightarrow> State_Monad.return (DeployFailed e, s2)
         | Inr _ \<Rightarrow> State_Monad.return (Deployed, s2)))) (finishedRolling app ver s)" for now
  proof (rule triple_bind_pair [OF storeW_route], rule triple_sum, goal_cases)
    case (1 p s2 e)
    show ?case by (rule triple_pre [OF fail]) simp
  next
    case (2 p s2 u)
    have "triple (\<lambda>w. (onRoutes app ?R ?U w \<and> wFile w = DeployFile s2) \<and> sameRecord (completed t now ver s) s2)
        (State_Monad.bind (rollingPromote r env ver) (\<lambda>x. case x of Inl e \<Rightarrow> State_Monad.return (DeployFailed e, s2)
         | Inr _ \<Rightarrow> State_Monad.return (Deployed, s2))) (finishedRolling app ver s)"
      by (rule triple_fact, rule tail) (simp_all add: sameRecord_def completed_def)
    then show ?case
      by (rule triple_pre) (use 2 prep in \<open>simp add: completed_def\<close>)
  qed
  have start: "onRoutes app ?R ?U w" if "onRoutes app ?R (?U \<union> S) w" for w :: "'a world"
    using that by (rule onRoutes_sub) (use wfFleet_route [OF wf] in auto)
  have "triple (onRoutes app ?R ?U :: 'a world \<Rightarrow> bool) (stopRetiredInstances env surplus) (\<lambda>_. onRoutes app ?R ?U)"
    by (rule stopRetiredInstances_route) (use surplus surplus_retired [OF wf] in blast)
  from triple_pre [OF this start]
  have stop: "triple (onRoutes app ?R (?U \<union> S) :: 'a world \<Rightarrow> bool) (stopRetiredInstances env surplus) (\<lambda>_. onRoutes app ?R ?U)" .
  have eq: "finishRolling r env t ver surplus s = State_Monad.bind (stopRetiredInstances env surplus) (\<lambda>stopped.
     case stopped of Inl e \<Rightarrow> State_Monad.return (DeployFailed e, s)
     | Inr _ \<Rightarrow> State_Monad.bind (look wClock) (\<lambda>n. State_Monad.bind (storeW env (completed t (evNow env n) ver s)) (\<lambda>(p, s2).
      case p of Inl _ \<Rightarrow> State_Monad.return (DeployFailed CodeFilesystem, s2)
      | Inr _ \<Rightarrow> State_Monad.bind (rollingPromote r env ver) (\<lambda>x. case x of Inl e \<Rightarrow> State_Monad.return (DeployFailed e, s2)
         | Inr _ \<Rightarrow> State_Monad.return (Deployed, s2)))))"
    using none plain by (simp add: finishRolling_def Let_def cong: if_cong sum.case_cong)
  show ?thesis
    unfolding eq by (rule triple_bind [OF stop], rule triple_sum, rule fail, rule triple_look, rule triple_drop, rule stored)
qed

text \<open>
  An application that runs \<open>rolling\<close>, with a record that says so: every replica of the record serves,
  in a process of its own, and the proxy routes to exactly these replicas.
\<close>

definition retiredBy :: "int \<Rightarrow> (string \<times> inst) list \<Rightarrow> (handle \<times> string) set" where
  "retiredBy n m = {(handleOf i, hostPort (inPort i)) | k i. (k, i) \<in> set m \<and> surplusKey n k}"

definition wholeFleet :: "(string \<times> inst) list \<Rightarrow> bool" where
  "wholeFleet m \<longleftrightarrow>
     distinct (map fst m) \<and> ''0'' \<in> fst ` set m \<and> (\<forall>k\<in>fst ` set m. \<exists>j<2 ^ 63. k = utoa j) \<and>
     (\<forall>(k, i)\<in>set m. servable i) \<and>
     (\<forall>(k, i)\<in>set m. \<forall>(k', i')\<in>set m. handleOf i = handleOf i' \<longrightarrow> k = k')"

lemma surplusKey_utoa: "j < 2 ^ 63 \<Longrightarrow> surplusKey n (utoa j) \<longleftrightarrow> int j \<ge> n"
  by (simp add: surplusKey_def atoi_utoa)

text \<open>The map a deployment of \<open>n\<close> replicas starts from.\<close>

definition startMap :: "nat \<Rightarrow> (string \<times> inst) list \<Rightarrow> (string \<times> inst) list" where
  "startMap n m = ensureReplicaMap (snd (applyReplicaSet m (int n))) n"

lemma map_of_kept:
  assumes "j < n" "n \<le> 2 ^ 63"
  shows "map_of (filter (\<lambda>(k, i). \<not> surplusKey (int n) k) m) (utoa j) = map_of m (utoa j)"
proof -
  have "\<not> surplusKey (int n) (utoa j)" using assms by (simp add: surplusKey_utoa)
  then show ?thesis by (induction m) (auto split: prod.splits)
qed

lemma startMap_keys: "map fst (startMap n m) = map utoa [0..<n]"
  by (simp add: startMap_def ensureReplicaMap_def Let_def comp_def)

lemma startMap_entry:
  assumes "n \<le> 2 ^ 63"
  shows "(k, i) \<in> set (startMap n m) \<longleftrightarrow>
     (\<exists>j<n. k = utoa j \<and> i = (case map_of m k of Some i' \<Rightarrow> i' | None \<Rightarrow> emptyInst k))"
proof -
  have "startMap n m = map (\<lambda>j. (utoa j, case map_of m (utoa j) of Some i' \<Rightarrow> i' | None \<Rightarrow> emptyInst (utoa j))) [0..<n]"
    unfolding startMap_def ensureReplicaMap_def applyReplicaSet_def Let_def snd_conv
    by (rule map_cong) (simp_all add: map_of_kept [OF _ assms])
  then show ?thesis by auto
qed

lemma startMap_mem:
  assumes n: "n \<le> 2 ^ 63" and e: "(k, i) \<in> set (startMap n m)" "i \<noteq> emptyInst k"
  shows "(k, i) \<in> set m \<and> \<not> surplusKey (int n) k"
proof -
  obtain j where j: "j < n" "k = utoa j" "i = (case map_of m k of Some i' \<Rightarrow> i' | None \<Rightarrow> emptyInst k)"
    using e(1) by (auto simp: startMap_entry [OF n])
  have "map_of m k = Some i"
    using j(3) e(2) by (cases "map_of m k") simp_all
  then show ?thesis using j n by (auto simp: surplusKey_utoa dest: map_of_SomeD)
qed

lemma not_empty: "hasProcess i \<or> servable i \<Longrightarrow> i \<noteq> emptyInst k"
  by (auto simp: hasProcess_def servable_def emptyInst_def)

lemma wholeFleet_servable: "wholeFleet m \<Longrightarrow> (k, i) \<in> set m \<Longrightarrow> servable i"
  unfolding wholeFleet_def by fast

lemma startMap_servable: "wholeFleet m \<Longrightarrow> n \<le> 2 ^ 63 \<Longrightarrow> (k, i) \<in> set (startMap n m) \<Longrightarrow> hasProcess i \<Longrightarrow> servable i"
  using startMap_mem [of n k i m] not_empty [of i k] wholeFleet_servable [of m k i] by blast

lemma wholeFleet_handles:
  "wholeFleet m \<Longrightarrow> (k, i) \<in> set m \<Longrightarrow> (k', i') \<in> set m \<Longrightarrow> handleOf i = handleOf i' \<Longrightarrow> k = k'"
  unfolding wholeFleet_def by fast

lemma startMap_wf:
  assumes m: "wholeFleet m" and n: "0 < n" "n \<le> 2 ^ 63"
  shows "wfFleet (retiredBy (int n) m) (startMap n m)"
proof -
  have d: "distinct (map fst (startMap n m))" unfolding startMap_keys by (simp add: distinct_map inj_on_def)
  have mem: "(k, i) \<in> set m" "\<not> surplusKey (int n) k" if "(k, i) \<in> set (startMap n m)" "servable i" for k i
    using startMap_mem [OF n(2) that(1) not_empty] that(2) by simp_all
  have A: "servable i \<or> \<not> hasProcess i" if "(k, i) \<in> set (startMap n m)" for k i
    using startMap_servable [OF m n(2) that] by blast
  have B: "k = k'" if "(k, i) \<in> set (startMap n m)" "(k', i') \<in> set (startMap n m)" "servable i" "servable i'" "handleOf i = handleOf i'" for k i k' i'
    using wholeFleet_handles [OF m mem(1) [OF that(1,3)] mem(1) [OF that(2,4)] that(5)] .
  have C: "handleOf i \<notin> fst ` retiredBy (int n) m" if "(k, i) \<in> set (startMap n m)" "servable i" for k i
  proof
    assume "handleOf i \<in> fst ` retiredBy (int n) m"
    then obtain k' i' where s: "(k', i') \<in> set m" "surplusKey (int n) k'" "handleOf i = handleOf i'" by (auto simp: retiredBy_def)
    from wholeFleet_handles [OF m mem(1) [OF that] s(1,3)] mem(2) [OF that] s(2) show False by simp
  qed
  obtain z where z: "(''0'', z) \<in> set m" using m by (auto simp: wholeFleet_def)
  have zero: "utoa 0 = ''0''" by code_simp
  have "map_of m ''0'' = Some z" using z m by (simp add: wholeFleet_def)
  then have "(''0'', z) \<in> set (startMap n m)" unfolding startMap_entry [OF n(2)] using n(1) zero by auto
  moreover have "servable z" using m z by (auto simp: wholeFleet_def)
  ultimately have D: "\<exists>k i. (k, i) \<in> set (startMap n m) \<and> servable i" by blast
  show ?thesis
    unfolding wfFleet_def
    by (intro conjI allI impI d D; (elim conjE)?) (erule A | erule (4) B | erule (1) C)+
qed

lemma startMap_fleet:
  assumes m: "wholeFleet m" and n: "n \<le> 2 ^ 63"
  shows "fleet m = fleet (startMap n m) \<union> retiredBy (int n) m"
proof -
  have "(k, i) \<in> set (startMap n m) \<or> surplusKey (int n) k" if "(k, i) \<in> set m" for k i
  proof -
    have keys: "\<forall>k\<in>fst ` set m. \<exists>j<2 ^ 63. k = utoa j" using m unfolding wholeFleet_def by (elim conjE)
    from that have "k \<in> fst ` set m" by (metis fst_conv imageI)
    from bspec [OF keys this] obtain j where j: "j < 2 ^ 63" "k = utoa j" by blast
    have "map_of m k = Some i" using m that by (simp add: wholeFleet_def)
    show ?thesis
    proof (cases "j < n")
      case True
      with \<open>map_of m k = Some i\<close> j(2) show ?thesis by (auto simp: startMap_entry [OF n])
    qed (simp add: surplusKey_utoa [OF j(1)] j(2))
  qed
  then have "fleet m \<subseteq> fleet (startMap n m) \<union> retiredBy (int n) m"
    unfolding fleet_def retiredBy_def by blast
  moreover have "(k, i) \<in> set m" if "(k, i) \<in> set (startMap n m)" "servable i" for k i
    using startMap_mem [OF n that(1) not_empty] that(2) by simp
  then have "fleet (startMap n m) \<subseteq> fleet m" by (auto simp: fleet_def)
  moreover have "retiredBy (int n) m \<subseteq> fleet m"
    using wholeFleet_servable [OF m] by (auto simp: fleet_def retiredBy_def)
  ultimately show ?thesis by blast
qed

definition establishedRolling :: "'r rolling \<Rightarrow> deployState \<Rightarrow> 'r world \<Rightarrow> bool" where
  "establishedRolling r st w \<longleftrightarrow>
     wFile w = DeployFile st \<and> dsAppName st = bgAppName r \<and> isOk (ValidateAppName (bgAppName r)) \<and>
     dsMode st = ModeRolling \<and> \<not> dsSecretPreparing st \<and> wholeFleet (dsReplicas st) \<and>
     (\<forall>(k, i)\<in>set (dsReplicas st). listensOn (wOs w) (handleOf i) (inPort i) \<and> reapInst (wOs w) i = i) \<and>
     dmRunning (wDaemon w) \<and> routeOf (bgAppName r) (wDaemon w) = Some (routeFor (dsReplicas st)) \<and> alwaysUp (bgAppName r) w"

text \<open>What the deployment proper achieves, the record at the end being \<open>s'\<close>.\<close>

definition rolledOut :: "string \<Rightarrow> nat \<Rightarrow> deployResult \<times> deployState \<Rightarrow> 'r world \<Rightarrow> bool" where
  "rolledOut app n = (\<lambda>(res, s') w.
     if res = Deployed then
       onRoutes app (routeFor (dsReplicas s')) (fleet (dsReplicas s')) w \<and> wFile w = DeployFile s' \<and>
       dsMode s' = ModeRolling \<and> distinct (map fst (dsReplicas s')) \<and> fst ` set (dsReplicas s') = utoa ` {..<n} \<and>
       (\<forall>j<n. onVersion (dsActiveVersion s') (dsReplicas s') (utoa j))
     else servedOn app w)"

lemma rolledOut_err: "e \<noteq> Deployed \<Longrightarrow> triple (servedOn app) (State_Monad.return (e, s')) (rolledOut app n)"
  by (rule triple_return) (simp add: rolledOut_def)

lemma finished_rolledOut:
  assumes fin: "finishedRolling app ver s a w" and s: "dsMode s = ModeRolling" "distinct (map fst (dsReplicas s))"
    "fst ` set (dsReplicas s) = utoa ` {..<n}" "\<forall>j<n. onVersion ver (dsReplicas s) (utoa j)"
  shows "rolledOut app n a w"
  using assms by (cases a) (auto simp: finishedRolling_def rolledOut_def intro: servedOnI)

lemma routeFor_hosts:
  assumes "distinct (map fst m)" "(k, i) \<in> set m" "servable i"
  shows "\<forall>t\<in>set (routeFor m). \<exists>h. (h, tHost t) \<in> fleet m"
proof
  fix t assume t: "t \<in> set (routeFor m)"
  obtain p bs where h: "healthyTargets m = (p, bs)" by fastforce
  from t have "t \<in> set (p # bs)" using addlTargets_props(2) [of "{tHost p}" bs] by (auto simp: routeFor_def h)
  from healthyTargets_hosts [OF h this assms(2,3,1)] show "\<exists>h. (h, tHost t) \<in> fleet m" .
qed

lemma startMap_finished:
  assumes "rolledAll app S ver (replicaIndices (startMap n m)) s2 a w" and "dsReplicas s2 = startMap n m" and "fst a = Deployed"
  shows "onRoutes app (routeFor (dsReplicas (snd a))) (fleet (dsReplicas (snd a)) \<union> S) w" "wfFleet S (dsReplicas (snd a))"
    "\<not> dsSecretPreparing (snd a)" "dsMode (snd a) = dsMode s2" "fst ` set (dsReplicas (snd a)) = utoa ` {..<n}"
    "\<forall>j<n. onVersion ver (dsReplicas (snd a)) (utoa j)"
proof -
  have keys: "fst ` set (startMap n m) = utoa ` {..<n}"
    using startMap_keys [of n m] by (metis atLeast0LessThan atLeastLessThan_upt list.set_map)
  show "onRoutes app (routeFor (dsReplicas (snd a))) (fleet (dsReplicas (snd a)) \<union> S) w" "wfFleet S (dsReplicas (snd a))"
    "\<not> dsSecretPreparing (snd a)" "dsMode (snd a) = dsMode s2" "fst ` set (dsReplicas (snd a)) = utoa ` {..<n}"
    "\<forall>j<n. onVersion ver (dsReplicas (snd a)) (utoa j)"
    using assms keys by (simp_all add: rolledAll_def case_prod_beta)
qed

lemma loop_rolledOut:
  assumes none: "bgSecrets r = None" and plain: "\<not> rlAtomicSecretRecovery r" and launch: "rollingLauncher (bgLauncher r)"
    and flt: "\<And>n. evFault env OpSwitch n \<noteq> LostReply" and pre: "msMode pre = ModeRolling"
    and m: "wholeFleet m" and n: "0 < n" "n \<le> 2 ^ 63"
    and s2: "dsReplicas s2 = startMap n m" "\<not> dsSecretPreparing s2" "dsMode s2 = ModeRolling"
    and surplus: "\<forall>i\<in>set surplus. hasProcess i \<longrightarrow> handleOf i \<in> fst ` retiredBy (int n) m"
  shows "triple (onRoutes (bgAppName r) (routeFor m) (fleet m))
     (State_Monad.bind (rollAll r env a t pre [] False True (replicaIndices (dsReplicas s2)) s2) (\<lambda>(res, s3).
        case res of Deployed \<Rightarrow> finishRolling r env t (arVersion a) surplus s3
        | DeployFailed e \<Rightarrow> State_Monad.return (res, s3) | DeployPanic \<Rightarrow> State_Monad.return (res, s3)))
     (rolledOut (bgAppName r) n)"
proof (rule triple_bind)
  let ?S = "retiredBy (int n) m"
  have wf: "wfFleet ?S (dsReplicas s2)" unfolding s2 by (rule startMap_wf [OF m n])
  have ne: "replicaIndices (dsReplicas s2) \<noteq> []"
    using wf unfolding wfFleet_def by (metis empty_iff image_is_empty list.set(1) set_replicaIndices)
  show "triple (onRoutes (bgAppName r) (routeFor m) (fleet m))
      (rollAll r env a t pre [] False True (replicaIndices (dsReplicas s2)) s2)
      (rolledAll (bgAppName r) ?S (arVersion a) (replicaIndices (startMap n m)) s2)"
    unfolding startMap_fleet [OF m n(2)] s2(1) [symmetric]
    by (rule rollAll_rolled [OF none plain launch flt pre wf s2(2)]) (use ne in simp_all)
  show "triple (rolledAll (bgAppName r) ?S (arVersion a) (replicaIndices (startMap n m)) s2 x)
      (case x of (res, s3) \<Rightarrow> case res of Deployed \<Rightarrow> finishRolling r env t (arVersion a) surplus s3
        | DeployFailed e \<Rightarrow> State_Monad.return (res, s3) | DeployPanic \<Rightarrow> State_Monad.return (res, s3))
      (rolledOut (bgAppName r) n)" for x
  proof (cases "fst x = Deployed")
    case False
    have "triple (servedOn (bgAppName r)) (State_Monad.return (fst x, snd x)) (rolledOut (bgAppName r) n)"
      by (rule rolledOut_err [OF False])
    then show ?thesis using False
      by (cases x; cases "fst x") (auto simp: rolledAll_def elim!: triple_pre)
  next
    case True
    have "triple (\<lambda>w. rolledAll (bgAppName r) ?S (arVersion a) (replicaIndices (startMap n m)) s2 x w)
        (finishRolling r env t (arVersion a) surplus (snd x)) (rolledOut (bgAppName r) n)"
    proof (rule triple_pre)
      let ?s3 = "snd x"
      let ?F = "wfFleet ?S (dsReplicas ?s3) \<and> \<not> dsSecretPreparing ?s3 \<and> dsMode ?s3 = ModeRolling \<and>
        fst ` set (dsReplicas ?s3) = utoa ` {..<n} \<and> (\<forall>j<n. onVersion (arVersion a) (dsReplicas ?s3) (utoa j))"
      show "triple (\<lambda>w. onRoutes (bgAppName r) (routeFor (dsReplicas ?s3)) (fleet (dsReplicas ?s3) \<union> ?S) w \<and> ?F)
        (finishRolling r env t (arVersion a) surplus (snd x)) (rolledOut (bgAppName r) n)"
      proof (rule triple_fact)
        assume F: ?F
        then have "distinct (map fst (dsReplicas ?s3))" by (simp add: wfFleet_def)
        then show "triple (onRoutes (bgAppName r) (routeFor (dsReplicas ?s3)) (fleet (dsReplicas ?s3) \<union> ?S))
            (finishRolling r env t (arVersion a) surplus (snd x)) (rolledOut (bgAppName r) n)"
          using F by (intro triple_post [OF finishRolling_finished [OF _ _ none plain surplus]] finished_rolledOut [of _ "arVersion a" ?s3]) simp_all
      qed
      show "onRoutes (bgAppName r) (routeFor (dsReplicas ?s3)) (fleet (dsReplicas ?s3) \<union> ?S) w \<and> ?F"
        if "rolledAll (bgAppName r) ?S (arVersion a) (replicaIndices (startMap n m)) s2 x w" for w :: "'a world"
        using startMap_finished [OF that s2(1) True] s2(3) by simp
    qed
    then show ?thesis using True by (cases x) simp
  qed
qed

lemma prepareReplicas_start:
  assumes "\<forall>(k, i)\<in>set (dsReplicas s). reapInst sys i = i" and "bgSecrets r = None" and n: "n = nat (desiredReplicas r)"
    and p: "prepareReplicas r [] sys s = (surplus, s2)"
  shows "dsReplicas s2 = startMap n (dsReplicas s)" "dsSecretPreparing s2 = dsSecretPreparing s" "dsMode s2 = dsMode s"
    "\<forall>i\<in>set surplus. hasProcess i \<longrightarrow> handleOf i \<in> fst ` retiredBy (int n) (dsReplicas s)"
proof -
  have same: "map (\<lambda>(k, i). (k, reapInst sys i)) (dsReplicas s) = dsReplicas s"
    using assms(1) by (intro map_idI) auto
  have n': "desiredReplicas r = int n" by (simp add: n desiredReplicas_def)
  obtain su ke where ap: "applyReplicaSet (dsReplicas s) (int n) = (su, ke)" by fastforce
  have eq: "surplus = su" "s2 = (ReapStaleInstances sys s)\<lparr>dsReplicas := ensureReplicaMap ke n\<rparr>"
    using p by (simp_all add: prepareReplicas_def Let_def ReapStaleInstances_def same assms(2) n' ap)
  show "dsReplicas s2 = startMap n (dsReplicas s)" "dsSecretPreparing s2 = dsSecretPreparing s" "dsMode s2 = dsMode s"
    by (simp_all add: eq startMap_def ap ReapStaleInstances_def)
  have "handleOf i \<in> fst ` retiredBy (int n) (dsReplicas s)" if "(k, i) \<in> set (dsReplicas s)" "surplusKey (int n) k" for k i
  proof -
    have "(handleOf i, hostPort (inPort i)) \<in> retiredBy (int n) (dsReplicas s)" using that unfolding retiredBy_def by blast
    then show ?thesis by (metis fst_conv imageI)
  qed
  then show "\<forall>i\<in>set surplus. hasProcess i \<longrightarrow> handleOf i \<in> fst ` retiredBy (int n) (dsReplicas s)"
    using ap by (auto simp: eq(1) applyReplicaSet_def)
qed

lemma rollingBody_rolledOut:
  assumes none: "bgSecrets r = None" and plain: "\<not> rlAtomicSecretRecovery r" and launch: "rollingLauncher (bgLauncher r)"
    and flt: "\<And>n. evFault env OpSwitch n \<noteq> LostReply" "\<And>n. evFault env OpStatus n = NoFault" and client: "bgProxyClient r"
    and s: "wholeFleet (dsReplicas s)" "\<not> dsSecretPreparing s" "dsMode s = ModeRolling"
    and n: "n = nat (desiredReplicas r)" "n \<le> 2 ^ 63"
  shows "triple (\<lambda>w. onRoutes (bgAppName r) (routeFor (dsReplicas s)) (fleet (dsReplicas s)) w \<and>
        (\<forall>(k, i)\<in>set (dsReplicas s). reapInst (wOs w) i = i))
     (rollingBody r env s) (rolledOut (bgAppName r) n)"
proof -
  let ?app = "bgAppName r" and ?m = "dsReplicas s"
  have pre: "msMode (captureMode s) = ModeRolling" using s(3) by (simp add: captureMode_def)
  have pos: "0 < n" by (simp add: n desiredReplicas_def)
  have err: "triple (onRoutes ?app (routeFor ?m) (fleet ?m)) (State_Monad.return (DeployFailed e, s')) (rolledOut ?app n)" for e s'
    by (rule triple_pre [OF rolledOut_err]) (auto intro: servedOnI)
  let ?k = "\<lambda>surplus s2. State_Monad.bind (proxyEnrolled env ?app) (\<lambda>enrolled.
      State_Monad.bind (act (\<lambda>n w. case bgBuild r (wVersions w) of (x, v) \<Rightarrow> (x, w\<lparr>wVersions := v\<rparr>))) (\<lambda>built.
        case built of Inl e \<Rightarrow> State_Monad.return (DeployFailed CodeBuildFailed, s2)
        | Inr (binaryPath, envPath, ver) \<Rightarrow>
            (case bgOverlay r envPath of Inl e \<Rightarrow> State_Monad.return (DeployFailed e, s2)
             | Inr overlay \<Rightarrow> State_Monad.bind (look wClock) (\<lambda>n.
                 State_Monad.bind (rollAll r env \<lparr>arBinary = binaryPath, arEnv = envPath, arOverlay = overlay, arVersion = ver\<rparr>
                     (SelectTier (bgHealthCfg r) (bgRootAnswers r n)) (captureMode s) [] False enrolled (replicaIndices (dsReplicas s2)) s2)
                   (\<lambda>(res, s3). case res of Deployed \<Rightarrow> finishRolling r env (SelectTier (bgHealthCfg r) (bgRootAnswers r n)) ver surplus s3
                      | DeployFailed e \<Rightarrow> State_Monad.return (res, s3) | DeployPanic \<Rightarrow> State_Monad.return (res, s3))))))"
  have eq: "rollingBody r env s = State_Monad.bind (look wOs) (\<lambda>sys. case prepareReplicas r [] sys s of (surplus, s2) \<Rightarrow> ?k surplus s2)"
    using client s(3) by (simp add: rollingBody_def MigrateTo_def Let_def cong: if_cong sum.case_cong)
  have loop: "triple (onRoutes ?app (routeFor ?m) (fleet ?m)) (?k surplus s2) (rolledOut ?app n)"
    if sys: "\<forall>(k, i)\<in>set ?m. reapInst sys i = i" and p: "prepareReplicas r [] sys s = (surplus, s2)" for sys surplus s2
  proof (rule triple_bind [OF proxyEnrolled_route [OF flt(2)]], rule triple_fact, rule triple_bind [OF act_frame_route], goal_cases)
    case (1 en n w a w')
    then show ?case by (auto split: prod.splits)
  next
    case (2 en built)
    note start = prepareReplicas_start [OF sys none n(1) p]
    have roll: "triple (onRoutes ?app (routeFor ?m) (fleet ?m))
        (State_Monad.bind (rollAll r env a t (captureMode s) [] False True (replicaIndices (dsReplicas s2)) s2)
          (\<lambda>(res, s3). case res of Deployed \<Rightarrow> finishRolling r env t (arVersion a) surplus s3
             | DeployFailed e \<Rightarrow> State_Monad.return (res, s3) | DeployPanic \<Rightarrow> State_Monad.return (res, s3)))
        (rolledOut ?app n)" for a t
      by (rule loop_rolledOut [OF none plain launch flt(1) pre s(1) pos n(2) start(1) _ _ start(4)]) (use s start in simp_all)
    note roll' = roll [of "\<lparr>arBinary = b, arEnv = e, arOverlay = ov, arVersion = v\<rparr>" for b e ov v, unfolded artifact.select_convs]
    from 2 have en: "en = True" by simp
    show ?case
      unfolding en by (intro triple_sum triple_pair err triple_look triple_drop roll')
  qed
  show ?thesis
    unfolding eq
  proof (rule triple_look)
    fix sys
    have "triple (\<lambda>w. onRoutes ?app (routeFor ?m) (fleet ?m) w \<and> (\<forall>(k, i)\<in>set ?m. reapInst sys i = i))
       (case prepareReplicas r [] sys s of (surplus, s2) \<Rightarrow> ?k surplus s2) (rolledOut ?app n)"
      by (rule triple_fact, rule triple_pair, rule loop)
    then show "triple (\<lambda>w. (onRoutes ?app (routeFor ?m) (fleet ?m) w \<and> (\<forall>(k, i)\<in>set ?m. reapInst (wOs w) i = i)) \<and> sys = wOs w)
       (case prepareReplicas r [] sys s of (surplus, s2) \<Rightarrow> ?k surplus s2) (rolledOut ?app n)"
      by (rule triple_pre) auto
  qed
qed

lemma establishedRolling_on: "establishedRolling r st w \<Longrightarrow> onRoutes (bgAppName r) (routeFor (dsReplicas st)) (fleet (dsReplicas st)) w"
proof -
  assume est: "establishedRolling r st w"
  then obtain z where m: "distinct (map fst (dsReplicas st))" "(''0'', z) \<in> set (dsReplicas st)"
    by (auto simp: establishedRolling_def wholeFleet_def)
  have "servable z" using est m(2) wholeFleet_servable by (auto simp: establishedRolling_def)
  from routeFor_hosts [OF m this] est show ?thesis
    by (auto simp: onRoutes_iff routes_def establishedRolling_def fleet_def upBy_def routeFor_def split: prod.splits)
qed

lemma Rolling_Deploy_rolledOut:
  assumes est: "establishedRolling r st w" and bounds: "rlReplicas r \<le> 2 ^ 63"
    and none: "bgSecrets r = None" and plain: "\<not> rlAtomicSecretRecovery r" and launch: "rollingLauncher (bgLauncher r)"
    and flt: "\<And>n. evFault env OpSwitch n \<noteq> LostReply" "\<And>n. evFault env OpStatus n = NoFault" and client: "bgProxyClient r"
    and run: "run_state (Rolling_Deploy r env) w = (res, w')"
  shows "res = DeployFailed CodeInvalidArgument \<and> w' = w \<or>
    (\<exists>s. rolledOut (bgAppName r) (nat (desiredReplicas r)) (res, s) w')"
proof (cases "bgHasSource r")
  case False
  then show ?thesis using run by (simp add: Rolling_Deploy_def)
next
  case True
  let ?s = "withRuntime (blueGreen.truncate r) st"
  have fields: "dsReplicas ?s = dsReplicas st" "dsMode ?s = ModeRolling" "dsSecretPreparing ?s = (bgSecrets r \<noteq> None)"
    using est by (auto simp: withRuntime_def Let_def establishedRolling_def blueGreen.truncate_def)
  have load: "LoadOrInit (bgAppName r) ModeRolling (bgPublicPort r) (wFile w) = Inr st"
    using est by (auto simp: LoadOrInit_def LoadState_def establishedRolling_def isOk_iff)
  have n: "nat (desiredReplicas r) \<le> 2 ^ 63" using bounds by (simp add: desiredReplicas_def nat_le_iff)
  obtain out w1 where body: "run_state (rollingBody r env ?s) w = (out, w1)" by fastforce
  have "wholeFleet (dsReplicas ?s)" "\<not> dsSecretPreparing ?s"
    using est none by (simp_all add: fields establishedRolling_def)
  from rollingBody_rolledOut [OF none plain launch flt client this fields(2) refl n] body
    establishedRolling_on [OF est] est
  have "rolledOut (bgAppName r) (nat (desiredReplicas r)) out w1"
    unfolding triple_def fields by (fastforce simp: establishedRolling_def)
  moreover have "res = fst out \<and> w' = w1"
    using run body True load none by (auto simp: Rolling_Deploy_def look_def Let_def split: prod.splits)
  ultimately show ?thesis by (metis prod.collapse)
qed


section \<open>A concrete deployment\<close>

text \<open>Two replicas on the second version; each launch takes the process number and port of its step.\<close>

definition rollLaunch :: "nat \<Rightarrow> string \<Rightarrow> string list \<Rightarrow> os \<Rightarrow> (code, launched) result \<times> os" where
  "rollLaunch n b ov sys =
     (let pid = 100 + int n; port = 9100 + int n in
      if osProcs sys pid \<noteq> None then (Inl CodeProcessFailed, sys)
      else (Inr \<lparr>lnHandle = NativeProc pid, lnPID = pid, lnTicks = 5, lnPort = port, lnContainerID = ''''\<rparr>,
            sys\<lparr>osProcs := (osProcs sys)(pid \<mapsto> \<lparr>prTicks = 5, prExe = b, prPort = port\<rparr>)\<rparr>))"

definition demoReplica :: "string \<Rightarrow> int \<Rightarrow> int \<Rightarrow> inst" where
  "demoReplica key pid port =
     (emptyInst key)\<lparr>inPID := pid, inPort := port, inBinaryPath := ''/srv/web/v2'', inStatus := ''running'', inVersion := 2,
                    inStartTicks := 40\<rparr>"

definition demoFleet :: "(string \<times> inst) list" where
  "demoFleet = [(''0'', demoReplica ''0'' 7 9001), (''1'', demoReplica ''1'' 8 9002)]"

definition demoRolling :: "unit rolling" where
  "demoRolling = blueGreen.extend (demoBG\<lparr>bgLauncher := rollLaunch\<rparr>)
     (rolling.fields 2 False (\<lambda>_. False))"

definition demoRollState :: deployState where
  "demoRollState = (initState ''web'' ModeRolling 8080)\<lparr>dsReplicas := demoFleet, dsActiveVersion := 2\<rparr>"

definition demoRollWorld :: "unit world" where
  "demoRollWorld =
     \<lparr>wOs = \<lparr>osProcs = [7 \<mapsto> \<lparr>prTicks = 40, prExe = ''/srv/web/v2'', prPort = 9001\<rparr>,
                        8 \<mapsto> \<lparr>prTicks = 40, prExe = ''/srv/web/v2'', prPort = 9002\<rparr>],
             osContainers = Map.empty, osDockerUp = True\<rparr>,
      wDaemon = \<lparr>dmRunning = True,
                 dmProxies = [(''web'', (NewProxy ''web'' 8080 (fst (healthyTargets demoFleet)))
                    \<lparr>pxState := \<lparr>psPrimary = fst (healthyTargets demoFleet), psTargets = routeFor demoFleet\<rparr>\<rparr>)],
                 dmFile = NoStateFile\<rparr>,
      wFile = DeployFile demoRollState, wVersions = demoApp, wForeign = (\<lambda>_. False), wClock = 0, wTrace = [], wSpawns = []\<rparr>"

lemma rollLaunch_contract: "rollingLauncher rollLaunch"
proof -
  have "listensOn sys' h port" if "rollLaunch n b ov sys = (r, sys')" "listensOn sys h port" for n b ov sys r sys' h port
    using that by (cases h) (auto simp: rollLaunch_def Let_def split: if_splits)
  moreover have "\<not> running sys (lnHandle ln) \<and> listensOn sys' (lnHandle ln) (lnPort ln) \<and> lnPort ln \<noteq> 0 \<and>
      lnHandle ln = (if lnContainerID ln \<noteq> '''' then DockerProc (lnContainerID ln) else NativeProc (lnPID ln))"
    if "rollLaunch n b ov sys = (Inr ln, sys')" for n b ov sys ln sys'
    using that by (auto simp: rollLaunch_def Let_def split: if_splits)
  ultimately show ?thesis
    unfolding rollingLauncher_def launchContract_def identifies_def by blast
qed

lemma demoRolling_fields:
  "bgAppName demoRolling = ''web''" "bgLauncher demoRolling = rollLaunch" "bgSecrets demoRolling = None" "bgProxyClient demoRolling"
  "rlReplicas demoRolling = 2" "\<not> rlAtomicSecretRecovery demoRolling"
  by (simp_all add: demoRolling_def blueGreen.extend_def rolling.fields_def demoBG_def)

lemma demoFleet_whole: "wholeFleet demoFleet"
proof -
  have "''0'' = utoa 0" "''1'' = utoa 1" by code_simp+
  then have "\<forall>k\<in>fst ` set demoFleet. \<exists>j<2 ^ 63. k = utoa j" by (auto simp: demoFleet_def intro: exI [of _ 0] exI [of _ 1])
  then show ?thesis
    by (simp add: wholeFleet_def demoFleet_def demoReplica_def emptyInst_def servable_def handleOf_def)
qed

lemma demoRollWorld_established: "establishedRolling demoRolling demoRollState demoRollWorld"
proof -
  have "isOk (ValidateAppName ''web'')" by code_simp
  moreover have "\<forall>(k, i)\<in>set demoFleet. listensOn (wOs demoRollWorld) (handleOf i) (inPort i) \<and> reapInst (wOs demoRollWorld) i = i"
    by (simp add: demoFleet_def demoReplica_def emptyInst_def handleOf_def demoRollWorld_def reapInst_def osPidAlive_def)
  moreover have "routeOf ''web'' (wDaemon demoRollWorld) = Some (routeFor demoFleet)"
    by (simp add: routeOf_def demoRollWorld_def)
  moreover have "dsReplicas demoRollState = demoFleet" "dsAppName demoRollState = ''web''" "dsMode demoRollState = ModeRolling"
    "\<not> dsSecretPreparing demoRollState"
    by (simp_all add: demoRollState_def initState_def)
  moreover have "wFile demoRollWorld = DeployFile demoRollState" "dmRunning (wDaemon demoRollWorld)" "alwaysUp app demoRollWorld" for app
    by (simp_all add: demoRollWorld_def alwaysUp_def)
  ultimately show ?thesis
    unfolding establishedRolling_def demoRolling_fields using demoFleet_whole by simp
qed


end
