(* ===== verification/Rollout.thy ===== *)
theory Rollout
  imports Complex_Main Rolling
begin

text \<open>
  Canary and progressive rollouts (\<open>internal/deploy/rollout.go\<close> and \<open>rollout_verify.go\<close>): over the
  slots of blue-green, the candidate receives a growing share of the traffic, is observed at every
  share, and is promoted after the last one.  The struct shares the fields of the blue-green one, so
  its record extends that one.  Rates and quantiles are rational numbers: the rounding of \<open>float64\<close> is
  not modelled.  The text of a failure (the \<open>Reason\<close> of the canary record) is left out.
\<close>

section \<open>The plan\<close>

definition CanaryFailed :: string where
  "CanaryFailed = ''failed''"

definition CanaryAborted :: string where
  "CanaryAborted = ''aborted''"

definition CanaryPromoted :: string where
  "CanaryPromoted = ''promoted''"

record rolloutStep =
  stTrafficPercent :: int
  stDuration :: int

record verificationConfig =
  vcInterval :: int
  vcMaxErrorRate :: rat
  vcMaxErrorDelta :: rat
  vcMaxP95Factor :: rat

definition withDefaults :: "verificationConfig \<Rightarrow> verificationConfig" where
  "withDefaults v =
     \<lparr>vcInterval = (if vcInterval v \<le> 0 then 5 * second else vcInterval v),
      vcMaxErrorRate = (if vcMaxErrorRate v \<le> 0 then 5 else vcMaxErrorRate v),
      vcMaxErrorDelta = (if vcMaxErrorDelta v \<le> 0 then 2 else vcMaxErrorDelta v),
      vcMaxP95Factor = (if vcMaxP95Factor v \<le> 0 then 3 else vcMaxP95Factor v)\<rparr>"

record rolloutPlan =
  rpStrategy :: string
  rpSteps :: "rolloutStep list"
  rpVerification :: verificationConfig

fun validSteps :: "int \<Rightarrow> rolloutStep list \<Rightarrow> (code, unit) result" where
  "validSteps prev [] = Inr ()"
| "validSteps prev (s # ss) =
     (if stTrafficPercent s < 1 \<or> stTrafficPercent s > 100 then Inl CodeInvalidArgument
      else if stTrafficPercent s \<le> prev then Inl CodeInvalidArgument
      else if stDuration s < 0 then Inl CodeInvalidArgument
      else validSteps (stTrafficPercent s) ss)"

definition RolloutPlan_Validate :: "rolloutPlan \<Rightarrow> (code, unit) result" where
  "RolloutPlan_Validate p =
     (if rpStrategy p = '''' then Inl CodeInvalidArgument
      else if length (rpSteps p) < 2 then Inl CodeInvalidArgument
      else case validSteps 0 (rpSteps p) of
             Inl e \<Rightarrow> Inl e
           | Inr _ \<Rightarrow> if stTrafficPercent (last (rpSteps p)) \<noteq> 100 then Inl CodeInvalidArgument else Inr ())"

definition CanaryPlan :: "int \<Rightarrow> int \<Rightarrow> verificationConfig \<Rightarrow> rolloutPlan" where
  "CanaryPlan percent verification v =
     \<lparr>rpStrategy = ''canary'',
      rpSteps = [\<lparr>stTrafficPercent = percent, stDuration = verification\<rparr>, \<lparr>stTrafficPercent = 100, stDuration = 0\<rparr>],
      rpVerification = v\<rparr>"

section \<open>Observing a step\<close>

subsection \<open>Statistics\<close>

definition Client_Stats :: "daemonEnv \<Rightarrow> fault \<Rightarrow> string \<Rightarrow> daemon \<Rightarrow> (code, backendStat list) result \<times> daemon" where
  "Client_Stats env flt app d =
     (case okOrProxyError (Do env flt (controlReq OpStats app) d) of
        (Inl e, d') \<Rightarrow> (Inl e, d')
      | (Inr resp, d') \<Rightarrow> (Inr (rsStats resp), d'))"

text \<open>A host without counters shows as the zero value, with no buckets.\<close>

definition noStat :: backendStat where
  "noStat = \<lparr>bsLabel = '''', bsHost = '''', bsRequests = 0, bsErrors = 0, bsBuckets = []\<rparr>"

record statDelta =
  sdRequests :: int
  sdErrors :: int
  sdBuckets :: "int list"

definition deltaBetween :: "backendStat \<Rightarrow> backendStat \<Rightarrow> statDelta" where
  "deltaBetween start fin =
     (let requests = bsRequests fin - bsRequests start; errors = bsErrors fin - bsErrors start;
          n = length LatencyBucketBounds
      in if requests < 0 then \<lparr>sdRequests = bsRequests fin, sdErrors = bsErrors fin, sdBuckets = []\<rparr>
         else \<lparr>sdRequests = requests, sdErrors = (if errors < 0 then 0 else errors),
               sdBuckets =
                 (if length (bsBuckets fin) = n \<and> length (bsBuckets start) = n then
                    map2 (\<lambda>e s. if e - s < 0 then e else e - s) (bsBuckets fin) (bsBuckets start)
                  else if length (bsBuckets fin) = n \<and> bsBuckets start = [] then bsBuckets fin
                  else [])\<rparr>)"

text \<open>The quantile of a cumulative histogram, interpolated inside its bucket.\<close>

fun quantileLoop :: "rat \<Rightarrow> int \<Rightarrow> rat \<Rightarrow> (int \<times> int) list \<Rightarrow> int" where
  "quantileLoop rank prevBound prevCount [] = last LatencyBucketBounds"
| "quantileLoop rank prevBound prevCount ((bound, c) # rest) =
     (let count = of_int c in
      if count \<ge> rank then
        if count = prevCount then last LatencyBucketBounds
        else prevBound + \<lfloor>(rank - prevCount) / (count - prevCount) * of_int (bound - prevBound)\<rfloor>
      else quantileLoop rank bound count rest)"

definition quantileFromBuckets :: "int list \<Rightarrow> rat \<Rightarrow> int" where
  "quantileFromBuckets cumulative q =
     (if cumulative = [] then 0
      else if last cumulative \<le> 0 then 0
      else quantileLoop (q * of_int (last cumulative)) 0 0 (zip LatencyBucketBounds cumulative))"

definition errorRate :: "int \<Rightarrow> int \<Rightarrow> rat" where
  "errorRate errors requests = (if requests \<le> 0 then 0 else 100 * of_int errors / of_int requests)"

definition evaluateStats ::
    "verificationConfig \<Rightarrow> string \<Rightarrow> string \<Rightarrow> (string \<rightharpoonup> backendStat) option \<Rightarrow> (string \<rightharpoonup> backendStat) option
       \<Rightarrow> (code, unit) result" where
  "evaluateStats cfg canaryHost stableHost start fin =
     (let v = withDefaults cfg in
      case (start, fin) of
        (Some m0, Some m1) \<Rightarrow>
          let stat = (\<lambda>m h. case m h of Some b \<Rightarrow> b | None \<Rightarrow> noStat);
              c = deltaBetween (stat m0 canaryHost) (stat m1 canaryHost);
              s = deltaBetween (stat m0 stableHost) (stat m1 stableHost);
              cRate = errorRate (sdErrors c) (sdRequests c)
          in if sdRequests c \<le> 0 then Inr ()
             else if cRate > vcMaxErrorRate v then Inl CodeCanaryRegression
             else if sdRequests s > 0 then
               let sRate = errorRate (sdErrors s) (sdRequests s);
                   cP95 = quantileFromBuckets (sdBuckets c) (95 / 100);
                   sP95 = quantileFromBuckets (sdBuckets s) (95 / 100)
               in if cRate - sRate > vcMaxErrorDelta v then Inl CodeCanaryRegression
                  else if sP95 > 0 \<and> cP95 > \<lfloor>of_int sP95 * vcMaxP95Factor v\<rfloor> then Inl CodeCanaryRegression
                  else Inr ()
             else Inr ()
      | _ \<Rightarrow> Inr ())"

subsection \<open>The probes of a step\<close>

text \<open>
  What one round of the window sees: whether the wait was cancelled, the clock, the answers of the two
  instances, and whether the process of the candidate is there.
\<close>

record observation =
  obCancelled :: bool
  obNow :: int
  obAlive :: bool
  obCanary :: poll
  obStable :: poll

datatype stepFailure = StepCancelled | CanaryRegression | StableBaselineUnhealthy

definition probeStep :: "tier \<Rightarrow> deployTierConfig option \<Rightarrow> int \<Rightarrow> observation \<Rightarrow> (stepFailure, unit) result" where
  "probeStep t cfg canaryPID ob =
     (if canaryPID > 0 \<and> \<not> obAlive ob then Inl CanaryRegression
      else if \<not> Check t cfg (obCanary ob) then Inl CanaryRegression
      else if \<not> Check t cfg (obStable ob) then Inl StableBaselineUnhealthy
      else Inr ())"

text \<open>The rounds after the first probe, until the deadline; \<open>None\<close> means that the fuel ran out.\<close>

fun windowLoop ::
    "nat \<Rightarrow> tier \<Rightarrow> deployTierConfig option \<Rightarrow> int \<Rightarrow> int \<Rightarrow> (nat \<Rightarrow> observation) \<Rightarrow> nat \<Rightarrow> (stepFailure, unit) result option" where
  "windowLoop 0 t cfg pid deadline obs k = None"
| "windowLoop (Suc fuel) t cfg pid deadline obs k =
     (if \<not> obNow (obs k) < deadline then Some (Inr ())
      else if obCancelled (obs (Suc k)) then Some (Inl StepCancelled)
      else case probeStep t cfg pid (obs (Suc k)) of
             Inl e \<Rightarrow> Some (Inl e)
           | Inr _ \<Rightarrow> windowLoop fuel t cfg pid deadline obs (Suc k))"

definition observeStep ::
    "nat \<Rightarrow> tier \<Rightarrow> deployTierConfig option \<Rightarrow> int \<Rightarrow> int \<Rightarrow> (nat \<Rightarrow> observation) \<Rightarrow> (stepFailure, unit) result option" where
  "observeStep fuel t cfg pid duration obs =
     (case probeStep t cfg pid (obs 0) of
        Inl e \<Rightarrow> Some (Inl e)
      | Inr _ \<Rightarrow>
          if duration > 0 then windowLoop fuel t cfg pid (obNow (obs 0) + duration) obs 0
          else Some (Inr ()))"

definition windowFuel :: "verificationConfig \<Rightarrow> int \<Rightarrow> nat" where
  "windowFuel cfg duration = nat (duration div vcInterval (withDefaults cfg)) + 2"

section \<open>The rollout\<close>

record 'r rollout = "'r blueGreen" +
  rtHasLauncher :: bool
  rtPlan :: rolloutPlan
  rtStatsClient :: bool
  rtCancelled :: "nat \<Rightarrow> bool"
  rtObserve :: "nat \<Rightarrow> nat \<Rightarrow> observation"
  rtTraffic :: "nat \<Rightarrow> (string \<times> int \<times> bool \<times> int) list"

text \<open>What the steps of one rollout know: the candidate, its version, the stable instance and the way back.\<close>

record canaryRun =
  crSlot :: string
  crLaunched :: launched
  crVersion :: int
  crStableSlot :: string
  crStable :: inst
  crTier :: tier
  crOldStamp :: string
  crPre :: modeSnapshot

subsection \<open>Verifying a step\<close>

text \<open>The second component of the result is \<open>statsBroken\<close>.\<close>

definition snapshotStats ::
    "'r rollout \<Rightarrow> deployEnv \<Rightarrow> bool \<Rightarrow> ('r world, (string \<rightharpoonup> backendStat) option \<times> bool) state" where
  "snapshotStats r env broken =
     (if broken \<or> \<not> rtStatsClient r then State_Monad.return (None, True)
      else do {
        x \<leftarrow> callW env OpStats (\<lambda>dv flt. Client_Stats dv flt (bgAppName r));
        State_Monad.return
          (case x of Inl _ \<Rightarrow> (None, True) | Inr st \<Rightarrow> (Some (fold (\<lambda>b m. m(bsHost b \<mapsto> b)) st Map.empty), False))
      })"

text \<open>The window: the proxy serves requests and counts them, the rounds observe.\<close>

definition countRequests :: "string \<Rightarrow> (string \<times> int \<times> bool \<times> int) list \<Rightarrow> daemon \<Rightarrow> daemon" where
  "countRequests app reqs d =
     (case map_of (dmProxies d) app of
        None \<Rightarrow> d
      | Some p \<Rightarrow>
          d\<lparr>dmProxies := AList.update app
              (fold (\<lambda>(host, status, failed, latency). recordBackendRequest host status failed latency) reqs p) (dmProxies d)\<rparr>)"

definition verifyStep ::
    "'r rollout \<Rightarrow> deployEnv \<Rightarrow> canaryRun \<Rightarrow> rolloutStep \<Rightarrow> bool
       \<Rightarrow> ('r world, (stepFailure + code, unit) result \<times> bool) state" where
  "verifyStep r env c st broken = do {
     let cfg = rpVerification (rtPlan r);
     (start, broken1) \<leftarrow> snapshotStats r env broken;
     verdict \<leftarrow> act (\<lambda>n w.
       (observeStep (windowFuel cfg (stDuration st)) (crTier c) (bgHealthCfg r) (lnPID (crLaunched c)) (stDuration st) (rtObserve r n),
        w\<lparr>wDaemon := countRequests (bgAppName r) (rtTraffic r n) (wDaemon w)\<rparr>));
     case verdict of
       None \<Rightarrow> State_Monad.return (Inl (Inl CanaryRegression), broken1)
     | Some (Inl e) \<Rightarrow> State_Monad.return (Inl (Inl e), broken1)
     | Some (Inr _) \<Rightarrow> do {
         (fin, broken2) \<leftarrow> snapshotStats r env broken1;
         State_Monad.return
           (case evaluateStats cfg (hostPort (lnPort (crLaunched c))) (hostPort (inPort (crStable c))) start fin of
              Inl e \<Rightarrow> Inl (Inr e) | Inr _ \<Rightarrow> Inr (), broken2)
       }
   }"

subsection \<open>Moving the traffic\<close>

definition restoreStableRouting :: "'r rollout \<Rightarrow> deployEnv \<Rightarrow> inst \<Rightarrow> ('r world, bool) state" where
  "restoreStableRouting r env old =
     (if \<not> bgProxyClient r then State_Monad.return False
      else if inPort old \<le> 0 then State_Monad.return False
      else do {
        x \<leftarrow> proxySwitch env (bgAppName r) (targetOf (inSlot old) (inPort old)) [];
        State_Monad.return (isOk x)
      })"

definition stepTargets :: "canaryRun \<Rightarrow> int \<Rightarrow> target \<times> target list" where
  "stepTargets c percent =
     (let canary = targetOf (crSlot c) (lnPort (crLaunched c)); base = targetOf (crStableSlot c) (inPort (crStable c)) in
      if percent \<ge> 100 then (canary, [])
      else (base\<lparr>tWeight := 100 - percent\<rparr>, [canary\<lparr>tWeight := percent\<rparr>]))"

text \<open>The hand-off of the public port is the one of blue-green.\<close>

definition shiftTraffic :: "'r rollout \<Rightarrow> deployEnv \<Rightarrow> bool \<Rightarrow> target \<Rightarrow> target list \<Rightarrow> ('r world, bool \<times> bool) state" where
  "shiftTraffic r env enrolled prim backends =
     (if \<not> bgProxyClient r then State_Monad.return (False, enrolled)
      else if \<not> enrolled then do {
        handed \<leftarrow> handOffPublicPort (blueGreen.truncate r);
        case handed of
          Inl e \<Rightarrow> State_Monad.return (False, enrolled)
        | Inr _ \<Rightarrow> do {
            x \<leftarrow> proxyAdd env (bgAppName r) (bgPublicPort r) prim backends;
            State_Monad.return (isOk x, isOk x)
          }
      }
      else do {
        x \<leftarrow> proxySwitch env (bgAppName r) prim backends;
        State_Monad.return (isOk x, enrolled)
      })"

definition rolloutUndo :: "deployEnv \<Rightarrow> modeSnapshot \<Rightarrow> deployState \<Rightarrow> ('r world, deployState) state" where
  "rolloutUndo env pre s =
     (if msMode pre = '''' \<or> msMode pre = ModeBlueGreen then State_Monad.return s
      else storeState env (restoreMode pre s))"

definition setCanary :: "(canaryState \<Rightarrow> canaryState) \<Rightarrow> deployState \<Rightarrow> deployState" where
  "setCanary f s = s\<lparr>dsCanary := map_option f (dsCanary s)\<rparr>"


subsection \<open>The abort and the steps\<close>

text \<open>
  The single exit of a failed rollout once traffic may have moved: the stable instance gets the
  traffic back, then the candidate is retired; it is kept when the way back is barred.
\<close>

definition closeRollout ::
    "deployEnv \<Rightarrow> canaryRun \<Rightarrow> bool \<Rightarrow> code \<Rightarrow> string \<Rightarrow> bool \<Rightarrow> deployState
       \<Rightarrow> ('r world, deployResult \<times> deployState) state" where
  "closeRollout env c switched reason status keep s = do {
     let s1 = (if keep then s else s\<lparr>dsSecretTxnID := crOldStamp c\<rparr>);
     let s2 = setCanary (\<lambda>x. x\<lparr>csStatus := status\<rparr>) s1;
     (x, s3) \<leftarrow> (if keep then storeW env s2 else retireFailedCandidate env (crSlot c) s2);
     case x of
       Inl _ \<Rightarrow> State_Monad.return (DeployFailed reason, s3)
     | Inr _ \<Rightarrow> do {
         u \<leftarrow> (if keep then State_Monad.return () else killW env (lnHandle (crLaunched c)));
         s4 \<leftarrow> (if \<not> switched then rolloutUndo env (crPre c) s3 else State_Monad.return s3);
         State_Monad.return (DeployFailed reason, s4)
       }
   }"

definition abortRollout ::
    "'r rollout \<Rightarrow> deployEnv \<Rightarrow> canaryRun \<Rightarrow> bool \<Rightarrow> code \<Rightarrow> string \<Rightarrow> bool \<Rightarrow> deployState
       \<Rightarrow> ('r world, deployResult \<times> deployState) state" where
  "abortRollout r env c switched reason status keepCanary s = do {
     restoredOK \<leftarrow> (if switched then restoreStableRouting r env (crStable c) else State_Monad.return True);
     closeRollout env c switched reason status (keepCanary \<or> \<not> restoredOK) s
   }"

text \<open>The way back after a promotion that could not be stored or committed.\<close>

definition retirePromoted ::
    "deployEnv \<Rightarrow> canaryRun \<Rightarrow> code \<Rightarrow> code \<Rightarrow> deployState \<Rightarrow> ('r world, deployResult \<times> deployState) state" where
  "retirePromoted env c e retireErr s = do {
     (x, s1) \<leftarrow> retireFailedCandidate env (crSlot c)
                  ((setCanary (\<lambda>x. x\<lparr>csStatus := CanaryFailed\<rparr>) s)\<lparr>dsSecretTxnID := crOldStamp c\<rparr>);
     case x of
       Inl _ \<Rightarrow> State_Monad.return (DeployFailed retireErr, s1)
     | Inr _ \<Rightarrow> do { killW env (lnHandle (crLaunched c)); State_Monad.return (DeployFailed e, s1) }
   }"

definition drainStable ::
    "deployEnv \<Rightarrow> string \<Rightarrow> deployState \<Rightarrow> ('r world, deployResult \<times> deployState) state" where
  "drainStable env oldSlot s = do {
     s1 \<leftarrow> (case map_of (dsSlots s) oldSlot of
              None \<Rightarrow> State_Monad.return s
            | Some old \<Rightarrow>
                if \<not> hasProcess old then State_Monad.return s
                else do {
                  report \<leftarrow> stopW env old;
                  State_Monad.return (setSlot oldSlot (stoppedInst old) s)
                });
     (p, s2) \<leftarrow> storeW env s1;
     State_Monad.return (case p of Inl _ \<Rightarrow> DeployFailed CodeFilesystem | Inr _ \<Rightarrow> Deployed, s2)
   }"

definition promoteCanary ::
    "'r rollout \<Rightarrow> deployEnv \<Rightarrow> canaryRun \<Rightarrow> deployState \<Rightarrow> ('r world, deployResult \<times> deployState) state" where
  "promoteCanary r env c s = do {
     let oldSlot = dsActiveSlot s;
     let oldVersion = dsActiveVersion s;
     let s1 = Stamp (bgSecrets r) []
                (setCanary (\<lambda>x. x\<lparr>csStatus := CanaryPromoted\<rparr>) (s\<lparr>dsActiveSlot := crSlot c, dsActiveVersion := crVersion c\<rparr>));
     (p, s2) \<leftarrow> storeW env s1;
     case p of
       Inl _ \<Rightarrow> do {
         restoredOK \<leftarrow> restoreStableRouting r env (crStable c);
         if restoredOK then
           retirePromoted env c CodeFilesystem CodeFilesystem (s2\<lparr>dsActiveSlot := oldSlot, dsActiveVersion := oldVersion\<rparr>)
         else do {
           (q, s3) \<leftarrow> storeW env s2;
           State_Monad.return (DeployFailed CodeFilesystem, s3)
         }
       }
     | Inr _ \<Rightarrow> do {
         promoted \<leftarrow> (if crVersion c > 0 then promoteW env (bgAppName r) (crVersion c) else State_Monad.return (Inr ()));
         case promoted of
           Inr _ \<Rightarrow> drainStable env oldSlot s2
         | Inl e \<Rightarrow> do {
             restoredOK \<leftarrow> (case map_of (dsSlots s2) oldSlot of
                          None \<Rightarrow> State_Monad.return True
                        | Some old \<Rightarrow> if inPort old > 0 then restoreStableRouting r env (crStable c) else State_Monad.return True);
             if restoredOK then
               retirePromoted env c e CodeFilesystem (s2\<lparr>dsActiveSlot := oldSlot, dsActiveVersion := oldVersion\<rparr>)
             else do {
               (q, s3) \<leftarrow> storeW env s2;
               State_Monad.return (DeployFailed CodeProxy, s3)
             }
           }
       }
   }"

definition verifyError :: "stepFailure + code \<Rightarrow> code \<times> string \<times> bool" where
  "verifyError f =
     (case f of
        Inl StepCancelled \<Rightarrow> (CodeDeployFailed, CanaryAborted, False)
      | Inl CanaryRegression \<Rightarrow> (CodeCanaryRegression, CanaryFailed, False)
      | Inl StableBaselineUnhealthy \<Rightarrow> (CodeHealthCheckFailed, CanaryFailed, True)
      | Inr e \<Rightarrow> (e, CanaryFailed, False))"

fun walkSteps ::
    "'r rollout \<Rightarrow> deployEnv \<Rightarrow> canaryRun \<Rightarrow> nat \<Rightarrow> bool \<Rightarrow> bool \<Rightarrow> bool \<Rightarrow> inst list \<Rightarrow> rolloutStep list \<Rightarrow> deployState
       \<Rightarrow> ('r world, deployResult \<times> deployState) state" where
  "walkSteps r env c i switched enrolled broken legacy [] s = promoteCanary r env c s"
| "walkSteps r env c i switched enrolled broken legacy (st # sts) s = do {
     n \<leftarrow> look wClock;
     if rtCancelled r n then abortRollout r env c switched CodeDeployFailed CanaryAborted False s
     else do {
       (moved, enrolled') \<leftarrow> (case stepTargets c (stTrafficPercent st) of (prim, bs) \<Rightarrow> shiftTraffic r env enrolled prim bs);
       if \<not> moved then abortRollout r env c switched CodeProxy CanaryFailed False s
       else do {
         (p, s1) \<leftarrow> storeW env (Stamp (bgSecrets r) []
           (setCanary (\<lambda>x. x\<lparr>csStep := i, csTrafficPercent := stTrafficPercent st\<rparr>) s));
         case p of
           Inl _ \<Rightarrow> abortRollout r env c True CodeFilesystem CanaryFailed False s1
         | Inr _ \<Rightarrow> do {
             (v, broken') \<leftarrow> verifyStep r env c st broken;
             case v of
               Inl f \<Rightarrow> (case verifyError f of (e, status, keep) \<Rightarrow> abortRollout r env c True e status keep s1)
             | Inr _ \<Rightarrow> do {
                 drained \<leftarrow> (if i = 0 then stopRetiredInstances env legacy else State_Monad.return (Inr ()));
                 case drained of
                   Inl e \<Rightarrow> State_Monad.return (DeployFailed e, s1)
                 | Inr _ \<Rightarrow> walkSteps r env c (Suc i) True enrolled' broken' legacy sts s1
               }
           }
       }
     }
   }"

subsection \<open>The baseline\<close>

definition firstLiveReplica :: "(string \<Rightarrow> string option) \<Rightarrow> os \<Rightarrow> deployState \<Rightarrow> inst option" where
  "firstLiveReplica lk sys s = find (InstanceAlive lk sys) (map snd (inOrder (dsReplicas s)))"

definition stableBaseline :: "(string \<Rightarrow> string option) \<Rightarrow> os \<Rightarrow> deployState \<Rightarrow> (code, inst) result" where
  "stableBaseline lk sys s =
     (case (if dsMode s = ModeRolling then firstLiveReplica lk sys s else map_of (dsSlots s) (dsActiveSlot s)) of
        None \<Rightarrow> Inl CodeInvalidArgument
      | Some i \<Rightarrow> if inPort i \<le> 0 \<or> \<not> InstanceAlive lk sys i then Inl CodeInvalidArgument else Inr i)"

definition withoutInstance :: "inst list \<Rightarrow> inst \<Rightarrow> inst list" where
  "withoutInstance is keep =
     filter (\<lambda>i. \<not> ((inContainerID keep \<noteq> '''' \<and> inContainerID i = inContainerID keep) \<or>
                     (inContainerID keep = '''' \<and> inContainerID i = '''' \<and> inPID i = inPID keep))) is"

text \<open>The consolidation of a rolling fleet: its first live replica becomes the blue slot.\<close>

definition adoptReplica :: "inst \<Rightarrow> deployState \<Rightarrow> deployState" where
  "adoptReplica adopted s =
     (setSlot SlotGreen (emptyInst SlotGreen) (setSlot SlotBlue adopted s))\<lparr>dsActiveSlot := SlotBlue\<rparr>"

definition consolidate ::
    "deployEnv \<Rightarrow> modeSnapshot \<Rightarrow> inst \<Rightarrow> inst list \<Rightarrow> deployState \<Rightarrow> ('r world, inst \<times> inst list \<times> deployState) state" where
  "consolidate env pre old legacy s =
     (if msMode pre = ModeRolling then
        let adopted = old\<lparr>inSlot := SlotBlue\<rparr> in do {
          s' \<leftarrow> storeState env (adoptReplica adopted s);
          State_Monad.return (adopted, withoutInstance legacy adopted, s')
        }
      else State_Monad.return (old, legacy, s))"

text \<open>A rollout that crashed left its record running, and maybe a weighted route.\<close>

definition recoverInterrupted :: "'r rollout \<Rightarrow> deployEnv \<Rightarrow> inst \<Rightarrow> deployState \<Rightarrow> ('r world, deployState) state" where
  "recoverInterrupted r env old s =
     (if (case dsCanary s of None \<Rightarrow> False | Some c \<Rightarrow> csStatus c = CanaryRunning) then do {
        ok \<leftarrow> restoreStableRouting r env old;
        storeState env (setCanary (\<lambda>c. c\<lparr>csStatus := CanaryAborted\<rparr>) s)
      }
      else State_Monad.return s)"

subsection \<open>The candidate\<close>

definition rolloutFail :: "deployEnv \<Rightarrow> modeSnapshot \<Rightarrow> code \<Rightarrow> deployState \<Rightarrow> ('r world, deployResult \<times> deployState) state" where
  "rolloutFail env pre e s = do { s' \<leftarrow> rolloutUndo env pre s; State_Monad.return (DeployFailed e, s') }"

definition failCanary ::
    "deployEnv \<Rightarrow> modeSnapshot \<Rightarrow> string \<Rightarrow> handle \<Rightarrow> code \<Rightarrow> deployState \<Rightarrow> ('r world, deployResult \<times> deployState) state" where
  "failCanary env pre slot h e s = do {
     killW env h;
     s' \<leftarrow> storeState env (markFailed True slot s);
     rolloutFail env pre e s'
   }"

definition markInFlight :: "'r rollout \<Rightarrow> string \<Rightarrow> int \<Rightarrow> deployState \<Rightarrow> deployState" where
  "markInFlight r slot ver s =
     s\<lparr>dsCanary := Some \<lparr>csVersion = ver, csStrategy = rpStrategy (rtPlan r), csSlot = slot, csStep = 0,
                         csSteps = length (rpSteps (rtPlan r)), csTrafficPercent = 0, csStatus = CanaryRunning\<rparr>\<rparr>"

text \<open>Steps 6 to 9: launch the candidate, gate it on its health, mark the rollout and walk the steps.\<close>

definition gateCanary ::
    "'r rollout \<Rightarrow> deployEnv \<Rightarrow> modeSnapshot \<Rightarrow> int \<Rightarrow> inst \<Rightarrow> inst list \<Rightarrow> bool \<Rightarrow> string \<Rightarrow> launched \<Rightarrow> deployState
       \<Rightarrow> ('r world, deployResult \<times> deployState) state" where
  "gateCanary r env pre ver old legacy enrolled slot l s1 = do {
     (healthy, t) \<leftarrow> awaitHealthy (blueGreen.truncate r) l;
     if \<not> healthy then failCanary env pre slot (lnHandle l) CodeHealthCheckFailed s1
     else do {
       n' \<leftarrow> look wClock;
       (q, s2) \<leftarrow> storeW env (markInFlight r slot ver (markHealthy slot t (evNow env n') s1));
       case q of
         Inl _ \<Rightarrow> failCanary env pre slot (lnHandle l) CodeFilesystem s2
       | Inr _ \<Rightarrow>
           walkSteps r env
             \<lparr>crSlot = slot, crLaunched = l, crVersion = ver, crStableSlot = dsActiveSlot s2, crStable = old,
              crTier = t, crOldStamp = dsSecretTxnID s2, crPre = pre\<rparr>
             0 False enrolled False legacy (rpSteps (rtPlan r)) s2
     }
   }"

definition runCanary ::
    "'r rollout \<Rightarrow> deployEnv \<Rightarrow> modeSnapshot \<Rightarrow> artifact \<Rightarrow> inst \<Rightarrow> inst list \<Rightarrow> bool \<Rightarrow> string \<Rightarrow> deployState
       \<Rightarrow> ('r world, deployResult \<times> deployState) state" where
  "runCanary r env pre a old legacy enrolled slot s = do {
     started \<leftarrow> act (\<lambda>n w. case bgLauncher r n (arBinary a) (arOverlay a) (wOs w) of (x, sys) \<Rightarrow> (x, w\<lparr>wOs := sys\<rparr>));
     case started of
       Inl e \<Rightarrow> rolloutFail env pre CodeInstanceStartFailed s
     | Inr l \<Rightarrow> do {
         n \<leftarrow> look wClock;
         (p, s1) \<leftarrow> storeW env (setSlot slot
           (candidateOf (blueGreen.truncate r) slot (arBinary a) (arEnv a) (arVersion a) (arOverlay a) (evNow env n) l) s);
         case p of
           Inl _ \<Rightarrow> do { killW env (lnHandle l); rolloutFail env pre CodeFilesystem s1 }
         | Inr _ \<Rightarrow> gateCanary r env pre (arVersion a) old legacy enrolled slot l s1
       }
   }"

text \<open>Steps 4 and 5: recover leftovers, look at the proxy, build.\<close>

definition prepareCanary ::
    "'r rollout \<Rightarrow> deployEnv \<Rightarrow> modeSnapshot \<Rightarrow> inst \<Rightarrow> inst list \<Rightarrow> bool \<Rightarrow> string \<Rightarrow> deployState
       \<Rightarrow> ('r world, deployResult \<times> deployState) state" where
  "prepareCanary r env pre old legacy enrolled slot s = do {
     built \<leftarrow> act (\<lambda>n w. case bgBuild r (wVersions w) of (y, v) \<Rightarrow> (y, w\<lparr>wVersions := v\<rparr>));
     case built of
       Inl e \<Rightarrow> rolloutFail env pre CodeBuildFailed s
     | Inr (binaryPath, envPath, ver) \<Rightarrow>
         (case bgOverlay r envPath of
            Inl e \<Rightarrow> rolloutFail env pre e s
          | Inr overlay \<Rightarrow>
              runCanary r env pre \<lparr>arBinary = binaryPath, arEnv = envPath, arOverlay = overlay, arVersion = ver\<rparr>
                old legacy enrolled slot s)
   }"

definition enrolCanary ::
    "'r rollout \<Rightarrow> deployEnv \<Rightarrow> modeSnapshot \<Rightarrow> inst \<Rightarrow> inst list \<Rightarrow> (code, unit) result \<Rightarrow> deployState
       \<Rightarrow> ('r world, deployResult \<times> deployState) state" where
  "enrolCanary r env pre old legacy x s =
     (case x of
        Inl e \<Rightarrow> State_Monad.return (DeployFailed e, s)
      | Inr _ \<Rightarrow> do {
          enrolled \<leftarrow> (if bgProxyClient r then proxyEnrolled env (bgAppName r) else State_Monad.return False);
          let slot = InactiveSlot s;
          prepareCanary r env pre old legacy enrolled slot
            (if map_of (dsSlots s) slot = None then setSlot slot (emptyInst slot) s else s)
        })"

definition buildCanary ::
    "'r rollout \<Rightarrow> deployEnv \<Rightarrow> modeSnapshot \<Rightarrow> inst \<Rightarrow> inst list \<Rightarrow> deployState \<Rightarrow> ('r world, deployResult \<times> deployState) state" where
  "buildCanary r env pre old legacy s0 = do {
     s1 \<leftarrow> recoverInterrupted r env old s0;
     sys \<leftarrow> look wOs;
     (x, s2) \<leftarrow> recoverStaleSlots env (ReapStaleInstances sys s1);
     enrolCanary r env pre old legacy x s2
   }"

definition rolloutBody :: "'r rollout \<Rightarrow> deployEnv \<Rightarrow> deployState \<Rightarrow> ('r world, deployResult \<times> deployState) state" where
  "rolloutBody r env s = do {
     let pre = captureMode s;
     sys \<leftarrow> look wOs;
     case stableBaseline (evLinks env) sys s of
       Inl e \<Rightarrow> State_Monad.return (DeployFailed e, s)
     | Inr old \<Rightarrow> do {
         (m, s1) \<leftarrow> MigrateTo env ModeBlueGreen s;
         case m of
           Inl e \<Rightarrow> State_Monad.return (DeployFailed CodeFilesystem, s1)
         | Inr legacy \<Rightarrow> do {
             let s2 = (if bgSecrets r \<noteq> None then s1\<lparr>dsRetiring := dsRetiring s1 @ legacy\<rparr> else s1);
             (base, legacy', s3) \<leftarrow> consolidate env pre old legacy s2;
             buildCanary r env pre base legacy' s3
           }
       }
   }"

definition Rollout_Deploy :: "'r rollout \<Rightarrow> deployEnv \<Rightarrow> ('r world, deployResult) state" where
  "Rollout_Deploy r env =
     (case RolloutPlan_Validate (rtPlan r) of
        Inl e \<Rightarrow> State_Monad.return (DeployFailed e)
      | Inr _ \<Rightarrow>
          if \<not> bgHasSource r then State_Monad.return (DeployFailed CodeInvalidArgument)
          else if \<not> rtHasLauncher r then State_Monad.return (DeployFailed CodeInvalidArgument)
          else if \<not> bgProxyClient r then State_Monad.return (DeployFailed CodeProxy)
          else do {
            loaded \<leftarrow> look (\<lambda>w. LoadState (bgAppName r) (wFile w));
            case loaded of
              Inl NotExist \<Rightarrow> State_Monad.return (DeployFailed CodeInvalidArgument)
            | Inl (LoadFailed e) \<Rightarrow> State_Monad.return (DeployFailed CodeConfiguration)
            | Inr st \<Rightarrow>
                if dsMode st \<noteq> ModeBlueGreen \<and> dsMode st \<noteq> ModeRolling then State_Monad.return (DeployFailed CodeConfiguration)
                else do {
                  (res, s) \<leftarrow> rolloutBody r env (withRuntime (blueGreen.truncate r) st);
                  State_Monad.return res
                }
          })"

section \<open>No downtime during a rollout\<close>

subsection \<open>Steps\<close>

definition switchLost :: "deployEnv \<Rightarrow> bool" where
  "switchLost env \<longleftrightarrow> (\<exists>n. evFault env OpSwitch n \<noteq> NoFault)"

lemma proxySwitch_sure:
  "triple (onRoutes app ts ups) (proxySwitch env app prim bs) (\<lambda>r _. isOk r \<or> switchLost env)"
  unfolding proxySwitch_def callW_def
proof (rule triple_act, goal_cases)
  case (1 w a w')
  obtain r d where call: "Client_Switch (daemonEnvAt env (wClock w) w) (evFault env OpSwitch (wClock w)) (app) prim bs (wDaemon w) = (r, d)"
    by fastforce
  have run: "dmRunning (wDaemon w)" "routeOf app (wDaemon w) = Some ts" using 1(1) by (auto simp: onRoutes_iff routes_def)
  have "isOk r" if "evFault env OpSwitch (wClock w) = NoFault"
  proof -
    obtain r' d2 where sw: "SwitchApp (daemonEnvAt env (wClock w) w) app prim bs (wDaemon w) = (r', d2)" by fastforce
    from routeOf_SwitchApp [OF run(2) sw] have "r' = Inr ()" by simp
    with call that sw run(1) show ?thesis
      by (auto simp: Client_Switch_def okOrProxyError_def Do_def handleConn_def controlReq_def respond_def okResponse_def)
  qed
  then show ?case using 1(2) call by (auto simp: switchLost_def)
qed

lemma switch_sure_step:
  assumes "\<forall>t\<in>set (p # bs). \<exists>h. (h, tHost t) \<in> ups" and "\<And>n. evFault env OpSwitch n \<noteq> LostReply"
    and "\<And>r. isOk r \<Longrightarrow> triple (onRoutes app (p # addlTargets {tHost p} bs) ups) (f r) Q"
    and "\<And>r. \<not> isOk r \<Longrightarrow> switchLost env \<Longrightarrow> triple (onRoutes app ts ups) (f r) Q"
  shows "triple (onRoutes app ts ups) (State_Monad.bind (proxySwitch env app p bs) f) Q"
proof -
  have "triple (onRoutes app ts ups) (proxySwitch env app p bs)
      (\<lambda>r w. onRoutes app (if isOk r then p # addlTargets {tHost p} bs else ts) ups w \<and> (isOk r \<or> switchLost env))"
    by (rule triple_pre [OF triple_conj [OF proxySwitch_routes [OF assms(1,2)] proxySwitch_sure]]) simp
  then show ?thesis
    by (rule triple_bind, intro triple_fact) (use assms(3,4) in auto)
qed

lemma recordRequest_state [simp]: "pxState (recordBackendRequest h st f l p) = pxState p"
  by (simp add: recordBackendRequest_def Let_def)

lemma recordRequests_state:
  "pxState (fold (\<lambda>(host, st, failed, latency). recordBackendRequest host st failed latency) reqs p) = pxState p"
  by (induction reqs arbitrary: p) auto

lemma countRequests_route [simp]:
  "routeOf app (countRequests app' reqs d) = routeOf app d" "dmRunning (countRequests app' reqs d) = dmRunning d"
  by (auto simp: countRequests_def routeOf_def AList.update_conv' recordRequests_state split: option.split)

lemma verifyStep_routes: "triple (onRoutes app ts ups) (verifyStep r env c st broken) (\<lambda>_. onRoutes app ts ups)"
proof -
  let ?on = "onRoutes app ts ups :: 'a world \<Rightarrow> bool"
  have stats: "triple ?on (callW env OpStats (\<lambda>dv flt. Client_Stats dv flt (bgAppName r))) (\<lambda>_. ?on)"
    unfolding callW_def
    by (rule act_frame_route)
      (auto simp: Client_Stats_def okOrProxyError_def Do_def handleConn_def controlReq_def split: prod.splits sum.splits if_splits fault.splits)
  have snap: "triple ?on (snapshotStats r env b) (\<lambda>_. ?on)" for b
    unfolding snapshotStats_def
    by (intro triple_if triple_return triple_bind [OF stats])
  have window: "triple ?on (act (\<lambda>n w. (x n, w\<lparr>wDaemon := countRequests (bgAppName r) (rtTraffic r n) (wDaemon w)\<rparr>))) (\<lambda>_. ?on)"
    for x :: "nat \<Rightarrow> (stepFailure, unit) result option"
    by (rule triple_post [OF act_routes [where ts' = "\<lambda>_. ts" and ups' = "\<lambda>_. ups" and Q = "\<lambda>_. True"]])
      (auto simp: routes_def)
  show ?thesis
    unfolding verifyStep_def Let_def
    by (rule triple_bind [OF snap], rule triple_pair, rule triple_bind [OF window])
      (intro triple_option triple_sum triple_return triple_bind [OF snap] triple_pair; assumption)
qed

subsection \<open>Where a rollout may end\<close>

definition onStable :: "string \<Rightarrow> inst \<Rightarrow> 'r world \<Rightarrow> bool" where
  "onStable app old w \<longleftrightarrow> (\<exists>l. onRoute app (targetOf l (inPort old)) {(handleOf old, hostPort (inPort old))} w)"

definition rolloutEnd ::
    "string \<Rightarrow> string \<Rightarrow> inst \<Rightarrow> bool \<Rightarrow> deployResult \<times> deployState \<Rightarrow> 'r world \<Rightarrow> bool" where
  "rolloutEnd app slot old lost out w \<longleftrightarrow>
     (case out of (res, s) \<Rightarrow>
        if res = Deployed then
          \<exists>h i. onRoute app (targetOf slot (inPort i)) {(h, hostPort (inPort i))} w \<and> wFile w = DeployFile s \<and>
                dsActiveSlot s = slot \<and> map_of (dsSlots s) slot = Some i \<and> inStatus i = ''running'' \<and>
                (\<exists>c. dsCanary s = Some c \<and> csStatus c = CanaryPromoted)
        else onStable app old w \<or> (\<exists>h port. onRoute app (targetOf slot port) {(h, hostPort port)} w) \<or>
             (lost \<and> servedOn app w))"

definition bothUp :: "inst \<Rightarrow> launched \<Rightarrow> (handle \<times> string) set" where
  "bothUp old l = {(handleOf old, hostPort (inPort old)), (lnHandle l, hostPort (lnPort l))}"

lemma bothUp_stable:
  "onRoute app (targetOf lb (inPort old)) (bothUp old l) w \<Longrightarrow> onRoute app (targetOf lb (inPort old)) {(handleOf old, hostPort (inPort old))} w"
  by (rule onRoutes_sub) (auto simp: bothUp_def)

lemma bothUp_canary:
  "onRoute app (targetOf slot (lnPort l)) (bothUp old l) w \<Longrightarrow> onRoute app (targetOf slot (lnPort l)) {(lnHandle l, hostPort (lnPort l))} w"
  by (rule onRoutes_sub) (auto simp: bothUp_def)

lemma end_stable1:
  "e \<noteq> Deployed \<Longrightarrow> triple (onRoute app (targetOf lb (inPort old)) {(handleOf old, hostPort (inPort old))})
     (State_Monad.return (e, s)) (rolloutEnd app slot old lost)"
  by (rule triple_return) (auto simp: rolloutEnd_def onStable_def)

lemma end_stable:
  "e \<noteq> Deployed \<Longrightarrow> triple (onRoute app (targetOf lb (inPort old)) (bothUp old l))
     (State_Monad.return (e, s)) (rolloutEnd app slot old lost)"
  by (rule triple_pre [OF end_stable1 bothUp_stable])

lemma end_canary:
  "e \<noteq> Deployed \<Longrightarrow> triple (onRoute app (targetOf slot (lnPort l)) (bothUp old l))
     (State_Monad.return (e, s)) (rolloutEnd app slot old lost)"
  by (rule triple_return) (auto simp: rolloutEnd_def dest!: bothUp_canary)

lemma end_lost:
  "e \<noteq> Deployed \<Longrightarrow> lost \<Longrightarrow> triple (onRoutes app ts ups) (State_Monad.return (e, s)) (rolloutEnd app slot old lost)"
  by (rule triple_return) (auto simp: rolloutEnd_def intro: servedOnI)

subsection \<open>The way back\<close>

lemma restore_step:
  assumes "bgProxyClient r" and "inPort old > 0" and "\<And>n. evFault env OpSwitch n \<noteq> LostReply"
    and "triple (onRoute (bgAppName r) (targetOf (inSlot old) (inPort old)) (bothUp old l)) (f True) Q"
    and "switchLost env \<Longrightarrow> triple (onRoutes (bgAppName r) ts (bothUp old l)) (f False) Q"
  shows "triple (onRoutes (bgAppName r) ts (bothUp old l)) (State_Monad.bind (restoreStableRouting r env old) f) Q"
proof -
  have "restoreStableRouting r env old =
      State_Monad.bind (proxySwitch env (bgAppName r) (targetOf (inSlot old) (inPort old)) []) (\<lambda>x. State_Monad.return (isOk x))"
    using assms(1,2) by (simp add: restoreStableRouting_def)
  then have eq: "State_Monad.bind (restoreStableRouting r env old) f =
      State_Monad.bind (proxySwitch env (bgAppName r) (targetOf (inSlot old) (inPort old)) []) (\<lambda>x. f (isOk x))"
    by simp
  show ?thesis
    unfolding eq by (rule switch_sure_step) (use assms(3,4,5) in \<open>auto simp: bothUp_def\<close>)
qed

lemma retire_step:
  assumes "\<And>x s'. triple (onRoute app R ups) (f (x, s')) Q"
  shows "triple (onRoute app R ups) (State_Monad.bind (retireFailedCandidate env slot s) f) Q"
  by (rule triple_bind [OF retireFailedCandidate_route]) (use assms in \<open>auto split: prod.split\<close>)

lemma killCanary_stable:
  assumes "lnHandle l \<noteq> handleOf old" and "e \<noteq> Deployed"
  shows "triple (onRoute app (targetOf lb (inPort old)) (bothUp old l))
     (State_Monad.bind (killW env (lnHandle l)) (\<lambda>_. State_Monad.return (e, s))) (rolloutEnd app slot old lost)"
proof (rule triple_pre)
  show "triple (onRoute app (targetOf lb (inPort old)) {(handleOf old, hostPort (inPort old))})
     (State_Monad.bind (killW env (lnHandle l)) (\<lambda>_. State_Monad.return (e, s))) (rolloutEnd app slot old lost)"
    by (rule killW_step) (use assms in \<open>auto intro: end_stable1\<close>)
qed (rule bothUp_stable)

definition canaryOf :: "canaryRun \<Rightarrow> inst \<Rightarrow> launched \<Rightarrow> string \<Rightarrow> bool" where
  "canaryOf c old l slot \<longleftrightarrow> crStable c = old \<and> crLaunched c = l \<and> crSlot c = slot \<and> inPort old > 0 \<and>
     lnHandle l \<noteq> handleOf old \<and> msMode (crPre c) = ModeBlueGreen"

lemma rolloutUndo_none: "msMode pre = ModeBlueGreen \<Longrightarrow> rolloutUndo env pre s = State_Monad.return s"
  by (simp add: rolloutUndo_def)

lemma abort_end:
  assumes c: "canaryOf c old l slot" and px: "bgProxyClient r" and flt: "\<And>n. evFault env OpSwitch n \<noteq> LostReply"
    and un: "\<not> switched \<Longrightarrow> ts = [targetOf lb (inPort old)]"
  shows "triple (onRoutes (bgAppName r) ts (bothUp old l)) (abortRollout r env c switched e st keep s)
           (rolloutEnd (bgAppName r) slot old (switchLost env))"
proof -
  let ?app = "bgAppName r" and ?Q = "rolloutEnd (bgAppName r) slot old (switchLost env)"
  have cs: "crStable c = old" "crLaunched c = l" "crSlot c = slot" "inPort old > 0" "lnHandle l \<noteq> handleOf old"
    "msMode (crPre c) = ModeBlueGreen"
    using c by (auto simp: canaryOf_def)
  have close: "triple (onRoute ?app (targetOf lb' (inPort old)) (bothUp old l)) (closeRollout env c switched e st k s) ?Q" for lb' k
  proof (cases k)
    case True
    then show ?thesis
      by (simp add: closeRollout_def cs rolloutUndo_none cong: if_cong sum.case_cong)
        (rule storeW_step, auto intro!: end_stable triple_sum)
  next
    case False
    then show ?thesis
      by (simp add: closeRollout_def cs rolloutUndo_none cong: if_cong sum.case_cong)
        (rule retire_step, auto intro!: triple_sum end_stable killCanary_stable cs)
  qed
  have stuck: "triple (onRoutes ?app ts (bothUp old l)) (closeRollout env c switched e st True s) ?Q" if "switchLost env"
    by (simp add: closeRollout_def cs rolloutUndo_none cong: if_cong sum.case_cong)
      (rule storeW_step, use that in \<open>auto intro!: triple_sum end_lost\<close>)
  show ?thesis
  proof (cases switched)
    case True
    have "triple (onRoutes ?app ts (bothUp old l)) (State_Monad.bind (restoreStableRouting r env old)
        (\<lambda>ok. closeRollout env c switched e st (keep \<or> \<not> ok) s)) ?Q"
      by (rule restore_step [OF px cs(4) flt]) (use close stuck in simp_all)
    then show ?thesis using True by (simp add: abortRollout_def cs)
  next
    case False
    then show ?thesis using close [of lb keep] un by (simp add: abortRollout_def)
  qed
qed

lemma retirePromoted_end:
  assumes c: "canaryOf c old l slot"
  shows "triple (onRoute app (targetOf lb (inPort old)) (bothUp old l)) (retirePromoted env c e e' s) (rolloutEnd app slot old lost)"
  using c unfolding retirePromoted_def canaryOf_def
  by (intro retire_step, simp) (auto intro!: triple_sum end_stable killCanary_stable)

subsection \<open>Promotion\<close>

lemma Stamp_fields [simp]:
  "dsSlots (Stamp txn is s) = dsSlots s" "dsActiveSlot (Stamp txn is s) = dsActiveSlot s" "dsCanary (Stamp txn is s) = dsCanary s"
  "\<not> dsSecretPreparing (Stamp txn is s)"
  by (auto simp: Stamp_def Let_def split: option.split)

lemma setCanary_fields [simp]:
  "dsSlots (setCanary f s) = dsSlots s" "dsActiveSlot (setCanary f s) = dsActiveSlot s"
  "dsCanary (setCanary f s) = map_option f (dsCanary s)"
  by (simp_all add: setCanary_def)

definition ready :: "string \<Rightarrow> string \<Rightarrow> inst \<Rightarrow> launched \<Rightarrow> deployState \<Rightarrow> bool" where
  "ready slot active old l s \<longleftrightarrow> bothSlots slot active old (lnPort l) s \<and> dsActiveSlot s = active \<and> dsCanary s \<noteq> None"

lemma drainStable_end:
  assumes s: "bothSlots slot active old (lnPort l) s" "dsActiveSlot s = slot" "\<not> dsSecretPreparing s"
    and prom: "dsCanary s = Some x" "csStatus x = CanaryPromoted" and new: "lnHandle l \<noteq> handleOf old"
  shows "triple (onRoute app (targetOf slot (lnPort l)) (bothUp old l)) (drainStable env active s) (rolloutEnd app slot old lost)"
proof -
  let ?on = "onRoute app (targetOf slot (lnPort l)) {(lnHandle l, hostPort (lnPort l))} :: 'a world \<Rightarrow> bool"
  let ?Q = "rolloutEnd app slot old lost :: deployResult \<times> deployState \<Rightarrow> 'a world \<Rightarrow> bool"
  obtain i where i: "map_of (dsSlots s) slot = Some i" "inPort i = lnPort l" "inStatus i = ''running''"
    and active: "map_of (dsSlots s) active = Some old" "slot \<noteq> active" using s(1) by (auto simp: bothSlots_def)
  have fin: "triple ?on (State_Monad.bind (storeW env s') (\<lambda>(p, s2). State_Monad.return
        (case p of Inl _ \<Rightarrow> DeployFailed CodeFilesystem | Inr _ \<Rightarrow> Deployed, s2))) ?Q"
    if "dsActiveSlot s' = slot" "\<not> dsSecretPreparing s'" "map_of (dsSlots s') slot = Some i" "dsCanary s' = Some x" for s'
  proof (rule triple_bind [OF storeW_route], clarify)
    fix p :: "(code, unit) result" and s2
    show "triple (\<lambda>w. ?on w \<and> sameRecord s' s2 \<and> (isOk p \<and> \<not> dsSecretPreparing s' \<longrightarrow> wFile w = DeployFile s2))
       (State_Monad.return (case p of Inl _ \<Rightarrow> DeployFailed CodeFilesystem | Inr _ \<Rightarrow> Deployed, s2)) ?Q"
    proof (rule triple_return)
      fix w :: "'a world"
      assume w: "?on w \<and> sameRecord s' s2 \<and> (isOk p \<and> \<not> dsSecretPreparing s' \<longrightarrow> wFile w = DeployFile s2)"
      show "?Q (case p of Inl _ \<Rightarrow> DeployFailed CodeFilesystem | Inr _ \<Rightarrow> Deployed, s2) w"
      proof (cases p)
        case Inl
        with w show ?thesis by (auto simp: rolloutEnd_def)
      next
        case (Inr u)
        with w that have "wFile w = DeployFile s2" "dsActiveSlot s2 = slot" "map_of (dsSlots s2) slot = Some i" "dsCanary s2 = Some x"
          by (auto simp: sameRecord_def)
        moreover have "onRoute app (targetOf slot (inPort i)) {(lnHandle l, hostPort (inPort i))} w" using w i(2) by simp
        ultimately show ?thesis using i(3) prom(2) Inr unfolding rolloutEnd_def by auto
      qed
    qed
  qed
  show ?thesis
  proof (rule triple_pre [OF _ bothUp_canary], cases "hasProcess old")
    case False
    with fin [of s] s(2,3) i(1) prom(1) show "triple ?on (drainStable env active s) ?Q"
      by (simp add: drainStable_def active(1))
  next
    case True
    have "triple ?on (State_Monad.bind (stopW env old) (\<lambda>_. State_Monad.bind (storeW env (setSlot active (stoppedInst old) s))
        (\<lambda>(p, s2). State_Monad.return (case p of Inl _ \<Rightarrow> DeployFailed CodeFilesystem | Inr _ \<Rightarrow> Deployed, s2)))) ?Q"
      by (rule triple_bind [OF stopW_route fin])
        (use new s(2,3) i(1) prom(1) active(2) in \<open>auto simp: setSlot_def AList.update_conv'\<close>)
    then show "triple ?on (drainStable env active s) ?Q" using True by (simp add: drainStable_def active(1))
  qed
qed

lemma promoteCanary_end:
  assumes c: "canaryOf c old l slot" and px: "bgProxyClient r" and flt: "\<And>n. evFault env OpSwitch n \<noteq> LostReply"
    and s: "ready slot active old l s"
  shows "triple (onRoute (bgAppName r) (targetOf slot (lnPort l)) (bothUp old l)) (promoteCanary r env c s)
           (rolloutEnd (bgAppName r) slot old (switchLost env))"
  unfolding promoteCanary_def Let_def
proof (rule storeW_step, unfold prod.case)
  let ?app = "bgAppName r"
  let ?on = "onRoute ?app (targetOf slot (lnPort l)) (bothUp old l) :: 'a world \<Rightarrow> bool"
  let ?Q = "rolloutEnd ?app slot old (switchLost env) :: deployResult \<times> deployState \<Rightarrow> 'a world \<Rightarrow> bool"
  let ?s1 = "Stamp (bgSecrets r) [] (setCanary (\<lambda>x. x\<lparr>csStatus := CanaryPromoted\<rparr>) (s\<lparr>dsActiveSlot := crSlot c, dsActiveVersion := crVersion c\<rparr>))"
  fix p :: "(code, unit) result" and s2
  assume same: "sameRecord ?s1 s2"
  have cs: "crStable c = old" "crLaunched c = l" "crSlot c = slot" "inPort old > 0" "lnHandle l \<noteq> handleOf old"
    using c by (auto simp: canaryOf_def)
  from s obtain y where y: "dsCanary s = Some y" and both: "bothSlots slot active old (lnPort l) s" "dsActiveSlot s = active"
    by (auto simp: ready_def)
  have s2: "bothSlots slot active old (lnPort l) s2" "dsActiveSlot s2 = slot" "\<not> dsSecretPreparing s2"
      "dsCanary s2 = Some (y\<lparr>csStatus := CanaryPromoted\<rparr>)"
    using same both y by (auto simp: sameRecord_def cs bothSlots_def)
  have drain: "triple ?on (drainStable env (dsActiveSlot s) s2) ?Q"
    unfolding both(2) by (rule drainStable_end [OF s2]) (simp_all add: cs)
  have keep: "triple ?on (State_Monad.bind (storeW env s2) (\<lambda>(q, s3). State_Monad.return (DeployFailed e, s3))) ?Q" for e
    by (rule storeW_step) (simp add: end_canary)
  have return: "triple ?on (State_Monad.bind (restoreStableRouting r env (crStable c))
      (\<lambda>ok. if ok then retirePromoted env c e e' s' else
          State_Monad.bind (storeW env s2) (\<lambda>(q, s3). State_Monad.return (DeployFailed e'', s3)))) ?Q" for e e' e'' s'
    unfolding cs by (rule restore_step [OF px cs(4) flt]) (use retirePromoted_end [OF c] keep in auto)
  have active: "map_of (dsSlots s2) (dsActiveSlot s) = Some old" using s2(1) both(2) by (simp add: bothSlots_def)
  have prom: "triple ?on (promoteW env ?app v) (\<lambda>_. ?on)" for v by (rule promoteW_route)
  have promote: "triple ?on (if crVersion c > 0 then promoteW env ?app (crVersion c) else State_Monad.return (Inr ())) (\<lambda>_. ?on)"
    by (intro triple_if prom triple_return)
  show "triple ?on (case p of
       Inl _ \<Rightarrow> State_Monad.bind (restoreStableRouting r env (crStable c)) (\<lambda>restoredOK.
         if restoredOK then
           retirePromoted env c CodeFilesystem CodeFilesystem (s2\<lparr>dsActiveSlot := dsActiveSlot s, dsActiveVersion := dsActiveVersion s\<rparr>)
         else State_Monad.bind (storeW env s2) (\<lambda>(q, s3). State_Monad.return (DeployFailed CodeFilesystem, s3)))
     | Inr _ \<Rightarrow> State_Monad.bind (if crVersion c > 0 then promoteW env (bgAppName r) (crVersion c) else State_Monad.return (Inr ())) (\<lambda>promoted.
         case promoted of
           Inl e \<Rightarrow> State_Monad.bind (case map_of (dsSlots s2) (dsActiveSlot s) of None \<Rightarrow> State_Monad.return True
                        | Some old \<Rightarrow> if inPort old > 0 then restoreStableRouting r env (crStable c) else State_Monad.return True) (\<lambda>restoredOK.
             if restoredOK then
               retirePromoted env c e CodeFilesystem (s2\<lparr>dsActiveSlot := dsActiveSlot s, dsActiveVersion := dsActiveVersion s\<rparr>)
             else State_Monad.bind (storeW env s2) (\<lambda>(q, s3). State_Monad.return (DeployFailed CodeProxy, s3)))
         | Inr _ \<Rightarrow> drainStable env (dsActiveSlot s) s2)) ?Q"
    using return [where e'' = CodeFilesystem] return [where e'' = CodeProxy] cs(4)
    by (intro triple_sum triple_bind [OF promote] drain) (simp_all add: active)
qed

subsection \<open>The steps\<close>

lemma shift_step:
  assumes "bgProxyClient r" and "\<forall>t\<in>set (p # bs). \<exists>h. (h, tHost t) \<in> ups" and "\<And>n. evFault env OpSwitch n \<noteq> LostReply"
    and "triple (onRoutes (bgAppName r) (p # addlTargets {tHost p} bs) ups) (f (True, True)) Q"
    and "switchLost env \<Longrightarrow> triple (onRoutes (bgAppName r) ts ups) (f (False, True)) Q"
  shows "triple (onRoutes (bgAppName r) ts ups) (State_Monad.bind (shiftTraffic r env True p bs) f) Q"
proof -
  have eq: "State_Monad.bind (shiftTraffic r env True p bs) f =
      State_Monad.bind (proxySwitch env (bgAppName r) p bs) (\<lambda>x. f (isOk x, True))"
    using assms(1) by (simp add: shiftTraffic_def)
  show ?thesis
    unfolding eq by (rule switch_sure_step) (use assms in auto)
qed

lemma stepTargets_hosts:
  "canaryOf c old l slot \<Longrightarrow> stepTargets c q = (p, bs) \<Longrightarrow> \<forall>t\<in>set (p # bs). \<exists>h. (h, tHost t) \<in> bothUp old l"
  by (auto simp: stepTargets_def canaryOf_def bothUp_def Let_def split: if_splits)

lemma stepTargets_full:
  "canaryOf c old l slot \<Longrightarrow> q \<ge> 100 \<Longrightarrow> stepTargets c q = (p, bs) \<Longrightarrow> p # addlTargets {tHost p} bs = [targetOf slot (lnPort l)]"
  by (auto simp: stepTargets_def canaryOf_def Let_def)

lemma ready_step:
  "ready slot active old l s \<Longrightarrow> sameRecord (Stamp txn is (setCanary f s)) s' \<Longrightarrow> ready slot active old l s'"
  by (auto simp: ready_def sameRecord_def bothSlots_def)

lemma walkSteps_end:
  assumes c: "canaryOf c old l slot" and px: "bgProxyClient r" and flt: "\<And>n. evFault env OpSwitch n \<noteq> LostReply"
  shows "ready slot active old l s \<Longrightarrow> (\<not> switched \<longrightarrow> ts = [targetOf lb (inPort old)]) \<Longrightarrow>
     (sts = [] \<longrightarrow> ts = [targetOf slot (lnPort l)]) \<Longrightarrow> (sts \<noteq> [] \<longrightarrow> stTrafficPercent (last sts) \<ge> 100) \<Longrightarrow>
     triple (onRoutes (bgAppName r) ts (bothUp old l)) (walkSteps r env c i switched True broken [] sts s)
       (rolloutEnd (bgAppName r) slot old (switchLost env))"
proof (induction sts arbitrary: i switched broken s ts)
  case Nil
  then show ?case using promoteCanary_end [OF c px flt] by simp
next
  case (Cons st sts)
  let ?app = "bgAppName r" and ?ups = "bothUp old l"
  let ?Q = "rolloutEnd ?app slot old (switchLost env) :: deployResult \<times> deployState \<Rightarrow> 'a world \<Rightarrow> bool"
  obtain p bs where t: "stepTargets c (stTrafficPercent st) = (p, bs)" by fastforce
  let ?ts = "p # addlTargets {tHost p} bs"
  note fail = abort_end [OF c px flt]
  have stop: "triple (onRoutes ?app ts ?ups) (abortRollout r env c switched e x keep s) ?Q" for e x keep
    by (rule fail [where lb = lb]) (use Cons.prems(2) in simp)
  have moved: "triple (onRoutes ?app ?ts ?ups) (abortRollout r env c True e x keep s1) ?Q" for e x keep s1
    by (rule fail) simp
  have next': "triple (onRoutes ?app ?ts ?ups) (walkSteps r env c (Suc i) True True b [] sts s1) ?Q" if "ready slot active old l s1" for b s1
    by (rule Cons.IH [OF that]) (use Cons.prems(4) stepTargets_full [OF c _ t] in auto)
  have verified: "triple (onRoutes ?app ?ts ?ups) (State_Monad.bind (verifyStep r env c st broken) (\<lambda>(v, broken'). case v of
        Inl f \<Rightarrow> (case verifyError f of (e, status, keep) \<Rightarrow> abortRollout r env c True e status keep s1)
      | Inr _ \<Rightarrow> State_Monad.bind (if i = 0 then stopRetiredInstances env [] else State_Monad.return (Inr ())) (\<lambda>drained. case drained of
          Inl e \<Rightarrow> State_Monad.return (DeployFailed e, s1)
        | Inr _ \<Rightarrow> walkSteps r env c (Suc i) True True broken' [] sts s1))) ?Q" if "ready slot active old l s1" for s1
    by (rule triple_bind [OF verifyStep_routes]) (use next' [OF that] in \<open>auto intro!: triple_pair triple_sum moved\<close>)
  have recorded: "triple (onRoutes ?app ?ts ?ups) (State_Monad.bind (storeW env (Stamp (bgSecrets r) []
         (setCanary (\<lambda>x. x\<lparr>csStep := i, csTrafficPercent := stTrafficPercent st\<rparr>) s))) (\<lambda>(p, s1). case p of
        Inl _ \<Rightarrow> abortRollout r env c True CodeFilesystem CanaryFailed False s1
      | Inr _ \<Rightarrow> State_Monad.bind (verifyStep r env c st broken) (\<lambda>(v, broken'). case v of
          Inl f \<Rightarrow> (case verifyError f of (e, status, keep) \<Rightarrow> abortRollout r env c True e status keep s1)
        | Inr _ \<Rightarrow> State_Monad.bind (if i = 0 then stopRetiredInstances env [] else State_Monad.return (Inr ())) (\<lambda>drained. case drained of
            Inl e \<Rightarrow> State_Monad.return (DeployFailed e, s1)
          | Inr _ \<Rightarrow> walkSteps r env c (Suc i) True True broken' [] sts s1)))) ?Q"
    by (rule storeW_step, unfold prod.case) (intro triple_sum moved verified, rule ready_step [OF Cons.prems(1)])
  show ?case
    unfolding walkSteps.simps t prod.case
    by (intro triple_look triple_drop triple_if stop shift_step [OF px stepTargets_hosts [OF c t] flt])
      (use stop recorded in simp_all)
qed

subsection \<open>The candidate\<close>

lemma rolloutFail_end:
  "msMode pre = ModeBlueGreen \<Longrightarrow> triple (onRoute app (targetOf lb (inPort old)) {(handleOf old, hostPort (inPort old))})
     (rolloutFail env pre e s) (rolloutEnd app slot old lost)"
  by (simp add: rolloutFail_def rolloutUndo_none end_stable1)

lemma storeState_step:
  assumes "\<And>s'. sameRecord s s' \<Longrightarrow> triple (onRoutes app ts ups) (f s') Q"
  shows "triple (onRoutes app ts ups) (State_Monad.bind (storeState env s) f) Q"
  unfolding storeState_def by (simp add: assms) (rule storeW_step, simp add: assms)

lemma failCanary_end:
  assumes "msMode pre = ModeBlueGreen" and "lnHandle l \<noteq> handleOf old"
  shows "triple (onRoute app (targetOf lb (inPort old)) {(handleOf old, hostPort (inPort old))})
     (failCanary env pre sl (lnHandle l) e s) (rolloutEnd app slot old lost)"
  unfolding failCanary_def
  by (rule killW_step, use assms(2) in simp, rule storeState_step, rule rolloutFail_end [OF assms(1)])

lemma pairUp_both: "pairUp (handleOf old) (targetOf lb (inPort old)) (lnHandle l) (lnPort l) = bothUp old l"
  by (simp add: pairUp_def bothUp_def)

definition baseRecord :: "string \<Rightarrow> string \<Rightarrow> inst \<Rightarrow> deployState \<Rightarrow> bool" where
  "baseRecord slot active old s \<longleftrightarrow>
     dsActiveSlot s = active \<and> map_of (dsSlots s) active = Some old \<and> slot \<noteq> active \<and> active \<noteq> '''' \<and> inPort old > 0"

lemma baseRecord_slot: "baseRecord slot active old s \<Longrightarrow> baseRecord slot active old (setSlot slot i s)"
  by (auto simp: baseRecord_def setSlot_def AList.update_conv')

lemma ready_marked:
  assumes b: "baseRecord slot active old s" and s1: "sameRecord (setSlot slot (candidateOf bg slot x y v ov now l) s) s1"
    and s2: "sameRecord (markInFlight r slot v (markHealthy slot t now' s1)) s2"
  shows "ready slot active old l s2"
proof -
  let ?c = "candidateOf bg slot x y v ov now l"
  have slots: "dsSlots s1 = AList.update slot ?c (dsSlots s)" "dsActiveSlot s1 = active"
    using s1 b by (auto simp: sameRecord_def setSlot_def baseRecord_def)
  have c: "map_of (dsSlots s1) slot = Some ?c" "inPort ?c = lnPort l" "map_of (dsSlots s1) active = Some old"
    using b by (auto simp: slots AList.update_conv' candidateOf_def baseRecord_def)
  have "bothSlots slot active old (lnPort l) (markHealthy slot t now' s1)"
    by (rule markHealthy_slots [OF _ _ _ c(3,1,2)]) (use b in \<open>auto simp: baseRecord_def\<close>)
  moreover have "dsActiveSlot (markHealthy slot t now' s1) = active"
    by (simp add: markHealthy_def c(1) setSlot_def slots(2))
  ultimately show ?thesis
    using s2 by (auto simp: ready_def sameRecord_def markInFlight_def bothSlots_def)
qed

lemma gateCanary_end:
  assumes px: "bgProxyClient r" and flt: "\<And>n. evFault env OpSwitch n \<noteq> LostReply"
    and pre: "msMode pre = ModeBlueGreen" and b: "baseRecord slot active old s"
    and plan: "rpSteps (rtPlan r) \<noteq> []" "stTrafficPercent (last (rpSteps (rtPlan r))) \<ge> 100"
    and new: "lnHandle l \<noteq> handleOf old" and s1: "sameRecord (setSlot slot (candidateOf bg slot x y ver ov now l) s) s1"
  shows "triple (onRoute (bgAppName r) (targetOf lb (inPort old)) (bothUp old l)) (gateCanary r env pre ver old [] True slot l s1)
     (rolloutEnd (bgAppName r) slot old (switchLost env))"
proof -
  let ?app = "bgAppName r" and ?t = "targetOf lb (inPort old)"
  let ?Q = "rolloutEnd ?app slot old (switchLost env) :: deployResult \<times> deployState \<Rightarrow> 'a world \<Rightarrow> bool"
  let ?run = "\<lambda>s2 t. \<lparr>crSlot = slot, crLaunched = l, crVersion = ver, crStableSlot = dsActiveSlot s2, crStable = old,
               crTier = t, crOldStamp = dsSecretTxnID s2, crPre = pre\<rparr>"
  note fail = failCanary_end [OF pre new, where env = env and sl = slot and app = ?app and lb = lb and slot = slot and lost = "switchLost env"]
  have walk: "triple (onRoute ?app ?t (bothUp old l)) (walkSteps r env (?run s2 t) 0 False True False [] (rpSteps (rtPlan r)) s2) ?Q"
    if "sameRecord (markInFlight r slot ver (markHealthy slot t now' s1)) s2" for s2 t now'
    by (rule walkSteps_end [OF _ px flt ready_marked [OF b s1 that]])
      (use plan new pre b in \<open>auto simp: canaryOf_def baseRecord_def\<close>)
  have stop: "triple (onRoute ?app ?t (bothUp old l)) (failCanary env pre slot (lnHandle l) e s2) ?Q" for e s2
    by (rule triple_pre [OF fail bothUp_stable])
  have healthy: "triple (onRoute ?app ?t (bothUp old l)) (State_Monad.bind (look wClock) (\<lambda>n'. State_Monad.bind
      (storeW env (markInFlight r slot ver (markHealthy slot t (evNow env n') s1))) (\<lambda>(q, s2). case q of
        Inl _ \<Rightarrow> failCanary env pre slot (lnHandle l) CodeFilesystem s2
      | Inr _ \<Rightarrow> walkSteps r env (?run s2 t) 0 False True False [] (rpSteps (rtPlan r)) s2))) ?Q" for t
    by (intro triple_look triple_drop storeW_step, unfold prod.case) (intro triple_sum stop walk)
  show ?thesis
    unfolding gateCanary_def
    by (rule triple_bind [OF awaitHealthy_route [where tOld = ?t and hOld = "handleOf old", unfolded pairUp_both], OF new])
      (auto intro!: triple_pair triple_if fail healthy)
qed

lemma runCanary_end:
  assumes launch: "launchContract (bgLauncher r)" and px: "bgProxyClient r" and flt: "\<And>n. evFault env OpSwitch n \<noteq> LostReply"
    and pre: "msMode pre = ModeBlueGreen" and b: "baseRecord slot active old s"
    and plan: "rpSteps (rtPlan r) \<noteq> []" "stTrafficPercent (last (rpSteps (rtPlan r))) \<ge> 100"
  shows "triple (onRoute (bgAppName r) (targetOf lb (inPort old)) {(handleOf old, hostPort (inPort old))})
     (runCanary r env pre a old [] True slot s) (rolloutEnd (bgAppName r) slot old (switchLost env))"
  unfolding runCanary_def
proof (rule triple_bind [OF launch_route [OF launch, where tOld = "targetOf lb (inPort old)" and hOld = "handleOf old",
      unfolded pairUp_both targetOf_host]], rule triple_fact)
  let ?app = "bgAppName r" and ?t = "targetOf lb (inPort old)"
  let ?Q = "rolloutEnd ?app slot old (switchLost env) :: deployResult \<times> deployState \<Rightarrow> 'a world \<Rightarrow> bool"
  fix x :: "(code, launched) result"
  assume new: "\<forall>l. x = Inr l \<longrightarrow> lnHandle l \<noteq> handleOf old"
  have stopped: "triple (onRoute ?app ?t (bothUp old l)) (State_Monad.bind (killW env (lnHandle l)) (\<lambda>_. rolloutFail env pre CodeFilesystem s1)) ?Q"
    if "x = Inr l" for l s1
    by (rule triple_pre [OF _ bothUp_stable], rule killW_step, use that new in simp, rule rolloutFail_end [OF pre])
  have gate: "triple (onRoute ?app ?t (bothUp old l)) (gateCanary r env pre (arVersion a) old [] True slot l s1) ?Q"
    if "x = Inr l" "sameRecord (setSlot slot (candidateOf (blueGreen.truncate r) slot (arBinary a) (arEnv a) (arVersion a) (arOverlay a) now l) s) s1"
    for l s1 now
    by (rule gateCanary_end [OF px flt pre b plan _ that(2)]) (use new that(1) in simp)
  show "triple (onRoute ?app ?t (case x of Inl _ \<Rightarrow> {(handleOf old, hostPort (inPort old))} | Inr l \<Rightarrow> bothUp old l))
    (case x of Inl e \<Rightarrow> rolloutFail env pre CodeInstanceStartFailed s
     | Inr l \<Rightarrow> State_Monad.bind (look wClock) (\<lambda>n. State_Monad.bind (storeW env (setSlot slot
         (candidateOf (blueGreen.truncate r) slot (arBinary a) (arEnv a) (arVersion a) (arOverlay a) (evNow env n) l) s)) (\<lambda>(p, s1). case p of
           Inl _ \<Rightarrow> State_Monad.bind (killW env (lnHandle l)) (\<lambda>_. rolloutFail env pre CodeFilesystem s1)
         | Inr _ \<Rightarrow> gateCanary r env pre (arVersion a) old [] True slot l s1))) ?Q"
  proof (cases x)
    case (Inl e)
    then show ?thesis using rolloutFail_end [OF pre] by simp
  next
    case (Inr l)
    note stopped [OF this] gate [OF this]
    then show ?thesis
      unfolding Inr sum.case by (intro triple_look triple_drop storeW_step, unfold prod.case) (intro triple_sum; assumption)
  qed
qed

subsection \<open>Recovery\<close>

definition interrupted :: "deployState \<Rightarrow> bool" where
  "interrupted s \<longleftrightarrow> (case dsCanary s of None \<Rightarrow> False | Some c \<Rightarrow> csStatus c = CanaryRunning)"

lemma recoverInterrupted_end:
  assumes up: "(handleOf old, hostPort (inPort old)) \<in> ups" and px: "bgProxyClient r" and port: "inPort old > 0"
    and flt: "\<And>n. evFault env OpSwitch n \<noteq> LostReply"
    and start: "ts = [targetOf lb (inPort old)] \<or> (interrupted s \<and> \<not> switchLost env)"
  shows "triple (onRoutes (bgAppName r) ts ups) (recoverInterrupted r env old s)
     (\<lambda>s' w. onStable (bgAppName r) old w \<and> dsSlots s' = dsSlots s \<and> dsActiveSlot s' = dsActiveSlot s)"
    (is "triple (onRoutes ?app ts ups) _ ?Q")
proof -
  have single: "onStable ?app old w" if "onRoute ?app (targetOf lb' (inPort old)) ups w" for lb' and w :: "'a world"
    unfolding onStable_def using onRoutes_sub [OF that, of "{(handleOf old, hostPort (inPort old))}"] up by auto
  have end': "triple (onRoute ?app (targetOf lb' (inPort old)) ups) (State_Monad.return s') ?Q"
    if "dsSlots s' = dsSlots s" "dsActiveSlot s' = dsActiveSlot s" for lb' s'
    by (rule triple_return) (use that single in auto)
  let ?s = "setCanary (\<lambda>c. c\<lparr>csStatus := CanaryAborted\<rparr>) s"
  have store: "triple (onRoute ?app (targetOf lb' (inPort old)) ups) (storeState env ?s) ?Q" for lb'
    by (rule triple_weaken [OF storeState_route]) (use single in \<open>auto simp: sameRecord_def\<close>)
  show ?thesis
  proof (cases "interrupted s")
    case True
    have "triple (onRoutes ?app ts ups) (State_Monad.bind (proxySwitch env ?app (targetOf (inSlot old) (inPort old)) [])
        (\<lambda>x. storeState env ?s)) ?Q"
      by (rule switch_sure_step) (use up flt store start in auto)
    moreover have "restoreStableRouting r env old =
        State_Monad.bind (proxySwitch env ?app (targetOf (inSlot old) (inPort old)) []) (\<lambda>x. State_Monad.return (isOk x))"
      using px port by (simp add: restoreStableRouting_def)
    ultimately show ?thesis using True by (simp add: recoverInterrupted_def interrupted_def)
  next
    case False
    with start end' [of s] show ?thesis by (auto simp: recoverInterrupted_def interrupted_def)
  qed
qed

lemma recoverInterrupted_os: "triple (\<lambda>w. wOs w = sys) (recoverInterrupted r env old s) (\<lambda>_ w. wOs w = sys)"
proof -
  have store: "triple (\<lambda>w. wOs w = sys) (storeState env s') (\<lambda>_ w. wOs w = sys)" for s'
    by (auto simp: triple_def storeState_def storeW_def act_def split: prod.splits)
  have sw: "triple (\<lambda>w. wOs w = sys) (proxySwitch env app p bs) (\<lambda>_ w. wOs w = sys)" for app p bs
    by (auto simp: triple_def proxySwitch_def callW_def act_def split: prod.splits)
  show ?thesis
    unfolding recoverInterrupted_def restoreStableRouting_def
    by (intro triple_if triple_return triple_bind [OF store] triple_bind [OF sw] triple_bind [of _ _ "\<lambda>_ w. wOs w = sys"] store)
qed

lemma reapInst_alive: "InstanceAlive lk sys i \<Longrightarrow> reapInst sys i = i"
  by (auto simp: InstanceAlive_def instanceAliveViaRuntime_def reapInst_def findVerifiedProcess_def split: if_splits)

lemma reapInst_handle: "hasProcess (reapInst sys i) \<Longrightarrow> hasProcess i \<and> handleOf (reapInst sys i) = handleOf i"
  by (auto simp: reapInst_def stoppedInst_def hasProcess_def handleOf_def split: if_splits)

lemma prepareCanary_end:
  assumes launch: "launchContract (bgLauncher r)" and px: "bgProxyClient r" and flt: "\<And>n. evFault env OpSwitch n \<noteq> LostReply"
    and pre: "msMode pre = ModeBlueGreen" and b: "baseRecord slot active old s"
    and plan: "rpSteps (rtPlan r) \<noteq> []" "stTrafficPercent (last (rpSteps (rtPlan r))) \<ge> 100"
  shows "triple (onRoute (bgAppName r) (targetOf lb (inPort old)) {(handleOf old, hostPort (inPort old))})
     (prepareCanary r env pre old [] True slot s) (rolloutEnd (bgAppName r) slot old (switchLost env))"
  unfolding prepareCanary_def
  by (rule triple_bind [OF act_frame_route])
    (auto split: prod.splits intro!: triple_sum triple_pair rolloutFail_end [OF pre] runCanary_end [OF launch px flt pre b plan])

lemma enrolCanary_end:
  assumes launch: "launchContract (bgLauncher r)" and px: "bgProxyClient r"
    and flt: "\<And>n. evFault env OpSwitch n \<noteq> LostReply" "\<And>n. evFault env OpStatus n = NoFault"
    and pre: "msMode pre = ModeBlueGreen" and b: "baseRecord slot active old s" and slot: "slot = InactiveSlot s"
    and plan: "rpSteps (rtPlan r) \<noteq> []" "stTrafficPercent (last (rpSteps (rtPlan r))) \<ge> 100"
  shows "triple (onRoute (bgAppName r) (targetOf lb (inPort old)) {(handleOf old, hostPort (inPort old))})
     (enrolCanary r env pre old [] x s) (rolloutEnd (bgAppName r) slot old (switchLost env))"
proof -
  note prepare = prepareCanary_end [OF launch px flt(1) pre b plan]
    prepareCanary_end [OF launch px flt(1) pre baseRecord_slot [OF b] plan]
  show ?thesis
  proof (cases x)
    case (Inl e)
    then show ?thesis by (simp add: enrolCanary_def end_stable1)
  next
    case (Inr u)
    have "triple (onRoute (bgAppName r) (targetOf lb (inPort old)) {(handleOf old, hostPort (inPort old))})
       (State_Monad.bind (proxyEnrolled env (bgAppName r)) (\<lambda>enrolled. prepareCanary r env pre old [] enrolled slot
            (if map_of (dsSlots s) slot = None then setSlot slot (emptyInst slot) s else s)))
       (rolloutEnd (bgAppName r) slot old (switchLost env))"
      by (rule triple_bind [OF proxyEnrolled_route [OF flt(2)]], rule triple_fact) (use prepare in simp)
    then show ?thesis using px unfolding enrolCanary_def Inr sum.case Let_def slot by (simp only: if_True)
  qed
qed

lemma buildCanary_end:
  assumes launch: "launchContract (bgLauncher r)" and px: "bgProxyClient r"
    and flt: "\<And>n. evFault env OpSwitch n \<noteq> LostReply" "\<And>n. evFault env OpStatus n = NoFault"
    and pre: "msMode pre = ModeBlueGreen" and b: "baseRecord slot active old s" and slot: "slot = InactiveSlot s"
    and others: "\<forall>(name, i)\<in>set (dsSlots s). name \<noteq> active \<and> hasProcess i \<longrightarrow> handleOf i \<noteq> handleOf old"
    and plan: "rpSteps (rtPlan r) \<noteq> []" "stTrafficPercent (last (rpSteps (rtPlan r))) \<ge> 100"
    and up: "(handleOf old, hostPort (inPort old)) \<in> ups" and alive: "InstanceAlive (evLinks env) sys old"
    and start: "ts = [targetOf lb (inPort old)] \<or> (interrupted s \<and> \<not> switchLost env)"
  shows "triple (\<lambda>w. onRoutes (bgAppName r) ts ups w \<and> wOs w = sys) (buildCanary r env pre old [] s)
     (rolloutEnd (bgAppName r) slot old (switchLost env))"
proof -
  let ?app = "bgAppName r" and ?one = "{(handleOf old, hostPort (inPort old))}"
  let ?Q = "rolloutEnd ?app slot old (switchLost env) :: deployResult \<times> deployState \<Rightarrow> 'a world \<Rightarrow> bool"
  have act: "dsActiveSlot s = active" "map_of (dsSlots s) active = Some old" "inPort old > 0" using b by (auto simp: baseRecord_def)
  let ?k = "\<lambda>(x, s2). enrolCanary r env pre old [] x s2"
  have rest: "triple (onRoute ?app (targetOf lb' (inPort old)) ?one) (enrolCanary r env pre old [] x s2) ?Q"
    if "map_of (dsSlots s2) active = Some old" "dsActiveSlot s2 = active" for lb' x s2
  proof (rule enrolCanary_end [OF launch px flt pre _ _ plan])
    show "baseRecord slot active old s2" using that b by (simp add: baseRecord_def)
    show "slot = InactiveSlot s2" using that(2) act(1) by (simp add: slot InactiveSlot_def)
  qed
  have recovered: "triple (onRoute ?app (targetOf lb' (inPort old)) ?one)
      (State_Monad.bind (recoverStaleSlots env (ReapStaleInstances sys s1)) ?k) ?Q"
    if s1: "dsSlots s1 = dsSlots s" "dsActiveSlot s1 = active" for lb' s1
  proof -
    let ?slots = "map (\<lambda>(k, i). (k, reapInst sys i)) (dsSlots s)"
    have m: "map_of ?slots active = Some old"
      by (simp add: map_of_map act(2) reapInst_alive [OF alive])
    have o: "\<forall>(name, i)\<in>set ?slots. name \<noteq> active \<and> hasProcess i \<longrightarrow> handleOf i \<notin> fst ` ?one"
      using others by (auto dest!: reapInst_handle)
    have reaped: "dsSlots (ReapStaleInstances sys s1) = ?slots" "dsActiveSlot (ReapStaleInstances sys s1) = active"
      by (simp_all add: ReapStaleInstances_def s1)
    have "triple (onRoute ?app (targetOf lb' (inPort old)) ?one) (recoverStaleSlots env (ReapStaleInstances sys s1))
        (\<lambda>(x, s2) w. onRoute ?app (targetOf lb' (inPort old)) ?one w \<and> map_of (dsSlots s2) active = Some old \<and> dsActiveSlot s2 = active)"
      unfolding recoverStaleSlots_def reaped
      by (rule triple_bind [OF recoverSlots_route [OF o]])
        (use m in \<open>auto intro!: triple_pair triple_return simp: reaped split: prod.splits\<close>)
    then show ?thesis
      by (rule triple_bind, clarify) (intro triple_fact rest; simp)
  qed
  show ?thesis
    unfolding buildCanary_def
  proof (rule triple_bind [OF triple_conj [OF recoverInterrupted_end [OF up px act(3) flt(1) start] recoverInterrupted_os]])
    fix s1
    show "triple (\<lambda>w. (onStable ?app old w \<and> dsSlots s1 = dsSlots s \<and> dsActiveSlot s1 = dsActiveSlot s) \<and> wOs w = sys)
       (State_Monad.bind (look wOs) (\<lambda>sys. State_Monad.bind (recoverStaleSlots env (ReapStaleInstances sys s1)) ?k)) ?Q"
    proof (rule triple_look)
      fix a
      have "triple (\<lambda>w. onStable ?app old w \<and> dsSlots s1 = dsSlots s \<and> dsActiveSlot s1 = dsActiveSlot s \<and> a = sys)
          (State_Monad.bind (recoverStaleSlots env (ReapStaleInstances a s1)) ?k) ?Q"
        unfolding onStable_def
        by (intro triple_fact triple_ex) (use recovered [of s1] act(1) in auto)
      then show "triple (\<lambda>w. ((onStable ?app old w \<and> dsSlots s1 = dsSlots s \<and> dsActiveSlot s1 = dsActiveSlot s) \<and> wOs w = sys) \<and> a = wOs w)
          (State_Monad.bind (recoverStaleSlots env (ReapStaleInstances a s1)) ?k) ?Q"
        by (rule triple_pre) auto
    qed
  qed
qed

subsection \<open>The property\<close>

text \<open>
  A blue-green application whose record names its serving instance.  Either all traffic goes there, or
  the record says that an earlier rollout was interrupted, and then any route that is served will do,
  as long as switches get through.
\<close>

definition establishedRollout :: "'r rollout \<Rightarrow> deployEnv \<Rightarrow> deployState \<Rightarrow> inst \<Rightarrow> 'r world \<Rightarrow> bool" where
  "establishedRollout r env st old w \<longleftrightarrow>
     wFile w = DeployFile st \<and> dsAppName st = bgAppName r \<and> isOk (ValidateAppName (bgAppName r)) \<and>
     dsMode st = ModeBlueGreen \<and> dsActiveSlot st \<noteq> '''' \<and>
     map_of (dsSlots st) (dsActiveSlot st) = Some old \<and> inPort old > 0 \<and>
     (\<forall>(name, i)\<in>set (dsSlots st). name \<noteq> dsActiveSlot st \<and> hasProcess i \<longrightarrow> handleOf i \<noteq> handleOf old) \<and>
     dmRunning (wDaemon w) \<and> listensOn (wOs w) (handleOf old) (inPort old) \<and> alwaysUp (bgAppName r) w \<and>
     available (bgAppName r) (wOs w, wDaemon w) \<and>
     (routeOf (bgAppName r) (wDaemon w) = Some [targetOf (dsActiveSlot st) (inPort old)] \<or>
      interrupted st \<and> \<not> switchLost env)"

lemma validSteps_ok: "validSteps prev ss = Inr u \<Longrightarrow> s \<in> set ss \<Longrightarrow> 1 \<le> stTrafficPercent s \<and> stTrafficPercent s \<le> 100"
  by (induction ss arbitrary: prev) (auto split: if_splits)

lemma Validate_last:
  "RolloutPlan_Validate p = Inr u \<Longrightarrow> rpSteps p \<noteq> [] \<and> stTrafficPercent (last (rpSteps p)) \<ge> 100"
  by (auto simp: RolloutPlan_Validate_def split: if_splits sum.splits)

lemma establishedRollout_on:
  assumes "establishedRollout r env st old w"
  obtains ts ups where "onRoutes (bgAppName r) ts ups w" "(handleOf old, hostPort (inPort old)) \<in> ups"
    "ts = [targetOf (dsActiveSlot st) (inPort old)] \<or> (interrupted st \<and> \<not> switchLost env)"
proof -
  from assms obtain ts where ts: "routeOf (bgAppName r) (wDaemon w) = Some ts" "ts \<noteq> []" "\<forall>t\<in>set ts. \<exists>h. upBy (wOs w) h (tHost t)"
    by (auto simp: establishedRollout_def available_def)
  let ?ups = "insert (handleOf old, hostPort (inPort old)) {(h, tHost t) | h t. t \<in> set ts \<and> upBy (wOs w) h (tHost t)}"
  have "upBy (wOs w) (handleOf old) (hostPort (inPort old))" using assms by (auto simp: establishedRollout_def upBy_def)
  moreover have "\<forall>t\<in>set ts. \<exists>h. (h, tHost t) \<in> ?ups" using ts(3) by blast
  moreover have "alwaysUp (bgAppName r) w" "dmRunning (wDaemon w)" using assms by (simp_all add: establishedRollout_def)
  ultimately have "onRoutes (bgAppName r) ts ?ups w"
    using ts(1,2) unfolding onRoutes_iff routes_def by blast
  then show thesis by (rule that) (use assms ts(1) in \<open>auto simp: establishedRollout_def\<close>)
qed

lemma Rollout_Deploy_end:
  assumes est: "establishedRollout r env st old w" and launch: "launchContract (bgLauncher r)"
    and flt: "\<And>n. evFault env OpSwitch n \<noteq> LostReply" "\<And>n. evFault env OpStatus n = NoFault"
    and run: "run_state (Rollout_Deploy r env) w = (res, w')"
  shows "(w' = w \<and> res \<noteq> Deployed) \<or> (\<exists>s. rolloutEnd (bgAppName r) (InactiveSlot st) old (switchLost env) (res, s) w')"
proof -
  let ?s = "withRuntime (blueGreen.truncate r) st"
  have fields: "dsActiveSlot ?s = dsActiveSlot st" "dsSlots ?s = dsSlots st" "dsMode ?s = ModeBlueGreen" "dsCanary ?s = dsCanary st"
    using est by (auto simp: withRuntime_def Let_def establishedRollout_def)
  have load: "LoadState (bgAppName r) (wFile w) = Inr st" "dsMode st = ModeBlueGreen"
    using est by (auto simp: LoadState_def establishedRollout_def isOk_iff)
  show ?thesis
  proof (cases "RolloutPlan_Validate (rtPlan r)")
    case (Inl e)
    then show ?thesis using run by (auto simp: Rollout_Deploy_def)
  next
    case (Inr u)
    show ?thesis
    proof (cases "bgHasSource r \<and> rtHasLauncher r \<and> bgProxyClient r")
      case False
      then show ?thesis using run Inr by (auto simp: Rollout_Deploy_def split: if_splits)
    next
      case True
      obtain out w1 where body: "run_state (rolloutBody r env ?s) w = (out, w1)" by fastforce
      have res: "res = fst out" "w' = w1"
        using run body True Inr load by (auto simp: Rollout_Deploy_def look_def split: prod.splits)
      show ?thesis
      proof (cases "inPort old > 0 \<and> InstanceAlive (evLinks env) (wOs w) old")
        case False
        then have "stableBaseline (evLinks env) (wOs w) ?s = Inl CodeInvalidArgument"
          using est by (auto simp: stableBaseline_def fields establishedRollout_def ModeBlueGreen_def ModeRolling_def)
        then show ?thesis using body res by (auto simp: rolloutBody_def look_def Let_def)
      next
        case alive: True
        then have base: "stableBaseline (evLinks env) (wOs w) ?s = Inr old"
          using est by (auto simp: stableBaseline_def fields establishedRollout_def ModeBlueGreen_def ModeRolling_def)
        have b: "run_state (buildCanary r env (captureMode ?s) old [] ?s) w = (out, w1)"
          using body base
          by (auto simp: rolloutBody_def look_def MigrateTo_def fields consolidate_def captureMode_def ModeBlueGreen_def ModeRolling_def Let_def cong: if_cong)
        obtain ts ups where on: "onRoutes (bgAppName r) ts ups w" and up: "(handleOf old, hostPort (inPort old)) \<in> ups"
          and start: "ts = [targetOf (dsActiveSlot st) (inPort old)] \<or> (interrupted st \<and> \<not> switchLost env)"
          by (rule establishedRollout_on [OF est])
        have "triple (\<lambda>v. onRoutes (bgAppName r) ts ups v \<and> wOs v = wOs w) (buildCanary r env (captureMode ?s) old [] ?s)
            (rolloutEnd (bgAppName r) (InactiveSlot st) old (switchLost env))"
        proof (rule buildCanary_end [OF launch _ flt])
          show "baseRecord (InactiveSlot st) (dsActiveSlot st) old ?s"
            using est InactiveSlot_neq by (auto simp: baseRecord_def fields establishedRollout_def)
          show "InactiveSlot st = InactiveSlot ?s" by (simp add: InactiveSlot_def fields)
          show "ts = [targetOf (dsActiveSlot st) (inPort old)] \<or> (interrupted ?s \<and> \<not> switchLost env)"
            using start by (simp add: interrupted_def fields)
        qed (use est True alive up Validate_last [OF Inr] in \<open>auto simp: fields captureMode_def establishedRollout_def\<close>)
        with on b have "rolloutEnd (bgAppName r) (InactiveSlot st) old (switchLost env) out w1" by (auto simp: triple_def)
        then show ?thesis unfolding res by (metis prod.collapse)
      qed
    qed
  qed
qed

lemma rolloutEnd_served: "rolloutEnd app slot old lost (res, s) w \<Longrightarrow> servedOn app w"
  by (auto simp: rolloutEnd_def onStable_def intro: servedOnI split: if_splits)

lemma servedOn_available: "servedOn app w \<Longrightarrow> alwaysUp app w \<and> available app (wOs w, wDaemon w)"
  using rt.serves by (auto simp: servedOn_def onRoutes_iff)


lemma established_rollout:
  assumes "establishedBlueGreen (blueGreen.truncate r) st old w"
  shows "establishedRollout r env st old w"
proof -
  have "available (bgAppName r) (wOs w, wDaemon w)"
    using assms unfolding establishedBlueGreen_def available_def upBy_def by (auto simp: blueGreen.truncate_def)
  with assms show ?thesis by (simp add: establishedBlueGreen_def establishedRollout_def blueGreen.truncate_def)
qed

definition demoRollout :: "unit rollout" where
  "demoRollout = blueGreen.extend demoBG
     \<lparr>rtHasLauncher = True,
      rtPlan = CanaryPlan 10 (60 * second) \<lparr>vcInterval = 0, vcMaxErrorRate = 0, vcMaxErrorDelta = 0, vcMaxP95Factor = 0\<rparr>,
      rtStatsClient = True, rtCancelled = (\<lambda>_. False),
      rtObserve = (\<lambda>n k. \<lparr>obCancelled = False, obNow = int k * 5 * second, obAlive = True, obCanary = okPolls n k, obStable = okPolls n k\<rparr>),
      rtTraffic = (\<lambda>_. [(''127.0.0.1:9001'', 200, False, 40)])\<rparr>"

lemma demoRollout_base: "blueGreen.truncate demoRollout = demoBG"
  by (simp add: demoRollout_def blueGreen.defs demoBG_def)


text \<open>
  An abort sends all the traffic to the stable instance also when it is the stable instance that failed
  its probe, and the candidate is only kept alive.
\<close>

lemma abort_abandons_canary:
  assumes "bgProxyClient r" and "inPort (crStable c) > 0" and "\<not> switchLost env"
    and "dmRunning (wDaemon w)" and "routeOf (bgAppName r) (wDaemon w) = Some ts"
    and "run_state (abortRollout r env c True CodeHealthCheckFailed CanaryFailed True s) w = (out, w')"
  shows "routeOf (bgAppName r) (wDaemon w') = Some [targetOf (inSlot (crStable c)) (inPort (crStable c))] \<and> wOs w' = wOs w"
proof -
  let ?app = "bgAppName r" and ?t = "targetOf (inSlot (crStable c)) (inPort (crStable c))"
  obtain x w1 where sw: "run_state (proxySwitch env ?app ?t []) w = (x, w1)" by fastforce
  have flt: "evFault env OpSwitch n = NoFault" for n using assms(3) by (auto simp: switchLost_def)
  from run_callW [OF sw [unfolded proxySwitch_def]]
  have w1: "wOs w1 = wOs w" "Client_Switch (daemonEnvAt env (wClock w) w) NoFault ?app ?t [] (wDaemon w) = (x, wDaemon w1)"
    by (simp_all add: flt)
  obtain r' d2 where d2: "SwitchApp (daemonEnvAt env (wClock w) w) ?app ?t [] (wDaemon w) = (r', d2)" by fastforce
  from routeOf_SwitchApp [OF assms(5) d2] w1(2) d2 assms(4)
  have ok: "isOk x" "routeOf ?app (wDaemon w1) = Some [?t]"
    by (auto simp: Client_Switch_def okOrProxyError_def Do_def handleConn_def controlReq_def respond_def okResponse_def)
  then obtain b s3 w2 where close: "run_state (storeW env (setCanary (\<lambda>x. x\<lparr>csStatus := CanaryFailed\<rparr>) s)) w1 = ((b, s3), w2)"
    by (metis prod.exhaust)
  have "w' = w2"
    using assms(1,2,6) sw ok close
    by (auto simp: abortRollout_def restoreStableRouting_def closeRollout_def Let_def split: sum.splits)
  then show ?thesis using run_storeW [OF close] ok(2) w1(1) by simp
qed

section \<open>The plan and the window\<close>

lemma validSteps_iff:
  "validSteps prev ss = Inr u \<longleftrightarrow>
     (\<forall>s\<in>set ss. 1 \<le> stTrafficPercent s \<and> stTrafficPercent s \<le> 100 \<and> 0 \<le> stDuration s) \<and>
     sorted_wrt (<) (prev # map stTrafficPercent ss)"
proof (induction ss arbitrary: prev)
  case (Cons s ss)
  then show ?case by (auto dest: less_trans)
qed simp

lemma validSteps_code: "validSteps prev ss = Inl e \<Longrightarrow> e = CodeInvalidArgument"
  by (induction ss arbitrary: prev) (auto split: if_splits)

text \<open>
  C34: The plans a rollout accepts.  A plan is accepted exactly when it names its strategy, has at
  least two steps, the shares rise strictly from at least 1 to 100, and no duration is negative.
  Every other plan is refused with \<open>invalid_argument\<close> before anything is loaded, built or launched.
\<close>
theorem rollout_plan_errors:
  "(RolloutPlan_Validate p = Inr () \<longleftrightarrow>
      rpStrategy p \<noteq> '''' \<and> 2 \<le> length (rpSteps p) \<and> sorted_wrt (<) (map stTrafficPercent (rpSteps p)) \<and>
      (\<forall>s\<in>set (rpSteps p). 1 \<le> stTrafficPercent s \<and> stTrafficPercent s \<le> 100 \<and> 0 \<le> stDuration s) \<and>
      stTrafficPercent (last (rpSteps p)) = 100) \<and>
   (RolloutPlan_Validate p \<noteq> Inr () \<longrightarrow> RolloutPlan_Validate p = Inl CodeInvalidArgument) \<and>
   (rtPlan r = p \<and> RolloutPlan_Validate p \<noteq> Inr () \<longrightarrow>
      run_state (Rollout_Deploy r env) w = (DeployFailed CodeInvalidArgument, w))"
proof (intro conjI impI)
  show code: "RolloutPlan_Validate p = Inl CodeInvalidArgument" if "RolloutPlan_Validate p \<noteq> Inr ()"
    using that by (auto simp: RolloutPlan_Validate_def split: if_splits sum.splits dest: validSteps_code)
  show "run_state (Rollout_Deploy r env) w = (DeployFailed CodeInvalidArgument, w)"
    if "rtPlan r = p \<and> RolloutPlan_Validate p \<noteq> Inr ()"
    using that code by (auto simp: Rollout_Deploy_def)
  have "validSteps 0 (rpSteps p) = Inr () \<longleftrightarrow>
      (\<forall>s\<in>set (rpSteps p). 1 \<le> stTrafficPercent s \<and> stTrafficPercent s \<le> 100 \<and> 0 \<le> stDuration s) \<and>
      sorted_wrt (<) (map stTrafficPercent (rpSteps p))"
    unfolding validSteps_iff by force
  then show "RolloutPlan_Validate p = Inr () \<longleftrightarrow>
      rpStrategy p \<noteq> '''' \<and> 2 \<le> length (rpSteps p) \<and> sorted_wrt (<) (map stTrafficPercent (rpSteps p)) \<and>
      (\<forall>s\<in>set (rpSteps p). 1 \<le> stTrafficPercent s \<and> stTrafficPercent s \<le> 100 \<and> 0 \<le> stDuration s) \<and>
      stTrafficPercent (last (rpSteps p)) = 100"
    by (cases "validSteps 0 (rpSteps p)") (auto simp: RolloutPlan_Validate_def)
qed

theorem rollout_plan_errors_witness:
  "run_state (Rollout_Deploy (demoRollout\<lparr>rtPlan := CanaryPlan 101 0 (rpVerification (rtPlan demoRollout))\<rparr>) calmEnv) demoWorld =
     (DeployFailed CodeInvalidArgument, demoWorld)"
proof -
  let ?p = "CanaryPlan 101 0 (rpVerification (rtPlan demoRollout))"
  have "RolloutPlan_Validate ?p \<noteq> Inr ()" by (simp add: RolloutPlan_Validate_def CanaryPlan_def)
  then show ?thesis
    using rollout_plan_errors [of ?p "demoRollout\<lparr>rtPlan := ?p\<rparr>" calmEnv demoWorld] by simp
qed

text \<open>The probe of round \<open>k\<close> passed, and the wait before it was not cancelled.\<close>

definition roundOK :: "tier \<Rightarrow> deployTierConfig option \<Rightarrow> int \<Rightarrow> (nat \<Rightarrow> observation) \<Rightarrow> nat \<Rightarrow> bool" where
  "roundOK t cfg pid obs k \<longleftrightarrow> probeStep t cfg pid (obs k) = Inr () \<and> (k > 0 \<longrightarrow> \<not> obCancelled (obs k))"

lemma windowLoop_returns:
  assumes iv: "iv > 0" and tick: "\<And>k. obNow (obs (Suc k)) \<ge> min (obNow (obs k) + iv) deadline"
    and "deadline \<le> obNow (obs k) + int m * iv"
  shows "windowLoop (Suc m) t cfg pid deadline obs k \<noteq> None"
  using assms(3)
proof (induction m arbitrary: k)
  case (Suc m)
  have "0 \<le> int m * iv" using iv by simp
  with Suc.prems tick [of k] have "deadline \<le> obNow (obs (Suc k)) + int m * iv" by (auto simp: algebra_simps min_def split: if_splits)
  from Suc.IH [OF this] show ?case
    by (subst windowLoop.simps(2)) (auto simp del: windowLoop.simps split: sum.splits)
qed simp

lemma windowLoop_verified:
  "windowLoop fuel t cfg pid deadline obs k = Some (Inr ()) \<Longrightarrow>
     \<exists>n\<ge>k. deadline \<le> obNow (obs n) \<and> (\<forall>j. k < j \<and> j \<le> n \<longrightarrow> roundOK t cfg pid obs j)"
proof (induction fuel arbitrary: k)
  case (Suc fuel)
  show ?case
  proof (cases "obNow (obs k) < deadline")
    case False
    then show ?thesis by (intro exI [of _ k]) auto
  next
    case True
    with Suc.prems have ok: "roundOK t cfg pid obs (Suc k)" "windowLoop fuel t cfg pid deadline obs (Suc k) = Some (Inr ())"
      by (auto simp: roundOK_def split: if_splits sum.splits)
    from Suc.IH [OF ok(2)] obtain n where n: "n \<ge> Suc k" "deadline \<le> obNow (obs n)"
      "\<forall>j. Suc k < j \<and> j \<le> n \<longrightarrow> roundOK t cfg pid obs j" by blast
    have "roundOK t cfg pid obs j" if "k < j" "j \<le> n" for j
      using that n(3) ok(1) by (cases "j = Suc k") auto
    with n(1,2) show ?thesis by (intro exI [of _ n]) auto
  qed
qed simp

text \<open>
  C33: The window of a step ends, and a verified step was observed throughout.  When every wait lets the polling
  interval pass, or what is left of the window, the observation reaches a verdict within the fuel the model gives it.  When
  the verdict is good, there is a round at or past the end of the window such that every round up to it
  found the candidate's process alive, the candidate healthy and the stable instance healthy, and was
  not cancelled.
\<close>
theorem observeStep_verdict:
  assumes "\<And>k. obNow (obs (Suc k)) \<ge> min (obNow (obs k) + vcInterval (withDefaults cfg)) (obNow (obs 0) + d)"
  shows "\<exists>v. observeStep (windowFuel cfg d) t tc pid d obs = Some v \<and>
     (v = Inr () \<longrightarrow> (\<exists>n. (d > 0 \<longrightarrow> obNow (obs 0) + d \<le> obNow (obs n)) \<and> (\<forall>k\<le>n. roundOK t tc pid obs k \<and>
           (pid > 0 \<longrightarrow> obAlive (obs k)) \<and> Check t tc (obCanary (obs k)) \<and> Check t tc (obStable (obs k)))))"
proof -
  let ?iv = "vcInterval (withDefaults cfg)" and ?obs = "observeStep (windowFuel cfg d) t tc pid d obs"
  have iv: "?iv > 0" by (simp add: withDefaults_def second_def)
  have probes: "pid > 0 \<longrightarrow> obAlive (obs k)" "Check t tc (obCanary (obs k))" "Check t tc (obStable (obs k))"
    if "roundOK t tc pid obs k" for k
    using that by (auto simp: roundOK_def probeStep_def split: if_splits)
  have "?obs \<noteq> None"
  proof -
    define m where "m = Suc (nat (d div ?iv))"
    have "d \<le> int m * ?iv" if "d > 0"
    proof -
      have "d \<le> ?iv * (d div ?iv) + ?iv"
        using mult_div_mod_eq [of ?iv d] pos_mod_bound [OF iv, of d] by linarith
      moreover have "int m = d div ?iv + 1" using that iv by (simp add: m_def pos_imp_zdiv_nonneg_iff)
      ultimately show ?thesis by (simp add: algebra_simps)
    qed
    then have "windowLoop (Suc m) t tc pid (obNow (obs 0) + d) obs 0 \<noteq> None" if "d > 0"
      by (intro windowLoop_returns [where iv = ?iv] iv assms) (use that in simp)
    moreover have "windowFuel cfg d = Suc m" by (simp add: windowFuel_def m_def)
    ultimately show ?thesis by (auto simp: observeStep_def simp del: windowLoop.simps split: sum.splits)
  qed
  then obtain v where v: "?obs = Some v" by blast
  have "\<exists>n. (d > 0 \<longrightarrow> obNow (obs 0) + d \<le> obNow (obs n)) \<and> (\<forall>k\<le>n. roundOK t tc pid obs k)" if "v = Inr ()"
  proof -
    have first: "roundOK t tc pid obs 0" using v that by (auto simp: observeStep_def roundOK_def split: sum.splits)
    show ?thesis
    proof (cases "d > 0")
      case False
      with first show ?thesis by (intro exI [of _ 0]) auto
    next
      case True
      with v that have "windowLoop (windowFuel cfg d) t tc pid (obNow (obs 0) + d) obs 0 = Some (Inr ())"
        by (auto simp: observeStep_def split: sum.splits)
      from windowLoop_verified [OF this] obtain n where n: "obNow (obs 0) + d \<le> obNow (obs n)"
        "\<forall>j. 0 < j \<and> j \<le> n \<longrightarrow> roundOK t tc pid obs j" by blast
      with first have "\<forall>k\<le>n. roundOK t tc pid obs k" by (metis gr0I)
      with n(1) show ?thesis by blast
    qed
  qed
  with v probes show ?thesis by blast
qed

theorem observeStep_verdict_witness:
  "observeStep (windowFuel (rpVerification (rtPlan demoRollout)) (12 * second)) Tier3TCP None 99 (12 * second) (rtObserve demoRollout 0) \<noteq> None"
proof -
  have tick: "obNow (rtObserve demoRollout 0 (Suc k)) \<ge>
      min (obNow (rtObserve demoRollout 0 k) + vcInterval (withDefaults (rpVerification (rtPlan demoRollout))))
        (obNow (rtObserve demoRollout 0 0) + 12 * second)" for k
    by (intro min.coboundedI1) (simp add: demoRollout_def blueGreen.defs CanaryPlan_def withDefaults_def algebra_simps)
  show ?thesis
    using observeStep_verdict [of "rtObserve demoRollout 0" "rpVerification (rtPlan demoRollout)" "12 * second" Tier3TCP None 99] tick
    by blast
qed

end
