(* ===== verification/EnvStore.thy ===== *)
theory EnvStore
  imports AtomicFile GoStrings "HOL-Library.AList"
begin

text \<open>
  Encrypted environment variables (\<open>internal/env\<close>): AES-GCM values in hexadecimal, the master key
  with its creation, and the stores of variables, one file for each application.  The cipher itself is the Go standard
  library: sealing and opening are arguments, with the law that opening what was sealed under the same
  key and nonce gives the text back.  The store file is JSON of whole entries; writing it is not
  atomic, and a write that fails may leave anything in the file.
\<close>

section \<open>Hexadecimal\<close>

definition bytesOf :: "string \<Rightarrow> nat list" where
  "bytesOf s = map of_char s"

definition hexString :: "string \<Rightarrow> string" where
  "hexString s = hexEncode (bytesOf s)"

text \<open>\<open>hex.DecodeString\<close>, which takes both cases.\<close>

definition hexVal :: "char \<Rightarrow> nat option" where
  "hexVal c =
     (let n = of_char c :: nat in
      if 48 \<le> n \<and> n \<le> 57 then Some (n - 48)
      else if 97 \<le> n \<and> n \<le> 102 then Some (n - 87)
      else if 65 \<le> n \<and> n \<le> 70 then Some (n - 55)
      else None)"

fun hexDecode :: "string \<Rightarrow> string option" where
  "hexDecode [] = Some []"
| "hexDecode [c] = None"
| "hexDecode (c # d # cs) =
     (case (hexVal c, hexVal d, hexDecode cs) of
        (Some a, Some b, Some bs) \<Rightarrow> Some (char_of (16 * a + b) # bs)
      | _ \<Rightarrow> None)"

lemma hexVal_hexDigit: "n < 16 \<Longrightarrow> hexVal (hexDigit n) = Some n"
proof -
  have "list_all (\<lambda>n. hexVal (hexDigit n) = Some n) [0..<16]" by code_simp
  then show "hexVal (hexDigit n) = Some n" if "n < 16" using that unfolding list_all_iff by simp
qed

lemma hexDecode_hexString: "hexDecode (hexString s) = Some s"
proof (induction s)
  case (Cons c s)
  have "of_char c mod 256 = (of_char c :: nat)" by simp
  moreover have "16 * (of_char c mod 256 div 16) + of_char c mod 16 = (of_char c :: nat)"
    by (simp add: mult_div_mod_eq)
  moreover have "of_char c mod 256 div 16 < (16 :: nat)" by (simp add: div_less_iff_less_mult)
  ultimately show ?case
    using Cons hexVal_hexDigit [of "of_char c mod 256 div 16"] hexVal_hexDigit [of "of_char c mod 16"]
    by (simp add: hexString_def bytesOf_def)
qed (simp add: hexString_def bytesOf_def)

section \<open>Encryption\<close>

text \<open>The standard library: sealing and opening under key and nonce, and the tag check.\<close>

record cipher =
  gcmSeal :: "string \<Rightarrow> string \<Rightarrow> string \<Rightarrow> string"
  gcmOpen :: "string \<Rightarrow> string \<Rightarrow> string \<Rightarrow> string option"

definition gcmLaw :: "cipher \<Rightarrow> bool" where
  "gcmLaw cp \<longleftrightarrow> (\<forall>key nonce text. gcmOpen cp key nonce (gcmSeal cp key nonce text) = Some text)"

definition nonceSize :: nat where
  "nonceSize = 12"

text \<open>\<open>None\<close> is a failing random source.\<close>

definition EncryptData :: "cipher \<Rightarrow> string option \<Rightarrow> string \<Rightarrow> string \<Rightarrow> (code, string) result" where
  "EncryptData cp nonce plaintext key =
     (if length key \<noteq> 32 then Inl CodeEncryption
      else case nonce of
             None \<Rightarrow> Inl CodeEncryption
           | Some n \<Rightarrow> Inr (hexString (n @ gcmSeal cp key n plaintext)))"

definition DecryptData :: "cipher \<Rightarrow> string \<Rightarrow> string \<Rightarrow> (code, string) result" where
  "DecryptData cp ciphertext key =
     (if length key \<noteq> 32 then Inl CodeEncryption
      else case hexDecode ciphertext of
             None \<Rightarrow> Inl CodeEncryption
           | Some data \<Rightarrow>
               if length data < nonceSize then Inl CodeEncryption
               else case gcmOpen cp key (take nonceSize data) (drop nonceSize data) of
                      None \<Rightarrow> Inl CodeEncryption
                    | Some text \<Rightarrow> Inr text)"

lemma Decrypt_Encrypt:
  assumes "gcmLaw cp" and "length nonce = nonceSize" and "EncryptData cp (Some nonce) text key = Inr enc"
  shows "DecryptData cp enc key = Inr text"
  using assms by (auto simp: EncryptData_def DecryptData_def gcmLaw_def hexDecode_hexString split: if_splits)

lemma Encrypt_nonempty: "EncryptData cp nonce text key = Inr enc \<Longrightarrow> nonce = Some n \<Longrightarrow> length n = nonceSize \<Longrightarrow> enc \<noteq> []"
  by (cases n) (auto simp: EncryptData_def hexString_def bytesOf_def nonceSize_def split: if_splits)

section \<open>The master key\<close>

datatype keyFile = NoKeyFile | UnsafeKeyFile | KeyFile string

text \<open>\<open>readMasterKey\<close>; \<open>None\<close> as error is the missing file, which callers test for.\<close>

definition parseMasterKey :: "string \<Rightarrow> (code, string) result" where
  "parseMasterKey data =
     (case hexDecode (trimSpace (take 67 data)) of
        None \<Rightarrow> Inl CodeEncryption
      | Some key \<Rightarrow> if length key \<noteq> 32 then Inl CodeEncryption else Inr key)"

definition readMasterKey :: "keyFile \<Rightarrow> (code option, string) result" where
  "readMasterKey f =
     (case f of
        NoKeyFile \<Rightarrow> Inl None
      | UnsafeKeyFile \<Rightarrow> Inl (Some CodeEncryption)
      | KeyFile data \<Rightarrow> (case parseMasterKey data of Inl e \<Rightarrow> Inl (Some e) | Inr key \<Rightarrow> Inr key))"

definition ReadMasterKey :: "keyFile \<Rightarrow> (code, string) result" where
  "ReadMasterKey f =
     (case readMasterKey f of Inl None \<Rightarrow> Inl CodeEncryption | Inl (Some e) \<Rightarrow> Inl e | Inr key \<Rightarrow> Inr key)"

text \<open>One file in a directory of encrypted data: unreadable or not JSON, or its two maps.\<close>

datatype encFile = OpaqueEnc | EncMaps nat nat

definition inspectFiles :: "(string \<times> encFile) list \<Rightarrow> (code, unit) result" where
  "inspectFiles files =
     (if list_ex (\<lambda>(name, f). (hasSuffix ''.json'' name \<or> hasSuffix ''.enc'' name) \<and>
                    (case f of OpaqueEnc \<Rightarrow> True | EncMaps secrets entries \<Rightarrow> secrets > 0 \<or> entries > 0)) files
      then Inl CodeEncryption else Inr ())"

text \<open>A directory that is missing, cannot be read, or holds files.\<close>

datatype encDir = NoEncDir | UnreadableEncDir | EncDir "(string \<times> encFile) list"

definition inspectEncryptedStores :: "encDir \<Rightarrow> (code, unit) result" where
  "inspectEncryptedStores d =
     (case d of NoEncDir \<Rightarrow> Inr () | UnreadableEncDir \<Rightarrow> Inl CodeEncryption | EncDir files \<Rightarrow> inspectFiles files)"

text \<open>What creating a key meets: random bytes, the failing calls, and a key linked meanwhile.\<close>

record keyEnv =
  keRandom :: "string option"
  keMkdir :: bool
  keTemp :: bool
  keWrite :: bool
  keLink :: bool
  keRaced :: "keyFile option"
  keSyncDir :: bool

definition GetMasterKey :: "keyEnv \<Rightarrow> encDir list \<Rightarrow> keyFile \<Rightarrow> (code, string) result \<times> keyFile" where
  "GetMasterKey ke dirs f =
     (case readMasterKey f of
        Inr key \<Rightarrow> (Inr key, f)
      | Inl (Some e) \<Rightarrow> (Inl e, f)
      | Inl None \<Rightarrow>
          if list_ex (\<lambda>d. \<not> isOk (inspectEncryptedStores d)) dirs then (Inl CodeEncryption, f)
          else case keRandom ke of
            None \<Rightarrow> (Inl CodeEncryption, f)
          | Some key \<Rightarrow>
              if \<not> keMkdir ke \<or> \<not> keTemp ke \<or> \<not> keWrite ke then (Inl CodeEncryption, f)
              else case keRaced ke of
                Some g \<Rightarrow> (ReadMasterKey g, g)
              | None \<Rightarrow>
                  if \<not> keLink ke then (Inl CodeEncryption, f)
                  else if \<not> keSyncDir ke then (Inl CodeEncryption, KeyFile (hexString key))
                  else (Inr key, KeyFile (hexString key)))"

section \<open>The variables of an application\<close>

record envEntry =
  eeKey :: string
  eeValue :: string
  eeCreatedAt :: int
  eeUpdatedAt :: int

text \<open>\<open>None\<close> entries are a nil map: a file whose JSON has none.\<close>

record envStore =
  esVersion :: int
  esAppID :: string
  esEntries :: "(string \<times> envEntry) list option"

datatype envFile = NoEnvFile | UnreadableEnvFile | CorruptEnvFile | EnvFile envStore

definition entriesOf :: "envStore \<Rightarrow> (string \<times> envEntry) list" where
  "entriesOf s = (case esEntries s of None \<Rightarrow> [] | Some es \<Rightarrow> es)"

definition emptyEnvStore :: "string \<Rightarrow> envStore" where
  "emptyEnvStore appID = \<lparr>esVersion = 1, esAppID = appID, esEntries = Some []\<rparr>"

text \<open>\<open>os.WriteFile\<close> truncates first: a failed write leaves what the environment says.\<close>

record envIO =
  eoMkdir :: bool
  eoFailedWrite :: "envFile option"
  eoNow :: int
  eoNonce :: "string option"
  eoKey :: keyEnv
  eoOthers :: "encDir list"

text \<open>The directory of the variable files: one file for each application.\<close>

type_synonym envDir = "(string \<times> envFile) list"

definition envFileOf :: "string \<Rightarrow> envDir \<Rightarrow> envFile" where
  "envFileOf appID d = (case map_of d appID of None \<Rightarrow> NoEnvFile | Some f \<Rightarrow> f)"

definition LoadEnvStore :: "envIO \<Rightarrow> string \<Rightarrow> envDir \<Rightarrow> (code, envStore) result" where
  "LoadEnvStore io appID d =
     (if \<not> eoMkdir io then Inl CodeFilesystem
      else case envFileOf appID d of
        NoEnvFile \<Rightarrow> Inr (emptyEnvStore appID)
      | UnreadableEnvFile \<Rightarrow> Inl CodeFilesystem
      | CorruptEnvFile \<Rightarrow> Inl CodeConfiguration
      | EnvFile s \<Rightarrow> Inr s)"

text \<open>The file that is written is the one of the identifier inside the store.\<close>

definition SaveEnvStore :: "envIO \<Rightarrow> envStore \<Rightarrow> envDir \<Rightarrow> (code, unit) result \<times> envDir" where
  "SaveEnvStore io s d =
     (if \<not> eoMkdir io then (Inl CodeFilesystem, d)
      else case eoFailedWrite io of
        Some g \<Rightarrow> (Inl CodeFilesystem, AList.update (esAppID s) g d)
      | None \<Rightarrow> (Inr (), AList.update (esAppID s) (EnvFile s) d))"

text \<open>The directory as the creation of a key inspects it.\<close>

definition encOf :: "envDir \<Rightarrow> (string \<times> encFile) list" where
  "encOf d =
     map (\<lambda>(a, f). (a @ ''.env.enc'', case f of EnvFile s \<Rightarrow> EncMaps 0 (length (entriesOf s)) | _ \<Rightarrow> OpaqueEnc))
       (filter (\<lambda>(a, f). f \<noteq> NoEnvFile) d)"

definition masterKeyFor :: "envIO \<Rightarrow> envDir \<Rightarrow> keyFile \<Rightarrow> (code, string) result \<times> keyFile" where
  "masterKeyFor io f k = GetMasterKey (eoKey io) (EncDir (encOf f) # eoOthers io) k"

datatype envOutcome = EnvDone | EnvError code | EnvPanic

definition SetEnv :: "cipher \<Rightarrow> envIO \<Rightarrow> string \<Rightarrow> string \<Rightarrow> string \<Rightarrow> envDir \<times> keyFile \<Rightarrow> envOutcome \<times> envDir \<times> keyFile" where
  "SetEnv cp io appID key val fk =
     (case fk of (f, k) \<Rightarrow>
        case LoadEnvStore io appID f of
          Inl e \<Rightarrow> (EnvError e, f, k)
        | Inr s \<Rightarrow>
            case masterKeyFor io f k of
              (Inl e, k') \<Rightarrow> (EnvError e, f, k')
            | (Inr mk, k') \<Rightarrow>
                case EncryptData cp (eoNonce io) val mk of
                  Inl e \<Rightarrow> (EnvError CodeEncryption, f, k')
                | Inr enc \<Rightarrow>
                    case esEntries s of
                      None \<Rightarrow> (EnvPanic, f, k')
                    | Some es \<Rightarrow>
                        let entry = \<lparr>eeKey = key, eeValue = enc, eeCreatedAt = eoNow io, eeUpdatedAt = eoNow io\<rparr> in
                        case SaveEnvStore io (s\<lparr>esEntries := Some (AList.update key entry es)\<rparr>) f of
                          (Inl e, f') \<Rightarrow> (EnvError e, f', k')
                        | (Inr _, f') \<Rightarrow> (EnvDone, f', k'))"

definition GetEnv :: "cipher \<Rightarrow> envIO \<Rightarrow> string \<Rightarrow> string \<Rightarrow> envDir \<times> keyFile \<Rightarrow> (code, string) result \<times> keyFile" where
  "GetEnv cp io appID key fk =
     (case fk of (f, k) \<Rightarrow>
        case LoadEnvStore io appID f of
          Inl e \<Rightarrow> (Inl e, k)
        | Inr s \<Rightarrow>
            case map_of (entriesOf s) key of
              None \<Rightarrow> (Inl CodeNotFound, k)
            | Some entry \<Rightarrow>
                case masterKeyFor io f k of
                  (Inl e, k') \<Rightarrow> (Inl e, k')
                | (Inr mk, k') \<Rightarrow>
                    (case DecryptData cp (eeValue entry) mk of Inl e \<Rightarrow> Inl CodeEncryption | Inr v \<Rightarrow> Inr v, k'))"

definition redacted :: string where
  "redacted = ''***REDACTED***''"

definition ListEnv :: "envIO \<Rightarrow> string \<Rightarrow> envDir \<Rightarrow> (code, (string \<times> string) list) result" where
  "ListEnv io appID f = rbind (LoadEnvStore io appID f) (\<lambda>s. Inr (map (\<lambda>(k, e). (k, redacted)) (entriesOf s)))"

definition UnsetEnv :: "envIO \<Rightarrow> string \<Rightarrow> string \<Rightarrow> envDir \<Rightarrow> (code, unit) result \<times> envDir" where
  "UnsetEnv io appID key f =
     (case LoadEnvStore io appID f of
        Inl e \<Rightarrow> (Inl e, f)
      | Inr s \<Rightarrow>
          if map_of (entriesOf s) key = None then (Inl CodeNotFound, f)
          else SaveEnvStore io (s\<lparr>esEntries := Some (AList.delete key (entriesOf s))\<rparr>) f)"

text \<open>The loop over the map: the first value that does not decrypt fails it.\<close>

fun decryptAll :: "cipher \<Rightarrow> string \<Rightarrow> (string \<times> envEntry) list \<Rightarrow> (code, (string \<times> string) list) result" where
  "decryptAll cp mk [] = Inr []"
| "decryptAll cp mk ((k, e) # es) =
     (case DecryptData cp (eeValue e) mk of
        Inl c \<Rightarrow> Inl CodeEncryption
      | Inr v \<Rightarrow> rbind (decryptAll cp mk es) (\<lambda>vs. Inr ((k, v) # vs)))"

definition GetAllEnvVars :: "cipher \<Rightarrow> envIO \<Rightarrow> string \<Rightarrow> envDir \<times> keyFile \<Rightarrow> (code, (string \<times> string) list) result \<times> keyFile" where
  "GetAllEnvVars cp io appID fk =
     (case fk of (f, k) \<Rightarrow>
        case LoadEnvStore io appID f of
          Inl e \<Rightarrow> (Inl e, k)
        | Inr s \<Rightarrow>
            case masterKeyFor io f k of
              (Inl e, k') \<Rightarrow> (Inl e, k')
            | (Inr mk, k') \<Rightarrow> (decryptAll cp mk (entriesOf s), k'))"

definition ClearAllEnv :: "envIO \<Rightarrow> string \<Rightarrow> envDir \<Rightarrow> (code, unit) result \<times> envDir" where
  "ClearAllEnv io appID f = SaveEnvStore io (emptyEnvStore appID) f"

definition GetEnvVarCount :: "envIO \<Rightarrow> string \<Rightarrow> envDir \<Rightarrow> (code, nat) result" where
  "GetEnvVarCount io appID f = rbind (LoadEnvStore io appID f) (\<lambda>s. Inr (length (entriesOf s)))"

subsection \<open>Masking\<close>

definition SensitiveKeys :: "string list" where
  "SensitiveKeys =
     [''SECRET'', ''KEY'', ''TOKEN'', ''PASSWORD'', ''APIKEY'', ''API_KEY'', ''PRIVATE_KEY'', ''AUTH'', ''CREDENTIAL'',
      ''CREDENTIALS'', ''CERT'', ''CERTIFICATE'', ''KEY_SECRET'', ''AWS_SECRET'', ''DATABASE_PASSWORD'']"

definition upperChar :: "char \<Rightarrow> char" where
  "upperChar c = (let n = of_char c :: nat in if 97 \<le> n \<and> n \<le> 122 then char_of (n - 32) else c)"

definition IsSensitiveKey :: "string \<Rightarrow> bool" where
  "IsSensitiveKey key \<longleftrightarrow> list_ex (containsStr (map upperChar key)) SensitiveKeys"

definition MaskValue :: "string \<Rightarrow> string \<Rightarrow> string" where
  "MaskValue key val = (if IsSensitiveKey key then redacted else val)"

section \<open>Values stay readable\<close>

text \<open>
  Every stored value decrypts under the master key on disk; without a key file there is nothing to
  decrypt.
\<close>

definition readable :: "cipher \<Rightarrow> envDir \<Rightarrow> keyFile \<Rightarrow> bool" where
  "readable cp d k \<longleftrightarrow>
     distinct (map fst d) \<and>
     (\<forall>a s. map_of d a = Some (EnvFile s) \<longrightarrow>
        distinct (map fst (entriesOf s)) \<and>
        (\<forall>(n, e)\<in>set (entriesOf s). \<exists>mk. ReadMasterKey k = Inr mk \<and> isOk (DecryptData cp (eeValue e) mk)))"

definition keyIOOK :: "keyEnv \<Rightarrow> bool" where
  "keyIOOK ke \<longleftrightarrow> (\<forall>key. keRandom ke = Some key \<longrightarrow> length key = 32)"

lemma trimSpace_hex: "trimSpace (hexString s) = hexString s"
proof (rule trimSpace_plain)
  fix c
  assume "c \<in> set (hexString s)"
  then have "isLowerHex c" using list_all_hexEncode [of "bytesOf s"] by (auto simp: hexString_def list_all_iff)
  moreover have "list_all (\<lambda>c. \<not> isSpace c) ''0123456789abcdef''" by code_simp
  ultimately show "\<not> isSpace c" by (auto simp: isLowerHex_def list_all_iff)
qed

lemma parse_hexString: "length key = 32 \<Longrightarrow> parseMasterKey (hexString key) = Inr key"
  by (simp add: parseMasterKey_def trimSpace_hex hexDecode_hexString hexString_def bytesOf_def)
    (simp flip: hexString_def bytesOf_def add: hexDecode_hexString trimSpace_hex)

lemma readMasterKey_created: "length key = 32 \<Longrightarrow> readMasterKey (KeyFile (hexString key)) = Inr key"
  by (simp add: readMasterKey_def parse_hexString)

lemma GetMasterKey_key:
  assumes "keyIOOK ke" and "GetMasterKey ke dirs k = (Inr mk, k')"
  shows "ReadMasterKey k' = Inr mk"
  using assms
  by (auto simp: GetMasterKey_def keyIOOK_def ReadMasterKey_def readMasterKey_created
      split: sum.split_asm option.split_asm if_splits)

lemma GetMasterKey_keeps:
  assumes "GetMasterKey ke dirs k = (r, k')" and "k \<noteq> NoKeyFile"
  shows "k' = k"
  using assms by (auto simp: GetMasterKey_def readMasterKey_def split: keyFile.splits sum.splits option.splits if_splits)

lemma GetMasterKey_creates:
  assumes "GetMasterKey ke dirs k = (r, k')" and "k' \<noteq> k" and "dir \<in> set dirs"
  shows "isOk (inspectEncryptedStores dir)"
proof -
  have "k = NoKeyFile" using GetMasterKey_keeps [OF assms(1)] assms(2) by blast
  with assms show ?thesis
    by (auto simp: GetMasterKey_def readMasterKey_def list_ex_iff split: if_splits)
qed

lemma encOf_none:
  assumes "isOk (inspectEncryptedStores (EncDir (encOf d)))" and "map_of d a = Some (EnvFile s)"
  shows "entriesOf s = []"
proof -
  have "(a @ ''.env.enc'', EncMaps 0 (length (entriesOf s))) \<in> set (encOf d)"
    using map_of_SomeD [OF assms(2)] by (force simp: encOf_def)
  moreover have "hasSuffix ''.enc'' (a @ ''.env.enc'')"
    using hasSuffix_append [of "''.enc''" "a @ ''.env''"] by simp
  ultimately show ?thesis
    using assms(1) by (fastforce simp: inspectEncryptedStores_def inspectFiles_def list_ex_iff split: if_splits)
qed

lemma masterKeyFor_readable:
  assumes "readable cp d k" and "masterKeyFor io d k = (r, k')"
  shows "readable cp d k'"
proof (cases "k' = k")
  case False
  have "isOk (inspectEncryptedStores (EncDir (encOf d)))"
    by (rule GetMasterKey_creates [OF assms(2) [unfolded masterKeyFor_def] False]) simp
  with assms(1) encOf_none show ?thesis unfolding readable_def by fastforce
qed (use assms in simp)

lemma readable_update:
  assumes "readable cp d k" and "distinct (map fst (entriesOf s))"
    and "\<forall>(n, e)\<in>set (entriesOf s). \<exists>mk. ReadMasterKey k = Inr mk \<and> isOk (DecryptData cp (eeValue e) mk)"
  shows "readable cp (AList.update a (EnvFile s) d) k"
  using assms unfolding readable_def by (auto simp: AList.update_conv' distinct_update split: if_splits)

lemma Load_entries:
  assumes "readable cp d k" and "LoadEnvStore io appID d = Inr s"
  shows "distinct (map fst (entriesOf s))"
    and "\<forall>(n, e)\<in>set (entriesOf s). \<exists>mk. ReadMasterKey k = Inr mk \<and> isOk (DecryptData cp (eeValue e) mk)"
proof -
  have "entriesOf s = [] \<or> map_of d appID = Some (EnvFile s)"
    using assms(2) by (auto simp: LoadEnvStore_def envFileOf_def emptyEnvStore_def entriesOf_def split: if_splits envFile.splits option.splits)
  then have "distinct (map fst (entriesOf s)) \<and>
      (\<forall>(n, e)\<in>set (entriesOf s). \<exists>mk. ReadMasterKey k = Inr mk \<and> isOk (DecryptData cp (eeValue e) mk))"
  proof
    assume "map_of d appID = Some (EnvFile s)"
    with assms(1) show ?thesis unfolding readable_def by blast
  qed simp
  then show "distinct (map fst (entriesOf s))"
    and "\<forall>(n, e)\<in>set (entriesOf s). \<exists>mk. ReadMasterKey k = Inr mk \<and> isOk (DecryptData cp (eeValue e) mk)"
    by blast+
qed

lemma update_entry:
  "(n, e) \<in> set (AList.update key x es) \<Longrightarrow> (n, e) = (key, x) \<or> (n, e) \<in> set es"
  by (induction es) (auto split: if_splits)


definition plainCipher :: cipher where
  "plainCipher = \<lparr>gcmSeal = (\<lambda>key nonce text. text), gcmOpen = (\<lambda>key nonce data. Some data)\<rparr>"

definition demoEnvIO :: envIO where
  "demoEnvIO =
     \<lparr>eoMkdir = True, eoFailedWrite = None, eoNow = 0, eoNonce = Some (replicate 12 CHR ''n''),
      eoKey = \<lparr>keRandom = Some (replicate 32 CHR ''k''), keMkdir = True, keTemp = True, keWrite = True, keLink = True,
               keRaced = None, keSyncDir = True\<rparr>,
      eoOthers = []\<rparr>"

lemma demo_SetEnv: "fst (SetEnv plainCipher demoEnvIO ''7'' ''TOKEN'' ''abc'' ([], NoKeyFile)) = EnvDone"
  by code_simp


end
