(* ===== verification/Redact.thy ===== *)
theory Redact
  imports GoStrings "HOL-Library.AList"
begin

text \<open>
  Redaction of output (\<open>internal/errors/redact.go\<close>, \<open>redact_registry.go\<close>, and the coverage of an
  application in \<open>internal/secrets/overlay.go\<close>): the reference-counted registry of live secret values,
  the matcher it compiles, the credential shapes that are scrubbed from every text, and the owners
  (applications and launches) that hold values.  The matcher is Go's leftmost-first alternation, the
  longest value first.  Lower-casing is the one of ASCII text; the passes for connection strings and
  key blocks that follow the credential shapes are left out.
\<close>

section \<open>Replacing matches\<close>

text \<open>The first of the patterns that matches at the head of the text.\<close>

definition matchAt :: "string list \<Rightarrow> string \<Rightarrow> string option" where
  "matchAt pats s = find (\<lambda>p. hasPrefix p s) pats"

text \<open>\<open>re.ReplaceAllString(s, "***")\<close> for an alternation of literal, nonempty patterns.\<close>

function maskValues :: "string list \<Rightarrow> string \<Rightarrow> string" where
  "maskValues pats [] = []"
| "maskValues pats (c # cs) =
     (case matchAt pats (c # cs) of
        None \<Rightarrow> c # maskValues pats cs
      | Some p \<Rightarrow> ''***'' @ maskValues pats (drop (length p - 1) cs))"
  by pat_completeness auto
termination by (relation "measure (\<lambda>(pats, s). length s)") auto

section \<open>The registry\<close>

text \<open>\<open>strings.FieldsFunc\<close> on line ends.\<close>

definition isLineEnd :: "char \<Rightarrow> bool" where
  "isLineEnd c \<longleftrightarrow> (let n = of_char c :: nat in n = 10 \<or> n = 13)"

lemma dropWhile_shorter: "dropWhile P s = c # cs \<Longrightarrow> length (dropWhile Q cs) < length s"
  using length_dropWhile_le [of P s] length_dropWhile_le [of Q cs] by simp

function lineFields :: "string \<Rightarrow> string list" where
  "lineFields s =
     (case dropWhile isLineEnd s of
        [] \<Rightarrow> []
      | c # cs \<Rightarrow> (c # takeWhile (\<lambda>d. \<not> isLineEnd d) cs) # lineFields (dropWhile (\<lambda>d. \<not> isLineEnd d) cs))"
  by pat_completeness auto
termination by (relation "measure length") (auto intro: dropWhile_shorter)

declare lineFields.simps [simp del]

definition patternsOf :: "string list \<Rightarrow> string list" where
  "patternsOf vals = sort_key (\<lambda>v. (- int (length v), v)) (remdups (vals @ concat (map lineFields vals)))"

text \<open>\<open>refs\<close>, and the matcher that was last compiled; an empty list is the nil matcher.\<close>

record registry =
  rgRefs :: "(string \<times> nat) list"
  rgMatcher :: "string list"

definition emptyRegistry :: registry where
  "emptyRegistry = \<lparr>rgRefs = [], rgMatcher = []\<rparr>"

definition refCount :: "registry \<Rightarrow> string \<Rightarrow> nat" where
  "refCount rg v = (case map_of (rgRefs rg) v of None \<Rightarrow> 0 | Some n \<Rightarrow> n)"

text \<open>The loop of \<open>changeReferences\<close>, with its flag, and the rebuild after it.\<close>

definition countAfter :: "int \<Rightarrow> string \<Rightarrow> registry \<Rightarrow> nat" where
  "countAfter delta v rg = nat (max 0 (int (refCount rg v) + delta))"

definition changeOne :: "int \<Rightarrow> string \<Rightarrow> registry \<Rightarrow> registry" where
  "changeOne delta v rg =
     rg\<lparr>rgRefs := (if countAfter delta v rg = 0 then AList.delete v (rgRefs rg)
                   else AList.update v (countAfter delta v rg) (rgRefs rg))\<rparr>"

fun changeLoop :: "string list \<Rightarrow> int \<Rightarrow> registry \<Rightarrow> bool \<Rightarrow> registry \<times> bool" where
  "changeLoop [] delta rg changed = (rg, changed)"
| "changeLoop (v # vs) delta rg changed =
     (if v = '''' then changeLoop vs delta rg changed
      else changeLoop vs delta (changeOne delta v rg) (changed \<or> (refCount rg v = 0) \<noteq> (countAfter delta v rg = 0)))"

definition rebuildLocked :: "registry \<Rightarrow> registry" where
  "rebuildLocked rg = rg\<lparr>rgMatcher := (if rgRefs rg = [] then [] else patternsOf (map fst (rgRefs rg)))\<rparr>"

definition changeReferences :: "string list \<Rightarrow> int \<Rightarrow> registry \<Rightarrow> registry" where
  "changeReferences vals delta rg =
     (case changeLoop vals delta rg False of (rg', changed) \<Rightarrow> if changed then rebuildLocked rg' else rg')"

definition RegisterSecretValue :: "string \<Rightarrow> registry \<Rightarrow> registry" where
  "RegisterSecretValue v = changeReferences [v] 1"

definition UnregisterSecretValue :: "string \<Rightarrow> registry \<Rightarrow> registry" where
  "UnregisterSecretValue v = changeReferences [v] (- 1)"

definition registeredValueCount :: "registry \<Rightarrow> nat" where
  "registeredValueCount rg = length (rgRefs rg)"

definition applyRegisteredValues :: "registry \<Rightarrow> string \<Rightarrow> string" where
  "applyRegisteredValues rg s = (if rgMatcher rg = [] then s else maskValues (rgMatcher rg) s)"

text \<open>The values and the names of an environment that carry a registered value.\<close>

fun secretValuesLoop :: "registry \<Rightarrow> string list \<Rightarrow> string list \<Rightarrow> string list" where
  "secretValuesLoop rg seen [] = []"
| "secretValuesLoop rg seen (kv # kvs) =
     (case cut (CHR ''='') kv of
        (_, Some v) \<Rightarrow>
          if refCount rg v > 0 \<and> v \<notin> set seen then v # secretValuesLoop rg (v # seen) kvs else secretValuesLoop rg seen kvs
      | (_, None) \<Rightarrow> secretValuesLoop rg seen kvs)"

definition SecretValuesInEnv :: "registry \<Rightarrow> string list \<Rightarrow> string list" where
  "SecretValuesInEnv rg = secretValuesLoop rg []"

definition SecretEnvNames :: "registry \<Rightarrow> string list \<Rightarrow> string list" where
  "SecretEnvNames rg env =
     concat (map (\<lambda>kv. case cut (CHR ''='') kv of (k, Some v) \<Rightarrow> if refCount rg v > 0 then [k] else [] | (_, None) \<Rightarrow> []) env)"

section \<open>Credential shapes\<close>

definition credentialPatterns :: "string list" where
  "credentialPatterns =
     [''sk-'', ''pk-'', ''ghp_'', ''gho_'', ''ghu_'', ''ghs_'', ''xoxb-'', ''xoxp-'', ''AKIA'', ''ASIA'', ''eyJ'',
      ''Bearer '', ''X-API-Key'', ''apiKey='', ''apikey='', ''password='', ''token='', ''secret='']"

definition isTokenChar :: "char \<Rightarrow> bool" where
  "isTokenChar c \<longleftrightarrow>
     (let n = of_char c :: nat in (97 \<le> n \<and> n \<le> 122) \<or> (65 \<le> n \<and> n \<le> 90) \<or> (48 \<le> n \<and> n \<le> 57))"

definition credentialChar :: "char \<Rightarrow> bool" where
  "credentialChar c \<longleftrightarrow> isTokenChar c \<or> c \<in> set ''.-_''"

text \<open>
  The inner loop: the text before the index is settled, so the function walks over what is left.
  Each match takes the token that follows it along.
\<close>

function scrubPattern :: "string \<Rightarrow> string \<Rightarrow> string" where
  "scrubPattern lowPat [] = []"
| "scrubPattern lowPat (c # cs) =
     (if lowPat \<noteq> [] \<and> hasPrefix lowPat (map lowerChar (c # cs))
      then ''***'' @ scrubPattern lowPat (dropWhile credentialChar (drop (length lowPat - 1) cs))
      else c # scrubPattern lowPat cs)"
  by pat_completeness auto
termination
  by (relation "measure (\<lambda>(p, s). length s)") (auto intro!: le_imp_less_Suc order_trans [OF length_dropWhile_le])

definition redactCredentials :: "string \<Rightarrow> string" where
  "redactCredentials s = fold (\<lambda>pat. scrubPattern (map lowerChar pat)) credentialPatterns s"

text \<open>\<open>Redact\<close> up to the two regular expressions at its end.\<close>

definition RedactText :: "registry \<Rightarrow> string \<Rightarrow> string" where
  "RedactText rg s = (if s = '''' then s else redactCredentials (applyRegisteredValues rg s))"

section \<open>Owners\<close>

text \<open>
  The registry, the values each application covers, and the launches that still hold values.  A launch
  is known by the handle \<open>AcquireSecretValues\<close> returned; calling it twice releases once.
\<close>

record coverage =
  cvReg :: registry
  cvApps :: "(string \<times> string list) list"
  cvNext :: nat
  cvHolds :: "(nat \<times> string list) list"

definition emptyCoverage :: coverage where
  "emptyCoverage = \<lparr>cvReg = emptyRegistry, cvApps = [], cvNext = 0, cvHolds = []\<rparr>"

definition ownedBy :: "('k \<times> string list) list \<Rightarrow> 'k \<Rightarrow> string list" where
  "ownedBy al k = (case map_of al k of None \<Rightarrow> [] | Some vs \<Rightarrow> vs)"

definition replaceCoverage :: "string \<Rightarrow> string list \<Rightarrow> coverage \<Rightarrow> coverage" where
  "replaceCoverage owner vals cv =
     (let next = remdups (filter (\<lambda>v. v \<noteq> '''') vals);
          registered = fold RegisterSecretValue next (cvReg cv);
          released = fold UnregisterSecretValue (ownedBy (cvApps cv) owner) registered
      in cv\<lparr>cvReg := released,
            cvApps := (if next = [] then AList.delete owner (cvApps cv) else AList.update owner next (cvApps cv))\<rparr>)"

definition AcquireCoverage :: "string \<Rightarrow> string list \<Rightarrow> coverage \<Rightarrow> coverage" where
  "AcquireCoverage = replaceCoverage"

definition ReleaseCoverage :: "string \<Rightarrow> coverage \<Rightarrow> coverage" where
  "ReleaseCoverage owner = AcquireCoverage owner []"

definition AcquireSecretValues :: "string list \<Rightarrow> coverage \<Rightarrow> nat \<times> coverage" where
  "AcquireSecretValues vals cv =
     (cvNext cv,
      cv\<lparr>cvReg := changeReferences vals 1 (cvReg cv), cvNext := cvNext cv + 1,
         cvHolds := AList.update (cvNext cv) vals (cvHolds cv)\<rparr>)"

definition releaseHold :: "nat \<Rightarrow> coverage \<Rightarrow> coverage" where
  "releaseHold handle cv =
     (case map_of (cvHolds cv) handle of
        None \<Rightarrow> cv
      | Some vals \<Rightarrow> cv\<lparr>cvReg := changeReferences vals (- 1) (cvReg cv), cvHolds := AList.delete handle (cvHolds cv)\<rparr>)"

text \<open>What can happen to the owners of a process.\<close>

datatype coverOp = CoverApp string "string list" | UncoverApp string | HoldValues "string list" | ReleaseHold nat

fun coverStep :: "coverOp \<Rightarrow> coverage \<Rightarrow> coverage" where
  "coverStep (CoverApp owner vals) cv = AcquireCoverage owner vals cv"
| "coverStep (UncoverApp owner) cv = ReleaseCoverage owner cv"
| "coverStep (HoldValues vals) cv = snd (AcquireSecretValues vals cv)"
| "coverStep (ReleaseHold handle) cv = releaseHold handle cv"

section \<open>Nothing registered survives\<close>

text \<open>
  The passes only replace pieces of the text by stars, so a text without stars that occurs afterwards
  occurred before; \<open>h\<close> is the identity or lower-casing.
\<close>

definition starSafe :: "(char \<Rightarrow> char) \<Rightarrow> bool" where
  "starSafe h \<longleftrightarrow> (\<forall>c. h c = CHR ''*'' \<longleftrightarrow> c = CHR ''*'')"

lemma starSafe_id: "starSafe (\<lambda>c. c)"
  by (simp add: starSafe_def)

lemma starSafe_lower: "starSafe lowerChar"
  unfolding starSafe_def
proof
  fix c
  have star: "c = CHR ''*'' \<longleftrightarrow> of_char c = (42 :: nat)" for c
    using of_char_eq_iff [of c "CHR ''*''", where ?'a = nat] by simp
  show "lowerChar c = CHR ''*'' \<longleftrightarrow> c = CHR ''*''"
    unfolding star by (simp add: lowerChar_def Let_def)
qed

lemma star_fixed: "starSafe h \<Longrightarrow> h (CHR ''*'') = CHR ''*''"
  by (simp add: starSafe_def)

lemma hasPrefix_Nil [simp]: "hasPrefix [] s"
  by (simp add: hasPrefix_def)

lemma hasPrefix_Cons: "hasPrefix (v # vs) (c # cs) \<longleftrightarrow> v = c \<and> hasPrefix vs cs"
  by (auto simp: hasPrefix_def)

lemma hasPrefix_ConsNil [simp]: "\<not> hasPrefix (v # vs) []"
  by (simp add: hasPrefix_def)

lemma containsStr_append: "containsStr cs v \<Longrightarrow> containsStr (ds @ cs) v"
  by (induction ds) auto

lemma containsStr_drop: "containsStr (map h (drop n cs)) v \<Longrightarrow> containsStr (map h cs) v"
  using containsStr_append [of "map h (drop n cs)" v "map h (take n cs)"] by (simp flip: map_append)

lemma containsStr_dropWhile: "containsStr (map h (dropWhile P cs)) v \<Longrightarrow> containsStr (map h cs) v"
  by (induction cs) (auto split: if_splits)

lemma stars_free:
  assumes "starSafe h" and "v \<noteq> []" and "CHR ''*'' \<notin> set v" and "containsStr (map h (''***'' @ s)) v"
  shows "containsStr (map h s) v"
proof -
  obtain d ds where v: "v = d # ds" "d \<noteq> CHR ''*''" using assms(2,3) by (cases v) auto
  show ?thesis using assms(4) v by (simp add: star_fixed [OF assms(1)] hasPrefix_Cons)
qed



lemma maskValues_prefix:
  "starSafe h \<Longrightarrow> CHR ''*'' \<notin> set w \<Longrightarrow> hasPrefix w (map h (maskValues pats s)) \<Longrightarrow> hasPrefix w (map h s)"
proof (induction pats s arbitrary: w rule: maskValues.induct)
  case (2 pats c cs)
  show ?case
  proof (cases w)
    case (Cons d ds)
    then have d: "d \<noteq> CHR ''*''" "CHR ''*'' \<notin> set ds" using "2.prems"(2) by auto
    show ?thesis
    proof (cases "matchAt pats (c # cs)")
      case None
      with "2.prems"(3) Cons have "d = h c" "hasPrefix ds (map h (maskValues pats cs))" by (simp_all add: hasPrefix_Cons)
      with "2.IH"(1) [OF None "2.prems"(1) d(2)] Cons show ?thesis by (simp add: hasPrefix_Cons)
    next
      case (Some p)
      with "2.prems"(3) Cons have "d = h (CHR ''*'')" by (simp add: hasPrefix_Cons)
      with d(1) star_fixed [OF "2.prems"(1)] show ?thesis by blast
    qed
  qed simp
qed simp

lemma maskValues_contains:
  "starSafe h \<Longrightarrow> v \<noteq> [] \<Longrightarrow> CHR ''*'' \<notin> set v \<Longrightarrow> containsStr (map h (maskValues pats s)) v \<Longrightarrow> containsStr (map h s) v"
proof (induction pats s rule: maskValues.induct)
  case (2 pats c cs)
  show ?case
  proof (cases "matchAt pats (c # cs)")
    case None
    have "hasPrefix v (map h (c # cs)) \<or> containsStr (map h (maskValues pats cs)) v"
      using "2.prems"(4) None maskValues_prefix [OF "2.prems"(1,3), of pats "c # cs"] by auto
    with "2.IH"(1) [OF None "2.prems"(1-3)] show ?thesis by auto
  next
    case (Some p)
    then have "containsStr (map h (''***'' @ maskValues pats (drop (length p - 1) cs))) v" using "2.prems"(4) by simp
    from stars_free [OF "2.prems"(1-3) this] "2.IH"(2) [OF Some "2.prems"(1-3)]
    have "containsStr (map h (drop (length p - 1) cs)) v" by blast
    from containsStr_drop [OF this] show ?thesis by simp
  qed
qed simp

lemma scrub_prefix:
  "starSafe h \<Longrightarrow> CHR ''*'' \<notin> set w \<Longrightarrow> hasPrefix w (map h (scrubPattern q s)) \<Longrightarrow> hasPrefix w (map h s)"
proof (induction q s arbitrary: w rule: scrubPattern.induct)
  case (2 q c cs)
  show ?case
  proof (cases w)
    case (Cons d ds)
    then have d: "d \<noteq> CHR ''*''" "CHR ''*'' \<notin> set ds" using "2.prems"(2) by auto
    show ?thesis
    proof (cases "q \<noteq> [] \<and> hasPrefix q (map lowerChar (c # cs))")
      case False
      then have "scrubPattern q (c # cs) = c # scrubPattern q cs" by (subst scrubPattern.simps(2)) (rule if_not_P)
      with "2.prems"(3) Cons have "d = h c" "hasPrefix ds (map h (scrubPattern q cs))" by (simp_all add: hasPrefix_Cons)
      with "2.IH"(2) [OF False "2.prems"(1) d(2)] Cons show ?thesis by (simp add: hasPrefix_Cons)
    next
      case True
      with "2.prems"(3) Cons have "d = h (CHR ''*'')" by (simp add: hasPrefix_Cons)
      with d(1) star_fixed [OF "2.prems"(1)] show ?thesis by blast
    qed
  qed simp
qed simp

lemma scrub_contains:
  "starSafe h \<Longrightarrow> v \<noteq> [] \<Longrightarrow> CHR ''*'' \<notin> set v \<Longrightarrow> containsStr (map h (scrubPattern q s)) v \<Longrightarrow> containsStr (map h s) v"
proof (induction q s rule: scrubPattern.induct)
  case (2 q c cs)
  show ?case
  proof (cases "q \<noteq> [] \<and> hasPrefix q (map lowerChar (c # cs))")
    case False
    then have "scrubPattern q (c # cs) = c # scrubPattern q cs" by (subst scrubPattern.simps(2)) (rule if_not_P)
    with "2.prems"(4) scrub_prefix [OF "2.prems"(1,3), of q "c # cs"]
    have "hasPrefix v (map h (c # cs)) \<or> containsStr (map h (scrubPattern q cs)) v" by auto
    with "2.IH"(2) [OF False "2.prems"(1-3)] show ?thesis by auto
  next
    case True
    let ?rest = "dropWhile credentialChar (drop (length q - 1) cs)"
    have "containsStr (map h (''***'' @ scrubPattern q ?rest)) v" using "2.prems"(4) True by simp
    from stars_free [OF "2.prems"(1-3) this] "2.IH"(1) [OF True "2.prems"(1-3)]
    have "containsStr (map h ?rest) v" by blast
    from containsStr_drop [OF containsStr_dropWhile [OF this]] show ?thesis by simp
  qed
qed simp

text \<open>After its own pass a literal does not occur.\<close>

lemma maskValues_hides:
  assumes "v \<in> set pats" and "v \<noteq> []" and "CHR ''*'' \<notin> set v"
  shows "\<not> containsStr (maskValues pats s) v"
  using assms
proof (induction pats s rule: maskValues.induct)
  case (2 pats c cs)
  show ?case
  proof (cases "matchAt pats (c # cs)")
    case None
    then have "\<not> hasPrefix v (c # cs)" using "2.prems"(1) by (auto simp: matchAt_def find_None_iff)
    moreover have "hasPrefix v (c # cs)" if "hasPrefix v (c # maskValues pats cs)"
      using maskValues_prefix [OF starSafe_id "2.prems"(3), of pats "c # cs"] that None by simp
    moreover have "\<not> containsStr (maskValues pats cs) v" by (rule "2.IH"(1) [OF None "2.prems"])
    ultimately show ?thesis using None by auto
  next
    case (Some p)
    show ?thesis
    proof
      assume "containsStr (maskValues pats (c # cs)) v"
      then have "containsStr (map (\<lambda>c. c) (''***'' @ maskValues pats (drop (length p - 1) cs))) v" using Some by simp
      from stars_free [OF starSafe_id "2.prems"(2,3) this] "2.IH"(2) [OF Some "2.prems"] show False by simp
    qed
  qed
qed simp

lemma scrub_hides:
  assumes "q \<noteq> []" and "CHR ''*'' \<notin> set q"
  shows "\<not> containsStr (map lowerChar (scrubPattern q s)) q"
  using assms
proof (induction q s rule: scrubPattern.induct)
  case (2 q c cs)
  show ?case
  proof (cases "hasPrefix q (map lowerChar (c # cs))")
    case False
    then have step: "scrubPattern q (c # cs) = c # scrubPattern q cs" by simp
    have "\<not> hasPrefix q (map lowerChar (c # scrubPattern q cs))"
      using scrub_prefix [OF starSafe_lower "2.prems"(2), of q "c # cs"] False unfolding step by blast
    moreover have "\<not> containsStr (map lowerChar (scrubPattern q cs)) q" using "2.IH"(2) "2.prems" False by blast
    ultimately show ?thesis unfolding step by simp
  next
    case True
    let ?rest = "dropWhile credentialChar (drop (length q - 1) cs)"
    show ?thesis
    proof
      assume "containsStr (map lowerChar (scrubPattern q (c # cs))) q"
      then have "containsStr (map lowerChar (''***'' @ scrubPattern q ?rest)) q" using True "2.prems"(1) by simp
      from stars_free [OF starSafe_lower "2.prems"(1,2) this] "2.IH"(1) "2.prems" True show False by blast
    qed
  qed
qed simp

lemma fold_scrub_contains:
  "starSafe h \<Longrightarrow> v \<noteq> [] \<Longrightarrow> CHR ''*'' \<notin> set v \<Longrightarrow>
   containsStr (map h (fold (\<lambda>pat. scrubPattern (map lowerChar pat)) ps s)) v \<Longrightarrow> containsStr (map h s) v"
  by (induction ps arbitrary: s) (auto dest: scrub_contains)

lemma fold_scrub_hides:
  assumes "pat \<in> set ps" and "map lowerChar pat \<noteq> []" and "CHR ''*'' \<notin> set (map lowerChar pat)"
  shows "\<not> containsStr (map lowerChar (fold (\<lambda>pat. scrubPattern (map lowerChar pat)) ps s)) (map lowerChar pat)"
  using assms
proof (induction ps arbitrary: s)
  case (Cons p ps)
  show ?case
  proof (cases "pat = p")
    case True
    show ?thesis
    proof
      assume "containsStr (map lowerChar (fold (\<lambda>pat. scrubPattern (map lowerChar pat)) (p # ps) s)) (map lowerChar pat)"
      then have "containsStr (map lowerChar (scrubPattern (map lowerChar p) s)) (map lowerChar pat)"
        using fold_scrub_contains [OF starSafe_lower Cons.prems(2,3)] by simp
      with scrub_hides [OF Cons.prems(2,3)] True show False by simp
    qed
  next
    case False
    with Cons show ?thesis by simp
  qed
qed simp

section \<open>References are counted\<close>

lemma refCount_changeOne: "refCount (changeOne delta v rg) w = (if w = v then countAfter delta v rg else refCount rg w)"
  by (simp add: changeOne_def refCount_def AList.delete_conv' AList.update_conv')

lemma changeOne_matcher [simp]: "rgMatcher (changeOne delta v rg) = rgMatcher rg"
  by (simp add: changeOne_def)

definition refsOK :: "registry \<Rightarrow> bool" where
  "refsOK rg \<longleftrightarrow> distinct (map fst (rgRefs rg)) \<and> (\<forall>(v, n)\<in>set (rgRefs rg). v \<noteq> '''' \<and> n > 0)"

lemma refCount_zero:
  assumes "refsOK rg"
  shows "refCount rg v = 0 \<longleftrightarrow> v \<notin> fst ` set (rgRefs rg)"
proof (cases "map_of (rgRefs rg) v")
  case None
  then have "v \<notin> fst ` set (rgRefs rg)" by (simp add: map_of_eq_None_iff)
  with None show ?thesis by (simp add: refCount_def)
next
  case (Some n)
  from map_of_SomeD [OF this] have "(v, n) \<in> set (rgRefs rg)" .
  then have "n > 0" "v \<in> fst ` set (rgRefs rg)" using assms by (force simp: refsOK_def)+
  with Some show ?thesis by (simp add: refCount_def)
qed

lemma set_delete_subset: "x \<in> set (AList.delete k al) \<Longrightarrow> x \<in> set al"
  by (induction al) (auto split: if_splits)

lemma set_update_cases: "x \<in> set (AList.update k v al) \<Longrightarrow> x = (k, v) \<or> x \<in> set al"
  by (induction al) (auto split: if_splits)

lemma changeOne_OK:
  assumes "refsOK rg" and "v \<noteq> ''''"
  shows "refsOK (changeOne delta v rg)"
proof (cases "countAfter delta v rg = 0")
  case True
  with assms(1) show ?thesis unfolding refsOK_def changeOne_def
    by (auto simp: distinct_delete dest: set_delete_subset)
next
  case False
  have "distinct (map fst (AList.update v (countAfter delta v rg) (rgRefs rg)))"
    using assms(1) unfolding refsOK_def by (blast intro: distinct_update)
  with assms False show ?thesis unfolding refsOK_def changeOne_def
    by (auto dest: set_update_cases)
qed

lemma changeOne_keys:
  assumes "refsOK rg" and "(refCount rg v = 0) = (countAfter delta v rg = 0)"
  shows "map fst (rgRefs (changeOne delta v rg)) = map fst (rgRefs rg)"
proof (cases "countAfter delta v rg = 0")
  case True
  with assms(2) have "refCount rg v = 0" by simp
  then have "v \<notin> fst ` set (rgRefs rg)" unfolding refCount_zero [OF assms(1)] .
  then have "AList.delete v (rgRefs rg) = rgRefs rg" by (rule delete_id)
  with True show ?thesis by (simp add: changeOne_def)
next
  case False
  with assms(2) have "refCount rg v \<noteq> 0" by simp
  then have "v \<in> fst ` set (rgRefs rg)" unfolding refCount_zero [OF assms(1)] by (rule notnotD)
  then have "map fst (AList.update v n (rgRefs rg)) = map fst (rgRefs rg)" for n
    by (subst update_keys) simp
  with False show ?thesis by (simp add: changeOne_def)
qed

lemma changeLoop_matcher: "changeLoop vs delta rg ch = (rg', ch') \<Longrightarrow> rgMatcher rg' = rgMatcher rg"
  by (induction vs delta rg ch rule: changeLoop.induct) (auto split: if_splits)

lemma changeLoop_OK: "refsOK rg \<Longrightarrow> changeLoop vs delta rg ch = (rg', ch') \<Longrightarrow> refsOK rg'"
  by (induction vs delta rg ch rule: changeLoop.induct) (auto simp: changeOne_OK split: if_splits)

lemma changeLoop_count_up:
  "changeLoop vs 1 rg ch = (rg', ch') \<Longrightarrow> v \<noteq> '''' \<Longrightarrow> refCount rg' v = refCount rg v + count_list vs v"
  by (induction vs "1 :: int" rg ch rule: changeLoop.induct)
    (auto simp: refCount_changeOne countAfter_def nat_add_distrib split: if_splits)

lemma changeLoop_count_down:
  "changeLoop vs (- 1) rg ch = (rg', ch') \<Longrightarrow> v \<noteq> '''' \<Longrightarrow> refCount rg' v = refCount rg v - count_list vs v"
  by (induction vs "- 1 :: int" rg ch rule: changeLoop.induct)
    (auto simp: refCount_changeOne countAfter_def nat_diff_distrib' split: if_splits)

text \<open>The flag is off only when the registered values are the ones before.\<close>

lemma changeLoop_unchanged:
  "refsOK rg \<Longrightarrow> changeLoop vs delta rg ch = (rg', ch') \<Longrightarrow> \<not> ch' \<Longrightarrow> \<not> ch \<and> map fst (rgRefs rg') = map fst (rgRefs rg)"
proof (induction vs delta rg ch rule: changeLoop.induct)
  case (2 v vs delta rg changed)
  show ?case
  proof (cases "v = ''''")
    case False
    have rec: "changeLoop vs delta (changeOne delta v rg) (changed \<or> (refCount rg v = 0) \<noteq> (countAfter delta v rg = 0)) = (rg', ch')"
      using "2.prems"(2) False by simp
    from "2.IH"(2) [OF False changeOne_OK [OF "2.prems"(1) False] rec "2.prems"(3)] changeOne_keys [OF "2.prems"(1), of v delta]
    show ?thesis by simp
  qed (use 2 in simp)
qed simp

text \<open>The matcher is always the one of the registered values.\<close>

definition matcherCurrent :: "registry \<Rightarrow> bool" where
  "matcherCurrent rg \<longleftrightarrow> rgMatcher rg = (if rgRefs rg = [] then [] else patternsOf (map fst (rgRefs rg)))"

definition registryOK :: "registry \<Rightarrow> bool" where
  "registryOK rg \<longleftrightarrow> refsOK rg \<and> matcherCurrent rg"

lemma registryOK_empty: "registryOK emptyRegistry"
  by (simp add: registryOK_def refsOK_def matcherCurrent_def emptyRegistry_def)

lemma changeReferences_OK:
  assumes "registryOK rg"
  shows "registryOK (changeReferences vs delta rg)"
proof -
  obtain rg' ch where loop: "changeLoop vs delta rg False = (rg', ch)" by fastforce
  have rg: "refsOK rg" "matcherCurrent rg" using assms by (simp_all add: registryOK_def)
  have "refsOK rg'" by (rule changeLoop_OK [OF rg(1) loop])
  moreover have "rgRefs rg' = [] \<longleftrightarrow> rgRefs rg = []" "map fst (rgRefs rg') = map fst (rgRefs rg)" if "\<not> ch"
    using changeLoop_unchanged [OF rg(1) loop that] map_is_Nil_conv by metis+
  ultimately show ?thesis
    using rg(2) loop changeLoop_matcher [OF loop]
    by (auto simp: changeReferences_def registryOK_def matcherCurrent_def rebuildLocked_def refsOK_def)
qed

lemma refCount_rebuild [simp]: "refCount (rebuildLocked rg) v = refCount rg v"
  by (simp add: rebuildLocked_def refCount_def)

lemma changeReferences_count:
  assumes "v \<noteq> ''''"
  shows "refCount (changeReferences vs 1 rg) v = refCount rg v + count_list vs v"
    and "refCount (changeReferences vs (- 1) rg) v = refCount rg v - count_list vs v"
proof -
  have "refCount (changeReferences vs delta rg) v = refCount (fst (changeLoop vs delta rg False)) v" for delta
    by (simp add: changeReferences_def split: prod.split)
  then show "refCount (changeReferences vs 1 rg) v = refCount rg v + count_list vs v"
    and "refCount (changeReferences vs (- 1) rg) v = refCount rg v - count_list vs v"
    using changeLoop_count_up [OF _ assms, of vs rg False] changeLoop_count_down [OF _ assms, of vs rg False]
    by (metis prod.collapse)+
qed

lemma fold_Register:
  assumes "v \<noteq> ''''"
  shows "refCount (fold RegisterSecretValue vs rg) v = refCount rg v + count_list vs v"
    and "refCount (fold UnregisterSecretValue vs rg) v = refCount rg v - count_list vs v"
  by (induction vs arbitrary: rg)
    (auto simp: RegisterSecretValue_def UnregisterSecretValue_def changeReferences_count [OF assms])

lemma fold_Register_OK:
  "registryOK rg \<Longrightarrow> registryOK (fold RegisterSecretValue vs rg)"
  "registryOK rg \<Longrightarrow> registryOK (fold UnregisterSecretValue vs rg)"
  by (induction vs arbitrary: rg) (auto simp: RegisterSecretValue_def UnregisterSecretValue_def changeReferences_OK)

section \<open>What the owners hold\<close>

definition heldIn :: "('k \<times> string list) list \<Rightarrow> string \<Rightarrow> nat" where
  "heldIn al v = sum_list (map (\<lambda>(k, vs). count_list vs v) al)"

lemma heldIn_simps [simp]: "heldIn [] v = 0" "heldIn ((k, vs) # al) v = count_list vs v + heldIn al v"
  by (simp_all add: heldIn_def)

lemma ownedBy_simps [simp]: "ownedBy [] k = []" "ownedBy ((k', vs) # al) k = (if k' = k then vs else ownedBy al k)"
  by (simp_all add: ownedBy_def)

lemma ownedBy_absent: "k \<notin> fst ` set al \<Longrightarrow> ownedBy al k = []"
  by (induction al) auto

lemma heldIn_update:
  "distinct (map fst al) \<Longrightarrow> heldIn (AList.update k vs al) v + count_list (ownedBy al k) v = heldIn al v + count_list vs v"
  by (induction al) (auto simp: ownedBy_absent)

lemma heldIn_delete:
  "distinct (map fst al) \<Longrightarrow> heldIn (AList.delete k al) v + count_list (ownedBy al k) v = heldIn al v"
  by (induction al) (auto simp: ownedBy_absent delete_id)

lemma heldIn_owned: "count_list (ownedBy al k) v \<le> heldIn al v"
  by (induction al) auto

text \<open>The references of a value are what the owners hold of it.\<close>

definition coverageOK :: "coverage \<Rightarrow> bool" where
  "coverageOK cv \<longleftrightarrow>
     registryOK (cvReg cv) \<and> distinct (map fst (cvApps cv)) \<and> distinct (map fst (cvHolds cv)) \<and>
     (\<forall>h\<in>fst ` set (cvHolds cv). h < cvNext cv) \<and>
     (\<forall>v. v \<noteq> '''' \<longrightarrow> refCount (cvReg cv) v = heldIn (cvApps cv) v + heldIn (cvHolds cv) v)"

lemma coverageOK_empty: "coverageOK emptyCoverage"
  by (simp add: coverageOK_def emptyCoverage_def registryOK_empty) (simp add: emptyRegistry_def refCount_def)

lemma count_remdups: "count_list (remdups xs) v = (if v \<in> set xs then 1 else 0)"
  by (induction xs) auto

lemma fst_update: "fst ` set (AList.update k v al) = insert k (fst ` set al)"
  using arg_cong [OF update_keys [of k v al], of set] by auto

lemma replaceCoverage_OK:
  assumes "coverageOK cv"
  shows "coverageOK (replaceCoverage owner vals cv)"
proof -
  let ?next = "remdups (filter (\<lambda>v. v \<noteq> '''') vals)"
  let ?apps = "if ?next = [] then AList.delete owner (cvApps cv) else AList.update owner ?next (cvApps cv)"
  let ?reg = "fold UnregisterSecretValue (ownedBy (cvApps cv) owner) (fold RegisterSecretValue ?next (cvReg cv))"
  have cv: "registryOK (cvReg cv)" "distinct (map fst (cvApps cv))"
    "\<And>v. v \<noteq> '''' \<Longrightarrow> refCount (cvReg cv) v = heldIn (cvApps cv) v + heldIn (cvHolds cv) v"
    using assms by (simp_all add: coverageOK_def)
  have "registryOK ?reg" by (intro fold_Register_OK cv(1))
  moreover have "distinct (map fst ?apps)"
    using cv(2) distinct_delete [OF cv(2)] distinct_update [OF cv(2)] by simp
  moreover have "refCount ?reg v = heldIn ?apps v + heldIn (cvHolds cv) v" if "v \<noteq> ''''" for v
  proof -
    have "heldIn ?apps v + count_list (ownedBy (cvApps cv) owner) v = heldIn (cvApps cv) v + count_list ?next v"
      using heldIn_delete [OF cv(2), of owner v] heldIn_update [OF cv(2), of owner ?next v]
      by (cases "?next = []") simp_all
    with heldIn_owned [of "cvApps cv" owner v] show ?thesis
      by (simp only: fold_Register [OF that] cv(3) [OF that])
  qed
  ultimately show ?thesis using assms by (simp add: replaceCoverage_def coverageOK_def Let_def)
qed

lemma AcquireSecretValues_OK:
  assumes "coverageOK cv"
  shows "coverageOK (snd (AcquireSecretValues vals cv))"
proof -
  have cv: "distinct (map fst (cvHolds cv))" "\<forall>h\<in>fst ` set (cvHolds cv). h < cvNext cv"
    using assms by (simp_all add: coverageOK_def)
  have "ownedBy (cvHolds cv) (cvNext cv) = []" using cv(2) ownedBy_absent by fastforce
  with heldIn_update [OF cv(1), of "cvNext cv" vals] distinct_update [OF cv(1)] assms cv(2)
  show ?thesis
    by (auto simp: coverageOK_def AcquireSecretValues_def changeReferences_OK changeReferences_count fst_update)
qed

lemma releaseHold_OK:
  assumes "coverageOK cv"
  shows "coverageOK (releaseHold handle cv)"
proof (cases "map_of (cvHolds cv) handle")
  case None
  with assms show ?thesis by (simp add: releaseHold_def)
next
  case (Some vals)
  have cv: "registryOK (cvReg cv)" "distinct (map fst (cvHolds cv))"
    "\<And>v. v \<noteq> '''' \<Longrightarrow> refCount (cvReg cv) v = heldIn (cvApps cv) v + heldIn (cvHolds cv) v"
    using assms by (simp_all add: coverageOK_def)
  have "refCount (changeReferences vals (- 1) (cvReg cv)) v = heldIn (cvApps cv) v + heldIn (AList.delete handle (cvHolds cv)) v"
    if "v \<noteq> ''''" for v
    using heldIn_delete [OF cv(2), of handle v] heldIn_owned [of "cvHolds cv" handle v] Some
    by (simp add: changeReferences_count(2) [OF that] cv(3) [OF that] ownedBy_def)
  with assms distinct_delete [OF cv(2)] changeReferences_OK [OF cv(1)] Some show ?thesis
    by (auto simp: coverageOK_def releaseHold_def dest: set_delete_subset)
qed

lemma coverStep_OK: "coverageOK cv \<Longrightarrow> coverageOK (coverStep op cv)"
  by (cases op) (simp_all add: AcquireCoverage_def ReleaseCoverage_def replaceCoverage_OK AcquireSecretValues_OK releaseHold_OK)

lemma coverage_reachable: "coverageOK (fold coverStep ops emptyCoverage)"
proof -
  have "coverageOK cv \<Longrightarrow> coverageOK (fold coverStep ops cv)" for cv
    by (induction ops arbitrary: cv) (simp_all add: coverStep_OK)
  with coverageOK_empty show ?thesis by blast
qed

lemma heldIn_pos: "heldIn al v > 0 \<longleftrightarrow> (\<exists>(k, vs)\<in>set al. v \<in> set vs)"
  by (induction al) (auto simp: count_list_0_iff)

text \<open>Some owner holds the value.\<close>

definition heldBy :: "coverage \<Rightarrow> string \<Rightarrow> bool" where
  "heldBy cv v \<longleftrightarrow> list_ex (\<lambda>(k, vs). v \<in> set vs) (cvApps cv) \<or> list_ex (\<lambda>(k, vs). v \<in> set vs) (cvHolds cv)"

lemma registered_iff:
  assumes "coverageOK cv" and "v \<noteq> ''''"
  shows "v \<in> fst ` set (rgRefs (cvReg cv)) \<longleftrightarrow> heldBy cv v"
proof -
  have "refsOK (cvReg cv)" "refCount (cvReg cv) v = heldIn (cvApps cv) v + heldIn (cvHolds cv) v"
    using assms by (simp_all add: coverageOK_def registryOK_def)
  with refCount_zero [of "cvReg cv" v] have "v \<in> fst ` set (rgRefs (cvReg cv)) \<longleftrightarrow> heldIn (cvApps cv) v > 0 \<or> heldIn (cvHolds cv) v > 0"
    by auto
  then show ?thesis unfolding heldBy_def list_ex_iff heldIn_pos .
qed

lemma held_pattern:
  assumes "coverageOK cv" and "heldBy cv v" and "v \<noteq> ''''" and "w \<in> set (v # lineFields v)"
  shows "w \<in> set (rgMatcher (cvReg cv))"
proof -
  have "v \<in> fst ` set (rgRefs (cvReg cv))" using registered_iff [OF assms(1,3)] assms(2) by blast
  moreover from this have "rgRefs (cvReg cv) \<noteq> []" by auto
  ultimately show ?thesis
    using assms(1,4) by (auto simp: coverageOK_def registryOK_def matcherCurrent_def patternsOf_def)
qed

lemma unheld_matcher:
  assumes "coverageOK cv" and "\<forall>v. v \<noteq> '''' \<longrightarrow> \<not> heldBy cv v"
  shows "rgMatcher (cvReg cv) = []"
proof -
  have ok: "refsOK (cvReg cv)" using assms(1) by (simp add: coverageOK_def registryOK_def)
  have "v \<notin> fst ` set (rgRefs (cvReg cv))" for v
  proof (cases "v = ''''")
    case True
    with ok show ?thesis by (auto simp: refsOK_def)
  next
    case False
    then show ?thesis using registered_iff [OF assms(1) False] assms(2) by blast
  qed
  then have "rgRefs (cvReg cv) = []" by (cases "rgRefs (cvReg cv)") auto
  with assms(1) show ?thesis by (simp add: coverageOK_def registryOK_def matcherCurrent_def)
qed

lemma pattern_hidden:
  assumes "w \<in> set (rgMatcher rg)" and "w \<noteq> ''''" and "CHR ''*'' \<notin> set w"
  shows "\<not> containsStr (RedactText rg s) w"
proof
  assume occ: "containsStr (RedactText rg s) w"
  have "applyRegisteredValues rg s = maskValues (rgMatcher rg) s" using assms(1) by (auto simp: applyRegisteredValues_def)
  with maskValues_hides [OF assms] have no: "\<not> containsStr (applyRegisteredValues rg s) w" by simp
  have "containsStr (redactCredentials (applyRegisteredValues rg s)) w"
    using occ assms(2) by (auto simp: RedactText_def split: if_splits)
  then show False
    using fold_scrub_contains [OF starSafe_id assms(2,3)] no unfolding redactCredentials_def by auto
qed

lemma credential_hidden:
  assumes "pat \<in> set credentialPatterns"
  shows "\<not> containsStr (map lowerChar (RedactText rg s)) (map lowerChar pat)"
proof -
  have "list_all (\<lambda>pat. map lowerChar pat \<noteq> [] \<and> CHR ''*'' \<notin> set (map lowerChar pat)) credentialPatterns" by code_simp
  then have pat: "map lowerChar pat \<noteq> []" "CHR ''*'' \<notin> set (map lowerChar pat)" using assms unfolding list_all_iff by blast+
  show ?thesis
    using fold_scrub_hides [OF assms pat] pat(1)
    by (auto simp: RedactText_def redactCredentials_def)
qed

text \<open>
  C18: A live secret never reaches the output.  After any history of applications taking and dropping
  coverage and of launches holding and releasing values, a value that some owner still holds, and each of
  its lines, does not occur in any redacted text, and neither does a credential shape in any case.  When
  no owner holds a value any more the registry leaves every text alone.  (A value with a star in it could
  be completed by the stars of another; those are excepted.)
\<close>
theorem held_values_never_printed:
  assumes "cv = fold coverStep ops emptyCoverage"
  shows "(\<forall>v w. heldBy cv v \<and> v \<noteq> '''' \<and> w \<in> set (v # lineFields v) \<and> w \<noteq> '''' \<and> CHR ''*'' \<notin> set w \<longrightarrow>
            \<not> containsStr (RedactText (cvReg cv) s) w) \<and>
         (\<forall>pat\<in>set credentialPatterns. \<not> containsStr (map lowerChar (RedactText (cvReg cv) s)) (map lowerChar pat)) \<and>
         ((\<forall>v. v \<noteq> '''' \<longrightarrow> \<not> heldBy cv v) \<longrightarrow> applyRegisteredValues (cvReg cv) s = s)"
proof -
  have ok: "coverageOK cv" unfolding assms by (rule coverage_reachable)
  show ?thesis
  proof (intro conjI allI ballI impI)
    fix v w
    assume "heldBy cv v \<and> v \<noteq> '''' \<and> w \<in> set (v # lineFields v) \<and> w \<noteq> '''' \<and> CHR ''*'' \<notin> set w"
    then show "\<not> containsStr (RedactText (cvReg cv) s) w"
      using pattern_hidden [of w "cvReg cv"] held_pattern [OF ok, of v w] by blast
  next
    fix pat
    assume "pat \<in> set credentialPatterns"
    then show "\<not> containsStr (map lowerChar (RedactText (cvReg cv) s)) (map lowerChar pat)" by (rule credential_hidden)
  next
    assume "\<forall>v. v \<noteq> '''' \<longrightarrow> \<not> heldBy cv v"
    then show "applyRegisteredValues (cvReg cv) s = s" using unheld_matcher [OF ok] by (simp add: applyRegisteredValues_def)
  qed
qed

definition demoCovers :: "coverOp list" where
  "demoCovers = [CoverApp ''7'' [''hunter22''], HoldValues [''hunter22'', ''pw''], CoverApp ''7'' [], ReleaseHold 1]"

lemma demo_held: "heldBy (fold coverStep demoCovers emptyCoverage) ''hunter22''"
  by code_simp

theorem held_values_never_printed_witness:
  "\<not> containsStr (RedactText (cvReg (fold coverStep demoCovers emptyCoverage)) ''login hunter22'') ''hunter22''"
  using held_values_never_printed [OF refl, of demoCovers "''login hunter22''", THEN conjunct1, rule_format, of "''hunter22''" "''hunter22''"]
    demo_held by simp

end
