(* ===== verification/Secrets.thy ===== *)
theory Secrets
  imports EnvStore Redact
begin

text \<open>
  The secret store (\<open>internal/secrets\<close>, with the import rules of \<open>internal/project/secrets_schema.go\<close>
  and \<open>internal/appid\<close>): versioned encrypted values, the bindings of secrets to environment variables,
  the pending transaction of a deployment, pinned sets and overlays, and the security posture.  Every
  mutation reloads the file under the store lock and replaces it by rename, so it is one step here.
  HMAC-SHA256 is an argument; maps are association lists.
\<close>

section \<open>Names\<close>

definition isLowerAlpha :: "char \<Rightarrow> bool" where
  "isLowerAlpha c \<longleftrightarrow> (let n = of_char c :: nat in 97 \<le> n \<and> n \<le> 122)"

definition isAlpha :: "char \<Rightarrow> bool" where
  "isAlpha c \<longleftrightarrow> (let n = of_char c :: nat in (97 \<le> n \<and> n \<le> 122) \<or> (65 \<le> n \<and> n \<le> 90))"

definition secretNameOK :: "string \<Rightarrow> bool" where
  "secretNameOK s =
     (case s of [] \<Rightarrow> False
      | c # cs \<Rightarrow> isLowerAlpha c \<and> list_all (\<lambda>d. isLowerAlpha d \<or> isDigit d \<or> d = CHR ''_'' \<or> d = CHR ''-'') cs)"

definition envNameOK :: "string \<Rightarrow> bool" where
  "envNameOK s =
     (case s of [] \<Rightarrow> False
      | c # cs \<Rightarrow> (isAlpha c \<or> c = CHR ''_'') \<and> list_all (\<lambda>d. isAlpha d \<or> isDigit d \<or> d = CHR ''_'') cs)"

text \<open>The shape of a generated application identifier, a version 4 UUID in lower case.\<close>

fun uuidShape :: "string \<Rightarrow> string \<Rightarrow> bool" where
  "uuidShape [] [] \<longleftrightarrow> True"
| "uuidShape (p # ps) (c # cs) \<longleftrightarrow>
     (if p = CHR ''x'' then isLowerHex c else if p = CHR ''y'' then c \<in> set ''89ab'' else c = p) \<and> uuidShape ps cs"
| "uuidShape _ _ \<longleftrightarrow> False"

definition appidValid :: "string \<Rightarrow> bool" where
  "appidValid s \<longleftrightarrow> uuidShape ''xxxxxxxx-xxxx-4xxx-yxxx-xxxxxxxxxxxx'' s"

definition ValidTxnID :: "string \<Rightarrow> bool" where
  "ValidTxnID s \<longleftrightarrow> hexId ''sec_'' s"

section \<open>The store\<close>

record binding =
  bdSecret :: string
  bdEnv :: string

definition reservedEnvNames :: "string list" where
  "reservedEnvNames = [''PORT'', ''PHELIX_INTERNAL_SECRET_TXN'']"

fun validateImports :: "string list \<Rightarrow> binding list \<Rightarrow> (code, unit) result" where
  "validateImports seen [] = Inr ()"
| "validateImports seen (b # bs) =
     (if bdSecret b = '''' then Inl CodeConfiguration
      else if \<not> secretNameOK (bdSecret b) then Inl CodeConfiguration
      else if bdEnv b = '''' then Inl CodeConfiguration
      else if \<not> envNameOK (bdEnv b) then Inl CodeConfiguration
      else if bdEnv b \<in> set reservedEnvNames then Inl CodeConfiguration
      else if bdEnv b \<in> set seen then Inl CodeConfiguration
      else validateImports (bdEnv b # seen) bs)"

definition validateBindings :: "binding list \<Rightarrow> (code, unit) result" where
  "validateBindings bs = validateImports [] bs"

record secretVersion =
  svVersion :: int
  svCreatedAt :: int
  svFingerprint :: string
  svEncValue :: string

record secretRecord =
  srName :: string
  srActiveVersion :: int
  srCreatedAt :: int
  srUpdatedAt :: int
  srVersions :: "secretVersion list"

record resolvedVersion =
  rvSecret :: string
  rvVersion :: int
  rvFingerprint :: string

record pendingTxn =
  ptRuntime :: string
  ptTxnID :: string
  ptDeploymentID :: string
  ptBindings :: "binding list"
  ptResolved :: "resolvedVersion list"
  ptUpdatedAt :: int

record applyStatus =
  asAt :: int
  asRestart :: string
  asBindings :: "binding list"
  asDesired :: "resolvedVersion list"
  asAppliedBindings :: "binding list"
  asApplied :: "resolvedVersion list"

record secretStore =
  ssSchemaVersion :: int
  ssAppID :: string
  ssBindings :: "binding list"
  ssPending :: "pendingTxn option"
  ssLastApply :: "applyStatus option"
  ssSecrets :: "(string \<times> secretRecord) list"

definition storeSchemaVersion :: int where
  "storeSchemaVersion = 1"

definition maxVersions :: nat where
  "maxVersions = 5"

definition MaxValueBytes :: int where
  "MaxValueBytes = 1048576"

definition emptyStore :: "string \<Rightarrow> secretStore" where
  "emptyStore appID =
     \<lparr>ssSchemaVersion = storeSchemaVersion, ssAppID = appID, ssBindings = [], ssPending = None, ssLastApply = None, ssSecrets = []\<rparr>"

subsection \<open>Describing a secret\<close>

record secretMeta =
  smName :: string
  smVersion :: int
  smFingerprint :: string
  smBoundEnvs :: "string list"

text \<open>The last version with the active number, as the loop leaves it.\<close>

definition activeVersion :: "secretRecord \<Rightarrow> secretVersion option" where
  "activeVersion rec = find (\<lambda>v. svVersion v = srActiveVersion rec) (rev (srVersions rec))"

definition secretMetaOf :: "secretStore \<Rightarrow> secretRecord \<Rightarrow> secretMeta" where
  "secretMetaOf st rec =
     \<lparr>smName = srName rec, smVersion = srActiveVersion rec,
      smFingerprint = (case activeVersion rec of None \<Rightarrow> '''' | Some v \<Rightarrow> svFingerprint v),
      smBoundEnvs = map bdEnv (filter (\<lambda>b. bdSecret b = srName rec) (ssBindings st))\<rparr>"

definition Peek :: "secretStore \<Rightarrow> string \<Rightarrow> (code, secretMeta) result" where
  "Peek st name =
     (case map_of (ssSecrets st) name of None \<Rightarrow> Inl CodeSecretNotFound | Some rec \<Rightarrow> Inr (secretMetaOf st rec))"

definition ListSecrets :: "secretStore \<Rightarrow> secretMeta list" where
  "ListSecrets st = map (secretMetaOf st \<circ> snd) (ssSecrets st)"

definition SecretHistory :: "secretStore \<Rightarrow> string \<Rightarrow> (code, (int \<times> string \<times> int) list) result" where
  "SecretHistory st name =
     (case map_of (ssSecrets st) name of
        None \<Rightarrow> Inl CodeSecretNotFound
      | Some rec \<Rightarrow> Inr (map (\<lambda>v. (svVersion v, svFingerprint v, svCreatedAt v)) (srVersions rec)))"

subsection \<open>Pending transactions\<close>

fun collectResolved :: "resolvedVersion list \<Rightarrow> (string \<times> resolvedVersion) list \<Rightarrow> (string \<times> resolvedVersion) list option" where
  "collectResolved [] m = Some m"
| "collectResolved (v # vs) m =
     (if map_of m (rvSecret v) \<noteq> None then None else collectResolved vs ((rvSecret v, v) # m))"

fun checkPinned :: "secretStore \<Rightarrow> (string \<times> resolvedVersion) list \<Rightarrow> binding list \<Rightarrow> (code, unit) result" where
  "checkPinned st resolved [] = Inr ()"
| "checkPinned st resolved (b # bs) =
     (case Peek st (bdSecret b) of
        Inl e \<Rightarrow> Inl e
      | Inr m \<Rightarrow>
          (case map_of resolved (bdSecret b) of
             None \<Rightarrow> Inl CodeDeployLocked
           | Some v \<Rightarrow>
               if rvVersion v \<noteq> smVersion m \<or> rvFingerprint v \<noteq> smFingerprint m then Inl CodeDeployLocked
               else checkPinned st resolved bs))"

definition validatePending :: "secretStore \<Rightarrow> pendingTxn \<Rightarrow> (code, unit) result" where
  "validatePending st txn =
     (case collectResolved (ptResolved txn) [] of
        None \<Rightarrow> Inl CodeConfiguration
      | Some resolved \<Rightarrow>
          case checkPinned st resolved (ptBindings txn) of
            Inl e \<Rightarrow> Inl e
          | Inr _ \<Rightarrow>
              if length (remdups (map bdSecret (ptBindings txn))) \<noteq> length resolved then Inl CodeConfiguration
              else Inr ())"

section \<open>The file\<close>

text \<open>A file that cannot be opened, has the wrong mode or is not one JSON document.\<close>

datatype storeFile = NoStoreFile | OpaqueStoreFile | StoreFile secretStore

fun versionsOK :: "int \<Rightarrow> secretVersion list \<Rightarrow> bool" where
  "versionsOK prev [] \<longleftrightarrow> True"
| "versionsOK prev (v # vs) \<longleftrightarrow>
     svVersion v > prev \<and> (case hexDecode (svFingerprint v) of None \<Rightarrow> False | Some fp \<Rightarrow> length fp = 6) \<and>
     svEncValue v \<noteq> '''' \<and> versionsOK (svVersion v) vs"

definition recordOK :: "string \<times> secretRecord \<Rightarrow> bool" where
  "recordOK nr =
     (case nr of (name, rec) \<Rightarrow>
        secretNameOK name \<and> srName rec = name \<and> srVersions rec \<noteq> [] \<and> length (srVersions rec) \<le> maxVersions \<and>
        versionsOK 0 (srVersions rec) \<and> srActiveVersion rec = svVersion (last (srVersions rec)))"

definition openStoreLocked :: "string \<Rightarrow> storeFile \<Rightarrow> (code, secretStore) result" where
  "openStoreLocked appID f =
     (case f of
        NoStoreFile \<Rightarrow> Inr (emptyStore appID)
      | OpaqueStoreFile \<Rightarrow> Inl CodeFilesystem
      | StoreFile st \<Rightarrow>
          if ssAppID st \<noteq> appID then Inl CodeFilesystem
          else rbind (validateBindings (ssBindings st)) (\<lambda>_.
               rbind (case ssPending st of
                        None \<Rightarrow> Inr ()
                      | Some t \<Rightarrow> if \<not> ValidTxnID (ptTxnID t) then Inl CodeFilesystem else validateBindings (ptBindings t)) (\<lambda>_.
               if ssSchemaVersion st \<noteq> storeSchemaVersion then Inl CodeFilesystem
               else if \<not> list_all recordOK (ssSecrets st) then Inl CodeFilesystem
               else rbind (case ssPending st of None \<Rightarrow> Inr () | Some t \<Rightarrow> validatePending st t) (\<lambda>_. Inr st))))"

text \<open>\<open>persistLocked\<close>: it fails before the rename, or only in syncing the directory.\<close>

datatype persistOutcome = PersistDone | PersistFailed | PersistUnsynced

record secIO =
  siDir :: bool
  siLock :: bool
  siCancelled :: bool
  siPersist :: persistOutcome
  siNow :: int
  siNonce :: "string option"
  siKey :: keyEnv
  siOthers :: "encDir list"
  siEnv :: envIO
  siVars :: envDir

definition persistLocked :: "secIO \<Rightarrow> secretStore \<Rightarrow> storeFile \<Rightarrow> (code, unit) result \<times> storeFile" where
  "persistLocked io st f =
     (case siPersist io of
        PersistDone \<Rightarrow> (Inr (), StoreFile st)
      | PersistFailed \<Rightarrow> (Inl CodeFilesystem, f)
      | PersistUnsynced \<Rightarrow> (Inl CodeFilesystem, StoreFile st))"

definition secLoadLocked :: "secIO \<Rightarrow> string \<Rightarrow> storeFile \<Rightarrow> (code, secretStore) result" where
  "secLoadLocked io appID f =
     (if \<not> appidValid appID then Inl CodeInvalidArgument
      else if \<not> siLock io then Inl CodeFilesystem
      else openStoreLocked appID f)"

text \<open>Without a secrets directory there is nothing to lock.\<close>

definition OpenStore :: "secIO \<Rightarrow> string \<Rightarrow> storeFile \<Rightarrow> (code, secretStore) result" where
  "OpenStore io appID f =
     (if \<not> appidValid appID then Inl CodeInvalidArgument
      else if \<not> siDir io \<and> f = NoStoreFile then Inr (emptyStore appID)
      else secLoadLocked io appID f)"

text \<open>The single write path; the change may hand back a value, and may create the master key.\<close>

definition mutate ::
    "secIO \<Rightarrow> string \<Rightarrow> (secretStore \<Rightarrow> keyFile \<Rightarrow> (code, 'a \<times> secretStore) result \<times> keyFile) \<Rightarrow>
     storeFile \<times> keyFile \<Rightarrow> (code, 'a) result \<times> storeFile \<times> keyFile" where
  "mutate io appID change fk =
     (case fk of (f, k) \<Rightarrow>
        case secLoadLocked io appID f of
          Inl e \<Rightarrow> (Inl e, f, k)
        | Inr st \<Rightarrow>
            case change st k of
              (Inl e, k') \<Rightarrow> (Inl e, f, k')
            | (Inr (x, st'), k') \<Rightarrow>
                case persistLocked io st' f of (Inl e, f') \<Rightarrow> (Inl e, f', k') | (Inr _, f') \<Rightarrow> (Inr x, f', k'))"

section \<open>Values\<close>

text \<open>HMAC-SHA256 is an argument, of which the code needs that its result has 32 bytes.\<close>

type_synonym hmac = "string \<Rightarrow> string \<Rightarrow> string"

definition hmacLaw :: "hmac \<Rightarrow> bool" where
  "hmacLaw hm \<longleftrightarrow> (\<forall>key text. length (hm key text) = 32)"

definition fingerprint :: "hmac \<Rightarrow> string \<Rightarrow> string \<Rightarrow> string" where
  "fingerprint hm master val = take 12 (hexString (hm (hm master ''phelix:secrets:fingerprint:v1'') val))"

definition ValidateSecretValue :: "string \<Rightarrow> (code, unit) result" where
  "ValidateSecretValue val =
     (if val = '''' then Inl CodeInvalidArgument
      else if int (length val) > MaxValueBytes then Inl CodeInvalidArgument
      else if list_ex (\<lambda>c. (of_char c :: nat) = 0) val then Inl CodeInvalidArgument
      else Inr ())"

subsection \<open>The outcome of the last apply\<close>

datatype applyRestart = ApplyRestartSucceeded | ApplyRestartFailed | ApplyRestartPartial | ApplyDeploymentAccepted
  | ApplyRestartSkipped | ApplyRestartNotNeeded

fun restartText :: "applyRestart \<Rightarrow> string" where
  "restartText ApplyRestartSucceeded = ''succeeded''"
| "restartText ApplyRestartFailed = ''failed''"
| "restartText ApplyRestartPartial = ''partial''"
| "restartText ApplyDeploymentAccepted = ''accepted''"
| "restartText ApplyRestartSkipped = ''skipped_not_running''"
| "restartText ApplyRestartNotNeeded = ''not_requested''"

fun desiredVersions :: "secretStore \<Rightarrow> string list \<Rightarrow> binding list \<Rightarrow> resolvedVersion list" where
  "desiredVersions st seen [] = []"
| "desiredVersions st seen (b # bs) =
     (if bdSecret b \<in> set seen then desiredVersions st seen bs
      else (case Peek st (bdSecret b) of
              Inl e \<Rightarrow> []
            | Inr m \<Rightarrow> [\<lparr>rvSecret = bdSecret b, rvVersion = smVersion m, rvFingerprint = smFingerprint m\<rparr>])
           @ desiredVersions st (bdSecret b # seen) bs)"

definition recordApply :: "int \<Rightarrow> applyRestart \<Rightarrow> secretStore \<Rightarrow> secretStore" where
  "recordApply now restart st =
     (let desired = desiredVersions st [] (ssBindings st);
          (applied, appliedBindings) =
            (if restart = ApplyRestartSucceeded then (desired, ssBindings st)
             else case ssLastApply st of None \<Rightarrow> ([], []) | Some a \<Rightarrow> (asApplied a, asAppliedBindings a))
      in st\<lparr>ssLastApply := Some
           \<lparr>asAt = now, asRestart = restartText restart, asBindings = ssBindings st, asDesired = desired,
            asAppliedBindings = appliedBindings, asApplied = applied\<rparr>\<rparr>)"

section \<open>Mutations\<close>

record setResult =
  seName :: string
  seVersion :: int
  seFingerprint :: string
  sePrevious :: int
  seCreated :: bool

definition newVersion :: "hmac \<Rightarrow> secIO \<Rightarrow> string \<Rightarrow> string \<Rightarrow> string \<Rightarrow> secretRecord \<Rightarrow> secretRecord" where
  "newVersion hm io val key enc rec =
     (let v = srActiveVersion rec + 1;
          vs = srVersions rec @ [\<lparr>svVersion = v, svCreatedAt = siNow io, svFingerprint = fingerprint hm key val, svEncValue = enc\<rparr>]
      in rec\<lparr>srVersions := (if length vs > maxVersions then drop (length vs - maxVersions) vs else vs),
             srActiveVersion := v, srUpdatedAt := siNow io\<rparr>)"

definition emptyRecord :: "secIO \<Rightarrow> string \<Rightarrow> secretRecord" where
  "emptyRecord io name = \<lparr>srName = name, srActiveVersion = 0, srCreatedAt = siNow io, srUpdatedAt = 0, srVersions = []\<rparr>"

definition putVersion :: "hmac \<Rightarrow> secIO \<Rightarrow> string \<Rightarrow> string \<Rightarrow> string \<Rightarrow> string \<Rightarrow> secretStore \<Rightarrow> setResult \<times> secretStore" where
  "putVersion hm io name val key enc st =
     (let old = (case map_of (ssSecrets st) name of None \<Rightarrow> emptyRecord io name | Some rec \<Rightarrow> rec);
          rec = newVersion hm io val key enc old;
          st' = st\<lparr>ssSecrets := AList.update name rec (ssSecrets st)\<rparr>
      in (\<lparr>seName = name, seVersion = srActiveVersion rec, seFingerprint = fingerprint hm key val,
           sePrevious = srActiveVersion old, seCreated = (map_of (ssSecrets st) name = None)\<rparr>,
          if list_ex (\<lambda>b. bdSecret b = name) (ssBindings st) then recordApply (siNow io) ApplyRestartNotNeeded st' else st'))"

definition setChange ::
    "hmac \<Rightarrow> cipher \<Rightarrow> secIO \<Rightarrow> string \<Rightarrow> string \<Rightarrow> secretStore \<Rightarrow> keyFile \<Rightarrow> (code, setResult \<times> secretStore) result \<times> keyFile" where
  "setChange hm cp io name val st k =
     (if ssPending st \<noteq> None then (Inl CodeDeployLocked, k)
      else case (if ssSecrets st = [] then GetMasterKey (siKey io) (siOthers io) k else (ReadMasterKey k, k)) of
        (Inl e, k') \<Rightarrow> (Inl e, k')
      | (Inr key, k') \<Rightarrow>
          (case EncryptData cp (siNonce io) val key of
             Inl e \<Rightarrow> Inl e
           | Inr enc \<Rightarrow> Inr (putVersion hm io name val key enc st), k'))"

definition SetSecret ::
    "hmac \<Rightarrow> cipher \<Rightarrow> secIO \<Rightarrow> string \<Rightarrow> string \<Rightarrow> string \<Rightarrow> storeFile \<times> keyFile \<Rightarrow>
     (code, setResult) result \<times> storeFile \<times> keyFile" where
  "SetSecret hm cp io appID name val fk =
     (if \<not> appidValid appID then (Inl CodeInvalidArgument, fk)
      else if \<not> secretNameOK name then (Inl CodeInvalidArgument, fk)
      else case ValidateSecretValue val of
        Inl e \<Rightarrow> (Inl e, fk)
      | Inr _ \<Rightarrow> mutate io appID (setChange hm cp io name val) fk)"

definition removeChange :: "string \<Rightarrow> secretStore \<Rightarrow> keyFile \<Rightarrow> (code, unit \<times> secretStore) result \<times> keyFile" where
  "removeChange name st k =
     (if ssPending st \<noteq> None then Inl CodeDeployLocked
      else if list_ex (\<lambda>b. bdSecret b = name) (ssBindings st) then Inl CodeInvalidArgument
      else if map_of (ssSecrets st) name = None then Inl CodeSecretNotFound
      else Inr ((), st\<lparr>ssSecrets := AList.delete name (ssSecrets st)\<rparr>), k)"

definition RemoveSecret :: "secIO \<Rightarrow> string \<Rightarrow> string \<Rightarrow> storeFile \<times> keyFile \<Rightarrow> (code, unit) result \<times> storeFile \<times> keyFile" where
  "RemoveSecret io appID name fk =
     (if \<not> secretNameOK name then (Inl CodeInvalidArgument, fk) else mutate io appID (removeChange name) fk)"

text \<open>Bindings may not name a variable of the live environment store.\<close>

definition CheckCollisions :: "secIO \<Rightarrow> string \<Rightarrow> binding list \<Rightarrow> (code, unit) result" where
  "CheckCollisions io appID bs =
     rbind (validateBindings bs) (\<lambda>_.
       if bs = [] then Inr ()
       else rbind (LoadEnvStore (siEnv io) appID (siVars io)) (\<lambda>s.
         if list_ex (\<lambda>b. map_of (entriesOf s) (bdEnv b) \<noteq> None) bs then Inl CodeConfiguration else Inr ()))"

record resolvedSecret =
  rsValue :: string
  rsFingerprint :: string
  rsVersion :: int

definition resolve :: "hmac \<Rightarrow> cipher \<Rightarrow> secretStore \<Rightarrow> keyFile \<Rightarrow> string \<Rightarrow> (code, resolvedSecret) result" where
  "resolve hm cp st k name =
     (case map_of (ssSecrets st) name of
        None \<Rightarrow> Inl CodeSecretNotFound
      | Some rec \<Rightarrow>
          case activeVersion rec of
            None \<Rightarrow> Inl CodeFilesystem
          | Some ver \<Rightarrow>
              rbind (ReadMasterKey k) (\<lambda>key.
                case DecryptData cp (svEncValue ver) key of
                  Inl e \<Rightarrow> Inl CodeEncryption
                | Inr val \<Rightarrow>
                    if \<not> isOk (ValidateSecretValue val) then Inl CodeEncryption
                    else if fingerprint hm key val \<noteq> svFingerprint ver then Inl CodeEncryption
                    else Inr \<lparr>rsValue = val, rsFingerprint = svFingerprint ver, rsVersion = svVersion ver\<rparr>))"

definition Resolve :: "hmac \<Rightarrow> cipher \<Rightarrow> secIO \<Rightarrow> string \<Rightarrow> string \<Rightarrow> storeFile \<times> keyFile \<Rightarrow> (code, resolvedSecret) result" where
  "Resolve hm cp io appID name fk =
     (if siCancelled io then Inl CodeUnknown
      else rbind (OpenStore io appID (fst fk)) (\<lambda>st. resolve hm cp st (snd fk) name))"

fun resolveAll :: "hmac \<Rightarrow> cipher \<Rightarrow> secretStore \<Rightarrow> keyFile \<Rightarrow> binding list \<Rightarrow> (code, unit) result" where
  "resolveAll hm cp st k [] = Inr ()"
| "resolveAll hm cp st k (b # bs) = rbind (resolve hm cp st k (bdSecret b)) (\<lambda>_. resolveAll hm cp st k bs)"

definition replaceChange ::
    "hmac \<Rightarrow> cipher \<Rightarrow> secIO \<Rightarrow> string \<Rightarrow> binding list \<Rightarrow> secretStore \<Rightarrow> keyFile \<Rightarrow> (code, unit \<times> secretStore) result \<times> keyFile" where
  "replaceChange hm cp io appID bs st k =
     (if ssPending st \<noteq> None then Inl CodeDeployLocked
      else rbind (CheckCollisions io appID bs) (\<lambda>_.
           rbind (resolveAll hm cp st k bs) (\<lambda>_.
             Inr ((), recordApply (siNow io) ApplyRestartNotNeeded (st\<lparr>ssBindings := bs\<rparr>)))), k)"

definition ReplaceBindings ::
    "hmac \<Rightarrow> cipher \<Rightarrow> secIO \<Rightarrow> string \<Rightarrow> binding list \<Rightarrow> storeFile \<times> keyFile \<Rightarrow> (code, unit) result \<times> storeFile \<times> keyFile" where
  "ReplaceBindings hm cp io appID bs fk =
     (case validateBindings bs of
        Inl e \<Rightarrow> (Inl e, fk)
      | Inr _ \<Rightarrow> mutate io appID (replaceChange hm cp io appID bs) fk)"

definition beginChange :: "secIO \<Rightarrow> string \<Rightarrow> pendingTxn \<Rightarrow> secretStore \<Rightarrow> keyFile \<Rightarrow> (code, unit \<times> secretStore) result \<times> keyFile" where
  "beginChange io appID txn st k =
     (if ssPending st \<noteq> None then Inl CodeDeployLocked
      else rbind (validatePending st txn) (\<lambda>_.
           rbind (CheckCollisions io appID (ptBindings txn)) (\<lambda>_. Inr ((), st\<lparr>ssPending := Some txn\<rparr>))), k)"

definition BeginTxn :: "secIO \<Rightarrow> string \<Rightarrow> pendingTxn option \<Rightarrow> storeFile \<times> keyFile \<Rightarrow> (code, unit) result \<times> storeFile \<times> keyFile" where
  "BeginTxn io appID txn fk =
     (case txn of
        None \<Rightarrow> (Inl CodeInvalidArgument, fk)
      | Some t \<Rightarrow>
          if \<not> ValidTxnID (ptTxnID t) then (Inl CodeInvalidArgument, fk)
          else case validateBindings (ptBindings t) of
            Inl e \<Rightarrow> (Inl e, fk)
          | Inr _ \<Rightarrow> mutate io appID (beginChange io appID (t\<lparr>ptUpdatedAt := siNow io\<rparr>)) fk)"

definition commitPending :: "int \<Rightarrow> secretStore \<Rightarrow> secretStore" where
  "commitPending now st =
     (case ssPending st of
        None \<Rightarrow> st
      | Some t \<Rightarrow> recordApply now ApplyDeploymentAccepted (st\<lparr>ssBindings := ptBindings t\<rparr>)\<lparr>ssPending := None\<rparr>)"

definition CommitTxn :: "secIO \<Rightarrow> string \<Rightarrow> storeFile \<times> keyFile \<Rightarrow> (code, unit) result \<times> storeFile \<times> keyFile" where
  "CommitTxn io appID = mutate io appID (\<lambda>st k. (Inr ((), commitPending (siNow io) st), k))"

definition DiscardTxn :: "secIO \<Rightarrow> string \<Rightarrow> storeFile \<times> keyFile \<Rightarrow> (code, unit) result \<times> storeFile \<times> keyFile" where
  "DiscardTxn io appID = mutate io appID (\<lambda>st k. (Inr ((), st\<lparr>ssPending := None\<rparr>), k))"

text \<open>An outcome the caller names: \<open>None\<close> is a nil status or a text that is none of the outcomes.\<close>

definition RecordApply :: "secIO \<Rightarrow> string \<Rightarrow> applyRestart option \<Rightarrow> storeFile \<times> keyFile \<Rightarrow> (code, unit) result \<times> storeFile \<times> keyFile" where
  "RecordApply io appID restart fk =
     (case restart of
        None \<Rightarrow> (Inl CodeInvalidArgument, fk)
      | Some r \<Rightarrow>
          if r = ApplyDeploymentAccepted then (Inl CodeInvalidArgument, fk)
          else mutate io appID (\<lambda>st k. (Inr ((), recordApply (siNow io) r st), k)) fk)"

section \<open>Security posture\<close>

text \<open>Reasons and times are for display and left out.\<close>

record securityEntry =
  syDegraded :: bool
  syRuntime :: bool

type_synonym securityStates = "(string \<times> securityEntry) list"

definition runtimeDegraded :: "securityStates \<Rightarrow> string \<Rightarrow> bool" where
  "runtimeDegraded ss appID = (case map_of ss appID of None \<Rightarrow> False | Some e \<Rightarrow> syRuntime e)"

definition markDegraded :: "string \<Rightarrow> bool \<Rightarrow> securityStates \<Rightarrow> securityStates" where
  "markDegraded appID runtime ss =
     AList.update appID \<lparr>syDegraded = True, syRuntime = runtime \<or> runtimeDegraded ss appID\<rparr> ss"

definition MarkDegraded :: "string \<Rightarrow> securityStates \<Rightarrow> securityStates" where
  "MarkDegraded appID = markDegraded appID False"

definition MarkRuntimeDegraded :: "string \<Rightarrow> securityStates \<Rightarrow> securityStates" where
  "MarkRuntimeDegraded appID = markDegraded appID True"

definition CheckRuntimeSecurity :: "string \<Rightarrow> securityStates \<Rightarrow> (code, unit) result" where
  "CheckRuntimeSecurity appID ss = (if runtimeDegraded ss appID then Inl CodeEncryption else Inr ())"

definition markResolved :: "string \<Rightarrow> securityStates \<Rightarrow> securityStates" where
  "markResolved appID ss = (if runtimeDegraded ss appID then ss else AList.delete appID ss)"

definition MarkHealthy :: "string \<Rightarrow> securityStates \<Rightarrow> securityStates" where
  "MarkHealthy appID ss = AList.update appID \<lparr>syDegraded = False, syRuntime = False\<rparr> ss"

definition SecurityHealthy :: "string \<Rightarrow> securityStates \<Rightarrow> bool" where
  "SecurityHealthy appID ss = (case map_of ss appID of None \<Rightarrow> True | Some e \<Rightarrow> \<not> syDegraded e)"

section \<open>Launching with secrets\<close>

text \<open>What a process keeps: who holds which values, and the posture of every application.\<close>

record secProc =
  spCover :: coverage
  spStates :: securityStates

definition CommittedBindings :: "secIO \<Rightarrow> string \<Rightarrow> storeFile \<Rightarrow> (code, binding list) result" where
  "CommittedBindings io appID f =
     (if \<not> appidValid appID then Inr [] else rbind (OpenStore io appID f) (\<lambda>st. Inr (ssBindings st)))"

fun overlayLoop ::
    "hmac \<Rightarrow> cipher \<Rightarrow> secIO \<Rightarrow> string \<Rightarrow> storeFile \<times> keyFile \<Rightarrow> binding list \<Rightarrow> (code, string list \<times> string list) result" where
  "overlayLoop hm cp io appID fk [] = Inr ([], [])"
| "overlayLoop hm cp io appID fk (b # bs) =
     rbind (Resolve hm cp io appID (bdSecret b) fk) (\<lambda>r.
       rbind (overlayLoop hm cp io appID fk bs) (\<lambda>(overlay, vals).
         Inr ((bdEnv b @ ''='' @ rsValue r) # overlay, rsValue r # vals)))"

text \<open>The overlay with the handle that releases its values.\<close>

definition OverlayForLaunch ::
    "hmac \<Rightarrow> cipher \<Rightarrow> secIO \<Rightarrow> string \<Rightarrow> binding list \<Rightarrow> storeFile \<times> keyFile \<Rightarrow> secProc \<Rightarrow>
     (code, string list \<times> nat option) result \<times> secProc" where
  "OverlayForLaunch hm cp io appID bs fk sp =
     (if \<not> isOk (CheckRuntimeSecurity appID (spStates sp)) then (Inl CodeEncryption, sp)
      else case validateBindings bs of
        Inl e \<Rightarrow> (Inl e, sp)
      | Inr _ \<Rightarrow>
          if bs = [] then (Inr ([], None), sp\<lparr>spStates := markResolved appID (spStates sp)\<rparr>)
          else case overlayLoop hm cp io appID fk bs of
            Inl e \<Rightarrow> (Inl e, sp\<lparr>spStates := MarkDegraded appID (spStates sp)\<rparr>)
          | Inr (overlay, vals) \<Rightarrow>
              (case AcquireSecretValues vals (spCover sp) of
                 (handle, cv) \<Rightarrow>
                   (Inr (overlay, Some handle), sp\<lparr>spCover := cv, spStates := markResolved appID (spStates sp)\<rparr>)))"

definition ClassicEnvOverlay ::
    "hmac \<Rightarrow> cipher \<Rightarrow> secIO \<Rightarrow> string \<Rightarrow> storeFile \<times> keyFile \<Rightarrow> secProc \<Rightarrow> (code, string list \<times> nat option) result \<times> secProc" where
  "ClassicEnvOverlay hm cp io appID fk sp =
     (case CommittedBindings io appID (fst fk) of
        Inl e \<Rightarrow> (Inl e, sp\<lparr>spStates := MarkDegraded appID (spStates sp)\<rparr>)
      | Inr bs \<Rightarrow> OverlayForLaunch hm cp io appID bs fk sp)"

text \<open>An entry is dropped when its variable is set again later.\<close>

definition envKey :: "string \<Rightarrow> string option" where
  "envKey kv = (case cut (CHR ''='') kv of (k, Some v) \<Rightarrow> Some k | (_, None) \<Rightarrow> None)"

fun keepLast :: "string list \<Rightarrow> string list" where
  "keepLast [] = []"
| "keepLast (kv # kvs) =
     (if envKey kv \<noteq> None \<and> envKey kv \<in> set (map envKey kvs) then keepLast kvs else kv # keepLast kvs)"

definition MergeEnv :: "string list \<Rightarrow> string list \<Rightarrow> string list" where
  "MergeEnv base overlay = (if overlay = [] then base else keepLast (base @ overlay))"

subsection \<open>Pinned sets\<close>

record pinnedSet =
  psLaunchTxnID :: string
  psBindings :: "binding list"
  psResolved :: "resolvedVersion list"
  psValues :: "(string \<times> string) list"
  psRelease :: "nat option"

fun pinLoop ::
    "hmac \<Rightarrow> cipher \<Rightarrow> secIO \<Rightarrow> secretStore \<Rightarrow> keyFile \<Rightarrow> binding list \<Rightarrow> pinnedSet \<Rightarrow> string list \<Rightarrow>
     (code, pinnedSet \<times> string list) result" where
  "pinLoop hm cp io st k [] ps vals = Inr (ps, vals)"
| "pinLoop hm cp io st k (b # bs) ps vals =
     (if siCancelled io then Inl CodeUnknown
      else if map_of (psValues ps) (bdSecret b) \<noteq> None then pinLoop hm cp io st k bs ps vals
      else rbind (resolve hm cp st k (bdSecret b)) (\<lambda>r.
             pinLoop hm cp io st k bs
               (ps\<lparr>psResolved := psResolved ps @ [\<lparr>rvSecret = bdSecret b, rvVersion = rsVersion r, rvFingerprint = rsFingerprint r\<rparr>],
                   psValues := (bdSecret b, rsValue r) # psValues ps\<rparr>)
               (vals @ [rsValue r])))"

definition noPins :: "pinnedSet" where
  "noPins = \<lparr>psLaunchTxnID = '''', psBindings = [], psResolved = [], psValues = [], psRelease = None\<rparr>"

definition PinBindings ::
    "hmac \<Rightarrow> cipher \<Rightarrow> secIO \<Rightarrow> string \<Rightarrow> binding list \<Rightarrow> storeFile \<times> keyFile \<Rightarrow> secProc \<Rightarrow> (code, pinnedSet) result \<times> secProc" where
  "PinBindings hm cp io appID bs fk sp =
     (if \<not> isOk (CheckRuntimeSecurity appID (spStates sp)) then (Inl CodeEncryption, sp)
      else case CheckCollisions io appID bs of
        Inl e \<Rightarrow> (Inl e, sp)
      | Inr _ \<Rightarrow>
          if bs = [] then (Inr noPins, sp)
          else case OpenStore io appID (fst fk) of
            Inl e \<Rightarrow> (Inl e, sp)
          | Inr st \<Rightarrow>
              case pinLoop hm cp io st (snd fk) bs (noPins\<lparr>psBindings := bs\<rparr>) [] of
                Inl e \<Rightarrow> (Inl e, sp)
              | Inr (ps, vals) \<Rightarrow>
                  (case AcquireSecretValues vals (spCover sp) of
                     (handle, cv) \<Rightarrow> (Inr (ps\<lparr>psRelease := Some handle\<rparr>), sp\<lparr>spCover := cv\<rparr>)))"

definition pinnedValue :: "pinnedSet \<Rightarrow> string \<Rightarrow> string" where
  "pinnedValue ps name = (case map_of (psValues ps) name of None \<Rightarrow> '''' | Some v \<Rightarrow> v)"

definition pinnedOverlay :: "pinnedSet option \<Rightarrow> string list" where
  "pinnedOverlay p =
     (case p of
        None \<Rightarrow> []
      | Some ps \<Rightarrow>
          map (\<lambda>b. bdEnv b @ ''='' @ pinnedValue ps (bdSecret b)) (psBindings ps) @
          (if psLaunchTxnID ps \<noteq> '''' then [''PHELIX_INTERNAL_SECRET_TXN='' @ psLaunchTxnID ps] else []))"

definition closePinned :: "pinnedSet option \<Rightarrow> secProc \<Rightarrow> secProc" where
  "closePinned p sp =
     (case p of
        None \<Rightarrow> sp
      | Some ps \<Rightarrow> (case psRelease ps of None \<Rightarrow> sp | Some handle \<Rightarrow> sp\<lparr>spCover := releaseHold handle (spCover sp)\<rparr>))"

text \<open>The last setting of each variable, as the loop over the environment leaves it.\<close>

definition envLookup :: "string list \<Rightarrow> string \<Rightarrow> string option" where
  "envLookup env k =
     (case find (\<lambda>kv. envKey kv = Some k) (rev env) of None \<Rightarrow> None | Some kv \<Rightarrow> snd (cut (CHR ''='') kv))"

fun runtimeLoop :: "string list \<Rightarrow> string list \<Rightarrow> pinnedSet \<Rightarrow> string list \<Rightarrow> (code, pinnedSet \<times> string list) result" where
  "runtimeLoop env [] ps vals = Inr (ps, vals)"
| "runtimeLoop env (name # names) ps vals =
     (case envLookup env name of
        None \<Rightarrow> Inl CodeEncryption
      | Some v \<Rightarrow>
          if \<not> isOk (ValidateSecretValue v) then Inl CodeEncryption
          else runtimeLoop env names
                 (ps\<lparr>psBindings := psBindings ps @ [\<lparr>bdSecret = name, bdEnv = name\<rparr>], psValues := (name, v) # psValues ps\<rparr>)
                 (vals @ [v]))"

definition FromRuntime :: "string list \<Rightarrow> string list \<Rightarrow> secProc \<Rightarrow> (code, pinnedSet) result \<times> secProc" where
  "FromRuntime env names sp =
     (case runtimeLoop env names noPins [] of
        Inl e \<Rightarrow> (Inl e, sp)
      | Inr (ps, vals) \<Rightarrow>
          (case AcquireSecretValues vals (spCover sp) of
             (handle, cv) \<Rightarrow> (Inr (ps\<lparr>psRelease := Some handle\<rparr>), sp\<lparr>spCover := cv\<rparr>)))"

text \<open>\<open>None\<close>: the process is gone or its environment cannot be read.\<close>

definition RuntimeForPID :: "string list option \<Rightarrow> string list \<Rightarrow> secProc \<Rightarrow> (code, pinnedSet) result \<times> secProc" where
  "RuntimeForPID environ names sp =
     (if names = [] then FromRuntime [] [] sp
      else case environ of None \<Rightarrow> (Inl CodeEncryption, sp) | Some env \<Rightarrow> FromRuntime env names sp)"

section \<open>The store stays whole\<close>

definition storeValid :: "string \<Rightarrow> secretStore \<Rightarrow> bool" where
  "storeValid appID st \<longleftrightarrow>
     ssAppID st = appID \<and> validateBindings (ssBindings st) = Inr () \<and>
     (\<forall>t. ssPending st = Some t \<longrightarrow> ValidTxnID (ptTxnID t) \<and> validateBindings (ptBindings t) = Inr () \<and> validatePending st t = Inr ()) \<and>
     ssSchemaVersion st = storeSchemaVersion \<and> list_all recordOK (ssSecrets st)"

definition boundExist :: "secretStore \<Rightarrow> bool" where
  "boundExist st \<longleftrightarrow> (\<forall>b\<in>set (ssBindings st). map_of (ssSecrets st) (bdSecret b) \<noteq> None)"

lemma open_StoreFile: "openStoreLocked appID (StoreFile st) = Inr st' \<longleftrightarrow> storeValid appID st \<and> st' = st"
  by (auto simp: openStoreLocked_def storeValid_def rbind_eq_Inr split: option.splits if_splits)

lemma storeValid_empty: "storeValid appID (emptyStore appID)" "boundExist (emptyStore appID)"
  by (simp_all add: storeValid_def boundExist_def emptyStore_def validateBindings_def)

lemma open_valid:
  assumes "openStoreLocked appID f = Inr st"
  shows "storeValid appID st"
  using assms storeValid_empty(1) by (cases f) (auto simp: open_StoreFile, auto simp: openStoreLocked_def)

text \<open>The whole file is in order: it opens, and every bound secret is in it.\<close>

definition storeWhole :: "string \<Rightarrow> storeFile \<Rightarrow> bool" where
  "storeWhole appID f \<longleftrightarrow> (case openStoreLocked appID f of Inl e \<Rightarrow> False | Inr st \<Rightarrow> boundExist st)"

lemma storeWhole_empty: "storeWhole appID NoStoreFile"
  by (simp add: storeWhole_def openStoreLocked_def storeValid_empty)

lemma storeWhole_File: "storeWhole appID (StoreFile st) \<longleftrightarrow> storeValid appID st \<and> boundExist st"
proof (cases "openStoreLocked appID (StoreFile st)")
  case (Inl e)
  then have "\<not> storeValid appID st" using open_StoreFile [of appID st st] by auto
  with Inl show ?thesis by (simp add: storeWhole_def)
next
  case (Inr st')
  with open_StoreFile [of appID st st'] show ?thesis by (simp add: storeWhole_def)
qed

lemma mutate_whole:
  assumes "storeWhole appID f"
    and "\<And>st x st' k'. storeValid appID st \<Longrightarrow> boundExist st \<Longrightarrow> change st k = (Inr (x, st'), k') \<Longrightarrow> storeValid appID st' \<and> boundExist st'"
  shows "storeWhole appID (fst (snd (mutate io appID change (f, k))))"
proof (cases "secLoadLocked io appID f")
  case (Inr st)
  then have st: "storeValid appID st" "boundExist st"
    using assms(1) open_valid [of appID f st] by (auto simp: secLoadLocked_def storeWhole_def split: if_splits)
  obtain r k' where change: "change st k = (r, k')" by fastforce
  show ?thesis
  proof (cases r)
    case (Inl e)
    with Inr change assms(1) show ?thesis by (simp add: mutate_def)
  next
    case (Inr p)
    obtain x st' where p: "p = (x, st')" by fastforce
    have "storeValid appID st' \<and> boundExist st'" using assms(2) [OF st] change Inr p by blast
    with \<open>secLoadLocked io appID f = Inr st\<close> change Inr p assms(1) show ?thesis
      by (simp add: mutate_def persistLocked_def storeWhole_File split: persistOutcome.split)
  qed
qed (use assms in \<open>simp add: mutate_def\<close>)

subsection \<open>Each change\<close>

lemma recordApply_simps [simp]:
  "ssAppID (recordApply now r st) = ssAppID st" "ssBindings (recordApply now r st) = ssBindings st"
  "ssPending (recordApply now r st) = ssPending st" "ssSchemaVersion (recordApply now r st) = ssSchemaVersion st"
  "ssSecrets (recordApply now r st) = ssSecrets st"
  by (simp_all add: recordApply_def Let_def split: prod.split)

lemma Peek_meta: "Peek st name = (case map_of (ssSecrets st) name of None \<Rightarrow> Inl CodeSecretNotFound | Some rec \<Rightarrow> Inr (secretMetaOf st rec))"
  by (simp add: Peek_def)

lemma checkPinned_cong: "ssSecrets st = ssSecrets st' \<Longrightarrow> checkPinned st m bs = checkPinned st' m bs"
  by (induction bs) (auto simp: Peek_def secretMetaOf_def split: option.split)

lemma validatePending_cong: "ssSecrets st = ssSecrets st' \<Longrightarrow> validatePending st t = validatePending st' t"
  unfolding validatePending_def by (simp only: checkPinned_cong [of st st'])

lemma checkPinned_exists: "checkPinned st m bs = Inr () \<Longrightarrow> b \<in> set bs \<Longrightarrow> map_of (ssSecrets st) (bdSecret b) \<noteq> None"
  by (induction bs) (auto simp: Peek_def split: sum.splits option.splits if_splits)

lemma validatePending_exists:
  assumes "validatePending st t = Inr ()" and "b \<in> set (ptBindings t)"
  shows "map_of (ssSecrets st) (bdSecret b) \<noteq> None"
proof -
  obtain m where "checkPinned st m (ptBindings t) = Inr ()"
    using assms(1) by (auto simp: validatePending_def split: option.splits sum.splits)
  then show ?thesis using assms(2) by (rule checkPinned_exists)
qed

lemma recordApply_keeps: "storeValid appID st \<Longrightarrow> storeValid appID (recordApply now r st)" "boundExist st \<Longrightarrow> boundExist (recordApply now r st)"
  using validatePending_cong [of "recordApply now r st" st] by (auto simp: storeValid_def boundExist_def)

lemma versionsOK_append:
  "versionsOK p (xs @ ys) \<longleftrightarrow> versionsOK p xs \<and> versionsOK (if xs = [] then p else svVersion (last xs)) ys"
  by (induction xs arbitrary: p) auto

lemma versionsOK_weaken: "versionsOK p xs \<Longrightarrow> q \<le> p \<Longrightarrow> versionsOK q xs"
  by (cases xs) auto

lemma versionsOK_last: "versionsOK p xs \<Longrightarrow> xs \<noteq> [] \<Longrightarrow> p < svVersion (last xs)"
  by (induction xs arbitrary: p) (fastforce split: if_splits)+

lemma versionsOK_drop: "versionsOK p xs \<Longrightarrow> versionsOK p (drop n xs)"
proof -
  assume "versionsOK p xs"
  then have split: "versionsOK p (take n xs @ drop n xs)" by simp
  show ?thesis
  proof (cases "take n xs = []")
    case True
    with split show ?thesis unfolding versionsOK_append by simp
  next
    case False
    from split have "versionsOK p (take n xs)" "versionsOK (svVersion (last (take n xs))) (drop n xs)"
      unfolding versionsOK_append using False by simp_all
    from versionsOK_weaken [OF this(2)] versionsOK_last [OF this(1) False] show ?thesis by simp
  qed
qed

lemma fingerprint_hex:
  assumes "hmacLaw hm"
  shows "\<exists>fp. hexDecode (fingerprint hm key val) = Some fp \<and> length fp = 6"
proof -
  have take_hex: "take (2 * n) (hexEncode bs) = hexEncode (take n bs)" for n bs
  proof (induction n arbitrary: bs)
    case (Suc n)
    then show ?case by (cases bs) simp_all
  qed simp
  let ?h = "hm (hm key ''phelix:secrets:fingerprint:v1'') val"
  have "fingerprint hm key val = hexString (take 6 ?h)"
    using take_hex [of 6 "bytesOf ?h"] by (simp add: fingerprint_def hexString_def bytesOf_def take_map)
  then show ?thesis using assms by (simp add: hexDecode_hexString hmacLaw_def)
qed

definition recordUsable :: "string \<Rightarrow> secretRecord \<Rightarrow> bool" where
  "recordUsable name rec \<longleftrightarrow>
     srName rec = name \<and> versionsOK 0 (srVersions rec) \<and>
     srActiveVersion rec = (if srVersions rec = [] then 0 else svVersion (last (srVersions rec)))"

lemma newVersion_OK:
  assumes "secretNameOK name" and "recordUsable name rec" and "hmacLaw hm" and "enc \<noteq> ''''"
  shows "recordOK (name, newVersion hm io val key enc rec)"
proof -
  let ?v = "\<lparr>svVersion = srActiveVersion rec + 1, svCreatedAt = siNow io, svFingerprint = fingerprint hm key val, svEncValue = enc\<rparr>"
  let ?vs = "srVersions rec @ [?v]"
  obtain fp where fp: "hexDecode (fingerprint hm key val) = Some fp" "length fp = 6"
    using fingerprint_hex [OF assms(3)] by blast
  have "versionsOK 0 ?vs" using assms(2,4) fp by (simp add: recordUsable_def versionsOK_append)
  then have "versionsOK 0 (drop (length ?vs - maxVersions) ?vs)" by (rule versionsOK_drop)
  moreover have "drop (length ?vs - maxVersions) ?vs \<noteq> []" by (simp add: maxVersions_def)
  moreover have "last (drop (length ?vs - maxVersions) ?vs) = ?v" by (subst last_drop) (simp_all add: maxVersions_def)
  moreover have "length (drop (length ?vs - maxVersions) ?vs) \<le> maxVersions" by (simp only: length_drop)
  ultimately obtain ws where ws: "ws = drop (length ?vs - maxVersions) ?vs"
    and kept: "versionsOK 0 ws" "ws \<noteq> []" "last ws = ?v" "length ws \<le> maxVersions" by blast
  have "newVersion hm io val key enc rec = rec\<lparr>srVersions := ws, srActiveVersion := srActiveVersion rec + 1, srUpdatedAt := siNow io\<rparr>"
    by (simp add: newVersion_def Let_def ws)
  with kept assms(1,2) show ?thesis by (simp add: recordOK_def recordUsable_def)
qed

lemma list_all_update: "list_all P al \<Longrightarrow> P (k, v) \<Longrightarrow> list_all P (AList.update k v al)"
  by (auto simp: list_all_iff dest: set_update_cases)

lemma list_all_delete: "list_all P al \<Longrightarrow> list_all P (AList.delete k al)"
  by (auto simp: list_all_iff dest: set_delete_subset)

lemma putVersion_keeps:
  assumes "storeValid appID st" and "boundExist st" and "ssPending st = None" and "secretNameOK name" and "hmacLaw hm" and "enc \<noteq> ''''"
  shows "storeValid appID (snd (putVersion hm io name val key enc st))" and "boundExist (snd (putVersion hm io name val key enc st))"
proof -
  let ?old = "case map_of (ssSecrets st) name of None \<Rightarrow> emptyRecord io name | Some rec \<Rightarrow> rec"
  let ?st = "st\<lparr>ssSecrets := AList.update name (newVersion hm io val key enc ?old) (ssSecrets st)\<rparr>"
  have "recordOK (name, rec)" if "map_of (ssSecrets st) name = Some rec" for rec
    using map_of_SomeD [OF that] assms(1) by (auto simp: storeValid_def list_all_iff)
  then have "recordUsable name ?old"
    by (auto simp: recordUsable_def recordOK_def emptyRecord_def split: option.split)
  from newVersion_OK [OF assms(4) this assms(5,6)]
  have new: "recordOK (name, newVersion hm io val key enc ?old)" .
  with assms(1) have "list_all recordOK (AList.update name (newVersion hm io val key enc ?old) (ssSecrets st))"
    by (intro list_all_update) (simp_all add: storeValid_def)
  then have "storeValid appID ?st" using assms(1,3) by (simp add: storeValid_def)
  moreover have "boundExist ?st" using assms(2) by (auto simp: boundExist_def AList.update_conv')
  ultimately show "storeValid appID (snd (putVersion hm io name val key enc st))" and "boundExist (snd (putVersion hm io name val key enc st))"
    using recordApply_keeps by (simp_all add: putVersion_def Let_def)
qed

lemma resolveAll_exists: "resolveAll hm cp st k bs = Inr () \<Longrightarrow> b \<in> set bs \<Longrightarrow> map_of (ssSecrets st) (bdSecret b) \<noteq> None"
  by (induction bs) (auto simp: rbind_eq_Inr resolve_def split: option.splits)

lemma CheckCollisions_valid: "CheckCollisions io appID bs = Inr () \<Longrightarrow> validateBindings bs = Inr ()"
  by (auto simp: CheckCollisions_def rbind_eq_Inr)

lemma commitPending_keeps:
  assumes "storeValid appID st" and "boundExist st"
  shows "storeValid appID (commitPending now st)" and "boundExist (commitPending now st)"
proof -
  have "storeValid appID (commitPending now st) \<and> boundExist (commitPending now st)"
  proof (cases "ssPending st")
    case None
    with assms show ?thesis by (simp add: commitPending_def)
  next
    case (Some t)
    then have "validateBindings (ptBindings t) = Inr ()" "validatePending st t = Inr ()"
      using assms(1) by (auto simp: storeValid_def)
    with Some assms(1) validatePending_exists [of st t] show ?thesis
      by (auto simp: commitPending_def storeValid_def boundExist_def)
  qed
  then show "storeValid appID (commitPending now st)" and "boundExist (commitPending now st)" by simp_all
qed

subsection \<open>Every history\<close>

datatype secOp = OpSet string string | OpRemove string | OpReplace "binding list" | OpBegin "pendingTxn option"
  | OpCommit | OpDiscard | OpRecord "applyRestart option"

fun secStep :: "hmac \<Rightarrow> cipher \<Rightarrow> string \<Rightarrow> secIO \<times> secOp \<Rightarrow> storeFile \<times> keyFile \<Rightarrow> storeFile \<times> keyFile" where
  "secStep hm cp appID (io, OpSet name val) fk = snd (SetSecret hm cp io appID name val fk)"
| "secStep hm cp appID (io, OpRemove name) fk = snd (RemoveSecret io appID name fk)"
| "secStep hm cp appID (io, OpReplace bs) fk = snd (ReplaceBindings hm cp io appID bs fk)"
| "secStep hm cp appID (io, OpBegin txn) fk = snd (BeginTxn io appID txn fk)"
| "secStep hm cp appID (io, OpCommit) fk = snd (CommitTxn io appID fk)"
| "secStep hm cp appID (io, OpDiscard) fk = snd (DiscardTxn io appID fk)"
| "secStep hm cp appID (io, OpRecord r) fk = snd (RecordApply io appID r fk)"

text \<open>The nonce of a write, when there is one, has the size of a nonce.\<close>

definition nonceOK :: "secIO \<Rightarrow> bool" where
  "nonceOK io \<longleftrightarrow> (case siNonce io of None \<Rightarrow> True | Some n \<Rightarrow> length n = nonceSize)"

lemma setChange_keeps:
  assumes "secretNameOK name" and "hmacLaw hm" and "nonceOK io" and "storeValid appID st" and "boundExist st"
    and "setChange hm cp io name val st k = (Inr (x, st'), k')"
  shows "storeValid appID st' \<and> boundExist st'"
proof -
  obtain rk kk where key: "(if ssSecrets st = [] then GetMasterKey (siKey io) (siOthers io) k else (ReadMasterKey k, k)) = (rk, kk)"
    by (metis prod.exhaust)
  with assms(6) have none: "ssPending st = None" by (auto simp: setChange_def split: if_splits)
  with assms(6) key obtain mk enc where enc: "EncryptData cp (siNonce io) val mk = Inr enc"
    and st': "putVersion hm io name val mk enc st = (x, st')"
    by (cases rk; cases "EncryptData cp (siNonce io) val (projr rk)") (auto simp: setChange_def)
  have "enc \<noteq> []"
    using enc assms(3) Encrypt_nonempty by (cases "siNonce io") (auto simp: nonceOK_def EncryptData_def split: if_splits)
  then show ?thesis
    using putVersion_keeps [OF assms(4,5) none assms(1,2), of enc io val mk] st' by simp
qed

lemma removeChange_keeps:
  assumes "storeValid appID st" and "boundExist st" and "removeChange name st k = (Inr (x, st'), k')"
  shows "storeValid appID st' \<and> boundExist st'"
proof -
  from assms(3) have "ssPending st = None" "\<not> list_ex (\<lambda>b. bdSecret b = name) (ssBindings st)"
    and st': "st' = st\<lparr>ssSecrets := AList.delete name (ssSecrets st)\<rparr>"
    by (simp_all add: removeChange_def split: if_splits)
  with assms(1,2) list_all_delete [of recordOK "ssSecrets st" name] show ?thesis
    by (simp add: storeValid_def boundExist_def AList.delete_conv' list_ex_iff)
qed

lemma replaceChange_keeps:
  assumes "storeValid appID st" and "boundExist st" and "replaceChange hm cp io appID bs st k = (Inr (x, st'), k')"
  shows "storeValid appID st' \<and> boundExist st'"
proof -
  from assms(3) have ok: "ssPending st = None" "validateBindings bs = Inr ()" "\<forall>b\<in>set bs. map_of (ssSecrets st) (bdSecret b) \<noteq> None"
    and st': "st' = recordApply (siNow io) ApplyRestartNotNeeded (st\<lparr>ssBindings := bs\<rparr>)"
    using CheckCollisions_valid [of io appID bs] resolveAll_exists [of hm cp st k bs]
    by (auto simp: replaceChange_def rbind_eq_Inr split: if_splits)
  have "storeValid appID (st\<lparr>ssBindings := bs\<rparr>)" "boundExist (st\<lparr>ssBindings := bs\<rparr>)"
    using assms(1) ok by (simp_all add: storeValid_def boundExist_def)
  then show ?thesis unfolding st' using recordApply_keeps by blast
qed

lemma beginChange_keeps:
  assumes "ValidTxnID (ptTxnID t)" and "validateBindings (ptBindings t) = Inr ()" and "storeValid appID st" and "boundExist st"
    and "beginChange io appID t st k = (Inr (x, st'), k')"
  shows "storeValid appID st' \<and> boundExist st'"
proof -
  from assms(5) have "validatePending st t = Inr ()" "st' = st\<lparr>ssPending := Some t\<rparr>"
    by (auto simp: beginChange_def rbind_eq_Inr split: if_splits)
  with assms(1-4) validatePending_cong [of "st\<lparr>ssPending := Some t\<rparr>" st t] show ?thesis
    by (simp add: storeValid_def boundExist_def)
qed

lemma discard_keeps: "storeValid appID st \<Longrightarrow> storeValid appID (st\<lparr>ssPending := None\<rparr>)" "boundExist st \<Longrightarrow> boundExist (st\<lparr>ssPending := None\<rparr>)"
  by (simp_all add: storeValid_def boundExist_def)

lemma secStep_whole:
  assumes "storeWhole appID (fst fk)" and "hmacLaw hm" and "nonceOK io"
  shows "storeWhole appID (fst (secStep hm cp appID (io, op) fk))"
proof (cases fk)
  case (Pair f k)
  have whole: "storeWhole appID f" using assms(1) Pair by simp
  show ?thesis unfolding Pair
  proof (cases op)
    case (OpSet name val)
    have "storeWhole appID (fst (snd (mutate io appID (setChange hm cp io name val) (f, k))))" if "secretNameOK name"
      by (rule mutate_whole [OF whole], rule setChange_keeps [OF that assms(2,3)])
    with whole show "storeWhole appID (fst (secStep hm cp appID (io, op) (f, k)))"
      unfolding OpSet by (simp add: SetSecret_def split: sum.split)
  next
    case (OpRemove name)
    have "storeWhole appID (fst (snd (mutate io appID (removeChange name) (f, k))))"
      by (rule mutate_whole [OF whole], rule removeChange_keeps)
    with whole show "storeWhole appID (fst (secStep hm cp appID (io, op) (f, k)))"
      unfolding OpRemove by (simp add: RemoveSecret_def)
  next
    case (OpReplace bs)
    have "storeWhole appID (fst (snd (mutate io appID (replaceChange hm cp io appID bs) (f, k))))"
      by (rule mutate_whole [OF whole], rule replaceChange_keeps)
    with whole show "storeWhole appID (fst (secStep hm cp appID (io, op) (f, k)))"
      unfolding OpReplace by (simp add: ReplaceBindings_def split: sum.split)
  next
    case (OpBegin txn)
    have "storeWhole appID (fst (snd (mutate io appID (beginChange io appID (t\<lparr>ptUpdatedAt := siNow io\<rparr>)) (f, k))))"
      if "ValidTxnID (ptTxnID t)" "validateBindings (ptBindings t) = Inr ()" for t
      by (rule mutate_whole [OF whole], rule beginChange_keeps) (use that in simp_all)
    with whole show "storeWhole appID (fst (secStep hm cp appID (io, op) (f, k)))"
      unfolding OpBegin by (simp add: BeginTxn_def split: sum.split option.split)
  next
    case OpCommit
    have "storeWhole appID (fst (snd (mutate io appID (\<lambda>st k. (Inr ((), commitPending (siNow io) st), k)) (f, k))))"
      by (rule mutate_whole [OF whole]) (auto simp: commitPending_keeps)
    then show "storeWhole appID (fst (secStep hm cp appID (io, op) (f, k)))" unfolding OpCommit by (simp add: CommitTxn_def)
  next
    case OpDiscard
    have "storeWhole appID (fst (snd (mutate io appID (\<lambda>st k. (Inr ((), st\<lparr>ssPending := None\<rparr>), k)) (f, k))))"
      by (rule mutate_whole [OF whole]) (auto simp: discard_keeps)
    then show "storeWhole appID (fst (secStep hm cp appID (io, op) (f, k)))" unfolding OpDiscard by (simp add: DiscardTxn_def)
  next
    case (OpRecord r)
    have "storeWhole appID (fst (snd (mutate io appID (\<lambda>st k. (Inr ((), recordApply (siNow io) a st), k)) (f, k))))" for a
      by (rule mutate_whole [OF whole]) (auto simp: recordApply_keeps)
    with whole show "storeWhole appID (fst (secStep hm cp appID (io, op) (f, k)))"
      unfolding OpRecord by (simp add: RecordApply_def split: option.split)
  qed
qed

text \<open>
  C15: The secret store stays whole.  Whatever sequence of writes, removals, binding changes,
  transactions, commits, discards and recorded outcomes an application's store sees, and wherever each of
  them fails (the lock, the key, the write, the rename, the directory sync), the file on disk still
  passes every check of opening it, and every secret the active bindings name is in it: removal and
  promotion never leave the application pointing at a secret that does not exist.
\<close>
theorem secret_store_stays_whole:
  assumes "hmacLaw hm" and "list_all (\<lambda>(io, op). nonceOK io) ops"
  shows "\<exists>st. openStoreLocked appID (fst (fold (secStep hm cp appID) ops (NoStoreFile, k))) = Inr st \<and>
              (\<forall>b\<in>set (ssBindings st). isOk (Peek st (bdSecret b)))"
proof -
  have "storeWhole appID (fst (fold (secStep hm cp appID) ops fk))" if "storeWhole appID (fst fk)" for fk
    using that assms(2)
  proof (induction ops arbitrary: fk)
    case (Cons iop ops)
    obtain io op where "iop = (io, op)" by fastforce
    with Cons secStep_whole [OF Cons.prems(1) assms(1), of io cp op] show ?case by simp
  qed simp
  from this [of "(NoStoreFile, k)"] storeWhole_empty
  have "storeWhole appID (fst (fold (secStep hm cp appID) ops (NoStoreFile, k)))" by simp
  then show ?thesis
    by (auto simp: storeWhole_def boundExist_def Peek_def split: sum.splits option.split)
qed

definition plainHmac :: hmac where
  "plainHmac key text = replicate 31 CHR ''h'' @ [if text = [] then CHR ''0'' else hd text]"

definition demoSecIO :: secIO where
  "demoSecIO =
     \<lparr>siDir = True, siLock = True, siCancelled = False, siPersist = PersistDone, siNow = 0, siNonce = Some (replicate 12 CHR ''n''),
      siKey = eoKey demoEnvIO, siOthers = [], siEnv = demoEnvIO, siVars = []\<rparr>"

definition demoAppID :: string where
  "demoAppID = ''11111111-1111-4111-8111-111111111111''"

definition demoBinding :: binding where
  "demoBinding = \<lparr>bdSecret = ''db'', bdEnv = ''DB''\<rparr>"

definition demoOps :: "(secIO \<times> secOp) list" where
  "demoOps = [(demoSecIO, OpSet ''db'' ''pw''), (demoSecIO, OpReplace [demoBinding]), (demoSecIO, OpRemove ''db'')]"

lemma demo_bound:
  "map_option ssBindings (case openStoreLocked demoAppID (fst (fold (secStep plainHmac plainCipher demoAppID) demoOps (NoStoreFile, NoKeyFile))) of
     Inl e \<Rightarrow> None | Inr st \<Rightarrow> Some st) = Some [demoBinding]"
  by code_simp

theorem secret_store_stays_whole_witness:
  "\<exists>st. openStoreLocked demoAppID (fst (fold (secStep plainHmac plainCipher demoAppID) demoOps (NoStoreFile, NoKeyFile))) = Inr st \<and>
        ssBindings st = [demoBinding] \<and> isOk (Peek st ''db'')"
proof -
  have "hmacLaw plainHmac" by (simp add: hmacLaw_def plainHmac_def)
  moreover have "list_all (\<lambda>(io, op). nonceOK io) demoOps"
    by (simp add: demoOps_def nonceOK_def demoSecIO_def nonceSize_def)
  ultimately obtain st where st: "openStoreLocked demoAppID (fst (fold (secStep plainHmac plainCipher demoAppID) demoOps (NoStoreFile, NoKeyFile))) = Inr st"
      "\<forall>b\<in>set (ssBindings st). isOk (Peek st (bdSecret b))"
    using secret_store_stays_whole [of plainHmac demoOps demoAppID plainCipher NoKeyFile] by blast
  moreover have "ssBindings st = [demoBinding]" using demo_bound unfolding st(1) by simp
  ultimately show ?thesis by (simp add: demoBinding_def)
qed

section \<open>A value that was set is the value that resolves\<close>

lemma mutate_success:
  assumes "mutate io appID change (f, k) = (Inr x, f', k')"
  shows "\<exists>st st'. secLoadLocked io appID f = Inr st \<and> change st k = (Inr (x, st'), k') \<and> f' = StoreFile st'"
  using assms by (auto simp: mutate_def persistLocked_def split: sum.splits prod.splits persistOutcome.splits)

lemma activeVersion_new:
  "activeVersion (newVersion hm io val key enc rec) =
     Some \<lparr>svVersion = srActiveVersion rec + 1, svCreatedAt = siNow io, svFingerprint = fingerprint hm key val, svEncValue = enc\<rparr>"
proof -
  let ?v = "\<lparr>svVersion = srActiveVersion rec + 1, svCreatedAt = siNow io, svFingerprint = fingerprint hm key val, svEncValue = enc\<rparr>"
  have "\<exists>vs. srVersions (newVersion hm io val key enc rec) = vs @ [?v]"
    by (auto simp: newVersion_def Let_def maxVersions_def)
  moreover have "srActiveVersion (newVersion hm io val key enc rec) = srActiveVersion rec + 1"
    by (simp add: newVersion_def Let_def)
  ultimately show ?thesis by (auto simp: activeVersion_def)
qed

lemma putVersion_secrets:
  "ssSecrets (snd (putVersion hm io name val key enc st)) =
     AList.update name (newVersion hm io val key enc (case map_of (ssSecrets st) name of None \<Rightarrow> emptyRecord io name | Some rec \<Rightarrow> rec)) (ssSecrets st)"
  by (simp add: putVersion_def Let_def)

lemma resolve_other: "map_of (ssSecrets st) n = map_of (ssSecrets st') n \<Longrightarrow> resolve hm cp st k n = resolve hm cp st' k n"
  by (simp add: resolve_def)

lemma OpenStore_ready:
  assumes "appidValid appID" and "siLock io" and "openStoreLocked appID f = Inr st"
  shows "OpenStore io appID f = Inr st"
  using assms by (auto simp: OpenStore_def secLoadLocked_def openStoreLocked_def)

text \<open>
  C16: Setting and resolving a secret.  On a store in order, and with a cipher that opens what it sealed,
  a successful write returns a version one above the version before, and from then on the secret
  resolves to exactly the value that was set, with that version and the fingerprint that was reported,
  also when this write created the master key; every other secret resolves as it did before, and an
  existing master key is never replaced.
\<close>
theorem secret_roundtrip:
  assumes "storeWhole appID f" and "gcmLaw cp" and "hmacLaw hm" and "nonceOK io" and "keyIOOK (siKey io)"
    and "SetSecret hm cp io appID name val (f, k) = (Inr res, f', k')" and "siLock io'" and "\<not> siCancelled io'"
  shows "Resolve hm cp io' appID name (f', k') = Inr \<lparr>rsValue = val, rsFingerprint = seFingerprint res, rsVersion = seVersion res\<rparr> \<and>
         seVersion res = sePrevious res + 1 \<and> (k \<noteq> NoKeyFile \<longrightarrow> k' = k) \<and>
         (\<forall>n. n \<noteq> name \<longrightarrow> Resolve hm cp io' appID n (f', k') = Resolve hm cp io' appID n (f, k))"
proof -
  have pre: "appidValid appID" "secretNameOK name" "ValidateSecretValue val = Inr ()"
    and run: "mutate io appID (setChange hm cp io name val) (f, k) = (Inr res, f', k')"
    using assms(6) by (auto simp: SetSecret_def split: if_splits sum.splits)
  obtain st st' where load: "secLoadLocked io appID f = Inr st" and change: "setChange hm cp io name val st k = (Inr (res, st'), k')"
    and f': "f' = StoreFile st'" using mutate_success [OF run] by blast
  have st: "openStoreLocked appID f = Inr st" using load by (simp add: secLoadLocked_def split: if_splits)
  have valid: "storeValid appID st" "boundExist st" using open_valid [OF st] st assms(1) by (simp_all add: storeWhole_def)
  have "storeValid appID st'" using setChange_keeps [OF pre(2) assms(3,4) valid change] by blast
  then have st': "openStoreLocked appID f' = Inr st'" using open_StoreFile f' by blast
  obtain rk kk where key: "(if ssSecrets st = [] then GetMasterKey (siKey io) (siOthers io) k else (ReadMasterKey k, k)) = (rk, kk)"
    by (metis prod.exhaust)
  with change obtain mk enc where rk: "rk = Inr mk" "kk = k'" and enc: "EncryptData cp (siNonce io) val mk = Inr enc"
    and put: "putVersion hm io name val mk enc st = (res, st')"
    by (cases rk; cases "EncryptData cp (siNonce io) val (projr rk)") (auto simp: setChange_def split: if_splits)
  have mk: "ReadMasterKey k' = Inr mk"
    using key rk GetMasterKey_key [OF assms(5), of "siOthers io" k mk k'] by (auto split: if_splits)
  have keep: "k \<noteq> NoKeyFile \<longrightarrow> k' = k" using key rk GetMasterKey_keeps [of "siKey io" "siOthers io" k rk k'] by (auto split: if_splits)
  obtain n where "siNonce io = Some n" "length n = nonceSize"
    using enc assms(4) by (cases "siNonce io") (auto simp: EncryptData_def nonceOK_def split: if_splits)
  then have dec: "DecryptData cp enc mk = Inr val" using Decrypt_Encrypt [OF assms(2)] enc by simp
  let ?old = "case map_of (ssSecrets st) name of None \<Rightarrow> emptyRecord io name | Some rec \<Rightarrow> rec"
  have secrets: "ssSecrets st' = AList.update name (newVersion hm io val mk enc ?old) (ssSecrets st)"
    using putVersion_secrets [of hm io name val mk enc st] put by simp
  have res: "res = \<lparr>seName = name, seVersion = srActiveVersion ?old + 1, seFingerprint = fingerprint hm mk val,
      sePrevious = srActiveVersion ?old, seCreated = (map_of (ssSecrets st) name = None)\<rparr>"
    using put by (simp add: putVersion_def Let_def newVersion_def)
  note opens = OpenStore_ready [OF pre(1) assms(7)]
  have "resolve hm cp st' k' name = Inr \<lparr>rsValue = val, rsFingerprint = seFingerprint res, rsVersion = seVersion res\<rparr>"
    by (simp add: resolve_def secrets AList.update_conv' activeVersion_new mk dec pre(3) res)
  moreover have "resolve hm cp st' k' n = resolve hm cp st k n" if "n \<noteq> name" for n
  proof (cases "ssSecrets st = []")
    case True
    with that show ?thesis by (simp add: resolve_def secrets)
  next
    case False
    then have "k' = k" using key rk by simp
    with that show ?thesis using resolve_other [of st' n st] by (simp add: secrets AList.update_conv')
  qed
  ultimately show ?thesis
    using opens [OF st] opens [OF st'] assms(8) keep by (simp add: Resolve_def res)
qed

lemma demo_set: "isOk (fst (SetSecret plainHmac plainCipher demoSecIO demoAppID ''db'' ''pw'' (NoStoreFile, NoKeyFile)))"
  by code_simp

lemma demo_laws: "hmacLaw plainHmac" "gcmLaw plainCipher" "nonceOK demoSecIO" "keyIOOK (siKey demoSecIO)" "siLock demoSecIO" "\<not> siCancelled demoSecIO"
  by (simp_all add: hmacLaw_def plainHmac_def gcmLaw_def plainCipher_def nonceOK_def demoSecIO_def nonceSize_def keyIOOK_def demoEnvIO_def)

theorem secret_roundtrip_witness:
  "\<exists>r. Resolve plainHmac plainCipher demoSecIO demoAppID ''db''
         (snd (SetSecret plainHmac plainCipher demoSecIO demoAppID ''db'' ''pw'' (NoStoreFile, NoKeyFile))) = Inr r \<and> rsValue r = ''pw''"
proof -
  obtain res f k where run: "SetSecret plainHmac plainCipher demoSecIO demoAppID ''db'' ''pw'' (NoStoreFile, NoKeyFile) = (Inr res, f, k)"
    using demo_set by (metis isOk_iff prod.exhaust prod.sel(1))
  show ?thesis
    using secret_roundtrip [OF storeWhole_empty demo_laws(2,1,3,4) run demo_laws(5,6)] run by simp
qed

section \<open>A launch gets what it declares\<close>

lemma cut_binding: "envNameOK n \<Longrightarrow> cut (CHR ''='') (n @ ''='' @ v) = (n, Some v)"
proof -
  assume "envNameOK n"
  then have "list_all (\<lambda>d. isAlpha d \<or> isDigit d \<or> d = CHR ''_'') n" by (cases n) (auto simp: envNameOK_def)
  moreover have "\<not> isAlpha (CHR ''='')" "\<not> isDigit (CHR ''='')" by (simp_all add: isAlpha_def isDigit_def)
  ultimately have "CHR ''='' \<notin> set n" by (auto simp: list_all_iff)
  then show ?thesis using cut_append [of "CHR ''=''" n v] by simp
qed

lemma envKey_binding: "envNameOK n \<Longrightarrow> envKey (n @ ''='' @ v) = Some n"
  by (simp only: envKey_def cut_binding prod.case option.case)

lemma validateImports_facts:
  "validateImports seen bs = Inr () \<Longrightarrow>
     (\<forall>b\<in>set bs. envNameOK (bdEnv b) \<and> bdEnv b \<notin> set seen) \<and> distinct (map bdEnv bs)"
  by (induction bs arbitrary: seen) (fastforce split: if_splits)+

lemma keepLast_filter:
  "filter (\<lambda>kv. envKey kv = Some n) (keepLast kvs) =
     (let hits = filter (\<lambda>kv. envKey kv = Some n) kvs in if hits = [] then [] else [last hits])"
proof (induction kvs)
  case (Cons kv kvs)
  have some: "filter (\<lambda>kv. envKey kv = Some n) kvs = [] \<longleftrightarrow> Some n \<notin> set (map envKey kvs)"
    unfolding filter_empty_conv set_map image_iff by (auto dest: sym)
  show ?case
  proof (cases "envKey kv = Some n")
    case True
    with Cons some show ?thesis by (cases "filter (\<lambda>kv. envKey kv = Some n) kvs") auto
  next
    case False
    with Cons show ?thesis by auto
  qed
qed simp

definition secretValue :: "hmac \<Rightarrow> cipher \<Rightarrow> secIO \<Rightarrow> string \<Rightarrow> storeFile \<times> keyFile \<Rightarrow> string \<Rightarrow> string" where
  "secretValue hm cp io appID fk name = (case Resolve hm cp io appID name fk of Inl e \<Rightarrow> '''' | Inr r \<Rightarrow> rsValue r)"

lemma overlayLoop_value:
  "overlayLoop hm cp io appID fk bs = Inr (overlay, vals) \<Longrightarrow>
     overlay = map (\<lambda>b. bdEnv b @ ''='' @ secretValue hm cp io appID fk (bdSecret b)) bs \<and>
     vals = map (\<lambda>b. secretValue hm cp io appID fk (bdSecret b)) bs \<and>
     (\<forall>b\<in>set bs. isOk (Resolve hm cp io appID (bdSecret b) fk))"
  by (induction bs arbitrary: overlay vals) (auto simp: rbind_eq_Inr secretValue_def)

lemma filter_unbound:
  assumes "\<forall>b\<in>set bs. envNameOK (bdEnv b)" and "n \<notin> bdEnv ` set bs"
  shows "filter (\<lambda>kv. envKey kv = Some n) (map (\<lambda>b. bdEnv b @ ''='' @ g b) bs) = []"
proof -
  have "envKey (bdEnv b @ ''='' @ g b) \<noteq> Some n" if "b \<in> set bs" for b
    using that assms envKey_binding [of "bdEnv b" "g b"] by auto
  then show ?thesis unfolding filter_empty_conv by auto
qed

lemma filter_bound:
  assumes "distinct (map bdEnv bs)" and "\<forall>b\<in>set bs. envNameOK (bdEnv b)" and "b \<in> set bs"
  shows "filter (\<lambda>kv. envKey kv = Some (bdEnv b)) (map (\<lambda>b. bdEnv b @ ''='' @ g b) bs) = [bdEnv b @ ''='' @ g b]"
  using assms
proof (induction bs)
  case (Cons a bs)
  have key: "envKey (bdEnv a @ ''='' @ g a) = Some (bdEnv a)" using Cons.prems by (intro envKey_binding) simp
  show ?case
  proof (cases "b = a")
    case True
    with Cons.prems filter_unbound [of bs "bdEnv a" g] key show ?thesis by simp
  next
    case False
    with Cons.prems have "b \<in> set bs" "bdEnv a \<noteq> bdEnv b" by auto
    with Cons key show ?thesis by simp
  qed
qed simp

lemma envLookup_filter:
  "envLookup env n =
     (let hits = filter (\<lambda>kv. envKey kv = Some n) env in if hits = [] then None else snd (cut (CHR ''='') (last hits)))"
proof (induction env rule: rev_induct)
  case (snoc kv kvs)
  then show ?case by (cases "envKey kv = Some n") (simp_all add: envLookup_def)
qed (simp add: envLookup_def)

lemma update_mem: "(k, v) \<in> set (AList.update k v al)"
  by (induction al) auto

lemma heldBy_acquired: "v \<in> set vals \<Longrightarrow> heldBy (snd (AcquireSecretValues vals cv)) v"
  using update_mem [of "cvNext cv" vals "cvHolds cv"] by (auto simp: heldBy_def AcquireSecretValues_def list_ex_iff)

text \<open>
  C17: A launch gets exactly what it declares, or does not start.  If the overlay of a launch is built,
  every declared binding resolved, the environment merged from any base sets each bound variable once
  and to the value of its secret, every other variable keeps the setting of the base, and all the
  values are held for masking before the overlay is handed out.  If it is not, nothing is handed out
  or held, and unless the bindings are malformed or the application was already under a runtime alert
  it is marked degraded.
\<close>
theorem launch_gets_declared_secrets:
  assumes "OverlayForLaunch hm cp io appID bs fk sp = (r, sp')"
  shows "case r of
           Inr (overlay, h) \<Rightarrow>
             (\<forall>b\<in>set bs. \<exists>s. Resolve hm cp io appID (bdSecret b) fk = Inr s \<and> heldBy (spCover sp') (rsValue s) \<and>
                filter (\<lambda>kv. envKey kv = Some (bdEnv b)) (MergeEnv base overlay) = [bdEnv b @ ''='' @ rsValue s]) \<and>
             (\<forall>n. n \<notin> bdEnv ` set bs \<longrightarrow> envLookup (MergeEnv base overlay) n = envLookup base n)
         | Inl e \<Rightarrow>
             spCover sp' = spCover sp \<and>
             (isOk (validateBindings bs) \<and> isOk (CheckRuntimeSecurity appID (spStates sp)) \<longrightarrow> \<not> SecurityHealthy appID (spStates sp'))"
proof (cases r)
  case (Inl e)
  with assms show ?thesis
    by (auto simp: OverlayForLaunch_def MarkDegraded_def markDegraded_def SecurityHealthy_def AList.update_conv'
        split: if_splits sum.splits prod.splits)
next
  case (Inr p)
  obtain overlay h where p: "p = (overlay, h)" by fastforce
  have valid: "validateBindings bs = Inr ()" using assms Inr by (auto simp: OverlayForLaunch_def split: if_splits sum.splits)
  then have names: "distinct (map bdEnv bs)" "\<forall>b\<in>set bs. envNameOK (bdEnv b)"
    using validateImports_facts unfolding validateBindings_def by blast+
  show ?thesis
  proof (cases "bs = []")
    case True
    with assms Inr p valid show ?thesis by (auto simp: OverlayForLaunch_def MergeEnv_def split: if_splits)
  next
    case False
    with assms Inr p valid obtain vals where loop: "overlayLoop hm cp io appID fk bs = Inr (overlay, vals)"
      and cover: "spCover sp' = snd (AcquireSecretValues vals (spCover sp))"
      by (auto simp: OverlayForLaunch_def split: if_splits sum.splits prod.splits)
    note made = overlayLoop_value [OF loop]
    let ?g = "\<lambda>b. secretValue hm cp io appID fk (bdSecret b)"
    have "overlay \<noteq> []" using made False by simp
    then have merged: "filter (\<lambda>kv. envKey kv = Some n) (MergeEnv base overlay) =
        (let hits = filter (\<lambda>kv. envKey kv = Some n) base @ filter (\<lambda>kv. envKey kv = Some n) overlay in if hits = [] then [] else [last hits])" for n
      by (simp only: MergeEnv_def if_False keepLast_filter filter_append)

    have "\<exists>s. Resolve hm cp io appID (bdSecret b) fk = Inr s \<and> heldBy (spCover sp') (rsValue s) \<and>
        filter (\<lambda>kv. envKey kv = Some (bdEnv b)) (MergeEnv base overlay) = [bdEnv b @ ''='' @ rsValue s]" if b: "b \<in> set bs" for b
    proof -
      obtain s where s: "Resolve hm cp io appID (bdSecret b) fk = Inr s" using made b by (auto simp: isOk_iff)
      then have g: "?g b = rsValue s" by (simp add: secretValue_def)
      have "filter (\<lambda>kv. envKey kv = Some (bdEnv b)) overlay = [bdEnv b @ ''='' @ ?g b]"
        using filter_bound [OF names b, of ?g] made by simp
      then have "filter (\<lambda>kv. envKey kv = Some (bdEnv b)) (MergeEnv base overlay) = [bdEnv b @ ''='' @ rsValue s]"
        unfolding merged g by simp
      moreover have "rsValue s \<in> set vals" using made b g by force
      ultimately show ?thesis using s heldBy_acquired cover by auto
    qed
    moreover have "envLookup (MergeEnv base overlay) n = envLookup base n" if "n \<notin> bdEnv ` set bs" for n
    proof -
      have "filter (\<lambda>kv. envKey kv = Some n) overlay = []" using filter_unbound [OF names(2) that, of ?g] made by simp
      then show ?thesis unfolding envLookup_filter merged by (simp add: Let_def)
    qed
    ultimately show ?thesis using Inr p by simp
  qed
qed

definition demoProc :: secProc where
  "demoProc = \<lparr>spCover = emptyCoverage, spStates = []\<rparr>"

definition demoFiles :: "storeFile \<times> keyFile" where
  "demoFiles = snd (SetSecret plainHmac plainCipher demoSecIO demoAppID ''db'' ''pw'' (NoStoreFile, NoKeyFile))"

lemma demo_overlay:
  "fst (OverlayForLaunch plainHmac plainCipher demoSecIO demoAppID [demoBinding] demoFiles demoProc) = Inr ([''DB=pw''], Some 0)"
  by code_simp

theorem launch_gets_declared_secrets_witness:
  "filter (\<lambda>kv. envKey kv = Some ''DB'') (MergeEnv [''DB=old'', ''A=1''] [''DB=pw'']) = [''DB=pw''] \<and>
   heldBy (spCover (snd (OverlayForLaunch plainHmac plainCipher demoSecIO demoAppID [demoBinding] demoFiles demoProc))) ''pw''"
proof -
  obtain sp' where run: "OverlayForLaunch plainHmac plainCipher demoSecIO demoAppID [demoBinding] demoFiles demoProc = (Inr ([''DB=pw''], Some 0), sp')"
    using demo_overlay by (metis prod.exhaust_sel)
  have mem: "demoBinding \<in> set [demoBinding]" by simp
  obtain s :: resolvedSecret where "heldBy (spCover sp') (rsValue s)"
      and "filter (\<lambda>kv. envKey kv = Some (bdEnv demoBinding)) (MergeEnv [''DB=old'', ''A=1''] [''DB=pw'']) = [bdEnv demoBinding @ ''='' @ rsValue s]"
    using bspec [OF conjunct1 [OF launch_gets_declared_secrets [OF run, of "[''DB=old'', ''A=1'']", unfolded sum.case prod.case]] mem] by blast
  moreover have "filter (\<lambda>kv. envKey kv = Some (bdEnv demoBinding)) (MergeEnv [''DB=old'', ''A=1''] [''DB=pw'']) = [''DB=pw'']"
    by code_simp
  ultimately show ?thesis using run by (simp add: demoBinding_def)
qed

end
