(* ===== verification/WorkerOps.thy ===== *)
theory WorkerOps
  imports Rolling Secrets
begin

text \<open>
  Worker replicas (\<open>internal/deploy/worker_launch.go\<close>, \<open>worker_ops.go\<close>, \<open>worker_probe.go\<close> and
  \<open>worker_orphans.go\<close>): starting a process without a port and capturing its identity, the record of a
  launch, the record of an exit, a graceful stop, one health probe and the detection of orphans.  A
  process is started by the operating system, whose answers are an argument; every process started is
  counted in the world.
\<close>

section \<open>The program\<close>

subsection \<open>Starting a process\<close>

text \<open>
  What the system answers to one launch: the resource limits, the binary, the log file, the output
  drain, and the start itself, which gives a process id, a start time and the path of the executable.
\<close>

record spawnIO =
  spLimits :: bool
  spStat :: bool
  spLog :: "(code, unit) result"
  spDrain :: "(code, unit) result"
  spStart :: "os \<Rightarrow> string \<Rightarrow> string list \<Rightarrow> (int \<times> procInfo) option"

text \<open>Worker processes and their probes never see a service port.\<close>

definition workerEnv :: "string list \<Rightarrow> string list \<Rightarrow> string list" where
  "workerEnv environ overlay = filter (\<lambda>entry. \<not> hasPrefix ''PORT='' entry) (MergeEnv environ overlay)"

definition launchWorkerInstance ::
    "spawnIO \<Rightarrow> string list \<Rightarrow> string \<Rightarrow> string list \<Rightarrow> string \<Rightarrow> os \<Rightarrow> (code, processIdentity) result \<times> os" where
  "launchWorkerInstance io environ binaryPath overlay replica sys =
     (if binaryPath = '''' then (Inl CodeInvalidArgument, sys)
      else if \<not> spStat io then (Inl CodeNotFound, sys)
      else if replica = '''' then (Inl CodeInvalidArgument, sys)
      else case spLog io of
        Inl e \<Rightarrow> (Inl e, sys)
      | Inr _ \<Rightarrow>
          (case spDrain io of
             Inl e \<Rightarrow> (Inl e, sys)
           | Inr _ \<Rightarrow>
               (case spStart io sys binaryPath (workerEnv environ overlay) of
                  None \<Rightarrow> (Inl CodeInstanceStartFailed, sys)
                | Some (pid, info) \<Rightarrow>
                    let sys1 = sys\<lparr>osProcs := (osProcs sys)(pid \<mapsto> info)\<rparr> in
                    case processIdentityOf sys1 pid of
                      None \<Rightarrow> (Inl CodeInstanceStartFailed, endProcess (NativeProc pid) sys1)
                    | Some found \<Rightarrow> (Inr found, sys1))))"

definition WorkerLauncherForApp ::
    "spawnIO \<Rightarrow> string list \<Rightarrow> string \<Rightarrow> string list \<Rightarrow> string \<Rightarrow> os \<Rightarrow> (code, processIdentity) result \<times> os" where
  "WorkerLauncherForApp io environ binaryPath overlay replica sys =
     (if \<not> spLimits io then (Inl CodeConfiguration, sys)
      else launchWorkerInstance io environ binaryPath overlay replica sys)"

subsection \<open>The record of a launch\<close>

text \<open>
  The environment of worker operations: the one of the deployments, the answers to each launch, the
  environment of the agent, the overlay of an instance (its snapshot and the bindings in force) and the
  text of an error.
\<close>

record workerEnvironment =
  weDeploy :: deployEnv
  weSpawn :: "nat \<Rightarrow> spawnIO"
  weEnviron :: "string list"
  weOverlay :: "string \<Rightarrow> (code, string list) result"
  weSecretEnvNames :: "string list \<Rightarrow> string list"
  weErrorText :: "code \<Rightarrow> string"

definition blankInst :: "string \<Rightarrow> inst" where
  "blankInst slot = (emptyInst slot)\<lparr>inStatus := ''''\<rparr>"

definition withReplica :: "string \<Rightarrow> inst \<Rightarrow> deployState \<Rightarrow> deployState" where
  "withReplica slot i s = s\<lparr>dsReplicas := AList.update slot i (dsReplicas s)\<rparr>"

definition replicaOrBlank :: "string \<Rightarrow> deployState \<Rightarrow> inst" where
  "replicaOrBlank slot s = (case map_of (dsReplicas s) slot of Some i \<Rightarrow> i | None \<Rightarrow> blankInst slot)"

definition stampLaunched :: "int \<Rightarrow> processIdentity \<Rightarrow> inst \<Rightarrow> inst" where
  "stampLaunched now found i =
     i\<lparr>inPID := piPID found, inStartTicks := piStartTime found, inStartedAt := now, inReadyAt := 0,
       inLastExitCode := 0, inLastExitReason := '''', inLastExitAt := 0, inStatus := ''starting''\<rparr>"

definition nowW :: "deployEnv \<Rightarrow> ('r world, int) state" where
  "nowW env = look (\<lambda>w. evNow env (wClock w))"

definition markWorkerLaunched ::
    "deployEnv \<Rightarrow> string \<Rightarrow> processIdentity \<Rightarrow> bool \<Rightarrow> deployState
       \<Rightarrow> ('r world, (code, unit) result \<times> deployState) state" where
  "markWorkerLaunched env slot found persist s = do {
     now \<leftarrow> nowW env;
     let s1 = withReplica slot (stampLaunched now found (replicaOrBlank slot s)) s;
     if persist then storeW env s1 else State_Monad.return (Inr (), s1)
   }"

definition spawnW ::
    "workerEnvironment \<Rightarrow> string \<Rightarrow> string list \<Rightarrow> string \<Rightarrow> ('r world, (code, processIdentity) result) state" where
  "spawnW we binaryPath overlay slot =
     act (\<lambda>n w. case WorkerLauncherForApp (weSpawn we n) (weEnviron we) binaryPath overlay slot (wOs w) of
            (Inl e, sys) \<Rightarrow> (Inl e, w\<lparr>wOs := sys\<rparr>)
          | (Inr found, sys) \<Rightarrow> (Inr found, w\<lparr>wOs := sys, wSpawns := wSpawns w @ [(slot, piPID found)]\<rparr>))"

text \<open>A launch whose record cannot be stored is stopped again.\<close>

definition markAndCheck ::
    "workerEnvironment \<Rightarrow> bool \<Rightarrow> string \<Rightarrow> processIdentity \<Rightarrow> deployState
       \<Rightarrow> ('r world, (code, processIdentity) result \<times> deployState) state" where
  "markAndCheck we persist slot found s1 = do {
     (stored, s2) \<leftarrow> markWorkerLaunched (weDeploy we) slot found persist s1;
     case stored of
       Inr _ \<Rightarrow> State_Monad.return (Inr found, s2)
     | Inl e \<Rightarrow> do {
         report \<leftarrow> stopWorkerW (weDeploy we) (replicaOrBlank slot s2);
         State_Monad.return (Inl e, s2)
       }
   }"

text \<open>
  \<open>overlayOf\<close> renders the pinned values of a
  deployment or the committed bindings, and a deployment with pinned values does not persist the record.
\<close>

definition launchWorkerReplica ::
    "workerEnvironment \<Rightarrow> (string \<Rightarrow> (code, string list) result) \<Rightarrow> bool \<Rightarrow> deployState \<Rightarrow> string
       \<Rightarrow> ('r world, (code, processIdentity) result \<times> deployState) state" where
  "launchWorkerReplica we overlayOf persist s slot =
     (let i = replicaOrBlank slot s; s0 = withReplica slot i s in
      if inBinaryPath i = '''' then State_Monad.return (Inl CodeConfiguration, s0)
      else case overlayOf (inEnvPath i) of
        Inl e \<Rightarrow> State_Monad.return (Inl e, s0)
      | Inr overlay \<Rightarrow> do {
          r \<leftarrow> spawnW we (inBinaryPath i) overlay slot;
          case r of
            Inl e \<Rightarrow> State_Monad.return (Inl e, s0)
          | Inr found \<Rightarrow>
              markAndCheck we persist slot found (withReplica slot (i\<lparr>inSecretEnvs := weSecretEnvNames we overlay\<rparr>) s0)
        })"

definition LaunchWorkerReplica ::
    "workerEnvironment \<Rightarrow> deployState \<Rightarrow> string \<Rightarrow> ('r world, (code, processIdentity) result \<times> deployState) state" where
  "LaunchWorkerReplica we s slot = launchWorkerReplica we (weOverlay we) True s slot"

subsection \<open>Exits\<close>

text \<open>What waiting for a process gives: nothing on a clean exit, an OOM kill, an exit status, another error.\<close>

datatype waitError = WaitOOM string | WaitExit int string | WaitOther string

fun exitCodeOf :: "waitError option \<Rightarrow> int \<times> string" where
  "exitCodeOf None = (0, ''clean exit'')"
| "exitCodeOf (Some (WaitOOM msg)) = (-1, ''resource OOM'')"
| "exitCodeOf (Some (WaitExit status msg)) = (status, msg)"
| "exitCodeOf (Some (WaitOther msg)) = (-1, msg)"

definition RecordInstanceExit :: "int \<Rightarrow> waitError option \<Rightarrow> bool \<Rightarrow> inst \<Rightarrow> inst" where
  "RecordInstanceExit now waitErr adopted i =
     (if adopted then
        i\<lparr>inLastExitAt := now, inLastExitCode := -1,
          inLastExitReason := ''unknown (process not supervised from spawn)''\<rparr>
      else i\<lparr>inLastExitAt := now, inLastExitCode := fst (exitCodeOf waitErr), inLastExitReason := snd (exitCodeOf waitErr)\<rparr>)"

definition StopWorkerReplica ::
    "deployEnv \<Rightarrow> (nat \<Rightarrow> waitError option) \<Rightarrow> string \<Rightarrow> deployState
       \<Rightarrow> ('r world, (shutdownReport \<times> (code, unit) result) \<times> deployState) state" where
  "StopWorkerReplica env waitErrAt slot s =
     (case map_of (dsReplicas s) slot of
        None \<Rightarrow> State_Monad.return ((nothingToStop, Inr ()), s)
      | Some i \<Rightarrow> do {
          alive \<leftarrow> look (\<lambda>w. WorkerInstanceAlive (evLinks env) (wOs w) i);
          if \<not> alive then do {
            (r, s1) \<leftarrow> storeW env (withReplica slot (stoppedInst i) s);
            State_Monad.return ((nothingToStop, r), s1)
          }
          else do {
            (r, s1) \<leftarrow> storeW env (withReplica slot (i\<lparr>inStatus := ''stopping''\<rparr>) s);
            case r of
              Inl e \<Rightarrow> State_Monad.return ((\<lparr>rpForceKilled = False, rpExited = False\<rparr>, Inl e), s1)
            | Inr _ \<Rightarrow> do {
                waitErr \<leftarrow> look (\<lambda>w. waitErrAt (wClock w));
                report \<leftarrow> stopWorkerW env (i\<lparr>inStatus := ''stopping''\<rparr>);
                if \<not> rpExited report then State_Monad.return ((report, Inl CodeProcessFailed), s1)
                else do {
                  now \<leftarrow> nowW env;
                  let (status, reason) = exitCodeOf waitErr;
                  (r', s2) \<leftarrow> storeW env (withReplica slot
                     ((stoppedInst i)\<lparr>inLastExitAt := now, inLastExitCode := status,
                        inLastExitReason := ''stopped by phelix: '' @ reason\<rparr>) s1);
                  State_Monad.return ((report, r'), s2)
                }
              }
          }
        })"

definition SignalFromName :: "string \<Rightarrow> (code, nat) result" where
  "SignalFromName name =
     (if name = ''SIGTERM'' then Inr 15 else if name = ''SIGINT'' then Inr 2 else Inl CodeConfiguration)"

subsection \<open>Probes\<close>

text \<open>A buffer that withholds the output of a probe once it exceeds its limit.\<close>

record boundedBuffer =
  bbBuf :: string
  bbOverflow :: bool

definition boundedWrite :: "int \<Rightarrow> string \<Rightarrow> boundedBuffer \<Rightarrow> boundedBuffer" where
  "boundedWrite limit p b =
     (if bbOverflow b \<or> int (length (bbBuf b)) + int (length p) > limit then \<lparr>bbBuf = '''', bbOverflow = True\<rparr>
      else b\<lparr>bbBuf := bbBuf b @ p\<rparr>)"

definition boundedString :: "(string \<Rightarrow> string) \<Rightarrow> boundedBuffer \<Rightarrow> string" where
  "boundedString redact b =
     (if bbOverflow b then ''probe output exceeded limit; output withheld'' else redact (bbBuf b))"

record probeOutcome =
  poOK :: bool
  poDetail :: string

text \<open>One run of the command: it cannot start, it exits with or without an error, or the timer fires first.\<close>

datatype probeRun = ProbeNoStart string | ProbeExits "string option" "string list" | ProbeTimesOut "string list"

definition probeOutput :: "(string \<Rightarrow> string) \<Rightarrow> string list \<Rightarrow> string" where
  "probeOutput redact chunks = boundedString redact (fold (boundedWrite 4096) chunks \<lparr>bbBuf = '''', bbOverflow = False\<rparr>)"

definition probeFailureDetail :: "string \<Rightarrow> string \<Rightarrow> string" where
  "probeFailureDetail err output = (if output \<noteq> '''' then output else ''exit: '' @ err)"

definition RunProbe :: "(string \<Rightarrow> string) \<Rightarrow> string list \<Rightarrow> string \<Rightarrow> probeRun \<Rightarrow> probeOutcome" where
  "RunProbe redact command timeoutText run =
     (if command = [] then \<lparr>poOK = False, poDetail = ''no probe command configured''\<rparr>
      else case run of
        ProbeNoStart err \<Rightarrow> \<lparr>poOK = False, poDetail = err\<rparr>
      | ProbeExits None chunks \<Rightarrow> \<lparr>poOK = True, poDetail = ''''\<rparr>
      | ProbeExits (Some err) chunks \<Rightarrow> \<lparr>poOK = False, poDetail = probeFailureDetail err (probeOutput redact chunks)\<rparr>
      | ProbeTimesOut chunks \<Rightarrow>
          \<lparr>poOK = False, poDetail = ''timeout after '' @ timeoutText @ '': '' @ probeOutput redact chunks\<rparr>)"

subsection \<open>Orphans\<close>

text \<open>
  The numeric entries of \<open>/proc\<close> are the processes \<open>pids\<close>; an unreadable link shows as the empty path,
  which no binary matches.
\<close>

definition DetectWorkerOrphans :: "(string \<Rightarrow> string option) \<Rightarrow> os \<Rightarrow> int list \<Rightarrow> deployState \<Rightarrow> int list" where
  "DetectWorkerOrphans lk sys pids s =
     (if dsMode s \<noteq> ModeWorker then []
      else
        let insts = map snd (dsReplicas s);
            exes = filter (\<lambda>p. p \<noteq> '''') (map inBinaryPath insts);
            recorded = filter (\<lambda>p. p > 0) (map inPID insts)
        in if exes = [] then []
           else sort (filter (\<lambda>pid. pid \<notin> set recorded \<and>
                        list_ex (sameExecutable lk (processExecutable sys pid)) exes) pids))"

section \<open>Launches and records\<close>

text \<open>Two records that differ at most in one replica.\<close>

definition touchesOnly :: "string \<Rightarrow> deployState \<Rightarrow> deployState \<Rightarrow> bool" where
  "touchesOnly slot s s' \<longleftrightarrow>
     dsAppName s' = dsAppName s \<and> dsMode s' = dsMode s \<and> dsSecretPreparing s' = dsSecretPreparing s \<and>
     (\<forall>k. k \<noteq> slot \<longrightarrow> map_of (dsReplicas s') k = map_of (dsReplicas s) k) \<and>
     (slot \<in> set (map fst (dsReplicas s)) \<longrightarrow> map fst (dsReplicas s') = map fst (dsReplicas s))"

lemma touchesOnly_refl [simp]: "touchesOnly slot s s"
  by (simp add: touchesOnly_def)

lemma touchesOnly_trans: "touchesOnly slot s s1 \<Longrightarrow> touchesOnly slot s1 s2 \<Longrightarrow> touchesOnly slot s s2"
  unfolding touchesOnly_def by metis

lemma touchesOnly_withReplica [simp]: "touchesOnly slot s (withReplica slot i s)"
  unfolding touchesOnly_def withReplica_def using AList.update_keys [of slot i "dsReplicas s"]
  by (auto simp: AList.update_conv')

lemma withReplica_lookup [simp]: "map_of (dsReplicas (withReplica slot i s)) k = (if k = slot then Some i else map_of (dsReplicas s) k)"
  by (simp add: withReplica_def AList.update_conv')

lemma withReplica_rest [simp]:
  "dsAppName (withReplica slot i s) = dsAppName s" "dsMode (withReplica slot i s) = dsMode s"
  "dsSecretPreparing (withReplica slot i s) = dsSecretPreparing s"
  by (simp_all add: withReplica_def)

lemma replicaOrBlank_Some [simp]: "map_of (dsReplicas s) slot = Some i \<Longrightarrow> replicaOrBlank slot s = i"
  by (simp add: replicaOrBlank_def)

lemma act_spawns:
  assumes "\<And>n w a w'. f n w = (a, w') \<Longrightarrow> wSpawns w' = wSpawns w \<and> Q a"
  shows "triple (\<lambda>w. wSpawns w = L) (act f) (\<lambda>a w. wSpawns w = L \<and> Q a)"
  by (rule triple_act) (use assms in fastforce)

lemma Store_record: "Store out now s f = (r, s', f') \<Longrightarrow> sameRecord s s' \<and> dsAppName s' = dsAppName s"
  by (auto simp: sameRecord_def Store_def Let_def split: if_splits sum.splits storeOutcome.splits)

lemma storeW_spawns: "triple (\<lambda>w. wSpawns w = L) (storeW env s)
    (\<lambda>(r, s') w. wSpawns w = L \<and> sameRecord s s' \<and> dsAppName s' = dsAppName s)"
  unfolding storeW_def
  by (rule triple_post [OF act_spawns [where Q = "\<lambda>(r, s'). sameRecord s s' \<and> dsAppName s' = dsAppName s"]])
    (auto split: prod.splits dest: Store_record)

lemma stopWorkerW_spawns: "triple (\<lambda>w. wSpawns w = L) (stopWorkerW env i) (\<lambda>_ w. wSpawns w = L)"
  unfolding stopWorkerW_def
  by (rule triple_post [OF act_spawns [where Q = "\<lambda>_. True"]]) (auto split: prod.splits)

lemma sameRecord_touches: "sameRecord s s' \<Longrightarrow> dsAppName s' = dsAppName s \<Longrightarrow> touchesOnly slot s s'"
  by (simp add: sameRecord_def touchesOnly_def)

lemma spawnW_spawns: "triple (\<lambda>w. wSpawns w = L) (spawnW we bin ov slot)
    (\<lambda>r w. case r of Inl e \<Rightarrow> wSpawns w = L | Inr found \<Rightarrow> wSpawns w = L @ [(slot, piPID found)])"
  unfolding spawnW_def by (rule triple_act) (auto split: prod.splits sum.splits)

text \<open>What a launch leaves behind, given the record before it and the processes started so far.\<close>

definition launchLeaves ::
    "string \<Rightarrow> deployState \<Rightarrow> (string \<times> int) list \<Rightarrow> (code, processIdentity) result \<times> deployState \<Rightarrow> 'r world \<Rightarrow> bool" where
  "launchLeaves slot s L out w \<longleftrightarrow>
     (case out of (r, s') \<Rightarrow>
        touchesOnly slot s s' \<and>
        (\<exists>i'. map_of (dsReplicas s') slot = Some i' \<and> inRestartCount i' = inRestartCount (replicaOrBlank slot s) \<and>
           inVersion i' = inVersion (replicaOrBlank slot s) \<and>
           (case r of
              Inr found \<Rightarrow> wSpawns w = L @ [(slot, piPID found)] \<and> inStatus i' = ''starting'' \<and> inPID i' = piPID found
            | Inl _ \<Rightarrow> wSpawns w = L \<or> (\<exists>pid. wSpawns w = L @ [(slot, pid)]))))"

lemma touches_stored:
  assumes "sameRecord (withReplica slot i s) s'" and "dsAppName s' = dsAppName s"
  shows "touchesOnly slot s s'" and "map_of (dsReplicas s') slot = Some i"
proof -
  have "touchesOnly slot (withReplica slot i s) s'" using sameRecord_touches [OF assms(1)] assms(2) by simp
  then show "touchesOnly slot s s'" by (rule touchesOnly_trans [OF touchesOnly_withReplica])
  have "dsReplicas s' = dsReplicas (withReplica slot i s)" using assms(1) by (simp add: sameRecord_def)
  then show "map_of (dsReplicas s') slot = Some i" by simp
qed

lemma markWorkerLaunched_leaves:
  "triple (\<lambda>w. wSpawns w = L) (markWorkerLaunched env slot found persist s)
     (\<lambda>(r, s') w. wSpawns w = L \<and> touchesOnly slot s s' \<and>
        (\<exists>i'. map_of (dsReplicas s') slot = Some i' \<and> inRestartCount i' = inRestartCount (replicaOrBlank slot s) \<and>
              inVersion i' = inVersion (replicaOrBlank slot s) \<and> inStatus i' = ''starting'' \<and> inPID i' = piPID found))"
  unfolding markWorkerLaunched_def nowW_def Let_def
  by (intro triple_look triple_drop triple_if triple_return triple_post [OF storeW_spawns])
    (auto simp: stampLaunched_def dest: touches_stored)

lemma launchWorkerReplica_leaves:
  "triple (\<lambda>w. wSpawns w = L) (launchWorkerReplica we ov persist s slot) (launchLeaves slot s L)"
proof -
  let ?i = "replicaOrBlank slot s"
  let ?s0 = "withReplica slot ?i s"
  have unlaunched: "triple (\<lambda>w. wSpawns w = L) (State_Monad.return (Inl e, ?s0)) (launchLeaves slot s L)" for e
    by (rule triple_return) (simp add: launchLeaves_def)
  have marked: "triple (\<lambda>w. wSpawns w = L @ [(slot, piPID found)])
      (markAndCheck we persist slot found (withReplica slot (?i\<lparr>inSecretEnvs := names\<rparr>) ?s0)) (launchLeaves slot s L)"
    for found names
    unfolding markAndCheck_def
  proof (rule triple_bind [OF markWorkerLaunched_leaves], clarify, rule triple_sum, goal_cases)
    case (1 r s2 e)
    let ?Q = "touchesOnly slot (withReplica slot (?i\<lparr>inSecretEnvs := names\<rparr>) ?s0) s2 \<and>
        (\<exists>i'. map_of (dsReplicas s2) slot = Some i' \<and> inRestartCount i' = inRestartCount ?i \<and> inVersion i' = inVersion ?i)"
    have "triple (\<lambda>w. wSpawns w = L @ [(slot, piPID found)] \<and> ?Q)
        (State_Monad.bind (stopWorkerW (weDeploy we) (replicaOrBlank slot s2)) (\<lambda>report. State_Monad.return (Inl e, s2)))
        (launchLeaves slot s L)"
      by (rule triple_fact, rule triple_bind [OF stopWorkerW_spawns], rule triple_return)
        (auto simp: launchLeaves_def intro: touchesOnly_trans [OF touchesOnly_trans [OF touchesOnly_withReplica touchesOnly_withReplica]])
    then show ?case by (rule triple_pre) auto
  next
    case (2 r s2 u)
    show ?case
      by (rule triple_return)
        (auto simp: launchLeaves_def intro: touchesOnly_trans [OF touchesOnly_trans [OF touchesOnly_withReplica touchesOnly_withReplica]])
  qed
  have spawned: "triple (\<lambda>w. wSpawns w = L)
      (State_Monad.bind (spawnW we bin ov' slot) (\<lambda>r. case r of
          Inl e \<Rightarrow> State_Monad.return (Inl e, ?s0)
        | Inr found \<Rightarrow> markAndCheck we persist slot found (withReplica slot (?i\<lparr>inSecretEnvs := names\<rparr>) ?s0)))
      (launchLeaves slot s L)" for bin ov' names
    by (rule triple_bind [OF spawnW_spawns], rule triple_sum) (simp_all add: unlaunched marked)
  show ?thesis
    unfolding launchWorkerReplica_def Let_def
    by (intro triple_if triple_sum unlaunched spawned)
qed


section \<open>What moves\<close>

text \<open>
  Between two worlds only the processes of \<open>Q\<close> changed, at the end and in everything observed on the way;
  the processes started are appended.
\<close>

definition moves :: "int set \<Rightarrow> 'r world \<Rightarrow> 'r world \<Rightarrow> bool" where
  "moves Q w w' \<longleftrightarrow>
     (\<forall>q. q \<notin> Q \<longrightarrow> osProcs (wOs w') q = osProcs (wOs w) q) \<and>
     (\<exists>snaps. wTrace w' = wTrace w @ snaps \<and>
        (\<forall>snap\<in>set snaps. \<forall>q. q \<notin> Q \<longrightarrow> osProcs (fst snap) q = osProcs (wOs w) q)) \<and>
     (\<exists>L. wSpawns w' = wSpawns w @ L)"

lemma moves_refl [simp]: "moves Q w w"
  by (simp add: moves_def)

lemma moves_trans:
  assumes "moves Q w w1" and "moves Q w1 w2"
  shows "moves Q w w2"
proof -
  obtain a where a: "wTrace w1 = wTrace w @ a" "\<forall>snap\<in>set a. \<forall>q. q \<notin> Q \<longrightarrow> osProcs (fst snap) q = osProcs (wOs w) q"
    using assms(1) unfolding moves_def by blast
  obtain b where b: "wTrace w2 = wTrace w1 @ b" "\<forall>snap\<in>set b. \<forall>q. q \<notin> Q \<longrightarrow> osProcs (fst snap) q = osProcs (wOs w1) q"
    using assms(2) unfolding moves_def by blast
  have same: "osProcs (wOs w1) q = osProcs (wOs w) q" if "q \<notin> Q" for q using assms(1) that by (simp add: moves_def)
  have "wTrace w2 = wTrace w @ (a @ b)" using a b by simp
  moreover have "\<forall>snap\<in>set (a @ b). \<forall>q. q \<notin> Q \<longrightarrow> osProcs (fst snap) q = osProcs (wOs w) q"
    using a(2) b(2) same by auto
  moreover have "\<exists>L. wSpawns w2 = wSpawns w @ L" using assms unfolding moves_def by (metis append.assoc)
  ultimately show ?thesis using assms same unfolding moves_def by metis
qed

lemma moves_mono: "moves Q w w' \<Longrightarrow> Q \<subseteq> R \<Longrightarrow> moves R w w'"
  unfolding moves_def by blast

text \<open>Whatever happened before, the operation changes only processes of \<open>Q\<close>.\<close>

abbreviation movesOnly :: "int set \<Rightarrow> ('r world, 'a) state \<Rightarrow> bool" where
  "movesOnly Q m \<equiv> (\<forall>w a w'. run_state m w = (a, w') \<longrightarrow> moves Q w w')"

lemma tripleD: "triple P m Q \<Longrightarrow> P w \<Longrightarrow> run_state m w = (a, w') \<Longrightarrow> Q a w'"
  by (auto simp: triple_def)

lemma act_moves:
  assumes "\<And>n w a w'. f n w = (a, w') \<Longrightarrow> (\<forall>q. q \<notin> Q \<longrightarrow> osProcs (wOs w') q = osProcs (wOs w) q) \<and>
     wTrace w' = wTrace w \<and> (\<exists>L. wSpawns w' = wSpawns w @ L)"
  shows "movesOnly Q (act f)"
proof (intro allI impI)
  fix w a w'
  assume run: "run_state (act f) w = (a, w')"
  obtain b v where f: "f (wClock w) w = (b, v)" by fastforce
  with run have "w' = v\<lparr>wClock := Suc (wClock w), wTrace := wTrace w @ [(wOs v, wDaemon v)]\<rparr>" by (simp add: act_def)
  with assms [OF f] show "moves Q w w'" by (simp add: moves_def)
qed

lemma moves_bind:
  assumes "movesOnly Q m" and "\<And>a. movesOnly Q (f a)"
  shows "movesOnly Q (State_Monad.bind m f)"
proof (intro allI impI)
  fix w b w'
  assume run: "run_state (State_Monad.bind m f) w = (b, w')"
  obtain a w1 where a: "run_state m w = (a, w1)" by fastforce
  with run have "run_state (f a) w1 = (b, w')" by simp
  with a assms show "moves Q w w'" by (blast intro: moves_trans)
qed

lemma moves_return: "movesOnly Q (State_Monad.return a)"
  by simp

lemma moves_look: "(\<And>a. movesOnly Q (k a)) \<Longrightarrow> movesOnly Q (State_Monad.bind (look f) k)"
  by (simp add: look_def)

lemma storeW_moves: "movesOnly Q (storeW env s)"
  unfolding storeW_def by (rule act_moves) (auto split: prod.splits)

lemma stopWorkerW_moves: "inPID i \<in> Q \<Longrightarrow> movesOnly Q (stopWorkerW env i)"
  unfolding stopWorkerW_def
  by (rule act_moves) (auto simp: GracefulStopWorker_def GracefulStop_def split: prod.splits if_splits reaction.splits)

text \<open>A new process never takes an identifier in use.\<close>

definition freshSpawns :: "workerEnvironment \<Rightarrow> bool" where
  "freshSpawns we \<longleftrightarrow>
     (\<forall>n sys bin env pid info. spStart (weSpawn we n) sys bin env = Some (pid, info) \<longrightarrow> pid > 0 \<and> osProcs sys pid = None)"

lemma launchWorkerInstance_moves:
  assumes "launchWorkerInstance io environ bin ov slot sys = (r, sys')"
    and fresh: "\<And>b e pid info. spStart io sys b e = Some (pid, info) \<Longrightarrow> pid > 0 \<and> osProcs sys pid = None"
  obtains Q where "\<forall>q\<in>Q. q > 0 \<and> osProcs sys q = None" and "\<forall>q. q \<notin> Q \<longrightarrow> osProcs sys' q = osProcs sys q"
    and "\<And>found. r = Inr found \<Longrightarrow> Q = {piPID found}"
proof (cases "spStart io sys bin (workerEnv environ ov)")
  case None
  with assms(1) have "sys' = sys" "\<not> isOk r"
    by (auto simp: launchWorkerInstance_def isOk_iff split: if_splits sum.splits)
  then show ?thesis using that [of "{}"] by (auto simp: isOk_iff)
next
  case (Some started)
  obtain pid info where st: "started = (pid, info)" by fastforce
  with Some fresh have pid: "pid > 0" "osProcs sys pid = None" by auto
  have "\<forall>q. q \<notin> {pid} \<longrightarrow> osProcs sys' q = osProcs sys q"
    using assms(1) Some st by (auto simp: launchWorkerInstance_def Let_def split: if_splits sum.splits option.splits)
  moreover have "piPID found = pid" if "r = Inr found" for found
    using assms(1) Some st that
    by (auto simp: launchWorkerInstance_def processIdentityOf_def Let_def split: if_splits sum.splits option.splits)
  ultimately show ?thesis using that [of "{pid}"] pid by auto
qed

lemma spawnW_moves:
  assumes fresh: "freshSpawns we" and run: "run_state (spawnW we bin ov slot) w = (r, w')"
  obtains Q where "\<forall>q\<in>Q. q > 0 \<and> osProcs (wOs w) q = None" and "moves Q w w'"
    and "\<And>found. r = Inr found \<Longrightarrow> Q = {piPID found} \<and> wSpawns w' = wSpawns w @ [(slot, piPID found)]"
proof -
  obtain r' sys' where l: "WorkerLauncherForApp (weSpawn we (wClock w)) (weEnviron we) bin ov slot (wOs w) = (r', sys')" by fastforce
  have "\<And>b e pid info. spStart (weSpawn we (wClock w)) (wOs w) b e = Some (pid, info) \<Longrightarrow> pid > 0 \<and> osProcs (wOs w) pid = None"
    using fresh unfolding freshSpawns_def by blast
  then obtain Q where Q: "\<forall>q\<in>Q. q > 0 \<and> osProcs (wOs w) q = None" "\<forall>q. q \<notin> Q \<longrightarrow> osProcs sys' q = osProcs (wOs w) q"
    "\<And>found. r' = Inr found \<Longrightarrow> Q = {piPID found}"
    using l by (cases "spLimits (weSpawn we (wClock w))")
      (auto simp: WorkerLauncherForApp_def elim!: launchWorkerInstance_moves)
  have "r' = r" using run l by (auto simp: spawnW_def act_def split: sum.splits)
  moreover have "moves Q w w'" using run l Q(2) by (auto simp: spawnW_def act_def moves_def split: sum.splits)
  moreover have "wSpawns w' = wSpawns w @ [(slot, piPID found)]" if "r = Inr found" for found
    using run l that by (auto simp: spawnW_def act_def split: sum.splits)
  ultimately show ?thesis using that Q by blast
qed

lemma markWorkerLaunched_moves: "movesOnly Q (markWorkerLaunched env slot found persist s)"
  unfolding markWorkerLaunched_def nowW_def Let_def
  by (auto simp: look_def dest: storeW_moves [rule_format])

lemma markAndCheck_moves: "movesOnly {piPID found} (markAndCheck we persist slot found s)"
proof (intro allI impI)
  fix w out w'
  assume run: "run_state (markAndCheck we persist slot found s) w = (out, w')"
  obtain stored s2 w1 where m: "run_state (markWorkerLaunched (weDeploy we) slot found persist s) w = ((stored, s2), w1)"
    by (metis prod.exhaust)
  with markWorkerLaunched_moves have mv: "moves {piPID found} w w1" by blast
  from tripleD [OF markWorkerLaunched_leaves refl m] have "inPID (replicaOrBlank slot s2) = piPID found" by auto
  then have stop: "movesOnly {piPID found} (stopWorkerW (weDeploy we) (replicaOrBlank slot s2))" by (intro stopWorkerW_moves) simp
  show "moves {piPID found} w w'"
  proof (cases stored)
    case (Inl e)
    obtain rep w2 where st: "run_state (stopWorkerW (weDeploy we) (replicaOrBlank slot s2)) w1 = (rep, w2)" by fastforce
    with run m Inl have "w' = w2" by (simp add: markAndCheck_def)
    with stop st mv show ?thesis by (blast intro: moves_trans)
  next
    case (Inr u)
    with run m mv show ?thesis by (simp add: markAndCheck_def)
  qed
qed

lemma markAndCheck_Inr:
  assumes "run_state (markAndCheck we persist slot found s) w = ((Inr x, s'), w')"
  shows "x = found"
proof -
  obtain stored s2 w1 where m: "run_state (markWorkerLaunched (weDeploy we) slot found persist s) w = ((stored, s2), w1)"
    by (metis prod.exhaust)
  show ?thesis
  proof (cases stored)
    case (Inl e)
    obtain rep w2 where "run_state (stopWorkerW (weDeploy we) (replicaOrBlank slot s2)) w1 = (rep, w2)" by fastforce
    with assms m Inl show ?thesis by (simp add: markAndCheck_def)
  next
    case (Inr u)
    with assms m show ?thesis by (simp add: markAndCheck_def)
  qed
qed

lemma launchWorkerReplica_moves:
  assumes fresh: "freshSpawns we" and run: "run_state (launchWorkerReplica we ov persist s slot) w = ((r, s'), w')"
  obtains Q where "\<forall>q\<in>Q. q > 0 \<and> osProcs (wOs w) q = None" and "moves Q w w'"
    and "\<And>found. r = Inr found \<Longrightarrow> Q = {piPID found}"
proof -
  let ?i = "replicaOrBlank slot s"
  consider "w' = w" "\<not> isOk r"
    | overlay r' w1 where "run_state (spawnW we (inBinaryPath ?i) overlay slot) w = (r', w1)"
        "case r' of Inl e \<Rightarrow> w' = w1 \<and> r = Inl e
         | Inr found \<Rightarrow> run_state (markAndCheck we persist slot found (withReplica slot (?i\<lparr>inSecretEnvs := weSecretEnvNames we overlay\<rparr>)
              (withReplica slot ?i s))) w1 = ((r, s'), w')"
    using run by (auto simp: launchWorkerReplica_def Let_def split: if_splits sum.splits prod.splits)
  then show ?thesis
  proof cases
    case 1
    then show ?thesis using that [of "{}"] by (auto simp: isOk_iff)
  next
    case (2 overlay r' w1)
    from spawnW_moves [OF fresh 2(1)] obtain Q where Q: "\<forall>q\<in>Q. q > 0 \<and> osProcs (wOs w) q = None" "moves Q w w1"
      "\<And>found. r' = Inr found \<Longrightarrow> Q = {piPID found}" by metis
    show ?thesis
    proof (cases r')
      case (Inl e)
      with 2(2) Q that show ?thesis by auto
    next
      case (Inr found)
      with 2(2) have m: "run_state (markAndCheck we persist slot found (withReplica slot (?i\<lparr>inSecretEnvs := weSecretEnvNames we overlay\<rparr>)
              (withReplica slot ?i s))) w1 = ((r, s'), w')" by simp
      from Q(3) [OF Inr] have eq: "Q = {piPID found}" .
      have "moves Q w w'" using Q(2) markAndCheck_moves [rule_format, OF m] unfolding eq by (rule moves_trans)
      have "Q = {piPID x}" if "r = Inr x" for x
        using eq markAndCheck_Inr [OF m [unfolded that]] by (simp only:)
      with Q(1) \<open>moves Q w w'\<close> show ?thesis by (rule that)
    qed
  qed
qed

end
