(* ===== verification/Supervisor.thy ===== *)
theory Supervisor
  imports WorkerOps Complex_Main
begin

text \<open>
  The supervisor of worker replicas (\<open>internal/supervisor\<close> and the settings it reads from
  \<open>internal/project/worker_schema.go\<close>): the restart policy, the backoff with its jitter, and one pass of
  the reconcile loop over the replicas of an application.  What the supervisor keeps in memory is a
  record; which waits have ended, which probes have reported, and what the clock and the random source
  give are answers of the environment.  Durations are nanoseconds; a backoff multiplies by a rational
  instead of a \<open>float64\<close>.
\<close>

section \<open>The program\<close>

subsection \<open>Settings\<close>

record backoffConfig =
  bcInitial :: string
  bcMax :: string
  bcMultiplier :: rat

record restartConfig =
  rcPolicy :: string
  rcMaxAttempts :: int
  rcBackoff :: "backoffConfig option"

record shutdownConfig =
  scSignal :: string
  scGracePeriod :: string

record processConfig =
  pcRestart :: "restartConfig option"
  pcShutdown :: "shutdownConfig option"
  pcStartupTimeout :: string

record processSettings =
  psRestartPolicy :: string
  psMaxRestartAttempts :: int
  psBackoffInitial :: int
  psBackoffMax :: int
  psBackoffMultiplier :: rat
  psShutdownSignal :: string
  psGracePeriod :: int
  psStartupTimeout :: int

text \<open>A duration replaces a default when it parses and is positive.\<close>

definition positiveDuration :: "(string \<Rightarrow> int option) \<Rightarrow> string \<Rightarrow> int \<Rightarrow> int" where
  "positiveDuration pd text dflt = (case pd text of Some d \<Rightarrow> if d > 0 then d else dflt | None \<Rightarrow> dflt)"

definition defaultProcess :: processSettings where
  "defaultProcess =
     \<lparr>psRestartPolicy = ''on-failure'', psMaxRestartAttempts = 10, psBackoffInitial = 2 * second,
      psBackoffMax = 60 * second, psBackoffMultiplier = 2, psShutdownSignal = ''SIGTERM'',
      psGracePeriod = 30 * second, psStartupTimeout = 30 * second\<rparr>"

definition resolveBackoff :: "(string \<Rightarrow> int option) \<Rightarrow> backoffConfig option \<Rightarrow> processSettings \<Rightarrow> processSettings" where
  "resolveBackoff pd bo s =
     (case bo of
        None \<Rightarrow> s
      | Some b \<Rightarrow>
          s\<lparr>psBackoffInitial := positiveDuration pd (bcInitial b) (psBackoffInitial s),
            psBackoffMax := positiveDuration pd (bcMax b) (psBackoffMax s),
            psBackoffMultiplier := (if bcMultiplier b \<ge> 1 then bcMultiplier b else psBackoffMultiplier s)\<rparr>)"

definition resolveRestart :: "(string \<Rightarrow> int option) \<Rightarrow> restartConfig option \<Rightarrow> processSettings \<Rightarrow> processSettings" where
  "resolveRestart pd ro s =
     (case ro of
        None \<Rightarrow> s
      | Some r \<Rightarrow>
          resolveBackoff pd (rcBackoff r)
            (s\<lparr>psRestartPolicy := (if rcPolicy r \<noteq> '''' then rcPolicy r else psRestartPolicy s),
               psMaxRestartAttempts := (if rcMaxAttempts r > 0 then rcMaxAttempts r else psMaxRestartAttempts s)\<rparr>))"

definition ResolveProcess :: "(string \<Rightarrow> int option) \<Rightarrow> processConfig option \<Rightarrow> processSettings" where
  "ResolveProcess pd po =
     (case po of
        None \<Rightarrow> defaultProcess
      | Some p \<Rightarrow>
          let s = defaultProcess;
              s1 = (if pcStartupTimeout p \<noteq> ''''
                    then s\<lparr>psStartupTimeout := positiveDuration pd (pcStartupTimeout p) (psStartupTimeout s)\<rparr> else s);
              s2 = (case pcShutdown p of
                      None \<Rightarrow> s1
                    | Some sh \<Rightarrow>
                        s1\<lparr>psShutdownSignal := (if scSignal sh \<noteq> '''' then scSignal sh else psShutdownSignal s1),
                           psGracePeriod := positiveDuration pd (scGracePeriod sh) (psGracePeriod s1)\<rparr>)
          in resolveRestart pd (pcRestart p) s2)"

record execHealth =
  ehCommand :: "string list"
  ehInterval :: string
  ehTimeout :: string
  ehRetries :: int

record workerHealthConfig =
  hcMode :: string
  hcExec :: "execHealth option"

record workerHealth =
  whMode :: string
  whCommand :: "string list"
  whInterval :: int
  whTimeout :: int
  whRetries :: int

definition ResolveWorker :: "(string \<Rightarrow> int option) \<Rightarrow> workerHealthConfig option \<Rightarrow> workerHealth" where
  "ResolveWorker pd ho =
     (let s = \<lparr>whMode = ''process'', whCommand = [], whInterval = 10 * second, whTimeout = 5 * second, whRetries = 3\<rparr> in
      case ho of
        None \<Rightarrow> s
      | Some h \<Rightarrow>
          let s1 = (if hcMode h \<noteq> '''' then s\<lparr>whMode := hcMode h\<rparr> else s) in
          case hcExec h of
            None \<Rightarrow> s1
          | Some x \<Rightarrow>
              s1\<lparr>whCommand := ehCommand x,
                 whInterval := positiveDuration pd (ehInterval x) (whInterval s1),
                 whTimeout := positiveDuration pd (ehTimeout x) (whTimeout s1),
                 whRetries := (if ehRetries x > 0 then ehRetries x else whRetries s1)\<rparr>)"

definition StableWindow :: int where
  "StableWindow = 300 * second"

subsection \<open>Restart policy\<close>

datatype decision = DecisionRestart | DecisionComplete | DecisionFail

definition Evaluate :: "string \<Rightarrow> int \<Rightarrow> decision" where
  "Evaluate policy exitCode =
     (let failed = (exitCode \<noteq> 0) in
      if policy = ''never'' then (if failed then DecisionFail else DecisionComplete)
      else if policy = ''always'' then DecisionRestart
      else if failed then DecisionRestart else DecisionComplete)"

text \<open>The conversion of a number to a duration drops the fraction.\<close>

definition truncated :: "rat \<Rightarrow> int" where
  "truncated x = (if x \<ge> 0 then \<lfloor>x\<rfloor> else \<lceil>x\<rceil>)"

fun backoffLoop :: "rat \<Rightarrow> int \<Rightarrow> nat \<Rightarrow> int \<Rightarrow> int" where
  "backoffLoop multiplier limit 0 d = d"
| "backoffLoop multiplier limit (Suc n) d =
     (if d < limit then backoffLoop multiplier limit n (truncated (of_int d * multiplier)) else d)"

definition Backoff :: "int \<Rightarrow> int \<Rightarrow> rat \<Rightarrow> int \<Rightarrow> int" where
  "Backoff initial limit multiplier attempt =
     (let d = backoffLoop multiplier limit (nat attempt) initial;
          d' = (if d > limit then limit else d)
      in if d' \<le> 0 then second else d')"

definition JitterFactor :: rat where
  "JitterFactor = 1 / 5"

definition ApplyJitter :: "int \<Rightarrow> rat \<Rightarrow> int" where
  "ApplyJitter d r =
     (let r1 = (if r > JitterFactor then JitterFactor else r);
          r2 = (if r1 < - JitterFactor then - JitterFactor else r1);
          scaled = truncated (of_int d * (1 + r2))
      in if scaled < 0 then d else scaled)"

subsection \<open>The memory of the supervisor\<close>

type_synonym replicaKey = "string \<times> string"

text \<open>
  A handle is the process it was made for.  A probe is in flight until the environment reports its
  outcome, except for one that could not read its credentials, whose outcome is already there.
\<close>

record supervisor =
  svHandles :: "replicaKey \<rightharpoonup> int"
  svProbes :: "replicaKey \<rightharpoonup> probeOutcome option"
  svProbeFails :: "replicaKey \<rightharpoonup> int"
  svNextProbe :: "replicaKey \<rightharpoonup> int"

record supervisorEnv =
  suWorker :: workerEnvironment
  suWaited :: "nat \<Rightarrow> replicaKey \<Rightarrow> waitError option option"
  suStopped :: "nat \<Rightarrow> waitError option"
  suRand :: "nat \<Rightarrow> rat"
  suProbed :: "nat \<Rightarrow> replicaKey \<Rightarrow> probeOutcome option"
  suCredentials :: "nat \<Rightarrow> inst \<Rightarrow> bool"

definition setHandle :: "replicaKey \<Rightarrow> int \<Rightarrow> supervisor \<Rightarrow> supervisor" where
  "setHandle key pid sv = sv\<lparr>svHandles := (svHandles sv)(key \<mapsto> pid)\<rparr>"

definition dropHandle :: "replicaKey \<Rightarrow> supervisor \<Rightarrow> supervisor" where
  "dropHandle key sv = sv\<lparr>svHandles := (svHandles sv)(key := None)\<rparr>"

definition hasHandle :: "replicaKey \<Rightarrow> supervisor \<Rightarrow> bool" where
  "hasHandle key sv \<longleftrightarrow> svHandles sv key \<noteq> None"

definition clearProbes :: "replicaKey \<Rightarrow> supervisor \<Rightarrow> supervisor" where
  "clearProbes key sv =
     sv\<lparr>svProbes := (svProbes sv)(key := None), svProbeFails := (svProbeFails sv)(key := None),
        svNextProbe := (svNextProbe sv)(key := None)\<rparr>"

definition dropApp :: "string \<Rightarrow> supervisor \<Rightarrow> supervisor" where
  "dropApp appName sv =
     (let probed = (\<lambda>key. fst key = appName \<and> svProbes sv key \<noteq> None) in
      sv\<lparr>svHandles := (\<lambda>key. if fst key = appName then None else svHandles sv key),
         svProbes := (\<lambda>key. if probed key then None else svProbes sv key),
         svProbeFails := (\<lambda>key. if probed key then None else svProbeFails sv key),
         svNextProbe := (\<lambda>key. if probed key then None else svNextProbe sv key)\<rparr>)"

text \<open>The exit of a held process, if its wait has ended; the handle is then gone.\<close>

definition reapHandle :: "supervisorEnv \<Rightarrow> nat \<Rightarrow> replicaKey \<Rightarrow> supervisor \<Rightarrow> (waitError option \<times> bool) \<times> supervisor" where
  "reapHandle su n key sv =
     (case svHandles sv key of
        None \<Rightarrow> ((None, False), sv)
      | Some pid \<Rightarrow>
          (case suWaited su n key of
             None \<Rightarrow> ((None, False), sv)
           | Some err \<Rightarrow> ((err, True), dropHandle key sv)))"

definition collectProbe :: "supervisorEnv \<Rightarrow> nat \<Rightarrow> replicaKey \<Rightarrow> supervisor \<Rightarrow> probeOutcome option \<times> supervisor" where
  "collectProbe su n key sv =
     (case svProbes sv key of
        None \<Rightarrow> (None, sv)
      | Some reported \<Rightarrow>
          (case (case reported of Some out \<Rightarrow> Some out | None \<Rightarrow> suProbed su n key) of
             None \<Rightarrow> (None, sv)
           | Some out \<Rightarrow> (Some out, sv\<lparr>svProbes := (svProbes sv)(key := None)\<rparr>)))"

definition maybeStartProbe :: "supervisorEnv \<Rightarrow> nat \<Rightarrow> replicaKey \<Rightarrow> inst \<Rightarrow> workerHealth \<Rightarrow> supervisor \<Rightarrow> supervisor" where
  "maybeStartProbe su n key i hs sv =
     (if svProbes sv key \<noteq> None then sv
      else
        let now = evNow (weDeploy (suWorker su)) n in
        if (case svNextProbe sv key of Some due \<Rightarrow> now < due | None \<Rightarrow> False) then sv
        else sv\<lparr>svNextProbe := (svNextProbe sv)(key \<mapsto> now + whInterval hs),
                svProbes := (svProbes sv)(key \<mapsto>
                   if suCredentials su n i then None
                   else Some \<lparr>poOK = False, poDetail = ''cannot read instance credentials for probe''\<rparr>)\<rparr>)"

subsection \<open>Exits and restarts\<close>

definition scheduleRestart :: "processSettings \<Rightarrow> int \<Rightarrow> inst \<Rightarrow> inst" where
  "scheduleRestart ps now i =
     (if psMaxRestartAttempts ps > 0 \<and> inRestartCount i \<ge> psMaxRestartAttempts ps then i\<lparr>inStatus := ''crashloop''\<rparr>
      else i\<lparr>inRestartCount := inRestartCount i + 1, inLastRestartAt := now, inStatus := ''restarting''\<rparr>)"

definition restartDelay :: "processSettings \<Rightarrow> rat \<Rightarrow> inst \<Rightarrow> int" where
  "restartDelay ps rand01 i =
     (let attempt = max 0 (inRestartCount i - 1);
          d = Backoff (psBackoffInitial ps) (psBackoffMax ps) (psBackoffMultiplier ps) attempt
      in ApplyJitter d (rand01 * 2 * JitterFactor - JitterFactor))"

definition recordExit :: "int \<Rightarrow> replicaKey \<Rightarrow> waitError option \<Rightarrow> bool \<Rightarrow> inst \<Rightarrow> supervisor \<Rightarrow> inst \<times> supervisor" where
  "recordExit now key waitErr reaped i sv =
     (if reaped then RecordInstanceExit now waitErr False i else RecordInstanceExit now None True i, dropHandle key sv)"

definition applyPolicy :: "processSettings \<Rightarrow> int \<Rightarrow> inst \<Rightarrow> inst" where
  "applyPolicy ps now i =
     (case Evaluate (psRestartPolicy ps) (inLastExitCode i) of
        DecisionComplete \<Rightarrow> i\<lparr>inStatus := ''completed''\<rparr>
      | DecisionFail \<Rightarrow> i\<lparr>inStatus := ''failed''\<rparr>
      | DecisionRestart \<Rightarrow> scheduleRestart ps now i)"

definition finishExit ::
    "processSettings \<Rightarrow> int \<Rightarrow> replicaKey \<Rightarrow> waitError option \<Rightarrow> bool \<Rightarrow> inst \<Rightarrow> supervisor \<Rightarrow> inst \<times> supervisor" where
  "finishExit ps now key waitErr reaped i sv =
     (case recordExit now key waitErr reaped i sv of
        (i1, sv1) \<Rightarrow> (applyPolicy ps now i1, clearProbes key sv1))"

text \<open>A live replica is stopped through its handle when there is one; the exit it reports comes with it.\<close>

definition stopLive ::
    "supervisorEnv \<Rightarrow> replicaKey \<Rightarrow> inst \<Rightarrow> supervisor \<Rightarrow> ('r world, shutdownReport \<times> waitError option) state" where
  "stopLive su key i sv =
     (let env = weDeploy (suWorker su) in
      act (\<lambda>n w.
        if \<not> WorkerInstanceAlive (evLinks env) (wOs w) i then ((nothingToStop, None), w)
        else
          let pid = (case svHandles sv key of Some held \<Rightarrow> held | None \<Rightarrow> inPID i) in
          case GracefulStop (evReact env n) (NativeProc pid) (wOs w) of
            (report, sys) \<Rightarrow> ((report, suStopped su n), w\<lparr>wOs := sys\<rparr>)))"

text \<open>A replica that is up but not accepted: it is stopped and counted as one failure.\<close>

definition failLive ::
    "supervisorEnv \<Rightarrow> processSettings \<Rightarrow> replicaKey \<Rightarrow> (string \<Rightarrow> string) \<Rightarrow> inst \<Rightarrow> supervisor
       \<Rightarrow> ('r world, inst \<times> supervisor) state" where
  "failLive su ps key reason i sv = do {
     (report, waitErr) \<leftarrow> stopLive su key i sv;
     now \<leftarrow> nowW (weDeploy (suWorker su));
     let (i1, sv1) = recordExit now key waitErr (\<not> hasHandle key sv) i sv;
     let i2 = i1\<lparr>inLastExitReason := reason (inLastExitReason i1)\<rparr>;
     State_Monad.return (scheduleRestart ps now i2, clearProbes key (dropHandle key sv1))
   }"

subsection \<open>One replica\<close>

text \<open>
  What a branch returns: whether the persisted record changed, the record, and the memory.  The record of
  a replica is updated in place in the deployment record.
\<close>

type_synonym passResult = "bool \<times> deployState \<times> supervisor"

definition changed :: "string \<Rightarrow> deployState \<Rightarrow> inst \<Rightarrow> supervisor \<Rightarrow> passResult" where
  "changed slot s i sv = (True, withReplica slot i s, sv)"

definition becomeRunning :: "int \<Rightarrow> inst \<Rightarrow> inst" where
  "becomeRunning now i = i\<lparr>inReadyAt := now, inStatus := ''running''\<rparr>"

definition reconcileRestarting ::
    "supervisorEnv \<Rightarrow> processSettings \<Rightarrow> replicaKey \<Rightarrow> bool \<Rightarrow> int \<Rightarrow> deployState \<Rightarrow> string \<Rightarrow> inst \<Rightarrow> supervisor
       \<Rightarrow> ('r world, passResult) state" where
  "reconcileRestarting su ps key alive now s slot i sv =
     (if alive then State_Monad.return (changed slot s (i\<lparr>inStatus := ''starting''\<rparr>) sv)
      else do {
        rand01 \<leftarrow> look (\<lambda>w. suRand su (wClock w));
        if now < inLastRestartAt i + restartDelay ps rand01 i then State_Monad.return (False, s, sv)
        else do {
          (r, s1) \<leftarrow> LaunchWorkerReplica (suWorker su) s slot;
          case r of
            Inl e \<Rightarrow> do {
              let i1 = replicaOrBlank slot s1;
              let i2 = i1\<lparr>inLastExitCode := -1,
                          inLastExitReason := ''relaunch failed: '' @ weErrorText (suWorker su) e, inLastExitAt := now\<rparr>;
              State_Monad.return (changed slot s1 (scheduleRestart ps now i2) sv)
            }
          | Inr found \<Rightarrow> State_Monad.return (True, s1, setHandle key (piPID found) sv)
        }
      })"

definition reconcileStarting ::
    "supervisorEnv \<Rightarrow> processSettings \<Rightarrow> workerHealth \<Rightarrow> replicaKey \<Rightarrow> bool \<Rightarrow> waitError option \<Rightarrow> bool \<Rightarrow> int
       \<Rightarrow> deployState \<Rightarrow> string \<Rightarrow> inst \<Rightarrow> supervisor \<Rightarrow> ('r world, passResult) state" where
  "reconcileStarting su ps hs key alive waitErr reaped now s slot i sv =
     (if \<not> alive then
        (case finishExit ps now key waitErr reaped i sv of (i1, sv1) \<Rightarrow> State_Monad.return (changed slot s i1 sv1))
      else if whMode hs \<noteq> ''exec'' then State_Monad.return (changed slot s (becomeRunning now i) sv)
      else if now - inStartedAt i \<ge> psStartupTimeout ps then do {
        (i1, sv1) \<leftarrow> failLive su ps key (\<lambda>reason. ''startup timeout: '' @ reason) i sv;
        State_Monad.return (changed slot s i1 sv1)
      }
      else do {
        n \<leftarrow> look wClock;
        case collectProbe su n key sv of
          (out, sv1) \<Rightarrow>
            if (case out of Some res \<Rightarrow> poOK res | None \<Rightarrow> False) then
              State_Monad.return (changed slot s (becomeRunning now i)
                (sv1\<lparr>svProbeFails := (svProbeFails sv1)(key \<mapsto> 0)\<rparr>))
            else State_Monad.return (False, s, maybeStartProbe su n key i hs sv1)
      })"

definition failedProbes :: "supervisor \<Rightarrow> replicaKey \<Rightarrow> int" where
  "failedProbes sv key = (case svProbeFails sv key of Some n \<Rightarrow> n | None \<Rightarrow> 0)"

definition reconcileRunning ::
    "supervisorEnv \<Rightarrow> processSettings \<Rightarrow> workerHealth \<Rightarrow> replicaKey \<Rightarrow> bool \<Rightarrow> waitError option \<Rightarrow> bool \<Rightarrow> int
       \<Rightarrow> deployState \<Rightarrow> string \<Rightarrow> inst \<Rightarrow> supervisor \<Rightarrow> ('r world, passResult) state" where
  "reconcileRunning su ps hs key alive waitErr reaped now s slot i sv =
     (let anchor = (if inReadyAt i = 0 then inStartedAt i else inReadyAt i) in
      if \<not> alive then
        (case finishExit ps now key waitErr reaped i sv of (i1, sv1) \<Rightarrow> State_Monad.return (changed slot s i1 sv1))
      else if inRestartCount i > 0 \<and> now - anchor \<ge> StableWindow then
        State_Monad.return (changed slot s (i\<lparr>inRestartCount := 0\<rparr>) sv)
      else if whMode hs \<noteq> ''exec'' then State_Monad.return (False, s, sv)
      else do {
        n \<leftarrow> look wClock;
        case collectProbe su n key sv of
          (None, sv1) \<Rightarrow> State_Monad.return (False, s, maybeStartProbe su n key i hs sv1)
        | (Some res, sv1) \<Rightarrow>
            if poOK res then
              State_Monad.return (False, s,
                maybeStartProbe su n key i hs (sv1\<lparr>svProbeFails := (svProbeFails sv1)(key \<mapsto> 0)\<rparr>))
            else
              let fails = failedProbes sv1 key + 1;
                  sv2 = sv1\<lparr>svProbeFails := (svProbeFails sv1)(key \<mapsto> fails)\<rparr>
              in if fails \<ge> whRetries hs then do {
                   (i1, sv3) \<leftarrow> failLive su ps key (\<lambda>_. ''unhealthy: exec probe failed: '' @ poDetail res) i
                                 (sv2\<lparr>svProbeFails := (svProbeFails sv2)(key \<mapsto> 0)\<rparr>);
                   State_Monad.return (changed slot s i1 sv3)
                 }
                 else State_Monad.return (False, s, maybeStartProbe su n key i hs sv2)
      })"

definition reconcileReplica ::
    "supervisorEnv \<Rightarrow> string \<Rightarrow> processSettings \<Rightarrow> workerHealth \<Rightarrow> deployState \<Rightarrow> string \<Rightarrow> supervisor
       \<Rightarrow> ('r world, passResult) state" where
  "reconcileReplica su name ps hs s slot sv =
     (case map_of (dsReplicas s) slot of
        None \<Rightarrow> State_Monad.return (False, s, sv)
      | Some i \<Rightarrow> do {
          let key = (name, slot);
          let env = weDeploy (suWorker su);
          now \<leftarrow> nowW env;
          n \<leftarrow> look wClock;
          let ((waitErr, reaped), sv1) = reapHandle su n key sv;
          matched \<leftarrow> look (\<lambda>w. WorkerInstanceAlive (evLinks env) (wOs w) i);
          let alive = (\<not> reaped \<and> matched);
          if inStatus i \<in> {''stopping'', ''draining'', ''replacing''} then
            (if alive then State_Monad.return (False, s, sv1)
             else case recordExit now key waitErr reaped i sv1 of
               (i1, sv2) \<Rightarrow>
                 State_Monad.return (changed slot s (i1\<lparr>inStatus := ''stopped''\<rparr>) (clearProbes key (dropHandle key sv2))))
          else if inStatus i = ''restarting'' then reconcileRestarting su ps key alive now s slot i sv1
          else if inStatus i = ''starting'' then reconcileStarting su ps hs key alive waitErr reaped now s slot i sv1
          else if inStatus i = ''running'' then reconcileRunning su ps hs key alive waitErr reaped now s slot i sv1
          else State_Monad.return (False, s, if alive then sv1 else clearProbes key (dropHandle key sv1))
        })"

subsection \<open>One application\<close>

text \<open>Slots in numeric order; a slot that is no number counts as \<open>-1\<close>, and of two with the same number the later one is visited.\<close>

definition slotNumber :: "string \<Rightarrow> int" where
  "slotNumber slot = (case atoi slot of Some n \<Rightarrow> n | None \<Rightarrow> -1)"

definition sortedSlots :: "(string \<times> inst) list \<Rightarrow> string list" where
  "sortedSlots m =
     (let byKey = map_of (rev (map (\<lambda>(slot, _). (slotNumber slot, slot)) m))
      in map (\<lambda>n. case byKey n of Some slot \<Rightarrow> slot | None \<Rightarrow> '''')
           (sort (map (\<lambda>(slot, _). slotNumber slot) m)))"

fun reconcileSlots ::
    "supervisorEnv \<Rightarrow> string \<Rightarrow> processSettings \<Rightarrow> workerHealth \<Rightarrow> string list \<Rightarrow> bool \<Rightarrow> deployState \<Rightarrow> supervisor
       \<Rightarrow> ('r world, passResult) state" where
  "reconcileSlots su name ps hs [] dirty s sv = State_Monad.return (dirty, s, sv)"
| "reconcileSlots su name ps hs (slot # slots) dirty s sv = do {
     (d, s1, sv1) \<leftarrow> reconcileReplica su name ps hs s slot sv;
     reconcileSlots su name ps hs slots (dirty \<or> d) s1 sv1
   }"

datatype appLock = LockFails | LockBusy | LockFree

text \<open>
  One pass over an application.  The recovery of a pending secret transaction and the project file are
  arguments; a busy lock skips the pass.
\<close>

definition reconcileApp ::
    "supervisorEnv \<Rightarrow> appLock \<Rightarrow> ('r world, bool) state \<Rightarrow> (processSettings \<times> workerHealth) option \<Rightarrow> string \<Rightarrow> supervisor
       \<Rightarrow> ('r world, supervisor) state" where
  "reconcileApp su lock recoverSecrets config name sv =
     (if lock \<noteq> LockFree then State_Monad.return sv
      else do {
        f \<leftarrow> look wFile;
        case LoadState name f of
          Inl e \<Rightarrow> State_Monad.return (dropApp name sv)
        | Inr s0 \<Rightarrow>
            if dsMode s0 \<noteq> ModeWorker then State_Monad.return (dropApp name sv)
            else do {
              recovered \<leftarrow> recoverSecrets;
              if \<not> recovered then State_Monad.return sv
              else do {
                f1 \<leftarrow> look wFile;
                case (LoadState name f1, config) of
                  (Inr s, Some (ps, hs)) \<Rightarrow> do {
                    (dirty, s1, sv1) \<leftarrow> reconcileSlots su name ps hs (sortedSlots (dsReplicas s)) False s sv;
                    if dirty then do {
                      (r, s2) \<leftarrow> storeW (weDeploy (suWorker su)) s1;
                      State_Monad.return sv1
                    }
                    else State_Monad.return sv1
                  }
                | _ \<Rightarrow> State_Monad.return sv
              }
            }
      })"

section \<open>Restart delays\<close>

lemma truncated_bounds: "x \<ge> 0 \<Longrightarrow> of_int (truncated x) \<le> x \<and> x < of_int (truncated x) + 1 \<and> truncated x \<ge> 0"
  by (simp add: truncated_def) linarith

lemma truncated_grows:
  assumes "m \<ge> 1" and "d \<ge> 0"
  shows "d \<le> truncated (of_int d * m)"
proof -
  have "of_int d * 1 \<le> of_int d * m" using assms by (intro mult_left_mono) auto
  with assms(2) show ?thesis by (simp add: truncated_def le_floor_iff)
qed

lemma backoffLoop_grows:
  assumes "m \<ge> 1" and "d > 0"
  shows "d \<le> backoffLoop m limit n d"
  using assms(2)
proof (induction n arbitrary: d)
  case (Suc n)
  have "d \<le> truncated (of_int d * m)" using truncated_grows [OF assms(1)] Suc.prems by simp
  with Suc.IH [of "truncated (of_int d * m)"] Suc.prems show ?case by simp
qed simp

lemma backoffLoop_step:
  assumes "m \<ge> 1" and "d > 0"
  shows "backoffLoop m limit n d \<le> backoffLoop m limit (Suc n) d"
  using assms(2)
proof (induction n arbitrary: d)
  case 0
  then show ?case using truncated_grows [OF assms(1)] by simp
next
  case (Suc n)
  have "d \<le> truncated (of_int d * m)" using truncated_grows [OF assms(1)] Suc.prems by simp
  with Suc.IH [of "truncated (of_int d * m)"] Suc.prems show ?case by simp
qed

lemma Backoff_bounds:
  assumes "m \<ge> 1" and "initial > 0" and "limit > 0"
  shows "0 < Backoff initial limit m attempt" and "min initial limit \<le> Backoff initial limit m attempt"
    and "Backoff initial limit m attempt \<le> limit"
  using backoffLoop_grows [OF assms(1,2), of limit "nat attempt"] assms(2,3) by (auto simp: Backoff_def Let_def)

lemma Backoff_step:
  assumes "m \<ge> 1" and "initial > 0" and "limit > 0" and "attempt \<ge> 0"
  shows "Backoff initial limit m attempt \<le> Backoff initial limit m (attempt + 1)"
proof -
  have "nat (attempt + 1) = Suc (nat attempt)" using assms(4) by simp
  then show ?thesis
    using backoffLoop_step [OF assms(1,2), of limit "nat attempt"] backoffLoop_grows [OF assms(1,2), of limit "nat attempt"] assms(2,3)
    by (auto simp: Backoff_def Let_def simp del: backoffLoop.simps)
qed

lemma ApplyJitter_bounds:
  assumes "d > 0"
  shows "4 * d - 5 < 5 * ApplyJitter d r" and "5 * ApplyJitter d r \<le> 6 * d"
proof -
  let ?r = "if (if r > JitterFactor then JitterFactor else r) < - JitterFactor then - JitterFactor
            else (if r > JitterFactor then JitterFactor else r)"
  let ?x = "of_int d * (1 + ?r) :: rat"
  have r: "- (1 / 5) \<le> ?r" "?r \<le> 1 / 5" by (auto simp: JitterFactor_def)
  have lo: "of_int d * (4 / 5) \<le> ?x" using r(1) assms by (intro mult_left_mono) auto
  have hi: "?x \<le> of_int d * (6 / 5)" using r(2) assms by (intro mult_left_mono) auto
  have "0 \<le> (of_int d * (4 / 5) :: rat)" using assms by simp
  also note lo
  finally have "0 \<le> ?x" .
  note t = truncated_bounds [OF this]
  then have eq: "ApplyJitter d r = truncated ?x" by (simp add: ApplyJitter_def Let_def)
  have "of_int (4 * d - 5) < (of_int (5 * truncated ?x) :: rat)" using lo t by simp
  then show "4 * d - 5 < 5 * ApplyJitter d r" using eq by (simp only: of_int_less_iff)
  have "(of_int (5 * truncated ?x) :: rat) \<le> of_int (6 * d)" using hi t by simp
  then show "5 * ApplyJitter d r \<le> 6 * d" using eq by (simp only: of_int_le_iff)
qed

lemma positiveDuration_pos: "dflt > 0 \<Longrightarrow> positiveDuration pd text dflt > 0"
  by (simp add: positiveDuration_def split: option.split)

definition sensible :: "processSettings \<Rightarrow> bool" where
  "sensible ps \<longleftrightarrow>
     psMaxRestartAttempts ps > 0 \<and> psBackoffInitial ps > 0 \<and> psBackoffMax ps > 0 \<and> psBackoffMultiplier ps \<ge> 1"

lemma ResolveProcess_bounds:
  "psMaxRestartAttempts (ResolveProcess pd po) > 0 \<and> psBackoffInitial (ResolveProcess pd po) > 0 \<and>
   psBackoffMax (ResolveProcess pd po) > 0 \<and> psBackoffMultiplier (ResolveProcess pd po) \<ge> 1"
proof -
  have backoff: "sensible (resolveBackoff pd bo ps)" if "sensible ps" for bo ps
    using that by (auto simp: sensible_def resolveBackoff_def positiveDuration_pos split: option.split)
  have restart: "sensible (resolveRestart pd ro ps)" if "sensible ps" for ro ps
    using that by (auto simp: resolveRestart_def sensible_def split: option.split intro!: backoff [unfolded sensible_def])
  have dflt: "sensible (ps\<lparr>psStartupTimeout := a\<rparr>) = sensible ps" "sensible defaultProcess"
    "sensible (ps\<lparr>psShutdownSignal := b\<rparr>) = sensible ps" "sensible (ps\<lparr>psGracePeriod := a\<rparr>) = sensible ps" for a b ps
    by (simp_all add: sensible_def defaultProcess_def second_def)
  show ?thesis unfolding sensible_def [symmetric]
  proof (cases po)
    case None
    then show "sensible (ResolveProcess pd po)" by (simp add: ResolveProcess_def dflt)
  next
    case (Some p)
    then show "sensible (ResolveProcess pd po)"
      unfolding ResolveProcess_def Let_def option.case
      by (cases "pcShutdown p") (auto simp: dflt intro!: restart)
  qed
qed


section \<open>Crash loops are bounded\<close>

text \<open>
  The launches a replica may still be given before its counter is exhausted: one for each attempt left,
  and one more when a restart is already scheduled.
\<close>

definition budget :: "processSettings \<Rightarrow> inst \<Rightarrow> nat" where
  "budget ps i =
     (if inStatus i \<in> {''restarting'', ''starting'', ''running''} then
        nat (psMaxRestartAttempts ps - inRestartCount i) + (if inStatus i = ''restarting'' then 1 else 0)
      else 0)"

definition spawnsOf :: "string \<Rightarrow> (string \<times> int) list \<Rightarrow> nat" where
  "spawnsOf slot L = length (filter (\<lambda>(k, _). k = slot) L)"

lemma spawnsOf_append [simp]: "spawnsOf slot (L @ [(k, pid)]) = spawnsOf slot L + (if k = slot then 1 else 0)"
  by (simp add: spawnsOf_def)

definition attemptsLeft :: "processSettings \<Rightarrow> inst \<Rightarrow> nat" where
  "attemptsLeft ps i = nat (psMaxRestartAttempts ps - inRestartCount i)"

lemma budget_schedule: "psMaxRestartAttempts ps > 0 \<Longrightarrow> budget ps (scheduleRestart ps now i) \<le> attemptsLeft ps i"
  by (auto simp: budget_def scheduleRestart_def attemptsLeft_def)

lemma budget_live: "inStatus i = ''starting'' \<or> inStatus i = ''running'' \<Longrightarrow> budget ps i = attemptsLeft ps i"
  by (auto simp: budget_def attemptsLeft_def)

lemma budget_restarting: "inStatus i = ''restarting'' \<Longrightarrow> budget ps i = attemptsLeft ps i + 1"
  by (auto simp: budget_def attemptsLeft_def)

lemma attemptsLeft_cong: "inRestartCount i' = inRestartCount i \<Longrightarrow> attemptsLeft ps i' = attemptsLeft ps i"
  by (simp add: attemptsLeft_def)

lemma budget_applyPolicy: "psMaxRestartAttempts ps > 0 \<Longrightarrow> budget ps (applyPolicy ps now i) \<le> attemptsLeft ps i"
  using budget_schedule [of ps now i] by (auto simp: applyPolicy_def budget_def split: decision.splits)

lemma recordExit_count [simp]: "recordExit now key waitErr reaped i sv = (i1, sv1) \<Longrightarrow> inRestartCount i1 = inRestartCount i"
  by (auto simp: recordExit_def RecordInstanceExit_def)

lemma finishExit_budget:
  assumes "psMaxRestartAttempts ps > 0" and "finishExit ps now key waitErr reaped i sv = (i1, sv1)"
  shows "budget ps i1 \<le> attemptsLeft ps i"
proof -
  obtain i0 sv0 where r: "recordExit now key waitErr reaped i sv = (i0, sv0)" by fastforce
  with assms have "i1 = applyPolicy ps now i0" by (simp add: finishExit_def)
  with budget_applyPolicy [OF assms(1), of now i0] attemptsLeft_cong [OF recordExit_count [OF r], of ps] show ?thesis by simp
qed

lemma stopLive_spawns: "triple (\<lambda>w. wSpawns w = L) (stopLive su key i sv) (\<lambda>_ w. wSpawns w = L)"
  unfolding stopLive_def Let_def
  by (rule triple_post [OF act_spawns [where Q = "\<lambda>_. True"]]) (auto split: prod.splits if_splits)

lemma failLive_budget:
  assumes "psMaxRestartAttempts ps > 0"
  shows "triple (\<lambda>w. wSpawns w = L) (failLive su ps key reason i sv)
           (\<lambda>(i', _) w. wSpawns w = L \<and> budget ps i' \<le> attemptsLeft ps i)"
proof -
  have b: "budget ps (scheduleRestart ps now (i1\<lparr>inLastExitReason := msg\<rparr>)) \<le> attemptsLeft ps i"
    if "recordExit now key waitErr reaped i sv = (i1, sv1)" for now waitErr reaped i1 sv1 msg
    using budget_schedule [OF assms, of now "i1\<lparr>inLastExitReason := msg\<rparr>"]
      attemptsLeft_cong [of "i1\<lparr>inLastExitReason := msg\<rparr>" i ps] recordExit_count [OF that] by simp
  show ?thesis
    unfolding failLive_def nowW_def Let_def
    by (rule triple_bind [OF stopLive_spawns], rule triple_pair, rule triple_look, rule triple_drop, rule triple_pair)
      (rule triple_return, use b in simp)
qed

text \<open>What one visit of a replica leaves behind.\<close>

definition stableReset :: "int \<Rightarrow> inst \<Rightarrow> inst \<Rightarrow> bool" where
  "stableReset now i i' \<longleftrightarrow>
     inStatus i = ''running'' \<and> inRestartCount i > 0 \<and> inRestartCount i' = 0 \<and>
     now - (if inReadyAt i = 0 then inStartedAt i else inReadyAt i) \<ge> StableWindow"

definition visitLeaves ::
    "processSettings \<Rightarrow> int \<Rightarrow> string \<Rightarrow> deployState \<Rightarrow> (string \<times> int) list \<Rightarrow> deployFile \<Rightarrow> passResult \<Rightarrow> 'r world \<Rightarrow> bool" where
  "visitLeaves ps now slot s L F out w \<longleftrightarrow>
     (case out of (d, s', sv') \<Rightarrow>
        touchesOnly slot s s' \<and> (\<not> d \<longrightarrow> s' = s \<and> wFile w = F) \<and>
        (\<forall>k. k \<noteq> slot \<longrightarrow> spawnsOf k (wSpawns w) = spawnsOf k L) \<and>
        (\<forall>i. map_of (dsReplicas s) slot = Some i \<longrightarrow>
           (\<exists>i'. map_of (dsReplicas s') slot = Some i' \<and>
              (stableReset now i i' \<or>
               spawnsOf slot (wSpawns w) + budget ps i' \<le> spawnsOf slot L + budget ps i))))"

lemma visit_same: "triple (\<lambda>w. wSpawns w = L \<and> wFile w = F) (State_Monad.return (False, s, sv)) (visitLeaves ps now slot s L F)"
  by (rule triple_return) (auto simp: visitLeaves_def)

lemma visit_changed:
  assumes "map_of (dsReplicas s) slot = Some i" and "stableReset now i i' \<or> budget ps i' \<le> budget ps i"
  shows "triple (\<lambda>w. wSpawns w = L) (State_Monad.return (changed slot s i' sv)) (visitLeaves ps now slot s L F)"
  by (rule triple_return) (use assms in \<open>auto simp: visitLeaves_def changed_def\<close>)

lemma visit_failLive:
  assumes "psMaxRestartAttempts ps > 0" and "map_of (dsReplicas s) slot = Some i" and "budget ps i = attemptsLeft ps i"
  shows "triple (\<lambda>w. wSpawns w = L)
           (State_Monad.bind (failLive su ps key reason i sv) (\<lambda>(i1, sv1). State_Monad.return (changed slot s i1 sv1)))
           (visitLeaves ps now slot s L F)"
proof (rule triple_bind_pair [OF failLive_budget [OF assms(1)]], rule triple_fact)
  fix i1 sv1
  assume "budget ps i1 \<le> attemptsLeft ps i"
  then show "triple (\<lambda>w. wSpawns w = L) (State_Monad.return (changed slot s i1 sv1)) (visitLeaves ps now slot s L F)"
    by (intro visit_changed [OF assms(2)]) (simp add: assms(3))
qed

lemma visit_restarting:
  assumes "psMaxRestartAttempts ps > 0" and i: "map_of (dsReplicas s) slot = Some i" and st: "inStatus i = ''restarting''"
  shows "triple (\<lambda>w :: 'a world. wSpawns w = L \<and> wFile w = F) (reconcileRestarting su ps key alive now s slot i sv) (visitLeaves ps now slot s L F)"
proof -
  have launched: "triple (launchLeaves slot s L (r, s1))
      (case r of
         Inl e \<Rightarrow> State_Monad.return (changed slot s1 (scheduleRestart ps now ((replicaOrBlank slot s1)
            \<lparr>inLastExitCode := -1, inLastExitReason := ''relaunch failed: '' @ weErrorText (suWorker su) e, inLastExitAt := now\<rparr>)) sv)
       | Inr found \<Rightarrow> State_Monad.return (True, s1, setHandle key (piPID found) sv))
      (visitLeaves ps now slot s L F :: passResult \<Rightarrow> 'a world \<Rightarrow> bool)" for r s1
  proof (rule triple_sum, goal_cases)
    case (1 e)
    show ?case
    proof (rule triple_return)
      fix w :: "'a world"
      assume l: "launchLeaves slot s L (r, s1) w"
      then obtain i' where i': "map_of (dsReplicas s1) slot = Some i'" "inRestartCount i' = inRestartCount i"
        "wSpawns w = L \<or> (\<exists>pid. wSpawns w = L @ [(slot, pid)])" and t: "touchesOnly slot s s1"
        using i 1 by (auto simp: launchLeaves_def)
      let ?j = "(replicaOrBlank slot s1)\<lparr>inLastExitCode := -1,
        inLastExitReason := ''relaunch failed: '' @ weErrorText (suWorker su) e, inLastExitAt := now\<rparr>"
      have blank: "replicaOrBlank slot s1 = i'" using i'(1) by simp
      have left: "budget ps (scheduleRestart ps now ?j) \<le> attemptsLeft ps i"
        using budget_schedule [OF assms(1), of now ?j] attemptsLeft_cong [of ?j i ps] i'(2) blank by simp
      have "touchesOnly slot s (withReplica slot (scheduleRestart ps now ?j) s1)"
        using t touchesOnly_withReplica by (rule touchesOnly_trans)
      moreover have "spawnsOf slot (wSpawns w) \<le> spawnsOf slot L + 1"
        "\<And>k. k \<noteq> slot \<Longrightarrow> spawnsOf k (wSpawns w) = spawnsOf k L" using i'(3) by auto
      ultimately show "visitLeaves ps now slot s L F (changed slot s1 (scheduleRestart ps now ?j) sv) w"
        using left i unfolding visitLeaves_def changed_def by (simp add: budget_restarting [OF st])
    qed
  next
    case (2 found)
    show ?case
    proof (rule triple_return)
      fix w :: "'a world"
      assume "launchLeaves slot s L (r, s1) w"
      then obtain i' where i': "map_of (dsReplicas s1) slot = Some i'" "inRestartCount i' = inRestartCount i"
        "wSpawns w = L @ [(slot, piPID found)]" "inStatus i' = ''starting''" and t: "touchesOnly slot s s1"
        using i 2 by (auto simp: launchLeaves_def)
      with i show "visitLeaves ps now slot s L F (True, s1, setHandle key (piPID found) sv) w"
        by (auto simp: visitLeaves_def budget_restarting [OF st] budget_live attemptsLeft_cong [OF i'(2)])
    qed
  qed
  have up: "budget ps (i\<lparr>inStatus := ''starting''\<rparr>) \<le> budget ps i" by (simp add: budget_def st)
  show ?thesis
    unfolding reconcileRestarting_def LaunchWorkerReplica_def Let_def
  proof (rule triple_if, goal_cases)
    case 1
    show ?case by (rule triple_drop, rule visit_changed [OF i]) (use up in simp)
  next
    case 2
    show ?case
    proof (rule triple_look, rule triple_drop, rule triple_if, rule visit_same, rule triple_bind [OF triple_drop [OF launchWorkerReplica_leaves]])
      fix rand01 and out :: "(code, processIdentity) result \<times> deployState"
      obtain r s1 where out: "out = (r, s1)" by fastforce
      show "triple (launchLeaves slot s L out) (case out of (r, s1) \<Rightarrow> case r of
            Inl e \<Rightarrow> State_Monad.return (changed slot s1 (scheduleRestart ps now ((replicaOrBlank slot s1)
              \<lparr>inLastExitCode := -1, inLastExitReason := ''relaunch failed: '' @ weErrorText (suWorker su) e, inLastExitAt := now\<rparr>)) sv)
          | Inr found \<Rightarrow> State_Monad.return (True, s1, setHandle key (piPID found) sv))
          (visitLeaves ps now slot s L F :: passResult \<Rightarrow> 'a world \<Rightarrow> bool)"
        unfolding out prod.case by (rule launched)
    qed
  qed
qed

lemma visit_exit:
  assumes "psMaxRestartAttempts ps > 0" and i: "map_of (dsReplicas s) slot = Some i" and "budget ps i = attemptsLeft ps i"
  shows "triple (\<lambda>w. wSpawns w = L \<and> wFile w = F)
           (case finishExit ps now key waitErr reaped i sv of (i1, sv1) \<Rightarrow> State_Monad.return (changed slot s i1 sv1))
           (visitLeaves ps now slot s L F)"
proof (rule triple_pair, rule triple_drop)
  fix i1 sv1
  assume "finishExit ps now key waitErr reaped i sv = (i1, sv1)"
  from finishExit_budget [OF assms(1) this]
  show "triple (\<lambda>w. wSpawns w = L) (State_Monad.return (changed slot s i1 sv1)) (visitLeaves ps now slot s L F)"
    by (intro visit_changed [OF i]) (simp add: assms(3))
qed

lemma visit_starting:
  assumes "psMaxRestartAttempts ps > 0" and i: "map_of (dsReplicas s) slot = Some i" and st: "inStatus i = ''starting''"
  shows "triple (\<lambda>w :: 'a world. wSpawns w = L \<and> wFile w = F)
           (reconcileStarting su ps hs key alive waitErr reaped now s slot i sv) (visitLeaves ps now slot s L F)"
proof -
  have b: "budget ps i = attemptsLeft ps i" by (rule budget_live) (use st in simp)
  have up: "budget ps (becomeRunning now i) \<le> budget ps i"
    unfolding b by (simp add: becomeRunning_def budget_def attemptsLeft_def)
  show ?thesis
    unfolding reconcileStarting_def Let_def
    by (rule triple_if, rule visit_exit [OF assms(1) i b], rule triple_if, rule triple_drop, rule visit_changed [OF i], simp add: up,
        rule triple_if, rule triple_drop, rule visit_failLive [OF assms(1) i b], rule triple_look, rule triple_drop, rule triple_pair,
        rule triple_if, rule triple_drop, rule visit_changed [OF i], simp add: up, rule visit_same)
qed

lemma visit_running:
  assumes "psMaxRestartAttempts ps > 0" and i: "map_of (dsReplicas s) slot = Some i" and st: "inStatus i = ''running''"
  shows "triple (\<lambda>w :: 'a world. wSpawns w = L \<and> wFile w = F)
           (reconcileRunning su ps hs key alive waitErr reaped now s slot i sv) (visitLeaves ps now slot s L F)"
proof -
  have b: "budget ps i = attemptsLeft ps i" by (rule budget_live) (use st in simp)
  show ?thesis
    unfolding reconcileRunning_def Let_def
  proof (rule triple_if, rule visit_exit [OF assms(1) i b], rule triple_if, goal_cases)
    case 1
    then show ?case by (intro triple_drop [OF visit_changed [OF i]]) (simp add: stableReset_def st)
  next
    case 2
    show ?case
    proof (rule triple_if, rule visit_same, rule triple_look, rule triple_drop, rule triple_pair)
      fix out sv1
      show "triple (\<lambda>w :: 'a world. wSpawns w = L \<and> wFile w = F)
          (case out of
             None \<Rightarrow> State_Monad.return (False, s, maybeStartProbe su n key i hs sv1)
           | Some res \<Rightarrow>
               if poOK res then State_Monad.return (False, s,
                   maybeStartProbe su n key i hs (sv1\<lparr>svProbeFails := (svProbeFails sv1)(key \<mapsto> 0)\<rparr>))
               else if whRetries hs \<le> failedProbes sv1 key + 1 then
                 State_Monad.bind (failLive su ps key (\<lambda>_. ''unhealthy: exec probe failed: '' @ poDetail res) i
                     (sv1\<lparr>svProbeFails := (svProbeFails sv1)(key \<mapsto> failedProbes sv1 key + 1),
                          svProbeFails := (svProbeFails (sv1\<lparr>svProbeFails := (svProbeFails sv1)
                             (key \<mapsto> failedProbes sv1 key + 1)\<rparr>))(key \<mapsto> 0)\<rparr>))
                   (\<lambda>(i1, sv3). State_Monad.return (changed slot s i1 sv3))
               else State_Monad.return (False, s, maybeStartProbe su n key i hs
                   (sv1\<lparr>svProbeFails := (svProbeFails sv1)(key \<mapsto> failedProbes sv1 key + 1)\<rparr>)))
          (visitLeaves ps now slot s L F)" for n
        by (intro triple_option triple_if visit_same triple_drop [OF visit_failLive [OF assms(1) i b]])
    qed
  qed
qed

lemma visit_replica:
  assumes "psMaxRestartAttempts ps > 0"
  shows "triple (\<lambda>w :: 'a world. (wSpawns w = L \<and> wFile w = F) \<and> now = evNow (weDeploy (suWorker su)) (wClock w))
           (reconcileReplica su name ps hs s slot sv) (visitLeaves ps now slot s L F)"
proof (cases "map_of (dsReplicas s) slot")
  case None
  show ?thesis unfolding reconcileReplica_def None option.case by (rule triple_drop, rule visit_same)
next
  case (Some i)
  have stopped: "triple (\<lambda>w :: 'a world. wSpawns w = L \<and> wFile w = F)
      (case recordExit now key waitErr reaped i sv of (i1, sv1) \<Rightarrow>
         State_Monad.return (changed slot s (i1\<lparr>inStatus := ''stopped''\<rparr>) (clearProbes key (dropHandle key sv1))))
      (visitLeaves ps now' slot s L F)" for now now' key waitErr reaped sv
    by (rule triple_pair, rule triple_drop, rule visit_changed [OF Some]) (simp add: budget_def)
  note visits = visit_restarting [OF assms Some] visit_starting [OF assms Some] visit_running [OF assms Some]
  show ?thesis
    unfolding reconcileReplica_def nowW_def Let_def Some option.case
  proof (rule triple_look, rule triple_look, goal_cases)
    case (1 now' n)
    obtain waitErr reaped sv1 where reap: "reapHandle su n (name, slot) sv = ((waitErr, reaped), sv1)" by (metis prod.exhaust)
    show ?case
      unfolding reap prod.case
    proof (rule triple_pre [where P = "\<lambda>w. (wSpawns w = L \<and> wFile w = F) \<and> now' = now"], rule triple_fact, goal_cases)
      case 1
      show ?case
        unfolding 1 by (rule triple_look, rule triple_drop) (intro triple_if visit_same stopped visits)
    qed simp
  qed
qed

text \<open>The slots of one pass, each visited once.\<close>

definition passLeaves ::
    "processSettings \<Rightarrow> string \<Rightarrow> deployState \<Rightarrow> nat \<Rightarrow> deployState \<Rightarrow> nat \<Rightarrow> bool" where
  "passLeaves ps slot s c s' c' \<longleftrightarrow>
     (\<forall>i. map_of (dsReplicas s) slot = Some i \<longrightarrow>
        (\<exists>i'. map_of (dsReplicas s') slot = Some i' \<and>
           (inRestartCount i' < inRestartCount i \<or> c' + budget ps i' \<le> c + budget ps i)))"

definition sameSlots :: "deployState \<Rightarrow> deployState \<Rightarrow> bool" where
  "sameSlots s s' \<longleftrightarrow>
     dsAppName s' = dsAppName s \<and> dsMode s' = dsMode s \<and> dsSecretPreparing s' = dsSecretPreparing s \<and>
     map fst (dsReplicas s') = map fst (dsReplicas s)"

lemma touchesOnly_shape: "touchesOnly slot s s' \<Longrightarrow> slot \<in> set (map fst (dsReplicas s)) \<Longrightarrow> sameSlots s s'"
  by (simp add: touchesOnly_def sameSlots_def)

lemma sameSlots_refl [simp]: "sameSlots s s"
  by (simp add: sameSlots_def)

lemma sameSlots_trans: "sameSlots s s1 \<Longrightarrow> sameSlots s1 s2 \<Longrightarrow> sameSlots s s2"
  by (simp add: sameSlots_def)

lemma visit_count:
  assumes "psMaxRestartAttempts ps > 0"
  shows "triple (\<lambda>w :: 'a world. spawnsOf k (wSpawns w) = c \<and> wFile w = F) (reconcileReplica su name ps hs s j sv)
     (\<lambda>(d, s', sv') w. touchesOnly j s s' \<and> (\<not> d \<longrightarrow> s' = s \<and> wFile w = F) \<and> (k \<noteq> j \<longrightarrow> spawnsOf k (wSpawns w) = c) \<and>
        (k = j \<longrightarrow> passLeaves ps k s c s' (spawnsOf k (wSpawns w))))"
  unfolding triple_def
proof (intro allI impI)
  fix w :: "'a world"
  assume c: "spawnsOf k (wSpawns w) = c \<and> wFile w = F"
  obtain d s' sv' w' where run: "run_state (reconcileReplica su name ps hs s j sv) w = ((d, s', sv'), w')"
    by (metis prod.exhaust)
  from tripleD [OF visit_replica [OF assms] conjI [OF conjI [OF refl refl] refl] run]
  have "visitLeaves ps (evNow (weDeploy (suWorker su)) (wClock w)) j s (wSpawns w) (wFile w) (d, s', sv') w'" .
  with c show "case run_state (reconcileReplica su name ps hs s j sv) w of (a, w') \<Rightarrow>
      (case a of (d, s', sv') \<Rightarrow> \<lambda>w. touchesOnly j s s' \<and> (\<not> d \<longrightarrow> s' = s \<and> wFile w = F) \<and> (k \<noteq> j \<longrightarrow> spawnsOf k (wSpawns w) = c) \<and>
        (k = j \<longrightarrow> passLeaves ps k s c s' (spawnsOf k (wSpawns w)))) w'"
    unfolding run by (auto simp: visitLeaves_def passLeaves_def stableReset_def)
qed

lemma reconcileSlots_Cons:
  assumes "psMaxRestartAttempts ps > 0" and "j \<in> set (map fst (dsReplicas s))"
    and run: "run_state (reconcileSlots su name ps hs (j # slots) dirty s sv) w = ((d', s', sv'), w')"
  obtains d s1 sv1 w1 where
    "run_state (reconcileSlots su name ps hs slots (dirty \<or> d) s1 sv1) w1 = ((d', s', sv'), w')"
    and "touchesOnly j s s1" and "sameSlots s s1" and "\<not> d \<Longrightarrow> s1 = s \<and> wFile w1 = wFile w"
    and "k \<noteq> j \<Longrightarrow> spawnsOf k (wSpawns w1) = spawnsOf k (wSpawns w)"
    and "k = j \<Longrightarrow> passLeaves ps k s (spawnsOf k (wSpawns w)) s1 (spawnsOf k (wSpawns w1))"
proof -
  obtain d s1 sv1 w1 where v: "run_state (reconcileReplica su name ps hs s j sv) w = ((d, s1, sv1), w1)"
    by (metis prod.exhaust)
  note c = tripleD [OF visit_count [OF assms(1)] conjI [OF refl refl] v, of k, unfolded prod.case]
  have "run_state (reconcileSlots su name ps hs slots (dirty \<or> d) s1 sv1) w1 = ((d', s', sv'), w')"
    using run v by simp
  from that [OF this] c touchesOnly_shape [OF _ assms(2)] show ?thesis by blast
qed

lemma slots_other:
  assumes "psMaxRestartAttempts ps > 0" and "k \<notin> set slots" and "set slots \<subseteq> set (map fst (dsReplicas s))"
    and "run_state (reconcileSlots su name ps hs slots dirty s sv) w = ((d', s', sv'), w')"
  shows "spawnsOf k (wSpawns w') = spawnsOf k (wSpawns w) \<and> map_of (dsReplicas s') k = map_of (dsReplicas s) k \<and>
     sameSlots s s' \<and> (\<not> d' \<longrightarrow> \<not> dirty \<and> s' = s \<and> wFile w' = wFile w)"
  using assms(2-)
proof (induction slots arbitrary: dirty s sv w)
  case (Cons j slots)
  have j: "j \<noteq> k" "j \<in> set (map fst (dsReplicas s))" using Cons.prems by auto
  obtain d s1 sv1 w1 where rest: "run_state (reconcileSlots su name ps hs slots (dirty \<or> d) s1 sv1) w1 = ((d', s', sv'), w')"
    and one: "touchesOnly j s s1" "sameSlots s s1" "\<not> d \<Longrightarrow> s1 = s \<and> wFile w1 = wFile w"
      "spawnsOf k (wSpawns w1) = spawnsOf k (wSpawns w)"
    by (rule reconcileSlots_Cons [OF assms(1) j(2) Cons.prems(3), of k]) (use j in simp)
  have "map_of (dsReplicas s1) k = map_of (dsReplicas s) k" using one(1) j by (auto simp: touchesOnly_def)
  moreover have "k \<notin> set slots" "set slots \<subseteq> set (map fst (dsReplicas s1))"
    using one(2) Cons.prems by (auto simp: sameSlots_def)
  from Cons.IH [OF this rest] sameSlots_trans [OF one(2)]
  have "spawnsOf k (wSpawns w') = spawnsOf k (wSpawns w1)" "map_of (dsReplicas s') k = map_of (dsReplicas s1) k"
    "sameSlots s s'" "\<not> d' \<Longrightarrow> \<not> (dirty \<or> d) \<and> s' = s1 \<and> wFile w' = wFile w1" by blast+
  ultimately show ?case using one by auto
qed simp

lemma slots_pass:
  assumes "psMaxRestartAttempts ps > 0" and "distinct slots" and "set slots \<subseteq> set (map fst (dsReplicas s))"
    and "run_state (reconcileSlots su name ps hs slots dirty s sv) w = ((d', s', sv'), w')"
  shows "passLeaves ps k s (spawnsOf k (wSpawns w)) s' (spawnsOf k (wSpawns w')) \<and> sameSlots s s' \<and>
     (\<not> d' \<longrightarrow> \<not> dirty \<and> s' = s \<and> wFile w' = wFile w)"
  using assms(2-)
proof (induction slots arbitrary: dirty s sv w)
  case Nil
  then show ?case by (auto simp: passLeaves_def)
next
  case (Cons j slots)
  have j: "j \<in> set (map fst (dsReplicas s))" using Cons.prems by auto
  obtain d s1 sv1 w1 where rest: "run_state (reconcileSlots su name ps hs slots (dirty \<or> d) s1 sv1) w1 = ((d', s', sv'), w')"
    and one: "touchesOnly j s s1" "sameSlots s s1" "\<not> d \<Longrightarrow> s1 = s \<and> wFile w1 = wFile w"
      "k \<noteq> j \<Longrightarrow> spawnsOf k (wSpawns w1) = spawnsOf k (wSpawns w)"
      "k = j \<Longrightarrow> passLeaves ps k s (spawnsOf k (wSpawns w)) s1 (spawnsOf k (wSpawns w1))"
    by (rule reconcileSlots_Cons [OF assms(1) j Cons.prems(3), of k]) blast
  have sub: "distinct slots" "set slots \<subseteq> set (map fst (dsReplicas s1))"
    using one(2) Cons.prems by (auto simp: sameSlots_def)
  show ?case
  proof (cases "k = j")
    case True
    then have "k \<notin> set slots" using Cons.prems by simp
    from slots_other [OF assms(1) this sub(2) rest] sameSlots_trans [OF one(2)]
    have "spawnsOf k (wSpawns w') = spawnsOf k (wSpawns w1)" "map_of (dsReplicas s') k = map_of (dsReplicas s1) k"
      "sameSlots s s'" "\<not> d' \<Longrightarrow> \<not> (dirty \<or> d) \<and> s' = s1 \<and> wFile w' = wFile w1" by blast+
    with one(3) one(5) [OF True] show ?thesis by (auto simp: passLeaves_def)
  next
    case False
    with one(1) have "map_of (dsReplicas s1) k = map_of (dsReplicas s) k" by (auto simp: touchesOnly_def)
    moreover from Cons.IH [OF sub rest] sameSlots_trans [OF one(2)]
    have "passLeaves ps k s1 (spawnsOf k (wSpawns w1)) s' (spawnsOf k (wSpawns w'))" "sameSlots s s'"
      "\<not> d' \<Longrightarrow> \<not> (dirty \<or> d) \<and> s' = s1 \<and> wFile w' = wFile w1" by blast+
    ultimately show ?thesis using one(3) one(4) [OF False] by (auto simp: passLeaves_def)
  qed
qed

text \<open>Only a replica that has been up for the stable window gets a fresh set of attempts.\<close>

lemma counter_reset_needs_stability:
  assumes "psMaxRestartAttempts ps > 0" and "run_state (reconcileReplica su name ps hs s slot sv) w = ((d, s', sv'), w')"
    and "map_of (dsReplicas s) slot = Some i" and "map_of (dsReplicas s') slot = Some i'"
    and "\<not> stableReset (evNow (weDeploy (suWorker su)) (wClock w)) i i'"
  shows "spawnsOf slot (wSpawns w') + budget ps i' \<le> spawnsOf slot (wSpawns w) + budget ps i"
  using tripleD [OF visit_replica [OF assms(1)] conjI [OF conjI [OF refl refl] refl] assms(2)] assms(3-)
  by (auto simp: visitLeaves_def)

text \<open>One pass over the application, with the record on disk.\<close>

lemma sortedSlots_distinct:
  assumes "distinct (map (slotNumber \<circ> fst) m)"
  shows "distinct (sortedSlots m) \<and> set (sortedSlots m) \<subseteq> set (map fst m)"
proof -
  let ?nums = "map (\<lambda>(slot, _). slotNumber slot) m"
  let ?byKey = "map_of (rev (map (\<lambda>(slot, _). (slotNumber slot, slot)) m))"
  let ?f = "\<lambda>n. case ?byKey n of Some slot \<Rightarrow> slot | None \<Rightarrow> ''''"
  have found: "?f n \<in> set (map fst m) \<and> slotNumber (?f n) = n" if "n \<in> set ?nums" for n
  proof -
    have "n \<in> fst ` set (rev (map (\<lambda>(slot, _). (slotNumber slot, slot)) m))" using that by (force simp: image_iff)
    then have "?byKey n \<noteq> None" unfolding map_of_eq_None_iff by blast
    then obtain slot where slot: "?byKey n = Some slot" by blast
    from map_of_SomeD [OF this] show ?thesis using slot by force
  qed
  have "?nums = map (slotNumber \<circ> fst) m" by (simp add: comp_def case_prod_unfold)
  with assms have "distinct ?nums" by (simp only:)
  moreover have "inj_on ?f (set ?nums)" using found by (metis (no_types, lifting) inj_on_def)
  ultimately have "distinct (map ?f (sort ?nums))" by (simp add: distinct_map)
  moreover have "set (map ?f (sort ?nums)) \<subseteq> set (map fst m)" using found by auto
  ultimately show ?thesis by (simp only: sortedSlots_def Let_def)
qed

definition quiet :: "('r world, 'a) state \<Rightarrow> bool" where
  "quiet m \<longleftrightarrow> (\<forall>w. wFile (snd (run_state m w)) = wFile w \<and> wSpawns (snd (run_state m w)) = wSpawns w)"

definition onDisk :: "string \<Rightarrow> deployState \<Rightarrow> 'r world \<Rightarrow> bool" where
  "onDisk name s w \<longleftrightarrow>
     LoadState name (wFile w) = Inr s \<and> dsMode s = ModeWorker \<and> \<not> dsSecretPreparing s \<and>
     distinct (map (slotNumber \<circ> fst) (dsReplicas s))"

lemma LoadState_Inr:
  "LoadState name f = Inr s \<longleftrightarrow>
     isOk (ValidateAppName name) \<and> f = DeployFile s \<and> dsAppName s = name \<and>
     (dsMode s = '''' \<or> dsMode s = ''classic'' \<or> dsMode s = ModeBlueGreen \<or> dsMode s = ModeRolling \<or> dsMode s = ModeWorker)"
  by (auto simp: LoadState_def isOk_iff split: sum.splits deployFile.splits)

lemma onDisk_store:
  assumes "onDisk name s w" and "sameSlots s s1" and "\<And>n. evStore env n = StoreFine"
    and "run_state (storeW env s1) w1 = ((r, s2), w2)"
  shows "onDisk name s2 w2 \<and> dsReplicas s2 = dsReplicas s1 \<and> wSpawns w2 = wSpawns w1"
proof -
  have keys: "map (slotNumber \<circ> fst) (dsReplicas s1) = map (slotNumber \<circ> fst) (dsReplicas s)"
    using assms(2) unfolding sameSlots_def by (metis map_map)
  have ok: "isOk (ValidateAppName name)" "dsAppName s1 = name" "\<not> dsSecretPreparing s1" "dsMode s1 = ModeWorker"
    using assms(1,2) by (auto simp: onDisk_def sameSlots_def LoadState_Inr)
  have "\<not> isOk (ValidateAppName '''')" by code_simp
  with ok(1) have "name \<noteq> ''''" by metis
  with ok assms(3,4) have "isOk r"
    by (auto simp: storeW_def act_def Store_def isOk_iff Let_def split: sum.splits prod.splits)
  then have written: "wFile w2 = DeployFile s2" using tripleD [OF storeW_file TrueI assms(4)] ok(3) by simp
  have same: "wSpawns w2 = wSpawns w1" "dsAppName s2 = name" "dsReplicas s2 = dsReplicas s1" "dsMode s2 = ModeWorker"
    "\<not> dsSecretPreparing s2"
    using tripleD [OF storeW_spawns [of "wSpawns w1" env s1] refl assms(4)] ok by (auto simp: sameRecord_def)
  have "distinct (map (slotNumber \<circ> fst) (dsReplicas s2))"
    using assms(1) unfolding onDisk_def same(3) keys by blast
  then show ?thesis unfolding onDisk_def LoadState_Inr using written same ok(1) by blast
qed

lemma passLeaves_cong: "dsReplicas s2 = dsReplicas s1 \<Longrightarrow> passLeaves ps k s c s1 c' \<Longrightarrow> passLeaves ps k s c s2 c'"
  by (simp add: passLeaves_def)

lemma app_pass:
  assumes "psMaxRestartAttempts ps > 0" and "\<And>n. evStore (weDeploy (suWorker su)) n = StoreFine" and "quiet recover"
    and disk: "onDisk name s (w :: 'a world)"
    and run: "run_state (reconcileApp su lock recover (Some (ps, hs)) name sv) w = (sv', w')"
  shows "\<exists>s'. onDisk name s' w' \<and> passLeaves ps k s (spawnsOf k (wSpawns w)) s' (spawnsOf k (wSpawns w'))"
proof (cases "lock = LockFree")
  case False
  with run disk show ?thesis by (auto simp: reconcileApp_def passLeaves_def intro!: exI [of _ s])
next
  case True
  obtain rec w1 where rec: "run_state recover w = (rec, w1)" by fastforce
  with assms(3) have w1: "wFile w1 = wFile w" "wSpawns w1 = wSpawns w" unfolding quiet_def by (metis snd_conv)+
  have load: "LoadState name (wFile w) = Inr s" "dsMode s = ModeWorker" using disk by (simp_all add: onDisk_def)
  show ?thesis
  proof (cases rec)
    case False
    with run True rec load w1 have "w' = w1" by (simp add: reconcileApp_def look_def)
    then show ?thesis using disk w1 by (auto simp: passLeaves_def onDisk_def intro!: exI [of _ s])
  next
    case rec': True
    obtain d s1 sv1 w2 where slots: "run_state (reconcileSlots su name ps hs (sortedSlots (dsReplicas s)) False s sv) w1 = ((d, s1, sv1), w2)"
      by (metis prod.exhaust)
    have "distinct (sortedSlots (dsReplicas s))" "set (sortedSlots (dsReplicas s)) \<subseteq> set (map fst (dsReplicas s))"
      using sortedSlots_distinct disk by (simp_all add: onDisk_def)
    from slots_pass [OF assms(1) this slots, of k] w1
    have s1: "passLeaves ps k s (spawnsOf k (wSpawns w)) s1 (spawnsOf k (wSpawns w2))" "sameSlots s s1"
      "\<not> d \<Longrightarrow> s1 = s \<and> wFile w2 = wFile w" by auto
    show ?thesis
    proof (cases d)
      case True
      obtain r s2 w3 where st: "run_state (storeW (weDeploy (suWorker su)) s1) w2 = ((r, s2), w3)" by (metis prod.exhaust)
      with run \<open>lock = LockFree\<close> rec rec' load w1 slots True have "w' = w3" by (simp add: reconcileApp_def look_def)
      moreover note onDisk_store [OF disk s1(2) assms(2) st]
      ultimately show ?thesis using passLeaves_cong [OF _ s1(1), of s2] by auto
    next
      case False
      with run \<open>lock = LockFree\<close> rec rec' load w1 slots have "w' = w2" by (simp add: reconcileApp_def look_def)
      then show ?thesis using s1 disk False by (auto simp: onDisk_def)
    qed
  qed
qed

text \<open>
  A run of the supervisor over an application whose replica \<open>slot\<close> keeps crashing: between two passes
  anything may happen to the processes, the clock and the proxy, but the record is left to the
  supervisor; the lock may be busy in any pass; and no pass lowers the restart counter of the replica.
\<close>

definition restartsIn :: "string \<Rightarrow> deployFile \<Rightarrow> int" where
  "restartsIn slot f =
     (case f of
        DeployFile s \<Rightarrow> (case map_of (dsReplicas s) slot of Some i \<Rightarrow> inRestartCount i | None \<Rightarrow> 0)
      | _ \<Rightarrow> 0)"

inductive crashLooping ::
    "supervisorEnv \<Rightarrow> processSettings \<Rightarrow> workerHealth \<Rightarrow> string \<Rightarrow> string \<Rightarrow> 'r world \<times> supervisor \<Rightarrow> 'r world \<times> supervisor \<Rightarrow> bool"
  for su ps hs name slot where
  start: "crashLooping su ps hs name slot st st"
| pass: "crashLooping su ps hs name slot st (w, sv) \<Longrightarrow> wFile w1 = wFile w \<Longrightarrow> wSpawns w1 = wSpawns w \<Longrightarrow>
     quiet recover \<Longrightarrow> run_state (reconcileApp su lock recover (Some (ps, hs)) name sv) w1 = (sv', w') \<Longrightarrow>
     restartsIn slot (wFile w) \<le> restartsIn slot (wFile w') \<Longrightarrow>
     crashLooping su ps hs name slot st (w', sv')"

lemma crashLooping_budget:
  assumes "crashLooping su ps hs name slot (w0 :: 'a world, sv0) (w, sv)"
    and "psMaxRestartAttempts ps > 0" and "\<And>n. evStore (weDeploy (suWorker su)) n = StoreFine"
    and "onDisk name s0 w0" and "map_of (dsReplicas s0) slot = Some i0"
  shows "\<exists>s i. onDisk name s w \<and> map_of (dsReplicas s) slot = Some i \<and>
           spawnsOf slot (wSpawns w) + budget ps i \<le> spawnsOf slot (wSpawns w0) + budget ps i0"
  using assms(1)
proof (induction "(w0, sv0)" "(w, sv)" arbitrary: w sv rule: crashLooping.induct)
  case start
  then show ?case using assms(4,5) by auto
next
  case (pass w sv w1 recover lock sv' w')
  obtain s i where s: "onDisk name s w" "map_of (dsReplicas s) slot = Some i"
    "spawnsOf slot (wSpawns w) + budget ps i \<le> spawnsOf slot (wSpawns w0) + budget ps i0"
    using pass.hyps(2) by blast
  have "onDisk name s w1" using s(1) pass.hyps(3) by (simp add: onDisk_def)
  from app_pass [OF assms(2,3) pass.hyps(5) this pass.hyps(6), of slot] pass.hyps(4) s(2)
  obtain s' i' where s': "onDisk name s' w'" "map_of (dsReplicas s') slot = Some i'"
    "inRestartCount i' < inRestartCount i \<or>
     spawnsOf slot (wSpawns w') + budget ps i' \<le> spawnsOf slot (wSpawns w) + budget ps i"
    by (auto simp: passLeaves_def)
  have "restartsIn slot (wFile w) = inRestartCount i" "restartsIn slot (wFile w') = inRestartCount i'"
    using s(1,2) s'(1,2) by (auto simp: restartsIn_def onDisk_def LoadState_Inr)
  with pass.hyps(7) s'(3) s(3) have
    "spawnsOf slot (wSpawns w') + budget ps i' \<le> spawnsOf slot (wSpawns w0) + budget ps i0" by linarith
  with s'(1,2) show ?case by blast
qed

text \<open>
  C12: A crash loop is bounded.  Over any run of passes, whatever the processes do in between, whatever
  the policy and the probes report, a replica whose counter is never reset is started at most as often as
  it has attempts left, and once more if a restart was already due; a replica that is completed, failed
  or in a crash loop is never started again.  Every write is assumed to succeed: the counter lives in the
  record.
\<close>
theorem crash_loop_bounded:
  assumes "crashLooping su ps hs name slot (w0, sv0) (w, sv)"
    and "psMaxRestartAttempts ps > 0" and "\<And>n. evStore (weDeploy (suWorker su)) n = StoreFine"
    and "onDisk name s0 w0" and "map_of (dsReplicas s0) slot = Some i0"
  shows "spawnsOf slot (wSpawns w) \<le>
           spawnsOf slot (wSpawns w0) + nat (psMaxRestartAttempts ps - inRestartCount i0) + 1 \<and>
         (inStatus i0 = ''running'' \<or> inStatus i0 = ''starting'' \<longrightarrow>
            spawnsOf slot (wSpawns w) \<le> spawnsOf slot (wSpawns w0) + nat (psMaxRestartAttempts ps - inRestartCount i0)) \<and>
         (inStatus i0 = ''crashloop'' \<or> inStatus i0 = ''failed'' \<or> inStatus i0 = ''completed'' \<longrightarrow>
            spawnsOf slot (wSpawns w) \<le> spawnsOf slot (wSpawns w0))"
  using crashLooping_budget [OF assms] by (auto simp: budget_def split: if_splits)

definition demoSpawn :: spawnIO where
  "demoSpawn =
     \<lparr>spLimits = True, spStat = True, spLog = Inr (), spDrain = Inr (),
      spStart = (\<lambda>sys bin _. if osProcs sys 77 = None then Some (77, \<lparr>prTicks = 5, prExe = bin, prPort = 0\<rparr>) else None)\<rparr>"

definition demoWE :: workerEnvironment where
  "demoWE =
     \<lparr>weDeploy = calmEnv, weSpawn = (\<lambda>_. demoSpawn), weEnviron = [], weOverlay = (\<lambda>_. Inr []),
      weSecretEnvNames = (\<lambda>_. []), weErrorText = code_String\<rparr>"

definition demoSU :: supervisorEnv where
  "demoSU =
     \<lparr>suWorker = demoWE, suWaited = (\<lambda>_ _. Some (Some (WaitExit 1 ''exit status 1''))), suStopped = (\<lambda>_. None),
      suRand = (\<lambda>_. 0), suProbed = (\<lambda>_ _. None), suCredentials = (\<lambda>_ _. True)\<rparr>"

definition demoCrashed :: inst where
  "demoCrashed = (emptyInst ''0'')\<lparr>inPID := 7, inBinaryPath := ''/srv/jobs/v1'', inStatus := ''running'', inRestartCount := 2\<rparr>"

definition demoWorkerState :: deployState where
  "demoWorkerState = (initState ''jobs'' ModeWorker 0)\<lparr>dsReplicas := [(''0'', demoCrashed)]\<rparr>"

definition demoWorkerWorld :: "unit world" where
  "demoWorkerWorld = demoWorld\<lparr>wOs := \<lparr>osProcs = Map.empty, osContainers = Map.empty, osDockerUp = False\<rparr>,
                               wFile := DeployFile demoWorkerState\<rparr>"

definition demoSV :: supervisor where
  "demoSV = \<lparr>svHandles = Map.empty, svProbes = Map.empty, svProbeFails = Map.empty, svNextProbe = Map.empty\<rparr>"

definition demoPass :: "(unit world, supervisor) state" where
  "demoPass = reconcileApp demoSU LockFree (State_Monad.return True) (Some (defaultProcess, ResolveWorker (\<lambda>_. None) None)) ''jobs'' demoSV"

theorem crash_loop_bounded_witness:
  "\<exists>w sv. crashLooping demoSU defaultProcess (ResolveWorker (\<lambda>_. None) None) ''jobs'' ''0''
            (demoWorkerWorld, demoSV) (w, sv) \<and>
          restartsIn ''0'' (wFile w) = 3 \<and> spawnsOf ''0'' (wSpawns w) \<le> 8"
proof -
  obtain sv w where run: "run_state demoPass demoWorkerWorld = (sv, w)" by fastforce
  have "isOk (ValidateAppName ''jobs'')" by code_simp
  then have load: "LoadState ''jobs'' (wFile demoWorkerWorld) = Inr demoWorkerState"
    by (simp add: LoadState_Inr demoWorkerWorld_def demoWorkerState_def initState_def ModeWorker_def)
  have slots: "sortedSlots (dsReplicas demoWorkerState) = [''0'']" by code_simp
  have dead: "\<not> WorkerInstanceAlive lk (wOs demoWorkerWorld) demoCrashed" for lk
    by (simp add: WorkerInstanceAlive_def matchesIdentity_def processIdentityOf_def demoWorkerWorld_def)
  have fields: "inStatus demoCrashed = ''running''" "map_of (dsReplicas demoWorkerState) ''0'' = Some demoCrashed"
    "dsMode demoWorkerState = ModeWorker" by code_simp+
  let ?out = "finishExit defaultProcess 0 (''jobs'', ''0'') None False demoCrashed demoSV"
  let ?s1 = "withReplica ''0'' (fst ?out) demoWorkerState"
  have world: "wClock demoWorkerWorld = 0" "svHandles demoSV key = None" "suWorker demoSU = demoWE" "weDeploy demoWE = calmEnv"
    "evNow calmEnv 0 = 0" "dsMode demoWorkerState = ModeWorker" for key
    by (simp_all add: demoWorkerWorld_def demoWorld_def demoSV_def demoSU_def demoWE_def calmEnv_def demoWorkerState_def initState_def)
  have "run_state (reconcileReplica demoSU ''jobs'' defaultProcess hs demoWorkerState ''0'' demoSV) demoWorkerWorld =
      ((True, ?s1, snd ?out), demoWorkerWorld)" for hs
  proof -
    obtain i1 sv1 where out: "?out = (i1, sv1)" by fastforce
    show ?thesis
      using dead by (simp add: reconcileReplica_def nowW_def look_def world fields reapHandle_def reconcileRunning_def changed_def out Let_def)
  qed
  then have "run_state demoPass demoWorkerWorld =
      (snd ?out, snd (run_state (storeW calmEnv ?s1) demoWorkerWorld))"
    by (simp add: demoPass_def reconcileApp_def look_def load slots world case_prod_unfold)
  moreover have "restartsIn ''0'' (wFile (snd (run_state (storeW calmEnv ?s1) demoWorkerWorld))) = 3"
  proof -
    obtain r s2 w2 where st: "run_state (storeW calmEnv ?s1) demoWorkerWorld = ((r, s2), w2)" by (metis prod.exhaust)
    have "sameSlots demoWorkerState ?s1" by code_simp
    moreover have "evStore calmEnv n = StoreFine" for n by (simp add: calmEnv_def)
    moreover have "distinct (map (slotNumber \<circ> fst) (dsReplicas demoWorkerState))" "\<not> dsSecretPreparing demoWorkerState" by code_simp+
    with load fields have "onDisk ''jobs'' demoWorkerState demoWorkerWorld" by (simp add: onDisk_def)
    ultimately have "onDisk ''jobs'' s2 w2 \<and> dsReplicas s2 = dsReplicas ?s1" using onDisk_store st by blast
    moreover have "inRestartCount (fst ?out) = 3" by code_simp
    ultimately show ?thesis by (auto simp: st onDisk_def LoadState_Inr restartsIn_def)
  qed
  ultimately have three: "restartsIn ''0'' (wFile w) = 3" using run by simp
  have "distinct (map (slotNumber \<circ> fst) (dsReplicas demoWorkerState))" "\<not> dsSecretPreparing demoWorkerState" by code_simp+
  with load fields have disk: "onDisk ''jobs'' demoWorkerState demoWorkerWorld" by (simp add: onDisk_def)
  note i0 = fields(2)
  have "inRestartCount demoCrashed = 2" by code_simp
  with load i0 have two: "restartsIn ''0'' (wFile demoWorkerWorld) = 2" by (auto simp: LoadState_Inr restartsIn_def)
  have rest: "psMaxRestartAttempts defaultProcess = 10" "inRestartCount demoCrashed = 2" "inStatus demoCrashed = ''running''"
    "spawnsOf ''0'' (wSpawns demoWorkerWorld) = 0"
    by (simp_all add: defaultProcess_def demoCrashed_def spawnsOf_def demoWorkerWorld_def demoWorld_def)
  have fine: "\<And>n. evStore (weDeploy (suWorker demoSU)) n = StoreFine" by (simp add: demoSU_def demoWE_def calmEnv_def)
  have loop: "crashLooping demoSU defaultProcess (ResolveWorker (\<lambda>_. None) None) ''jobs'' ''0'' (demoWorkerWorld, demoSV) (w, sv)"
    by (rule crashLooping.pass [OF crashLooping.start refl refl _ run [unfolded demoPass_def]])
      (simp_all add: quiet_def three two)
  from crash_loop_bounded [OF loop _ fine disk i0] rest have "spawnsOf ''0'' (wSpawns w) \<le> 8" by simp
  with loop three show ?thesis by blast
qed

section \<open>Starts and handles\<close>

lemma failLive_spawns: "triple (\<lambda>w. wSpawns w = L) (failLive su ps key reason i sv) (\<lambda>_ w. wSpawns w = L)"
  unfolding failLive_def nowW_def Let_def
  by (rule triple_bind [OF stopLive_spawns], intro triple_pair triple_look triple_drop triple_return)

lemma starting_spawns: "triple (\<lambda>w. wSpawns w = L)
    (reconcileStarting su ps hs key alive waitErr reaped now s slot i sv) (\<lambda>_ w. wSpawns w = L)"
  unfolding reconcileStarting_def
  by (intro triple_if triple_pair triple_look triple_drop triple_return triple_bind [OF failLive_spawns])

lemma running_spawns: "triple (\<lambda>w. wSpawns w = L)
    (reconcileRunning su ps hs key alive waitErr reaped now s slot i sv) (\<lambda>_ w. wSpawns w = L)"
  unfolding reconcileRunning_def Let_def
  by (intro triple_if triple_pair triple_look triple_drop triple_return triple_option triple_bind [OF failLive_spawns])

lemma restarting_waits:
  assumes "alive \<or> (\<forall>r. now < inLastRestartAt i + restartDelay ps r i)"
  shows "triple (\<lambda>w. wSpawns w = L) (reconcileRestarting su ps key alive now s slot i sv) (\<lambda>_ w. wSpawns w = L)"
  unfolding reconcileRestarting_def
  by (intro triple_if triple_look triple_drop triple_return) (use assms in auto)

lemma restarting_starts:
  "triple (\<lambda>w :: 'a world. wSpawns w = L) (reconcileRestarting su ps key alive now s slot i sv)
     (\<lambda>_ w. wSpawns w = L \<or> (\<exists>pid. wSpawns w = L @ [(slot, pid)]))"
proof -
  have launch: "triple (\<lambda>w :: 'a world. wSpawns w = L) (launchWorkerReplica we ov persist s slot)
      (\<lambda>_ w. wSpawns w = L \<or> (\<exists>pid. wSpawns w = L @ [(slot, pid)]))" for we ov persist
  proof (rule triple_post [OF launchWorkerReplica_leaves])
    fix out and w :: "'a world"
    assume "launchLeaves slot s L out w"
    then show "wSpawns w = L \<or> (\<exists>pid. wSpawns w = L @ [(slot, pid)])"
      by (cases "fst out") (auto simp: launchLeaves_def split: prod.splits)
  qed
  show ?thesis
    unfolding reconcileRestarting_def LaunchWorkerReplica_def Let_def
    by (intro triple_if triple_look triple_drop triple_return triple_bind [OF launch] triple_pair triple_sum) auto
qed

text \<open>
  The handle of a replica, if it has one, is of the process the record names, and its wait ends only when
  that process is gone.
\<close>

definition handleFits :: "supervisorEnv \<Rightarrow> replicaKey \<Rightarrow> inst \<Rightarrow> supervisor \<Rightarrow> 'r world \<Rightarrow> bool" where
  "handleFits su key i sv w \<longleftrightarrow>
     (case svHandles sv key of
        None \<Rightarrow> True
      | Some pid \<Rightarrow> pid = inPID i \<and> (suWaited su (wClock w) key \<noteq> None \<longrightarrow> osProcs (wOs w) pid = None))"

text \<open>
  C13: A replica is started only in place of a dead one.  A visit that starts a process finds the replica
  waiting for its restart with the backoff elapsed and, provided the handle is of the recorded process, the
  recorded process gone; it starts exactly one process or none.
\<close>
theorem replica_started_in_place_of_dead:
  assumes "run_state (reconcileReplica su name ps hs s slot sv) w = ((d, s', sv'), w')"
    and "wSpawns w' \<noteq> wSpawns w"
  shows "\<exists>i pid. map_of (dsReplicas s) slot = Some i \<and> inStatus i = ''restarting'' \<and>
     wSpawns w' = wSpawns w @ [(slot, pid)] \<and>
     (\<exists>r. evNow (weDeploy (suWorker su)) (wClock w) \<ge> inLastRestartAt i + restartDelay ps r i) \<and>
     (handleFits su (name, slot) i sv w \<longrightarrow>
        \<not> WorkerInstanceAlive (evLinks (weDeploy (suWorker su))) (wOs w) i)"
proof (cases "map_of (dsReplicas s) slot")
  case None
  with assms show ?thesis by (auto simp: reconcileReplica_def)
next
  case (Some i)
  let ?now = "evNow (weDeploy (suWorker su)) (wClock w)"
  let ?key = "(name, slot)"
  obtain waitErr reaped sv1 where reap: "reapHandle su (wClock w) ?key sv = ((waitErr, reaped), sv1)" by (metis prod.exhaust)
  let ?matched = "WorkerInstanceAlive (evLinks (weDeploy (suWorker su))) (wOs w) i"
  let ?alive = "\<not> reaped \<and> ?matched"
  have st: "inStatus i = ''restarting''"
  proof (rule ccontr)
    assume "inStatus i \<noteq> ''restarting''"
    with assms(1) Some reap have "wSpawns w' = wSpawns w"
      using tripleD [OF starting_spawns [of "wSpawns w" su ps hs ?key ?alive waitErr reaped ?now s slot i sv1] refl]
        tripleD [OF running_spawns [of "wSpawns w" su ps hs ?key ?alive waitErr reaped ?now s slot i sv1] refl]
      by (auto simp: reconcileReplica_def nowW_def look_def Let_def split: if_splits prod.splits)
    with assms(2) show False by simp
  qed
  with assms(1) Some reap have run: "run_state (reconcileRestarting su ps ?key ?alive ?now s slot i sv1) w = ((d, s', sv'), w')"
    by (simp add: reconcileReplica_def nowW_def look_def Let_def)
  have due: "\<not> ?alive" "\<exists>r. ?now \<ge> inLastRestartAt i + restartDelay ps r i"
    using tripleD [OF restarting_waits [of ?alive ?now i ps "wSpawns w" su ?key s slot sv1] refl run] assms(2)
    by (force simp: not_less)+
  have "\<exists>pid. wSpawns w' = wSpawns w @ [(slot, pid)]"
    using tripleD [OF restarting_starts refl run] assms(2) by auto
  moreover have "\<not> ?matched" if "handleFits su ?key i sv w"
  proof (cases reaped)
    case True
    with reap obtain pid where "svHandles sv ?key = Some pid" "suWaited su (wClock w) ?key \<noteq> None"
      by (auto simp: reapHandle_def split: option.splits)
    with that have "osProcs (wOs w) (inPID i) = None" by (auto simp: handleFits_def)
    then show ?thesis by (simp add: WorkerInstanceAlive_def matchesIdentity_def processIdentityOf_def)
  qed (use due(1) in simp)
  ultimately show ?thesis using Some st due(2) by blast
qed

definition demoDueSU :: supervisorEnv where
  "demoDueSU = demoSU\<lparr>suWorker := demoWE\<lparr>weDeploy := calmEnv\<lparr>evNow := \<lambda>_. 100 * second\<rparr>\<rparr>\<rparr>"

definition demoDue :: inst where
  "demoDue = demoCrashed\<lparr>inStatus := ''restarting''\<rparr>"

lemma demoDue_runs:
  assumes "run_state (reconcileReplica demoDueSU ''jobs'' defaultProcess hs (withReplica ''0'' demoDue demoWorkerState) ''0'' demoSV)
             demoWorkerWorld = ((d, s', sv'), w')"
  shows "wSpawns w' = [(''0'', 77)]"
proof -
  let ?s = "withReplica ''0'' demoDue demoWorkerState"
  let ?env = "weDeploy (suWorker demoDueSU)"
  obtain sys where os: "wOs demoWorkerWorld = sys" and empty: "osProcs sys = Map.empty"
    by (simp add: demoWorkerWorld_def)
  have world: "svHandles demoSV key = None" "evNow ?env n = 100 * second" "suWorker demoDueSU = demoWE\<lparr>weDeploy := ?env\<rparr>"
    "wSpawns demoWorkerWorld = []" for key n
    by (simp_all add: demoWorkerWorld_def demoWorld_def demoSV_def demoDueSU_def demoSU_def)
  have due: "inStatus demoDue = ''restarting''" "inLastRestartAt demoDue = 0" "inEnvPath demoDue = ''''"
    "inBinaryPath demoDue = ''/srv/jobs/v1''" by code_simp+
  have "sensible defaultProcess" by (simp add: sensible_def defaultProcess_def second_def)
  note d = Backoff_bounds [of "psBackoffMultiplier defaultProcess" "psBackoffInitial defaultProcess" "psBackoffMax defaultProcess"]
  have delay: "\<not> 100 * second < restartDelay defaultProcess r demoDue" for r
  proof -
    let ?d = "Backoff (psBackoffInitial defaultProcess) (psBackoffMax defaultProcess) (psBackoffMultiplier defaultProcess)
       (max 0 (inRestartCount demoDue - 1))"
    have "0 < ?d" "?d \<le> psBackoffMax defaultProcess" using d \<open>sensible defaultProcess\<close> by (simp_all add: sensible_def)
    moreover have "psBackoffMax defaultProcess = 60 * second" by (simp add: defaultProcess_def)
    ultimately have "5 * restartDelay defaultProcess r demoDue \<le> 6 * (60 * second)"
      using ApplyJitter_bounds(2) [of ?d "r * 2 * JitterFactor - JitterFactor"] by (simp add: restartDelay_def Let_def)
    then show ?thesis by (simp add: second_def)
  qed
  have spawn: "run_state (spawnW (suWorker demoDueSU) ''/srv/jobs/v1'' [] ''0'') demoWorkerWorld =
      (Inr \<lparr>piPID = 77, piStartTime = 5, piExePath = ''/srv/jobs/v1''\<rparr>, w1)
      \<Longrightarrow> wSpawns w1 = [(''0'', 77)]" for w1
    using tripleD [OF spawnW_spawns [of "[]" "suWorker demoDueSU" "''/srv/jobs/v1''" "[]" "''0''"], of demoWorkerWorld] world(4) by fastforce
  have "fst (run_state (spawnW (suWorker demoDueSU) ''/srv/jobs/v1'' [] ''0'') demoWorkerWorld) =
      Inr \<lparr>piPID = 77, piStartTime = 5, piExePath = ''/srv/jobs/v1''\<rparr>"
    by (simp add: spawnW_def act_def demoDueSU_def demoWE_def demoSpawn_def WorkerLauncherForApp_def launchWorkerInstance_def
        processIdentityOf_def Let_def os empty)
  then obtain w1 where w1: "run_state (spawnW (suWorker demoDueSU) ''/srv/jobs/v1'' [] ''0'') demoWorkerWorld =
      (Inr \<lparr>piPID = 77, piStartTime = 5, piExePath = ''/srv/jobs/v1''\<rparr>, w1)" by (metis prod.collapse)
  have after: "triple (\<lambda>w :: unit world. wSpawns w = L) (markAndCheck we persist slot found s1) (\<lambda>_ w. wSpawns w = L)"
    for L we slot found persist s1
    unfolding markAndCheck_def
    by (rule triple_bind [OF triple_post [OF markWorkerLaunched_leaves, where Q' = "\<lambda>_ w. wSpawns w = L"]])
      (auto split: prod.splits sum.splits intro!: triple_return triple_bind [OF stopWorkerW_spawns])
  have launch: "wSpawns w2 = [(''0'', 77)]"
    if "run_state (LaunchWorkerReplica (suWorker demoDueSU) ?s ''0'') demoWorkerWorld = (out, w2)" for out w2
  proof -
    have ov: "weOverlay (suWorker demoDueSU) '''' = Inr []" by (simp add: demoDueSU_def demoWE_def)
    from that w1 obtain s1 where "run_state (markAndCheck (suWorker demoDueSU) True ''0''
        \<lparr>piPID = 77, piStartTime = 5, piExePath = ''/srv/jobs/v1''\<rparr> s1) w1 = (out, w2)"
      by (auto simp: LaunchWorkerReplica_def launchWorkerReplica_def Let_def due ov)
    from tripleD [OF after spawn [OF w1] this] show ?thesis .
  qed
  have dead: "\<not> WorkerInstanceAlive lk sys i" for lk i
    by (simp add: WorkerInstanceAlive_def matchesIdentity_def processIdentityOf_def empty)
  obtain r s1 w2 where launched: "run_state (LaunchWorkerReplica (suWorker demoDueSU) ?s ''0'') demoWorkerWorld = ((r, s1), w2)"
    by (metis prod.exhaust)
  have "w' = w2"
    using assms launched dead delay due
    by (cases r) (auto simp: reconcileReplica_def nowW_def look_def Let_def world(1,2) os reapHandle_def reconcileRestarting_def changed_def)
  then show ?thesis using launch [OF launched] by simp
qed

theorem replica_started_in_place_of_dead_witness:
  "\<exists>out w'. run_state (reconcileReplica demoDueSU ''jobs'' defaultProcess (ResolveWorker (\<lambda>_. None) None)
        (withReplica ''0'' demoDue demoWorkerState) ''0'' demoSV) demoWorkerWorld = (out, w') \<and>
      wSpawns w' = [(''0'', 77)] \<and>
      (\<exists>r. evNow (weDeploy (suWorker demoDueSU)) (wClock demoWorkerWorld) \<ge>
           inLastRestartAt demoDue + restartDelay defaultProcess r demoDue)"
proof -
  obtain d s' sv' w' where run: "run_state (reconcileReplica demoDueSU ''jobs'' defaultProcess (ResolveWorker (\<lambda>_. None) None)
      (withReplica ''0'' demoDue demoWorkerState) ''0'' demoSV) demoWorkerWorld = ((d, s', sv'), w')" by (metis prod.exhaust)
  have sp: "wSpawns w' = [(''0'', 77)]" by (rule demoDue_runs [OF run])
  moreover have "wSpawns demoWorkerWorld = []" by (simp add: demoWorkerWorld_def demoWorld_def)
  ultimately have "wSpawns w' \<noteq> wSpawns demoWorkerWorld" by simp
  from replica_started_in_place_of_dead [OF run this] have
    "\<exists>r. evNow (weDeploy (suWorker demoDueSU)) (wClock demoWorkerWorld) \<ge> inLastRestartAt demoDue + restartDelay defaultProcess r demoDue"
    by auto
  with run sp show ?thesis by blast
qed

text \<open>
  C40: A stale handle ends a live replica.  When a command has replaced the process of a replica the
  supervisor had started, the wait on the old process ends, and the next visit takes that exit for the
  exit of the new one: under the default policy a clean exit marks the replica completed while its
  process runs, and no later visit looks after it again.
\<close>
theorem stale_handle_ends_live_replica:
  assumes "map_of (dsReplicas s) slot = Some i" and "inStatus i = ''running''"
    and "svHandles sv (name, slot) = Some old" and "suWaited su (wClock (w :: 'a world)) (name, slot) = Some None"
    and "WorkerInstanceAlive (evLinks (weDeploy (suWorker su))) (wOs w) i" and "psRestartPolicy ps = ''on-failure''"
  shows "\<exists>i' sv'. run_state (reconcileReplica su name ps hs s slot sv) w = ((True, withReplica slot i' s, sv'), w) \<and>
     inStatus i' = ''completed'' \<and> WorkerInstanceAlive (evLinks (weDeploy (suWorker su))) (wOs w) i' \<and>
     (\<forall>(w2 :: 'a world) sv2. \<exists>sv3. run_state (reconcileReplica su name ps hs (withReplica slot i' s) slot sv2) w2 =
        ((False, withReplica slot i' s, sv3), w2))"
proof -
  let ?now = "evNow (weDeploy (suWorker su)) (wClock w)"
  let ?i = "(RecordInstanceExit ?now None False i)\<lparr>inStatus := ''completed''\<rparr>"
  let ?sv = "clearProbes (name, slot) (dropHandle (name, slot) (dropHandle (name, slot) sv))"
  have run: "run_state (reconcileReplica su name ps hs s slot sv) w = ((True, withReplica slot ?i s, ?sv), w)"
    using assms by (simp add: reconcileReplica_def nowW_def look_def Let_def reapHandle_def reconcileRunning_def changed_def
        finishExit_def recordExit_def applyPolicy_def Evaluate_def RecordInstanceExit_def)
  have "run_state (reconcileReplica su name ps hs (withReplica slot ?i s) slot sv2) w2 =
        ((False, withReplica slot ?i s,
          (case reapHandle su (wClock w2) (name, slot) sv2 of ((_, reaped), sv3) \<Rightarrow>
             if \<not> reaped \<and> WorkerInstanceAlive (evLinks (weDeploy (suWorker su))) (wOs w2) ?i then sv3
             else clearProbes (name, slot) (dropHandle (name, slot) sv3))), w2)" for w2 :: "'a world" and sv2
    by (simp add: reconcileReplica_def nowW_def look_def Let_def split: prod.split)
  moreover have "WorkerInstanceAlive (evLinks (weDeploy (suWorker su))) (wOs w) ?i"
    using assms(5) by (auto simp: WorkerInstanceAlive_def RecordInstanceExit_def split: if_splits)
  moreover have "inStatus ?i = ''completed''" by simp
  ultimately show ?thesis using run by blast
qed

theorem stale_handle_ends_live_replica_witness:
  "\<exists>i' sv'. run_state (reconcileReplica (demoSU\<lparr>suWaited := \<lambda>_ _. Some None\<rparr>) ''jobs'' defaultProcess
        (ResolveWorker (\<lambda>_. None) None) (withReplica ''0'' (demoCrashed\<lparr>inBinaryPath := ''/srv/web/v2''\<rparr>) demoWorkerState) ''0''
        (demoSV\<lparr>svHandles := [(''jobs'', ''0'') \<mapsto> 6]\<rparr>)) demoWorld =
      ((True, withReplica ''0'' i' (withReplica ''0'' (demoCrashed\<lparr>inBinaryPath := ''/srv/web/v2''\<rparr>) demoWorkerState), sv'), demoWorld) \<and>
      inStatus i' = ''completed'' \<and> osProcs (wOs demoWorld) (inPID demoCrashed) \<noteq> None"
proof -
  let ?i = "demoCrashed\<lparr>inBinaryPath := ''/srv/web/v2''\<rparr>"
  have "cleanPath (trimSuffix '' (deleted)'' ''/srv/web/v2'') = cleanPath (trimSuffix '' (deleted)'' ''/srv/web/v2'')" by simp
  then have "WorkerInstanceAlive lk (wOs demoWorld) ?i" for lk
    by (simp add: WorkerInstanceAlive_def matchesIdentity_def processIdentityOf_def demoWorld_def demoCrashed_def emptyInst_def
        sameExe_def Let_def)
  from stale_handle_ends_live_replica [of "withReplica ''0'' ?i demoWorkerState" "''0''" ?i
      "demoSV\<lparr>svHandles := [(''jobs'', ''0'') \<mapsto> 6]\<rparr>" "''jobs''" 6 "demoSU\<lparr>suWaited := \<lambda>_ _. Some None\<rparr>" demoWorld
      defaultProcess "ResolveWorker (\<lambda>_. None) None"] this
  show ?thesis by (auto simp: demoCrashed_def defaultProcess_def demoWorld_def)
qed

end
