(* ===== verification/Worker.thy ===== *)
theory Worker
  imports WorkerOps Supervisor
begin

text \<open>
  Deployments of workers (\<open>internal/deploy/worker.go\<close>) without secret bindings: the startup gate, the
  rolling and the classic replacement, the journal of a rollout, its revert and the recovery of an
  interrupted one.  The journal is the one in the deployment record, which every write persists with it.
  Locks, the recovery of secret transactions and the build are arguments; telemetry is left out.
\<close>

section \<open>The program\<close>

text \<open>One turn of the exec gate: the process may have exited, the probe runs, the context may end, time passes.\<close>

record gatePoll =
  gpExited :: bool
  gpProbe :: probeRun
  gpCancelled :: bool
  gpNow :: int

record 'r worker =
  wkAppName :: string
  wkAppID :: string
  wkBuild :: "'r appStore \<Rightarrow> (code, string \<times> string \<times> int) result \<times> 'r appStore"
  wkStrategy :: string
  wkReplicas :: int
  wkGateMode :: string
  wkGateCommand :: "string list"
  wkGateTimeoutText :: string
  wkRedact :: "string \<Rightarrow> string"
  wkStartupTimeout :: int
  wkGatePolls :: "nat \<Rightarrow> nat \<Rightarrow> gatePoll"
  wkVersionPaths :: "int \<Rightarrow> bool \<Rightarrow> string \<times> string"

definition startupTimeout :: "'r worker \<Rightarrow> int" where
  "startupTimeout wk = (if wkStartupTimeout wk > 0 then wkStartupTimeout wk else 30 * second)"

definition gatePause :: int where
  "gatePause = 500000000"

datatype gateResult = GateReady | GateExited | GateCancelled | GateTimedOut

fun gateLoop :: "'r worker \<Rightarrow> nat \<Rightarrow> int \<Rightarrow> (nat \<Rightarrow> gatePoll) \<Rightarrow> nat \<Rightarrow> gateResult option" where
  "gateLoop wk 0 deadline polls k = None"
| "gateLoop wk (Suc fuel) deadline polls k =
     (if gpExited (polls k) then Some GateExited
      else if poOK (RunProbe (wkRedact wk) (wkGateCommand wk) (wkGateTimeoutText wk) (gpProbe (polls k))) then Some GateReady
      else if gpCancelled (polls k) then Some GateCancelled
      else if gpNow (polls k) > deadline then Some GateTimedOut
      else gateLoop wk fuel deadline polls (Suc k))"

definition gateFuel :: "'r worker \<Rightarrow> nat" where
  "gateFuel wk = nat (startupTimeout wk div gatePause) + 2"

text \<open>The gate of one instance; a process that exits on the way is gone afterwards.\<close>

definition waitForReady :: "'r worker \<Rightarrow> deployEnv \<Rightarrow> inst \<Rightarrow> ('r world, (code, unit) result) state" where
  "waitForReady wk env i =
     (if wkGateMode wk \<noteq> ''exec'' then
        do {
          alive \<leftarrow> look (\<lambda>w. WorkerInstanceAlive (evLinks env) (wOs w) i);
          State_Monad.return (if alive then Inr () else Inl CodeInstanceStartFailed)
        }
      else act (\<lambda>n w.
        if \<not> WorkerInstanceAlive (evLinks env) (wOs w) i then (Inl CodeInstanceStartFailed, w)
        else case gateLoop wk (gateFuel wk) (evNow env n + startupTimeout wk) (wkGatePolls wk n) 0 of
          Some GateReady \<Rightarrow> (Inr (), w)
        | Some GateExited \<Rightarrow> (Inl CodeInstanceStartFailed, w\<lparr>wOs := endProcess (NativeProc (inPID i)) (wOs w)\<rparr>)
        | Some GateCancelled \<Rightarrow> (Inl CodeUnknown, w)
        | Some GateTimedOut \<Rightarrow> (Inl CodeHealthCheckFailed, w)
        | None \<Rightarrow> (Inl CodeUnknown, w)))"

subsection \<open>The journal\<close>

definition updJournal :: "(workerRollout \<Rightarrow> workerRollout) \<Rightarrow> deployState \<Rightarrow> deployState" where
  "updJournal f s = s\<lparr>dsWorkerRollout := map_option f (dsWorkerRollout s)\<rparr>"



definition noteReplaced :: "string \<Rightarrow> int \<Rightarrow> deployState \<Rightarrow> deployState" where
  "noteReplaced key ver = updJournal (\<lambda>j. j\<lparr>wrReplacedFrom := AList.update key ver (wrReplacedFrom j)\<rparr>)"

definition touchJournal :: "int \<Rightarrow> deployState \<Rightarrow> deployState" where
  "touchJournal now = updJournal (\<lambda>j. j\<lparr>wrUpdatedAt := now\<rparr>)"

definition endJournal :: "string \<Rightarrow> string \<Rightarrow> int \<Rightarrow> deployState \<Rightarrow> deployState" where
  "endJournal status reason now = updJournal (\<lambda>j. j\<lparr>wrStatus := status, wrReason := reason, wrUpdatedAt := now\<rparr>)"

definition sortedJournalKeys :: "(string \<times> int) list \<Rightarrow> string list" where
  "sortedJournalKeys m = sortSlice (\<lambda>s t. replicaNumber s < replicaNumber t) (map fst m)"

definition readyInst :: "int \<Rightarrow> inst \<Rightarrow> inst" where
  "readyInst now i = i\<lparr>inStatus := ''running'', inReadyAt := now\<rparr>"

definition pointedAt :: "string \<Rightarrow> string \<Rightarrow> int \<Rightarrow> inst \<Rightarrow> inst" where
  "pointedAt bin envPath ver i = i\<lparr>inBinaryPath := bin, inEnvPath := envPath, inVersion := ver\<rparr>"

subsection \<open>Replacing one replica\<close>

text \<open>Put the old record back and store it; a failed write is only dropped.\<close>

definition failReplace ::
    "deployEnv \<Rightarrow> string \<Rightarrow> inst option \<Rightarrow> code \<Rightarrow> deployState \<Rightarrow> ('r world, (code, unit) result \<times> deployState) state" where
  "failReplace env key old e s = do {
     (p, s') \<leftarrow> storeW env (restoreReplica key old s);
     State_Monad.return (Inl e, s')
   }"

text \<open>A replacement that is up but could not be recorded.\<close>

definition failRecord ::
    "deployEnv \<Rightarrow> string \<Rightarrow> inst option \<Rightarrow> inst \<Rightarrow> string \<Rightarrow> code \<Rightarrow> deployState
       \<Rightarrow> ('r world, (code, unit) result \<times> deployState) state" where
  "failRecord env key old cand oldStamp e s = do {
     let s1 = restoreReplica key old s;
     (p, s2) \<leftarrow> storeW env (s1\<lparr>dsSecretTxnID := oldStamp, dsRetiring := dsRetiring s1 @ [cand]\<rparr>);
     case p of
       Inl _ \<Rightarrow> State_Monad.return (Inl e, s2)
     | Inr _ \<Rightarrow> do {
         report \<leftarrow> stopWorkerW env cand;
         State_Monad.return (Inl e, s2)
       }
   }"

definition replaceOne ::
    "'r worker \<Rightarrow> workerEnvironment \<Rightarrow> string \<Rightarrow> string \<Rightarrow> string \<Rightarrow> int \<Rightarrow> deployState
       \<Rightarrow> ('r world, (code, unit) result \<times> deployState) state" where
  "replaceOne wk we key bin envPath ver s = do {
     let env = weDeploy we;
     let old = map_of (dsReplicas s) key;
     oldAlive \<leftarrow> look (\<lambda>w. case old of Some i \<Rightarrow> WorkerInstanceAlive (evLinks env) (wOs w) i | None \<Rightarrow> False);
     (launched, s1) \<leftarrow> launchWorkerReplica we (weOverlay we) True
                         (withReplica key (pointedAt bin envPath ver (replicaOrBlank key s)) s) key;
     case launched of
       Inl e \<Rightarrow> failReplace env key old (stepCode e) s1
     | Inr found \<Rightarrow> do {
         let cand = replicaOrBlank key s1;
         ready \<leftarrow> waitForReady wk env cand;
         case ready of
           Inl e \<Rightarrow> do {
             report \<leftarrow> stopWorkerW env cand;
             failReplace env key old (stepCode e) s1
           }
         | Inr _ \<Rightarrow> do {
             now \<leftarrow> nowW env;
             let s2 = touchJournal now (noteReplaced key (case old of Some i \<Rightarrow> inVersion i | None \<Rightarrow> 0)
                        (withReplica key (readyInst now cand) s1));
             (p, s3) \<leftarrow> storeW env (Stamp None [] s2);
             case p of
               Inl e \<Rightarrow> failRecord env key old (replicaOrBlank key s3) (dsSecretTxnID s1) e s3
             | Inr _ \<Rightarrow>
                 (case old of
                    None \<Rightarrow> State_Monad.return (Inr (), s3)
                  | Some i \<Rightarrow>
                      if oldAlive then do {
                        report \<leftarrow> stopWorkerW env i;
                        State_Monad.return (Inr (), s3)
                      }
                      else State_Monad.return (Inr (), s3))
           }
       }
   }"

fun rollingLoop ::
    "'r worker \<Rightarrow> workerEnvironment \<Rightarrow> string list \<Rightarrow> string \<Rightarrow> string \<Rightarrow> int \<Rightarrow> deployState
       \<Rightarrow> ('r world, (code, unit) result \<times> deployState) state" where
  "rollingLoop wk we [] bin envPath ver s = State_Monad.return (Inr (), s)"
| "rollingLoop wk we (key # keys) bin envPath ver s = do {
     current \<leftarrow> look (\<lambda>w. case map_of (dsReplicas s) key of
         Some i \<Rightarrow> inVersion i = ver \<and> inStatus i = ''running'' \<and> WorkerInstanceAlive (evLinks (weDeploy we)) (wOs w) i
       | None \<Rightarrow> False);
     if current then rollingLoop wk we keys bin envPath ver s
     else do {
       (r, s1) \<leftarrow> replaceOne wk we key bin envPath ver s;
       case r of
         Inl e \<Rightarrow> State_Monad.return (Inl e, s1)
       | Inr _ \<Rightarrow> rollingLoop wk we keys bin envPath ver s1
     }
   }"

definition deployRolling ::
    "'r worker \<Rightarrow> workerEnvironment \<Rightarrow> string \<Rightarrow> string \<Rightarrow> int \<Rightarrow> deployState
       \<Rightarrow> ('r world, (code, unit) result \<times> deployState) state" where
  "deployRolling wk we bin envPath ver s = rollingLoop wk we (replicaIndices (dsReplicas s)) bin envPath ver s"

subsection \<open>Replacing all replicas\<close>

fun drainAll ::
    "workerEnvironment \<Rightarrow> string list \<Rightarrow> deployState \<Rightarrow> ('r world, (code, unit) result \<times> deployState) state" where
  "drainAll we [] s = State_Monad.return (Inr (), s)"
| "drainAll we (key # keys) s =
     (case map_of (dsReplicas s) key of
        None \<Rightarrow> drainAll we keys s
      | Some i \<Rightarrow> do {
          let env = weDeploy we;
          (p, s1) \<leftarrow> storeW env (noteReplaced key (inVersion i) s);
          case p of
            Inl e \<Rightarrow> State_Monad.return (Inl e, s1)
          | Inr _ \<Rightarrow> do {
              alive \<leftarrow> look (\<lambda>w. WorkerInstanceAlive (evLinks env) (wOs w) i);
              if \<not> alive then drainAll we keys (withReplica key (stoppedInst i) s1)
              else do {
                report \<leftarrow> stopWorkerW env i;
                now \<leftarrow> nowW env;
                (p', s2) \<leftarrow> storeW env (touchJournal now (withReplica key (stoppedInst i) s1));
                drainAll we keys s2
              }
            }
        })"

fun launchAll ::
    "'r worker \<Rightarrow> workerEnvironment \<Rightarrow> string list \<Rightarrow> string \<Rightarrow> string \<Rightarrow> int \<Rightarrow> deployState
       \<Rightarrow> ('r world, (code, unit) result \<times> deployState) state" where
  "launchAll wk we [] bin envPath ver s = State_Monad.return (Inr (), s)"
| "launchAll wk we (key # keys) bin envPath ver s =
     (case map_of (dsReplicas s) key of
        None \<Rightarrow> launchAll wk we keys bin envPath ver s
      | Some i \<Rightarrow> do {
          let env = weDeploy we;
          (launched, s1) \<leftarrow> launchWorkerReplica we (weOverlay we) True (withReplica key (pointedAt bin envPath ver i) s) key;
          case launched of
            Inl e \<Rightarrow> State_Monad.return (Inl (stepCode e), s1)
          | Inr found \<Rightarrow> do {
              let cand = replicaOrBlank key s1;
              ready \<leftarrow> waitForReady wk env cand;
              case ready of
                Inl e \<Rightarrow> do {
                  report \<leftarrow> stopWorkerW env cand;
                  (p, s2) \<leftarrow> storeW env (withReplica key (stoppedInst cand) s1);
                  State_Monad.return (Inl (stepCode e), s2)
                }
              | Inr _ \<Rightarrow> do {
                  now \<leftarrow> nowW env;
                  (p, s2) \<leftarrow> storeW env (Stamp None [] (touchJournal now (withReplica key (readyInst now cand) s1)));
                  case p of
                    Inl e \<Rightarrow> State_Monad.return (Inl e, s2)
                  | Inr _ \<Rightarrow> launchAll wk we keys bin envPath ver s2
                }
            }
        })"

definition deployClassic ::
    "'r worker \<Rightarrow> workerEnvironment \<Rightarrow> string \<Rightarrow> string \<Rightarrow> int \<Rightarrow> deployState
       \<Rightarrow> ('r world, (code, unit) result \<times> deployState) state" where
  "deployClassic wk we bin envPath ver s = do {
     (r, s1) \<leftarrow> drainAll we (replicaIndices (dsReplicas s)) s;
     case r of
       Inl e \<Rightarrow> State_Monad.return (Inl e, s1)
     | Inr _ \<Rightarrow> launchAll wk we (replicaIndices (dsReplicas s1)) bin envPath ver s1
   }"

subsection \<open>Revert and recovery\<close>

text \<open>The honest terminal state of a rollout whose revert could not complete.\<close>

definition recoveryRequired :: "deployEnv \<Rightarrow> string \<Rightarrow> deployState \<Rightarrow> ('r world, (code, unit) result \<times> deployState) state" where
  "recoveryRequired env reason s = do {
     now \<leftarrow> nowW env;
     (p, s1) \<leftarrow> storeW env (endJournal WorkerRolloutRecoveryRequired reason now s);
     State_Monad.return (case p of Inl e \<Rightarrow> Inl e | Inr _ \<Rightarrow> Inl CodeDeployFailed, s1)
   }"

text \<open>A replica that had no version before is left stopped.\<close>

definition revertToNothing ::
    "deployEnv \<Rightarrow> string \<Rightarrow> inst option \<Rightarrow> bool \<Rightarrow> deployState \<Rightarrow> ('r world, (code, unit) result \<times> deployState) state" where
  "revertToNothing env key current alive s =
     (case current of
        None \<Rightarrow> State_Monad.return (Inr (), s)
      | Some i \<Rightarrow> do {
          report \<leftarrow> (if alive then stopWorkerW env i else State_Monad.return nothingToStop);
          if \<not> rpExited report then State_Monad.return (Inl CodeProcessFailed, s)
          else storeW env (withReplica key (stoppedInst i) s)
        })"

definition relaunchOld ::
    "'r worker \<Rightarrow> workerEnvironment \<Rightarrow> string \<Rightarrow> int \<Rightarrow> deployState \<Rightarrow> ('r world, (code, unit) result \<times> deployState) state" where
  "relaunchOld wk we key fromVer s = do {
     let env = weDeploy we;
     (launched, s1) \<leftarrow> launchWorkerReplica we (weOverlay we) True s key;
     case launched of
       Inl e \<Rightarrow> recoveryRequired env (''replica '' @ key @ '': relaunch v'' @ itoa fromVer @ '': '' @ weErrorText we e) s1
     | Inr found \<Rightarrow> do {
         let cand = replicaOrBlank key s1;
         ready \<leftarrow> waitForReady wk env cand;
         case ready of
           Inl e \<Rightarrow> do {
             report \<leftarrow> stopWorkerW env cand;
             (p, s2) \<leftarrow> storeW env (withReplica key (stoppedInst cand) s1);
             case p of
               Inl e' \<Rightarrow> State_Monad.return (Inl e', s2)
             | Inr _ \<Rightarrow> recoveryRequired env
                 (''replica '' @ key @ '': reverted v'' @ itoa fromVer @ '' failed its gate: '' @ weErrorText we e) s2
           }
         | Inr _ \<Rightarrow> do {
             now \<leftarrow> nowW env;
             storeW env (touchJournal now (withReplica key (readyInst now cand) s1))
           }
       }
   }"

definition revertOne ::
    "'r worker \<Rightarrow> workerEnvironment \<Rightarrow> string \<Rightarrow> int \<Rightarrow> deployState \<Rightarrow> ('r world, (code, unit) result \<times> deployState) state" where
  "revertOne wk we key fromVer s = do {
     let env = weDeploy we;
     let current = map_of (dsReplicas s) key;
     alive \<leftarrow> look (\<lambda>w. case current of Some i \<Rightarrow> WorkerInstanceAlive (evLinks env) (wOs w) i | None \<Rightarrow> False);
     if (case current of Some i \<Rightarrow> inVersion i = fromVer | None \<Rightarrow> False) \<and> alive then State_Monad.return (Inr (), s)
     else if fromVer \<le> 0 then revertToNothing env key current alive s
     else do {
       paths \<leftarrow> look (\<lambda>w. VersionPaths (evVio env (wClock w)) (wkAppName wk) fromVer (wVersions w));
       case paths of
         Inl e \<Rightarrow> recoveryRequired env (''replica '' @ key @ '': resolve v'' @ itoa fromVer @ '': '' @ weErrorText we e) s
       | Inr hasEnv \<Rightarrow> do {
           report \<leftarrow> (case current of
               Some i \<Rightarrow> if alive then stopWorkerW env i else State_Monad.return nothingToStop
             | None \<Rightarrow> State_Monad.return nothingToStop);
           if \<not> rpExited report then State_Monad.return (Inl CodeProcessFailed, s)
           else case wkVersionPaths wk fromVer hasEnv of
             (bin, envPath) \<Rightarrow>
               relaunchOld wk we key fromVer
                 (withReplica key (pointedAt bin envPath fromVer
                    (if alive then (replicaOrBlank key s)\<lparr>inPID := 0\<rparr> else replicaOrBlank key s)) s)
         }
     }
   }"

definition journalInOrder :: "(string \<times> int) list \<Rightarrow> (string \<times> int) list" where
  "journalInOrder m = map (\<lambda>k. (k, case map_of m k of Some v \<Rightarrow> v | None \<Rightarrow> 0)) (sortedJournalKeys m)"

fun revertLoop ::
    "'r worker \<Rightarrow> workerEnvironment \<Rightarrow> (string \<times> int) list \<Rightarrow> deployState \<Rightarrow> ('r world, (code, unit) result \<times> deployState) state" where
  "revertLoop wk we [] s = State_Monad.return (Inr (), s)"
| "revertLoop wk we ((key, fromVer) # keys) s = do {
     (r, s1) \<leftarrow> revertOne wk we key fromVer s;
     case r of
       Inl e \<Rightarrow> State_Monad.return (Inl e, s1)
     | Inr _ \<Rightarrow> revertLoop wk we keys s1
   }"

definition revertRollout ::
    "'r worker \<Rightarrow> workerEnvironment \<Rightarrow> deployState \<Rightarrow> ('r world, (code, unit) result \<times> deployState) state" where
  "revertRollout wk we s = do {
     let env = weDeploy we;
     now \<leftarrow> nowW env;
     case dsWorkerRollout s of
       None \<Rightarrow> State_Monad.return (Inr (), s)
     | Some j \<Rightarrow>
         if wrReplacedFrom j = [] then
           storeW env (endJournal WorkerRolloutDone ''deploy failed before any replica was replaced'' now s)
         else do {
           (p, s1) \<leftarrow> storeW env ((updJournal (\<lambda>j. j\<lparr>wrStatus := WorkerRolloutReverting, wrUpdatedAt := now\<rparr>) s)
                        \<lparr>dsSecretPreparing := False\<rparr>);
           case p of
             Inl e \<Rightarrow> State_Monad.return (Inl e, s1)
           | Inr _ \<Rightarrow> do {
               (r, s2) \<leftarrow> revertLoop wk we (journalInOrder (wrReplacedFrom j)) s1;
               case r of
                 Inl e \<Rightarrow> State_Monad.return (Inl e, s2)
               | Inr _ \<Rightarrow> do {
                   later \<leftarrow> nowW env;
                   storeW env ((updJournal (\<lambda>j. j\<lparr>wrReplacedFrom := []\<rparr>)
                       (endJournal WorkerRolloutDone ''reverted to the previous versions after a failed deploy'' later s2))
                     \<lparr>dsSecretTxnID := '''', dsSecretCleanupPending := False\<rparr>)
                 }
             }
         }
   }"

subsection \<open>A deployment\<close>

text \<open>Replicas removed by a shrink; how a stop ended does not matter.\<close>

fun stopSurplus :: "deployEnv \<Rightarrow> inst list \<Rightarrow> ('r world, unit) state" where
  "stopSurplus env [] = State_Monad.return ()"
| "stopSurplus env (i # is) =
     (if inPID i \<le> 0 then stopSurplus env is
      else do {
        alive \<leftarrow> look (\<lambda>w. WorkerInstanceAlive (evLinks env) (wOs w) i);
        if \<not> alive then stopSurplus env is
        else do {
          report \<leftarrow> stopWorkerW env i;
          stopSurplus env is
        }
      })"

definition interruptedRollout :: "deployState \<Rightarrow> bool" where
  "interruptedRollout s \<longleftrightarrow> (case dsWorkerRollout s of Some j \<Rightarrow> wrStatus j \<noteq> WorkerRolloutDone | None \<Rightarrow> False)"

definition newJournal :: "'r worker \<Rightarrow> int \<Rightarrow> int \<Rightarrow> workerRollout" where
  "newJournal wk ver now =
     \<lparr>wrVersion = ver, wrStrategy = wkStrategy wk, wrStatus = WorkerRolloutRunning, wrReason = '''', wrReplacedFrom = [],
      wrStartedAt = now, wrUpdatedAt = now\<rparr>"

text \<open>The end of a rollout: on failure the replaced replicas are reverted, otherwise the version is promoted.\<close>

definition finishDeploy ::
    "'r worker \<Rightarrow> workerEnvironment \<Rightarrow> int \<Rightarrow> (code, unit) result \<Rightarrow> deployState
       \<Rightarrow> ('r world, (code, unit) result \<times> deployState) state" where
  "finishDeploy wk we ver outcome s = do {
     let env = weDeploy we;
     case outcome of
       Inl e \<Rightarrow> do {
         (r, s1) \<leftarrow> revertRollout wk we s;
         State_Monad.return (case r of Inl _ \<Rightarrow> Inl CodeDeployFailed | Inr _ \<Rightarrow> Inl e, s1)
       }
     | Inr _ \<Rightarrow> do {
         now \<leftarrow> nowW env;
         let s1 = updJournal (\<lambda>j. j\<lparr>wrStatus := WorkerRolloutDone, wrUpdatedAt := now\<rparr>) s;
         promoted \<leftarrow> (if ver > 0 then
             act (\<lambda>n w. case PromoteVersion (evVio env n) (wkAppName wk) ver ''worker'' (wVersions w) of
                          (x, v) \<Rightarrow> (x, w\<lparr>wVersions := v\<rparr>))
           else State_Monad.return (Inr ()));
         let s2 = (if ver > 0 then s1\<lparr>dsActiveVersion := ver\<rparr> else s1);
         case promoted of
           Inl e \<Rightarrow> State_Monad.return (Inl e, s2)
         | Inr _ \<Rightarrow> do {
             (p, s3) \<leftarrow> storeW env s2;
             State_Monad.return (case p of Inl e \<Rightarrow> Inl (stepCode e) | Inr _ \<Rightarrow> Inr (), s3)
           }
       }
   }"

definition deployFleet ::
    "'r worker \<Rightarrow> workerEnvironment \<Rightarrow> deployState \<Rightarrow> ('r world, (code, unit) result \<times> deployState) state" where
  "deployFleet wk we s = do {
     let env = weDeploy we;
     sys \<leftarrow> look wOs;
     let s1 = ReapStaleInstances sys s;
     let desired = (if wkReplicas wk < 1 then 1 else wkReplicas wk);
     case applyReplicaSet (dsReplicas s1) desired of
       (surplus, kept) \<Rightarrow> do {
         let s2 = s1\<lparr>dsReplicas := ensureReplicaMap kept (nat desired)\<rparr>;
         stopSurplus env surplus;
         built \<leftarrow> act (\<lambda>n w. case wkBuild wk (wVersions w) of (r, v) \<Rightarrow> (r, w\<lparr>wVersions := v\<rparr>));
         case built of
           Inl e \<Rightarrow> State_Monad.return (Inl (stepCode e), s2)
         | Inr (bin, envPath, ver) \<Rightarrow> do {
             now \<leftarrow> nowW env;
             (p, s3) \<leftarrow> storeW env (s2\<lparr>dsWorkerRollout := Some (newJournal wk ver now)\<rparr>);
             case p of
               Inl e \<Rightarrow> State_Monad.return (Inl (stepCode e), s3)
             | Inr _ \<Rightarrow>
                 (case weOverlay we envPath of
                    Inl e \<Rightarrow> State_Monad.return (Inl (stepCode e), s3)
                  | Inr _ \<Rightarrow> do {
                      (r, s4) \<leftarrow> (if wkStrategy wk = ''rolling'' then deployRolling wk we bin envPath ver s3
                                 else deployClassic wk we bin envPath ver s3);
                      finishDeploy wk we ver r s4
                    })
           }
       }
   }"

text \<open>An interrupted predecessor is reverted first.\<close>

definition Worker_Deploy ::
    "'r worker \<Rightarrow> workerEnvironment \<Rightarrow> (code, unit) result \<Rightarrow> ('r world, (code, unit) result) state
       \<Rightarrow> ('r world, (code, unit) result) state" where
  "Worker_Deploy wk we lock recoverSecrets =
     (case lock of
        Inl e \<Rightarrow> State_Monad.return (Inl e)
      | Inr _ \<Rightarrow> do {
          recovered \<leftarrow> recoverSecrets;
          case recovered of
            Inl e \<Rightarrow> State_Monad.return (Inl e)
          | Inr _ \<Rightarrow> do {
              loaded \<leftarrow> look (\<lambda>w. LoadOrInit (wkAppName wk) ModeWorker 0 (wFile w));
              case loaded of
                Inl e \<Rightarrow> State_Monad.return (Inl (stepCode e))
              | Inr s0 \<Rightarrow> do {
                  let s1 = (if dsAppID s0 = '''' then s0\<lparr>dsAppID := wkAppID wk\<rparr> else s0);
                  (healed, s2) \<leftarrow> (if interruptedRollout s1 then revertRollout wk we s1
                                  else State_Monad.return (Inr (), s1));
                  case healed of
                    Inl e \<Rightarrow> State_Monad.return (Inl (stepCode e))
                  | Inr _ \<Rightarrow> do {
                      (r, s3) \<leftarrow> deployFleet wk we (if interruptedRollout s1 then s2\<lparr>dsWorkerRollout := None\<rparr> else s2);
                      State_Monad.return r
                    }
                }
            }
        })"

definition RecoverWorkerRollout ::
    "'r worker \<Rightarrow> workerEnvironment \<Rightarrow> (code, unit) result \<Rightarrow> ('r world, (code, unit) result) state
       \<Rightarrow> ('r world, (code, unit) result) state" where
  "RecoverWorkerRollout wk we lock recoverSecrets =
     (case lock of
        Inl e \<Rightarrow> State_Monad.return (Inl e)
      | Inr _ \<Rightarrow> do {
          loaded \<leftarrow> look (\<lambda>w. LoadState (wkAppName wk) (wFile w));
          case loaded of
            Inl e \<Rightarrow> State_Monad.return (Inl (case e of NotExist \<Rightarrow> CodeUnknown | LoadFailed c \<Rightarrow> c))
          | Inr s0 \<Rightarrow>
              if dsMode s0 \<noteq> ModeWorker then State_Monad.return (Inr ())
              else do {
                recovered \<leftarrow> recoverSecrets;
                case recovered of
                  Inl e \<Rightarrow> State_Monad.return (Inl e)
                | Inr _ \<Rightarrow> do {
                    again \<leftarrow> look (\<lambda>w. LoadState (wkAppName wk) (wFile w));
                    case again of
                      Inl e \<Rightarrow> State_Monad.return (Inl (case e of NotExist \<Rightarrow> CodeUnknown | LoadFailed c \<Rightarrow> c))
                    | Inr s \<Rightarrow>
                        if \<not> interruptedRollout s then State_Monad.return (Inr ())
                        else do { (r, s') \<leftarrow> revertRollout wk we s; State_Monad.return r }
                  }
              }
        })"

section \<open>The gate ends\<close>

lemma startupTimeout_pos: "startupTimeout wk > 0"
  by (simp add: startupTimeout_def second_def)

lemma gateLoop_ends:
  assumes "\<And>k. start + (1 + int k) * gatePause \<le> gpNow (polls k)"
    and "deadline < start + (int (k + fuel)) * gatePause" and "0 < fuel"
  shows "\<exists>r. gateLoop wk fuel deadline polls k = Some r"
  using assms(2,3)
proof (induction fuel arbitrary: k)
  case (Suc fuel)
  show ?case
  proof (cases "fuel = 0")
    case True
    have "deadline < gpNow (polls k)" using assms(1) [of k] Suc.prems(1) True by simp
    then show ?thesis by (auto split: if_splits)
  next
    case False
    then have "\<exists>r. gateLoop wk fuel deadline polls (Suc k) = Some r" using Suc.IH [of "Suc k"] Suc.prems(1) by simp
    then show ?thesis by auto
  qed
qed simp

text \<open>Each turn pauses for half a second, so the fuel of \<open>waitForReady\<close> is enough for the startup window.\<close>

lemma gateLoop_enough:
  assumes "\<And>k. start + (1 + int k) * gatePause \<le> gpNow (polls k)"
  shows "\<exists>r. gateLoop wk (gateFuel wk) (start + startupTimeout wk) polls 0 = Some r"
proof -
  have pause: "gatePause > 0" by (simp add: gatePause_def)
  have "startupTimeout wk < (startupTimeout wk div gatePause + 1) * gatePause"
    using pause by (metis add.commute add_strict_left_mono div_mult_mod_eq distrib_right mult_1 pos_mod_bound)
  also have "\<dots> \<le> int (gateFuel wk) * gatePause"
    using pause startupTimeout_pos [of wk] by (intro mult_right_mono) (auto simp: gateFuel_def pos_imp_zdiv_nonneg_iff)
  finally have "start + startupTimeout wk < start + int (0 + gateFuel wk) * gatePause" by simp
  moreover have "0 < gateFuel wk" by (simp add: gateFuel_def)
  ultimately show ?thesis by (rule gateLoop_ends [OF assms])
qed

lemma waitForReady_moves: "movesOnly {inPID i} (waitForReady wk env i)"
proof (cases "wkGateMode wk \<noteq> ''exec''")
  case True
  then show ?thesis unfolding waitForReady_def by (simp add: look_def)
next
  case False
  show ?thesis
    unfolding waitForReady_def if_not_P [OF False]
    by (rule act_moves) (auto split: if_splits option.splits gateResult.splits)
qed

lemma waitForReady_spawns: "run_state (waitForReady wk env i) w = (r, w') \<Longrightarrow> wSpawns w' = wSpawns w"
  by (auto simp: waitForReady_def look_def act_def split: if_splits option.splits gateResult.splits)

lemma alive_running: "WorkerInstanceAlive lk sys i \<Longrightarrow> osProcs sys (inPID i) \<noteq> None"
  by (auto simp: WorkerInstanceAlive_def matchesIdentity_def processIdentityOf_def split: if_splits option.splits)

lemma waitForReady_ready: "run_state (waitForReady wk env i) w = (Inr (), w') \<Longrightarrow> osProcs (wOs w') (inPID i) \<noteq> None"
  by (auto simp: waitForReady_def look_def act_def dest: alive_running split: if_splits option.splits gateResult.splits)

section \<open>A rolling replacement leaves no gap\<close>

definition otherReplicas :: "string \<Rightarrow> deployState \<Rightarrow> deployState \<Rightarrow> bool" where
  "otherReplicas key s s' \<longleftrightarrow>
     (\<forall>k. k \<noteq> key \<longrightarrow> map_of (dsReplicas s') k = map_of (dsReplicas s) k) \<and>
     (key \<in> set (map fst (dsReplicas s)) \<longrightarrow> map fst (dsReplicas s') = map fst (dsReplicas s))"

lemma otherReplicas_refl [simp]: "otherReplicas key s s"
  by (simp add: otherReplicas_def)

lemma otherReplicas_trans: "otherReplicas key s s1 \<Longrightarrow> otherReplicas key s1 s2 \<Longrightarrow> otherReplicas key s s2"
  unfolding otherReplicas_def by metis

lemma touchesOnly_other: "touchesOnly key s s' \<Longrightarrow> otherReplicas key s s'"
  by (simp add: touchesOnly_def otherReplicas_def)

lemma otherReplicas_same: "dsReplicas s' = dsReplicas s \<Longrightarrow> otherReplicas key s s'"
  by (simp add: otherReplicas_def)

lemma journal_replicas [simp]:
  "dsReplicas (updJournal f s) = dsReplicas s" "dsReplicas (noteReplaced k v s) = dsReplicas s"
  "dsReplicas (touchJournal now s) = dsReplicas s" "dsReplicas (endJournal st re now s) = dsReplicas s"
  "dsReplicas (Stamp None [] s) = dsReplicas s"
  by (simp_all add: updJournal_def noteReplaced_def touchJournal_def endJournal_def Stamp_def Let_def)

lemma restoreReplica_Some: "restoreReplica key (Some old) s = withReplica key old s"
  by (simp add: restoreReplica_def withReplica_def)

lemma storeW_run:
  assumes "run_state (storeW env s) w = ((r, s'), w')"
  shows "dsReplicas s' = dsReplicas s" and "moves {} w w'" and "wSpawns w' = wSpawns w" and "wOs w' = wOs w"
proof -
  show "dsReplicas s' = dsReplicas s" "wSpawns w' = wSpawns w"
    using tripleD [OF storeW_spawns refl assms] by (auto simp: sameRecord_def)
  show m: "moves {} w w'" using storeW_moves assms by blast
  show "wOs w' = wOs w" using assms by (auto simp: storeW_def act_def split: prod.splits)
qed

lemma failReplace_run:
  assumes "run_state (failReplace env key (Some old) e s) w = ((r, s'), w')"
  shows "r = Inl e" and "moves {} w w'" and "wSpawns w' = wSpawns w" and "dsReplicas s' = dsReplicas (withReplica key old s)"
proof -
  obtain p s1 w1 where st: "run_state (storeW env (withReplica key old s)) w = ((p, s1), w1)" by (metis prod.exhaust)
  with assms have "r = Inl e" "s' = s1" "w' = w1" by (simp_all add: failReplace_def restoreReplica_Some)
  with storeW_run [OF st] show "r = Inl e" "moves {} w w'" "wSpawns w' = wSpawns w"
    "dsReplicas s' = dsReplicas (withReplica key old s)" by simp_all
qed

lemma failRecord_run:
  assumes "run_state (failRecord env key (Some old) cand stamp e s) w = ((r, s'), w')"
  shows "r = Inl e" and "moves {inPID cand} w w'" and "dsReplicas s' = dsReplicas (withReplica key old s)"
proof -
  obtain p s1 w1 where st: "run_state (storeW env ((withReplica key old s)\<lparr>dsSecretTxnID := stamp,
      dsRetiring := dsRetiring (withReplica key old s) @ [cand]\<rparr>)) w = ((p, s1), w1)" by (metis prod.exhaust)
  obtain rep w2 where stop: "run_state (stopWorkerW env cand) w1 = (rep, w2)" by fastforce
  have "r = Inl e \<and> s' = s1 \<and> (w' = w1 \<or> w' = w2)"
    using assms st stop by (cases p) (simp_all add: failRecord_def restoreReplica_Some Let_def)
  moreover have "moves {inPID cand} w w1" using storeW_run(2) [OF st] by (rule moves_mono) simp
  moreover have "moves {inPID cand} w1 w2" using stopWorkerW_moves [of cand "{inPID cand}" env] stop by blast
  ultimately show "r = Inl e" "moves {inPID cand} w w'" "dsReplicas s' = dsReplicas (withReplica key old s)"
    using storeW_run(1) [OF st] by (auto intro: moves_trans)
qed

definition swapped :: "string \<Rightarrow> inst \<Rightarrow> int \<Rightarrow> deployState \<Rightarrow> 'r world \<Rightarrow> 'r world \<Rightarrow> bool" where
  "swapped key old ver s' w w' \<longleftrightarrow>
     (\<exists>q i'. osProcs (wOs w) q = None \<and> moves {q, inPID old} w w' \<and> osProcs (wOs w') q \<noteq> None \<and>
        (key, q) \<in> set (wSpawns w') \<and> map_of (dsReplicas s') key = Some i' \<and> inPID i' = q \<and>
        inVersion i' = ver \<and> inStatus i' = ''running'' \<and>
        (\<exists>snaps. wTrace w' = wTrace w @ snaps \<and>
           (\<forall>snap\<in>set snaps. osProcs (fst snap) (inPID old) \<noteq> None \<or> osProcs (fst snap) q \<noteq> None)))"

definition unswapped :: "string \<Rightarrow> inst \<Rightarrow> deployState \<Rightarrow> 'r world \<Rightarrow> 'r world \<Rightarrow> bool" where
  "unswapped key old s' w w' \<longleftrightarrow>
     map_of (dsReplicas s') key = Some old \<and> (\<exists>Q. (\<forall>q\<in>Q. osProcs (wOs w) q = None) \<and> moves Q w w')"

lemma moves_trace:
  assumes "moves Q w w'" and "q \<notin> Q" and "osProcs (wOs w) q \<noteq> None"
  shows "osProcs (wOs w') q \<noteq> None" and "\<exists>snaps. wTrace w' = wTrace w @ snaps \<and> (\<forall>snap\<in>set snaps. osProcs (fst snap) q \<noteq> None)"
  using assms unfolding moves_def by metis+

lemma swapped_stop:
  assumes q: "osProcs (wOs w) q = None" and up: "osProcs (wOs w) (inPID old) \<noteq> None"
    and mv: "moves {q} w w1" "osProcs (wOs w1) q \<noteq> None" "(key, q) \<in> set (wSpawns w1)"
    and mv2: "moves {inPID old} w1 w'"
    and rec: "map_of (dsReplicas s') key = Some i'" "inPID i' = q" "inVersion i' = ver" "inStatus i' = ''running''"
  shows "swapped key old ver s' w w'"
proof -
  have ne: "inPID old \<noteq> q" using q up by auto
  obtain a where a: "wTrace w1 = wTrace w @ a" "\<forall>snap\<in>set a. osProcs (fst snap) (inPID old) \<noteq> None"
    using moves_trace(2) [OF mv(1) _ up] ne by blast
  obtain b where b: "wTrace w' = wTrace w1 @ b" "\<forall>snap\<in>set b. osProcs (fst snap) q \<noteq> None"
    using moves_trace(2) [OF mv2 _ mv(2)] ne by blast
  have "osProcs (wOs w') q \<noteq> None" using moves_trace(1) [OF mv2 _ mv(2)] ne by blast
  moreover have "moves {q, inPID old} w w'"
    using moves_mono [OF mv(1)] moves_mono [OF mv2] by (blast intro: moves_trans)
  moreover have "(key, q) \<in> set (wSpawns w')" using mv(3) mv2 unfolding moves_def by force
  moreover have "wTrace w' = wTrace w @ (a @ b)" "\<forall>snap\<in>set (a @ b). osProcs (fst snap) (inPID old) \<noteq> None \<or> osProcs (fst snap) q \<noteq> None"
    using a b by auto
  ultimately show ?thesis using q rec unfolding swapped_def by blast
qed

lemma replaceOne_run:
  assumes fresh: "freshSpawns we" and old: "map_of (dsReplicas s) key = Some old"
    and up: "osProcs (wOs w) (inPID old) \<noteq> None"
    and run: "run_state (replaceOne wk we key bin envPath ver s) w = ((r, s'), w')"
  shows "otherReplicas key s s' \<and> (if isOk r then swapped key old ver s' w w' else unswapped key old s' w w')"
proof -
  let ?env = "weDeploy we"
  let ?s0 = "withReplica key (pointedAt bin envPath ver old) s"
  let ?alive = "WorkerInstanceAlive (evLinks ?env) (wOs w) old"
  obtain launched s1 w1 where l: "run_state (launchWorkerReplica we (weOverlay we) True ?s0 key) w = ((launched, s1), w1)"
    by (metis prod.exhaust)
  have leaves: "launchLeaves key ?s0 (wSpawns w) (launched, s1) w1" using tripleD [OF launchWorkerReplica_leaves refl l] .
  then have t1: "otherReplicas key s s1"
    by (auto simp: launchLeaves_def intro!: touchesOnly_other intro: touchesOnly_trans [OF touchesOnly_withReplica])
  obtain Q where Q: "\<forall>q\<in>Q. q > 0 \<and> osProcs (wOs w) q = None" "moves Q w w1" "\<And>found. launched = Inr found \<Longrightarrow> Q = {piPID found}"
    using launchWorkerReplica_moves [OF fresh l] by blast
  have restored: "unswapped key old s2 w w2"
    if "moves Q w w2" "dsReplicas s2 = dsReplicas (withReplica key old s')" for s2 s' w2
    using that Q(1) by (auto simp: unswapped_def)
  have other: "otherReplicas key s s2" if "otherReplicas key s s3" "dsReplicas s2 = dsReplicas (withReplica key old s3)" for s2 s3
    using that touchesOnly_other [OF touchesOnly_withReplica, of key s3 old] otherReplicas_same [OF that(2), of key]
    by (blast intro: otherReplicas_trans)
  show ?thesis
  proof (cases launched)
    case (Inl e)
    with run l old have "run_state (failReplace ?env key (Some old) (stepCode e) s1) w1 = ((r, s'), w')"
      by (simp add: replaceOne_def look_def Let_def)
    note f = failReplace_run [OF this]
    have "moves Q w w'" using Q(2) moves_mono [OF f(2)] by (blast intro: moves_trans)
    with f restored other [OF t1 f(4)] show ?thesis by simp
  next
    case (Inr found)
    obtain i1 where i1: "map_of (dsReplicas s1) key = Some i1" "inPID i1 = piPID found" "inVersion i1 = ver"
        "wSpawns w1 = wSpawns w @ [(key, piPID found)]"
      using leaves Inr by (auto simp: launchLeaves_def pointedAt_def)
    have Q': "Q = {inPID i1}" using Q(3) [OF Inr] i1(2) by simp
    obtain ready w2 where g: "run_state (waitForReady wk ?env i1) w1 = (ready, w2)" by fastforce
    have m2: "moves Q w w2" using Q(2) waitForReady_moves [of wk ?env i1] g unfolding Q' by (blast intro: moves_trans)
    show ?thesis
    proof (cases ready)
      case Inl': (Inl e)
      obtain rep w3 where st: "run_state (stopWorkerW ?env i1) w2 = (rep, w3)" by fastforce
      have m3: "moves Q w w3" using m2 stopWorkerW_moves [of i1 Q ?env] st unfolding Q' by (blast intro: moves_trans)
      from run l old Inr i1(1) g Inl' st have "run_state (failReplace ?env key (Some old) (stepCode e) s1) w3 = ((r, s'), w')"
        by (simp add: replaceOne_def look_def Let_def)
      note f = failReplace_run [OF this]
      have "moves Q w w'" using m3 moves_mono [OF f(2)] by (blast intro: moves_trans)
      with f restored other [OF t1 f(4)] show ?thesis by simp
    next
      case ok: (Inr u)
      let ?now = "evNow ?env (wClock w2)"
      let ?s2 = "Stamp None [] (touchJournal ?now (noteReplaced key (inVersion old) (withReplica key (readyInst ?now i1) s1)))"
      obtain p s3 w3 where st: "run_state (storeW ?env ?s2) w2 = ((p, s3), w3)" by (metis prod.exhaust)
      note sr = storeW_run [OF st]
      have i3: "map_of (dsReplicas s3) key = Some (readyInst ?now i1)" using sr(1) by simp
      have "otherReplicas key s1 s3"
        using touchesOnly_other [OF touchesOnly_withReplica, of key s1 "readyInst ?now i1"] sr(1) by (simp add: otherReplicas_def)
      with t1 have t3: "otherReplicas key s s3" by (rule otherReplicas_trans)
      have m3: "moves Q w w3" using m2 moves_mono [OF sr(2)] by (blast intro: moves_trans)
      show ?thesis
      proof (cases p)
        case Inl': (Inl e)
        from run l old Inr i1(1) g ok st Inl' i3 have
          "run_state (failRecord ?env key (Some old) (readyInst ?now i1) (dsSecretTxnID s1) e s3) w3 = ((r, s'), w')"
          by (simp add: replaceOne_def look_def nowW_def Let_def)
        note f = failRecord_run [OF this]
        have "inPID (readyInst ?now i1) = inPID i1" by (simp add: readyInst_def)
        with f(2) m3 have "moves Q w w'" unfolding Q' by (auto intro: moves_trans)
        with f restored other [OF t3 f(3)] show ?thesis by simp
      next
        case stored: (Inr u')
        obtain rep w4 where stop: "run_state (stopWorkerW ?env old) w3 = (rep, w4)" by fastforce
        have end': "r = Inr () \<and> s' = s3 \<and> w' = (if ?alive then w4 else w3)"
          using run l old Inr i1(1) g ok st stored stop by (simp add: replaceOne_def look_def nowW_def Let_def split: if_splits)
        have q: "osProcs (wOs w) (inPID i1) = None" using Q(1) Q' by simp
        have "osProcs (wOs w2) (inPID i1) \<noteq> None" using waitForReady_ready g ok by (metis old.unit.exhaust)
        then have up3: "osProcs (wOs w3) (inPID i1) \<noteq> None" using sr(4) by simp
        have sp: "(key, inPID i1) \<in> set (wSpawns w3)" using i1(2,4) waitForReady_spawns [OF g] sr(3) by simp
        have "moves {inPID old} w3 w'" using end' stopWorkerW_moves [of old "{inPID old}" ?env] stop by auto
        from swapped_stop [OF q up m3 [unfolded Q'] up3 sp this, of s' "readyInst ?now i1" ver]
        have "swapped key old ver s' w w'" using end' i3 i1(3) by (simp add: readyInst_def)
        with end' t3 show ?thesis by simp
      qed
    qed
  qed
qed

text \<open>
  A fleet whose every replica is up: its process runs and is one the replica was started with, and at
  every moment observed so far a process of the replica was running.
\<close>

definition covered :: "string \<Rightarrow> int \<Rightarrow> 'r world \<Rightarrow> bool" where
  "covered k p w \<longleftrightarrow>
     (\<forall>snap\<in>set (wTrace w). \<exists>q. (q = p \<or> (k, q) \<in> set (wSpawns w)) \<and> osProcs (fst snap) q \<noteq> None)"

definition fleetUp :: "(string \<Rightarrow> int) \<Rightarrow> deployState \<Rightarrow> 'r world \<Rightarrow> bool" where
  "fleetUp p s w \<longleftrightarrow>
     (\<forall>k i. map_of (dsReplicas s) k = Some i \<longrightarrow>
        osProcs (wOs w) (inPID i) \<noteq> None \<and> (inPID i = p k \<or> (k, inPID i) \<in> set (wSpawns w)) \<and> covered k (p k) w) \<and>
     (\<forall>k k' i i'. map_of (dsReplicas s) k = Some i \<and> map_of (dsReplicas s) k' = Some i' \<and> k \<noteq> k' \<longrightarrow> inPID i \<noteq> inPID i')"

lemma covered_moves:
  assumes "covered k p w" and "moves Q w w'" and "q \<notin> Q" and "osProcs (wOs w) q \<noteq> None"
    and "q = p \<or> (k, q) \<in> set (wSpawns w)"
  shows "covered k p w'"
proof -
  obtain a where a: "wTrace w' = wTrace w @ a" "\<forall>snap\<in>set a. osProcs (fst snap) q \<noteq> None"
    using moves_trace(2) [OF assms(2-4)] by blast
  have sp: "set (wSpawns w) \<subseteq> set (wSpawns w')" using assms(2) unfolding moves_def by force
  show ?thesis
    unfolding covered_def a(1)
  proof
    fix snap assume "snap \<in> set (wTrace w @ a)"
    then consider "snap \<in> set (wTrace w)" | "snap \<in> set a" by auto
    then show "\<exists>x. (x = p \<or> (k, x) \<in> set (wSpawns w')) \<and> osProcs (fst snap) x \<noteq> None"
    proof cases
      case 1
      with assms(1) sp show ?thesis unfolding covered_def by blast
    next
      case 2
      with a(2) assms(5) sp show ?thesis by blast
    qed
  qed
qed

lemma covered_swapped:
  assumes "covered key p w" and "swapped key old ver s' w w'" and "inPID old = p \<or> (key, inPID old) \<in> set (wSpawns w)"
  shows "covered key p w'"
proof -
  obtain q snaps where q: "(key, q) \<in> set (wSpawns w')" "wTrace w' = wTrace w @ snaps"
    "\<forall>snap\<in>set snaps. osProcs (fst snap) (inPID old) \<noteq> None \<or> osProcs (fst snap) q \<noteq> None"
    and mv: "moves {q, inPID old} w w'"
    using assms(2) unfolding swapped_def by blast
  have sp: "set (wSpawns w) \<subseteq> set (wSpawns w')" using mv unfolding moves_def by force
  show ?thesis
    unfolding covered_def q(2)
  proof
    fix snap assume "snap \<in> set (wTrace w @ snaps)"
    then consider "snap \<in> set (wTrace w)" | "snap \<in> set snaps" by auto
    then show "\<exists>x. (x = p \<or> (key, x) \<in> set (wSpawns w')) \<and> osProcs (fst snap) x \<noteq> None"
    proof cases
      case 1
      with assms(1) sp show ?thesis unfolding covered_def by blast
    next
      case 2
      with q(1,3) assms(3) sp show ?thesis by blast
    qed
  qed
qed

lemma fleetUp_step:
  assumes up: "fleetUp p s w" and old: "map_of (dsReplicas s) key = Some old" and other: "otherReplicas key s s'"
    and res: "swapped key old ver s' w w' \<or> unswapped key old s' w w'"
  shows "fleetUp p s' w'"
proof -
  have new: "\<exists>i'. map_of (dsReplicas s') key = Some i' \<and> osProcs (wOs w') (inPID i') \<noteq> None \<and>
      (inPID i' = p key \<or> (key, inPID i') \<in> set (wSpawns w')) \<and> covered key (p key) w' \<and>
      (i' = old \<or> osProcs (wOs w) (inPID i') = None) \<and>
      (\<exists>Q. moves Q w w' \<and> (\<forall>q\<in>Q. osProcs (wOs w) q = None \<or> q = inPID old))"
    using res
  proof
    assume sw: "swapped key old ver s' w w'"
    have "covered key (p key) w'" by (rule covered_swapped [OF _ sw]) (use up old in \<open>auto simp: fleetUp_def\<close>)
    with sw show ?thesis unfolding swapped_def by (metis insertE singletonD)
  next
    assume un: "unswapped key old s' w w'"
    then obtain Q where Q: "\<forall>q\<in>Q. osProcs (wOs w) q = None" "moves Q w w'" "map_of (dsReplicas s') key = Some old"
      by (auto simp: unswapped_def)
    have run: "osProcs (wOs w) (inPID old) \<noteq> None" "inPID old = p key \<or> (key, inPID old) \<in> set (wSpawns w)" "covered key (p key) w"
      using up old by (auto simp: fleetUp_def)
    have out: "inPID old \<notin> Q" using Q(1) run(1) by auto
    have "set (wSpawns w) \<subseteq> set (wSpawns w')" using Q(2) unfolding moves_def by force
    then show ?thesis
      using Q run moves_trace(1) [OF Q(2) out run(1)] covered_moves [OF run(3) Q(2) out run(1,2)] by blast
  qed
  then obtain i' Q where i': "map_of (dsReplicas s') key = Some i'" "osProcs (wOs w') (inPID i') \<noteq> None"
      "inPID i' = p key \<or> (key, inPID i') \<in> set (wSpawns w')" "covered key (p key) w'" "i' = old \<or> osProcs (wOs w) (inPID i') = None"
    and Q: "moves Q w w'" "\<forall>q\<in>Q. osProcs (wOs w) q = None \<or> q = inPID old" by blast
  have sp: "set (wSpawns w) \<subseteq> set (wSpawns w')" using Q(1) unfolding moves_def by force
  have rest: "map_of (dsReplicas s) k = Some i \<and> osProcs (wOs w') (inPID i) \<noteq> None \<and>
      (inPID i = p k \<or> (k, inPID i) \<in> set (wSpawns w')) \<and> covered k (p k) w' \<and> inPID i \<noteq> inPID i'"
    if "map_of (dsReplicas s') k = Some i" "k \<noteq> key" for k i
  proof -
    have k: "map_of (dsReplicas s) k = Some i" using other that by (simp add: otherReplicas_def)
    with up old that(2) have run: "osProcs (wOs w) (inPID i) \<noteq> None" "inPID i = p k \<or> (k, inPID i) \<in> set (wSpawns w)"
      "covered k (p k) w" "inPID i \<noteq> inPID old" unfolding fleetUp_def by blast+
    have out: "inPID i \<notin> Q" using Q(2) run(1,4) by auto
    have "inPID i \<noteq> inPID i'" using run(1,4) i'(5) by auto
    then show ?thesis
      using k run sp moves_trace(1) [OF Q(1) out run(1)] covered_moves [OF run(3) Q(1) out run(1,2)] by blast
  qed
  show ?thesis
    unfolding fleetUp_def
  proof (intro conjI allI impI)
    fix k i assume k: "map_of (dsReplicas s') k = Some i"
    show "osProcs (wOs w') (inPID i) \<noteq> None" "inPID i = p k \<or> (k, inPID i) \<in> set (wSpawns w')" "covered k (p k) w'"
      using k rest i' by (cases "k = key"; auto)+
  next
    fix k k' i j
    assume a: "map_of (dsReplicas s') k = Some i \<and> map_of (dsReplicas s') k' = Some j \<and> k \<noteq> k'"
    show "inPID i \<noteq> inPID j"
    proof (cases "k = key \<or> k' = key")
      case True
      with a i'(1) rest show ?thesis by (metis option.inject)
    next
      case False
      with a rest have "map_of (dsReplicas s) k = Some i" "map_of (dsReplicas s) k' = Some j" by blast+
      with up a show ?thesis unfolding fleetUp_def by blast
    qed
  qed
qed

lemma length_sortSlice: "length (sortSlice lt xs) = length xs"
proof -
  have one: "length (insertFromRight lt x ys) = Suc (length ys)" for x ys
    by (induction ys) auto
  have "length (fold (insertFromRight lt) xs acc) = length xs + length acc" for acc
    by (induction xs arbitrary: acc) (simp_all add: one)
  then show ?thesis by (simp add: sortSlice_def)
qed

lemma distinct_replicaIndices:
  assumes "distinct (map fst m)"
  shows "distinct (replicaIndices m)"
proof (rule card_distinct)
  have "card (set (replicaIndices m)) = card (set (map fst m))" by simp
  also have "\<dots> = length (map fst m)" using assms by (rule distinct_card)
  finally show "card (set (replicaIndices m)) = length (replicaIndices m)"
    by (simp add: replicaIndices_def length_sortSlice)
qed

lemma swapped_done: "swapped key old ver s' w w' \<Longrightarrow>
    \<exists>i'. map_of (dsReplicas s') key = Some i' \<and> inVersion i' = ver \<and> inStatus i' = ''running''"
  unfolding swapped_def by blast

lemma rollingLoop_fleet:
  assumes fresh: "freshSpawns we" and up: "fleetUp p s w" and "distinct keys" and "set keys \<subseteq> set (map fst (dsReplicas s))"
    and run: "run_state (rollingLoop wk we keys bin envPath ver s) w = ((r, s'), w')"
  shows "fleetUp p s' w' \<and> map fst (dsReplicas s') = map fst (dsReplicas s) \<and>
     (\<forall>k. k \<notin> set keys \<longrightarrow> map_of (dsReplicas s') k = map_of (dsReplicas s) k) \<and>
     (isOk r \<longrightarrow> (\<forall>k\<in>set keys. \<exists>i. map_of (dsReplicas s') k = Some i \<and> inVersion i = ver \<and> inStatus i = ''running''))"
  using assms(2-)
proof (induction keys arbitrary: s w)
  case Nil
  then show ?case by simp
next
  case (Cons key keys)
  obtain old where old: "map_of (dsReplicas s) key = Some old"
    using Cons.prems(3) by (metis list.set_intros(1) map_of_eq_None_iff not_None_eq set_map subsetD)
  let ?current = "inVersion old = ver \<and> inStatus old = ''running'' \<and> WorkerInstanceAlive (evLinks (weDeploy we)) (wOs w) old"
  show ?case
  proof (cases ?current)
    case True
    with Cons.prems(4) old have "run_state (rollingLoop wk we keys bin envPath ver s) w = ((r, s'), w')"
      by (simp add: look_def)
    from Cons.IH [OF Cons.prems(1) _ _ this] Cons.prems(2,3) True old show ?thesis by auto
  next
    case False
    obtain r1 s1 w1 where one: "run_state (replaceOne wk we key bin envPath ver s) w = ((r1, s1), w1)" by (metis prod.exhaust)
    have "osProcs (wOs w) (inPID old) \<noteq> None" using Cons.prems(1) old by (auto simp: fleetUp_def)
    note rep = replaceOne_run [OF fresh old this one]
    then have up1: "fleetUp p s1 w1" by (intro fleetUp_step [OF Cons.prems(1) old]) (auto split: if_splits)
    have keys1: "map fst (dsReplicas s1) = map fst (dsReplicas s)"
      "\<And>k. k \<noteq> key \<Longrightarrow> map_of (dsReplicas s1) k = map_of (dsReplicas s) k"
      using rep Cons.prems(3) by (auto simp: otherReplicas_def)
    show ?thesis
    proof (cases r1)
      case (Inl e)
      with Cons.prems(4) old False one have "r = Inl e" "s' = s1" "w' = w1" by (auto simp: look_def)
      with up1 keys1 show ?thesis by (auto simp: isOk_iff)
    next
      case (Inr u)
      with Cons.prems(4) old False one have rest: "run_state (rollingLoop wk we keys bin envPath ver s1) w1 = ((r, s'), w')"
        by (auto simp: look_def)
      have "set keys \<subseteq> set (map fst (dsReplicas s1))" using Cons.prems(3) keys1(1) by simp
      note IH = Cons.IH [OF up1 _ this rest]
      have "\<exists>i. map_of (dsReplicas s1) key = Some i \<and> inVersion i = ver \<and> inStatus i = ''running''"
        using rep Inr swapped_done by (auto simp: isOk_iff)
      with IH Cons.prems(2) keys1 show ?thesis by auto
    qed
  qed
qed


definition demoWk :: "unit worker" where
  "demoWk =
     \<lparr>wkAppName = ''jobs'', wkAppID = ''9'', wkBuild = (\<lambda>v. (Inr (''/srv/jobs/v2'', '''', 2), v)), wkStrategy = ''rolling'',
      wkReplicas = 1, wkGateMode = ''process'', wkGateCommand = [], wkGateTimeoutText = '''', wkRedact = id,
      wkStartupTimeout = 0, wkGatePolls = (\<lambda>_ _. \<lparr>gpExited = False, gpProbe = ProbeExits None [], gpCancelled = False, gpNow = 0\<rparr>),
      wkVersionPaths = (\<lambda>_ _. (''/srv/jobs/v1'', ''''))\<rparr>"

definition demoWorkerFleet :: deployState where
  "demoWorkerFleet = (initState ''jobs'' ModeWorker 0)\<lparr>dsReplicas := [(''0'', demoCrashed\<lparr>inVersion := 1\<rparr>)]\<rparr>"

lemma demoWE_fresh: "freshSpawns demoWE"
  by (simp add: freshSpawns_def demoWE_def demoSpawn_def)


section \<open>A revert never claims too much\<close>

text \<open>The journal on disk is open: a reader still sees that the rollout has to be recovered.\<close>

definition diskOpen :: "'r world \<Rightarrow> bool" where
  "diskOpen w \<longleftrightarrow> (case wFile w of DeployFile s \<Rightarrow> interruptedRollout s | _ \<Rightarrow> True)"

text \<open>An operation that keeps the journal open, on disk and in the record it returns.\<close>

abbreviation keepsOpen :: "('r world, 'a \<times> deployState) state \<Rightarrow> bool" where
  "keepsOpen m \<equiv> triple diskOpen m (\<lambda>(_, s) w. diskOpen w \<and> interruptedRollout s)"

lemma storeW_open: "interruptedRollout s \<Longrightarrow> keepsOpen (storeW env s)"
  unfolding storeW_def
  by (rule triple_act)
    (auto simp: diskOpen_def interruptedRollout_def Store_def Let_def split: prod.splits if_splits sum.splits storeOutcome.splits)

lemma stopWorkerW_open: "triple diskOpen (stopWorkerW env i) (\<lambda>_. diskOpen)"
  unfolding stopWorkerW_def by (rule triple_act) (auto simp: diskOpen_def split: prod.splits)

lemma spawnW_open: "triple diskOpen (spawnW we bin ov slot) (\<lambda>_. diskOpen)"
  unfolding spawnW_def by (rule triple_act) (auto simp: diskOpen_def split: prod.splits sum.splits)

lemma interrupted_simps [simp]:
  "interruptedRollout (withReplica k i s) = interruptedRollout s"
  "interruptedRollout (touchJournal now s) = interruptedRollout s"
  "interruptedRollout (s\<lparr>dsSecretPreparing := b\<rparr>) = interruptedRollout s"
  by (auto simp: interruptedRollout_def withReplica_def touchJournal_def updJournal_def split: option.split)

lemma markAndCheck_open:
  assumes "interruptedRollout s"
  shows "keepsOpen (markAndCheck we persist slot found s)"
proof -
  have mark: "keepsOpen (markWorkerLaunched (weDeploy we) slot found persist s)"
    unfolding markWorkerLaunched_def nowW_def Let_def
    by (rule triple_look, rule triple_drop, rule triple_if, rule storeW_open) (auto simp: assms intro!: triple_return)
  show ?thesis
    unfolding markAndCheck_def
  proof (rule triple_bind_pair [OF mark], rule triple_fact, rule triple_sum)
    fix s2 e
    assume "interruptedRollout s2"
    then show "keepsOpen (State_Monad.bind (stopWorkerW (weDeploy we) (replicaOrBlank slot s2)) (\<lambda>report. State_Monad.return (Inl e, s2)))"
      by (intro triple_bind [OF stopWorkerW_open] triple_return) auto
  qed (auto intro: triple_return)
qed

lemma launchWorkerReplica_open:
  assumes "interruptedRollout s"
  shows "keepsOpen (launchWorkerReplica we ov persist s slot)"
  unfolding launchWorkerReplica_def Let_def
  by (intro triple_if triple_sum triple_bind [OF spawnW_open] markAndCheck_open triple_return) (auto simp: assms)

lemma waitForReady_open: "triple diskOpen (waitForReady wk env i) (\<lambda>_. diskOpen)"
proof (cases "wkGateMode wk \<noteq> ''exec''")
  case True
  then show ?thesis unfolding waitForReady_def by (simp add: triple_look triple_drop triple_return)
next
  case False
  show ?thesis
    unfolding waitForReady_def if_not_P [OF False]
    by (rule triple_act) (auto simp: diskOpen_def split: if_splits option.splits gateResult.splits)
qed

lemma recoveryRequired_open:
  assumes "interruptedRollout s"
  shows "keepsOpen (recoveryRequired env reason s)"
proof -
  have "interruptedRollout (endJournal WorkerRolloutRecoveryRequired reason now s)" for now
    using assms by (auto simp: interruptedRollout_def endJournal_def updJournal_def WorkerRolloutRecoveryRequired_def
        WorkerRolloutDone_def split: option.splits)
  then show ?thesis
    unfolding recoveryRequired_def nowW_def
    by (intro triple_look triple_drop triple_bind_pair [OF storeW_open] triple_return) auto
qed

lemma relaunchOld_open:
  assumes "interruptedRollout s"
  shows "keepsOpen (relaunchOld wk we key v s)"
proof -
  have failed: "keepsOpen (State_Monad.bind (stopWorkerW env cand) (\<lambda>report.
       State_Monad.bind (storeW env (withReplica key (stoppedInst cand) s1)) (\<lambda>(p, s2). case p of
         Inl e' \<Rightarrow> State_Monad.return (Inl e', s2) | Inr _ \<Rightarrow> recoveryRequired env msg s2)))"
    if "interruptedRollout s1" for env cand s1 msg
  proof (rule triple_bind [OF stopWorkerW_open], rule triple_bind_pair [OF storeW_open], simp add: that, rule triple_fact,
      rule triple_sum, goal_cases)
    case (1 report p s2 e)
    then show ?case by (intro triple_return) auto
  next
    case (2 report p s2 u)
    then show ?case by (intro recoveryRequired_open)
  qed
  show ?thesis
    unfolding relaunchOld_def Let_def nowW_def
  proof (rule triple_bind_pair [OF launchWorkerReplica_open [OF assms]], rule triple_fact, rule triple_sum, goal_cases)
    case (1 r s1 e)
    then show ?case by (intro recoveryRequired_open)
  next
    case (2 r s1 found)
    note o = 2(1)
    show ?case
      by (rule triple_bind [OF waitForReady_open], rule triple_sum, rule failed [OF o],
          rule triple_look, rule triple_drop, rule storeW_open) (simp add: o)
  qed
qed

lemma revertToNothing_open:
  assumes "interruptedRollout s"
  shows "keepsOpen (revertToNothing env key current alive s)"
proof (cases current)
  case None
  then show ?thesis unfolding revertToNothing_def by (auto simp: assms intro: triple_return)
next
  case (Some i)
  have stop: "triple diskOpen (if alive then stopWorkerW env i else State_Monad.return nothingToStop) (\<lambda>_. diskOpen)"
    by (auto intro: stopWorkerW_open triple_return)
  show ?thesis
    unfolding revertToNothing_def Some option.case
    by (rule triple_bind [OF stop], rule triple_if, rule triple_return, simp add: assms, rule storeW_open) (simp add: assms)
qed

lemma revertOne_open:
  assumes "interruptedRollout s"
  shows "keepsOpen (revertOne wk we key v s)"
proof -
  note nothing = revertToNothing_open [OF assms]
  have stopped: "triple diskOpen (case current of
      Some i \<Rightarrow> if alive then stopWorkerW env i else State_Monad.return nothingToStop
    | None \<Rightarrow> State_Monad.return nothingToStop) (\<lambda>_. diskOpen)" for env alive and current :: "inst option"
    by (cases current) (auto intro: stopWorkerW_open triple_return)
  have relaunch: "keepsOpen (case wkVersionPaths wk v hasEnv of (bin, envPath) \<Rightarrow>
      relaunchOld wk we key v (withReplica key (pointedAt bin envPath v i) s))" for hasEnv i
    by (rule triple_pair, rule relaunchOld_open) (simp add: assms)
  show ?thesis
    unfolding revertOne_def Let_def
  proof (rule triple_look, rule triple_drop, rule triple_if, rule triple_return, simp add: assms, rule triple_if,
      rule revertToNothing_open [OF assms], rule triple_look, rule triple_drop, rule triple_sum,
      rule recoveryRequired_open [OF assms], rule triple_bind [OF stopped], rule triple_if, rule triple_return, simp add: assms)
  qed (rule relaunch)
qed

lemma revertLoop_open: "interruptedRollout s \<Longrightarrow> keepsOpen (revertLoop wk we keys s)"
proof (induction keys arbitrary: s)
  case Nil
  then show ?case unfolding revertLoop.simps by (intro triple_return) auto
next
  case (Cons kv keys)
  obtain key v where kv: "kv = (key, v)" by fastforce
  show ?case
    unfolding kv revertLoop.simps
  proof (rule triple_bind_pair [OF revertOne_open [OF Cons.prems]], rule triple_fact, rule triple_sum, goal_cases)
    case (1 r s1 e)
    then show ?case by (intro triple_return) auto
  next
    case (2 r s1 u)
    then show ?case by (intro Cons.IH)
  qed
qed

text \<open>The record of a replica after its revert.\<close>

lemma storeW_other: "run_state (storeW env s) w = ((r, s'), w') \<Longrightarrow> otherReplicas key s s'"
  by (rule otherReplicas_same, rule storeW_run(1))

lemma withReplica_other [simp]: "otherReplicas key s (withReplica key i s)"
  by (rule touchesOnly_other) simp

lemma storeW_replica:
  assumes "run_state (storeW env s1) w = ((r, s'), w')" and "dsReplicas s1 = dsReplicas (withReplica key i s)"
  shows "otherReplicas key s s' \<and> map_of (dsReplicas s') key = Some i"
  using storeW_run(1) [OF assms(1)] assms(2) touchesOnly_withReplica [of key s i]
  by (auto simp: otherReplicas_def touchesOnly_def)

lemma recoveryRequired_run:
  assumes "run_state (recoveryRequired env reason s) w = ((r, s'), w')"
  shows "\<not> isOk r \<and> dsReplicas s' = dsReplicas s"
proof -
  obtain p s1 w1 where st: "run_state (storeW env (endJournal WorkerRolloutRecoveryRequired reason (evNow env (wClock w)) s)) w = ((p, s1), w1)"
    by (metis prod.exhaust)
  with assms have "s' = s1" "\<not> isOk r" by (auto simp: recoveryRequired_def nowW_def look_def isOk_iff split: sum.splits)
  with storeW_run(1) [OF st] show ?thesis by simp
qed

lemma relaunchOld_run:
  assumes run: "run_state (relaunchOld wk we key v s) w = ((r, s'), w')"
    and i: "map_of (dsReplicas s) key = Some i" "inVersion i = v"
  shows "otherReplicas key s s' \<and> (isOk r \<longrightarrow> (\<exists>i'. map_of (dsReplicas s') key = Some i' \<and> inVersion i' = v))"
proof -
  let ?env = "weDeploy we"
  obtain launched s1 w1 where l: "run_state (launchWorkerReplica we (weOverlay we) True s key) w = ((launched, s1), w1)"
    by (metis prod.exhaust)
  from tripleD [OF launchWorkerReplica_leaves refl l] i obtain i1 where
    t1: "otherReplicas key s s1" and i1: "map_of (dsReplicas s1) key = Some i1" "inVersion i1 = v"
    by (auto simp: launchLeaves_def intro: touchesOnly_other)
  show ?thesis
  proof (cases launched)
    case (Inl e)
    with run l obtain msg where "run_state (recoveryRequired ?env msg s1) w1 = ((r, s'), w')"
      by (auto simp: relaunchOld_def Let_def)
    from recoveryRequired_run [OF this] t1 show ?thesis by (auto simp: otherReplicas_def)
  next
    case (Inr found)
    obtain ready w2 where g: "run_state (waitForReady wk ?env i1) w1 = (ready, w2)" by fastforce
    show ?thesis
    proof (cases ready)
      case Inl': (Inl e)
      obtain rep w3 where st: "run_state (stopWorkerW ?env i1) w2 = (rep, w3)" by fastforce
      obtain p s2 w4 where sr: "run_state (storeW ?env (withReplica key (stoppedInst i1) s1)) w3 = ((p, s2), w4)" by (metis prod.exhaust)
      from storeW_replica [OF sr refl] t1 have t2: "otherReplicas key s s2" by (blast intro: otherReplicas_trans)
      show ?thesis
      proof (cases p)
        case (Inl e')
        with run l Inr i1 g Inl' st sr have "r = Inl e'" "s' = s2" by (simp_all add: relaunchOld_def Let_def)
        with t2 show ?thesis by (simp add: isOk_iff)
      next
        case stored: (Inr u)
        from run l Inr i1 g Inl' st sr stored obtain msg where "run_state (recoveryRequired ?env msg s2) w4 = ((r, s'), w')"
          by (auto simp: relaunchOld_def Let_def)
        from recoveryRequired_run [OF this] t2 show ?thesis by (auto simp: otherReplicas_def)
      qed
    next
      case (Inr u)
      with run l \<open>launched = Inr found\<close> i1 g obtain now where
        "run_state (storeW ?env (touchJournal now (withReplica key (readyInst now i1) s1))) w2 = ((r, s'), w')"
        by (auto simp: relaunchOld_def Let_def nowW_def look_def)
      from storeW_replica [OF this, of key "readyInst now i1" s1] t1 i1(2) show ?thesis
        by (auto simp: readyInst_def intro: otherReplicas_trans)
    qed
  qed
qed

lemma look_bind: "run_state (State_Monad.bind (look f) k) w = run_state (k (f w)) w"
  by (simp add: look_def)

lemma bind_run: "run_state m w = (a, w1) \<Longrightarrow> run_state (State_Monad.bind m k) w = run_state (k a) w1"
  by simp

lemma revertToNothing_run:
  assumes run: "run_state (revertToNothing env key current alive s) w = ((r, s'), w')"
  shows "otherReplicas key s s'"
proof (cases current)
  case None
  with run show ?thesis by (simp add: revertToNothing_def otherReplicas_def)
next
  case (Some i)
  obtain rep w1 where st: "run_state (if alive then stopWorkerW env i else State_Monad.return nothingToStop) w = (rep, w1)" by fastforce
  show ?thesis
  proof (cases "rpExited rep")
    case True
    with run Some st have "run_state (storeW env (withReplica key (stoppedInst i) s)) w1 = ((r, s'), w')"
      by (simp add: revertToNothing_def)
    from storeW_replica [OF this refl] show ?thesis by simp
  next
    case False
    with run Some st show ?thesis by (simp add: revertToNothing_def otherReplicas_def)
  qed
qed

lemma revertOne_run:
  assumes run: "run_state (revertOne wk we key v s) w = ((r, s'), w')"
  shows "otherReplicas key s s' \<and> (isOk r \<and> v > 0 \<longrightarrow> (\<exists>i'. map_of (dsReplicas s') key = Some i' \<and> inVersion i' = v))"
proof -
  let ?env = "weDeploy we"
  let ?cur = "map_of (dsReplicas s) key"
  let ?alive = "case ?cur of Some i \<Rightarrow> WorkerInstanceAlive (evLinks ?env) (wOs w) i | None \<Rightarrow> False"
  consider (skip) "s' = s" "\<exists>i. ?cur = Some i \<and> inVersion i = v"
    | (unversioned) "v \<le> 0" "run_state (revertToNothing ?env key ?cur ?alive s) w = ((r, s'), w')"
    | (required) msg where "run_state (recoveryRequired ?env msg s) w = ((r, s'), w')"
    | (stuck) "s' = s" "\<not> isOk r"
    | (relaunch) bin envPath i w1 where "inVersion (pointedAt bin envPath v i) = v"
        "run_state (relaunchOld wk we key v (withReplica key (pointedAt bin envPath v i) s)) w1 = ((r, s'), w')"
  proof (cases "(case ?cur of Some i \<Rightarrow> inVersion i = v | None \<Rightarrow> False) \<and> ?alive")
    case True
    with run have "s' = s" by (simp add: revertOne_def Let_def look_def)
    with True skip show ?thesis by (auto split: option.splits)
  next
    case current: False
    show ?thesis
    proof (cases "v \<le> 0")
      case True
      from run have "run_state (revertToNothing ?env key ?cur ?alive s) w = ((r, s'), w')"
        by (simp only: revertOne_def Let_def look_bind current True if_False if_True)
      with True show ?thesis by (rule unversioned)
    next
      case False
      let ?paths = "VersionPaths (evVio ?env (wClock w)) (wkAppName wk) v (wVersions w)"
      show ?thesis
      proof (cases ?paths)
        case (Inl e)
        from run have "run_state (recoveryRequired ?env (''replica '' @ key @ '': resolve v'' @ itoa v @ '': '' @ weErrorText we e) s) w = ((r, s'), w')"
          by (simp only: revertOne_def Let_def look_bind current False if_False Inl sum.case)
        then show ?thesis by (rule required)
      next
        case (Inr hasEnv)
        obtain rep w1 where st: "run_state (case ?cur of
            Some i \<Rightarrow> if ?alive then stopWorkerW ?env i else State_Monad.return nothingToStop
          | None \<Rightarrow> State_Monad.return nothingToStop) w = (rep, w1)" by fastforce
        obtain bin envPath where vp: "wkVersionPaths wk v hasEnv = (bin, envPath)" by fastforce
        let ?i = "if ?alive then (replicaOrBlank key s)\<lparr>inPID := 0\<rparr> else replicaOrBlank key s"
        have rest: "run_state (if \<not> rpExited rep then State_Monad.return (Inl CodeProcessFailed, s)
             else relaunchOld wk we key v (withReplica key (pointedAt bin envPath v ?i) s)) w1 = ((r, s'), w')"
          using run by (simp only: revertOne_def Let_def look_bind current False if_False Inr sum.case bind_run [OF st] vp prod.case)
        show ?thesis
        proof (cases "rpExited rep")
          case True
          with rest relaunch [of bin envPath ?i w1] show ?thesis by (simp add: pointedAt_def)
        next
          case False
          with rest stuck show ?thesis by (auto simp: isOk_iff)
        qed
      qed
    qed
  qed
  then show ?thesis
  proof cases
    case skip
    then show ?thesis by auto
  next
    case unversioned
    from revertToNothing_run [OF unversioned(2)] unversioned(1) show ?thesis by simp
  next
    case (required msg)
    from recoveryRequired_run [OF required] show ?thesis by (auto simp: otherReplicas_def)
  next
    case stuck
    then show ?thesis by simp
  next
    case (relaunch bin envPath i w1)
    have i: "map_of (dsReplicas (withReplica key (pointedAt bin envPath v i) s)) key = Some (pointedAt bin envPath v i)"
      using touchesOnly_withReplica [of key s] by (simp add: touchesOnly_def)
    note re = relaunchOld_run [OF relaunch(2) i relaunch(1)]
    then have "otherReplicas key s s'" by (blast intro: otherReplicas_trans [OF withReplica_other])
    with re show ?thesis by blast
  qed
qed

lemma revertLoop_run:
  assumes "run_state (revertLoop wk we keys s) w = ((r, s'), w')" and "isOk r" and "v > 0"
    and "\<And>v'. (k, v') \<in> set keys \<Longrightarrow> v' = v"
    and "(k, v) \<in> set keys \<or> (\<exists>i. map_of (dsReplicas s) k = Some i \<and> inVersion i = v)"
  shows "\<exists>i. map_of (dsReplicas s') k = Some i \<and> inVersion i = v"
  using assms
proof (induction keys arbitrary: s w)
  case Nil
  then show ?case by simp
next
  case (Cons kv keys)
  obtain key u where kv: "kv = (key, u)" by fastforce
  obtain r1 s1 w1 where one: "run_state (revertOne wk we key u s) w = ((r1, s1), w1)" by (metis prod.exhaust)
  have rest: "isOk r1" "run_state (revertLoop wk we keys s1) w1 = ((r, s'), w')"
    using Cons.prems(1,2) one by (auto simp: kv isOk_iff split: sum.splits)
  from revertOne_run [OF one] have step: "otherReplicas key s s1"
    "u > 0 \<Longrightarrow> \<exists>i'. map_of (dsReplicas s1) key = Some i' \<and> inVersion i' = u" using rest(1) by auto
  have "(k, v) \<in> set keys \<or> (\<exists>i. map_of (dsReplicas s1) k = Some i \<and> inVersion i = v)"
  proof (cases "k = key")
    case True
    then have "u = v" using Cons.prems(4) kv by auto
    with step(2) Cons.prems(3) True show ?thesis by auto
  next
    case False
    with step(1) Cons.prems(5) kv show ?thesis by (auto simp: otherReplicas_def)
  qed
  with Cons.IH [OF rest(2) Cons.prems(2,3)] Cons.prems(4) show ?case by auto
qed

lemma journalInOrder_mem: "(k, v) \<in> set (journalInOrder m) \<longleftrightarrow> map_of m k = Some v"
proof -
  have "k \<in> fst ` set m \<longleftrightarrow> map_of m k \<noteq> None" by (metis map_of_eq_None_iff)
  then show ?thesis by (auto simp: journalInOrder_def sortedJournalKeys_def image_iff split: option.splits)
qed


definition demoJournal :: workerRollout where
  "demoJournal = (newJournal demoWk 2 0)\<lparr>wrReplacedFrom := [(''0'', 1)]\<rparr>"

definition demoInterrupted :: deployState where
  "demoInterrupted = demoWorkerFleet\<lparr>dsWorkerRollout := Some demoJournal\<rparr>"


end
