(* ===== verification/WorkerManage.thy ===== *)
theory WorkerManage
  imports Worker
begin

text \<open>
  The manual commands over worker replicas (\<open>internal/deploy/worker_manage.go\<close>): start, stop, restart of
  one or all, scale, and what a reader sees of a fleet.  The lock and the recovery of a pending secret
  transaction are arguments; so is the restart of a worker that uses secrets.
\<close>

section \<open>The program\<close>

text \<open>
  What the commands find outside: the lock, the recovery (which tells whether there was anything to
  recover), whether the application has committed bindings, its restart with secrets, and what the wait for
  a fresh process observes.
\<close>

record alivePoll =
  apExited :: bool
  apCancelled :: bool
  apNow :: int

record 'r manager =
  mgAppName :: string
  mgLock :: "(code, unit) result"
  mgRecover :: "('r world, (code, bool) result) state"
  mgBindings :: "(code, bool) result"
  mgSecretRestart :: "('r world, (code, unit) result) state"
  mgGrace :: int
  mgPolls :: "nat \<Rightarrow> nat \<Rightarrow> alivePoll"

definition loadCode :: "loadError \<Rightarrow> code" where
  "loadCode e = (case e of NotExist \<Rightarrow> CodeUnknown | LoadFailed c \<Rightarrow> c)"

definition loadW :: "string \<Rightarrow> ('r world, (code, deployState) result) state" where
  "loadW name = look (\<lambda>w. case LoadState name (wFile w) of Inl e \<Rightarrow> Inl (loadCode e) | Inr s \<Rightarrow> Inr s)"

definition loadWorkerForMutation :: "'r manager \<Rightarrow> ('r world, (code, deployState) result) state" where
  "loadWorkerForMutation mg = do {
     loaded \<leftarrow> loadW (mgAppName mg);
     case loaded of
       Inl e \<Rightarrow> State_Monad.return (Inl e)
     | Inr s \<Rightarrow> do {
         outcome \<leftarrow> mgRecover mg;
         case outcome of
           Inl e \<Rightarrow> State_Monad.return (Inl e)
         | Inr renewed \<Rightarrow> if renewed then loadW (mgAppName mg) else State_Monad.return (Inr s)
       }
   }"

text \<open>Every command takes the lock, loads the record and refuses an application that is no worker.\<close>

definition underLock :: "'r manager \<Rightarrow> 'a \<Rightarrow> (deployState \<Rightarrow> ('r world, 'a \<times> (code, unit) result) state) \<Rightarrow>
    ('r world, 'a \<times> (code, unit) result) state" where
  "underLock mg zero body =
     (case mgLock mg of
        Inl e \<Rightarrow> State_Monad.return (zero, Inl e)
      | Inr _ \<Rightarrow> do {
          loaded \<leftarrow> loadWorkerForMutation mg;
          case loaded of
            Inl e \<Rightarrow> State_Monad.return (zero, Inl e)
          | Inr s \<Rightarrow> if dsMode s \<noteq> ModeWorker then State_Monad.return (zero, Inl CodeConfiguration) else body s
        })"

subsection \<open>Start\<close>

definition aliveWindow :: "int \<Rightarrow> int" where
  "aliveWindow window = (if window \<le> 0 \<or> window > 10 * second then 10 * second else window)"

definition alivePause :: int where
  "alivePause = 100000000"

text \<open>\<open>Some (alive, exited)\<close>: what the wait answers, and whether the process went away on the way.\<close>

fun aliveLoop :: "nat \<Rightarrow> int \<Rightarrow> (nat \<Rightarrow> alivePoll) \<Rightarrow> nat \<Rightarrow> bool option" where
  "aliveLoop 0 deadline polls k = None"
| "aliveLoop (Suc fuel) deadline polls k =
     (if apExited (polls k) then Some False
      else if apCancelled (polls k) then Some True
      else if apNow (polls k) > deadline then Some True
      else aliveLoop fuel deadline polls (Suc k))"

definition aliveFuel :: "int \<Rightarrow> nat" where
  "aliveFuel window = nat (aliveWindow window div alivePause) + 2"

definition waitForWorkerAlive :: "'r manager \<Rightarrow> deployEnv \<Rightarrow> inst \<Rightarrow> ('r world, bool) state" where
  "waitForWorkerAlive mg env i =
     act (\<lambda>n w.
       if \<not> WorkerInstanceAlive (evLinks env) (wOs w) i then (False, w)
       else case aliveLoop (aliveFuel (mgGrace mg)) (evNow env n + aliveWindow (mgGrace mg)) (mgPolls mg n) 0 of
         Some True \<Rightarrow> (True, w)
       | _ \<Rightarrow> (False, w\<lparr>wOs := endProcess (NativeProc (inPID i)) (wOs w)\<rparr>))"

definition adoptRunning :: "int \<Rightarrow> inst \<Rightarrow> inst" where
  "adoptRunning now i = i\<lparr>inStatus := ''running'', inReadyAt := (if inReadyAt i = 0 then now else inReadyAt i)\<rparr>"

definition restartedInst :: "int \<Rightarrow> inst \<Rightarrow> inst" where
  "restartedInst now i = i\<lparr>inStatus := ''running'', inReadyAt := now, inRestartCount := 0\<rparr>"

text \<open>A launched replica is recorded as running with its counter reset; a failed write is only dropped.\<close>

definition recordRestarted :: "deployEnv \<Rightarrow> string \<Rightarrow> deployState \<Rightarrow> ('r world, deployState) state" where
  "recordRestarted env key s = do {
     now \<leftarrow> nowW env;
     (p, s1) \<leftarrow> storeW env (withReplica key (restartedInst now (replicaOrBlank key s)) s);
     State_Monad.return s1
   }"

fun startReplicas ::
    "'r manager \<Rightarrow> workerEnvironment \<Rightarrow> string list \<Rightarrow> int \<Rightarrow> deployState \<Rightarrow> ('r world, int \<times> (code, unit) result) state" where
  "startReplicas mg we [] launched s = State_Monad.return (launched, Inr ())"
| "startReplicas mg we (key # keys) launched s =
     (case map_of (dsReplicas s) key of
        None \<Rightarrow> startReplicas mg we keys launched s
      | Some i \<Rightarrow> do {
          let env = weDeploy we;
          alive \<leftarrow> look (\<lambda>w. WorkerInstanceAlive (evLinks env) (wOs w) i);
          if alive then
            (if inStatus i \<noteq> ''running'' \<and> inStatus i \<noteq> ''starting'' then do {
               now \<leftarrow> nowW env;
               (p, s1) \<leftarrow> storeW env (withReplica key (adoptRunning now i) s);
               startReplicas mg we keys launched s1
             }
             else startReplicas mg we keys launched s)
          else do {
            (r, s1) \<leftarrow> LaunchWorkerReplica we s key;
            case r of
              Inl e \<Rightarrow> State_Monad.return (launched, Inl CodeInstanceStartFailed)
            | Inr found \<Rightarrow> do {
                up \<leftarrow> waitForWorkerAlive mg env (replicaOrBlank key s1);
                if \<not> up then State_Monad.return (launched + 1, Inl CodeInstanceStartFailed)
                else do {
                  s2 \<leftarrow> recordRestarted env key s1;
                  startReplicas mg we keys (launched + 1) s2
                }
              }
          }
        })"

definition WorkerStart :: "'r manager \<Rightarrow> workerEnvironment \<Rightarrow> ('r world, int \<times> (code, unit) result) state" where
  "WorkerStart mg we = underLock mg 0 (\<lambda>s. startReplicas mg we (replicaIndices (dsReplicas s)) 0 s)"

subsection \<open>Stop\<close>

fun stopReplicas ::
    "deployEnv \<Rightarrow> string list \<Rightarrow> int \<Rightarrow> deployState \<Rightarrow> ('r world, int \<times> (code, unit) result) state" where
  "stopReplicas env [] stopped s = State_Monad.return (stopped, Inr ())"
| "stopReplicas env (key # keys) stopped s =
     (case map_of (dsReplicas s) key of
        None \<Rightarrow> stopReplicas env keys stopped s
      | Some i \<Rightarrow> do {
          alive \<leftarrow> look (\<lambda>w. WorkerInstanceAlive (evLinks env) (wOs w) i);
          if \<not> alive then
            (if inStatus i \<noteq> ''stopped'' then do {
               (p, s1) \<leftarrow> storeW env (withReplica key (i\<lparr>inStatus := ''stopped''\<rparr>) s);
               stopReplicas env keys stopped s1
             }
             else stopReplicas env keys stopped s)
          else do {
            report \<leftarrow> stopWorkerW env i;
            if \<not> rpExited report then State_Monad.return (stopped, Inl CodeProcessFailed)
            else do {
              (p, s1) \<leftarrow> storeW env (withReplica key (stoppedInst i) s);
              case p of
                Inl e \<Rightarrow> State_Monad.return (stopped, Inl e)
              | Inr _ \<Rightarrow> stopReplicas env keys (stopped + 1) s1
            }
          }
        })"

definition WorkerStop :: "'r manager \<Rightarrow> workerEnvironment \<Rightarrow> ('r world, int \<times> (code, unit) result) state" where
  "WorkerStop mg we = underLock mg 0 (\<lambda>s. stopReplicas (weDeploy we) (replicaIndices (dsReplicas s)) 0 s)"

subsection \<open>Restart\<close>

definition hasInstanceSecrets :: "deployState \<Rightarrow> bool" where
  "hasInstanceSecrets s \<longleftrightarrow>
     list_ex (\<lambda>i. inSecretEnvs i \<noteq> []) (dsRetiring s @ map snd (dsSlots s) @ map snd (dsReplicas s))"

text \<open>Stop one replica if it runs, launch it again at its recorded version.\<close>

definition restartOne ::
    "workerEnvironment \<Rightarrow> string \<Rightarrow> inst \<Rightarrow> deployState \<Rightarrow> ('r world, (code, unit) result \<times> deployState) state" where
  "restartOne we key i s = do {
     let env = weDeploy we;
     alive \<leftarrow> look (\<lambda>w. WorkerInstanceAlive (evLinks env) (wOs w) i);
     report \<leftarrow> (if alive then stopWorkerW env i else State_Monad.return nothingToStop);
     if \<not> rpExited report then State_Monad.return (Inl CodeProcessFailed, s)
     else do {
       (r, s1) \<leftarrow> LaunchWorkerReplica we s key;
       case r of
         Inl e \<Rightarrow> State_Monad.return (Inl CodeInstanceStartFailed, s1)
       | Inr found \<Rightarrow> do {
           s2 \<leftarrow> recordRestarted env key s1;
           State_Monad.return (Inr (), s2)
         }
     }
   }"

definition WorkerRestartReplica :: "'r manager \<Rightarrow> workerEnvironment \<Rightarrow> string \<Rightarrow> ('r world, (code, unit) result) state" where
  "WorkerRestartReplica mg we slot = do {
     (u, r) \<leftarrow> underLock mg () (\<lambda>s.
       case map_of (dsReplicas s) slot of
         None \<Rightarrow> State_Monad.return ((), Inl CodeNotFound)
       | Some i \<Rightarrow>
           let secretly = do { r \<leftarrow> mgSecretRestart mg; State_Monad.return ((), r) };
               plainly = do { (r, s1) \<leftarrow> restartOne we slot i s; State_Monad.return ((), r) }
           in if inSecretEnvs i \<noteq> [] \<or> hasInstanceSecrets s then secretly
              else case mgBindings mg of
                Inl e \<Rightarrow> State_Monad.return ((), Inl e)
              | Inr bound \<Rightarrow> if bound then secretly else plainly);
     State_Monad.return r
   }"

fun restartReplicas ::
    "workerEnvironment \<Rightarrow> string list \<Rightarrow> int \<Rightarrow> deployState \<Rightarrow> ('r world, int \<times> (code, unit) result) state" where
  "restartReplicas we [] restarted s = State_Monad.return (restarted, Inr ())"
| "restartReplicas we (key # keys) restarted s =
     (case map_of (dsReplicas s) key of
        None \<Rightarrow> restartReplicas we keys restarted s
      | Some i \<Rightarrow> do {
          (r, s1) \<leftarrow> restartOne we key i s;
          case r of
            Inl e \<Rightarrow> State_Monad.return (restarted, Inl e)
          | Inr _ \<Rightarrow> restartReplicas we keys (restarted + 1) s1
        })"

definition WorkerRestartAll :: "'r manager \<Rightarrow> workerEnvironment \<Rightarrow> ('r world, int \<times> (code, unit) result) state" where
  "WorkerRestartAll mg we = underLock mg 0 (\<lambda>s.
     case mgBindings mg of
       Inl e \<Rightarrow> State_Monad.return (0, Inl e)
     | Inr bound \<Rightarrow>
         if bound \<or> hasInstanceSecrets s then do {
           r \<leftarrow> mgSecretRestart mg;
           State_Monad.return (case r of Inl e \<Rightarrow> (0, Inl e) | Inr _ \<Rightarrow> (int (length (dsReplicas s)), Inr ()))
         }
         else restartReplicas we (replicaIndices (dsReplicas s)) 0 s)"

subsection \<open>Scale\<close>

definition currentWorkerArtifact :: "deployState \<Rightarrow> string \<times> string \<times> int" where
  "currentWorkerArtifact s =
     (case find (\<lambda>i. inBinaryPath i \<noteq> '''') (map (\<lambda>k. replicaOrBlank k s) (rev (replicaIndices (dsReplicas s)))) of
        Some i \<Rightarrow> (inBinaryPath i, inEnvPath i, inVersion i)
      | None \<Rightarrow> ('''', '''', 0))"

text \<open>The new slots, one after the other; the number returned is the width reached.\<close>

fun growReplicas ::
    "workerEnvironment \<Rightarrow> string \<Rightarrow> string \<Rightarrow> int \<Rightarrow> nat list \<Rightarrow> int \<Rightarrow> deployState
       \<Rightarrow> ('r world, int \<times> (code, unit) result) state" where
  "growReplicas we bin envPath ver [] desired s = State_Monad.return (desired, Inr ())"
| "growReplicas we bin envPath ver (n # ns) desired s = do {
     let key = utoa n;
     let env = weDeploy we;
     (r, s1) \<leftarrow> LaunchWorkerReplica we (withReplica key (pointedAt bin envPath ver (replicaOrBlank key s)) s) key;
     case r of
       Inl e \<Rightarrow> State_Monad.return (int n, Inl CodeInstanceStartFailed)
     | Inr found \<Rightarrow> do {
         now \<leftarrow> nowW env;
         (p, s2) \<leftarrow> storeW env (withReplica key (readyInst now (replicaOrBlank key s1)) s1);
         growReplicas we bin envPath ver ns desired s2
       }
   }"

fun drainSurplus :: "deployEnv \<Rightarrow> inst list \<Rightarrow> ('r world, (code, unit) result) state" where
  "drainSurplus env [] = State_Monad.return (Inr ())"
| "drainSurplus env (i # is) = do {
     alive \<leftarrow> look (\<lambda>w. WorkerInstanceAlive (evLinks env) (wOs w) i);
     report \<leftarrow> (if alive then stopWorkerW env i else State_Monad.return nothingToStop);
     if \<not> rpExited report then State_Monad.return (Inl CodeProcessFailed) else drainSurplus env is
   }"

definition shrinkReplicas ::
    "workerEnvironment \<Rightarrow> int \<Rightarrow> deployState \<Rightarrow> ('r world, (code, unit) result) state" where
  "shrinkReplicas we desired s =
     (case applyReplicaSet (dsReplicas s) desired of
        (surplus, kept) \<Rightarrow> do {
          r \<leftarrow> drainSurplus (weDeploy we) surplus;
          case r of
            Inl e \<Rightarrow> State_Monad.return (Inl e)
          | Inr _ \<Rightarrow> do {
              (p, s1) \<leftarrow> storeW (weDeploy we) (s\<lparr>dsReplicas := ensureReplicaMap kept (nat desired)\<rparr>);
              State_Monad.return p
            }
        })"

text \<open>The widths before and after, as the command reports them.\<close>

definition WorkerScale :: "'r manager \<Rightarrow> workerEnvironment \<Rightarrow> int \<Rightarrow> ('r world, (int \<times> int) \<times> (code, unit) result) state" where
  "WorkerScale mg we desired = underLock mg (0, 0) (\<lambda>s.
     let from = int (length (dsReplicas s)) in
     if desired < 1 then State_Monad.return ((from, from), Inl CodeInvalidArgument)
     else if desired = from then State_Monad.return ((from, from), Inr ())
     else if desired > from then
       (case currentWorkerArtifact s of
          (bin, envPath, ver) \<Rightarrow>
            if bin = '''' then State_Monad.return ((from, from), Inl CodeConfiguration)
            else do {
              (reached, r) \<leftarrow> growReplicas we bin envPath ver [length (dsReplicas s)..<nat desired] desired
                               (s\<lparr>dsReplicas := ensureReplicaMap (dsReplicas s) (nat desired)\<rparr>);
              State_Monad.return ((from, reached), r)
            })
     else do {
       r \<leftarrow> shrinkReplicas we desired s;
       State_Monad.return ((from, desired), r)
     })"

subsection \<open>What a reader sees\<close>

definition WorkerReplicaSlots :: "string \<Rightarrow> ('r world, (code, string list) result) state" where
  "WorkerReplicaSlots name = do {
     loaded \<leftarrow> loadW name;
     State_Monad.return (case loaded of
       Inl e \<Rightarrow> Inl e
     | Inr s \<Rightarrow> if dsMode s \<noteq> ModeWorker then Inl CodeConfiguration else Inr (replicaIndices (dsReplicas s)))
   }"

record workerSummary =
  wsDesired :: int
  wsRunning :: int
  wsFailed :: int
  wsStopped :: int
  wsCrashloop :: bool
  wsStatus :: string
  wsPID :: int
  wsStartedAt :: int

text \<open>How one replica counts: running, failed (and whether in a crash loop), or stopped.\<close>

definition countReplica :: "(inst \<Rightarrow> bool) \<Rightarrow> inst \<Rightarrow> workerSummary \<Rightarrow> workerSummary" where
  "countReplica alive i sm =
     (if inStatus i = ''running'' \<or> inStatus i = ''starting'' then
        (if alive i then sm\<lparr>wsRunning := wsRunning sm + 1\<rparr> else sm\<lparr>wsFailed := wsFailed sm + 1\<rparr>)
      else if inStatus i = ''crashloop'' then sm\<lparr>wsFailed := wsFailed sm + 1, wsCrashloop := True\<rparr>
      else if inStatus i = ''failed'' then sm\<lparr>wsFailed := wsFailed sm + 1\<rparr>
      else sm\<lparr>wsStopped := wsStopped sm + 1\<rparr>)"

definition sortedIntSlots :: "(string \<times> inst) list \<Rightarrow> string list" where
  "sortedIntSlots m = sortSlice (\<lambda>s t. replicaNumber s < replicaNumber t) (map fst m)"

definition SummarizeWorker :: "(string \<Rightarrow> string option) \<Rightarrow> os \<Rightarrow> deployState \<Rightarrow> workerSummary" where
  "SummarizeWorker lk sys s =
     (let alive = WorkerInstanceAlive lk sys;
          counted = fold (countReplica alive) (map snd (dsReplicas s))
            \<lparr>wsDesired = int (length (dsReplicas s)), wsRunning = 0, wsFailed = 0, wsStopped = 0, wsCrashloop = False,
             wsStatus = '''', wsPID = 0, wsStartedAt = 0\<rparr>;
          status = (if wsDesired counted = 0 \<or> wsRunning counted = 0 \<and> wsFailed counted = 0 then ''stopped''
                    else if wsRunning counted = wsDesired counted then ''running''
                    else ''degraded'');
          live = find alive (map (\<lambda>k. replicaOrBlank k s) (sortedIntSlots (dsReplicas s)))
      in case live of
           Some i \<Rightarrow> counted\<lparr>wsStatus := status, wsPID := inPID i, wsStartedAt := inStartedAt i\<rparr>
         | None \<Rightarrow> counted\<lparr>wsStatus := status\<rparr>)"

definition WorkerAlivePIDs :: "(string \<Rightarrow> string option) \<Rightarrow> os \<Rightarrow> deployState \<Rightarrow> int list" where
  "WorkerAlivePIDs lk sys s =
     map inPID (filter (WorkerInstanceAlive lk sys) (map (\<lambda>k. replicaOrBlank k s) (sortedIntSlots (dsReplicas s))))"

definition WorkerAppNames :: "(string \<Rightarrow> deployFile) \<Rightarrow> string list \<Rightarrow> string list" where
  "WorkerAppNames files dirs =
     filter (\<lambda>name. case LoadState name (files name) of Inl _ \<Rightarrow> False | Inr s \<Rightarrow> dsMode s = ModeWorker) dirs"

section \<open>The wait after a start ends\<close>

lemma aliveLoop_ends:
  assumes "\<And>k. start + (1 + int k) * alivePause \<le> apNow (polls k)"
    and "deadline < start + int (k + fuel) * alivePause" and "0 < fuel"
  shows "\<exists>r. aliveLoop fuel deadline polls k = Some r"
  using assms(2,3)
proof (induction fuel arbitrary: k)
  case (Suc fuel)
  show ?case
  proof (cases "fuel = 0")
    case True
    have "deadline < apNow (polls k)" using assms(1) [of k] Suc.prems(1) True by simp
    then show ?thesis by auto
  next
    case False
    then have "\<exists>r. aliveLoop fuel deadline polls (Suc k) = Some r" using Suc.IH [of "Suc k"] Suc.prems(1) by simp
    then show ?thesis by auto
  qed
qed simp

text \<open>Each turn pauses for a tenth of a second, so the fuel is enough for the window.\<close>

lemma aliveLoop_enough:
  assumes "\<And>k. start + (1 + int k) * alivePause \<le> apNow (polls k)"
  shows "\<exists>r. aliveLoop (aliveFuel window) (start + aliveWindow window) polls 0 = Some r"
proof -
  have pos: "aliveWindow window > 0" by (simp add: aliveWindow_def second_def)
  have "aliveWindow window < (aliveWindow window div alivePause + 1) * alivePause"
    by (simp add: alivePause_def)
  also have "\<dots> \<le> int (aliveFuel window) * alivePause"
    using pos by (intro mult_right_mono) (auto simp: aliveFuel_def alivePause_def pos_imp_zdiv_nonneg_iff)
  finally have "start + aliveWindow window < start + int (0 + aliveFuel window) * alivePause" by simp
  moreover have "0 < aliveFuel window" by (simp add: aliveFuel_def)
  ultimately show ?thesis by (rule aliveLoop_ends [OF assms])
qed

section \<open>Stopping\<close>

text \<open>Processes only end: what runs afterwards ran before.\<close>

definition onlyEnds :: "os \<Rightarrow> os \<Rightarrow> bool" where
  "onlyEnds sys sys' \<longleftrightarrow> (\<forall>q. osProcs sys' q = None \<or> osProcs sys' q = osProcs sys q)"

lemma onlyEnds_refl [simp]: "onlyEnds sys sys"
  by (simp add: onlyEnds_def)

lemma onlyEnds_trans: "onlyEnds a b \<Longrightarrow> onlyEnds b c \<Longrightarrow> onlyEnds a c"
  unfolding onlyEnds_def by metis

lemma noProcess_dead: "osProcs sys (inPID i) = None \<Longrightarrow> \<not> WorkerInstanceAlive lk sys i"
  by (simp add: WorkerInstanceAlive_def matchesIdentity_def processIdentityOf_def)

lemma onlyEnds_dead:
  assumes "onlyEnds sys sys'" and "\<not> WorkerInstanceAlive lk sys i"
  shows "\<not> WorkerInstanceAlive lk sys' i"
proof (cases "osProcs sys' (inPID i) = None")
  case True
  then show ?thesis by (rule noProcess_dead)
next
  case False
  with assms(1) have "osProcs sys' (inPID i) = osProcs sys (inPID i)" unfolding onlyEnds_def by metis
  then have "processIdentityOf sys' (inPID i) = processIdentityOf sys (inPID i)" by (simp add: processIdentityOf_def)
  then have "matchesIdentity lk sys' p = matchesIdentity lk sys p" if "piPID p = inPID i" for p
    unfolding matchesIdentity_def that by simp
  with assms(2) show ?thesis unfolding WorkerInstanceAlive_def by (simp split: if_splits)
qed

text \<open>What a stop does: it ends at most the process of the instance, and, when it reports the exit, that one.\<close>

lemma stopWorkerW_run:
  assumes "run_state (stopWorkerW env i) w = (rep, w')"
  shows "onlyEnds (wOs w) (wOs w')" and "moves {inPID i} w w'" and "wFile w' = wFile w" and "wSpawns w' = wSpawns w"
    and "rpExited rep \<Longrightarrow> \<not> WorkerInstanceAlive (evLinks env) (wOs w') i"
proof -
  show "moves {inPID i} w w'" using stopWorkerW_moves [of i "{inPID i}" env] assms by blast
  show "onlyEnds (wOs w) (wOs w')"
    using assms by (auto simp: stopWorkerW_def act_def GracefulStopWorker_def GracefulStop_def onlyEnds_def
        split: prod.splits if_splits reaction.splits)
  show "wFile w' = wFile w" "wSpawns w' = wSpawns w"
    using assms by (auto simp: stopWorkerW_def act_def split: prod.splits)
  show "\<not> WorkerInstanceAlive (evLinks env) (wOs w') i" if "rpExited rep"
    using assms that by (auto simp: stopWorkerW_def act_def GracefulStopWorker_def GracefulStop_def noProcess_dead
        split: prod.splits if_splits reaction.splits)
qed

lemma storeW_stored:
  assumes "run_state (storeW env s) w = ((Inr (), s'), w')" and "\<not> dsSecretPreparing s"
  shows "wFile w' = DeployFile s'"
  using run_storeW [OF assms(1)] assms(2) by (simp add: isOk_def)

lemma drainSurplus_run:
  assumes "run_state (drainSurplus env is) w = (r, w')"
  shows "onlyEnds (wOs w) (wOs w') \<and> moves (inPID ` set is) w w' \<and> wFile w' = wFile w \<and>
     (isOk r \<longrightarrow> (\<forall>i\<in>set is. \<not> WorkerInstanceAlive (evLinks env) (wOs w') i))"
  using assms
proof (induction "is" arbitrary: w)
  case Nil
  then show ?case by simp
next
  case (Cons i "is")
  let ?alive = "WorkerInstanceAlive (evLinks env) (wOs w) i"
  obtain rep w1 where st: "run_state (if ?alive then stopWorkerW env i else State_Monad.return nothingToStop) w = (rep, w1)"
    by fastforce
  have one: "onlyEnds (wOs w) (wOs w1)" "moves {inPID i} w w1" "wFile w1 = wFile w"
    "rpExited rep \<Longrightarrow> \<not> WorkerInstanceAlive (evLinks env) (wOs w1) i"
    using st stopWorkerW_run [of env i w rep w1] by (auto split: if_splits)
  show ?case
  proof (cases "rpExited rep")
    case False
    with Cons.prems st have "r = Inl CodeProcessFailed" "w' = w1" by (auto simp: look_def)
    with one show ?thesis by (auto simp: isOk_def intro: moves_mono)
  next
    case True
    with Cons.prems st have rest: "run_state (drainSurplus env is) w1 = (r, w')" by (simp add: look_def)
    note IH = Cons.IH [OF rest]
    have "moves (inPID ` set (i # is)) w w'"
      by (rule moves_trans [OF moves_mono [OF one(2)] moves_mono]) (use IH in auto)
    with one True IH show ?thesis using onlyEnds_trans onlyEnds_dead by (metis set_ConsD)
  qed
qed

lemma stopReplicas_run:
  assumes "run_state (stopReplicas env keys stopped s) w = ((m, r), w')"
  shows "onlyEnds (wOs w) (wOs w') \<and> wSpawns w' = wSpawns w \<and>
     (isOk r \<longrightarrow> (\<forall>k\<in>set keys. \<forall>i. map_of (dsReplicas s) k = Some i \<longrightarrow>
        \<not> WorkerInstanceAlive (evLinks env) (wOs w') i))"
  using assms
proof (induction keys arbitrary: stopped s w)
  case Nil
  then show ?case by simp
next
  case (Cons key keys)
  show ?case
  proof (cases "map_of (dsReplicas s) key")
    case None
    with Cons.prems have "run_state (stopReplicas env keys stopped s) w = ((m, r), w')" by simp
    from Cons.IH [OF this] None show ?thesis by auto
  next
    case (Some i)
    note k = Some
    have step: ?thesis
      if rest: "run_state (stopReplicas env keys n s1) w1 = ((m, r), w')" and ends: "onlyEnds (wOs w) (wOs w1)"
        and sp: "wSpawns w1 = wSpawns w" and dead: "\<not> WorkerInstanceAlive (evLinks env) (wOs w1) i"
        and same: "\<And>k'. k' \<noteq> key \<Longrightarrow> map_of (dsReplicas s1) k' = map_of (dsReplicas s) k'" for n s1 w1
    proof -
      note IH = Cons.IH [OF rest]
      then have e: "onlyEnds (wOs w1) (wOs w')" by blast
      have "\<not> WorkerInstanceAlive (evLinks env) (wOs w') j"
        if "isOk r" "k' \<in> set (key # keys)" "map_of (dsReplicas s) k' = Some j" for k' j
        using IH that k same onlyEnds_dead [OF e dead] by (cases "k' = key") auto
      with IH sp onlyEnds_trans [OF ends e] show ?thesis by auto
    qed
    have kept: "map_of (dsReplicas s1) k' = map_of (dsReplicas s) k'"
      if "run_state (storeW env (withReplica key j s)) v = ((p, s1), v')" "k' \<noteq> key" for j s1 v p v' k'
      using storeW_run(1) [OF that(1)] that(2) touchesOnly_withReplica [of key s j] by (simp add: touchesOnly_def)
    show ?thesis
    proof (cases "WorkerInstanceAlive (evLinks env) (wOs w) i")
      case False
      show ?thesis
      proof (cases "inStatus i = ''stopped''")
        case True
        with Cons.prems k False show ?thesis by (intro step [of stopped s w]) (auto simp: look_def)
      next
        case st: False
        obtain p s1 w1 where sr: "run_state (storeW env (withReplica key (i\<lparr>inStatus := ''stopped''\<rparr>) s)) w = ((p, s1), w1)"
          by (metis prod.exhaust)
        from Cons.prems k False st sr have "run_state (stopReplicas env keys stopped s1) w1 = ((m, r), w')" by (simp add: look_def)
        then show ?thesis by (rule step) (use storeW_run [OF sr] False kept [OF sr] in auto)
      qed
    next
      case True
      obtain rep w1 where st: "run_state (stopWorkerW env i) w = (rep, w1)" by fastforce
      note stop = stopWorkerW_run [OF st]
      show ?thesis
      proof (cases "rpExited rep")
        case False
        with Cons.prems k True st have "r = Inl CodeProcessFailed" "w' = w1" by (auto simp: look_def)
        with stop show ?thesis by (simp add: isOk_def)
      next
        case exited: True
        obtain p s1 w2 where sr: "run_state (storeW env (withReplica key (stoppedInst i) s)) w1 = ((p, s1), w2)"
          by (metis prod.exhaust)
        show ?thesis
        proof (cases p)
          case (Inl e)
          with Cons.prems k True st exited sr have "r = Inl e" "w' = w2" by (auto simp: look_def)
          with stop storeW_run [OF sr] show ?thesis by (simp add: isOk_def)
        next
          case (Inr u)
          with Cons.prems k True st exited sr have "run_state (stopReplicas env keys (stopped + 1) s1) w2 = ((m, r), w')"
            by (simp add: look_def)
          then show ?thesis by (rule step) (use storeW_run [OF sr] stop exited kept [OF sr] in auto)
        qed
      qed
    qed
  qed
qed

text \<open>
  Stopping a worker stops all of it.  When the command reports success, no replica of the record has
  its process left, whatever the exits and the writes of the single replicas did, and nothing was started.
\<close>
theorem worker_stop_leaves_nothing:
  assumes "LoadState (mgAppName mg) (wFile w) = Inr s" and "mgRecover mg = State_Monad.return (Inr False)"
    and "run_state (WorkerStop mg we) w = ((stopped, Inr ()), w')"
  shows "wSpawns w' = wSpawns w \<and> onlyEnds (wOs w) (wOs w') \<and>
     (\<forall>k i. map_of (dsReplicas s) k = Some i \<longrightarrow> \<not> WorkerInstanceAlive (evLinks (weDeploy we)) (wOs w') i)"
proof -
  let ?env = "weDeploy we"
  have "run_state (stopReplicas ?env (replicaIndices (dsReplicas s)) 0 s) w = ((stopped, Inr ()), w')"
    using assms by (auto simp: WorkerStop_def underLock_def loadWorkerForMutation_def loadW_def look_def
        split: sum.splits if_splits)
  from stopReplicas_run [OF this] have "wSpawns w' = wSpawns w" "onlyEnds (wOs w) (wOs w')"
    and dead: "\<And>k i. k \<in> set (replicaIndices (dsReplicas s)) \<Longrightarrow> map_of (dsReplicas s) k = Some i \<Longrightarrow>
      \<not> WorkerInstanceAlive (evLinks ?env) (wOs w') i"
    by (auto simp: isOk_iff)
  moreover have "k \<in> set (replicaIndices (dsReplicas s))" if "map_of (dsReplicas s) k = Some i" for k i
    using map_of_SomeD [OF that] by force
  ultimately show ?thesis by blast
qed

section \<open>A shrink\<close>

text \<open>The slots beyond the wanted number, of a record with the slots \<open>0\<close> to \<open>n - 1\<close>.\<close>

lemma surplus_mem:
  assumes keys: "map fst m = map utoa [0..<n]" and n: "n \<le> 2 ^ 63"
  shows "i \<in> set (fst (applyReplicaSet m d)) \<longleftrightarrow> (\<exists>j<n. d \<le> int j \<and> map_of m (utoa j) = Some i \<and> hasProcess i)"
proof -
  have dist: "distinct (map fst m)" unfolding keys by (simp add: distinct_map inj_on_def)
  have sur: "surplusKey d (utoa j) \<longleftrightarrow> d \<le> int j" if "j < n" for j
    using surplusKey_utoa [of j d] that n by simp
  have slot: "(k, i) \<in> set m \<longleftrightarrow> (\<exists>j<n. k = utoa j \<and> map_of m (utoa j) = Some i)" for k
  proof
    assume ki: "(k, i) \<in> set m"
    then have "k \<in> set (map fst m)" by force
    moreover have "map_of m k = Some i" using dist ki by simp
    ultimately show "\<exists>j<n. k = utoa j \<and> map_of m (utoa j) = Some i" unfolding keys by auto
  qed (auto dest: map_of_SomeD)
  have "i \<in> set (fst (applyReplicaSet m d)) \<longleftrightarrow> (\<exists>k. (k, i) \<in> set m \<and> surplusKey d k \<and> hasProcess i)"
    by (auto simp: applyReplicaSet_def image_iff)
  then show ?thesis using slot sur by auto
qed

lemma withoutProcess_dead: "\<not> hasProcess i \<Longrightarrow> \<not> WorkerInstanceAlive lk sys i"
  by (simp add: hasProcess_def WorkerInstanceAlive_def)

text \<open>
  Scaling a worker down removes exactly the surplus.  When it reports success, the stored record has
  exactly the wanted slots, each as it was, no removed replica has its process left, and only processes
  of removed replicas were touched.
\<close>
theorem worker_scale_down_exact:
  assumes "LoadState (mgAppName mg) (wFile w) = Inr s" and "mgRecover mg = State_Monad.return (Inr False)"
    and "map fst (dsReplicas s) = map utoa [0..<n]" and "n \<le> 2 ^ 63" and "d < n" and "\<not> dsSecretPreparing s"
    and "run_state (WorkerScale mg we (int d)) w = ((widths, Inr ()), w')"
  shows "widths = (int n, int d) \<and>
     (\<exists>s'. wFile w' = DeployFile s' \<and> map fst (dsReplicas s') = map utoa [0..<d] \<and>
        (\<forall>j<d. map_of (dsReplicas s') (utoa j) = map_of (dsReplicas s) (utoa j))) \<and>
     (\<forall>j i. d \<le> j \<and> j < n \<and> map_of (dsReplicas s) (utoa j) = Some i \<longrightarrow>
        \<not> WorkerInstanceAlive (evLinks (weDeploy we)) (wOs w') i) \<and>
     (\<forall>q. (\<forall>j i. d \<le> j \<and> j < n \<and> map_of (dsReplicas s) (utoa j) = Some i \<longrightarrow> inPID i \<noteq> q) \<longrightarrow>
        osProcs (wOs w') q = osProcs (wOs w) q)"
proof -
  let ?env = "weDeploy we" and ?m = "dsReplicas s"
  let ?surplus = "fst (applyReplicaSet ?m (int d))" and ?s = "s\<lparr>dsReplicas := startMap d ?m\<rparr>"
  have len: "length ?m = n" using assms(3) by (metis length_map length_upt minus_nat.diff_0)
  have run: "run_state (shrinkReplicas we (int d) s) w = (Inr (), w')" "widths = (int n, int d)"
    using assms(1,2,5,7) len by (auto simp: WorkerScale_def underLock_def loadWorkerForMutation_def loadW_def look_def Let_def
        split: sum.splits if_splits prod.splits)
  obtain r w1 where dr: "run_state (drainSurplus ?env ?surplus) w = (r, w1)" by fastforce
  with run(1) have ok: "isOk r" by (auto simp: shrinkReplicas_def isOk_iff split: prod.splits sum.splits)
  with run(1) dr obtain s' where st: "run_state (storeW ?env ?s) w1 = ((Inr (), s'), w')"
    by (auto simp: shrinkReplicas_def isOk_iff startMap_def split: prod.splits)
  note drained = drainSurplus_run [OF dr] and stored = storeW_run [OF st]
  have disk: "wFile w' = DeployFile s'" using storeW_stored [OF st] assms(6) by simp
  have keys: "map fst (dsReplicas s') = map utoa [0..<d]" using stored(1) startMap_keys by simp
  have kept: "map_of (dsReplicas s') (utoa j) = map_of ?m (utoa j)" if "j < d" for j
  proof -
    have "utoa j \<in> set (map fst ?m)" unfolding assms(3) using that assms(5) by simp
    then obtain i where i: "map_of ?m (utoa j) = Some i" by (metis map_of_eq_None_iff not_None_eq set_map)
    have d: "d \<le> 2 ^ 63" using assms(4,5) by simp
    have "(utoa j, i) \<in> set (startMap d ?m)" unfolding startMap_entry [OF d] using that i by auto
    moreover have "distinct (map fst (startMap d ?m))" unfolding startMap_keys by (simp add: distinct_map inj_on_def)
    ultimately have "map_of (startMap d ?m) (utoa j) = Some i" by simp
    with i stored(1) show ?thesis by simp
  qed
  have dead: "\<not> WorkerInstanceAlive (evLinks ?env) (wOs w') i" if "d \<le> j" "j < n" "map_of ?m (utoa j) = Some i" for j i
  proof (cases "hasProcess i")
    case True
    with that have "i \<in> set ?surplus" unfolding surplus_mem [OF assms(3,4)] by auto
    with drained ok stored(4) show ?thesis by auto
  qed (rule withoutProcess_dead)
  have untouched: "osProcs (wOs w') q = osProcs (wOs w) q"
    if others: "\<And>j i. d \<le> j \<Longrightarrow> j < n \<Longrightarrow> map_of ?m (utoa j) = Some i \<Longrightarrow> inPID i \<noteq> q" for q
  proof -
    have "inPID i \<noteq> q" if "i \<in> set ?surplus" for i
      using iffD1 [OF surplus_mem [OF assms(3,4)] that] others by auto
    then have "q \<notin> inPID ` set ?surplus" by auto
    with drained stored(4) show ?thesis unfolding moves_def by simp
  qed
  from run(2) disk keys kept dead untouched show ?thesis by blast
qed

section \<open>Concrete commands\<close>

definition demoMg :: "unit manager" where
  "demoMg =
     \<lparr>mgAppName = ''jobs'', mgLock = Inr (), mgRecover = State_Monad.return (Inr False), mgBindings = Inr False,
      mgSecretRestart = State_Monad.return (Inr ()), mgGrace = 0, mgPolls = (\<lambda>_ _. \<lparr>apExited = False, apCancelled = True, apNow = 0\<rparr>)\<rparr>"

definition demoPair :: deployState where
  "demoPair = demoWorkerState\<lparr>dsReplicas := [(''0'', demoCrashed), (''1'', demoCrashed\<lparr>inPID := 8\<rparr>)]\<rparr>"

definition demoPairWorld :: "unit world" where
  "demoPairWorld = demoWorld\<lparr>wFile := DeployFile demoPair\<rparr>"

lemma demoPair_simps:
  "dsAppName demoPair = ''jobs''" "dsMode demoPair = ModeWorker" "\<not> dsSecretPreparing demoPair"
  "dsReplicas demoPair = [(''0'', demoCrashed), (''1'', demoCrashed\<lparr>inPID := 8\<rparr>)]"
  "wFile demoPairWorld = DeployFile demoPair"
  by (simp_all add: demoPair_def demoWorkerState_def initState_def demoPairWorld_def)

lemma demoPair_loads: "LoadState (mgAppName demoMg) (wFile demoPairWorld) = Inr demoPair"
proof -
  have "isOk (ValidateAppName ''jobs'')" by code_simp
  then show ?thesis by (simp add: LoadState_Inr demoMg_def demoPair_simps ModeWorker_def)
qed

lemma demoPair_slots: "replicaIndices (dsReplicas demoPair) = [''0'', ''1'']" "map utoa [0..<2] = [''0'', ''1'']"
  unfolding demoPair_simps replicaIndices_def by code_simp+

text \<open>In the calm environment every write and every stop succeeds.\<close>

lemma calm_storeW:
  assumes "dsAppName s = ''jobs''"
  shows "\<exists>s' w'. run_state (storeW calmEnv s) w = ((Inr (), s'), w') \<and> dsAppName s' = ''jobs'' \<and> dsReplicas s' = dsReplicas s"
proof -
  obtain r s' w' where run: "run_state (storeW calmEnv s) w = ((r, s'), w')" by (metis prod.exhaust)
  have "isOk (ValidateAppName (dsAppName s))" unfolding assms by code_simp
  moreover have "evStore calmEnv (wClock w) = StoreFine" by (simp add: calmEnv_def)
  ultimately have "r = Inr ()" using run_storeW_fine [OF run] assms by simp
  moreover have "dsAppName s' = ''jobs''" using tripleD [OF storeW_spawns refl run] assms by simp
  ultimately show ?thesis using run storeW_run(1) [OF run] by auto
qed

lemma calm_stopW: "\<exists>rep w'. run_state (stopWorkerW calmEnv i) w = (rep, w') \<and> rpExited rep"
  by (simp add: stopWorkerW_def act_def GracefulStopWorker_def GracefulStop_def calmEnv_def nothingToStop_def)

lemma calm_stopReplicas:
  "dsAppName s = ''jobs'' \<Longrightarrow> \<exists>m w'. run_state (stopReplicas calmEnv keys stopped s) w = ((m, Inr ()), w')"
proof (induction keys arbitrary: stopped s w)
  case (Cons key keys)
  show ?case
  proof (cases "map_of (dsReplicas s) key")
    case (Some i)
    obtain rep w1 where st: "run_state (stopWorkerW calmEnv i) w = (rep, w1)" "rpExited rep" using calm_stopW by blast
    obtain s1 w2 where s1: "run_state (storeW calmEnv (withReplica key (stoppedInst i) s)) w1 = ((Inr (), s1), w2)" "dsAppName s1 = ''jobs''"
      using calm_storeW [of "withReplica key (stoppedInst i) s" w1] Cons.prems by (auto simp: withReplica_def)
    obtain s2 w3 where s2: "run_state (storeW calmEnv (withReplica key (i\<lparr>inStatus := ''stopped''\<rparr>) s)) w = ((Inr (), s2), w3)"
        "dsAppName s2 = ''jobs''"
      using calm_storeW [of "withReplica key (i\<lparr>inStatus := ''stopped''\<rparr>) s" w] Cons.prems by (auto simp: withReplica_def)
    show ?thesis
      using Cons.IH [OF Cons.prems, of stopped w] Cons.IH [OF s1(2), of "stopped + 1" w2] Cons.IH [OF s2(2), of stopped w3] Some st s1 s2
      by (simp add: look_def)
  qed (use Cons in simp)
qed simp

theorem worker_stop_leaves_nothing_witness:
  "\<exists>stopped w'. run_state (WorkerStop demoMg demoWE) demoPairWorld = ((stopped, Inr ()), w') \<and> wSpawns w' = wSpawns demoPairWorld \<and>
     \<not> WorkerInstanceAlive (evLinks calmEnv) (wOs w') demoCrashed"
proof -
  have env: "weDeploy demoWE = calmEnv" by (simp add: demoWE_def)
  obtain m w' where "run_state (stopReplicas calmEnv [''0'', ''1''] 0 demoPair) demoPairWorld = ((m, Inr ()), w')"
    using calm_stopReplicas [of demoPair "[''0'', ''1'']" 0 demoPairWorld] demoPair_simps(1) by blast
  then have run: "run_state (WorkerStop demoMg demoWE) demoPairWorld = ((m, Inr ()), w')"
    using demoPair_loads by (simp add: WorkerStop_def underLock_def loadWorkerForMutation_def loadW_def look_def env
        demoPair_slots demoPair_simps(2) demoMg_def)
  have "mgRecover demoMg = State_Monad.return (Inr False)" by (simp add: demoMg_def)
  note stop = worker_stop_leaves_nothing [OF demoPair_loads this run, unfolded env]
  have "map_of (dsReplicas demoPair) ''0'' = Some demoCrashed" by (simp add: demoPair_simps)
  with stop run show ?thesis by blast
qed

theorem worker_scale_down_exact_witness:
  "\<exists>widths w' s'. run_state (WorkerScale demoMg demoWE (int 1)) demoPairWorld = ((widths, Inr ()), w') \<and>
     widths = (2, 1) \<and> wFile w' = DeployFile s' \<and> map fst (dsReplicas s') = [''0'']"
proof -
  have env: "weDeploy demoWE = calmEnv" by (simp add: demoWE_def)
  have len: "length (dsReplicas demoPair) = 2" by (simp add: demoPair_simps)
  have drain: "\<exists>w'. run_state (drainSurplus calmEnv is) w = (Inr (), w')" for "is" and w :: "unit world"
  proof (induction "is" arbitrary: w)
    case (Cons i "is")
    obtain rep w1 where st: "run_state (stopWorkerW calmEnv i) w = (rep, w1)" "rpExited rep" using calm_stopW by blast
    from Cons.IH [of w] Cons.IH [of w1] st show ?case by (simp add: look_def nothingToStop_def)
  qed simp
  obtain surplus kept where split: "applyReplicaSet (dsReplicas demoPair) 1 = (surplus, kept)" by fastforce
  obtain w1 where w1: "run_state (drainSurplus calmEnv surplus) demoPairWorld = (Inr (), w1)"
    using drain by blast
  obtain s1 w' where "run_state (storeW calmEnv (demoPair\<lparr>dsReplicas := ensureReplicaMap kept (nat 1)\<rparr>)) w1 = ((Inr (), s1), w')"
    using calm_storeW [of "demoPair\<lparr>dsReplicas := ensureReplicaMap kept (nat 1)\<rparr>" w1] demoPair_simps(1) by auto
  with w1 have "run_state (shrinkReplicas demoWE 1 demoPair) demoPairWorld = (Inr (), w')"
    by (simp add: shrinkReplicas_def env split)
  then have run: "run_state (WorkerScale demoMg demoWE (int 1)) demoPairWorld = (((2, 1), Inr ()), w')"
    using demoPair_loads by (simp add: WorkerScale_def underLock_def loadWorkerForMutation_def loadW_def look_def
        demoPair_simps(2) demoMg_def len)
  have "mgRecover demoMg = State_Monad.return (Inr False)" by (simp add: demoMg_def)
  moreover have "map fst (dsReplicas demoPair) = map utoa [0..<2]" unfolding demoPair_slots by (simp add: demoPair_simps)
  moreover have one: "map utoa [0..<1] = [''0'']" by code_simp
  ultimately obtain s' where "wFile w' = DeployFile s'" "map fst (dsReplicas s') = [''0'']"
    using worker_scale_down_exact [OF demoPair_loads _ _ _ _ demoPair_simps(3) run, of 2] unfolding one by auto
  with run show ?thesis by auto
qed

end
