(* ===== verification/Spec2Isabelle.thy ===== *)
theory Spec2Isabelle
  imports Plans Gate Versions Topo Webhook OpsLedger Rollout WorkerManage
begin

text \<open>
  Verification of Phelix, a single-host deployment agent written in Go.

  \<^bold>\<open>The program.\<close>  A webhook or a command asks for an operation.  The operation may need a plan and
  an approval (\<open>internal/plans\<close>, \<open>internal/authz\<close>), it runs at most once per request key
  (\<open>internal/ops\<close>), webhook deliveries become queued jobs (\<open>internal/webhook\<close>), builds become numbered
  versions (\<open>internal/deploy/version.go\<close>), and a deployment strategy (\<open>internal/deploy\<close>) starts a
  candidate, checks it (\<open>internal/health\<close>), moves the traffic of the reverse proxy (\<open>internal/proxy\<close>)
  and drains the old instance.  Workers have no port: their replicas are replaced under a startup gate
  and kept alive by a supervisor (\<open>internal/supervisor\<close>).  A launch gets the environment variables
  (\<open>internal/env\<close>) and the secrets (\<open>internal/secrets\<close>) of its application, and whatever is printed
  passes a redactor (\<open>internal/errors\<close>).

  \<^bold>\<open>Theories.\<close>
  \<^item> \<open>Prelude\<close>, \<open>GoStrings\<close>, \<open>Errors\<close>: results, small list and map facts, the functions of Go's
    \<open>strings\<close> and \<open>strconv\<close> the sources use, error codes and their chains (\<open>internal/errors\<close>).
  \<^item> \<open>AtomicFile\<close>, \<open>Retention\<close>: writing a file through a temporary name and a rename, and keeping the
    newest entries of a directory; both are locales the stores interpret.
  \<^item> \<open>Plans\<close>: plan files, their hash, life cycle, retention and the evaluation of preconditions.
  \<^item> \<open>Authz\<close>, \<open>Approval\<close>, \<open>Gate\<close>: the policy, approvals bound to a plan, and the gate every mutating
    operation passes, with its audit log.  The decision refines a declarative specification.
  \<^item> \<open>Versions\<close>: the version index with its artifacts and the current link.
  \<^item> \<open>Topo\<close>: dependency levels of a workspace (\<open>internal/workspace/graph.go\<close>).
  \<^item> \<open>LedgerIndex\<close>, \<open>Delivery\<close>, \<open>Jobs\<close>, \<open>HookQueue\<close>, \<open>Webhook\<close>: the replay ledger, the job store, the
    queue as a small-step machine, and the endpoint that composes them.
  \<^item> \<open>OpsLedger\<close>: the request-key ledger, shared by several processes over one file; it refines an
    abstract ledger.
  \<^item> \<open>Proxy\<close>, \<open>ProxyDaemon\<close>: one reverse proxy with its weighted schedule and liveness cache, and the
    daemon with its control requests, persisted routes and restart.
  \<^item> \<open>Instances\<close>, \<open>DeployHealth\<close>: recognising and stopping a recorded process or container, and the
    tiered wait for a healthy candidate.
  \<^item> \<open>DeployState\<close>: the deployment record and the world the strategies act on, a state monad in which
    every external call is one step with an outcome chosen by the environment, and triples over it.
  \<^item> \<open>BlueGreen\<close>, \<open>Rolling\<close>, \<open>Rollout\<close>: the three strategies for served applications, with every abort and
    compensation, the weighted steps of a canary and the comparison of its traffic with the baseline;
    \<open>Lifecycle\<close>: reconciliation, reaping, teardown, and the start after a reboot.
  \<^item> \<open>EnvStore\<close>, \<open>Redact\<close>, \<open>Secrets\<close>: the encrypted variables with their master key, the registry of
    secret values with its matcher, and the versioned secret store with its transactions, pinned sets
    and the overlay of a launch.
  \<^item> \<open>WorkerOps\<close>, \<open>Supervisor\<close>, \<open>Worker\<close>: one worker replica (launch, record, exit, stop, probe), the
    reconcile pass of the supervisor with its restart policy, and the deployments of workers with the
    journal of a rollout, its revert and its recovery.

  \<^bold>\<open>How code becomes definitions.\<close>  Structs are records, string enumerations are strings or datatypes
  with the constructors of the source, Go maps are association lists where iteration order matters and
  partial functions elsewhere; every theorem about a loop over a map holds for every order.  Errors are
  values of \<open>code + 'a\<close>.  The file system, the clock, processes, sockets and third-party code are
  arguments: a system call that may fail takes its outcome from the environment, and the theorems
  quantify over it.  SHA-256, HMAC, AES-GCM, the JSON decoder and YAML are functions with named hypotheses.
  Weights and scores of the proxy are wrapped to 64 bits; version numbers, ports and times are integers
  that the code never brings near their bounds.

  \<^bold>\<open>What is proved.\<close>  The gate opens exactly when the specification authorises, an approval serves only
  its plan; stored plans and approvals never change; a delivery is accepted, made durable and built
  once; the queue is first-in first-out and drains on shutdown; a job never leaves a terminal state and
  survives crashes; a request key executes once and then replays; pruning keeps every version in use and
  promotion is atomic; dependency levels are correct; the proxy serves exact shares and only live
  backends, its routes are well formed after every history and survive a restart; a stop never hits a
  foreign process; the health wait ends and is sound; blue-green, rolling and canary deployments keep the
  public port served after every step, whatever fails; a start after a reboot serves again; and reconciliation
  makes the record tell the truth.  The secret store stays whole, a secret that was set is resolved, a
  launch gets exactly what it declares, a held value never reaches the output, and stored variables stay
  readable.  A rolling replacement of a worker leaves no replica without a process, a revert never claims
  more than it did, a crash loop is bounded, a replica is started only in place of a dead one, and the
  delay before a restart keeps its bounds.

  \<^bold>\<open>Fuel.\<close>  The health wait carries \<open>timeout div interval + 2\<close> turns: a turn after the first needs a
  tick of the interval and the loop leaves at the deadline, which \<open>WaitForHealthy_terminates\<close> proves
  to be enough; the window of a rollout step is bounded in the same way (\<open>observeStep_verdict\<close>).  The level computation of \<open>Topo\<close> carries the number of services, one for each level.
  The gate of a worker carries \<open>timeout div pause + 2\<close> turns, enough because every turn takes the pause
  (\<open>gateLoop_enough\<close>).  Everything else is total by structural recursion.

  \<^bold>\<open>Limits of the model.\<close>  A control call to the proxy daemon is atomic; its request or its reply may be
  lost.  The strategies are verified for deployments in which no reply of a switch is lost: with such a
  loss the code stops the instance the proxy has just been switched to.  The rolling theorem is about
  deployments without secrets that do not migrate from another strategy, the canary theorem about
  blue-green records.  Error rates and latencies are rationals, without the rounding of \<open>float64\<close>.
  Processes other than the candidate do not exit on their own in the zero-downtime theorems.  New worker
  processes take unused process ids.  The backoff multiplies by a rational instead of a \<open>float64\<close>, and
  the bound on a crash loop assumes that the counter can be written.  Redaction is the one of ASCII text.

  \<^bold>\<open>Not modelled.\<close>  The rollback engine, the reconciliation of secret transactions and the worker
  deployments that stage secrets: they repeat the strategies above over several records at once.  The
  rest is input and output around the parts above: the command line and its rendering, telemetry, the
  backend connection over gRPC, builders and container runtimes (external processes), log collection and
  the health daemon, self-update, project files and their schema.
\<close>

end
